(* ===== verification/Fallow_Prelude.thy ===== *)
theory Fallow_Prelude
  imports Main "HOL-Library.Word" "HOL-Library.List_Lexorder" "HOL-Library.Char_ord"
    "HOL-Library.Product_Lexorder"
begin

text \<open>
  Shared vocabulary of the development: the machine integers the code uses, the part of
  Rust's string and slice library the components call, and the generic lemmas about them.

  A Rust \<^verbatim>\<open>str\<close> is a \<open>string\<close>, read as a list of Unicode scalar values below 256; the
  predicates on characters (white space, alphanumeric) follow Rust's definition on that
  range, and \<open>str_len\<close> is the length in UTF-8 bytes that \<^verbatim>\<open>str::len\<close> returns.
  \<^verbatim>\<open>usize\<close> values that only count or index in-memory data are \<open>nat\<close>; values whose
  width shows in the result (hashes, flags, saturating offsets, cache discriminants) are words.
\<close>

section \<open>Types\<close>

type_synonym u8 = "8 word"
type_synonym u32 = "32 word"
type_synonym u64 = "64 word"

text \<open>
  A path is its list of components, so that the order on paths is the component-wise
  lexicographic order of \<^verbatim>\<open>Path::cmp\<close>.
\<close>

type_synonym path = "string list"

text \<open>A byte range of a source file (the \<^verbatim>\<open>Span\<close> of the oxc parser).\<close>

record Span =
  span_begin :: nat
  span_end :: nat

section \<open>Collections of rewrite rules\<close>

named_theorems str_simps \<open>evaluation of the string functions\<close>
named_theorems slice_simps \<open>evaluation of the slice functions\<close>

section \<open>Strings\<close>

definition is_whitespace :: "char \<Rightarrow> bool" where
  "is_whitespace c = (let n = of_char c :: nat in (9 \<le> n \<and> n \<le> 13) \<or> n = 32 \<or> n = 133 \<or> n = 160)"

definition is_ascii_alphanumeric :: "char \<Rightarrow> bool" where
  "is_ascii_alphanumeric c = (let n = of_char c :: nat in
     (48 \<le> n \<and> n \<le> 57) \<or> (65 \<le> n \<and> n \<le> 90) \<or> (97 \<le> n \<and> n \<le> 122))"

definition ascii_lower :: "char \<Rightarrow> char" where
  "ascii_lower c = (let n = of_char c :: nat in if 65 \<le> n \<and> n \<le> 90 then char_of (n + 32) else c)"

definition to_ascii_lowercase :: "string \<Rightarrow> string" where
  "to_ascii_lowercase s = map ascii_lower s"

text \<open>Length in UTF-8 bytes.\<close>

definition str_len :: "string \<Rightarrow> nat" where
  "str_len s = (\<Sum>c\<leftarrow>s. if (of_char c :: nat) < 128 then 1 else 2)"

definition trim_start :: "string \<Rightarrow> string" where
  "trim_start s = dropWhile is_whitespace s"

definition trim_end :: "string \<Rightarrow> string" where
  "trim_end s = rev (dropWhile is_whitespace (rev s))"

definition trim :: "string \<Rightarrow> string" where
  "trim s = trim_end (trim_start s)"

fun strip_prefix :: "'a list \<Rightarrow> 'a list \<Rightarrow> 'a list option" where
  "strip_prefix [] s = Some s"
| "strip_prefix (p # ps) [] = None"
| "strip_prefix (p # ps) (c # s) = (if p = c then strip_prefix ps s else None)"

definition strip_suffix :: "'a list \<Rightarrow> 'a list \<Rightarrow> 'a list option" where
  "strip_suffix suf s = map_option rev (strip_prefix (rev suf) (rev s))"

text \<open>\<^verbatim>\<open>str::split\<close> with a predicate: always at least one piece, separators dropped.\<close>

fun split_on :: "('a \<Rightarrow> bool) \<Rightarrow> 'a list \<Rightarrow> 'a list list" where
  "split_on p [] = [[]]"
| "split_on p (c # s) =
     (if p c then [] # split_on p s
      else case split_on p s of [] \<Rightarrow> [[c]] | w # ws \<Rightarrow> (c # w) # ws)"

fun split_once :: "'a \<Rightarrow> 'a list \<Rightarrow> ('a list \<times> 'a list) option" where
  "split_once d [] = None"
| "split_once d (c # s) =
     (if c = d then Some ([], s)
      else case split_once d s of None \<Rightarrow> None | Some (a, b) \<Rightarrow> Some (c # a, b))"

text \<open>The rendering of a path, its last component, and decimal numerals.\<close>

fun path_string :: "path \<Rightarrow> string" where
  "path_string [] = []"
| "path_string [c] = c"
| "path_string (c # d # ds) = (if c = ''/'' then c else c @ ''/'') @ path_string (d # ds)"

definition file_name :: "path \<Rightarrow> string option" where
  "file_name p = (if p = [] \<or> last p \<in> {''/'', ''..''} then None else Some (last p))"

definition byte_char :: "nat \<Rightarrow> char" where
  "byte_char n = char_of n"

fun decimal :: "nat \<Rightarrow> string" where
  "decimal n =
     (if n < 10 then [byte_char (48 + n)] else decimal (n div 10) @ [byte_char (48 + n mod 10)])"

declare decimal.simps [simp del]

lemma strip_prefix_eq: "strip_prefix p s = Some r \<longleftrightarrow> s = p @ r"
  by (induction p s rule: strip_prefix.induct) auto

lemma strip_prefix_append [simp]: "strip_prefix p (p @ r) = Some r"
  by (simp add: strip_prefix_eq)

lemma strip_suffix_eq: "strip_suffix suf s = Some r \<longleftrightarrow> s = r @ suf"
  by (auto simp: strip_suffix_def strip_prefix_eq) (metis rev_append rev_rev_ident)

lemma split_once_Some:
  "split_once d s = Some (a, b) \<longleftrightarrow> s = a @ d # b \<and> d \<notin> set a"
proof (induction s arbitrary: a)
  case Nil
  then show ?case by simp
next
  case (Cons c s)
  have IH: "split_once d s = None \<longleftrightarrow> d \<notin> set s" for d :: 'a
    by (induction s) (auto split: option.splits)
  show ?case
  proof (cases a)
    case Nil
    then show ?thesis by (auto split: option.splits)
  next
    case (Cons x xs)
    then show ?thesis
      using Cons.IH [of xs] IH [of d] by (cases "split_once d s") auto
  qed
qed

lemma split_once_None: "split_once d s = None \<longleftrightarrow> d \<notin> set s"
  by (induction s) (auto split: option.splits)

lemma split_on_nonempty [simp]: "split_on p s \<noteq> []"
  by (induction s) (auto split: list.splits)

lemma split_on_pieces: "w \<in> set (split_on p s) \<Longrightarrow> c \<in> set w \<Longrightarrow> \<not> p c \<and> c \<in> set s"
proof (induction s arbitrary: w)
  case Nil
  then show ?case by simp
next
  case (Cons x s)
  show ?case
  proof (cases "p x")
    case True
    with Cons show ?thesis by auto
  next
    case False
    obtain v vs where v: "split_on p s = v # vs" by (cases "split_on p s") auto
    from Cons.prems False v consider "w = x # v" | "w \<in> set vs" by auto
    then show ?thesis
      using Cons.IH [of v] Cons.IH [of w] Cons.prems False v by cases auto
  qed
qed

lemma split_on_none: "(\<And>c. c \<in> set s \<Longrightarrow> \<not> p c) \<Longrightarrow> split_on p s = [s]"
  by (induction s) (auto split: list.splits)

section \<open>Slices\<close>

text \<open>
  \<^verbatim>\<open>partition_point\<close>: the index of the first element that fails the predicate, on a
  slice whose elements satisfying it come first.
\<close>

definition partition_point :: "('a \<Rightarrow> bool) \<Rightarrow> 'a list \<Rightarrow> nat" where
  "partition_point p xs = length (takeWhile p xs)"

lemma partition_point_le [simp]: "partition_point p xs \<le> length xs"
  by (simp add: partition_point_def length_takeWhile_le)

lemma partition_point_Nil [simp]: "partition_point p [] = 0"
  by (simp add: partition_point_def)

lemma partition_point_below: "i < partition_point p xs \<Longrightarrow> p (xs ! i)"
  unfolding partition_point_def by (metis nth_mem set_takeWhileD takeWhile_nth)

lemma partition_point_at: "partition_point p xs < length xs \<Longrightarrow> \<not> p (xs ! partition_point p xs)"
  unfolding partition_point_def by (rule nth_length_takeWhile)

lemma takeWhile_split:
  "\<forall>x \<in> set xs. p x \<Longrightarrow> \<forall>y \<in> set ys. \<not> p y \<Longrightarrow> takeWhile p (xs @ ys) = xs"
  by (cases ys) (auto simp: takeWhile_append2)

text \<open>The slice \<^verbatim>\<open>xs[i..j]\<close>.\<close>

definition slice :: "nat \<Rightarrow> nat \<Rightarrow> 'a list \<Rightarrow> 'a list" where
  "slice i j xs = take (j - i) (drop i xs)"

lemma length_slice [simp]: "j \<le> length xs \<Longrightarrow> length (slice i j xs) = j - i"
  by (simp add: slice_def)

lemma nth_slice [simp]: "k < j - i \<Longrightarrow> j \<le> length xs \<Longrightarrow> slice i j xs ! k = xs ! (i + k)"
  by (simp add: slice_def)

lemma set_slice_subset: "set (slice i j xs) \<subseteq> set xs"
  unfolding slice_def by (meson in_set_dropD in_set_takeD subsetI)

lemma slice_Suc: "i \<le> j \<Longrightarrow> j < length xs \<Longrightarrow> slice i (Suc j) xs = slice i j xs @ [xs ! j]"
  by (simp add: slice_def Suc_diff_le take_Suc_conv_app_nth)

lemma slice_eqI:
  assumes "i + n \<le> length xs" "j + n \<le> length ys" "\<And>k. k < n \<Longrightarrow> xs ! (i + k) = ys ! (j + k)"
  shows "slice i (i + n) xs = slice j (j + n) ys"
  using assms by (intro nth_equalityI) auto

lemma slice_eqD:
  assumes "slice i (i + n) xs = slice j (j + n) ys" "i + n \<le> length xs" "j + n \<le> length ys" "k < n"
  shows "xs ! (i + k) = ys ! (j + k)"
  using assms by (metis add_diff_cancel_left' nth_slice)


text \<open>\<^verbatim>\<open>position\<close>: the index of the first element that satisfies a predicate.\<close>

fun first_index :: "('a \<Rightarrow> bool) \<Rightarrow> 'a list \<Rightarrow> nat option" where
  "first_index p [] = None"
| "first_index p (x # xs) = (if p x then Some 0 else map_option Suc (first_index p xs))"

lemma first_index_Some:
  "first_index p xs = Some i \<longleftrightarrow> i < length xs \<and> p (xs ! i) \<and> (\<forall>j<i. \<not> p (xs ! j))"
proof (induction xs arbitrary: i)
  case (Cons x xs)
  then show ?case by (cases i) (auto simp: less_Suc_eq_0_disj)
qed simp

lemma first_index_None: "first_index p xs = None \<longleftrightarrow> (\<forall>x \<in> set xs. \<not> p x)"
  by (induction xs) auto

text \<open>Appending what is not yet there: the order of first occurrences.\<close>

definition push_new :: "'a \<Rightarrow> 'a list \<Rightarrow> 'a list" where
  "push_new x acc = (if x \<in> set acc then acc else acc @ [x])"

definition first_occurrences :: "'a list \<Rightarrow> 'a list" where
  "first_occurrences xs = fold push_new xs []"

lemma fold_push_new_distinct: "distinct acc \<Longrightarrow> distinct (fold push_new xs acc)"
  by (induction xs arbitrary: acc) (auto simp: push_new_def)

lemma fold_push_new_set: "set (fold push_new xs acc) = set acc \<union> set xs"
  by (induction xs arbitrary: acc) (auto simp: push_new_def)

lemma fold_push_new_append:
  "distinct xs \<Longrightarrow> set xs \<inter> set acc = {} \<Longrightarrow> fold push_new xs acc = acc @ xs"
  by (induction xs arbitrary: acc) (auto simp: push_new_def)

lemma distinct_first_occurrences [simp]: "distinct (first_occurrences xs)"
  by (simp add: first_occurrences_def fold_push_new_distinct)

lemma set_first_occurrences [simp]: "set (first_occurrences xs) = set xs"
  by (simp add: first_occurrences_def fold_push_new_set)

lemma first_occurrences_distinct: "distinct xs \<Longrightarrow> first_occurrences xs = xs"
  by (simp add: first_occurrences_def fold_push_new_append)

lemma first_occurrences_Nil [simp]: "first_occurrences [] = []"
  by (simp add: first_occurrences_def)

text \<open>In a concatenation without repetitions every element has one owner.\<close>

lemma distinct_concat_map_owner:
  "distinct (concat (map h fs)) \<Longrightarrow> f \<in> set fs \<Longrightarrow> g \<in> set fs \<Longrightarrow>
     x \<in> set (h f) \<Longrightarrow> x \<in> set (h g) \<Longrightarrow> f = g"
  by (induction fs) auto

section \<open>Saturating arithmetic\<close>

definition sat_add_u32 :: "u32 \<Rightarrow> u32 \<Rightarrow> u32" where
  "sat_add_u32 a b = (if unat a + unat b < 2 ^ 32 then a + b else 4294967295)"

definition sat_sub_u32 :: "u32 \<Rightarrow> u32 \<Rightarrow> u32" where
  "sat_sub_u32 a b = (if b \<le> a then a - b else 0)"

lemma unat_sat_add_u32: "unat (sat_add_u32 a b) = min (unat a + unat b) (2 ^ 32 - 1)"
proof (cases "unat a + unat b < 2 ^ 32")
  case True
  then show ?thesis by (simp add: sat_add_u32_def unat_word_ariths)
next
  case False
  then show ?thesis by (simp add: sat_add_u32_def)
qed

lemma unat_sat_sub_u32: "unat (sat_sub_u32 a b) = unat a - unat b"
  by (simp add: sat_sub_u32_def unat_sub word_le_nat_alt)

end
