(* ===== verification/Graph_Types.thy ===== *)
theory Graph_Types
  imports Fallow_Prelude
begin

text \<open>
  The data of the module dependency graph (\<^verbatim>\<open>graph/src/graph/types.rs\<close>, the structures of
  \<^verbatim>\<open>graph/src/graph/mod.rs\<close> and the resolved modules of
  \<^verbatim>\<open>graph/src/resolve/types.rs\<close>): module nodes with their packed flags, edges, exports with
  their references, and the read-only queries of the graph.

  A \<^verbatim>\<open>FileId\<close> is a natural number, an \<^verbatim>\<open>FxHashSet\<close> a set and an \<^verbatim>\<open>FxHashMap\<close> a partial
  function. A \<^verbatim>\<open>FixedBitSet\<close> is its length with the set of its members.
\<close>

unbundle bit_operations_syntax

section \<open>Names, imports and exports\<close>

type_synonym FileId = nat

datatype ExportName = ExpNamed string | ExpDefault

definition matches_str :: "ExportName \<Rightarrow> string \<Rightarrow> bool" where
  "matches_str self s = (case self of ExpNamed n \<Rightarrow> n = s | ExpDefault \<Rightarrow> s = ''default'')"

definition export_display :: "ExportName \<Rightarrow> string" where
  "export_display self = (case self of ExpNamed n \<Rightarrow> n | ExpDefault \<Rightarrow> ''default'')"

datatype ImportedName = ImpNamed string | ImpDefault | ImpNamespace | ImpSideEffect

definition imported_name_label :: "ImportedName \<Rightarrow> string" where
  "imported_name_label name =
     (case name of
        ImpNamed n \<Rightarrow> n
      | ImpDefault \<Rightarrow> ''default''
      | ImpNamespace \<Rightarrow> ''*''
      | ImpSideEffect \<Rightarrow> ''side-effect'')"

datatype VisibilityTag = VisNone | VisPublic | VisInternal | VisBeta | VisAlpha | VisExpectedUnused

definition suppresses_unused :: "VisibilityTag \<Rightarrow> bool" where
  "suppresses_unused self \<longleftrightarrow> self \<in> {VisPublic, VisInternal, VisBeta, VisAlpha}"

datatype MemberKind = EnumMember | ClassMethod | ClassProperty | NamespaceMember | StoreMember

record MemberInfo =
  member_name :: string
  member_kind :: MemberKind
  member_span :: Span
  has_decorator :: bool
  decorator_names :: "string list"
  is_instance_returning_static :: bool
  is_self_returning :: bool

datatype ReferenceKind =
    NamedImport
  | DefaultImport
  | NamespaceImport
  | ReExport
  | DynamicImport
  | SideEffectImport

record SymbolReference =
  from_file :: FileId
  ref_kind :: ReferenceKind
  ref_span :: Span

record ExportSymbol =
  export_name :: ExportName
  exp_is_type_only :: bool
  is_side_effect_used :: bool
  visibility :: VisibilityTag
  expected_unused_reason :: "string option"
  export_span :: Span
  references :: "SymbolReference list"
  members :: "MemberInfo list"

record ReExportEdge =
  source_file :: FileId
  re_imported_name :: string
  re_exported_name :: string
  re_is_type_only :: bool
  re_span :: Span

section \<open>Module nodes and their flags\<close>

record ModuleNode =
  file_id :: FileId
  node_path :: path
  edge_range :: "nat \<times> nat"
  exports :: "ExportSymbol list"
  re_exports :: "ReExportEdge list"
  flags :: u8

definition FLAG_ENTRY_POINT :: u8 where "FLAG_ENTRY_POINT = push_bit 0 1"
definition FLAG_REACHABLE :: u8 where "FLAG_REACHABLE = push_bit 1 1"
definition FLAG_RUNTIME_REACHABLE :: u8 where "FLAG_RUNTIME_REACHABLE = push_bit 2 1"
definition FLAG_TEST_REACHABLE :: u8 where "FLAG_TEST_REACHABLE = push_bit 3 1"
definition FLAG_CJS_EXPORTS :: u8 where "FLAG_CJS_EXPORTS = push_bit 4 1"

definition is_entry_point :: "ModuleNode \<Rightarrow> bool" where
  "is_entry_point self \<longleftrightarrow> flags self AND FLAG_ENTRY_POINT \<noteq> 0"

definition is_reachable :: "ModuleNode \<Rightarrow> bool" where
  "is_reachable self \<longleftrightarrow> flags self AND FLAG_REACHABLE \<noteq> 0"

definition is_runtime_reachable :: "ModuleNode \<Rightarrow> bool" where
  "is_runtime_reachable self \<longleftrightarrow> flags self AND FLAG_RUNTIME_REACHABLE \<noteq> 0"

definition is_test_reachable :: "ModuleNode \<Rightarrow> bool" where
  "is_test_reachable self \<longleftrightarrow> flags self AND FLAG_TEST_REACHABLE \<noteq> 0"

definition has_cjs_exports :: "ModuleNode \<Rightarrow> bool" where
  "has_cjs_exports self \<longleftrightarrow> flags self AND FLAG_CJS_EXPORTS \<noteq> 0"

definition set_entry_point :: "bool \<Rightarrow> ModuleNode \<Rightarrow> ModuleNode" where
  "set_entry_point v self =
     (if v then self\<lparr>flags := flags self OR FLAG_ENTRY_POINT\<rparr>
      else self\<lparr>flags := flags self AND NOT FLAG_ENTRY_POINT\<rparr>)"

definition set_reachable :: "bool \<Rightarrow> ModuleNode \<Rightarrow> ModuleNode" where
  "set_reachable v self =
     (if v then self\<lparr>flags := flags self OR FLAG_REACHABLE\<rparr>
      else self\<lparr>flags := flags self AND NOT FLAG_REACHABLE\<rparr>)"

definition set_runtime_reachable :: "bool \<Rightarrow> ModuleNode \<Rightarrow> ModuleNode" where
  "set_runtime_reachable v self =
     (if v then self\<lparr>flags := flags self OR FLAG_RUNTIME_REACHABLE\<rparr>
      else self\<lparr>flags := flags self AND NOT FLAG_RUNTIME_REACHABLE\<rparr>)"

definition set_test_reachable :: "bool \<Rightarrow> ModuleNode \<Rightarrow> ModuleNode" where
  "set_test_reachable v self =
     (if v then self\<lparr>flags := flags self OR FLAG_TEST_REACHABLE\<rparr>
      else self\<lparr>flags := flags self AND NOT FLAG_TEST_REACHABLE\<rparr>)"

definition set_cjs_exports :: "bool \<Rightarrow> ModuleNode \<Rightarrow> ModuleNode" where
  "set_cjs_exports v self =
     (if v then self\<lparr>flags := flags self OR FLAG_CJS_EXPORTS\<rparr>
      else self\<lparr>flags := flags self AND NOT FLAG_CJS_EXPORTS\<rparr>)"

definition flags_from :: "bool \<Rightarrow> bool \<Rightarrow> bool \<Rightarrow> u8" where
  "flags_from entry_point runtime cjs =
     (let f = 0;
          f = (if entry_point then f OR FLAG_ENTRY_POINT else f);
          f = (if runtime then f OR FLAG_RUNTIME_REACHABLE else f);
          f = (if cjs then f OR FLAG_CJS_EXPORTS else f)
      in f)"

section \<open>Resolved modules\<close>

datatype ResolveResult =
    InternalModule FileId
  | InternalPackageModule FileId string
  | ExternalFile path
  | NpmPackage string
  | Unresolvable string

definition internal_file_id :: "ResolveResult \<Rightarrow> FileId option" where
  "internal_file_id self =
     (case self of
        InternalModule f \<Rightarrow> Some f
      | InternalPackageModule f _ \<Rightarrow> Some f
      | ExternalFile _ \<Rightarrow> None
      | NpmPackage _ \<Rightarrow> None
      | Unresolvable _ \<Rightarrow> None)"

definition package_usage_name :: "ResolveResult \<Rightarrow> string option" where
  "package_usage_name self =
     (case self of
        InternalPackageModule _ name \<Rightarrow> Some name
      | NpmPackage name \<Rightarrow> Some name
      | InternalModule _ \<Rightarrow> None
      | ExternalFile _ \<Rightarrow> None
      | Unresolvable _ \<Rightarrow> None)"

record ImportInfo =
  ii_source :: string
  ii_imported_name :: ImportedName
  ii_local_name :: string
  ii_is_type_only :: bool
  ii_from_style :: bool
  ii_span :: Span
  ii_source_span :: Span

record ReExportInfo =
  ri_source :: string
  ri_imported_name :: string
  ri_exported_name :: string
  ri_is_type_only :: bool
  ri_span :: Span

record ExportInfo =
  ei_name :: ExportName
  ei_local_name :: "string option"
  ei_is_type_only :: bool
  ei_is_side_effect_used :: bool
  ei_visibility :: VisibilityTag
  ei_expected_unused_reason :: "string option"
  ei_span :: Span
  ei_members :: "MemberInfo list"
  ei_super_class :: "string option"

record MemberAccess =
  ma_object :: string
  ma_member :: string

record NamespaceObjectAlias =
  via_export_name :: string
  suffix :: string
  namespace_local :: string

record DynamicImportPattern =
  dip_prefix :: string
  dip_suffix :: "string option"
  dip_span :: Span

record ResolvedImport =
  import_info :: ImportInfo
  import_target :: ResolveResult

record ResolvedReExport =
  re_export_info :: ReExportInfo
  re_export_target :: ResolveResult

record ResolvedModule =
  rm_file_id :: FileId
  rm_path :: path
  rm_exports :: "ExportInfo list"
  rm_re_exports :: "ResolvedReExport list"
  resolved_imports :: "ResolvedImport list"
  resolved_dynamic_imports :: "ResolvedImport list"
  resolved_dynamic_patterns :: "(DynamicImportPattern \<times> FileId list) list"
  member_accesses :: "MemberAccess list"
  whole_object_uses :: "string list"
  rm_has_cjs_exports :: bool
  has_angular_component_template_url :: bool
  unused_import_bindings :: "string set"
  type_referenced_import_bindings :: "string list"
  value_referenced_import_bindings :: "string list"
  namespace_object_aliases :: "NamespaceObjectAlias list"

definition default_resolved_module :: ResolvedModule where
  "default_resolved_module =
     \<lparr>rm_file_id = 0, rm_path = [], rm_exports = [], rm_re_exports = [], resolved_imports = [],
      resolved_dynamic_imports = [], resolved_dynamic_patterns = [], member_accesses = [],
      whole_object_uses = [], rm_has_cjs_exports = False,
      has_angular_component_template_url = False, unused_import_bindings = {},
      type_referenced_import_bindings = [], value_referenced_import_bindings = [],
      namespace_object_aliases = []\<rparr>"

record DiscoveredFile =
  df_id :: FileId
  df_path :: path
  size_bytes :: u64

section \<open>The graph\<close>

record FixedBitSet =
  bit_length :: nat
  bits :: "nat set"

definition bit_contains :: "FixedBitSet \<Rightarrow> nat \<Rightarrow> bool" where
  "bit_contains b i \<longleftrightarrow> i < bit_length b \<and> i \<in> bits b"

record ImportedSymbol =
  imported_name :: ImportedName
  local_name :: string
  import_span :: Span
  sym_is_type_only :: bool

record Edge =
  edge_source :: FileId
  edge_target :: FileId
  symbols :: "ImportedSymbol list"

record GraphReExportCycle =
  cycle_files :: "path list"
  cycle_file_ids :: "FileId list"
  is_self_loop :: bool

record ModuleGraph =
  modules :: "ModuleNode list"
  edges :: "Edge list"
  package_usage :: "string \<Rightarrow> FileId list option"
  type_only_package_usage :: "string \<Rightarrow> FileId list option"
  entry_points :: "FileId set"
  runtime_entry_points :: "FileId set"
  test_entry_points :: "FileId set"
  reverse_deps :: "FileId list list"
  namespace_imported :: FixedBitSet
  re_export_cycles :: "GraphReExportCycle list"

definition edges_of :: "Edge list \<Rightarrow> ModuleNode \<Rightarrow> Edge list" where
  "edges_of es m = slice (fst (edge_range m)) (snd (edge_range m)) es"

section \<open>Queries\<close>

definition has_namespace_import :: "ModuleGraph \<Rightarrow> FileId \<Rightarrow> bool" where
  "has_namespace_import self f =
     (if f \<ge> bit_length (namespace_imported self) then False
      else bit_contains (namespace_imported self) f)"

definition edges_for :: "ModuleGraph \<Rightarrow> FileId \<Rightarrow> FileId list" where
  "edges_for self f =
     (if f \<ge> length (modules self) then []
      else map edge_target (edges_of (edges self) (modules self ! f)))"

definition value_span_start :: "Edge \<Rightarrow> nat option" where
  "value_span_start e =
     (case find (\<lambda>s. \<not> sym_is_type_only s) (symbols e) of
        Some s \<Rightarrow> Some (span_begin (import_span s))
      | None \<Rightarrow> (case symbols e of [] \<Rightarrow> None | s # _ \<Rightarrow> Some (span_begin (import_span s))))"

definition find_import_span_start :: "ModuleGraph \<Rightarrow> FileId \<Rightarrow> FileId \<Rightarrow> nat option" where
  "find_import_span_start self src dst =
     (if src \<ge> length (modules self) then None
      else (case find (\<lambda>e. edge_target e = dst) (edges_of (edges self) (modules self ! src)) of
              None \<Rightarrow> None
            | Some e \<Rightarrow> value_span_start e))"

definition outgoing_edges :: "ModuleGraph \<Rightarrow> FileId \<Rightarrow> Edge list" where
  "outgoing_edges self f =
     (if f < length (modules self) then edges_of (edges self) (modules self ! f)
      else slice 0 0 (edges self))"

definition all_type_only :: "Edge \<Rightarrow> bool" where
  "all_type_only e \<longleftrightarrow> symbols e \<noteq> [] \<and> list_all sym_is_type_only (symbols e)"

definition outgoing_edge_summaries :: "ModuleGraph \<Rightarrow> FileId \<Rightarrow> (FileId \<times> bool \<times> nat option) list" where
  "outgoing_edge_summaries self f =
     map (\<lambda>e. (edge_target e, all_type_only e, value_span_start e)) (outgoing_edges self f)"

definition outgoing_edge_summaries_with_exclusions ::
  "ModuleGraph \<Rightarrow> FileId \<Rightarrow> nat set \<Rightarrow> (FileId \<times> bool \<times> nat option \<times> bool) list" where
  "outgoing_edge_summaries_with_exclusions self f excluded =
     map (\<lambda>e.
       let value_symbols = filter (\<lambda>s. \<not> sym_is_type_only s) (symbols e)
       in (edge_target e, all_type_only e, value_span_start e,
           value_symbols \<noteq> [] \<and>
           list_all (\<lambda>s. span_begin (import_span s) \<in> excluded) value_symbols))
       (outgoing_edges self f)"

record ImportedSymbolSummary =
  iss_imported :: string
  iss_local :: string
  iss_type_only :: bool

record DirectImporterSummary =
  dis_source :: FileId
  dis_symbols :: "ImportedSymbolSummary list"

definition summary_key :: "ImportedSymbolSummary \<Rightarrow> string \<times> string \<times> bool" where
  "summary_key s = (iss_imported s, iss_local s, iss_type_only s)"

definition summarize_symbol :: "ImportedSymbol \<Rightarrow> ImportedSymbolSummary" where
  "summarize_symbol s =
     \<lparr>iss_imported = imported_name_label (imported_name s), iss_local = local_name s,
      iss_type_only = sym_is_type_only s\<rparr>"

definition importer_summary :: "ModuleGraph \<Rightarrow> FileId \<Rightarrow> FileId \<Rightarrow> DirectImporterSummary option" where
  "importer_summary self dst src =
     (if src < length (modules self) then
        Some \<lparr>dis_source = src,
          dis_symbols = remdups_adj (sort_key summary_key
            (concat (map (\<lambda>e. map summarize_symbol (symbols e))
              (filter (\<lambda>e. edge_target e = dst) (edges_of (edges self) (modules self ! src))))))\<rparr>
      else None)"

definition direct_importer_summaries :: "ModuleGraph \<Rightarrow> FileId \<Rightarrow> DirectImporterSummary list" where
  "direct_importer_summaries self dst =
     (if dst < length (reverse_deps self) then
        sort_key dis_source (List.map_filter (importer_summary self dst) (reverse_deps self ! dst))
      else [])"

section \<open>The packed flags are five independent Booleans\<close>

lemmas flag_masks = FLAG_ENTRY_POINT_def FLAG_REACHABLE_def FLAG_RUNTIME_REACHABLE_def
  FLAG_TEST_REACHABLE_def FLAG_CJS_EXPORTS_def

lemmas flag_tests = is_entry_point_def is_reachable_def is_runtime_reachable_def
  is_test_reachable_def has_cjs_exports_def

lemmas flag_setters = set_entry_point_def set_reachable_def set_runtime_reachable_def
  set_test_reachable_def set_cjs_exports_def

lemma flag_test_bit: "w AND push_bit k 1 \<noteq> (0 :: u8) \<longleftrightarrow> bit w k"
  by (simp add: bit_iff_and_push_bit_not_eq_0)

record NodeFlags =
  nf_entry :: bool
  nf_reachable :: bool
  nf_runtime :: bool
  nf_test :: bool
  nf_cjs :: bool

definition node_flags :: "ModuleNode \<Rightarrow> NodeFlags" where
  "node_flags m = \<lparr>nf_entry = is_entry_point m, nf_reachable = is_reachable m,
     nf_runtime = is_runtime_reachable m, nf_test = is_test_reachable m, nf_cjs = has_cjs_exports m\<rparr>"

lemma node_flags_bits:
  "node_flags m = \<lparr>nf_entry = bit (flags m) 0, nf_reachable = bit (flags m) 1,
     nf_runtime = bit (flags m) 2, nf_test = bit (flags m) 3, nf_cjs = bit (flags m) 4\<rparr>"
  by (simp only: node_flags_def flag_tests flag_masks flag_test_bit)

lemma node_flags_setters:
  "node_flags (set_entry_point v m) = (node_flags m)\<lparr>nf_entry := v\<rparr>"
  "node_flags (set_reachable v m) = (node_flags m)\<lparr>nf_reachable := v\<rparr>"
  "node_flags (set_runtime_reachable v m) = (node_flags m)\<lparr>nf_runtime := v\<rparr>"
  "node_flags (set_test_reachable v m) = (node_flags m)\<lparr>nf_test := v\<rparr>"
  "node_flags (set_cjs_exports v m) = (node_flags m)\<lparr>nf_cjs := v\<rparr>"
  unfolding node_flags_bits by (cases v; simp add: flag_setters flag_masks bit_simps)+

lemma node_flags_flags_from:
  "node_flags (m\<lparr>flags := flags_from e r c\<rparr>) =
     \<lparr>nf_entry = e, nf_reachable = False, nf_runtime = r, nf_test = False, nf_cjs = c\<rparr>"
  unfolding node_flags_bits
  by (cases e; cases r; cases c) (simp_all add: flag_masks flags_from_def bit_simps Let_def)

text \<open>
  C25. The flag byte of a module node represents five independent Booleans: each setter changes
  its own flag, whatever the byte was, and no other flag and no other field; the constructor
  of the byte sets the three flags it is given and clears the two others.
\<close>

theorem packed_flags_refine:
  "node_flags (set_entry_point v m) = (node_flags m)\<lparr>nf_entry := v\<rparr> \<and>
   node_flags (set_reachable v m) = (node_flags m)\<lparr>nf_reachable := v\<rparr> \<and>
   node_flags (set_runtime_reachable v m) = (node_flags m)\<lparr>nf_runtime := v\<rparr> \<and>
   node_flags (set_test_reachable v m) = (node_flags m)\<lparr>nf_test := v\<rparr> \<and>
   node_flags (set_cjs_exports v m) = (node_flags m)\<lparr>nf_cjs := v\<rparr> \<and>
   node_flags (m\<lparr>flags := flags_from e r c\<rparr>) =
     \<lparr>nf_entry = e, nf_reachable = False, nf_runtime = r, nf_test = False, nf_cjs = c\<rparr> \<and>
   list_all (\<lambda>f. (f v m)\<lparr>flags := flags m\<rparr> = m)
     [set_entry_point, set_reachable, set_runtime_reachable, set_test_reachable, set_cjs_exports]"
  by (simp add: node_flags_setters node_flags_flags_from) (simp add: flag_setters)

end
