(* ===== verification/Tarjan_Search.thy ===== *)
theory Tarjan_Search
  imports Fallow_Prelude
begin

text \<open>
  Strongly connected components by Tarjan's algorithm in its iterative form, as the code uses
  it twice (\<^verbatim>\<open>SccState\<close> in \<^verbatim>\<open>graph/src/graph/cycles.rs\<close>, \<^verbatim>\<open>TarjanState\<close> in
  \<^verbatim>\<open>graph/src/graph/re_exports/mod.rs\<close>). This theory holds what the two share: the state
  record, components of a graph given by its successor lists, and a locale with the invariant
  of the search and the four ways it changes (descend, skip an edge, retreat, close a
  component). The stacks are lists with the top first.
\<close>

definition U32_MAX :: nat where "U32_MAX = 2 ^ 32 - 1"

record TarjanState =
  index_counter :: nat
  indices :: "nat list"
  lowlinks :: "nat list"
  on_stack :: "nat set"
  stack :: "nat list"
  sccs :: "nat list list"

definition graph_rel :: "nat \<Rightarrow> (nat \<Rightarrow> nat list) \<Rightarrow> (nat \<times> nat) set" where
  "graph_rel n succs = {(v, w). v < n \<and> w \<in> set (succs v)}"

definition component :: "nat \<Rightarrow> (nat \<Rightarrow> nat list) \<Rightarrow> nat \<Rightarrow> nat set" where
  "component n succs v =
     {w. (v, w) \<in> (graph_rel n succs)\<^sup>* \<and> (w, v) \<in> (graph_rel n succs)\<^sup>*}"

lemma component_refl [simp]: "v \<in> component n succs v"
  by (simp add: component_def)

lemma component_eq: "w \<in> component n succs v \<Longrightarrow> component n succs w = component n succs v"
  by (auto simp: component_def dest: rtrancl_trans)

lemma strict_distinct: "sorted_wrt (\<lambda>a b. num b < (num a :: nat)) xs \<Longrightarrow> distinct xs"
  by (induction xs) auto

locale scc_search =
  fixes n :: nat and succs :: "nat \<Rightarrow> nat list"
  assumes succs_below: "v < n \<Longrightarrow> w \<in> set (succs v) \<Longrightarrow> w < n"
begin

abbreviation "R \<equiv> (graph_rel n succs)\<^sup>*"

definition explored :: "(nat \<times> nat) list \<Rightarrow> nat \<Rightarrow> nat set" where
  "explored fr x = (case map_of fr x of Some k \<Rightarrow> set (take k (succs x)) | None \<Rightarrow> set (succs x))"

definition head_frame :: "(nat \<Rightarrow> nat) \<Rightarrow> (nat \<times> nat) list \<Rightarrow> nat \<Rightarrow> nat \<Rightarrow> bool" where
  "head_frame num fr f x \<longleftrightarrow> f \<in> fst ` set fr \<and> num f \<le> num x \<and>
     (\<forall>f' \<in> fst ` set fr. num f' \<le> num x \<longrightarrow> num f' \<le> num f)"

text \<open>
  The invariant: \<open>V\<close> holds the visited nodes, \<open>st\<close> the stack and \<open>fr\<close> the frames, a node with the
  number of its edges that were followed. Nodes off the stack only reach such nodes; a node on
  the stack reaches a frame below it and every frame reaches the nodes above it; the low link
  of a frame is the number of a node it reaches, and bounds the targets on the stack of the
  edges followed from the nodes between it and the next frame.
\<close>

definition ordered :: "nat set \<Rightarrow> (nat \<Rightarrow> nat) \<Rightarrow> nat list \<Rightarrow> (nat \<times> nat) list \<Rightarrow> bool" where
  "ordered V num st fr \<longleftrightarrow> V \<subseteq> {..<n} \<and> set st \<subseteq> V \<and> fst ` set fr \<subseteq> set st \<and>
     sorted_wrt (\<lambda>a b. num b < num a) st \<and> sorted_wrt (\<lambda>a b. num (fst b) < num (fst a)) fr"

definition linked :: "(nat \<Rightarrow> nat) \<Rightarrow> nat list \<Rightarrow> (nat \<times> nat) list \<Rightarrow> bool" where
  "linked num st fr \<longleftrightarrow>
     (\<forall>x \<in> set st. \<exists>f \<in> fst ` set fr. num f \<le> num x \<and> (x, f) \<in> R) \<and>
     (\<forall>f \<in> fst ` set fr. \<forall>x \<in> set st. num f \<le> num x \<longrightarrow> (f, x) \<in> R)"

definition closed :: "nat set \<Rightarrow> nat list \<Rightarrow> (nat \<times> nat) list \<Rightarrow> bool" where
  "closed V st fr \<longleftrightarrow> (\<forall>x \<in> V - set st. set (succs x) \<subseteq> V - set st) \<and>
     (\<forall>x \<in> set st. explored fr x \<subseteq> V)"

definition low_ok :: "(nat \<Rightarrow> nat) \<Rightarrow> (nat \<Rightarrow> nat) \<Rightarrow> nat list \<Rightarrow> (nat \<times> nat) list \<Rightarrow> bool" where
  "low_ok num low st fr \<longleftrightarrow>
     (\<forall>f \<in> fst ` set fr. low f \<le> num f \<and> (\<exists>y \<in> set st. num y = low f \<and> (f, y) \<in> R)) \<and>
     (\<forall>x \<in> set st. \<forall>y \<in> explored fr x \<inter> set st. \<forall>f. head_frame num fr f x \<longrightarrow> low f \<le> num y)"

definition search_inv ::
  "nat set \<Rightarrow> (nat \<Rightarrow> nat) \<Rightarrow> (nat \<Rightarrow> nat) \<Rightarrow> nat list \<Rightarrow> (nat \<times> nat) list \<Rightarrow> bool" where
  "search_inv V num low st fr \<longleftrightarrow>
     ordered V num st fr \<and> linked num st fr \<and> closed V st fr \<and> low_ok num low st fr"

lemmas inv_parts = search_inv_def ordered_def linked_def closed_def low_ok_def

lemma frame_below:
  assumes "linked num st fr" "x \<in> set st"
  obtains f where "f \<in> fst ` set fr" "num f \<le> num x" "(x, f) \<in> R"
  using assms unfolding linked_def by blast

lemma low_bound:
  "low_ok num low st fr \<Longrightarrow> x \<in> set st \<Longrightarrow> y \<in> explored fr x \<Longrightarrow> y \<in> set st \<Longrightarrow>
   head_frame num fr f x \<Longrightarrow> low f \<le> num y"
  unfolding low_ok_def by blast

lemma low_witness:
  assumes "low_ok num low st fr" "f \<in> fst ` set fr"
  obtains y where "y \<in> set st" "num y = low f" "(f, y) \<in> R" "low f \<le> num f"
  using assms unfolding low_ok_def by blast

lemma search_inv_empty: "search_inv {} num low [] []"
  by (simp add: inv_parts)

lemma search_inv_no_frames: "search_inv V num low st [] \<Longrightarrow> st = []"
  by (cases st) (auto simp: inv_parts)

lemma search_inv_irrelevant:
  assumes "search_inv V num low [] []"
  shows "search_inv V num' low' [] []"
  using assms by (simp add: inv_parts)

lemma edge_R: "x < n \<Longrightarrow> y \<in> set (succs x) \<Longrightarrow> (x, y) \<in> R"
  by (rule r_into_rtrancl) (simp add: graph_rel_def)

lemma explored_other: "x \<noteq> v \<Longrightarrow> explored ((v, k) # fr) x = explored fr x"
  by (simp add: explored_def)

lemma explored_top: "explored ((v, k) # fr) v = set (take k (succs v))"
  by (simp add: explored_def)

lemma explored_not_frame: "x \<notin> fst ` set fr \<Longrightarrow> explored fr x = set (succs x)"
  by (simp add: explored_def map_of_eq_None_iff [THEN iffD2])

lemma top_frame_max:
  assumes "ordered V num st ((v, k) # fr)" "f \<in> fst ` set ((v, k) # fr)"
  shows "f = v \<or> num f < num v"
  using assms by (auto simp: ordered_def)

lemma head_frame_top:
  assumes "ordered V num st ((v, k) # fr)" "num v \<le> num x"
  shows "head_frame num ((v, k) # fr) f x \<longleftrightarrow> f = v"
  using assms by (auto simp: ordered_def head_frame_def dest: leD)

lemma head_frame_below:
  assumes "\<not> num v \<le> num x"
  shows "head_frame num ((v, k) # fr) f x \<longleftrightarrow> head_frame num fr f x"
  using assms by (auto simp: head_frame_def)

subsection \<open>Starting and descending\<close>

lemma search_inv_start:
  assumes "search_inv V num low [] []" "w \<notin> V" "w < n"
  shows "search_inv (insert w V) (num(w := c)) (low(w := c)) [w] [(w, 0)]"
proof -
  have "set (succs x) \<subseteq> V" if "x \<in> V" for x using assms(1) that by (auto simp: inv_parts)
  with assms show ?thesis
    by (auto simp: inv_parts explored_def)
qed

lemma explored_step:
  assumes "k < length (succs v)" "succs v ! k = w"
  shows "explored ((v, Suc k) # fr) x = (if x = v then insert w (explored ((v, k) # fr) v) else explored fr x)"
  using assms by (simp add: explored_def take_Suc_conv_app_nth)

lemma descend:
  assumes inv: "search_inv V num low st ((v, k) # fr)"
    and k: "k < length (succs v)" "succs v ! k = w" and w: "w \<notin> V" and c: "\<forall>x \<in> V. num x < c"
  shows "search_inv (insert w V) (num(w := c)) (low(w := c)) (w # st) ((w, 0) # (v, Suc k) # fr)"
proof -
  let ?fr = "(v, k) # fr" and ?fr' = "(w, 0) # (v, Suc k) # fr" and ?num = "num(w := c)"
  have o: "ordered V num st ?fr" and l: "linked num st ?fr" and cl: "closed V st ?fr"
    and lo: "low_ok num low st ?fr" using inv by (auto simp: search_inv_def)
  have v: "v \<in> set st" "v < n" and V: "set st \<subseteq> V" using o by (auto simp: ordered_def)
  have wn: "w < n" using succs_below [OF v(2)] k by (metis nth_mem)
  have vw: "(v, w) \<in> R" using edge_R v(2) k by (metis nth_mem)
  have ex: "explored ?fr' x = (if x = w then {} else if x = v then insert w (explored ?fr v) else explored ?fr x)"
    for x using explored_step [OF k] by (simp add: explored_def)
  have num: "?num x = num x" "num x < c" if "x \<in> set st" for x using that V w c by auto
  have fst_fr: "fst ` set ?fr \<subseteq> set st" using o by (auto simp: ordered_def)
  have old: "x \<noteq> w" if "x \<in> set st" for x using that V w by auto
  have "ordered (insert w V) ?num (w # st) ?fr'"
  proof -
    have "sorted_wrt (\<lambda>a b. num b < num a) st" using o by (simp add: ordered_def)
    then have 1: "sorted_wrt (\<lambda>a b. ?num b < ?num a) st"
      by (rule sorted_wrt_mono_rel [rotated]) (use num(1) in simp)
    have "fst a \<in> set st" if "a \<in> set ((v, Suc k) # fr)" for a using that fst_fr by auto
    moreover have "sorted_wrt (\<lambda>a b. num (fst b) < num (fst a)) ((v, Suc k) # fr)"
      using o by (simp add: ordered_def)
    ultimately have "sorted_wrt (\<lambda>a b. ?num (fst b) < ?num (fst a)) ((v, Suc k) # fr)"
      by (elim sorted_wrt_mono_rel [rotated]) (use num(1) in simp)
    moreover have "?num (fst b) < ?num w" if "b \<in> set ((v, Suc k) # fr)" for b
      using that fst_fr num old by (metis \<open>\<And>a. a \<in> set ((v, Suc k) # fr) \<Longrightarrow> fst a \<in> set st\<close> fun_upd_same)
    ultimately show ?thesis
      using o 1 wn num by (auto simp: ordered_def)
  qed
  moreover have "linked ?num (w # st) ?fr'"
  proof -
    have "(f, w) \<in> R" if "f \<in> fst ` set ?fr" for f
    proof -
      have "num f \<le> num v" using top_frame_max [OF o that] by auto
      then have "(f, v) \<in> R" using l v that by (auto simp: linked_def)
      with vw show ?thesis by auto
    qed
    moreover have "\<exists>f \<in> fst ` set ?fr'. ?num f \<le> ?num x \<and> (x, f) \<in> R" if "x \<in> set st" for x
    proof -
      obtain f where f: "f \<in> fst ` set ?fr" "num f \<le> num x" "(x, f) \<in> R" using frame_below [OF l \<open>x \<in> set st\<close>] .
      then have "f \<in> set st" using fst_fr by auto
      with f that show ?thesis using num(1) by (intro bexI [of _ f]) auto
    qed
    moreover have "(f, x) \<in> R" if "f \<in> fst ` set ?fr" "x \<in> set st" "?num f \<le> ?num x" for f x
    proof -
      have "f \<in> set st" using that fst_fr by auto
      then have "num f \<le> num x" using num(1) that by simp
      with that l show ?thesis by (auto simp: linked_def)
    qed
    moreover have "\<not> ?num w \<le> ?num x" if "x \<in> set st" for x using num [OF that] by simp
    ultimately show ?thesis unfolding linked_def by auto
  qed
  moreover have "closed (insert w V) (w # st) ?fr'"
    using cl w V unfolding closed_def ex by auto
  moreover have "low_ok ?num (low(w := c)) (w # st) ?fr'"
  proof -
    have frame: "(low(w := c)) f = low f" "?num f = num f" "low f < c" if "f \<in> fst ` set ?fr" for f
    proof -
      have "f \<in> set st" using that fst_fr by auto
      moreover from this have "low f \<le> num f" using lo that by (auto simp: low_ok_def)
      ultimately show "(low(w := c)) f = low f" "?num f = num f" "low f < c"
        using num(2) [of f] old by auto
    qed
    have "(low(w := c)) f \<le> ?num f \<and> (\<exists>y \<in> set (w # st). ?num y = (low(w := c)) f \<and> (f, y) \<in> R)"
      if "f \<in> fst ` set ?fr" for f
    proof -
      obtain y where y: "y \<in> set st" "num y = low f" "(f, y) \<in> R" "low f \<le> num f"
        using low_witness [OF lo \<open>f \<in> fst ` set ?fr\<close>] .
      then show ?thesis using frame [OF that] num(1) [OF y(1)] by (intro conjI bexI [of _ y]) auto
    qed
    moreover have "(low(w := c)) f \<le> ?num y"
      if x: "x \<in> set st" and y: "y \<in> explored ?fr' x" "y \<in> set (w # st)" and h: "head_frame ?num ?fr' f x" for x y f
    proof -
      have "f \<noteq> w" using h num [OF x] by (auto simp: head_frame_def)
      then have f: "f \<in> fst ` set ?fr" using h by (auto simp: head_frame_def)
      show ?thesis
      proof (cases "y = w")
        case True
        then show ?thesis using frame [OF f] by simp
      next
        case False
        then have "y \<in> explored ?fr x" "y \<in> set st" using y x old unfolding ex by (auto split: if_splits)
        moreover have "head_frame num ?fr f x"
        proof -
          have "\<forall>f' \<in> fst ` set ?fr. num f' \<le> num x \<longrightarrow> num f' \<le> num f" "num f \<le> num x"
            using h frame(2) frame(2) [OF f] num(1) [OF x] by (auto simp: head_frame_def)
          with f show ?thesis by (simp add: head_frame_def)
        qed
        ultimately have "low f \<le> num y" using lo x by (auto simp: low_ok_def)
        then show ?thesis using frame [OF f] num(1) \<open>y \<in> set st\<close> by simp
      qed
    qed
    moreover have "explored ?fr' w = {}" by (simp add: ex)
    ultimately show ?thesis unfolding low_ok_def by auto
  qed
  ultimately show ?thesis by (simp add: search_inv_def)
qed

subsection \<open>Following an edge to a visited node\<close>

lemma skip_edge:
  assumes inv: "search_inv V num low st ((v, k) # fr)"
    and k: "k < length (succs v)" "succs v ! k = w" and w: "w \<in> V"
    and low': "low' = (if w \<in> set st then low(v := min (low v) (num w)) else low)"
  shows "search_inv V num low' st ((v, Suc k) # fr)"
proof -
  let ?fr = "(v, k) # fr" and ?fr' = "(v, Suc k) # fr"
  have o: "ordered V num st ?fr" and l: "linked num st ?fr" and cl: "closed V st ?fr"
    and lo: "low_ok num low st ?fr" using inv by (auto simp: search_inv_def)
  have v: "v \<in> set st" "v < n" using o by (auto simp: ordered_def)
  have vw: "(v, w) \<in> R" using edge_R v(2) k by (metis nth_mem)
  have ex: "explored ?fr' x = (if x = v then insert w (explored ?fr v) else explored ?fr x)" for x
    using explored_step [OF k] by (simp add: explored_def)
  have le: "low' f \<le> low f" for f using low' by simp
  have hd: "head_frame num ?fr' f x = head_frame num ?fr f x" for f x by (simp add: head_frame_def)
  have "low_ok num low' st ?fr'"
  proof -
    have "low' f \<le> num f \<and> (\<exists>y \<in> set st. num y = low' f \<and> (f, y) \<in> R)" if "f \<in> fst ` set ?fr" for f
    proof -
      have f: "low f \<le> num f" "\<exists>y \<in> set st. num y = low f \<and> (f, y) \<in> R"
        using lo that by (auto simp: low_ok_def)
      show ?thesis
      proof (cases "f = v \<and> w \<in> set st \<and> num w < low v")
        case True
        then show ?thesis using low' vw f(1) by auto
      next
        case False
        then have "low' f = low f" using low' by (auto simp: min_def)
        with f show ?thesis by simp
      qed
    qed
    moreover have "low' f \<le> num y"
      if x: "x \<in> set st" and y: "y \<in> explored ?fr' x" "y \<in> set st" and h: "head_frame num ?fr f x" for x y f
    proof (cases "y \<in> explored ?fr x")
      case True
      then have "low f \<le> num y" using lo x y h by (auto simp: low_ok_def)
      then show ?thesis using le [of f] by simp
    next
      case False
      then have "x = v" "y = w" using y ex by (auto split: if_splits)
      then have "f = v" using h head_frame_top [OF o] by simp
      then show ?thesis using low' y \<open>y = w\<close> by simp
    qed
    ultimately show ?thesis by (auto simp: low_ok_def hd)
  qed
  moreover have "ordered V num st ?fr'" "linked num st ?fr'" using o l by (auto simp: ordered_def linked_def)
  moreover have "closed V st ?fr'" using cl w by (auto simp: closed_def ex)
  ultimately show ?thesis by (simp add: search_inv_def)
qed

subsection \<open>Retreating to the parent\<close>

lemma lower_frame:
  assumes "search_inv V num low st ((v, k) # fr)" "low v \<noteq> num v"
  obtains f where "f \<in> fst ` set fr" "num f < num v" "(v, f) \<in> R"
proof -
  have o: "ordered V num st ((v, k) # fr)" and l: "linked num st ((v, k) # fr)"
    and lo: "low_ok num low st ((v, k) # fr)" using assms by (auto simp: search_inv_def)
  obtain y where y: "y \<in> set st" "num y = low v" "(v, y) \<in> R" "low v \<le> num v"
    using lo by (auto simp: low_ok_def)
  obtain f where f: "f \<in> fst ` set ((v, k) # fr)" "num f \<le> num y" "(y, f) \<in> R"
    using frame_below [OF l y(1)] .
  have lt: "num f < num v" using f(2) y(2,4) assms(2) by simp
  then have "f \<in> fst ` set fr" using f(1) by auto
  moreover have "(v, f) \<in> R" using y(3) f(3) by (rule rtrancl_trans)
  ultimately show thesis using that lt by blast
qed

lemma retreat:
  assumes inv: "search_inv V num low st ((v, length (succs v)) # (p, j) # fr)" and low: "low v \<noteq> num v"
  shows "search_inv V num (low(p := min (low p) (low v))) st ((p, j) # fr)"
proof -
  let ?old = "(v, length (succs v)) # (p, j) # fr" and ?fr = "(p, j) # fr"
  let ?low = "low(p := min (low p) (low v))"
  have o: "ordered V num st ?old" and l: "linked num st ?old" and cl: "closed V st ?old"
    and lo: "low_ok num low st ?old" using inv by (auto simp: search_inv_def)
  obtain f0 where f0: "f0 \<in> fst ` set ?fr" "num f0 < num v" "(v, f0) \<in> R"
    using lower_frame [OF inv low] by blast
  have vp: "num p < num v" and vnot: "v \<notin> fst ` set ?fr" using o by (auto simp: ordered_def)
  have ex: "explored ?fr x = explored ?old x" for x
    using vnot by (cases "x = v") (simp_all add: explored_top explored_other explored_not_frame)
  have o': "ordered V num st ?fr" using o by (simp add: ordered_def)
  have "linked num st ?fr"
  proof -
    have "\<exists>f \<in> fst ` set ?fr. num f \<le> num x \<and> (x, f) \<in> R" if "x \<in> set st" for x
    proof -
      obtain f where f: "f \<in> fst ` set ?old" "num f \<le> num x" "(x, f) \<in> R"
        using frame_below [OF l \<open>x \<in> set st\<close>] .
      show ?thesis
      proof (cases "f = v")
        case True
        with f f0 have "num f0 \<le> num x" "(x, f0) \<in> R" by (auto dest: rtrancl_trans)
        with f0(1) show ?thesis by blast
      next
        case False
        with f show ?thesis by (intro bexI [of _ f]) auto
      qed
    qed
    then show ?thesis using l by (simp add: linked_def)
  qed
  moreover have "low_ok num ?low st ?fr"
  proof -
    have le: "?low f \<le> low f" for f by simp
    have "?low f \<le> num f \<and> (\<exists>y \<in> set st. num y = ?low f \<and> (f, y) \<in> R)" if "f \<in> fst ` set ?fr" for f
    proof -
      have f: "low f \<le> num f" "\<exists>y \<in> set st. num y = low f \<and> (f, y) \<in> R"
        using lo that by (auto simp: low_ok_def)
      obtain y where y: "y \<in> set st" "num y = low v" "(v, y) \<in> R" using lo by (auto simp: low_ok_def)
      have "v \<in> set st" using o by (simp add: ordered_def)
      then have "(p, v) \<in> R" using l vp by (simp add: linked_def)
      with y have "\<exists>y \<in> set st. num y = low v \<and> (p, y) \<in> R" by (auto dest: rtrancl_trans)
      with f show ?thesis by (auto simp: min_def)
    qed
    moreover have "?low f \<le> num y"
      if x: "x \<in> set st" and y: "y \<in> explored ?old x" "y \<in> set st" and h: "head_frame num ?fr f x" for x y f
    proof (cases "num v \<le> num x")
      case True
      then have "low v \<le> num y" using low_bound [OF lo x y] head_frame_top [OF o True] by simp
      moreover have "f = p"
        using True vp h head_frame_top [OF o', of x] by simp
      ultimately show ?thesis by simp
    next
      case False
      then have "low f \<le> num y"
        using low_bound [OF lo x y] h head_frame_below [of num v x, OF False] by simp
      then show ?thesis using le [of f] by simp
    qed
    ultimately show ?thesis by (auto simp: low_ok_def ex)
  qed
  moreover have "closed V st ?fr" using cl by (simp add: closed_def ex)
  ultimately show ?thesis using o' by (simp add: search_inv_def)
qed

subsection \<open>Closing a component\<close>

lemma stack_split:
  assumes "ordered V num (pre @ v # post) ((v, k) # fr)"
  shows "x \<in> set pre \<Longrightarrow> num v < num x" "x \<in> set post \<Longrightarrow> num x < num v" "fst ` set fr \<subseteq> set post"
proof -
  show 1: "num v < num x" if "x \<in> set pre" for x using assms that by (auto simp: ordered_def sorted_wrt_append)
  show "num x < num v" if "x \<in> set post" for x using assms that by (auto simp: ordered_def sorted_wrt_append)
  have "f \<in> set (pre @ v # post) \<and> num f < num v" if "f \<in> fst ` set fr" for f
    using assms that by (auto simp: ordered_def)
  with 1 show "fst ` set fr \<subseteq> set post" by force
qed

lemma close_component:
  assumes inv: "search_inv V num low (pre @ v # post) ((v, length (succs v)) # fr)" and root: "low v = num v"
  shows "search_inv V num low post fr \<and> component n succs v = insert v (set pre) \<and>
    distinct (v # pre) \<and> (insert v (set pre)) \<inter> set post = {}"
proof -
  let ?st = "pre @ v # post" and ?old = "(v, length (succs v)) # fr" and ?P = "insert v (set pre)"
  have o: "ordered V num ?st ?old" and l: "linked num ?st ?old" and cl: "closed V ?st ?old"
    and lo: "low_ok num low ?st ?old" using inv by (auto simp: search_inv_def)
  note sp = stack_split [OF o]
  have dist: "distinct ?st"
    by (rule strict_distinct [of num]) (use o in \<open>simp add: ordered_def\<close>)
  have ex: "explored fr x = explored ?old x" if "x \<noteq> v" for x using that by (simp add: explored_other)
  have P: "num v \<le> num x" if "x \<in> ?P" for x using that sp(1) [of x] by auto
  have out: "set (succs x) \<subseteq> ?P \<union> (V - set ?st)" if x: "x \<in> ?P" for x
  proof
    fix y assume y: "y \<in> set (succs x)"
    have "x \<notin> fst ` set fr" using x sp(3) dist by auto
    then have e: "y \<in> explored ?old x"
      using y by (cases "x = v") (simp_all add: explored_top explored_other explored_not_frame)
    then have "y \<in> V" using cl x by (auto simp: closed_def)
    moreover have "y \<notin> set post"
    proof
      assume "y \<in> set post"
      then have "low v \<le> num y"
        using low_bound [OF lo _ e] x head_frame_top [OF o P [OF x]] by auto
      with root sp(2) [OF \<open>y \<in> set post\<close>] show False by simp
    qed
    ultimately show "y \<in> ?P \<union> (V - set ?st)" by auto
  qed
  have off: "set (succs x) \<subseteq> V - set ?st" if "x \<in> V - set ?st" for x using cl that by (simp add: closed_def)
  have stays: "y \<in> V - set ?st" if "(x, y) \<in> R" "x \<in> V - set ?st" for x y
    using that by induction (use off in \<open>auto simp: graph_rel_def\<close>)
  have reach: "y \<in> ?P \<union> (V - set ?st)" if "(x, y) \<in> R" "x \<in> ?P" for x y
    using that
  proof induction
    case (step y z)
    then have "z \<in> set (succs y)" by (simp add: graph_rel_def)
    with step show ?case using out off by blast
  qed auto
  have "component n succs v = ?P"
  proof
    show "component n succs v \<subseteq> ?P"
    proof
      fix y assume "y \<in> component n succs v"
      then have "(v, y) \<in> R" "(y, v) \<in> R" by (simp_all add: component_def)
      with reach [of v y] stays [of y v] show "y \<in> ?P" by auto
    qed
    show "?P \<subseteq> component n succs v"
    proof
      fix x assume x: "x \<in> ?P"
      then have "(v, x) \<in> R" using l P [OF x] by (auto simp: linked_def)
      moreover obtain f where f: "f \<in> fst ` set ?old" "num f \<le> num x" "(x, f) \<in> R"
        using frame_below [OF l, of x] x by (metis UnCI insertE set_append list.set_intros(1))
      have "f \<in> set ?st" using f(1) sp(3) by auto
      then have "f \<in> ?P" using reach [OF f(3) x] by auto
      then have "f = v" using f(1) sp(3) dist by auto
      with f have "(x, v) \<in> R" by simp
      ultimately show "x \<in> component n succs v" by (simp add: component_def)
    qed
  qed
  moreover have "search_inv V num low post fr"
  proof -
    have "linked num post fr"
    proof -
      have "\<exists>f \<in> fst ` set fr. num f \<le> num x \<and> (x, f) \<in> R" if "x \<in> set post" for x
      proof -
        obtain f where f: "f \<in> fst ` set ?old" "num f \<le> num x" "(x, f) \<in> R"
          using frame_below [OF l, of x] \<open>x \<in> set post\<close> by (metis UnCI set_append list.set_intros(2))
        moreover from f sp(2) [OF \<open>x \<in> set post\<close>] have "f \<noteq> v" by auto
        ultimately show ?thesis by (intro bexI [of _ f]) auto
      qed
      then show ?thesis using l by (simp add: linked_def)
    qed
    moreover have "closed V post fr"
    proof -
      have "set (succs x) \<subseteq> V - set post" if "x \<in> V - set post" for x
      proof (cases "x \<in> ?P")
        case True
        then show ?thesis using out [OF True] o dist by (auto simp: ordered_def)
      next
        case False
        then show ?thesis using off [of x] that by auto
      qed
      moreover have "explored fr x \<subseteq> V" if "x \<in> set post" for x
      proof -
        have "x \<noteq> v" using that dist by auto
        with that cl ex show ?thesis by (simp add: closed_def)
      qed
      ultimately show ?thesis by (simp add: closed_def)
    qed
    moreover have "low_ok num low post fr"
    proof -
      have "\<exists>y \<in> set post. num y = low f \<and> (f, y) \<in> R" "low f \<le> num f" if "f \<in> fst ` set fr" for f
      proof -
        have "f \<in> fst ` set ?old" using that by simp
        then obtain y where y: "y \<in> set ?st" "num y = low f" "(f, y) \<in> R" and le: "low f \<le> num f"
          using low_witness [OF lo] by metis
        have f: "low f \<le> num f" "num f < num v" using le sp(2) sp(3) that by blast+
        have "y \<notin> ?P" using P [of y] y(2) f by auto
        with y f show "\<exists>y \<in> set post. num y = low f \<and> (f, y) \<in> R" "low f \<le> num f" by auto
      qed
      moreover have "low f \<le> num y"
        if "x \<in> set post" "y \<in> explored fr x" "y \<in> set post" "head_frame num fr f x" for x y f
      proof -
        have "x \<noteq> v" "\<not> num v \<le> num x" using that(1) dist sp(2) [OF that(1)] by auto
        with that low_bound [OF lo, of x y f] head_frame_below [of num v x] ex [of x] show ?thesis by simp
      qed
      ultimately show ?thesis by (auto simp: low_ok_def)
    qed
    moreover have "ordered V num post fr"
      using o sp(3) by (auto simp: ordered_def sorted_wrt_append)
    ultimately show ?thesis by (simp add: search_inv_def)
  qed
  ultimately show ?thesis using dist by auto
qed

subsection \<open>The invariant of a search state\<close>

text \<open>
  \<open>keep\<close> says which components the search records: all of them, or those with two nodes.
\<close>

definition seen :: "TarjanState \<Rightarrow> nat set" where
  "seen s = {v. v < length (indices s) \<and> indices s ! v \<noteq> U32_MAX}"

definition recorded :: "(nat list \<Rightarrow> bool) \<Rightarrow> nat set \<Rightarrow> nat list list \<Rightarrow> bool" where
  "recorded keep D cs \<longleftrightarrow> (\<exists>all. cs = filter keep all \<and> distinct (concat all) \<and> set (concat all) = D \<and>
     (\<forall>c \<in> set all. c \<noteq> [] \<and> set c = component n succs (hd c)))"

definition state_ok :: "(nat list \<Rightarrow> bool) \<Rightarrow> TarjanState \<Rightarrow> (nat \<times> nat) list \<Rightarrow> bool" where
  "state_ok keep s fr \<longleftrightarrow> n \<le> U32_MAX \<and> length (indices s) = n \<and> length (lowlinks s) = n \<and>
     on_stack s = set (stack s) \<and> index_counter s = card (seen s) \<and>
     (\<forall>v \<in> seen s. indices s ! v < card (seen s)) \<and>
     (\<forall>(v, k) \<in> set fr. k \<le> length (succs v)) \<and>
     search_inv (seen s) ((!) (indices s)) ((!) (lowlinks s)) (stack s) fr \<and>
     recorded keep (seen s - set (stack s)) (sccs s)"

definition work_left :: "TarjanState \<Rightarrow> (nat \<times> nat) list \<Rightarrow> nat" where
  "work_left s fr = (\<Sum>v \<in> {..<n} - seen s. length (succs v) + 2) +
     (\<Sum>(v, k)\<leftarrow>fr. length (succs v) - k + 1)"

lemma nth_update_fun: "i < length xs \<Longrightarrow> (!) (xs[i := x]) = ((!) xs)(i := x)"
  by (rule ext) (simp add: nth_list_update)

lemma seen_below: "state_ok keep s fr \<Longrightarrow> seen s \<subseteq> {..<n}"
  by (auto simp: state_ok_def seen_def)

lemma seen_iff: "state_ok keep s fr \<Longrightarrow> v < n \<Longrightarrow> v \<in> seen s \<longleftrightarrow> indices s ! v \<noteq> U32_MAX"
  by (simp add: state_ok_def seen_def)

lemma counter_below:
  assumes "state_ok keep s fr" "w < n" "w \<notin> seen s"
  shows "index_counter s < n"
proof -
  have "seen s \<subset> {..<n}" using assms seen_below [OF assms(1)] by auto
  then have "card (seen s) < card {..<n}" by (intro psubset_card_mono) auto
  then show ?thesis using assms(1) by (simp add: state_ok_def)
qed

definition found :: "nat \<Rightarrow> TarjanState \<Rightarrow> TarjanState" where
  "found w s = s\<lparr>index_counter := Suc (index_counter s), indices := (indices s)[w := index_counter s],
     lowlinks := (lowlinks s)[w := index_counter s], on_stack := insert w (on_stack s),
     stack := w # stack s\<rparr>"

lemma seen_found:
  assumes "state_ok keep s fr" "w < n" "w \<notin> seen s"
  shows "seen (found w s) = insert w (seen s)"
proof -
  have "index_counter s \<noteq> U32_MAX" using counter_below [OF assms] assms(1) by (simp add: state_ok_def)
  with assms show ?thesis
    by (auto simp: seen_def found_def state_ok_def nth_list_update split: if_splits)
qed

lemma state_ok_found:
  assumes ok: "state_ok keep s fr" and w: "w < n" "w \<notin> seen s"
    and inv: "search_inv (insert w (seen s)) (((!) (indices s))(w := index_counter s))
      (((!) (lowlinks s))(w := index_counter s)) (w # stack s) fr'"
    and fr': "\<forall>(v, k) \<in> set fr'. k \<le> length (succs v)"
  shows "state_ok keep (found w s) fr'"
proof -
  have fin: "finite (seen s)" using seen_below [OF ok] finite_subset by blast
  have w': "w \<notin> set (stack s)" using ok w by (auto simp: state_ok_def search_inv_def ordered_def)
  have "\<forall>v \<in> insert w (seen s). indices (found w s) ! v < card (insert w (seen s))"
    using ok w fin by (auto simp: state_ok_def found_def nth_list_update less_Suc_eq)
  moreover have "recorded keep (insert w (seen s) - set (stack (found w s))) (sccs (found w s))"
  proof -
    have "insert w (seen s) - set (stack (found w s)) = seen s - set (stack s)"
      using w by (auto simp: found_def)
    then show ?thesis using ok by (simp add: state_ok_def found_def)
  qed
  moreover have "search_inv (insert w (seen s)) ((!) (indices (found w s))) ((!) (lowlinks (found w s)))
      (stack (found w s)) fr'"
    using inv w ok by (simp add: found_def state_ok_def nth_update_fun)
  moreover have "index_counter (found w s) = card (insert w (seen s))"
    using ok w fin by (simp add: found_def state_ok_def)
  ultimately show ?thesis
    using ok fr' unfolding state_ok_def seen_found [OF ok w] by (simp add: found_def)
qed

lemma state_start:
  assumes "state_ok keep s []" "w < n" "w \<notin> seen s"
  shows "state_ok keep (found w s) [(w, 0)]"
proof (rule state_ok_found [OF assms])
  have inv: "search_inv (seen s) ((!) (indices s)) ((!) (lowlinks s)) (stack s) []"
    using assms(1) by (simp add: state_ok_def)
  then have "stack s = []" by (rule search_inv_no_frames)
  with inv assms(2,3) show "search_inv (insert w (seen s)) (((!) (indices s))(w := index_counter s))
      (((!) (lowlinks s))(w := index_counter s)) (w # stack s) [(w, 0)]"
    using search_inv_start by simp
qed simp

lemma state_descend:
  assumes ok: "state_ok keep s ((v, k) # fr)" and k: "k < length (succs v)" "succs v ! k = w"
    and w: "w \<notin> seen s"
  shows "state_ok keep (found w s) ((w, 0) # (v, Suc k) # fr) \<and>
    work_left (found w s) ((w, 0) # (v, Suc k) # fr) < work_left s ((v, k) # fr)"
proof
  have v: "v < n" using ok by (auto simp: state_ok_def search_inv_def ordered_def)
  have wn: "w < n" using succs_below [OF v] k by (metis nth_mem)
  show "state_ok keep (found w s) ((w, 0) # (v, Suc k) # fr)"
  proof (rule state_ok_found [OF ok wn w])
    show "search_inv (insert w (seen s)) (((!) (indices s))(w := index_counter s))
        (((!) (lowlinks s))(w := index_counter s)) (w # stack s) ((w, 0) # (v, Suc k) # fr)"
      using ok k w by (intro descend) (auto simp: state_ok_def)
  qed (use ok k in \<open>auto simp: state_ok_def\<close>)
  have "{..<n} - seen s = insert w ({..<n} - insert w (seen s))" using wn w by auto
  then have "(\<Sum>v \<in> {..<n} - seen s. length (succs v) + 2) =
      length (succs w) + 2 + (\<Sum>v \<in> {..<n} - insert w (seen s). length (succs v) + 2)"
    by (metis (no_types, lifting) Diff_iff finite_Diff finite_lessThan insertI1 sum.insert)
  then show "work_left (found w s) ((w, 0) # (v, Suc k) # fr) < work_left s ((v, k) # fr)"
    unfolding work_left_def seen_found [OF ok wn w] using k by simp
qed

lemma state_skip:
  assumes ok: "state_ok keep s ((v, k) # fr)" and k: "k < length (succs v)" "succs v ! k = w"
    and w: "w \<in> seen s"
    and s': "s' = (if w \<in> on_stack s
      then s\<lparr>lowlinks := (lowlinks s)[v := min (lowlinks s ! v) (indices s ! w)]\<rparr> else s)"
  shows "state_ok keep s' ((v, Suc k) # fr) \<and> work_left s' ((v, Suc k) # fr) < work_left s ((v, k) # fr)"
proof
  have v: "v < n" using ok by (auto simp: state_ok_def search_inv_def ordered_def)
  have same: "seen s' = seen s" "stack s' = stack s" "indices s' = indices s" "sccs s' = sccs s"
    "length (lowlinks s') = length (lowlinks s)" "on_stack s' = on_stack s" "index_counter s' = index_counter s"
    by (simp_all add: s' seen_def)
  have "search_inv (seen s) ((!) (indices s)) ((!) (lowlinks s')) (stack s) ((v, Suc k) # fr)"
    using ok k w v by (intro skip_edge [where low = "(!) (lowlinks s)" and w = w])
      (auto simp: state_ok_def s' nth_update_fun)
  then show "state_ok keep s' ((v, Suc k) # fr)"
    using ok k unfolding state_ok_def same by auto
  show "work_left s' ((v, Suc k) # fr) < work_left s ((v, k) # fr)"
    using k by (simp add: work_left_def same)
qed

lemma state_retreat:
  assumes ok: "state_ok keep s ((v, k) # fr)" and k: "\<not> k < length (succs v)"
    and low: "lowlinks s ! v \<noteq> indices s ! v"
  obtains p j rest where "fr = (p, j) # rest"
    "state_ok keep (s\<lparr>lowlinks := (lowlinks s)[p := min (lowlinks s ! p) (lowlinks s ! v)]\<rparr>) fr"
proof -
  have kv: "k = length (succs v)" using ok k by (auto simp: state_ok_def)
  have inv: "search_inv (seen s) ((!) (indices s)) ((!) (lowlinks s)) (stack s) ((v, length (succs v)) # fr)"
    using ok kv by (simp add: state_ok_def)
  have "fr \<noteq> []" by (rule lower_frame [OF inv low]) auto
  then obtain p j rest where fr: "fr = (p, j) # rest" by (cases fr) auto
  let ?s = "s\<lparr>lowlinks := (lowlinks s)[p := min (lowlinks s ! p) (lowlinks s ! v)]\<rparr>"
  have p: "p < length (lowlinks s)"
    using ok fr by (auto simp: state_ok_def search_inv_def ordered_def)
  have "search_inv (seen s) ((!) (indices s)) ((!) (lowlinks ?s)) (stack s) fr"
    using retreat [OF inv [unfolded fr] low] p by (simp add: fr nth_update_fun)
  moreover have "seen ?s = seen s" by (simp add: seen_def)
  ultimately have "state_ok keep ?s fr" using ok by (simp add: state_ok_def)
  with fr that show thesis by blast
qed

definition closed_state :: "(nat list \<Rightarrow> bool) \<Rightarrow> nat \<Rightarrow> nat list \<Rightarrow> nat list \<Rightarrow> TarjanState \<Rightarrow> TarjanState" where
  "closed_state keep v pre post s = s\<lparr>stack := post, on_stack := on_stack s - set (pre @ [v]),
     sccs := (if keep (pre @ [v]) then sccs s @ [pre @ [v]] else sccs s)\<rparr>"

lemma state_close:
  assumes ok: "state_ok keep s ((v, k) # fr)" and k: "\<not> k < length (succs v)"
    and low: "lowlinks s ! v = indices s ! v"
  obtains pre post where "stack s = pre @ v # post" "v \<notin> set pre"
    "state_ok keep (closed_state keep v pre post s) fr"
proof -
  have kv: "k = length (succs v)" using ok k by (auto simp: state_ok_def)
  have inv: "search_inv (seen s) ((!) (indices s)) ((!) (lowlinks s)) (stack s) ((v, length (succs v)) # fr)"
    using ok kv by (simp add: state_ok_def)
  have "v \<in> set (stack s)" using inv by (simp add: search_inv_def ordered_def)
  then obtain pre post where st: "stack s = pre @ v # post" "v \<notin> set pre"
    by (auto dest: split_list_first)
  have c: "search_inv (seen s) ((!) (indices s)) ((!) (lowlinks s)) post fr"
      "component n succs v = insert v (set pre)" "distinct (v # pre)" "insert v (set pre) \<inter> set post = {}"
    using close_component [OF inv [unfolded st(1)] low] by auto
  let ?s = "closed_state keep v pre post s" and ?c = "pre @ [v]"
  have sub: "insert v (set pre) \<subseteq> seen s" using inv st by (auto simp: search_inv_def ordered_def)
  have "set ?c = component n succs (hd ?c)"
  proof -
    have "hd ?c \<in> component n succs v" unfolding c(2) by (cases pre) auto
    then have "component n succs (hd ?c) = component n succs v" by (rule component_eq)
    then show ?thesis using c(2) by simp
  qed
  then have "recorded keep (seen s - set post) (sccs ?s)"
  proof -
    obtain all where all: "sccs s = filter keep all" "distinct (concat all)"
        "set (concat all) = seen s - set (stack s)" "\<forall>c \<in> set all. c \<noteq> [] \<and> set c = component n succs (hd c)"
      using ok by (auto simp: state_ok_def recorded_def)
    have "sccs ?s = filter keep (all @ [?c])" using all(1) by (simp add: closed_state_def)
    moreover have "distinct (concat (all @ [?c]))"
      using all(2) c(3) all(3) st(1) by (auto simp del: set_concat)
    moreover have "set (concat (all @ [?c])) = seen s - set post"
    proof -
      have "set (concat (all @ [?c])) = (seen s - set (stack s)) \<union> insert v (set pre)"
        using all(3) by (simp del: set_concat)
      also have "\<dots> = seen s - set post" using sub c(4) st(1) by auto
      finally show ?thesis .
    qed
    moreover have "\<forall>c \<in> set (all @ [?c]). c \<noteq> [] \<and> set c = component n succs (hd c)"
      using all(4) \<open>set ?c = component n succs (hd ?c)\<close> by auto
    ultimately show ?thesis unfolding recorded_def by (intro exI [of _ "all @ [?c]"]) blast
  qed
  moreover have "on_stack ?s = set (stack ?s)"
    using ok st(1) c(3,4) by (auto simp: closed_state_def state_ok_def)
  moreover have "seen ?s = seen s" by (simp add: seen_def closed_state_def)
  ultimately have "state_ok keep ?s fr"
    using ok c(1) unfolding state_ok_def by (simp add: closed_state_def)
  with st that show thesis by blast
qed

text \<open>Retreating makes progress; the root of a component is not above its parent's low link.\<close>

lemma work_left_pop:
  assumes "seen s' = seen s"
  shows "work_left s' fr < work_left s ((v, k) # fr)"
  using assms by (simp add: work_left_def)

lemma parent_low:
  assumes "state_ok keep s ((v, k) # (p, j) # fr)" "lowlinks s ! v = indices s ! v"
  shows "lowlinks s ! p < lowlinks s ! v"
proof -
  have "lowlinks s ! p \<le> indices s ! p" "indices s ! p < indices s ! v"
    using assms(1) by (auto simp: state_ok_def search_inv_def ordered_def low_ok_def)
  with assms(2) show ?thesis by simp
qed

lemma state_ok_all_seen:
  assumes "state_ok keep s []" "{..<n} \<subseteq> seen s"
  shows "recorded keep {..<n} (sccs s)"
proof -
  have "stack s = []" using assms(1) search_inv_no_frames by (auto simp: state_ok_def)
  with assms seen_below [OF assms(1)] show ?thesis by (simp add: state_ok_def subset_antisym)
qed

definition fresh_state :: TarjanState where
  "fresh_state = \<lparr>index_counter = 0, indices = replicate n U32_MAX, lowlinks = replicate n 0,
     on_stack = {}, stack = [], sccs = []\<rparr>"

lemma state_ok_fresh: "n \<le> U32_MAX \<Longrightarrow> state_ok keep fresh_state []"
proof -
  assume "n \<le> U32_MAX"
  moreover have "seen fresh_state = {}" by (auto simp: seen_def fresh_state_def)
  moreover have "recorded keep {} []" by (auto simp: recorded_def intro: exI [of _ "[]"])
  ultimately show ?thesis by (simp add: state_ok_def fresh_state_def search_inv_empty)
qed

end

end
