(* ===== verification/Import_Components.thy ===== *)
theory Import_Components
  imports Graph_Types Tarjan_Search "HOL-Library.While_Combinator"
begin

text \<open>
  The first half of circular dependency detection (\<^verbatim>\<open>graph/src/graph/cycles.rs\<close>): the flat
  adjacency of the runtime imports, and the iterative Tarjan search over it that records the
  components of at least two modules. A step that panics makes the state \<open>None\<close>, and so does
  a loop that does not end.
\<close>

section \<open>Runtime successors\<close>

definition add_succ :: "nat \<Rightarrow> Edge \<Rightarrow> nat list \<times> nat set \<Rightarrow> nat list \<times> nat set" where
  "add_succ n edge st = (case st of (all_succs, seen) \<Rightarrow>
     if list_all sym_is_type_only (symbols edge) then (all_succs, seen)
     else (let t = edge_target edge
           in if t < n \<and> t \<notin> seen then (all_succs @ [t], insert t seen) else (all_succs, seen)))"

definition add_module_succs ::
  "ModuleGraph \<Rightarrow> nat \<Rightarrow> ModuleNode \<Rightarrow> nat list \<times> (nat \<times> nat) list \<Rightarrow> nat list \<times> (nat \<times> nat) list" where
  "add_module_succs self n m st = (case st of (all_succs, succ_ranges) \<Rightarrow>
     (let all_succs' = fst (fold (add_succ n) (edges_of (edges self) m) (all_succs, {}))
      in (all_succs', succ_ranges @ [(length all_succs, length all_succs')])))"

definition build_runtime_successors :: "ModuleGraph \<Rightarrow> nat \<Rightarrow> nat list \<times> (nat \<times> nat) list" where
  "build_runtime_successors self n = fold (add_module_succs self n) (modules self) ([], [])"

section \<open>The search\<close>

type_synonym SccState = TarjanState

record SccFrame =
  sf_node :: nat
  succ_pos :: nat
  succ_end :: nat

definition scc_new :: "nat \<Rightarrow> SccState" where
  "scc_new n = \<lparr>index_counter = 0, indices = replicate n U32_MAX, lowlinks = replicate n 0,
     on_stack = {}, stack = [], sccs = []\<rparr>"

definition scc_discover :: "nat \<Rightarrow> SccState \<Rightarrow> SccState" where
  "scc_discover node s =
     s\<lparr>indices := (indices s)[node := index_counter s],
       lowlinks := (lowlinks s)[node := index_counter s],
       index_counter := (index_counter s + 1) mod (U32_MAX + 1),
       on_stack := insert node (on_stack s),
       stack := node # stack s\<rparr>"

definition frame_for :: "nat \<Rightarrow> (nat \<times> nat) list \<Rightarrow> SccFrame" where
  "frame_for node succ_ranges =
     \<lparr>sf_node = node, succ_pos = fst (succ_ranges ! node), succ_end = snd (succ_ranges ! node)\<rparr>"

definition advance_frame :: "SccFrame \<Rightarrow> nat list \<Rightarrow> SccState \<Rightarrow> nat option \<times> SccFrame \<times> SccState" where
  "advance_frame frame all_succs s =
     (let w = all_succs ! succ_pos frame; frame' = frame\<lparr>succ_pos := succ_pos frame + 1\<rparr>
      in if indices s ! w = U32_MAX then (Some w, frame', scc_discover w s)
         else (None, frame',
           if w \<in> on_stack s
           then (let v = sf_node frame
                 in s\<lparr>lowlinks := (lowlinks s)[v := min (lowlinks s ! v) (indices s ! w)]\<rparr>)
           else s))"

fun pop_scc :: "nat \<Rightarrow> nat list \<Rightarrow> nat set \<Rightarrow> nat list \<Rightarrow> (nat list \<times> nat set \<times> nat list) option" where
  "pop_scc v [] on scc = None"
| "pop_scc v (w # st) on scc =
     (if w = v then Some (st, on - {w}, scc @ [w]) else pop_scc v st (on - {w}) (scc @ [w]))"

definition collect_root_scc :: "nat \<Rightarrow> SccState \<Rightarrow> SccState option" where
  "collect_root_scc v s =
     (if lowlinks s ! v \<noteq> indices s ! v then Some s
      else map_option (\<lambda>(st, on, scc).
             s\<lparr>stack := st, on_stack := on,
               sccs := (if length scc \<ge> 2 then sccs s @ [scc] else sccs s)\<rparr>)
           (pop_scc v (stack s) (on_stack s) []))"

fun scc_step ::
  "nat list \<Rightarrow> (nat \<times> nat) list \<Rightarrow> SccState \<times> SccFrame list \<Rightarrow> (SccState \<times> SccFrame list) option" where
  "scc_step all_succs succ_ranges (s, []) = Some (s, [])"
| "scc_step all_succs succ_ranges (s, frame # dfs) =
     (if succ_pos frame < succ_end frame then
        (case advance_frame frame all_succs s of
           (Some child, frame', s') \<Rightarrow> Some (s', frame_for child succ_ranges # frame' # dfs)
         | (None, frame', s') \<Rightarrow> Some (s', frame' # dfs))
      else
        (let v = sf_node frame; v_lowlink = lowlinks s ! v;
             s' = (case dfs of
                     [] \<Rightarrow> s
                   | parent # _ \<Rightarrow> (let pv = sf_node parent
                       in s\<lparr>lowlinks := (lowlinks s)[pv := min (lowlinks s ! pv) v_lowlink]\<rparr>))
         in map_option (\<lambda>s''. (s'', dfs)) (collect_root_scc v s')))"

definition run_dfs_from ::
  "nat \<Rightarrow> nat list \<Rightarrow> (nat \<times> nat) list \<Rightarrow> SccState \<Rightarrow> SccState option" where
  "run_dfs_from start all_succs succ_ranges s =
     map_option fst (Option.bind
       (while_option (\<lambda>x. case x of None \<Rightarrow> False | Some (s, dfs) \<Rightarrow> dfs \<noteq> [])
         (\<lambda>x. Option.bind x (scc_step all_succs succ_ranges))
         (Some (scc_discover start s, [frame_for start succ_ranges]))) id)"

definition import_sccs :: "ModuleGraph \<Rightarrow> nat list list option" where
  "import_sccs self =
     (let n = length (modules self) in
      case build_runtime_successors self n of (all_succs, succ_ranges) \<Rightarrow>
        map_option sccs (fold (\<lambda>start st. Option.bind st (\<lambda>s.
            if indices s ! start \<noteq> U32_MAX then Some s
            else run_dfs_from start all_succs succ_ranges s))
          [0..<n] (Some (scc_new n))))"

section \<open>The adjacency lists the runtime imports\<close>

definition imports_at_runtime :: "ModuleGraph \<Rightarrow> nat \<Rightarrow> nat \<Rightarrow> bool" where
  "imports_at_runtime g v w \<longleftrightarrow> v < length (modules g) \<and> w < length (modules g) \<and>
     (\<exists>e \<in> set (edges_of (edges g) (modules g ! v)).
        edge_target e = w \<and> (\<exists>s \<in> set (symbols e). \<not> sym_is_type_only s))"

definition runtime_succs :: "ModuleGraph \<Rightarrow> nat \<Rightarrow> nat list" where
  "runtime_succs g v =
     (if v < length (modules g) then
        fst (fold (add_succ (length (modules g))) (edges_of (edges g) (modules g ! v)) ([], {}))
      else [])"

lemma fold_add_succ:
  "fold (add_succ n) es (pre @ ss, set ss) =
     (pre @ fst (fold (add_succ n) es (ss, set ss)), snd (fold (add_succ n) es (ss, set ss))) \<and>
   snd (fold (add_succ n) es (ss, set ss)) = set (fst (fold (add_succ n) es (ss, set ss)))"
proof (induction es arbitrary: ss)
  case (Cons e es)
  let ?t = "edge_target e"
  show ?case
  proof (cases "\<not> list_all sym_is_type_only (symbols e) \<and> ?t < n \<and> ?t \<notin> set ss")
    case True
    then have "add_succ n e (pre @ ss, set ss) = (pre @ (ss @ [?t]), set (ss @ [?t]))"
        "add_succ n e (ss, set ss) = (ss @ [?t], set (ss @ [?t]))"
      by (simp_all add: add_succ_def Let_def)
    with Cons.IH [of "ss @ [?t]"] show ?thesis by (simp only: fold_Cons comp_apply)
  next
    case False
    then have "add_succ n e (pre @ ss, set ss) = (pre @ ss, set ss)" "add_succ n e (ss, set ss) = (ss, set ss)"
      by (auto simp: add_succ_def Let_def)
    with Cons.IH [of ss] show ?thesis by (simp only: fold_Cons comp_apply)
  qed
qed simp

lemma fold_add_succ_set:
  "set (fst (fold (add_succ n) es (ss, set ss))) = set ss \<union>
     {t. t < n \<and> (\<exists>e \<in> set es. edge_target e = t \<and> (\<exists>s \<in> set (symbols e). \<not> sym_is_type_only s))}"
proof (induction es arbitrary: ss)
  case (Cons e es)
  let ?t = "edge_target e"
  show ?case
  proof (cases "\<not> list_all sym_is_type_only (symbols e) \<and> ?t < n \<and> ?t \<notin> set ss")
    case True
    then have "add_succ n e (ss, set ss) = (ss @ [?t], set (ss @ [?t]))"
      by (simp add: add_succ_def Let_def)
    then have "set (fst (fold (add_succ n) (e # es) (ss, set ss))) = set (ss @ [?t]) \<union>
        {t. t < n \<and> (\<exists>e \<in> set es. edge_target e = t \<and> (\<exists>s \<in> set (symbols e). \<not> sym_is_type_only s))}"
      using Cons.IH [of "ss @ [?t]"] by (simp only: fold_Cons comp_apply)
    with True show ?thesis by (auto simp: list_all_iff)
  next
    case False
    then have "add_succ n e (ss, set ss) = (ss, set ss)"
      by (auto simp: add_succ_def Let_def)
    then have "set (fst (fold (add_succ n) (e # es) (ss, set ss))) = set ss \<union>
        {t. t < n \<and> (\<exists>e \<in> set es. edge_target e = t \<and> (\<exists>s \<in> set (symbols e). \<not> sym_is_type_only s))}"
      using Cons.IH [of ss] by (simp only: fold_Cons comp_apply)
    with False show ?thesis by (auto simp: list_all_iff)
  qed
qed simp

lemma runtime_succs_iff: "w \<in> set (runtime_succs g v) \<longleftrightarrow> imports_at_runtime g v w"
  using fold_add_succ_set [of "length (modules g)" _ "[]"]
  by (auto simp: runtime_succs_def imports_at_runtime_def)

definition succs_at :: "nat list \<Rightarrow> (nat \<times> nat) list \<Rightarrow> nat \<Rightarrow> nat list" where
  "succs_at all_succs succ_ranges v = slice (fst (succ_ranges ! v)) (snd (succ_ranges ! v)) all_succs"

lemma build_runtime_successors_ok:
  assumes "build_runtime_successors g (length (modules g)) = (all_succs, ranges)"
  shows "length ranges = length (modules g) \<and> (\<forall>v < length (modules g).
    fst (ranges ! v) \<le> snd (ranges ! v) \<and> snd (ranges ! v) \<le> length all_succs \<and>
    succs_at all_succs ranges v = runtime_succs g v)"
proof -
  let ?n = "length (modules g)"
  define local where "local m = fst (fold (add_succ ?n) (edges_of (edges g) m) ([], {}))" for m
  have step: "add_module_succs g ?n m (all, rs) = (all @ local m, rs @ [(length all, length all + length (local m))])"
    for m all rs
    using fold_add_succ [of ?n "edges_of (edges g) m" all "[]"]
    by (simp add: add_module_succs_def local_def)
  have "length (snd (fold (add_module_succs g ?n) ms ([], []))) = length ms \<and>
    (\<forall>v < length ms. let st = fold (add_module_succs g ?n) ms ([], []) in
      fst (snd st ! v) \<le> snd (snd st ! v) \<and> snd (snd st ! v) \<le> length (fst st) \<and>
      succs_at (fst st) (snd st) v = local (ms ! v))" for ms
  proof (induction ms rule: rev_induct)
    case (snoc m ms)
    obtain all rs where st: "fold (add_module_succs g ?n) ms ([], []) = (all, rs)" by fastforce
    have st': "fold (add_module_succs g ?n) (ms @ [m]) ([], []) =
        (all @ local m, rs @ [(length all, length all + length (local m))])"
      by (simp add: st step)
    have len: "length rs = length ms" using snoc st by simp
    have old: "fst (rs ! v) \<le> snd (rs ! v) \<and> snd (rs ! v) \<le> length all \<and> succs_at all rs v = local (ms ! v)"
      if "v < length ms" for v using snoc st that by (simp add: Let_def)
    show ?case
    proof (intro conjI allI impI)
      show "length (snd (fold (add_module_succs g ?n) (ms @ [m]) ([], []))) = length (ms @ [m])"
        unfolding st' by (simp add: len)
      fix v assume v: "v < length (ms @ [m])"
      show "let st = fold (add_module_succs g ?n) (ms @ [m]) ([], []) in
          fst (snd st ! v) \<le> snd (snd st ! v) \<and> snd (snd st ! v) \<le> length (fst st) \<and>
          succs_at (fst st) (snd st) v = local ((ms @ [m]) ! v)"
      proof (cases "v < length ms")
        case True
        with old [OF True] len show ?thesis
          unfolding st' Let_def by (auto simp: nth_append succs_at_def slice_def)
      next
        case False
        with v have "v = length ms" by simp
        with len show ?thesis unfolding st' Let_def by (simp add: succs_at_def slice_def nth_append)
      qed
    qed
  qed simp
  from this [of "modules g"] assms show ?thesis
    by (auto simp: build_runtime_successors_def runtime_succs_def local_def Let_def)
qed

section \<open>The search finds the components of two modules or more\<close>

abbreviation big :: "nat list \<Rightarrow> bool" where
  "big scc \<equiv> 2 \<le> length scc"

interpretation scc: scc_search "length (modules g)" "runtime_succs g" for g
  by unfold_locales (simp add: runtime_succs_iff imports_at_runtime_def)

definition scc_frames :: "(nat \<times> nat) list \<Rightarrow> SccFrame list \<Rightarrow> (nat \<times> nat) list" where
  "scc_frames ranges dfs = map (\<lambda>f. (sf_node f, succ_pos f - fst (ranges ! sf_node f))) dfs"

lemma scc_frames_simps [simp]:
  "scc_frames ranges [] = []"
  "scc_frames ranges (f # dfs) = (sf_node f, succ_pos f - fst (ranges ! sf_node f)) # scc_frames ranges dfs"
  "sf_node (frame_for w ranges) = w" "succ_pos (frame_for w ranges) = fst (ranges ! w)"
  "succ_end (frame_for w ranges) = snd (ranges ! w)"
  by (simp_all add: scc_frames_def frame_for_def)

definition frames_in_range :: "(nat \<times> nat) list \<Rightarrow> SccFrame list \<Rightarrow> bool" where
  "frames_in_range ranges dfs \<longleftrightarrow>
     (\<forall>f \<in> set dfs. fst (ranges ! sf_node f) \<le> succ_pos f \<and> succ_end f = snd (ranges ! sf_node f))"

definition scc_ok :: "ModuleGraph \<Rightarrow> (nat \<times> nat) list \<Rightarrow> SccState \<Rightarrow> SccFrame list \<Rightarrow> bool" where
  "scc_ok g ranges s dfs \<longleftrightarrow>
     scc.state_ok g big s (scc_frames ranges dfs) \<and> frames_in_range ranges dfs"

lemma pop_scc_split:
  "v \<notin> set pre \<Longrightarrow> pop_scc v (pre @ v # post) on scc = Some (post, on - set (pre @ [v]), scc @ pre @ [v])"
  by (induction pre arbitrary: on scc) (auto simp: insert_commute Diff_insert2 [symmetric])

lemma scc_discover_is_found:
  assumes "scc.state_ok g keep s fr" "w < length (modules g)" "w \<notin> scc.seen s"
  shows "scc_discover w s = scc.found w s"
proof -
  have "index_counter s + 1 \<le> U32_MAX"
    using scc.counter_below [OF assms] assms(1) by (simp add: scc.state_ok_def)
  then show ?thesis by (simp add: scc_discover_def scc.found_def)
qed

definition pop_frame :: "SccState \<Rightarrow> nat \<Rightarrow> SccFrame list \<Rightarrow> SccState option" where
  "pop_frame s v dfs = collect_root_scc v (case dfs of [] \<Rightarrow> s
     | p # _ \<Rightarrow> s\<lparr>lowlinks := (lowlinks s)[sf_node p := min (lowlinks s ! sf_node p) (lowlinks s ! v)]\<rparr>)"

lemma pop_frame_ok:
  assumes ok: "scc.state_ok g big s ((v, k) # scc_frames ranges dfs)"
    and k: "\<not> k < length (runtime_succs g v)"
  shows "\<exists>s'. pop_frame s v dfs = Some s' \<and> scc.state_ok g big s' (scc_frames ranges dfs) \<and>
    scc.seen s' = scc.seen s"
proof (cases "lowlinks s ! v = indices s ! v")
  case True
  obtain pre post where st: "stack s = pre @ v # post" "v \<notin> set pre"
    and c: "scc.state_ok g big (scc.closed_state big v pre post s) (scc_frames ranges dfs)"
    using scc.state_close [OF ok k True] .
  have same: "(case dfs of [] \<Rightarrow> s
     | p # _ \<Rightarrow> s\<lparr>lowlinks := (lowlinks s)[sf_node p := min (lowlinks s ! sf_node p) (lowlinks s ! v)]\<rparr>) = s"
  proof (cases dfs)
    case (Cons p rest)
    have "lowlinks s ! sf_node p < lowlinks s ! v"
      using scc.parent_low [OF ok [unfolded Cons, simplified] True] .
    then show ?thesis by (simp add: Cons min_def)
  qed simp
  have "pop_frame s v dfs = Some (scc.closed_state big v pre post s)"
    unfolding pop_frame_def same
    using True by (auto simp: collect_root_scc_def st(1) pop_scc_split [OF st(2)] scc.closed_state_def)
  with c show ?thesis by (simp add: scc.closed_state_def scc.seen_def)
next
  case False
  obtain p j rest where fr: "scc_frames ranges dfs = (p, j) # rest"
    and r: "scc.state_ok g big
      (s\<lparr>lowlinks := (lowlinks s)[p := min (lowlinks s ! p) (lowlinks s ! v)]\<rparr>) (scc_frames ranges dfs)"
    using scc.state_retreat [OF ok k False] .
  then obtain q qs where q: "dfs = q # qs" "sf_node q = p" by (cases dfs) (auto simp: scc_frames_def)
  have "p \<noteq> v"
    using ok fr by (auto simp: scc.state_ok_def scc.search_inv_def scc.ordered_def)
  then show ?thesis using r q False
    by (simp add: pop_frame_def collect_root_scc_def scc.seen_def nth_list_update)
qed

lemma scc_step_ok:
  assumes b: "build_runtime_successors g (length (modules g)) = (all_succs, ranges)"
    and ok: "scc_ok g ranges s (f # dfs)"
  shows "\<exists>s' dfs'. scc_step all_succs ranges (s, f # dfs) = Some (s', dfs') \<and> scc_ok g ranges s' dfs' \<and>
    scc.seen s \<subseteq> scc.seen s' \<and>
    scc.work_left g s' (scc_frames ranges dfs') < scc.work_left g s (scc_frames ranges (f # dfs))"
proof -
  let ?n = "length (modules g)" and ?v = "sf_node f"
  let ?k = "succ_pos f - fst (ranges ! ?v)"
  note br = build_runtime_successors_ok [OF b]
  have ok': "scc.state_ok g big s ((?v, ?k) # scc_frames ranges dfs)"
    and rg: "frames_in_range ranges dfs" "fst (ranges ! ?v) \<le> succ_pos f" "succ_end f = snd (ranges ! ?v)"
    using ok by (auto simp: scc_ok_def frames_in_range_def)
  have v: "?v < ?n"
    using ok' by (auto simp: scc.state_ok_def scc.search_inv_def scc.ordered_def)
  have range: "fst (ranges ! ?v) \<le> snd (ranges ! ?v)" "snd (ranges ! ?v) \<le> length all_succs"
      "runtime_succs g ?v = slice (fst (ranges ! ?v)) (snd (ranges ! ?v)) all_succs"
    using br v by (auto simp: succs_at_def)
  have len: "length (runtime_succs g ?v) = snd (ranges ! ?v) - fst (ranges ! ?v)"
    using range by simp
  have frame: "frames_in_range ranges (frame_for w ranges # f\<lparr>succ_pos := Suc (succ_pos f)\<rparr> # dfs)"
      "frames_in_range ranges (f\<lparr>succ_pos := Suc (succ_pos f)\<rparr> # dfs)" for w
    using rg by (auto simp: frames_in_range_def)
  have Suc_k: "Suc (succ_pos f) - fst (ranges ! ?v) = Suc ?k" using rg(2) by simp
  show ?thesis
  proof (cases "succ_pos f < succ_end f")
    case True
    let ?w = "all_succs ! succ_pos f"
    have k: "?k < length (runtime_succs g ?v)" using True rg len by simp
    have wk: "runtime_succs g ?v ! ?k = ?w"
      using k rg range by (simp add: nth_slice)
    have w: "?w < ?n" using nth_mem [OF k] unfolding wk runtime_succs_iff by (simp add: imports_at_runtime_def)
    show ?thesis
    proof (cases "indices s ! ?w = U32_MAX")
      case unseen: True
      then have ns: "?w \<notin> scc.seen s" using scc.seen_iff [OF ok' w] by simp
      have "scc_step all_succs ranges (s, f # dfs) =
          Some (scc.found ?w s, frame_for ?w ranges # f\<lparr>succ_pos := Suc (succ_pos f)\<rparr> # dfs)"
        using True unseen scc_discover_is_found [OF ok' w ns] by (simp add: advance_frame_def Let_def)
      then show ?thesis
        using scc.state_descend [OF ok' k wk ns] scc.seen_found [OF ok' w ns] frame Suc_k
        by (auto simp: scc_ok_def)
    next
      case False
      then have sw: "?w \<in> scc.seen s" using scc.seen_iff [OF ok' w] by simp
      define s' where "s' = (if ?w \<in> on_stack s
        then s\<lparr>lowlinks := (lowlinks s)[?v := min (lowlinks s ! ?v) (indices s ! ?w)]\<rparr> else s)"
      have "scc_step all_succs ranges (s, f # dfs) = Some (s', f\<lparr>succ_pos := Suc (succ_pos f)\<rparr> # dfs)"
        using True False by (simp add: advance_frame_def Let_def s'_def)
      moreover have "scc.seen s' = scc.seen s" by (simp add: s'_def scc.seen_def)
      ultimately show ?thesis
        using scc.state_skip [OF ok' k wk sw s'_def] frame Suc_k
        by (auto simp: scc_ok_def)
    qed
  next
    case False
    then have k: "\<not> ?k < length (runtime_succs g ?v)" using rg len by simp
    obtain s' where s': "pop_frame s ?v dfs = Some s'" "scc.state_ok g big s' (scc_frames ranges dfs)"
        "scc.seen s' = scc.seen s"
      using pop_frame_ok [OF ok' k] by blast
    have "scc_step all_succs ranges (s, f # dfs) = Some (s', dfs)"
      using False s'(1) by (simp add: pop_frame_def Let_def split: list.splits)
    then show ?thesis
      using s' rg(1) scc.work_left_pop [OF s'(3)] by (auto simp: scc_ok_def)
  qed
qed

lemma run_dfs_from_ok:
  assumes b: "build_runtime_successors g (length (modules g)) = (all_succs, ranges)"
    and ok: "scc.state_ok g big s []" and start: "start < length (modules g)" "indices s ! start = U32_MAX"
  shows "\<exists>s'. run_dfs_from start all_succs ranges s = Some s' \<and> scc.state_ok g big s' [] \<and>
    insert start (scc.seen s) \<subseteq> scc.seen s'"
proof -
  have ns: "start \<notin> scc.seen s" using scc.seen_iff [OF ok start(1)] start(2) by simp
  let ?init = "Some (scc_discover start s, [frame_for start ranges])"
  let ?P = "\<lambda>x. case x of None \<Rightarrow> False | Some (t, dfs) \<Rightarrow>
    scc_ok g ranges t dfs \<and> insert start (scc.seen s) \<subseteq> scc.seen t"
  let ?b = "\<lambda>x. case x of None \<Rightarrow> False | Some (t :: SccState, dfs) \<Rightarrow> dfs \<noteq> []"
  let ?c = "\<lambda>x. Option.bind x (scc_step all_succs ranges)"
  let ?m = "\<lambda>x. case x of None \<Rightarrow> 0 | Some (t, dfs) \<Rightarrow> scc.work_left g t (scc_frames ranges dfs)"
  have init: "?P ?init"
    using scc.state_start [OF ok start(1) ns] scc.seen_found [OF ok start(1) ns]
    by (auto simp: scc_discover_is_found [OF ok start(1) ns] scc_ok_def frames_in_range_def)
  have step: "?P (?c x) \<and> ?m (?c x) < ?m x" if P: "?P x" and N: "?b x" for x
  proof -
    obtain t f dfs where x: "x = Some (t, f # dfs)"
      using N by (auto split: option.splits simp: neq_Nil_conv)
    have "scc_ok g ranges t (f # dfs)" using P x by simp
    from scc_step_ok [OF b this] obtain t' dfs' where st: "scc_step all_succs ranges (t, f # dfs) = Some (t', dfs')"
        "scc_ok g ranges t' dfs'" "scc.seen t \<subseteq> scc.seen t'"
        "scc.work_left g t' (scc_frames ranges dfs') < scc.work_left g t (scc_frames ranges (f # dfs))"
      by (elim exE conjE)
    have "?c x = Some (t', dfs')" by (simp only: x bind.bind_lunit st(1))
    then show ?thesis using P st(2-) by (auto simp: x simp del: scc_frames_simps)
  qed
  obtain r where r: "while_option ?b ?c ?init = Some r"
    using measure_while_option_Some [where P = ?P and s = ?init and f = ?m, OF step init] by blast
  have "?P r" by (rule while_option_rule [OF _ r]) (use step init in auto)
  moreover have "\<not> ?b r" using while_option_stop [OF r] .
  ultimately obtain t where "r = Some (t, [])" "scc_ok g ranges t []" "insert start (scc.seen s) \<subseteq> scc.seen t"
    by (auto split: option.splits)
  then show ?thesis using r by (simp add: run_dfs_from_def scc_ok_def)
qed

lemma import_sccs_fold:
  assumes b: "build_runtime_successors g (length (modules g)) = (all_succs, ranges)"
    and ok: "scc.state_ok g big s []" and starts: "set starts \<subseteq> {..<length (modules g)}"
  shows "\<exists>s'. fold (\<lambda>start st. Option.bind st (\<lambda>s. if indices s ! start \<noteq> U32_MAX then Some s
      else run_dfs_from start all_succs ranges s)) starts (Some s) = Some s' \<and>
    scc.state_ok g big s' [] \<and> set starts \<union> scc.seen s \<subseteq> scc.seen s'"
  using ok starts
proof (induction starts arbitrary: s)
  case (Cons v starts)
  have v: "v < length (modules g)" using Cons.prems(2) by simp
  show ?case
  proof (cases "indices s ! v = U32_MAX")
    case True
    obtain s1 where s1: "run_dfs_from v all_succs ranges s = Some s1" "scc.state_ok g big s1 []"
        "insert v (scc.seen s) \<subseteq> scc.seen s1"
      using run_dfs_from_ok [OF b Cons.prems(1) v True] by blast
    then show ?thesis using Cons.IH [OF s1(2)] Cons.prems(2) True by fastforce
  next
    case False
    then have "v \<in> scc.seen s" using scc.seen_iff [OF Cons.prems(1) v] by simp
    then show ?thesis using Cons.IH [OF Cons.prems(1)] Cons.prems(2) False by fastforce
  qed
qed auto

definition runtime_rel :: "ModuleGraph \<Rightarrow> (nat \<times> nat) set" where
  "runtime_rel g = {(v, w). imports_at_runtime g v w}"

definition import_component :: "ModuleGraph \<Rightarrow> nat \<Rightarrow> nat set" where
  "import_component g v = {w. (v, w) \<in> (runtime_rel g)\<^sup>* \<and> (w, v) \<in> (runtime_rel g)\<^sup>*}"

lemma import_component_eq: "component (length (modules g)) (runtime_succs g) v = import_component g v"
proof -
  have "graph_rel (length (modules g)) (runtime_succs g) = runtime_rel g"
    by (auto simp: graph_rel_def runtime_rel_def runtime_succs_iff imports_at_runtime_def)
  then show ?thesis by (simp add: component_def import_component_def)
qed

lemma import_sccs_facts:
  assumes "length (modules g) \<le> U32_MAX"
  shows "\<exists>cs. import_sccs g = Some cs \<and> distinct (concat cs) \<and> set (concat cs) \<subseteq> {..<length (modules g)} \<and>
    list_all (\<lambda>c. big c \<and> set c = import_component g (hd c)) cs \<and>
    (\<forall>v < length (modules g). 2 \<le> card (import_component g v) \<longrightarrow> (\<exists>c \<in> set cs. v \<in> set c))"
proof -
  let ?n = "length (modules g)"
  obtain all_succs ranges where b: "build_runtime_successors g ?n = (all_succs, ranges)" by fastforce
  have "scc.state_ok g big (scc_new ?n) []"
    using scc.state_ok_fresh [OF assms] by (simp add: scc_new_def scc.fresh_state_def)
  from import_sccs_fold [OF b this, of "[0..<?n]"]
  obtain s where s: "import_sccs g = Some (sccs s)" "scc.state_ok g big s []" "{..<?n} \<subseteq> scc.seen s"
    by (auto simp: import_sccs_def Let_def b atLeast0LessThan)
  have "scc.recorded g big {..<?n} (sccs s)" using scc.state_ok_all_seen [OF s(2,3)] .
  then obtain all where all: "sccs s = filter big all" "distinct (concat all)" "set (concat all) = {..<?n}"
      "\<forall>c \<in> set all. c \<noteq> [] \<and> set c = import_component g (hd c)"
    unfolding scc.recorded_def import_component_eq by (elim exE conjE)
  have "distinct (concat (sccs s))" using all(2) unfolding all(1) by (induction all) auto
  moreover have "set (concat (sccs s)) \<subseteq> {..<?n}" using all(3) unfolding all(1) by auto
  moreover have "list_all (\<lambda>c. big c \<and> set c = import_component g (hd c)) (sccs s)"
    using all(4) unfolding all(1) by (simp add: list_all_iff)
  moreover have "\<exists>c \<in> set (sccs s). v \<in> set c" if "v < ?n" "2 \<le> card (import_component g v)" for v
  proof -
    have "v \<in> set (concat all)" using all(3) that(1) by simp
    then obtain c where c: "c \<in> set all" "v \<in> set c" by auto
    then have "set c = import_component g v"
      using all(4) component_eq [of v ?n "runtime_succs g" "hd c"] by (auto simp: import_component_eq)
    then have "big c" using that(2) card_length [of c] by simp
    with c show ?thesis unfolding all(1) by auto
  qed
  ultimately show ?thesis using s(1) by blast
qed

text \<open>
  C17. The search for import cycles never panics and ends, and for at most \<open>U32_MAX\<close> modules its
  components are exactly the sets of two or more modules that import each other at run time,
  directly or through others: no such set is missed, split or merged, and no module is listed
  twice.
\<close>

theorem import_sccs_are_the_components:
  assumes "length (modules g) \<le> U32_MAX"
  shows "\<exists>cs. import_sccs g = Some cs \<and> distinct (concat cs) \<and>
    set (map set cs) = {C. \<exists>v < length (modules g). C = import_component g v \<and> 2 \<le> card C}"
proof -
  let ?n = "length (modules g)"
  obtain cs where cs: "import_sccs g = Some cs" "distinct (concat cs)" "set (concat cs) \<subseteq> {..<?n}"
      "list_all (\<lambda>c. big c \<and> set c = import_component g (hd c)) cs"
      "\<forall>v < ?n. 2 \<le> card (import_component g v) \<longrightarrow> (\<exists>c \<in> set cs. v \<in> set c)"
    using import_sccs_facts [OF assms] by (elim exE conjE)
  have c: "big c" "set c = import_component g (hd c)" "hd c \<in> set c" "distinct c" "hd c < ?n"
    if "c \<in> set cs" for c
  proof -
    show 1: "big c" "set c = import_component g (hd c)" using cs(4) that by (simp_all add: list_all_iff)
    then have "c \<noteq> []" by auto
    then show 2: "hd c \<in> set c" by simp
    show "distinct c" using cs(2) that by (simp add: distinct_concat_iff)
    show "hd c < ?n" using cs(3) that 2 by auto
  qed
  have "set (map set cs) = {C. \<exists>v < ?n. C = import_component g v \<and> 2 \<le> card C}"
  proof (intro equalityI subsetI)
    fix C assume "C \<in> set (map set cs)"
    then obtain d where d: "d \<in> set cs" "C = set d" by auto
    then have "card C = length d" using c(4) by (simp add: distinct_card)
    then show "C \<in> {C. \<exists>v < ?n. C = import_component g v \<and> 2 \<le> card C}"
      using c [OF d(1)] d(2) by auto
  next
    fix C assume "C \<in> {C. \<exists>v < ?n. C = import_component g v \<and> 2 \<le> card C}"
    then obtain v d where v: "C = import_component g v" "d \<in> set cs" "v \<in> set d" using cs(5) by blast
    then have "C = set d"
      using c(2) [OF v(2)] component_eq [of v ?n "runtime_succs g" "hd d"] by (simp add: import_component_eq)
    with v(2) show "C \<in> set (map set cs)" by simp
  qed
  with cs(1,2) show ?thesis by blast
qed

section \<open>Rings of imports\<close>

text \<open>The graph of \<open>n\<close> modules in which every module imports a value of the next one.\<close>

definition ring_module :: "nat \<Rightarrow> ModuleNode" where
  "ring_module i = \<lparr>file_id = i, node_path = [replicate i CHR ''a''], edge_range = (i, Suc i),
     exports = [], re_exports = [], flags = 0\<rparr>"

definition ring_edge :: "nat \<Rightarrow> nat \<Rightarrow> Edge" where
  "ring_edge n i = \<lparr>edge_source = i, edge_target = Suc i mod n,
     symbols = [\<lparr>imported_name = ImpDefault, local_name = ''x'',
       import_span = \<lparr>span_begin = 0, span_end = 1\<rparr>, sym_is_type_only = False\<rparr>]\<rparr>"

definition ring_graph :: "nat \<Rightarrow> ModuleGraph" where
  "ring_graph n = \<lparr>modules = map ring_module [0..<n], edges = map (ring_edge n) [0..<n],
     package_usage = Map.empty, type_only_package_usage = Map.empty, entry_points = {},
     runtime_entry_points = {}, test_entry_points = {}, reverse_deps = [],
     namespace_imported = \<lparr>bit_length = 0, bits = {}\<rparr>, re_export_cycles = []\<rparr>"

lemma ring_size [simp]: "length (modules (ring_graph n)) = n"
  by (simp add: ring_graph_def)

lemma ring_imports: "imports_at_runtime (ring_graph n) v w \<longleftrightarrow> v < n \<and> w = Suc v mod n"
proof (cases "v < n")
  case True
  then have "edges_of (edges (ring_graph n)) (modules (ring_graph n) ! v) = [ring_edge n v]"
    by (simp add: ring_graph_def edges_of_def ring_module_def slice_Suc) (simp add: slice_def)
  then show ?thesis
    using True by (auto simp: imports_at_runtime_def) (simp_all add: ring_edge_def)
qed (simp add: imports_at_runtime_def)

lemma ring_reaches: "v < n \<Longrightarrow> (v, (v + k) mod n) \<in> (runtime_rel (ring_graph n))\<^sup>*"
proof (induction k)
  case (Suc k)
  have "((v + k) mod n, (v + Suc k) mod n) \<in> runtime_rel (ring_graph n)"
    using Suc.prems by (simp add: runtime_rel_def ring_imports mod_Suc_eq)
  with Suc show ?case by (meson rtrancl_into_rtrancl)
qed simp

lemma ring_component:
  assumes "v < n"
  shows "import_component (ring_graph n) v = {..<n}"
proof -
  have r: "(a, b) \<in> (runtime_rel (ring_graph n))\<^sup>*" if "a < n" "b < n" for a b
    using ring_reaches [OF that(1), of "n - a + b"] that by simp
  have below: "w < n" if "(v, w) \<in> (runtime_rel (ring_graph n))\<^sup>*" for w
    using that assms by induction (auto simp: runtime_rel_def ring_imports)
  show ?thesis
  proof (intro equalityI subsetI)
    fix w assume "w \<in> {..<n}"
    then show "w \<in> import_component (ring_graph n) v"
      using r [OF assms, of w] r [OF _ assms, of w] by (simp add: import_component_def)
  qed (use below in \<open>simp add: import_component_def\<close>)
qed

theorem import_sccs_are_the_components_witness:
  "\<exists>cs. import_sccs (ring_graph 3) = Some cs \<and> {0, 1, 2} \<in> set (map set cs)"
proof -
  have "length (modules (ring_graph 3)) \<le> U32_MAX" by (simp add: U32_MAX_def)
  from import_sccs_are_the_components [OF this] obtain cs where cs: "import_sccs (ring_graph 3) = Some cs"
      "set (map set cs) = {C. \<exists>v < length (modules (ring_graph 3)).
        C = import_component (ring_graph 3) v \<and> 2 \<le> card C}"
    by (elim exE conjE)
  have "import_component (ring_graph 3) 0 = {0, 1, 2}" by (simp add: ring_component) auto
  then have "{0, 1, 2} \<in> set (map set cs)"
    unfolding cs(2) by (intro CollectI exI [of _ 0]) simp
  with cs(1) show ?thesis by blast
qed

end
