(* ===== verification/Import_Cycles.thy ===== *)
theory Import_Cycles
  imports Import_Components
begin

text \<open>
  The second half of circular dependency detection (\<^verbatim>\<open>graph/src/graph/cycles.rs\<close>): the
  bounded depth-first enumeration of the elementary cycles of a component, and
  \<^verbatim>\<open>ModuleGraph::find_cycles\<close>, which runs it over the components found by the search of
  \<^verbatim>\<open>Import_Components\<close>. Node numbers are file identifiers. A module path is read with
  \<open>!\<close>; all indices used are below the number of modules.
\<close>

section \<open>Enumerating the cycles of a component\<close>

definition path_of :: "ModuleNode list \<Rightarrow> nat \<Rightarrow> path" where
  "path_of ms v = node_path (ms ! v)"

definition canonical_cycle :: "nat list \<Rightarrow> ModuleNode list \<Rightarrow> nat list" where
  "canonical_cycle cycle ms =
     (if cycle = [] then []
      else (let min_pos =
              (case first_index (\<lambda>a. list_all (\<lambda>b. path_of ms a \<le> path_of ms b) cycle) cycle of
                 None \<Rightarrow> 0 | Some i \<Rightarrow> i)
            in drop min_pos cycle @ take min_pos cycle))"

type_synonym cycle_acc = "nat list set \<times> nat list list"

definition try_record_cycle :: "nat list \<Rightarrow> ModuleNode list \<Rightarrow> cycle_acc \<Rightarrow> cycle_acc" where
  "try_record_cycle p ms acc =
     (let canonical = canonical_cycle p ms
      in if canonical \<in> fst acc then acc else (insert canonical (fst acc), snd acc @ [canonical]))"

record CycleFrame =
  cf_pos :: nat
  cf_end :: nat

record SuccessorMap =
  all_succs :: "nat list"
  succ_ranges :: "(nat \<times> nat) list"
  sm_modules :: "ModuleNode list"

record DfsCycleInput =
  dc_start :: nat
  depth_limit :: nat
  scc_set :: "nat set"
  succs :: SuccessorMap
  max_cycles :: nat

record DfsCycleState =
  dc_path :: "nat list"
  dc_path_set :: "nat set"
  dc_frames :: "CycleFrame list"
  dc_acc :: cycle_acc

definition cycle_frame :: "SuccessorMap \<Rightarrow> nat \<Rightarrow> CycleFrame" where
  "cycle_frame sm v = \<lparr>cf_pos = fst (succ_ranges sm ! v), cf_end = snd (succ_ranges sm ! v)\<rparr>"

definition dfs_cycle_step :: "DfsCycleInput \<Rightarrow> DfsCycleState \<Rightarrow> DfsCycleState" where
  "dfs_cycle_step inp st =
     (case dc_frames st of
        [] \<Rightarrow> st
      | frame # dfs \<Rightarrow>
          if cf_pos frame \<ge> cf_end frame then
            (if length (dc_path st) > 1
             then st\<lparr>dc_frames := dfs, dc_path := butlast (dc_path st),
                     dc_path_set := dc_path_set st - {last (dc_path st)}\<rparr>
             else st\<lparr>dc_frames := dfs\<rparr>)
          else
            (let w = all_succs (succs inp) ! cf_pos frame;
                 st1 = st\<lparr>dc_frames := frame\<lparr>cf_pos := cf_pos frame + 1\<rparr> # dfs\<rparr>
             in if w \<notin> scc_set inp then st1
                else if w = dc_start inp \<and> length (dc_path st) \<ge> 2 \<and> length (dc_path st) = depth_limit inp then
                  st1\<lparr>dc_acc := try_record_cycle (dc_path st) (sm_modules (succs inp)) (dc_acc st)\<rparr>
                else if w \<in> dc_path_set st \<or> length (dc_path st) \<ge> depth_limit inp then st1
                else st1\<lparr>dc_path := dc_path st @ [w], dc_path_set := insert w (dc_path_set st),
                         dc_frames := cycle_frame (succs inp) w # dc_frames st1\<rparr>))"

definition dfs_find_cycles_from :: "DfsCycleInput \<Rightarrow> cycle_acc \<Rightarrow> cycle_acc option" where
  "dfs_find_cycles_from inp acc =
     map_option dc_acc
       (while_option (\<lambda>st. dc_frames st \<noteq> [] \<and> \<not> length (snd (dc_acc st)) \<ge> max_cycles inp) (dfs_cycle_step inp)
         \<lparr>dc_path = [dc_start inp], dc_path_set = {dc_start inp},
          dc_frames = [cycle_frame (succs inp) (dc_start inp)], dc_acc = acc\<rparr>)"

definition enumerate_at_depth ::
  "nat list \<Rightarrow> nat list \<Rightarrow> SuccessorMap \<Rightarrow> nat \<Rightarrow> nat \<Rightarrow> cycle_acc \<Rightarrow> cycle_acc option" where
  "enumerate_at_depth scc_nodes sorted_nodes sm mx depth acc =
     fold (\<lambda>start oacc. Option.bind oacc (\<lambda>acc.
         if length (snd acc) \<ge> mx then Some acc
         else dfs_find_cycles_from \<lparr>dc_start = start, depth_limit = depth, scc_set = set scc_nodes,
                succs = sm, max_cycles = mx\<rparr> acc))
       sorted_nodes (Some acc)"

definition enumerate_elementary_cycles :: "nat list \<Rightarrow> SuccessorMap \<Rightarrow> nat \<Rightarrow> nat list list option" where
  "enumerate_elementary_cycles scc_nodes sm mx =
     (let sorted_nodes = sort_key (path_of (sm_modules sm)) scc_nodes;
          max_depth = min (length scc_nodes) 12
      in map_option snd
           (fold (\<lambda>depth oacc. Option.bind oacc (\<lambda>acc.
               if length (snd acc) \<ge> mx then Some acc
               else enumerate_at_depth scc_nodes sorted_nodes sm mx depth acc))
             [2..<max_depth + 1] (Some ({}, []))))"

section \<open>Finding the cycles of the graph\<close>

definition MAX_CYCLES_PER_SCC :: nat where "MAX_CYCLES_PER_SCC = 20"

definition push_cycle :: "nat list \<Rightarrow> cycle_acc \<Rightarrow> cycle_acc" where
  "push_cycle c acc = (if c \<in> fst acc then acc else (insert c (fst acc), snd acc @ [c]))"

definition add_scc_cycles :: "SuccessorMap \<Rightarrow> nat list \<Rightarrow> cycle_acc \<Rightarrow> cycle_acc option" where
  "add_scc_cycles sm scc acc =
     (if length scc = 2 then
        (let cycle = [scc ! 0, scc ! 1]
         in Some (push_cycle
              (if path_of (sm_modules sm) (cycle ! 1) < path_of (sm_modules sm) (cycle ! 0)
               then [scc ! 1, scc ! 0] else cycle) acc))
      else map_option (\<lambda>cs. fold push_cycle cs acc)
             (enumerate_elementary_cycles scc sm MAX_CYCLES_PER_SCC))"

definition cycle_order :: "ModuleNode list \<Rightarrow> nat list \<Rightarrow> nat \<times> path" where
  "cycle_order ms c = (length c, path_of ms (c ! 0))"

definition enumerate_cycles_from_sccs :: "nat list list \<Rightarrow> SuccessorMap \<Rightarrow> nat list list option" where
  "enumerate_cycles_from_sccs comps sm =
     map_option (\<lambda>acc. sort_key (cycle_order (sm_modules sm)) (snd acc))
       (fold (\<lambda>scc oacc. Option.bind oacc (add_scc_cycles sm scc)) comps (Some ({}, [])))"

definition find_cycles :: "ModuleGraph \<Rightarrow> nat list list option" where
  "find_cycles self =
     (let n = length (modules self) in
      if n = 0 then Some []
      else (case build_runtime_successors self n of (all, ranges) \<Rightarrow>
        Option.bind (import_sccs self) (\<lambda>comps. enumerate_cycles_from_sccs comps
          \<lparr>all_succs = all, succ_ranges = ranges, sm_modules = modules self\<rparr>)))"

section \<open>The depth-first walk as a recursive function\<close>

abbreviation succ_list :: "SuccessorMap \<Rightarrow> nat \<Rightarrow> nat list" where
  "succ_list sm v \<equiv> succs_at (all_succs sm) (succ_ranges sm) v"

function walk :: "DfsCycleInput \<Rightarrow> nat list \<Rightarrow> nat list \<Rightarrow> cycle_acc \<Rightarrow> cycle_acc" where
  "walk inp p [] acc = acc"
| "walk inp p (w # ws) acc =
     (if max_cycles inp \<le> length (snd acc) then acc
      else if w \<notin> scc_set inp then walk inp p ws acc
      else if w = dc_start inp \<and> 2 \<le> length p \<and> length p = depth_limit inp
        then walk inp p ws (try_record_cycle p (sm_modules (succs inp)) acc)
      else if w \<in> set p \<or> depth_limit inp \<le> length p then walk inp p ws acc
      else walk inp p ws (walk inp (p @ [w]) (succ_list (succs inp) w) acc))"
  by pat_completeness auto

termination
  by (relation "measures [\<lambda>(inp, p, ws, acc). depth_limit inp - length p, \<lambda>(inp, p, ws, acc). length ws]") auto

text \<open>The walks still to do of a stack of frames, given their remaining successors.\<close>

fun unwind :: "DfsCycleInput \<Rightarrow> nat list \<Rightarrow> nat list list \<Rightarrow> cycle_acc \<Rightarrow> cycle_acc" where
  "unwind inp p [] acc = acc"
| "unwind inp p (ws # rest) acc = unwind inp (butlast p) rest (walk inp p ws acc)"

definition rest_of :: "SuccessorMap \<Rightarrow> CycleFrame \<Rightarrow> nat list" where
  "rest_of sm f = slice (cf_pos f) (cf_end f) (all_succs sm)"

lemma walk_full: "max_cycles inp \<le> length (snd acc) \<Longrightarrow> walk inp p ws acc = acc"
  by (cases ws) simp_all

lemma unwind_full: "max_cycles inp \<le> length (snd acc) \<Longrightarrow> unwind inp p wss acc = acc"
  by (induction wss arbitrary: p) (simp_all add: walk_full)

definition dfs_ok :: "DfsCycleInput \<Rightarrow> nat \<Rightarrow> DfsCycleState \<Rightarrow> bool" where
  "dfs_ok inp n st \<longleftrightarrow> dc_path st \<noteq> [] \<and> dc_path_set st = set (dc_path st) \<and> distinct (dc_path st) \<and>
     (dc_frames st \<noteq> [] \<longrightarrow> length (dc_frames st) = length (dc_path st)) \<and>
     length (dc_path st) \<le> max 1 (depth_limit inp) \<and>
     (\<forall>f \<in> set (dc_frames st). cf_end f \<le> length (all_succs (succs inp)))"

definition ranges_ok :: "DfsCycleInput \<Rightarrow> nat \<Rightarrow> bool" where
  "ranges_ok inp n \<longleftrightarrow> dc_start inp < n \<and> scc_set inp \<subseteq> {..<n} \<and>
     (\<forall>v < n. snd (succ_ranges (succs inp) ! v) \<le> length (all_succs (succs inp)))"

text \<open>
  A measure that decreases in every step: a frame at depth \<open>k\<close> weighs its remaining edges times
  a power that exceeds what one more level can add.
\<close>

fun frames_weight :: "nat \<Rightarrow> nat \<Rightarrow> CycleFrame list \<Rightarrow> nat" where
  "frames_weight b m [] = 0"
| "frames_weight b m (f # fs) = (cf_end f - cf_pos f + 1) * b ^ (m - length fs) + frames_weight b m fs"

lemma rest_of_Cons:
  assumes "cf_pos f < cf_end f" "cf_end f \<le> length (all_succs sm)"
  shows "rest_of sm f = all_succs sm ! cf_pos f # rest_of sm (f\<lparr>cf_pos := cf_pos f + 1\<rparr>)"
proof -
  have "cf_end f - cf_pos f = Suc (cf_end f - Suc (cf_pos f))" using assms(1) by simp
  with assms show ?thesis by (simp add: rest_of_def slice_def Cons_nth_drop_Suc [symmetric])
qed

lemma rest_of_Nil: "cf_end f \<le> cf_pos f \<Longrightarrow> rest_of sm f = []"
  by (simp add: rest_of_def slice_def)

lemma rest_of_cycle_frame: "rest_of sm (cycle_frame sm v) = succ_list sm v"
  by (simp add: rest_of_def cycle_frame_def succs_at_def)

lemma dfs_cycle_step_ok:
  fixes inp :: DfsCycleInput and n :: nat
  defines "b \<equiv> length (all_succs (succs inp)) + 2" and "m \<equiv> max 1 (depth_limit inp)"
  assumes rg: "ranges_ok inp n" and ok: "dfs_ok inp n st" and fr: "dc_frames st \<noteq> []"
    and nf: "\<not> max_cycles inp \<le> length (snd (dc_acc st))"
  defines "st' \<equiv> dfs_cycle_step inp st"
  shows "dfs_ok inp n st' \<and>
    unwind inp (dc_path st') (map (rest_of (succs inp)) (dc_frames st')) (dc_acc st') =
      unwind inp (dc_path st) (map (rest_of (succs inp)) (dc_frames st)) (dc_acc st) \<and>
    frames_weight b m (dc_frames st') < frames_weight b m (dc_frames st)"
proof -
  obtain f dfs where f: "dc_frames st = f # dfs" using fr by (cases "dc_frames st") auto
  let ?p = "dc_path st" and ?sm = "succs inp"
  have fe: "cf_end f \<le> length (all_succs ?sm)" and ln: "length ?p = Suc (length dfs)"
    and p: "?p \<noteq> []" "dc_path_set st = set ?p" "distinct ?p" "length ?p \<le> m"
    and fs: "\<forall>f \<in> set dfs. cf_end f \<le> length (all_succs ?sm)"
    using ok f by (auto simp: dfs_ok_def m_def)
  have b0: "0 < b" by (simp add: b_def)
  then have b: "0 < b ^ k" for k by simp
  show ?thesis
  proof (cases "cf_end f \<le> cf_pos f")
    case True
    have w: "walk inp ?p (rest_of ?sm f) acc = acc" for acc using rest_of_Nil [OF True] by simp
    show ?thesis
    proof (cases "1 < length ?p")
      case long: True
      then have st': "st' = st\<lparr>dc_frames := dfs, dc_path := butlast ?p, dc_path_set := dc_path_set st - {last ?p}\<rparr>"
        using f True by (simp add: st'_def dfs_cycle_step_def)
      have "set ?p - {last ?p} = set (butlast ?p)"
        using p(1,3) by (metis append_butlast_last_id distinct_append Diff_insert_absorb list.simps(15)
          distinct.simps(2) rotate1.simps(2) set_rotate1 distinct1_rotate)
      then show ?thesis using long ln p fs w b [of "m - length dfs"] unfolding st'
        by (auto simp: dfs_ok_def f m_def distinct_butlast) (simp add: butlast_conv_take)
    next
      case False
      then have "dfs = []" using ln by simp
      moreover from this have "st' = st\<lparr>dc_frames := []\<rparr>"
        using f True False by (simp add: st'_def dfs_cycle_step_def)
      ultimately show ?thesis using p w b0 by (simp add: dfs_ok_def f m_def)
    qed
  next
    case False
    let ?w = "all_succs ?sm ! cf_pos f" and ?f = "f\<lparr>cf_pos := cf_pos f + 1\<rparr>"
    have rest: "rest_of ?sm f = ?w # rest_of ?sm ?f" using rest_of_Cons [of f ?sm] False fe by simp
    have wt: "frames_weight b m (?f # dfs) < frames_weight b m (f # dfs)"
      using False b [of "m - length dfs"] by simp
    have wt2: "frames_weight b m (?f # dfs) + b ^ (m - length dfs) = frames_weight b m (f # dfs)"
    proof -
      have "cf_end f - cf_pos f = Suc (cf_end f - Suc (cf_pos f))" using False by simp
      then show ?thesis by simp
    qed
    show ?thesis
    proof (cases "?w \<in> scc_set inp \<and> \<not> (?w = dc_start inp \<and> 2 \<le> length ?p \<and> length ?p = depth_limit inp) \<and>
        \<not> (?w \<in> set ?p \<or> depth_limit inp \<le> length ?p)")
      case True
      then have st': "st' = st\<lparr>dc_frames := cycle_frame ?sm ?w # ?f # dfs, dc_path := ?p @ [?w],
          dc_path_set := insert ?w (dc_path_set st)\<rparr>"
        using f False p(2) by (simp add: st'_def dfs_cycle_step_def Let_def)
      have wn: "?w < n" using True rg by (auto simp: ranges_ok_def)
      then have ce: "cf_end (cycle_frame ?sm ?w) \<le> length (all_succs ?sm)"
        using rg by (simp add: ranges_ok_def cycle_frame_def)
      have lt: "length ?p < m" using True by (simp add: m_def)
      have "cf_end (cycle_frame ?sm ?w) - cf_pos (cycle_frame ?sm ?w) + 1 < b" using ce by (simp add: b_def)
      then have "(cf_end (cycle_frame ?sm ?w) - cf_pos (cycle_frame ?sm ?w) + 1) * b ^ (m - Suc (length dfs)) <
          b * b ^ (m - Suc (length dfs))"
        by (rule mult_strict_right_mono) (rule b)
      also have "\<dots> = b ^ (m - length dfs)" using lt ln by (simp add: power_Suc [symmetric] Suc_diff_Suc)
      finally have "frames_weight b m (cycle_frame ?sm ?w # ?f # dfs) < frames_weight b m (f # dfs)"
        using wt2 by simp
      moreover have "unwind inp (?p @ [?w]) (map (rest_of ?sm) (cycle_frame ?sm ?w # ?f # dfs)) (dc_acc st) =
          unwind inp ?p (map (rest_of ?sm) (f # dfs)) (dc_acc st)"
        using True nf by (simp add: rest rest_of_cycle_frame)
      moreover have "dfs_ok inp n st'"
        using True p ln lt fs fe ce unfolding st' by (auto simp: dfs_ok_def m_def)
      ultimately show ?thesis by (simp add: st' f)
    next
      case stay: False
      define acc' where "acc' = (if ?w \<in> scc_set inp \<and> ?w = dc_start inp \<and> 2 \<le> length ?p \<and> length ?p = depth_limit inp
        then try_record_cycle ?p (sm_modules ?sm) (dc_acc st) else dc_acc st)"
      have st': "st' = st\<lparr>dc_frames := ?f # dfs, dc_acc := acc'\<rparr>"
        using f False stay p(2) by (auto simp: st'_def dfs_cycle_step_def Let_def acc'_def)
      have "walk inp ?p (?w # rest_of ?sm ?f) (dc_acc st) = walk inp ?p (rest_of ?sm ?f) acc'"
        using stay nf by (auto simp: acc'_def)
      then show ?thesis using p ln fs fe wt unfolding st' by (auto simp: dfs_ok_def f rest m_def)
    qed
  qed
qed

lemma dfs_find_cycles_from_walk:
  assumes rg: "ranges_ok inp n"
  shows "dfs_find_cycles_from inp acc =
    Some (walk inp [dc_start inp] (succ_list (succs inp) (dc_start inp)) acc)"
proof -
  let ?b = "length (all_succs (succs inp)) + 2" and ?m = "max 1 (depth_limit inp)"
  let ?init = "\<lparr>dc_path = [dc_start inp], dc_path_set = {dc_start inp},
    dc_frames = [cycle_frame (succs inp) (dc_start inp)], dc_acc = acc\<rparr>"
  let ?c = "\<lambda>st. dc_frames st \<noteq> [] \<and> \<not> length (snd (dc_acc st)) \<ge> max_cycles inp"
  let ?U = "\<lambda>st. unwind inp (dc_path st) (map (rest_of (succs inp)) (dc_frames st)) (dc_acc st)"
  let ?P = "\<lambda>st. dfs_ok inp n st \<and> ?U st = ?U ?init"
  have init: "?P ?init" using rg by (auto simp: dfs_ok_def ranges_ok_def cycle_frame_def)
  have step: "?P (dfs_cycle_step inp st) \<and>
      frames_weight ?b ?m (dc_frames (dfs_cycle_step inp st)) < frames_weight ?b ?m (dc_frames st)"
    if "?P st" "?c st" for st
    using dfs_cycle_step_ok [OF rg, of st] that by simp
  from measure_while_option_Some [where P = ?P and b = ?c and s = ?init
      and f = "\<lambda>st. frames_weight ?b ?m (dc_frames st)", OF step init]
  obtain st where st: "while_option ?c (dfs_cycle_step inp) ?init = Some st" by blast
  have "?P st" by (rule while_option_rule [OF _ st]) (use step init in auto)
  moreover have "?U st = dc_acc st"
    using while_option_stop [OF st] unwind_full by (cases "dc_frames st = []") auto
  ultimately have "dc_acc st = walk inp [dc_start inp] (succ_list (succs inp) (dc_start inp)) acc"
    by (simp add: rest_of_cycle_frame)
  with st show ?thesis by (simp add: dfs_find_cycles_from_def)
qed

section \<open>Elementary cycles\<close>

definition elementary_cycle :: "ModuleGraph \<Rightarrow> nat list \<Rightarrow> bool" where
  "elementary_cycle g c \<longleftrightarrow> 2 \<le> length c \<and> distinct c \<and>
     (\<forall>i < length c. imports_at_runtime g (c ! i) (c ! (Suc i mod length c)))"

lemma elementary_cycle_rotate:
  assumes "elementary_cycle g c"
  shows "elementary_cycle g (rotate k c)"
proof -
  have n: "0 < length c" using assms by (auto simp: elementary_cycle_def)
  have "imports_at_runtime g (rotate k c ! i) (rotate k c ! (Suc i mod length c))" if "i < length c" for i
  proof -
    have "(k + Suc i mod length c) mod length c = Suc ((k + i) mod length c) mod length c"
      by (simp add: mod_simps)
    then have "rotate k c ! (Suc i mod length c) = c ! (Suc ((k + i) mod length c) mod length c)"
      using n by (simp add: nth_rotate)
    moreover have "rotate k c ! i = c ! ((k + i) mod length c)" using that by (simp add: nth_rotate)
    ultimately show ?thesis using assms n by (simp add: elementary_cycle_def)
  qed
  with assms show ?thesis by (simp add: elementary_cycle_def)
qed

lemma canonical_cycle_rotate: "\<exists>k. canonical_cycle c ms = rotate k c"
proof (cases "c = []")
  case False
  let ?i = "case first_index (\<lambda>a. list_all (\<lambda>b. path_of ms a \<le> path_of ms b) c) c of None \<Rightarrow> 0 | Some i \<Rightarrow> i"
  have "?i < length c" using False by (auto split: option.splits simp: first_index_Some)
  then have "canonical_cycle c ms = rotate ?i c"
    using False by (simp add: canonical_cycle_def rotate_drop_take Let_def)
  then show ?thesis ..
qed (simp add: canonical_cycle_def)

lemma canonical_cycle_keeps [simp]:
  "length (canonical_cycle c ms) = length c" "set (canonical_cycle c ms) = set c"
  "elementary_cycle g c \<Longrightarrow> elementary_cycle g (canonical_cycle c ms)"
  using canonical_cycle_rotate [of c ms] by (auto simp: elementary_cycle_rotate)

text \<open>The first module of a canonical cycle has the least path.\<close>

lemma canonical_cycle_least:
  assumes "c \<noteq> []"
  shows "\<forall>b \<in> set c. path_of ms (canonical_cycle c ms ! 0) \<le> path_of ms b"
proof -
  let ?p = "\<lambda>a. list_all (\<lambda>b. path_of ms a \<le> path_of ms b) c"
  obtain m where "m \<in> set c" "\<forall>b \<in> set c. path_of ms m \<le> path_of ms b"
    using ex_min_if_finite [of "path_of ms ` set c"] assms by force
  then have "first_index ?p c \<noteq> None" by (auto simp: first_index_None list_all_iff)
  then obtain i where i: "first_index ?p c = Some i" by blast
  then have "i < length c" "?p (c ! i)" using first_index_Some [of ?p c i] by simp_all
  moreover from this have "canonical_cycle c ms ! 0 = c ! i"
    using assms i by (simp add: canonical_cycle_def nth_append)
  ultimately show ?thesis by (simp add: list_all_iff)
qed

section \<open>The walk finds cycles, and all of them\<close>

definition search_for :: "ModuleGraph \<Rightarrow> DfsCycleInput \<Rightarrow> bool" where
  "search_for g inp \<longleftrightarrow>
     build_runtime_successors g (length (modules g)) = (all_succs (succs inp), succ_ranges (succs inp)) \<and>
     sm_modules (succs inp) = modules g \<and> scc_set inp \<subseteq> {..<length (modules g)} \<and>
     dc_start inp \<in> scc_set inp \<and> 2 \<le> depth_limit inp"

lemma search_for_succs:
  "search_for g inp \<Longrightarrow> v \<in> scc_set inp \<Longrightarrow> succ_list (succs inp) v = runtime_succs g v"
  using build_runtime_successors_ok by (fastforce simp: search_for_def)

lemma search_for_ranges: "search_for g inp \<Longrightarrow> ranges_ok inp (length (modules g))"
  using build_runtime_successors_ok by (fastforce simp: search_for_def ranges_ok_def)

definition cycle_in :: "ModuleGraph \<Rightarrow> nat set \<Rightarrow> nat list \<Rightarrow> bool" where
  "cycle_in g scc c \<longleftrightarrow> elementary_cycle g c \<and> set c \<subseteq> scc \<and> length c \<le> 12 \<and>
     (\<forall>b \<in> set c. path_of (modules g) (c ! 0) \<le> path_of (modules g) b)"

definition acc_ok :: "ModuleGraph \<Rightarrow> nat set \<Rightarrow> nat \<Rightarrow> cycle_acc \<Rightarrow> bool" where
  "acc_ok g scc mx acc \<longleftrightarrow> fst acc = set (snd acc) \<and> distinct (snd acc) \<and> length (snd acc) \<le> mx \<and>
     list_all (cycle_in g scc) (snd acc)"

definition chain :: "ModuleGraph \<Rightarrow> DfsCycleInput \<Rightarrow> nat list \<Rightarrow> bool" where
  "chain g inp p \<longleftrightarrow> p \<noteq> [] \<and> p ! 0 = dc_start inp \<and> distinct p \<and> set p \<subseteq> scc_set inp \<and>
     (\<forall>i. Suc i < length p \<longrightarrow> imports_at_runtime g (p ! i) (p ! Suc i))"

lemma chain_snoc:
  assumes "chain g inp p" "w \<in> set (runtime_succs g (last p))" "w \<in> scc_set inp" "w \<notin> set p"
  shows "chain g inp (p @ [w])"
proof -
  have "imports_at_runtime g ((p @ [w]) ! i) ((p @ [w]) ! Suc i)" if "Suc i < length (p @ [w])" for i
  proof (cases "Suc i < length p")
    case True
    with assms(1) show ?thesis by (simp add: chain_def nth_append)
  next
    case False
    then have "Suc i = length p" using that by simp
    then have i: "i = length p - 1" by simp
    have "p \<noteq> []" using assms(1) by (simp add: chain_def)
    then have "(p @ [w]) ! i = last p" "(p @ [w]) ! Suc i = w"
      by (simp_all add: i nth_append last_conv_nth)
    with assms(2) show ?thesis by (simp add: runtime_succs_iff)
  qed
  with assms show ?thesis by (simp add: chain_def nth_append)
qed

lemma chain_cycle:
  assumes "chain g inp p" "dc_start inp \<in> set (runtime_succs g (last p))" "2 \<le> length p"
  shows "elementary_cycle g p"
proof -
  have "imports_at_runtime g (p ! i) (p ! (Suc i mod length p))" if "i < length p" for i
  proof (cases "Suc i < length p")
    case True
    with assms(1) show ?thesis by (simp add: chain_def)
  next
    case False
    then have i: "Suc i = length p" using that by simp
    then have "i = length p - 1" by simp
    then have "p ! i = last p" using assms(1) by (simp add: chain_def last_conv_nth)
    with assms i show ?thesis by (simp add: chain_def runtime_succs_iff)
  qed
  with assms show ?thesis by (simp add: elementary_cycle_def chain_def)
qed

lemma try_record_ok:
  assumes "acc_ok g scc mx acc" "elementary_cycle g p" "set p \<subseteq> scc" "length p \<le> 12"
    and "length (snd acc) < mx"
  shows "acc_ok g scc mx (try_record_cycle p (modules g) acc)"
proof -
  have "p \<noteq> []" using assms(2) by (auto simp: elementary_cycle_def)
  then have "cycle_in g scc (canonical_cycle p (modules g))"
    using assms(2-4) canonical_cycle_least [of p "modules g"] by (simp add: cycle_in_def)
  with assms(1,5) show ?thesis by (auto simp: acc_ok_def try_record_cycle_def Let_def)
qed

lemma try_record_keeps:
  "fst acc = set (snd acc) \<Longrightarrow> fst (try_record_cycle p ms acc) = set (snd (try_record_cycle p ms acc)) \<and>
     canonical_cycle p ms \<in> set (snd (try_record_cycle p ms acc)) \<and>
     set (snd acc) \<subseteq> set (snd (try_record_cycle p ms acc)) \<and>
     length (snd acc) \<le> length (snd (try_record_cycle p ms acc))"
  by (auto simp: try_record_cycle_def Let_def)

lemma walk_keeps:
  assumes "fst acc = set (snd acc)"
  shows "fst (walk inp p ws acc) = set (snd (walk inp p ws acc)) \<and>
    set (snd acc) \<subseteq> set (snd (walk inp p ws acc)) \<and> length (snd acc) \<le> length (snd (walk inp p ws acc))"
  using assms
proof (induction inp p ws acc rule: walk.induct)
  case (2 inp p w ws acc)
  show ?case
  proof (cases "max_cycles inp \<le> length (snd acc)")
    case nf: False
    show ?thesis
    proof (cases "w \<notin> scc_set inp")
      case True
      then show ?thesis using 2 nf by simp
    next
      case w: False
      show ?thesis
      proof (cases "w = dc_start inp \<and> 2 \<le> length p \<and> length p = depth_limit inp")
        case True
        then show ?thesis
          using "2.IH"(2) [OF nf w True] try_record_keeps [OF "2.prems", of p "sm_modules (succs inp)"] nf w
          by (auto simp del: walk.simps simp: walk.simps(2))
      next
        case nr: False
        show ?thesis
        proof (cases "w \<in> set p \<or> depth_limit inp \<le> length p")
          case True
          then show ?thesis using "2.IH"(3) [OF nf w nr True] "2.prems" nf w nr by auto
        next
          case False
          have "walk inp p (w # ws) acc = walk inp p ws (walk inp (p @ [w]) (succ_list (succs inp) w) acc)"
            using nf w nr False by simp
          then show ?thesis
            using "2.IH"(4) [OF nf w nr False "2.prems"] "2.IH"(5) [OF nf w nr False] by auto
        qed
      qed
    qed
  qed (use 2 in simp)
qed simp

lemma walk_sound:
  assumes "search_for g inp" "depth_limit inp \<le> 12" "chain g inp p"
    and "set ws \<subseteq> set (runtime_succs g (last p))" "acc_ok g (scc_set inp) (max_cycles inp) acc"
  shows "acc_ok g (scc_set inp) (max_cycles inp) (walk inp p ws acc)"
  using assms
proof (induction inp p ws acc rule: walk.induct)
  case (2 inp p w ws acc)
  note prems = "2.prems"
  have ws: "set ws \<subseteq> set (runtime_succs g (last p))" "w \<in> set (runtime_succs g (last p))"
    using prems(4) by auto
  show ?case
  proof (cases "max_cycles inp \<le> length (snd acc)")
    case True
    then show ?thesis using prems by simp
  next
    case nf: False
    show ?thesis
    proof (cases "w \<notin> scc_set inp")
      case True
      then show ?thesis using "2.IH"(1) [OF nf True] prems ws nf by simp
    next
      case w: False
      show ?thesis
      proof (cases "w = dc_start inp \<and> 2 \<le> length p \<and> length p = depth_limit inp")
        case True
        have "elementary_cycle g p" using chain_cycle [OF prems(3)] ws(2) True by simp
        then have "acc_ok g (scc_set inp) (max_cycles inp) (try_record_cycle p (sm_modules (succs inp)) acc)"
          using try_record_ok [OF prems(5), of p] prems(1-3) True nf by (simp add: search_for_def chain_def)
        then show ?thesis using "2.IH"(2) [OF nf w True] prems ws nf w True by simp
      next
        case nr: False
        show ?thesis
        proof (cases "w \<in> set p \<or> depth_limit inp \<le> length p")
          case True
          then show ?thesis using "2.IH"(3) [OF nf w nr True] prems ws nf w nr by auto
        next
          case False
          have e: "walk inp p (w # ws) acc = walk inp p ws (walk inp (p @ [w]) (succ_list (succs inp) w) acc)"
            using nf w nr False by simp
          have "succ_list (succs inp) w = runtime_succs g w" using search_for_succs prems(1) w by simp
          moreover have "chain g inp (p @ [w])" using chain_snoc [OF prems(3) ws(2)] w False by simp
          ultimately have "acc_ok g (scc_set inp) (max_cycles inp) (walk inp (p @ [w]) (succ_list (succs inp) w) acc)"
            using "2.IH"(4) [OF nf w nr False] prems by simp
          then show ?thesis unfolding e using "2.IH"(5) [OF nf w nr False] prems ws by simp
        qed
      qed
    qed
  qed
qed simp

text \<open>The next module of a cycle after a prefix of it.\<close>

definition next_on :: "nat list \<Rightarrow> nat list \<Rightarrow> nat" where
  "next_on c p = (if length p < length c then c ! length p else c ! 0)"

definition found_or_full :: "DfsCycleInput \<Rightarrow> nat list \<Rightarrow> cycle_acc \<Rightarrow> bool" where
  "found_or_full inp c acc \<longleftrightarrow>
     max_cycles inp \<le> length (snd acc) \<or> canonical_cycle c (sm_modules (succs inp)) \<in> set (snd acc)"

lemma found_or_full_walk:
  "found_or_full inp c acc \<Longrightarrow> fst acc = set (snd acc) \<Longrightarrow> found_or_full inp c (walk inp p ws acc)"
  using walk_keeps [of acc inp p ws] by (auto simp: found_or_full_def)

lemma next_on_successor:
  assumes "elementary_cycle g c" "p = take (length p) c" "p \<noteq> []"
  shows "next_on c p \<in> set (runtime_succs g (last p))"
proof -
  have l: "length p \<le> length c" using assms(2) by (metis length_take min.cobounded1 min.commute)
  have i: "length p - 1 < length c" using l assms(3) by (cases p) auto
  have last: "last p = c ! (length p - 1)"
    using assms(2,3) i by (metis last_conv_nth diff_less length_greater_0_conv nth_take zero_less_one)
  have "imports_at_runtime g (c ! (length p - 1)) (c ! (Suc (length p - 1) mod length c))"
    using assms(1) i by (simp add: elementary_cycle_def)
  moreover have "Suc (length p - 1) = length p" using assms(3) by (cases p) auto
  moreover have "c ! (length p mod length c) = next_on c p"
    using l by (cases "length p < length c") (auto simp: next_on_def)
  ultimately show ?thesis by (simp only: runtime_succs_iff last)
qed

lemma walk_complete:
  assumes "search_for g inp" "elementary_cycle g c" "length c = depth_limit inp"
    and "set c \<subseteq> scc_set inp" "c ! 0 = dc_start inp"
    and "p = take (length p) c" "p \<noteq> []" "next_on c p \<in> set ws" "fst acc = set (snd acc)"
  shows "found_or_full inp c (walk inp p ws acc)"
  using assms
proof (induction inp p ws acc rule: walk.induct)
  case (2 inp p w ws acc)
  note prems = "2.prems"
  have l: "length p \<le> length c" using prems(6) by (metis length_take min.cobounded1 min.commute)
  have c0: "c \<noteq> []" using prems(2) by (auto simp: elementary_cycle_def)
  have next_in: "next_on c p \<in> scc_set inp"
    using prems(4) c0 by (auto simp: next_on_def)
  show ?case
  proof (cases "max_cycles inp \<le> length (snd acc)")
    case True
    then show ?thesis by (simp add: found_or_full_def)
  next
    case nf: False
    show ?thesis
    proof (cases "w \<notin> scc_set inp")
      case True
      then have "next_on c p \<in> set ws" using prems(8) next_in by auto
      then show ?thesis using "2.IH"(1) [OF nf True prems(1-7)] prems(9) True nf by simp
    next
      case w: False
      show ?thesis
      proof (cases "w = dc_start inp \<and> 2 \<le> length p \<and> length p = depth_limit inp")
        case True
        then have "p = c" using prems(3,6) by simp
        then have "found_or_full inp c (try_record_cycle p (sm_modules (succs inp)) acc)"
          using try_record_keeps [OF prems(9)] by (simp add: found_or_full_def)
        then have "found_or_full inp c (walk inp p ws (try_record_cycle p (sm_modules (succs inp)) acc))"
          using found_or_full_walk try_record_keeps [OF prems(9)] by blast
        with nf w True show ?thesis by simp
      next
        case nr: False
        show ?thesis
        proof (cases "w \<in> set p \<or> depth_limit inp \<le> length p")
          case True
          have "w \<noteq> next_on c p"
          proof
            assume wn: "w = next_on c p"
            show False
            proof (cases "length p < length c")
              case lt: True
              then have "w \<in> set p" using True prems(3) by simp
              moreover have "c ! length p \<notin> set (take (length p) c)"
                using lt prems(2) by (auto simp: elementary_cycle_def in_set_conv_nth nth_eq_iff_index_eq)
              ultimately show False using wn lt prems(6) by (simp add: next_on_def)
            next
              case False
              then show False using wn nr prems(1,3,5) l by (simp add: next_on_def search_for_def)
            qed
          qed
          then have "next_on c p \<in> set ws" using prems(8) by auto
          then show ?thesis using "2.IH"(3) [OF nf w nr True prems(1-7)] prems(9) nf w nr True by auto
        next
          case False
          let ?inner = "walk inp (p @ [w]) (succ_list (succs inp) w) acc"
          have e: "walk inp p (w # ws) acc = walk inp p ws ?inner" using nf w nr False by simp
          have inner: "fst ?inner = set (snd ?inner)" using walk_keeps [OF prems(9)] by blast
          show ?thesis
          proof (cases "w = next_on c p")
            case True
            have lt: "length p < length c" using False prems(3) by simp
            then have p': "p @ [w] = take (length (p @ [w])) c"
              using prems(6) True by (simp add: next_on_def take_Suc_conv_app_nth)
            have "next_on c (p @ [w]) \<in> set (succ_list (succs inp) w)"
              using next_on_successor [OF prems(2) p'] search_for_succs [OF prems(1)] w by simp
            then have "found_or_full inp c ?inner"
              using "2.IH"(4) [OF nf w nr False prems(1-5) p'] prems(9) by simp
            then show ?thesis unfolding e by (rule found_or_full_walk [OF _ inner])
          next
            case other: False
            then have "next_on c p \<in> set ws" using prems(8) by auto
            then show ?thesis unfolding e using "2.IH"(5) [OF nf w nr False prems(1-7)] inner by simp
          qed
        qed
      qed
    qed
  qed
qed simp

lemma dfs_find_cycles_from_ok:
  assumes s: "search_for g inp" and d: "depth_limit inp \<le> 12"
    and acc: "acc_ok g (scc_set inp) (max_cycles inp) acc"
  shows "\<exists>acc'. dfs_find_cycles_from inp acc = Some acc' \<and> acc_ok g (scc_set inp) (max_cycles inp) acc' \<and>
    set (snd acc) \<subseteq> set (snd acc') \<and> length (snd acc) \<le> length (snd acc') \<and>
    (\<forall>c. elementary_cycle g c \<longrightarrow> length c = depth_limit inp \<longrightarrow> set c \<subseteq> scc_set inp \<longrightarrow>
      c ! 0 = dc_start inp \<longrightarrow> found_or_full inp c acc')"
proof -
  let ?st = "dc_start inp"
  let ?ws = "succ_list (succs inp) ?st"
  have st: "?st \<in> scc_set inp" and ws: "?ws = runtime_succs g ?st"
    using s search_for_succs [OF s] by (simp_all add: search_for_def)
  have eq: "fst acc = set (snd acc)" using acc by (simp add: acc_ok_def)
  have "chain g inp [?st]" using st by (simp add: chain_def)
  then have "acc_ok g (scc_set inp) (max_cycles inp) (walk inp [?st] ?ws acc)"
    using walk_sound [OF s d _ _ acc] ws by simp
  moreover have "found_or_full inp c (walk inp [?st] ?ws acc)"
    if c: "elementary_cycle g c" "length c = depth_limit inp" "set c \<subseteq> scc_set inp" "c ! 0 = ?st" for c
  proof -
    have "c \<noteq> []" using c(1) by (auto simp: elementary_cycle_def)
    then have p: "[?st] = take (length [?st]) c" using c(4) by (cases c) auto
    have "next_on c [?st] \<in> set (runtime_succs g (last [?st]))"
      by (rule next_on_successor [OF c(1) p]) simp
    then have "next_on c [?st] \<in> set ?ws" unfolding ws by simp
    then show ?thesis using walk_complete [OF s c(1,2,3,4) p _ _ eq] by simp
  qed
  ultimately show ?thesis
    using dfs_find_cycles_from_walk [OF search_for_ranges [OF s]] walk_keeps [OF eq] by auto
qed

section \<open>Searching every start at every depth\<close>

text \<open>
  What a part of the enumeration does with the cycles recorded so far: it ends, keeps them and
  adds every cycle satisfying \<open>Q\<close>, unless the limit is reached.
\<close>

definition adds_cycles ::
  "ModuleGraph \<Rightarrow> nat set \<Rightarrow> nat \<Rightarrow> (nat list \<Rightarrow> bool) \<Rightarrow> (cycle_acc \<Rightarrow> cycle_acc option) \<Rightarrow> bool" where
  "adds_cycles g scc mx Q f \<longleftrightarrow> (\<forall>acc. acc_ok g scc mx acc \<longrightarrow>
     (\<exists>acc'. f acc = Some acc' \<and> acc_ok g scc mx acc' \<and> set (snd acc) \<subseteq> set (snd acc') \<and>
       (\<forall>c. Q c \<longrightarrow> mx \<le> length (snd acc') \<or> canonical_cycle c (modules g) \<in> set (snd acc'))))"

lemma acc_ok_length_mono:
  assumes "acc_ok g scc mx acc" "acc_ok g scc mx acc'" "set (snd acc) \<subseteq> set (snd acc')"
  shows "length (snd acc) \<le> length (snd acc')"
proof -
  have "card (set (snd acc)) \<le> card (set (snd acc'))" using assms(3) by (simp add: card_mono)
  with assms(1,2) show ?thesis by (simp add: acc_ok_def distinct_card)
qed

lemma adds_cycles_fold:
  assumes "\<And>x. x \<in> set xs \<Longrightarrow> adds_cycles g scc mx (Q x) (f x)"
  shows "adds_cycles g scc mx (\<lambda>c. \<exists>x \<in> set xs. Q x c)
    (\<lambda>acc. fold (\<lambda>x oacc. Option.bind oacc (f x)) xs (Some acc))"
  using assms
proof (induction xs)
  case (Cons x xs)
  show ?case unfolding adds_cycles_def
  proof (intro allI impI)
    fix acc assume acc: "acc_ok g scc mx acc"
    obtain acc1 where 1: "f x acc = Some acc1" "acc_ok g scc mx acc1" "set (snd acc) \<subseteq> set (snd acc1)"
        "\<forall>c. Q x c \<longrightarrow> mx \<le> length (snd acc1) \<or> canonical_cycle c (modules g) \<in> set (snd acc1)"
      using Cons.prems [of x] acc unfolding adds_cycles_def by (metis list.set_intros(1))
    obtain acc2 where 2: "fold (\<lambda>x oacc. Option.bind oacc (f x)) xs (Some acc1) = Some acc2"
        "acc_ok g scc mx acc2" "set (snd acc1) \<subseteq> set (snd acc2)"
        "\<forall>c. (\<exists>x \<in> set xs. Q x c) \<longrightarrow> mx \<le> length (snd acc2) \<or> canonical_cycle c (modules g) \<in> set (snd acc2)"
      using Cons.IH Cons.prems 1(2) unfolding adds_cycles_def by (metis list.set_intros(2))
    have "mx \<le> length (snd acc2) \<or> canonical_cycle c (modules g) \<in> set (snd acc2)"
      if "\<exists>x' \<in> set (x # xs). Q x' c" for c
      using that 1(4) 2(3,4) acc_ok_length_mono [OF 1(2) 2(2,3)] by fastforce
    with 1 2 show "\<exists>acc'. fold (\<lambda>x oacc. Option.bind oacc (f x)) (x # xs) (Some acc) = Some acc' \<and>
        acc_ok g scc mx acc' \<and> set (snd acc) \<subseteq> set (snd acc') \<and>
        (\<forall>c. (\<exists>x' \<in> set (x # xs). Q x' c) \<longrightarrow>
          mx \<le> length (snd acc') \<or> canonical_cycle c (modules g) \<in> set (snd acc'))"
      by (auto intro!: exI [of _ acc2])
  qed
qed (simp add: adds_cycles_def)

lemma adds_cycles_unless_full:
  assumes "adds_cycles g scc mx Q f"
  shows "adds_cycles g scc mx Q (\<lambda>acc. if mx \<le> length (snd acc) then Some acc else f acc)"
  using assms unfolding adds_cycles_def by simp

lemma dfs_find_cycles_from_adds:
  assumes "search_for g inp" "depth_limit inp \<le> 12"
  shows "adds_cycles g (scc_set inp) (max_cycles inp)
    (\<lambda>c. elementary_cycle g c \<and> length c = depth_limit inp \<and> set c \<subseteq> scc_set inp \<and> c ! 0 = dc_start inp)
    (dfs_find_cycles_from inp)"
proof -
  have "sm_modules (succs inp) = modules g" using assms(1) by (simp add: search_for_def)
  then show ?thesis
    using dfs_find_cycles_from_ok [OF assms] unfolding adds_cycles_def found_or_full_def by metis
qed

definition successor_map :: "ModuleGraph \<Rightarrow> SuccessorMap \<Rightarrow> bool" where
  "successor_map g sm \<longleftrightarrow> sm_modules sm = modules g \<and>
     build_runtime_successors g (length (modules g)) = (all_succs sm, succ_ranges sm)"

lemma enumerate_elementary_cycles_ok:
  assumes sm: "successor_map g sm" and scc: "set scc \<subseteq> {..<length (modules g)}" "distinct scc"
  shows "\<exists>cs. enumerate_elementary_cycles scc sm mx = Some cs \<and> distinct cs \<and> length cs \<le> mx \<and>
    list_all (cycle_in g (set scc)) cs \<and>
    (\<forall>c. elementary_cycle g c \<longrightarrow> length c \<le> 12 \<longrightarrow> set c \<subseteq> set scc \<longrightarrow>
      mx \<le> length cs \<or> canonical_cycle c (modules g) \<in> set cs)"
proof -
  let ?nodes = "sort_key (path_of (sm_modules sm)) scc"
  let ?inp = "\<lambda>d start. \<lparr>dc_start = start, depth_limit = d, scc_set = set scc, succs = sm, max_cycles = mx\<rparr>"
  let ?Q = "\<lambda>d c. elementary_cycle g c \<and> length c = d \<and> set c \<subseteq> set scc"
  let ?depths = "[2..<min (length scc) 12 + 1]"
  have start: "adds_cycles g (set scc) mx (\<lambda>c. ?Q d c \<and> c ! 0 = v) (dfs_find_cycles_from (?inp d v))"
    if "d \<in> set ?depths" "v \<in> set scc" for d v
    using dfs_find_cycles_from_adds [of g "?inp d v"] that sm scc
    by (auto simp add: search_for_def successor_map_def conj_assoc)
  have depth: "adds_cycles g (set scc) mx (?Q d) (enumerate_at_depth scc ?nodes sm mx d)"
    if "d \<in> set ?depths" for d
  proof -
    have "adds_cycles g (set scc) mx (\<lambda>c. \<exists>v \<in> set ?nodes. ?Q d c \<and> c ! 0 = v)
        (enumerate_at_depth scc ?nodes sm mx d)"
      unfolding enumerate_at_depth_def
      by (intro adds_cycles_fold adds_cycles_unless_full start [OF that]) simp
    moreover have "\<exists>v \<in> set ?nodes. c ! 0 = v" if "?Q d c" for c
    proof -
      have "c ! 0 \<in> set c" using that by (intro nth_mem) (auto simp: elementary_cycle_def)
      with that show ?thesis by auto
    qed
    ultimately show ?thesis unfolding adds_cycles_def by blast
  qed
  have all: "adds_cycles g (set scc) mx (\<lambda>c. \<exists>d \<in> set ?depths. ?Q d c)
      (\<lambda>acc. fold (\<lambda>d oacc. Option.bind oacc (\<lambda>acc. if length (snd acc) \<ge> mx then Some acc
        else enumerate_at_depth scc ?nodes sm mx d acc)) ?depths (Some acc))"
    by (intro adds_cycles_fold adds_cycles_unless_full depth)
  have "acc_ok g (set scc) mx ({}, [])" by (simp add: acc_ok_def)
  with all obtain acc where acc: "fold (\<lambda>d oacc. Option.bind oacc (\<lambda>acc. if length (snd acc) \<ge> mx then Some acc
        else enumerate_at_depth scc ?nodes sm mx d acc)) ?depths (Some ({}, [])) = Some acc"
      "acc_ok g (set scc) mx acc" "\<forall>c. (\<exists>d \<in> set ?depths. ?Q d c) \<longrightarrow>
        mx \<le> length (snd acc) \<or> canonical_cycle c (modules g) \<in> set (snd acc)"
    unfolding adds_cycles_def by blast
  have "\<exists>d \<in> set ?depths. ?Q d c" if "elementary_cycle g c" "length c \<le> 12" "set c \<subseteq> set scc" for c
  proof -
    have "length c \<le> length scc" using that(1,3) scc(2)
      by (metis card_mono distinct_card elementary_cycle_def finite_set)
    then have "length c \<in> set ?depths" using that(1,2) by (auto simp: elementary_cycle_def)
    with that show ?thesis by blast
  qed
  with acc show ?thesis by (auto simp: enumerate_elementary_cycles_def Let_def acc_ok_def)
qed

section \<open>The cycles of one component\<close>

lemma runtime_rel_leave:
  assumes "(v, w) \<in> (runtime_rel g)\<^sup>*" "w \<noteq> v"
  shows "\<exists>b. b \<noteq> v \<and> (v, b) \<in> runtime_rel g \<and> (b, w) \<in> (runtime_rel g)\<^sup>*"
proof -
  have "x = v \<longrightarrow> (\<exists>b. b \<noteq> v \<and> (v, b) \<in> runtime_rel g \<and> (b, w) \<in> (runtime_rel g)\<^sup>*)"
    if "(x, w) \<in> (runtime_rel g)\<^sup>*" for x
    using that by (induction rule: converse_rtrancl_induct) (use assms(2) in auto)
  with assms(1) show ?thesis by blast
qed

lemma two_module_component:
  assumes "{a, b} = import_component g a" "a \<noteq> b"
  shows "imports_at_runtime g a b"
proof -
  have ab: "(a, b) \<in> (runtime_rel g)\<^sup>*" "(b, a) \<in> (runtime_rel g)\<^sup>*"
    using assms(1) by (auto simp: import_component_def)
  obtain x where x: "x \<noteq> a" "(a, x) \<in> runtime_rel g" "(x, b) \<in> (runtime_rel g)\<^sup>*"
    using runtime_rel_leave [OF ab(1)] assms(2) by blast
  then have "x \<in> import_component g a"
    using ab(2) by (auto simp: import_component_def intro: rtrancl_trans)
  then have "x = b" using assms(1) x(1) by blast
  with x(2) show ?thesis by (simp add: runtime_rel_def)
qed

lemma two_module_cycle:
  assumes "{a, b} = import_component g a" "a \<noteq> b"
  shows "elementary_cycle g [a, b]"
proof -
  have "b \<in> import_component g a" using assms(1) by blast
  then have "import_component g b = import_component g a"
    by (auto simp: import_component_def intro: rtrancl_trans)
  then have "imports_at_runtime g a b" "imports_at_runtime g b a"
    using two_module_component [of a b g] two_module_component [of b a g] assms by auto
  then show ?thesis using assms(2) by (auto simp: elementary_cycle_def less_Suc_eq)
qed

definition reports_cycles :: "ModuleGraph \<Rightarrow> nat set \<Rightarrow> nat list list \<Rightarrow> bool" where
  "reports_cycles g scc cs \<longleftrightarrow> distinct cs \<and> list_all (cycle_in g scc) cs \<and>
     (distinct (map node_path (modules g)) \<longrightarrow>
       (\<forall>c. elementary_cycle g c \<longrightarrow> length c \<le> 12 \<longrightarrow> set c \<subseteq> scc \<longrightarrow>
         MAX_CYCLES_PER_SCC \<le> length cs \<or> canonical_cycle c (modules g) \<in> set cs))"

lemma path_of_inject:
  assumes "distinct (map node_path (modules g))" "a < length (modules g)" "b < length (modules g)"
    and "path_of (modules g) a = path_of (modules g) b"
  shows "a = b"
  using assms nth_eq_iff_index_eq [OF assms(1), of a b] by (simp add: path_of_def)

lemma two_modules_reported:
  assumes "{a, b} = import_component g a" "a \<noteq> b" "a < length (modules g)" "b < length (modules g)"
    and "path_of (modules g) a \<le> path_of (modules g) b"
  shows "reports_cycles g {a, b} [[a, b]]"
proof -
  have "canonical_cycle c (modules g) = [a, b]"
    if "distinct (map node_path (modules g))" and c: "elementary_cycle g c" "set c \<subseteq> {a, b}" for c
  proof -
    let ?c = "canonical_cycle c (modules g)"
    have d: "distinct ?c" "2 \<le> length ?c"
      using canonical_cycle_keeps(3) [OF c(1)] by (simp_all only: elementary_cycle_def)
    have "length ?c \<le> 2"
      using distinct_card [OF d(1)] card_mono [of "{a, b}" "set c"] c(2) assms(2) by simp
    then have "length ?c = Suc (Suc 0)" using d(2) by linarith
    then obtain x y where xy: "?c = [x, y]" unfolding length_Suc_conv by blast
    have "set ?c \<subseteq> {a, b}" using c(2) by simp
    then have "x \<in> {a, b}" "y \<in> {a, b}" "x \<noteq> y" using xy d(1) by auto
    moreover have "\<not> (x = b \<and> y = a)"
    proof
      assume swap: "x = b \<and> y = a"
      have "a \<in> set ?c" using swap xy by simp
      then have "a \<in> set c" by simp
      then have "path_of (modules g) (?c ! 0) \<le> path_of (modules g) a"
        using canonical_cycle_least [of c "modules g"] by (cases c) auto
      then have "path_of (modules g) a = path_of (modules g) b" using swap xy assms(5) by simp
      then show False using path_of_inject [OF that(1) assms(3,4)] assms(2) by simp
    qed
    ultimately show ?thesis using xy by auto
  qed
  moreover have "cycle_in g {a, b} [a, b]"
    using two_module_cycle [OF assms(1,2)] assms(5) by (simp add: cycle_in_def)
  ultimately show ?thesis by (simp add: reports_cycles_def)
qed

lemma add_scc_cycles_ok:
  assumes sm: "successor_map g sm" and scc: "set scc \<subseteq> {..<length (modules g)}" "distinct scc"
    and comp: "set scc = import_component g (hd scc)"
  shows "\<exists>cs. (\<forall>acc. add_scc_cycles sm scc acc = Some (fold push_cycle cs acc)) \<and> reports_cycles g (set scc) cs"
proof (cases "length scc = 2")
  case True
  then obtain a b where ab: "scc = [a, b]" by (cases scc; cases "tl scc") auto
  have ms: "sm_modules sm = modules g" using sm by (simp add: successor_map_def)
  have set_ab: "{a, b} = import_component g a" "{b, a} = import_component g a" "a \<noteq> b"
      "a < length (modules g)" "b < length (modules g)"
    using comp scc by (auto simp: ab)
  show ?thesis
  proof (cases "path_of (modules g) b < path_of (modules g) a")
    case swap: True
    have "b \<in> import_component g a" using set_ab(1) by blast
    then have "import_component g b = import_component g a"
      by (auto simp: import_component_def intro: rtrancl_trans)
    then have "reports_cycles g {b, a} [[b, a]]"
      using two_modules_reported [of b a g] set_ab swap by simp
    then show ?thesis
      using swap by (intro exI [of _ "[[b, a]]"]) (simp add: add_scc_cycles_def ab ms insert_commute)
  next
    case False
    then have "reports_cycles g {a, b} [[a, b]]" using two_modules_reported [of a b g] set_ab by simp
    then show ?thesis
      using False by (intro exI [of _ "[[a, b]]"]) (simp add: add_scc_cycles_def ab ms)
  qed
next
  case False
  obtain cs where "enumerate_elementary_cycles scc sm MAX_CYCLES_PER_SCC = Some cs" "distinct cs"
      "list_all (cycle_in g (set scc)) cs"
      "\<forall>c. elementary_cycle g c \<longrightarrow> length c \<le> 12 \<longrightarrow> set c \<subseteq> set scc \<longrightarrow>
        MAX_CYCLES_PER_SCC \<le> length cs \<or> canonical_cycle c (modules g) \<in> set cs"
    using enumerate_elementary_cycles_ok [OF sm scc] by blast
  with False show ?thesis by (intro exI [of _ cs]) (simp add: add_scc_cycles_def reports_cycles_def)
qed

section \<open>The cycles of the graph\<close>

lemma fold_push_cycle:
  "fst acc = set (snd acc) \<Longrightarrow> distinct (snd acc) \<Longrightarrow>
   fst (fold push_cycle cs acc) = set (snd (fold push_cycle cs acc)) \<and> distinct (snd (fold push_cycle cs acc)) \<and>
   set (snd (fold push_cycle cs acc)) = set (snd acc) \<union> set cs"
  by (induction cs arbitrary: acc) (auto simp: push_cycle_def)

lemma fold_add_scc_cycles:
  assumes "\<And>scc. scc \<in> set comps \<Longrightarrow>
      (\<forall>acc. add_scc_cycles sm scc acc = Some (fold push_cycle (rep scc) acc))"
    and "fst acc = set (snd acc)" "distinct (snd acc)"
  shows "\<exists>acc'. fold (\<lambda>scc oacc. Option.bind oacc (add_scc_cycles sm scc)) comps (Some acc) = Some acc' \<and>
    distinct (snd acc') \<and> set (snd acc') = set (snd acc) \<union> (\<Union>scc \<in> set comps. set (rep scc))"
  using assms
proof (induction comps arbitrary: acc)
  case (Cons scc comps)
  have "add_scc_cycles sm scc acc = Some (fold push_cycle (rep scc) acc)"
    using Cons.prems(1) [of scc] by (simp del: split_paired_All)
  moreover note fold_push_cycle [OF Cons.prems(2,3), of "rep scc"]
  moreover from this have "\<exists>acc'. fold (\<lambda>scc oacc. Option.bind oacc (add_scc_cycles sm scc)) comps
        (Some (fold push_cycle (rep scc) acc)) = Some acc' \<and> distinct (snd acc') \<and>
      set (snd acc') = set (snd (fold push_cycle (rep scc) acc)) \<union> (\<Union>scc \<in> set comps. set (rep scc))"
    using Cons.IH [of "fold push_cycle (rep scc) acc"] Cons.prems(1) by simp
  ultimately show ?case by (auto simp: Un_assoc)
qed simp

text \<open>Everything \<open>find_cycles\<close> promises: its result is sorted and is the union of what its components report.\<close>

lemma find_cycles_facts:
  assumes "length (modules g) \<le> U32_MAX"
  shows "\<exists>cs rep. find_cycles g = Some cs \<and> distinct cs \<and> sorted (map (cycle_order (modules g)) cs) \<and>
    (\<forall>c \<in> set cs. \<exists>v. c \<in> set (rep (import_component g v)) \<and> reports_cycles g (import_component g v) (rep (import_component g v))) \<and>
    (\<forall>v < length (modules g). 2 \<le> card (import_component g v) \<longrightarrow>
      set (rep (import_component g v)) \<subseteq> set cs \<and> reports_cycles g (import_component g v) (rep (import_component g v)))"
proof (cases "length (modules g) = 0")
  case True
  then show ?thesis by (auto simp: find_cycles_def)
next
  case False
  let ?n = "length (modules g)"
  obtain all ranges where b: "build_runtime_successors g ?n = (all, ranges)" by fastforce
  let ?sm = "\<lparr>all_succs = all, succ_ranges = ranges, sm_modules = modules g\<rparr>"
  have sm: "successor_map g ?sm" using b by (simp add: successor_map_def)
  obtain comps where comps: "import_sccs g = Some comps" "distinct (concat comps)" "set (concat comps) \<subseteq> {..<?n}"
      "list_all (\<lambda>c. big c \<and> set c = import_component g (hd c)) comps"
      "\<forall>v < ?n. 2 \<le> card (import_component g v) \<longrightarrow> (\<exists>c \<in> set comps. v \<in> set c)"
    using import_sccs_facts [OF assms] by (elim exE conjE)
  have "\<exists>cs. (\<forall>acc. add_scc_cycles ?sm scc acc = Some (fold push_cycle cs acc)) \<and> reports_cycles g (set scc) cs"
    if "scc \<in> set comps" for scc
    using that comps(2-4) by (intro add_scc_cycles_ok [OF sm]) (auto simp: list_all_iff distinct_concat_iff)
  then obtain rep0 where rep0: "\<And>scc. scc \<in> set comps \<Longrightarrow>
      (\<forall>acc. add_scc_cycles ?sm scc acc = Some (fold push_cycle (rep0 scc) acc)) \<and>
      reports_cycles g (set scc) (rep0 scc)" by metis
  obtain acc where acc: "fold (\<lambda>scc oacc. Option.bind oacc (add_scc_cycles ?sm scc)) comps (Some ({}, [])) = Some acc"
      "distinct (snd acc)" "set (snd acc) = (\<Union>scc \<in> set comps. set (rep0 scc))"
    using fold_add_scc_cycles [of comps ?sm rep0 "({}, [])"] rep0 by auto
  have inj: "x = y" if xy: "x \<in> set comps" "y \<in> set comps" "set x = set y" for x y
  proof (rule ccontr)
    assume "x \<noteq> y"
    then have "set x \<inter> set y = {}" using comps(2) xy(1,2) by (simp add: distinct_concat_iff)
    moreover have "x \<noteq> []" using comps(4) xy(1) by (auto simp: list_all_iff)
    ultimately show False using xy(3) by simp
  qed
  define rep where "rep C = rep0 (the_inv_into (set comps) set C)" for C
  have rep: "rep (set scc) = rep0 scc" if "scc \<in> set comps" for scc
    using that inj by (simp add: rep_def the_inv_into_f_f inj_on_def)
  let ?cs = "sort_key (cycle_order (modules g)) (snd acc)"
  have "find_cycles g = Some ?cs"
    using False b comps(1) acc(1) by (simp add: find_cycles_def enumerate_cycles_from_sccs_def Let_def)
  moreover have "\<exists>v. c \<in> set (rep (import_component g v)) \<and>
      reports_cycles g (import_component g v) (rep (import_component g v))" if c: "c \<in> set ?cs" for c
  proof -
    obtain scc where scc: "scc \<in> set comps" "c \<in> set (rep0 scc)" using c acc(3) by auto
    then have "set scc = import_component g (hd scc)" using comps(4) by (simp add: list_all_iff)
    with scc rep [OF scc(1)] rep0 [OF scc(1)] show ?thesis by (intro exI [of _ "hd scc"]) simp
  qed
  moreover have "set (rep (import_component g v)) \<subseteq> set ?cs \<and>
      reports_cycles g (import_component g v) (rep (import_component g v))"
    if v: "v < ?n" "2 \<le> card (import_component g v)" for v
  proof -
    obtain scc where scc: "scc \<in> set comps" "v \<in> set scc" using comps(5) v by blast
    then have "set scc = import_component g (hd scc)" using comps(4) by (simp add: list_all_iff)
    then have "set scc = import_component g v"
      using scc(2) component_eq [of v ?n "runtime_succs g" "hd scc"] by (simp add: import_component_eq)
    with scc rep [OF scc(1)] rep0 [OF scc(1)] acc(3) show ?thesis by auto
  qed
  ultimately show ?thesis using acc(2) by (intro exI [of _ ?cs] exI [of _ rep]) simp
qed

lemma reports_cycles_cycle:
  assumes "reports_cycles g scc cs" "c \<in> set cs"
  shows "cycle_in g scc c"
  using assms by (simp add: reports_cycles_def list_all_iff)

lemma elementary_cycle_step:
  assumes "elementary_cycle g c"
  shows "imports_at_runtime g (c ! (i mod length c)) (c ! (Suc i mod length c))"
proof -
  have "0 < length c" using assms by (auto simp: elementary_cycle_def)
  then have "i mod length c < length c" by simp
  then have "imports_at_runtime g (c ! (i mod length c)) (c ! (Suc (i mod length c) mod length c))"
    using assms unfolding elementary_cycle_def by blast
  then show ?thesis by (simp add: mod_Suc_eq)
qed

lemma cycle_in_component:
  assumes c: "elementary_cycle g c"
  shows "set c \<subseteq> import_component g (c ! 0)" "c ! 0 < length (modules g)"
    "2 \<le> card (import_component g (c ! 0))"
proof -
  let ?n = "length c"
  have n: "2 \<le> ?n" and d: "distinct c" using c by (auto simp: elementary_cycle_def)
  have step: "(c ! (i mod ?n), c ! (Suc i mod ?n)) \<in> runtime_rel g" for i
    using elementary_cycle_step [OF c] by (simp add: runtime_rel_def)
  have reach: "(c ! (i mod ?n), c ! ((i + k) mod ?n)) \<in> (runtime_rel g)\<^sup>*" for i k
  proof (induction k)
    case (Suc k)
    then show ?case using step [of "i + k"] by (simp add: rtrancl.rtrancl_into_rtrancl)
  qed simp
  show 1: "set c \<subseteq> import_component g (c ! 0)"
  proof
    fix x assume "x \<in> set c"
    then obtain i where i: "i < ?n" "x = c ! i" by (auto simp: in_set_conv_nth)
    have "(c ! 0, x) \<in> (runtime_rel g)\<^sup>*" using reach [of 0 i] i by simp
    moreover have "(x, c ! 0) \<in> (runtime_rel g)\<^sup>*" using reach [of i "?n - i"] i by simp
    ultimately show "x \<in> import_component g (c ! 0)" by (simp add: import_component_def)
  qed
  show "c ! 0 < length (modules g)"
    using step [of 0] n by (auto simp: runtime_rel_def imports_at_runtime_def)
  have "import_component g (c ! 0) \<subseteq> insert (c ! 0) {..<length (modules g)}"
  proof
    fix w assume "w \<in> import_component g (c ! 0)"
    then have "(c ! 0, w) \<in> (runtime_rel g)\<^sup>*" by (simp add: import_component_def)
    then show "w \<in> insert (c ! 0) {..<length (modules g)}"
      by induction (auto simp: runtime_rel_def imports_at_runtime_def)
  qed
  then have "finite (import_component g (c ! 0))" by (rule finite_subset) simp
  with 1 have "card (set c) \<le> card (import_component g (c ! 0))" by (simp add: card_mono)
  with n d show "2 \<le> card (import_component g (c ! 0))" by (simp add: distinct_card)
qed

lemma ring_cycle_nth:
  assumes c: "elementary_cycle (ring_graph n) c"
  shows "c ! (i mod length c) = (c ! 0 + i) mod n"
proof (induction i)
  case 0
  have "c ! 0 < n" using cycle_in_component(2) [OF c] by simp
  then show ?case by simp
next
  case (Suc i)
  have "c ! (Suc i mod length c) = Suc (c ! (i mod length c)) mod n"
    using elementary_cycle_step [OF c, of i] by (simp add: ring_imports)
  with Suc show ?case by (simp add: mod_Suc_eq)
qed

lemma ring_cycle_length:
  assumes "elementary_cycle (ring_graph n) c"
  shows "n \<le> length c"
proof -
  let ?m = "length c"
  have m: "0 < ?m" using assms by (auto simp: elementary_cycle_def)
  have lt: "c ! 0 < n" using cycle_in_component(2) [OF assms] by simp
  have "(c ! 0 + ?m) mod n = c ! 0" using ring_cycle_nth [OF assms, of ?m] by simp
  then have "(c ! 0 + ?m) mod n = c ! 0 mod n" using lt by simp
  then have "n dvd ?m" using mod_eq_dvd_iff_nat [of "c ! 0" "c ! 0 + ?m" n] by simp
  then show ?thesis using m by (simp add: dvd_imp_le)
qed

section \<open>The properties of \<open>find_cycles\<close>\<close>

text \<open>
  C19. For at most \<open>U32_MAX\<close> modules, the search for cycles never panics, ends, and every entry of
  its result is a real circular dependency: at least two and at most twelve different modules,
  each importing the next one at run time and the last one the first, rotated so that it starts
  at the module with the least path. No cycle is listed twice, and the list is sorted by the
  number of modules and then by the path of the first module.
\<close>

theorem find_cycles_finds_cycles:
  assumes "length (modules g) \<le> U32_MAX"
  shows "\<exists>cs. find_cycles g = Some cs \<and> distinct cs \<and> sorted (map (cycle_order (modules g)) cs) \<and>
    (\<forall>c \<in> set cs. elementary_cycle g c \<and> length c \<le> 12 \<and>
      (\<forall>b \<in> set c. path_of (modules g) (c ! 0) \<le> path_of (modules g) b))"
proof -
  obtain cs rep where cs: "find_cycles g = Some cs" "distinct cs" "sorted (map (cycle_order (modules g)) cs)"
      "\<forall>c \<in> set cs. \<exists>v. c \<in> set (rep (import_component g v)) \<and>
        reports_cycles g (import_component g v) (rep (import_component g v))"
    using find_cycles_facts [OF assms] by (elim exE conjE)
  have "\<exists>v. cycle_in g (import_component g v) c" if "c \<in> set cs" for c
    using that cs(4) reports_cycles_cycle by blast
  with cs(1-3) show ?thesis by (auto simp: cycle_in_def)
qed

text \<open>
  C20. When module paths are unique, no circular dependency of at most twelve modules is missed:
  the result lists its rotation to the module with the least path, unless it already lists
  twenty cycles of the same component.
\<close>

theorem short_cycles_are_reported:
  assumes "length (modules g) \<le> U32_MAX" "distinct (map node_path (modules g))"
    and c: "elementary_cycle g c" "length c \<le> 12" and "find_cycles g = Some cs"
  shows "canonical_cycle c (modules g) \<in> set cs \<or>
    MAX_CYCLES_PER_SCC \<le> card {d \<in> set cs. set d \<subseteq> import_component g (c ! 0)}"
proof -
  let ?C = "import_component g (c ! 0)"
  obtain rep where rep: "set (rep ?C) \<subseteq> set cs" "reports_cycles g ?C (rep ?C)"
    using find_cycles_facts [OF assms(1)] cycle_in_component [OF c(1)] assms(5) by fastforce
  then have "MAX_CYCLES_PER_SCC \<le> length (rep ?C) \<or> canonical_cycle c (modules g) \<in> set (rep ?C)"
    using assms(2) c cycle_in_component(1) [OF c(1)] by (simp add: reports_cycles_def)
  moreover have "length (rep ?C) \<le> card {d \<in> set cs. set d \<subseteq> ?C}"
  proof -
    have "set (rep ?C) \<subseteq> {d \<in> set cs. set d \<subseteq> ?C}"
      using rep reports_cycles_cycle [OF rep(2)] by (auto simp: cycle_in_def)
    then have "card (set (rep ?C)) \<le> card {d \<in> set cs. set d \<subseteq> ?C}" by (simp add: card_mono)
    with rep(2) show ?thesis by (simp add: reports_cycles_def distinct_card)
  qed
  ultimately show ?thesis using rep(1) by auto
qed

text \<open>
  C26. A circular dependency of more than twelve modules with no shorter cycle inside it is not
  reported at all: for a ring in which each module imports the next one the result is empty,
  although all the modules form one component.
\<close>

theorem long_rings_are_not_reported:
  assumes "12 < n" "n \<le> U32_MAX"
  shows "find_cycles (ring_graph n) = Some [] \<and> import_component (ring_graph n) 0 = {..<n}"
proof -
  obtain cs rep where cs: "find_cycles (ring_graph n) = Some cs"
      "\<forall>c \<in> set cs. \<exists>v. c \<in> set (rep (import_component (ring_graph n) v)) \<and>
        reports_cycles (ring_graph n) (import_component (ring_graph n) v) (rep (import_component (ring_graph n) v))"
    using find_cycles_facts [of "ring_graph n"] assms(2) by auto
  have "c \<notin> set cs" for c
  proof
    assume "c \<in> set cs"
    then obtain v where "cycle_in (ring_graph n) (import_component (ring_graph n) v) c"
      using cs(2) reports_cycles_cycle by blast
    then show False using ring_cycle_length [of n c] assms(1) by (simp add: cycle_in_def)
  qed
  then have "cs = []" by (cases cs) auto
  with cs(1) show ?thesis using ring_component [of 0 n] assms(1) by simp
qed

theorem find_cycles_finds_cycles_witness:
  "\<exists>cs. find_cycles (ring_graph 3) = Some cs \<and> distinct cs"
  using find_cycles_finds_cycles [of "ring_graph 3"] by (auto simp: U32_MAX_def)

theorem long_rings_are_not_reported_witness: "find_cycles (ring_graph 13) = Some []"
  using long_rings_are_not_reported [of 13] by (simp add: U32_MAX_def)

lemma ring_paths: "distinct (map node_path (modules (ring_graph n)))"
  by (simp add: ring_graph_def ring_module_def distinct_map inj_on_def comp_def)

lemma ring_three_cycle: "elementary_cycle (ring_graph 3) [0, 1, 2]"
proof -
  have "[0, 1, 2::nat] ! i = i" if "i < 3" for i
    using that by (cases i; cases "i - 1"; cases "i - 2") auto
  then show ?thesis by (simp add: elementary_cycle_def ring_imports)
qed

theorem short_cycles_are_reported_witness:
  "\<exists>cs. find_cycles (ring_graph 3) = Some cs \<and>
    (canonical_cycle [0, 1, 2] (modules (ring_graph 3)) \<in> set cs \<or>
     MAX_CYCLES_PER_SCC \<le> card {d \<in> set cs. set d \<subseteq> import_component (ring_graph 3) 0})"
proof -
  have u: "length (modules (ring_graph 3)) \<le> U32_MAX" by (simp add: U32_MAX_def)
  obtain cs where cs: "find_cycles (ring_graph 3) = Some cs"
    using find_cycles_facts [OF u] by (elim exE conjE)
  from short_cycles_are_reported [OF u ring_paths ring_three_cycle _ this] cs show ?thesis by auto
qed

end
