(* ===== verification/Issue_Kinds.thy ===== *)
theory Issue_Kinds
  imports Fallow_Prelude
begin

text \<open>
  The issue kinds of \<^verbatim>\<open>crates/types/src/suppress.rs\<close> and the metadata table of
  \<^verbatim>\<open>crates/types/src/issue_meta.rs\<close>: the enum, its cache discriminants in both
  directions, its canonical tokens, the rows that tie codes, aliases, config keys, CLI flags
  and MCP selectors together, and the lookups over them. The lemmas are the round trips
  between the three representations and the agreement of the tables.
\<close>

section \<open>The enum\<close>

datatype IssueKind =
    UnusedFile | UnusedExport | UnusedType | PrivateTypeLeak | UnusedDependency |
    UnusedDevDependency | UnusedEnumMember | UnusedClassMember | UnresolvedImport |
    UnlistedDependency | DuplicateExport | CodeDuplication | CircularDependency |
    ReExportCycle | TypeOnlyDependency | TestOnlyDependency | BoundaryViolation |
    CoverageGaps | FeatureFlag | Complexity | StaleSuppression | PnpmCatalogEntry |
    EmptyCatalogGroup | UnresolvedCatalogReference | UnusedDependencyOverride |
    MisconfiguredDependencyOverride | SecurityClientServerLeak | SecuritySink |
    PolicyViolation | InvalidClientExport | MixedClientServerBarrel | MisplacedDirective |
    UnusedStoreMember | UnprovidedInject | RouteCollision | DynamicSegmentNameConflict |
    UnrenderedComponent | UnusedComponentProp | UnusedComponentEmit |
    UnusedComponentInput | UnusedComponentOutput | UnusedServerAction | UnusedLoadDataKey |
    PropDrilling | ThinWrapper | DuplicatePropShape | UnusedSvelteEvent

primrec to_discriminant :: "IssueKind \<Rightarrow> u8" where
  "to_discriminant UnusedFile = 1"
| "to_discriminant UnusedExport = 2"
| "to_discriminant UnusedType = 3"
| "to_discriminant PrivateTypeLeak = 4"
| "to_discriminant UnusedDependency = 5"
| "to_discriminant UnusedDevDependency = 6"
| "to_discriminant UnusedEnumMember = 7"
| "to_discriminant UnusedClassMember = 8"
| "to_discriminant UnresolvedImport = 9"
| "to_discriminant UnlistedDependency = 10"
| "to_discriminant DuplicateExport = 11"
| "to_discriminant CodeDuplication = 12"
| "to_discriminant CircularDependency = 13"
| "to_discriminant TypeOnlyDependency = 14"
| "to_discriminant TestOnlyDependency = 15"
| "to_discriminant BoundaryViolation = 16"
| "to_discriminant CoverageGaps = 17"
| "to_discriminant FeatureFlag = 18"
| "to_discriminant Complexity = 19"
| "to_discriminant StaleSuppression = 20"
| "to_discriminant PnpmCatalogEntry = 21"
| "to_discriminant UnresolvedCatalogReference = 22"
| "to_discriminant UnusedDependencyOverride = 23"
| "to_discriminant MisconfiguredDependencyOverride = 24"
| "to_discriminant EmptyCatalogGroup = 25"
| "to_discriminant ReExportCycle = 26"
| "to_discriminant SecurityClientServerLeak = 27"
| "to_discriminant SecuritySink = 28"
| "to_discriminant PolicyViolation = 29"
| "to_discriminant InvalidClientExport = 30"
| "to_discriminant MixedClientServerBarrel = 31"
| "to_discriminant MisplacedDirective = 32"
| "to_discriminant UnusedStoreMember = 33"
| "to_discriminant UnprovidedInject = 34"
| "to_discriminant RouteCollision = 35"
| "to_discriminant DynamicSegmentNameConflict = 36"
| "to_discriminant UnrenderedComponent = 37"
| "to_discriminant UnusedComponentProp = 38"
| "to_discriminant UnusedComponentEmit = 39"
| "to_discriminant UnusedServerAction = 40"
| "to_discriminant UnusedLoadDataKey = 41"
| "to_discriminant PropDrilling = 42"
| "to_discriminant ThinWrapper = 43"
| "to_discriminant DuplicatePropShape = 44"
| "to_discriminant UnusedComponentInput = 45"
| "to_discriminant UnusedComponentOutput = 46"
| "to_discriminant UnusedSvelteEvent = 47"

definition from_discriminant :: "u8 \<Rightarrow> IssueKind option" where
  "from_discriminant d =
    (if d = 1 then Some UnusedFile
     else if d = 2 then Some UnusedExport
     else if d = 3 then Some UnusedType
     else if d = 4 then Some PrivateTypeLeak
     else if d = 5 then Some UnusedDependency
     else if d = 6 then Some UnusedDevDependency
     else if d = 7 then Some UnusedEnumMember
     else if d = 8 then Some UnusedClassMember
     else if d = 9 then Some UnresolvedImport
     else if d = 10 then Some UnlistedDependency
     else if d = 11 then Some DuplicateExport
     else if d = 12 then Some CodeDuplication
     else if d = 13 then Some CircularDependency
     else if d = 14 then Some TypeOnlyDependency
     else if d = 15 then Some TestOnlyDependency
     else if d = 16 then Some BoundaryViolation
     else if d = 17 then Some CoverageGaps
     else if d = 18 then Some FeatureFlag
     else if d = 19 then Some Complexity
     else if d = 20 then Some StaleSuppression
     else if d = 21 then Some PnpmCatalogEntry
     else if d = 22 then Some UnresolvedCatalogReference
     else if d = 23 then Some UnusedDependencyOverride
     else if d = 24 then Some MisconfiguredDependencyOverride
     else if d = 25 then Some EmptyCatalogGroup
     else if d = 26 then Some ReExportCycle
     else if d = 27 then Some SecurityClientServerLeak
     else if d = 28 then Some SecuritySink
     else if d = 29 then Some PolicyViolation
     else if d = 30 then Some InvalidClientExport
     else if d = 31 then Some MixedClientServerBarrel
     else if d = 32 then Some MisplacedDirective
     else if d = 33 then Some UnusedStoreMember
     else if d = 34 then Some UnprovidedInject
     else if d = 35 then Some RouteCollision
     else if d = 36 then Some DynamicSegmentNameConflict
     else if d = 37 then Some UnrenderedComponent
     else if d = 38 then Some UnusedComponentProp
     else if d = 39 then Some UnusedComponentEmit
     else if d = 40 then Some UnusedServerAction
     else if d = 41 then Some UnusedLoadDataKey
     else if d = 42 then Some PropDrilling
     else if d = 43 then Some ThinWrapper
     else if d = 44 then Some DuplicatePropShape
     else if d = 45 then Some UnusedComponentInput
     else if d = 46 then Some UnusedComponentOutput
     else if d = 47 then Some UnusedSvelteEvent
     else None)"

primrec issue_kind_to_kebab :: "IssueKind \<Rightarrow> string" where
  "issue_kind_to_kebab UnusedFile = ''unused-file''"
| "issue_kind_to_kebab UnusedExport = ''unused-export''"
| "issue_kind_to_kebab UnusedType = ''unused-type''"
| "issue_kind_to_kebab PrivateTypeLeak = ''private-type-leak''"
| "issue_kind_to_kebab UnusedDependency = ''unused-dependency''"
| "issue_kind_to_kebab UnusedDevDependency = ''unused-dev-dependency''"
| "issue_kind_to_kebab UnusedEnumMember = ''unused-enum-member''"
| "issue_kind_to_kebab UnusedClassMember = ''unused-class-member''"
| "issue_kind_to_kebab UnresolvedImport = ''unresolved-import''"
| "issue_kind_to_kebab UnlistedDependency = ''unlisted-dependency''"
| "issue_kind_to_kebab DuplicateExport = ''duplicate-export''"
| "issue_kind_to_kebab CodeDuplication = ''code-duplication''"
| "issue_kind_to_kebab CircularDependency = ''circular-dependency''"
| "issue_kind_to_kebab ReExportCycle = ''re-export-cycle''"
| "issue_kind_to_kebab TypeOnlyDependency = ''type-only-dependency''"
| "issue_kind_to_kebab TestOnlyDependency = ''test-only-dependency''"
| "issue_kind_to_kebab BoundaryViolation = ''boundary-violation''"
| "issue_kind_to_kebab CoverageGaps = ''coverage-gaps''"
| "issue_kind_to_kebab FeatureFlag = ''feature-flag''"
| "issue_kind_to_kebab Complexity = ''complexity''"
| "issue_kind_to_kebab StaleSuppression = ''stale-suppression''"
| "issue_kind_to_kebab PnpmCatalogEntry = ''unused-catalog-entry''"
| "issue_kind_to_kebab EmptyCatalogGroup = ''empty-catalog-group''"
| "issue_kind_to_kebab UnresolvedCatalogReference = ''unresolved-catalog-reference''"
| "issue_kind_to_kebab UnusedDependencyOverride = ''unused-dependency-override''"
| "issue_kind_to_kebab MisconfiguredDependencyOverride = ''misconfigured-dependency-override''"
| "issue_kind_to_kebab SecurityClientServerLeak = ''security-client-server-leak''"
| "issue_kind_to_kebab SecuritySink = ''security-sink''"
| "issue_kind_to_kebab PolicyViolation = ''policy-violation''"
| "issue_kind_to_kebab InvalidClientExport = ''invalid-client-export''"
| "issue_kind_to_kebab MixedClientServerBarrel = ''mixed-client-server-barrel''"
| "issue_kind_to_kebab MisplacedDirective = ''misplaced-directive''"
| "issue_kind_to_kebab UnusedStoreMember = ''unused-store-member''"
| "issue_kind_to_kebab UnprovidedInject = ''unprovided-inject''"
| "issue_kind_to_kebab RouteCollision = ''route-collision''"
| "issue_kind_to_kebab DynamicSegmentNameConflict = ''dynamic-segment-name-conflict''"
| "issue_kind_to_kebab UnrenderedComponent = ''unrendered-component''"
| "issue_kind_to_kebab UnusedComponentProp = ''unused-component-prop''"
| "issue_kind_to_kebab UnusedComponentEmit = ''unused-component-emit''"
| "issue_kind_to_kebab UnusedComponentInput = ''unused-component-input''"
| "issue_kind_to_kebab UnusedComponentOutput = ''unused-component-output''"
| "issue_kind_to_kebab UnusedServerAction = ''unused-server-action''"
| "issue_kind_to_kebab UnusedLoadDataKey = ''unused-load-data-key''"
| "issue_kind_to_kebab PropDrilling = ''prop-drilling''"
| "issue_kind_to_kebab ThinWrapper = ''thin-wrapper''"
| "issue_kind_to_kebab DuplicatePropShape = ''duplicate-prop-shape''"
| "issue_kind_to_kebab UnusedSvelteEvent = ''unused-svelte-event''"

section \<open>The metadata table\<close>

record IssueKindMeta =
  im_kind :: "IssueKind option"
  code :: string
  aliases :: "string list"
  label :: string
  config_key :: "string option"
  filter_flag :: "string option"
  mcp_issue_type :: "string option"
  suppress_token :: "string option"
  suppress_file_level :: bool
  lsp :: bool
  docs_category :: string

text \<open>The selector pair a row offers to MCP clients.\<close>

definition mcp_pair :: "IssueKindMeta \<Rightarrow> (string \<times> string) option" where
  "mcp_pair m = (case (mcp_issue_type m, filter_flag m) of
     (Some issue_type, Some flag) \<Rightarrow> Some (issue_type, flag) | _ \<Rightarrow> None)"

text \<open>The rows, in the order of the source, in five parts.\<close>

definition ISSUE_KIND_META_1 :: "IssueKindMeta list" where
  "ISSUE_KIND_META_1 = [
   \<lparr>im_kind = Some CodeDuplication, code = ''code-duplication'', aliases = [],
     label = ''Code Duplication'', config_key = None,
     filter_flag = None, mcp_issue_type = None,
     suppress_token = Some ''code-duplication'', suppress_file_level = False, lsp = True,
     docs_category = ''dupes''\<rparr>,
   \<lparr>im_kind = Some UnusedFile, code = ''unused-file'', aliases = [],
     label = ''Unused Files'', config_key = Some ''unused-files'',
     filter_flag = Some ''--unused-files'', mcp_issue_type = Some ''unused-files'',
     suppress_token = Some ''unused-file'', suppress_file_level = True, lsp = True,
     docs_category = ''source''\<rparr>,
   \<lparr>im_kind = Some UnusedExport, code = ''unused-export'', aliases = [],
     label = ''Unused Exports'', config_key = Some ''unused-exports'',
     filter_flag = Some ''--unused-exports'', mcp_issue_type = Some ''unused-exports'',
     suppress_token = Some ''unused-export'', suppress_file_level = False, lsp = True,
     docs_category = ''source''\<rparr>,
   \<lparr>im_kind = Some UnusedType, code = ''unused-type'', aliases = [],
     label = ''Unused Types'', config_key = Some ''unused-types'',
     filter_flag = Some ''--unused-types'', mcp_issue_type = Some ''unused-types'',
     suppress_token = Some ''unused-type'', suppress_file_level = False, lsp = True,
     docs_category = ''source''\<rparr>,
   \<lparr>im_kind = Some PrivateTypeLeak, code = ''private-type-leak'', aliases = [],
     label = ''Private Type Leaks'', config_key = Some ''private-type-leaks'',
     filter_flag = Some ''--private-type-leaks'', mcp_issue_type = Some ''private-type-leaks'',
     suppress_token = Some ''private-type-leak'', suppress_file_level = False, lsp = True,
     docs_category = ''source''\<rparr>,
   \<lparr>im_kind = Some UnusedDependency, code = ''unused-dependency'', aliases = [],
     label = ''Unused Dependencies'', config_key = Some ''unused-dependencies'',
     filter_flag = Some ''--unused-deps'', mcp_issue_type = Some ''unused-deps'',
     suppress_token = None, suppress_file_level = False, lsp = True,
     docs_category = ''dependency''\<rparr>,
   \<lparr>im_kind = Some UnusedDevDependency, code = ''unused-dev-dependency'', aliases = [],
     label = ''Unused Dev Dependencies'', config_key = Some ''unused-dev-dependencies'',
     filter_flag = Some ''--unused-deps'', mcp_issue_type = None,
     suppress_token = None, suppress_file_level = False, lsp = True,
     docs_category = ''dependency''\<rparr>,
   \<lparr>im_kind = None, code = ''unused-optional-dependency'', aliases = [],
     label = ''Unused Optional Dependencies'', config_key = Some ''unused-optional-dependencies'',
     filter_flag = Some ''--unused-deps'', mcp_issue_type = None,
     suppress_token = None, suppress_file_level = False, lsp = True,
     docs_category = ''dependency''\<rparr>,
   \<lparr>im_kind = Some UnusedEnumMember, code = ''unused-enum-member'', aliases = [],
     label = ''Unused Enum Members'', config_key = Some ''unused-enum-members'',
     filter_flag = Some ''--unused-enum-members'', mcp_issue_type = Some ''unused-enum-members'',
     suppress_token = Some ''unused-enum-member'', suppress_file_level = False, lsp = True,
     docs_category = ''source''\<rparr>,
   \<lparr>im_kind = Some UnusedClassMember, code = ''unused-class-member'', aliases = [],
     label = ''Unused Class Members'', config_key = Some ''unused-class-members'',
     filter_flag = Some ''--unused-class-members'', mcp_issue_type = Some ''unused-class-members'',
     suppress_token = Some ''unused-class-member'', suppress_file_level = False, lsp = True,
     docs_category = ''source''\<rparr>]"

definition ISSUE_KIND_META_2 :: "IssueKindMeta list" where
  "ISSUE_KIND_META_2 = [
   \<lparr>im_kind = Some UnusedStoreMember, code = ''unused-store-member'', aliases = [''unused-store-members''],
     label = ''Unused Store Members'', config_key = Some ''unused-store-members'',
     filter_flag = Some ''--unused-store-members'', mcp_issue_type = Some ''unused-store-members'',
     suppress_token = Some ''unused-store-member'', suppress_file_level = False, lsp = True,
     docs_category = ''framework''\<rparr>,
   \<lparr>im_kind = Some UnresolvedImport, code = ''unresolved-import'', aliases = [],
     label = ''Unresolved Imports'', config_key = Some ''unresolved-imports'',
     filter_flag = Some ''--unresolved-imports'', mcp_issue_type = Some ''unresolved-imports'',
     suppress_token = Some ''unresolved-import'', suppress_file_level = False, lsp = True,
     docs_category = ''dependency''\<rparr>,
   \<lparr>im_kind = Some UnlistedDependency, code = ''unlisted-dependency'', aliases = [],
     label = ''Unlisted Dependencies'', config_key = Some ''unlisted-dependencies'',
     filter_flag = Some ''--unlisted-deps'', mcp_issue_type = Some ''unlisted-deps'',
     suppress_token = None, suppress_file_level = False, lsp = True,
     docs_category = ''dependency''\<rparr>,
   \<lparr>im_kind = Some DuplicateExport, code = ''duplicate-export'', aliases = [],
     label = ''Duplicate Exports'', config_key = Some ''duplicate-exports'',
     filter_flag = Some ''--duplicate-exports'', mcp_issue_type = Some ''duplicate-exports'',
     suppress_token = Some ''duplicate-export'', suppress_file_level = True, lsp = True,
     docs_category = ''source''\<rparr>,
   \<lparr>im_kind = Some TypeOnlyDependency, code = ''type-only-dependency'', aliases = [],
     label = ''Type-Only Dependencies'', config_key = Some ''type-only-dependencies'',
     filter_flag = Some ''--unused-deps'', mcp_issue_type = None,
     suppress_token = None, suppress_file_level = False, lsp = True,
     docs_category = ''dependency''\<rparr>,
   \<lparr>im_kind = Some TestOnlyDependency, code = ''test-only-dependency'', aliases = [],
     label = ''Test-Only Dependencies'', config_key = Some ''test-only-dependencies'',
     filter_flag = Some ''--unused-deps'', mcp_issue_type = None,
     suppress_token = None, suppress_file_level = False, lsp = True,
     docs_category = ''dependency''\<rparr>,
   \<lparr>im_kind = Some CircularDependency, code = ''circular-dependency'', aliases = [''circular-dependencies''],
     label = ''Circular Dependencies'', config_key = Some ''circular-dependencies'',
     filter_flag = Some ''--circular-deps'', mcp_issue_type = Some ''circular-deps'',
     suppress_token = Some ''circular-dependency'', suppress_file_level = False, lsp = True,
     docs_category = ''architecture''\<rparr>,
   \<lparr>im_kind = Some ReExportCycle, code = ''re-export-cycle'', aliases = [''re-export-cycles'', ''reexport-cycle'', ''reexport-cycles''],
     label = ''Re-Export Cycles'', config_key = Some ''re-export-cycle'',
     filter_flag = Some ''--re-export-cycles'', mcp_issue_type = Some ''re-export-cycles'',
     suppress_token = Some ''re-export-cycle'', suppress_file_level = True, lsp = True,
     docs_category = ''architecture''\<rparr>,
   \<lparr>im_kind = Some BoundaryViolation, code = ''boundary-violation'', aliases = [''boundary-call-violation'', ''boundary-call-violations''],
     label = ''Boundary Violations'', config_key = Some ''boundary-violation'',
     filter_flag = Some ''--boundary-violations'', mcp_issue_type = Some ''boundary-violations'',
     suppress_token = Some ''boundary-violation'', suppress_file_level = False, lsp = True,
     docs_category = ''architecture''\<rparr>,
   \<lparr>im_kind = Some PolicyViolation, code = ''policy-violation'', aliases = [''policy-violations''],
     label = ''Policy Violations'', config_key = Some ''policy-violation'',
     filter_flag = Some ''--policy-violations'', mcp_issue_type = Some ''policy-violations'',
     suppress_token = Some ''policy-violation'', suppress_file_level = False, lsp = True,
     docs_category = ''architecture''\<rparr>]"

definition ISSUE_KIND_META_3 :: "IssueKindMeta list" where
  "ISSUE_KIND_META_3 = [
   \<lparr>im_kind = Some InvalidClientExport, code = ''invalid-client-export'', aliases = [''invalid-client-exports''],
     label = ''Invalid Client Exports'', config_key = Some ''invalid-client-export'',
     filter_flag = None, mcp_issue_type = None,
     suppress_token = Some ''invalid-client-export'', suppress_file_level = False, lsp = True,
     docs_category = ''framework''\<rparr>,
   \<lparr>im_kind = Some MixedClientServerBarrel, code = ''mixed-client-server-barrel'', aliases = [''mixed-client-server-barrels''],
     label = ''Mixed Client/Server Barrels'', config_key = Some ''mixed-client-server-barrel'',
     filter_flag = None, mcp_issue_type = None,
     suppress_token = Some ''mixed-client-server-barrel'', suppress_file_level = False, lsp = True,
     docs_category = ''framework''\<rparr>,
   \<lparr>im_kind = Some MisplacedDirective, code = ''misplaced-directive'', aliases = [''misplaced-directives''],
     label = ''Misplaced Directives'', config_key = Some ''misplaced-directive'',
     filter_flag = None, mcp_issue_type = None,
     suppress_token = Some ''misplaced-directive'', suppress_file_level = False, lsp = True,
     docs_category = ''framework''\<rparr>,
   \<lparr>im_kind = Some UnprovidedInject, code = ''unprovided-inject'', aliases = [''unprovided-injects''],
     label = ''Unprovided Injects'', config_key = Some ''unprovided-injects'',
     filter_flag = Some ''--unprovided-injects'', mcp_issue_type = Some ''unprovided-injects'',
     suppress_token = Some ''unprovided-inject'', suppress_file_level = False, lsp = True,
     docs_category = ''framework''\<rparr>,
   \<lparr>im_kind = Some UnrenderedComponent, code = ''unrendered-component'', aliases = [''unrendered-components''],
     label = ''Unrendered Components'', config_key = Some ''unrendered-components'',
     filter_flag = Some ''--unrendered-components'', mcp_issue_type = Some ''unrendered-components'',
     suppress_token = Some ''unrendered-component'', suppress_file_level = False, lsp = True,
     docs_category = ''framework''\<rparr>,
   \<lparr>im_kind = Some UnusedComponentProp, code = ''unused-component-prop'', aliases = [''unused-component-props''],
     label = ''Unused Component Props'', config_key = Some ''unused-component-props'',
     filter_flag = Some ''--unused-component-props'', mcp_issue_type = Some ''unused-component-props'',
     suppress_token = Some ''unused-component-prop'', suppress_file_level = False, lsp = True,
     docs_category = ''framework''\<rparr>,
   \<lparr>im_kind = Some UnusedComponentEmit, code = ''unused-component-emit'', aliases = [''unused-component-emits''],
     label = ''Unused Component Emits'', config_key = Some ''unused-component-emits'',
     filter_flag = Some ''--unused-component-emits'', mcp_issue_type = Some ''unused-component-emits'',
     suppress_token = Some ''unused-component-emit'', suppress_file_level = False, lsp = True,
     docs_category = ''framework''\<rparr>,
   \<lparr>im_kind = Some UnusedComponentInput, code = ''unused-component-input'', aliases = [''unused-component-inputs''],
     label = ''Unused Component Inputs'', config_key = Some ''unused-component-inputs'',
     filter_flag = Some ''--unused-component-inputs'', mcp_issue_type = Some ''unused-component-inputs'',
     suppress_token = Some ''unused-component-input'', suppress_file_level = False, lsp = True,
     docs_category = ''framework''\<rparr>,
   \<lparr>im_kind = Some UnusedComponentOutput, code = ''unused-component-output'', aliases = [''unused-component-outputs''],
     label = ''Unused Component Outputs'', config_key = Some ''unused-component-outputs'',
     filter_flag = Some ''--unused-component-outputs'', mcp_issue_type = Some ''unused-component-outputs'',
     suppress_token = Some ''unused-component-output'', suppress_file_level = False, lsp = True,
     docs_category = ''framework''\<rparr>,
   \<lparr>im_kind = Some UnusedSvelteEvent, code = ''unused-svelte-event'', aliases = [''unused-svelte-events''],
     label = ''Unused Svelte Events'', config_key = Some ''unused-svelte-events'',
     filter_flag = Some ''--unused-svelte-events'', mcp_issue_type = Some ''unused-svelte-events'',
     suppress_token = Some ''unused-svelte-event'', suppress_file_level = False, lsp = True,
     docs_category = ''framework''\<rparr>]"

definition ISSUE_KIND_META_4 :: "IssueKindMeta list" where
  "ISSUE_KIND_META_4 = [
   \<lparr>im_kind = Some UnusedServerAction, code = ''unused-server-action'', aliases = [''unused-server-actions''],
     label = ''Unused Server Actions'', config_key = Some ''unused-server-actions'',
     filter_flag = Some ''--unused-server-actions'', mcp_issue_type = Some ''unused-server-actions'',
     suppress_token = Some ''unused-server-action'', suppress_file_level = False, lsp = True,
     docs_category = ''framework''\<rparr>,
   \<lparr>im_kind = Some UnusedLoadDataKey, code = ''unused-load-data-key'', aliases = [''unused-load-data-keys''],
     label = ''Unused Load Data Keys'', config_key = Some ''unused-load-data-keys'',
     filter_flag = Some ''--unused-load-data-keys'', mcp_issue_type = Some ''unused-load-data-keys'',
     suppress_token = Some ''unused-load-data-key'', suppress_file_level = False, lsp = True,
     docs_category = ''framework''\<rparr>,
   \<lparr>im_kind = Some RouteCollision, code = ''route-collision'', aliases = [''route-collisions''],
     label = ''Route Collisions'', config_key = Some ''route-collision'',
     filter_flag = None, mcp_issue_type = None,
     suppress_token = Some ''route-collision'', suppress_file_level = True, lsp = True,
     docs_category = ''framework''\<rparr>,
   \<lparr>im_kind = Some DynamicSegmentNameConflict, code = ''dynamic-segment-name-conflict'', aliases = [''dynamic-segment-name-conflicts''],
     label = ''Dynamic Segment Conflicts'', config_key = Some ''dynamic-segment-name-conflict'',
     filter_flag = None, mcp_issue_type = None,
     suppress_token = Some ''dynamic-segment-name-conflict'', suppress_file_level = True, lsp = True,
     docs_category = ''framework''\<rparr>,
   \<lparr>im_kind = Some StaleSuppression, code = ''stale-suppression'', aliases = [],
     label = ''Stale Suppressions'', config_key = Some ''stale-suppressions'',
     filter_flag = Some ''--stale-suppressions'', mcp_issue_type = Some ''stale-suppressions'',
     suppress_token = None, suppress_file_level = False, lsp = True,
     docs_category = ''source''\<rparr>,
   \<lparr>im_kind = Some PnpmCatalogEntry, code = ''unused-catalog-entry'', aliases = [''unused-catalog-entries''],
     label = ''Unused Catalog Entries'', config_key = Some ''unused-catalog-entries'',
     filter_flag = Some ''--unused-catalog-entries'', mcp_issue_type = Some ''unused-catalog-entries'',
     suppress_token = None, suppress_file_level = False, lsp = True,
     docs_category = ''dependency''\<rparr>,
   \<lparr>im_kind = Some EmptyCatalogGroup, code = ''empty-catalog-group'', aliases = [''empty-catalog-groups''],
     label = ''Empty Catalog Groups'', config_key = Some ''empty-catalog-groups'',
     filter_flag = Some ''--empty-catalog-groups'', mcp_issue_type = Some ''empty-catalog-groups'',
     suppress_token = None, suppress_file_level = False, lsp = True,
     docs_category = ''dependency''\<rparr>,
   \<lparr>im_kind = Some UnresolvedCatalogReference, code = ''unresolved-catalog-reference'', aliases = [''unresolved-catalog-references''],
     label = ''Unresolved Catalog References'', config_key = Some ''unresolved-catalog-references'',
     filter_flag = Some ''--unresolved-catalog-references'', mcp_issue_type = Some ''unresolved-catalog-references'',
     suppress_token = None, suppress_file_level = False, lsp = True,
     docs_category = ''dependency''\<rparr>,
   \<lparr>im_kind = Some UnusedDependencyOverride, code = ''unused-dependency-override'', aliases = [''unused-dependency-overrides''],
     label = ''Unused Dependency Overrides'', config_key = Some ''unused-dependency-overrides'',
     filter_flag = Some ''--unused-dependency-overrides'', mcp_issue_type = Some ''unused-dependency-overrides'',
     suppress_token = None, suppress_file_level = False, lsp = True,
     docs_category = ''dependency''\<rparr>,
   \<lparr>im_kind = Some MisconfiguredDependencyOverride, code = ''misconfigured-dependency-override'', aliases = [''misconfigured-dependency-overrides''],
     label = ''Misconfigured Dependency Overrides'', config_key = Some ''misconfigured-dependency-overrides'',
     filter_flag = Some ''--misconfigured-dependency-overrides'', mcp_issue_type = Some ''misconfigured-dependency-overrides'',
     suppress_token = None, suppress_file_level = False, lsp = True,
     docs_category = ''dependency''\<rparr>]"

definition ISSUE_KIND_META_5 :: "IssueKindMeta list" where
  "ISSUE_KIND_META_5 = [
   \<lparr>im_kind = Some SecuritySink, code = ''security-sink'', aliases = [],
     label = ''Security Sink Candidates'', config_key = Some ''security-sink'',
     filter_flag = None, mcp_issue_type = None,
     suppress_token = Some ''security-sink'', suppress_file_level = False, lsp = True,
     docs_category = ''security''\<rparr>,
   \<lparr>im_kind = Some SecurityClientServerLeak, code = ''security-client-server-leak'', aliases = [],
     label = ''Security Client-Server Leaks'', config_key = Some ''security-client-server-leak'',
     filter_flag = None, mcp_issue_type = None,
     suppress_token = Some ''security-client-server-leak'', suppress_file_level = True, lsp = True,
     docs_category = ''security''\<rparr>,
   \<lparr>im_kind = Some CoverageGaps, code = ''coverage-gaps'', aliases = [],
     label = ''Coverage Gaps'', config_key = Some ''coverage-gaps'',
     filter_flag = None, mcp_issue_type = None,
     suppress_token = Some ''coverage-gaps'', suppress_file_level = True, lsp = False,
     docs_category = ''health''\<rparr>,
   \<lparr>im_kind = Some FeatureFlag, code = ''feature-flag'', aliases = [],
     label = ''Feature Flags'', config_key = Some ''feature-flags'',
     filter_flag = None, mcp_issue_type = None,
     suppress_token = Some ''feature-flag'', suppress_file_level = False, lsp = False,
     docs_category = ''flags''\<rparr>,
   \<lparr>im_kind = Some Complexity, code = ''complexity'', aliases = [],
     label = ''Complexity'', config_key = None,
     filter_flag = None, mcp_issue_type = None,
     suppress_token = Some ''complexity'', suppress_file_level = False, lsp = False,
     docs_category = ''health''\<rparr>,
   \<lparr>im_kind = Some PropDrilling, code = ''prop-drilling'', aliases = [],
     label = ''Prop Drilling'', config_key = Some ''prop-drilling'',
     filter_flag = None, mcp_issue_type = None,
     suppress_token = Some ''prop-drilling'', suppress_file_level = False, lsp = False,
     docs_category = ''source''\<rparr>,
   \<lparr>im_kind = Some ThinWrapper, code = ''thin-wrapper'', aliases = [''thin-wrappers''],
     label = ''Thin Wrappers'', config_key = Some ''thin-wrapper'',
     filter_flag = None, mcp_issue_type = None,
     suppress_token = Some ''thin-wrapper'', suppress_file_level = False, lsp = False,
     docs_category = ''source''\<rparr>,
   \<lparr>im_kind = Some DuplicatePropShape, code = ''duplicate-prop-shape'', aliases = [''duplicate-prop-shapes''],
     label = ''Duplicate Prop Shapes'', config_key = Some ''duplicate-prop-shape'',
     filter_flag = None, mcp_issue_type = None,
     suppress_token = Some ''duplicate-prop-shape'', suppress_file_level = False, lsp = False,
     docs_category = ''source''\<rparr>]"

definition ISSUE_KIND_META :: "IssueKindMeta list" where
  "ISSUE_KIND_META = ISSUE_KIND_META_1 @ ISSUE_KIND_META_2 @ ISSUE_KIND_META_3 @ ISSUE_KIND_META_4 @ ISSUE_KIND_META_5"

definition KNOWN_ISSUE_KIND_NAMES :: "string list" where
  "KNOWN_ISSUE_KIND_NAMES = [
     ''unused-file'', ''unused-export'', ''unused-type'', ''private-type-leak'',
     ''unused-dependency'', ''unused-dev-dependency'', ''unused-enum-member'',
     ''unused-class-member'', ''unresolved-import'', ''unlisted-dependency'',
     ''duplicate-export'', ''code-duplication'', ''circular-dependency'',
     ''circular-dependencies'', ''re-export-cycle'', ''re-export-cycles'',
     ''reexport-cycle'', ''reexport-cycles'', ''type-only-dependency'',
     ''test-only-dependency'', ''boundary-violation'', ''boundary-call-violation'',
     ''boundary-call-violations'', ''coverage-gaps'', ''feature-flag'', ''complexity'',
     ''stale-suppression'', ''unused-catalog-entry'', ''unused-catalog-entries'',
     ''empty-catalog-group'', ''empty-catalog-groups'', ''unresolved-catalog-reference'',
     ''unresolved-catalog-references'', ''unused-dependency-override'',
     ''unused-dependency-overrides'', ''misconfigured-dependency-override'',
     ''misconfigured-dependency-overrides'', ''security-client-server-leak'',
     ''security-sink'', ''policy-violation'', ''policy-violations'',
     ''invalid-client-export'', ''invalid-client-exports'', ''mixed-client-server-barrel'',
     ''mixed-client-server-barrels'', ''misplaced-directive'', ''misplaced-directives'',
     ''unused-store-member'', ''unused-store-members'', ''unprovided-inject'',
     ''unprovided-injects'', ''route-collision'', ''route-collisions'',
     ''dynamic-segment-name-conflict'', ''dynamic-segment-name-conflicts'',
     ''unrendered-component'', ''unrendered-components'', ''unused-component-prop'',
     ''unused-component-props'', ''unused-component-emit'', ''unused-component-emits'',
     ''unused-component-input'', ''unused-component-inputs'', ''unused-component-output'',
     ''unused-component-outputs'', ''unused-server-action'', ''unused-server-actions'',
     ''unused-load-data-key'', ''unused-load-data-keys'', ''prop-drilling'',
     ''thin-wrapper'', ''thin-wrappers'', ''duplicate-prop-shape'',
     ''duplicate-prop-shapes'', ''unused-svelte-event'', ''unused-svelte-events'']"

definition DEAD_CODE_FILTER_FLAGS :: "string list" where
  "DEAD_CODE_FILTER_FLAGS = [
     ''--unused-files'', ''--unused-exports'', ''--unused-types'',
     ''--private-type-leaks'', ''--unused-deps'', ''--unused-enum-members'',
     ''--unused-class-members'', ''--unused-store-members'', ''--unprovided-injects'',
     ''--unrendered-components'', ''--unused-component-props'',
     ''--unused-component-emits'', ''--unused-component-inputs'',
     ''--unused-component-outputs'', ''--unused-svelte-events'',
     ''--unused-server-actions'', ''--unused-load-data-keys'', ''--unresolved-imports'',
     ''--unlisted-deps'', ''--duplicate-exports'', ''--circular-deps'',
     ''--re-export-cycles'', ''--boundary-violations'', ''--policy-violations'',
     ''--stale-suppressions'', ''--unused-catalog-entries'', ''--empty-catalog-groups'',
     ''--unresolved-catalog-references'', ''--unused-dependency-overrides'',
     ''--misconfigured-dependency-overrides'']"

definition MCP_ISSUE_TYPE_FLAGS :: "(string \<times> string) list" where
  "MCP_ISSUE_TYPE_FLAGS = [
     (''unused-files'', ''--unused-files''), (''unused-exports'', ''--unused-exports''),
     (''unused-types'', ''--unused-types''),
     (''private-type-leaks'', ''--private-type-leaks''),
     (''unused-deps'', ''--unused-deps''),
     (''unused-enum-members'', ''--unused-enum-members''),
     (''unused-class-members'', ''--unused-class-members''),
     (''unused-store-members'', ''--unused-store-members''),
     (''unprovided-injects'', ''--unprovided-injects''),
     (''unrendered-components'', ''--unrendered-components''),
     (''unused-component-props'', ''--unused-component-props''),
     (''unused-component-emits'', ''--unused-component-emits''),
     (''unused-component-inputs'', ''--unused-component-inputs''),
     (''unused-component-outputs'', ''--unused-component-outputs''),
     (''unused-svelte-events'', ''--unused-svelte-events''),
     (''unused-server-actions'', ''--unused-server-actions''),
     (''unused-load-data-keys'', ''--unused-load-data-keys''),
     (''unresolved-imports'', ''--unresolved-imports''),
     (''unlisted-deps'', ''--unlisted-deps''),
     (''duplicate-exports'', ''--duplicate-exports''),
     (''circular-deps'', ''--circular-deps''),
     (''re-export-cycles'', ''--re-export-cycles''),
     (''boundary-violations'', ''--boundary-violations''),
     (''policy-violations'', ''--policy-violations''),
     (''stale-suppressions'', ''--stale-suppressions''),
     (''unused-catalog-entries'', ''--unused-catalog-entries''),
     (''empty-catalog-groups'', ''--empty-catalog-groups''),
     (''unresolved-catalog-references'', ''--unresolved-catalog-references''),
     (''unused-dependency-overrides'', ''--unused-dependency-overrides''),
     (''misconfigured-dependency-overrides'', ''--misconfigured-dependency-overrides'')]"

section \<open>Lookups\<close>

definition issue_meta_by_code :: "string \<Rightarrow> IssueKindMeta option" where
  "issue_meta_by_code c = find (\<lambda>m. code m = c) ISSUE_KIND_META"

definition issue_meta_for_token :: "string \<Rightarrow> IssueKindMeta option" where
  "issue_meta_for_token token =
     find (\<lambda>m. code m = token \<or> token \<in> set (aliases m)) ISSUE_KIND_META"

definition issue_meta_by_kind :: "IssueKind \<Rightarrow> IssueKindMeta option" where
  "issue_meta_by_kind k = find (\<lambda>m. im_kind m = Some k) ISSUE_KIND_META"

definition diagnostic_issue_metas :: "IssueKindMeta list" where
  "diagnostic_issue_metas = filter lsp ISSUE_KIND_META"

text \<open>\<^verbatim>\<open>IssueKind::parse\<close>.\<close>

definition parse_issue_kind :: "string \<Rightarrow> IssueKind option" where
  "parse_issue_kind s = Option.bind (issue_meta_for_token s) im_kind"

definition all_issue_kinds :: "IssueKind list" where
  "all_issue_kinds = [
     UnusedFile, UnusedExport, UnusedType, PrivateTypeLeak, UnusedDependency,
     UnusedDevDependency, UnusedEnumMember, UnusedClassMember, UnresolvedImport,
     UnlistedDependency, DuplicateExport, CodeDuplication, CircularDependency,
     ReExportCycle, TypeOnlyDependency, TestOnlyDependency, BoundaryViolation,
     CoverageGaps, FeatureFlag, Complexity, StaleSuppression, PnpmCatalogEntry,
     EmptyCatalogGroup, UnresolvedCatalogReference, UnusedDependencyOverride,
     MisconfiguredDependencyOverride, SecurityClientServerLeak, SecuritySink,
     PolicyViolation, InvalidClientExport, MixedClientServerBarrel, MisplacedDirective,
     UnusedStoreMember, UnprovidedInject, RouteCollision, DynamicSegmentNameConflict,
     UnrenderedComponent, UnusedComponentProp, UnusedComponentEmit, UnusedComponentInput,
     UnusedComponentOutput, UnusedServerAction, UnusedLoadDataKey, PropDrilling,
     ThinWrapper, DuplicatePropShape, UnusedSvelteEvent]"

section \<open>Round trips and agreement of the tables\<close>

lemma in_all_issue_kinds [simp, intro!]: "k \<in> set all_issue_kinds"
  by (cases k) (simp_all add: all_issue_kinds_def)

lemma distinct_all_issue_kinds: "distinct all_issue_kinds"
  by code_simp

text \<open>The tokens of the table with the kind each row carries, in table order.\<close>

definition token_kinds :: "(string \<times> IssueKind option) list" where
  "token_kinds =
     concat (map (\<lambda>m. map (\<lambda>t. (t, im_kind m)) (code m # aliases m)) ISSUE_KIND_META)"

lemma find_token_map_of:
  "map_option im_kind (find (\<lambda>m. code m = t \<or> t \<in> set (aliases m)) ms) =
   map_of (concat (map (\<lambda>m. map (\<lambda>t. (t, im_kind m)) (code m # aliases m)) ms)) t"
proof (induction ms)
  case Nil
  then show ?case by simp
next
  case (Cons m ms)
  have "map_of (map (\<lambda>t. (t, im_kind m)) ts) t = (if t \<in> set ts then Some (im_kind m) else None)"
    for ts by (induction ts) auto
  with Cons show ?case by (auto simp: map_add_def)
qed

lemma parse_issue_kind_token_kinds: "parse_issue_kind s = Option.bind (map_of token_kinds s) id"
proof -
  have "map_option im_kind (issue_meta_for_token s) = map_of token_kinds s"
    by (simp add: issue_meta_for_token_def token_kinds_def find_token_map_of)
  from this [symmetric] show ?thesis
    by (simp add: parse_issue_kind_def) (cases "issue_meta_for_token s"; simp)
qed

lemma token_kinds_distinct: "distinct (map fst token_kinds)"
  by code_simp

lemma parse_issue_kind_iff: "parse_issue_kind s = Some k \<longleftrightarrow> (s, Some k) \<in> set token_kinds"
proof -
  have "parse_issue_kind s = Some k \<longleftrightarrow> map_of token_kinds s = Some (Some k)"
    by (auto simp: parse_issue_kind_token_kinds split: option.splits Option.bind_splits)
  then show ?thesis by (simp add: token_kinds_distinct)
qed

text \<open>The known names are the tokens with a kind, in another order: the positions.\<close>

definition known_name_positions :: "nat list" where
  "known_name_positions = [
     1, 2, 3, 4, 5, 6, 7, 8, 11, 12, 13, 0, 16, 17, 18, 19, 20, 21, 14, 15, 22, 23, 24, 68,
     69, 70, 55, 56, 57, 58, 59, 60, 61, 62, 63, 64, 65, 67, 66, 25, 26, 27, 28, 29, 30,
     31, 32, 9, 10, 33, 34, 51, 52, 53, 54, 35, 36, 37, 38, 39, 40, 41, 42, 43, 44, 47, 48,
     49, 50, 71, 72, 73, 74, 75, 45, 46]"

lemma known_names_listed:
  "KNOWN_ISSUE_KIND_NAMES =
     (let ts = map fst (filter (\<lambda>p. \<not> Option.is_none (snd p)) token_kinds)
      in map (\<lambda>i. ts ! i) known_name_positions)"
  by code_simp

lemma known_name_positions_all:
  "set known_name_positions =
     {..< length (filter (\<lambda>p. \<not> Option.is_none (snd p)) token_kinds)}"
  by code_simp

lemma known_names_token_kinds:
  "set KNOWN_ISSUE_KIND_NAMES = set (map fst (filter (\<lambda>p. snd p \<noteq> None) token_kinds))"
proof -
  let ?ts = "map fst (filter (\<lambda>p. \<not> Option.is_none (snd p)) token_kinds)"
  have "set KNOWN_ISSUE_KIND_NAMES = (\<lambda>i. ?ts ! i) ` {..< length ?ts}"
    by (simp only: known_names_listed Let_def set_map known_name_positions_all length_map)
  also have "\<dots> = set ?ts" by (simp only: set_conv_nth) blast
  finally show ?thesis by (simp add: Option.is_none_def)
qed

lemma kebab_all: "list_all (\<lambda>k. parse_issue_kind (issue_kind_to_kebab k) = Some k) all_issue_kinds"
  by code_simp

lemma to_discriminant_inverse [simp]: "from_discriminant (to_discriminant k) = Some k"
  by (cases k) (simp_all add: from_discriminant_def)

lemma from_discriminant_inverse: "from_discriminant d = Some k \<Longrightarrow> to_discriminant k = d"
  by (simp add: from_discriminant_def split: if_split_asm)

text \<open>The cache discriminants are a bijection between the issue kinds and the accepted
  byte values: a byte reconstructs a kind exactly when it is the kind's own discriminant.\<close>

theorem discriminant_roundtrip: "from_discriminant d = Some k \<longleftrightarrow> to_discriminant k = d"
  using from_discriminant_inverse by auto

text \<open>Every issue kind's canonical token parses back to that kind, through the
  code and alias columns of the metadata table.\<close>

theorem kebab_parse_roundtrip: "parse_issue_kind (issue_kind_to_kebab k) = Some k"
  using kebab_all by (simp add: list_all_iff)

text \<open>The list of known names shown in diagnostics is exactly the set of tokens
  the suppression parser accepts as an issue kind.\<close>

theorem known_names_are_the_parsed_tokens:
  "s \<in> set KNOWN_ISSUE_KIND_NAMES \<longleftrightarrow> (\<exists>k. parse_issue_kind s = Some k)"
  by (force simp: known_names_token_kinds parse_issue_kind_iff)

lemma issue_kind_to_kebab_inj: "inj issue_kind_to_kebab"
  by (rule inj_on_inverseI [where g = "\<lambda>s. the (parse_issue_kind s)"])
    (use kebab_all in \<open>simp add: list_all_iff\<close>)

lemma kebab_in_known: "issue_kind_to_kebab k \<in> set KNOWN_ISSUE_KIND_NAMES"
  using kebab_all by (force simp: known_names_token_kinds parse_issue_kind_iff list_all_iff)

text \<open>The flag and selector lists agree with the columns of the table.\<close>

lemma filter_flags_are_the_column:
  "set DEAD_CODE_FILTER_FLAGS = set (List.map_filter filter_flag ISSUE_KIND_META)"
  by code_simp

lemma mcp_flags_are_the_column:
  "set MCP_ISSUE_TYPE_FLAGS = set (List.map_filter mcp_pair ISSUE_KIND_META)"
  by code_simp

end
