(* ===== verification/Suppressions.thy ===== *)
theory Suppressions
  imports Issue_Kinds
begin

text \<open>
  Inline suppression directives: the targets and directives of
  \<^verbatim>\<open>crates/types/src/suppress.rs\<close>, and the parser of
  \<^verbatim>\<open>crates/extract/src/suppress.rs\<close> that reads them from comments and from raw source.
  Line numbers are \<open>nat\<close> (the code's \<^verbatim>\<open>u32\<close> is bounded by the length of a file).
\<close>

section \<open>Targets\<close>

record PolicyRuleSuppression =
  pack :: string
  rule_id :: string

definition policy_rule_token :: "PolicyRuleSuppression \<Rightarrow> string" where
  "policy_rule_token r = ''policy-violation:'' @ pack r @ ''/'' @ rule_id r"

datatype SuppressionTarget = Issue IssueKind | PolicyRule PolicyRuleSuppression

fun target_issue_kind :: "SuppressionTarget \<Rightarrow> IssueKind option" where
  "target_issue_kind (Issue k) = Some k"
| "target_issue_kind (PolicyRule _) = None"

fun target_token :: "SuppressionTarget \<Rightarrow> string" where
  "target_token (Issue k) = issue_kind_to_kebab k"
| "target_token (PolicyRule r) = policy_rule_token r"

definition is_valid_policy_identifier :: "string \<Rightarrow> bool" where
  "is_valid_policy_identifier value \<longleftrightarrow>
     value \<noteq> [] \<and> list_all (\<lambda>b. is_ascii_alphanumeric b \<or> b \<in> set ''._-'') value"

definition parse_policy_rule_suppression_token :: "string \<Rightarrow> PolicyRuleSuppression option" where
  "parse_policy_rule_suppression_token token =
     (case (case strip_prefix ''policy-violation:'' token of
              Some i \<Rightarrow> Some i
            | None \<Rightarrow> strip_prefix ''policy-violations:'' token) of
        None \<Rightarrow> None
      | Some identity \<Rightarrow>
          (case split_once (CHR ''/'') identity of
             None \<Rightarrow> None
           | Some (p, r) \<Rightarrow>
               if CHR ''/'' \<in> set r then None
               else if \<not> is_valid_policy_identifier p \<or> \<not> is_valid_policy_identifier r then None
               else Some \<lparr>pack = p, rule_id = r\<rparr>))"

definition parse_suppression_target :: "string \<Rightarrow> SuppressionTarget option" where
  "parse_suppression_target token =
     (case map_option PolicyRule (parse_policy_rule_suppression_token token) of
        Some t \<Rightarrow> Some t
      | None \<Rightarrow> map_option Issue (parse_issue_kind token))"

section \<open>Directives\<close>

record Suppression =
  s_line :: nat
  comment_line :: nat
  target :: "SuppressionTarget option"
  reason :: "string option"

definition suppression_all :: "nat \<Rightarrow> nat \<Rightarrow> Suppression" where
  "suppression_all l cl = \<lparr>s_line = l, comment_line = cl, target = None, reason = None\<rparr>"

definition suppression_issue :: "nat \<Rightarrow> nat \<Rightarrow> IssueKind \<Rightarrow> Suppression" where
  "suppression_issue l cl k =
     \<lparr>s_line = l, comment_line = cl, target = Some (Issue k), reason = None\<rparr>"

definition suppression_policy_rule :: "nat \<Rightarrow> nat \<Rightarrow> string \<Rightarrow> string \<Rightarrow> Suppression" where
  "suppression_policy_rule l cl p r =
     \<lparr>s_line = l, comment_line = cl,
      target = Some (PolicyRule \<lparr>pack = p, rule_id = r\<rparr>), reason = None\<rparr>"

definition with_reason :: "Suppression \<Rightarrow> string option \<Rightarrow> Suppression" where
  "with_reason s r = s\<lparr>reason := r\<rparr>"

definition issue_kind_target :: "Suppression \<Rightarrow> IssueKind option" where
  "issue_kind_target s = (case target s of Some (Issue k) \<Rightarrow> Some k | _ \<Rightarrow> None)"

definition policy_rule_target :: "Suppression \<Rightarrow> PolicyRuleSuppression option" where
  "policy_rule_target s = (case target s of Some (PolicyRule r) \<Rightarrow> Some r | _ \<Rightarrow> None)"

definition suppression_token :: "Suppression \<Rightarrow> string option" where
  "suppression_token s = map_option target_token (target s)"

definition applies_to_line :: "Suppression \<Rightarrow> nat \<Rightarrow> bool" where
  "applies_to_line s l \<longleftrightarrow> s_line s = 0 \<or> s_line s = l"

definition matches_issue_kind :: "Suppression \<Rightarrow> nat \<Rightarrow> IssueKind \<Rightarrow> bool" where
  "matches_issue_kind s l k \<longleftrightarrow> applies_to_line s l \<and>
     (case target s of
        None \<Rightarrow> True
      | Some (Issue t) \<Rightarrow> t = k
      | Some (PolicyRule _) \<Rightarrow> False)"

definition matches_policy_rule :: "Suppression \<Rightarrow> nat \<Rightarrow> string \<Rightarrow> string \<Rightarrow> bool" where
  "matches_policy_rule s l p r \<longleftrightarrow> applies_to_line s l \<and>
     (case target s of
        None \<Rightarrow> True
      | Some (Issue k) \<Rightarrow> k = PolicyViolation
      | Some (PolicyRule t) \<Rightarrow> pack t = p \<and> rule_id t = r)"

record UnknownSuppressionKind =
  u_comment_line :: nat
  u_is_file_level :: bool
  u_token :: string
  u_reason :: "string option"

section \<open>Parsing a directive\<close>

record ParsedSuppressions =
  suppressions :: "Suppression list"
  unknown_kinds :: "UnknownSuppressionKind list"

definition no_suppressions :: ParsedSuppressions where
  "no_suppressions = \<lparr>suppressions = [], unknown_kinds = []\<rparr>"

text \<open>
  Offsets into a source count UTF-8 bytes: a character from 128 on takes two.  The spans of the
  parser lie between characters, where the source's slices do not panic.
\<close>

definition utf8_len :: "char \<Rightarrow> nat" where
  "utf8_len c = (if (of_char c :: nat) < 128 then 1 else 2)"

fun split_bytes :: "nat \<Rightarrow> string \<Rightarrow> string \<times> string" where
  "split_bytes n [] = ([], [])"
| "split_bytes n (c # s) =
     (if utf8_len c \<le> n then (case split_bytes (n - utf8_len c) s of (a, b) \<Rightarrow> (c # a, b)) else ([], c # s))"

definition byte_slice :: "nat \<Rightarrow> nat \<Rightarrow> string \<Rightarrow> string" where
  "byte_slice i j s = fst (split_bytes (j - i) (snd (split_bytes i s)))"

definition byte_offset_to_line :: "string \<Rightarrow> nat \<Rightarrow> nat" where
  "byte_offset_to_line source off =
     length (filter (\<lambda>b. b = CHR ''\<newline>'') (fst (split_bytes (min off (str_len source)) source))) + 1"

definition is_token_separator :: "char \<Rightarrow> bool" where
  "is_token_separator c \<longleftrightarrow> c = CHR '','' \<or> is_whitespace c"

text \<open>One step of the loop over the tokens: the accumulated targets and unknown tokens.\<close>

definition add_target_token ::
  "string \<Rightarrow> SuppressionTarget list \<times> string list \<Rightarrow> SuppressionTarget list \<times> string list" where
  "add_target_token token acc = (case acc of (targets, unknown) \<Rightarrow>
     (case parse_suppression_target token of
        Some t \<Rightarrow> (if t \<in> set targets then (targets, unknown) else (targets @ [t], unknown))
      | None \<Rightarrow>
          (if token \<in> set unknown then (targets, unknown) else (targets, unknown @ [token]))))"

definition parse_suppression_target_list ::
  "string \<Rightarrow> SuppressionTarget list \<times> string list" where
  "parse_suppression_target_list rest =
     fold add_target_token (filter (\<lambda>t. t \<noteq> []) (split_on is_token_separator rest)) ([], [])"

text \<open>
  The loop over \<^verbatim>\<open>match_indices("--")\<close>: non-overlapping occurrences from the left, the
  first one with white space (or an end of the text) on both sides splits the text.  The
  first argument is the text before the scan position, reversed.
\<close>

fun split_at_dashes :: "string \<Rightarrow> string \<Rightarrow> (string \<times> string) option" where
  "split_at_dashes before [] = None"
| "split_at_dashes before (c # rest) =
     (case rest of
        d # rest' \<Rightarrow>
          if c = CHR ''-'' \<and> d = CHR ''-'' then
            if (before = [] \<or> is_whitespace (hd before)) \<and> (rest' = [] \<or> is_whitespace (hd rest'))
            then Some (rev before, rest')
            else split_at_dashes (d # c # before) rest'
          else split_at_dashes (c # before) rest
      | [] \<Rightarrow> None)"

definition split_suppression_reason :: "string \<Rightarrow> string \<times> string option" where
  "split_suppression_reason rest =
     (case split_at_dashes [] rest of
        None \<Rightarrow> (rest, None)
      | Some (b, a) \<Rightarrow>
          (trim_end b, let r = trim a in if r = [] then None else Some r))"

definition push_suppressions ::
  "ParsedSuppressions \<Rightarrow> nat \<Rightarrow> nat \<Rightarrow> string \<Rightarrow> ParsedSuppressions" where
  "push_suppressions parsed l cl rest0 =
     (case split_suppression_reason rest0 of (rest, r) \<Rightarrow>
        if rest = [] then
          parsed\<lparr>suppressions := suppressions parsed @ [with_reason (suppression_all l cl) r]\<rparr>
        else
          (case parse_suppression_target_list rest of (targets, unknown) \<Rightarrow>
             parsed\<lparr>
               suppressions := suppressions parsed @
                 map (\<lambda>t. \<lparr>s_line = l, comment_line = cl, target = Some t, reason = r\<rparr>) targets,
               unknown_kinds := unknown_kinds parsed @
                 map (\<lambda>t. \<lparr>u_comment_line = cl, u_is_file_level = (l = 0),
                          u_token = t, u_reason = r\<rparr>) unknown\<rparr>))"

text \<open>The dispatch on the two markers, shared by both parsers.\<close>

definition push_marker :: "ParsedSuppressions \<Rightarrow> nat \<Rightarrow> string \<Rightarrow> ParsedSuppressions" where
  "push_marker parsed cl text =
     (case strip_prefix ''fallow-ignore-file'' text of
        Some rest \<Rightarrow> push_suppressions parsed 0 cl (trim rest)
      | None \<Rightarrow>
          (case strip_prefix ''fallow-ignore-next-line'' text of
             Some rest \<Rightarrow> push_suppressions parsed (cl + 1) cl (trim rest)
           | None \<Rightarrow> parsed))"

text \<open>
  A comment of the oxc parser: the offset where it starts and the span of its content.
\<close>

record Comment =
  span_start :: nat
  content_start :: nat
  content_end :: nat

definition parse_suppressions :: "Comment list \<Rightarrow> string \<Rightarrow> ParsedSuppressions" where
  "parse_suppressions comments source =
     fold (\<lambda>c parsed.
       let text = byte_slice (content_start c) (min (content_end c) (str_len source)) source
       in push_marker parsed (byte_offset_to_line source (span_start c)) (trim text))
     comments no_suppressions"

text \<open>\<^verbatim>\<open>str::lines\<close>: split at line feeds, no piece after a final one, a carriage return
  before a line feed removed.\<close>

definition strip_cr :: "string \<Rightarrow> string" where
  "strip_cr l = (if l \<noteq> [] \<and> last l = CHR 0x0D then butlast l else l)"

definition str_lines :: "string \<Rightarrow> string list" where
  "str_lines source =
     (let ps = split_on (\<lambda>c. c = CHR ''\<newline>'') source
      in map strip_cr (butlast ps) @ (if last ps = [] then [] else [last ps]))"

definition comment_text_of_line :: "string \<Rightarrow> string option" where
  "comment_text_of_line line =
     (let trimmed = trim line in
      case strip_prefix ''//'' trimmed of
        Some rest \<Rightarrow> Some (trim rest)
      | None \<Rightarrow>
          (case strip_prefix ''/*'' trimmed of
             Some rest \<Rightarrow> map_option trim (strip_suffix ''*/'' rest)
           | None \<Rightarrow>
               (case strip_prefix ''<!--'' trimmed of
                  Some rest \<Rightarrow> map_option trim (strip_suffix ''-->'' rest)
                | None \<Rightarrow> None)))"

definition parse_suppressions_from_source :: "string \<Rightarrow> ParsedSuppressions" where
  "parse_suppressions_from_source source =
     fold (\<lambda>(line_idx, line) parsed.
       case comment_text_of_line line of
         None \<Rightarrow> parsed
       | Some text \<Rightarrow> push_marker parsed (line_idx + 1) text)
     (enumerate 0 (str_lines source)) no_suppressions"

section \<open>Facts about tokens\<close>

lemma ws_newline: "is_whitespace (CHR ''\<newline>'')"
  by (simp add: is_whitespace_def)

definition plain_char :: "char \<Rightarrow> bool" where
  "plain_char c \<longleftrightarrow> \<not> is_whitespace c \<and> c \<noteq> CHR '',''"

lemma kebab_shape_all:
  "list_all (\<lambda>k. let t = issue_kind_to_kebab k in
     t \<noteq> [] \<and> hd t \<noteq> CHR ''-'' \<and> list_all plain_char t \<and>
     strip_prefix ''policy-violation:'' t = None \<and> strip_prefix ''policy-violations:'' t = None)
   all_issue_kinds"
  by code_simp

lemma kebab_shape:
  "issue_kind_to_kebab k \<noteq> []" "hd (issue_kind_to_kebab k) \<noteq> CHR ''-''"
  "list_all plain_char (issue_kind_to_kebab k)"
  "strip_prefix ''policy-violation:'' (issue_kind_to_kebab k) = None"
  "strip_prefix ''policy-violations:'' (issue_kind_to_kebab k) = None"
  using kebab_shape_all by (simp_all add: list_all_iff Let_def)

lemma parse_kebab [simp]: "parse_issue_kind (issue_kind_to_kebab k) = Some k"
  using kebab_all by (simp add: list_all_iff)

definition valid_policy_rule :: "PolicyRuleSuppression \<Rightarrow> bool" where
  "valid_policy_rule r \<longleftrightarrow>
     is_valid_policy_identifier (pack r) \<and> is_valid_policy_identifier (rule_id r)"

fun valid_target :: "SuppressionTarget \<Rightarrow> bool" where
  "valid_target (Issue k) = True"
| "valid_target (PolicyRule r) = valid_policy_rule r"

lemma policy_char_plain: "is_ascii_alphanumeric b \<or> b \<in> set ''._-'' \<Longrightarrow> plain_char b"
  by (auto simp: plain_char_def is_whitespace_def is_ascii_alphanumeric_def Let_def)

lemma policy_char_no_slash: "is_valid_policy_identifier v \<Longrightarrow> CHR ''/'' \<notin> set v"
  by (auto simp: is_valid_policy_identifier_def list_all_iff is_ascii_alphanumeric_def)

lemma policy_identifier_plain: "is_valid_policy_identifier v \<Longrightarrow> list_all plain_char v"
  using policy_char_plain by (auto simp: is_valid_policy_identifier_def list_all_iff)

lemma parse_policy_token:
  "valid_policy_rule r \<Longrightarrow> parse_policy_rule_suppression_token (policy_rule_token r) = Some r"
proof -
  assume v: "valid_policy_rule r"
  then have "split_once (CHR ''/'') (pack r @ CHR ''/'' # rule_id r) = Some (pack r, rule_id r)"
    by (simp add: split_once_Some valid_policy_rule_def policy_char_no_slash)
  with v show ?thesis
    by (simp add: parse_policy_rule_suppression_token_def policy_rule_token_def
        valid_policy_rule_def policy_char_no_slash)
qed

lemma parse_policy_sound:
  "parse_policy_rule_suppression_token t = Some r \<Longrightarrow> valid_policy_rule r"
  by (auto simp: parse_policy_rule_suppression_token_def valid_policy_rule_def
      split: option.splits if_splits)

lemma parse_policy_kebab: "parse_policy_rule_suppression_token (issue_kind_to_kebab k) = None"
  by (simp add: parse_policy_rule_suppression_token_def kebab_shape)

lemma parse_target_token: "valid_target t \<Longrightarrow> parse_suppression_target (target_token t) = Some t"
  by (cases t) (simp_all add: parse_suppression_target_def parse_policy_token parse_policy_kebab)

lemma parse_target_valid: "parse_suppression_target s = Some t \<Longrightarrow> valid_target t"
  by (auto simp: parse_suppression_target_def parse_policy_sound split: option.splits)

text \<open>Canonical tokens are a normal form of the token parser: whatever token a target was
  read from, its canonical token reads back as the same target.\<close>

theorem suppression_token_roundtrip:
  assumes "parse_suppression_target token = Some t"
  shows "parse_suppression_target (target_token t) = Some t"
  using assms by (intro parse_target_token parse_target_valid)

theorem suppression_token_roundtrip_witness:
  "parse_suppression_target ''policy-violations:team/no-eval'' =
     Some (PolicyRule \<lparr>pack = ''team'', rule_id = ''no-eval''\<rparr>) \<and>
   parse_suppression_target (target_token (PolicyRule \<lparr>pack = ''team'', rule_id = ''no-eval''\<rparr>)) =
     Some (PolicyRule \<lparr>pack = ''team'', rule_id = ''no-eval''\<rparr>)"
proof -
  have h: "parse_suppression_target ''policy-violations:team/no-eval'' =
     Some (PolicyRule \<lparr>pack = ''team'', rule_id = ''no-eval''\<rparr>)"
    by (simp add: parse_suppression_target_def parse_policy_rule_suppression_token_def
        is_valid_policy_identifier_def is_ascii_alphanumeric_def)
  show ?thesis using h suppression_token_roundtrip [OF h] by simp
qed

section \<open>Facts about the token list\<close>

lemma fold_add_target_token:
  "fold add_target_token ts (a, b) =
     (fold push_new (List.map_filter parse_suppression_target ts) a,
      fold push_new (filter (\<lambda>t. parse_suppression_target t = None) ts) b)"
  by (induction ts arbitrary: a b)
    (auto simp: add_target_token_def push_new_def map_filter_simps split: option.splits)

definition marker_tokens :: "string \<Rightarrow> string list" where
  "marker_tokens rest = filter (\<lambda>t. t \<noteq> []) (split_on is_token_separator rest)"

text \<open>The token list of a marker is split into the targets its tokens name, each once and
  in order of first occurrence, and the verbatim tokens that name nothing, likewise.\<close>

theorem target_list_functional:
  "parse_suppression_target_list rest =
     (first_occurrences (List.map_filter parse_suppression_target (marker_tokens rest)),
      first_occurrences (filter (\<lambda>t. parse_suppression_target t = None) (marker_tokens rest)))"
  by (simp add: parse_suppression_target_list_def marker_tokens_def fold_add_target_token
      first_occurrences_def)

section \<open>A rendered marker reads back\<close>

fun comma_list :: "string list \<Rightarrow> string" where
  "comma_list [] = []"
| "comma_list [t] = t"
| "comma_list (t # ts) = t @ '', '' @ comma_list ts"

definition marker_body :: "SuppressionTarget list \<Rightarrow> string option \<Rightarrow> string" where
  "marker_body ts r =
     comma_list (map target_token ts) @ (case r of None \<Rightarrow> [] | Some x \<Rightarrow> '' -- '' @ x)"

definition marker_text :: "SuppressionTarget list \<Rightarrow> string option \<Rightarrow> string" where
  "marker_text ts r = ''fallow-ignore-next-line '' @ marker_body ts r"

text \<open>The shape of a token: no separator inside, no dash in front.\<close>

definition token_shape :: "string \<Rightarrow> bool" where
  "token_shape t \<longleftrightarrow> t \<noteq> [] \<and> hd t \<noteq> CHR ''-'' \<and> list_all plain_char t"

lemma token_shape_valid: "valid_target t \<Longrightarrow> token_shape (target_token t)"
proof (cases t)
  case (Issue k)
  then show ?thesis by (simp add: token_shape_def kebab_shape)
next
  case (PolicyRule r)
  assume "valid_target t"
  with PolicyRule have "list_all plain_char (pack r)" "list_all plain_char (rule_id r)"
    by (auto simp: valid_policy_rule_def policy_identifier_plain)
  with PolicyRule show ?thesis
    by (simp add: token_shape_def policy_rule_token_def plain_char_def is_whitespace_def)
qed

text \<open>Trimmed text: not empty, no white space at either end.\<close>

definition trimmed :: "string \<Rightarrow> bool" where
  "trimmed s \<longleftrightarrow> s \<noteq> [] \<and> \<not> is_whitespace (hd s) \<and> \<not> is_whitespace (last s)"

lemma dropWhile_hd: "s \<noteq> [] \<Longrightarrow> \<not> p (hd s) \<Longrightarrow> dropWhile p s = s"
  by (cases s) auto

lemma trim_end_trimmed: "trimmed s \<Longrightarrow> trim_end s = s"
  by (simp add: trim_end_def trimmed_def dropWhile_hd hd_rev)

lemma trim_end_space: "trimmed s \<Longrightarrow> trim_end (s @ '' '') = s"
  by (simp add: trim_end_def trimmed_def dropWhile_hd hd_rev is_whitespace_def)

lemma trim_start_trimmed: "trimmed s \<Longrightarrow> trim_start s = s"
  by (simp add: trim_start_def trimmed_def dropWhile_hd)

lemma trim_trimmed: "trimmed s \<Longrightarrow> trim s = s"
  by (simp add: trim_def trim_start_trimmed trim_end_trimmed)

lemma trim_space: "trimmed s \<Longrightarrow> trim (CHR '' '' # s) = s"
proof -
  assume t: "trimmed s"
  then have "trim_start (CHR '' '' # s) = s"
    by (simp add: trim_start_def is_whitespace_def trimmed_def dropWhile_hd)
  with t show ?thesis by (simp add: trim_def trim_end_trimmed)
qed

lemma trim_Nil [simp]: "trim [] = []"
  by (simp add: trim_def trim_start_def trim_end_def)

lemma trimmed_append: "trimmed s \<Longrightarrow> trimmed t \<Longrightarrow> trimmed (s @ u @ t)"
  by (auto simp: trimmed_def hd_append)

lemma token_shape_trimmed: "token_shape t \<Longrightarrow> trimmed t"
  by (auto simp: token_shape_def trimmed_def plain_char_def list_all_iff)

lemma comma_list_trimmed:
  "ts \<noteq> [] \<Longrightarrow> (\<And>t. t \<in> set ts \<Longrightarrow> token_shape t) \<Longrightarrow> trimmed (comma_list ts)"
proof (induction ts rule: comma_list.induct)
  case (3 t u us)
  then have "trimmed t" "trimmed (comma_list (u # us))" by (auto intro: token_shape_trimmed)
  then show ?case using trimmed_append [of t "comma_list (u # us)" "'', ''"] by simp
qed (auto intro: token_shape_trimmed)

text \<open>
  Where a dash may stand: never at the front of a text and never after white space, when
  \<open>front\<close> says that the text starts at such a place.
\<close>

fun dashes_inside :: "bool \<Rightarrow> string \<Rightarrow> bool" where
  "dashes_inside front [] = True"
| "dashes_inside front (c # s) =
     ((front \<longrightarrow> c \<noteq> CHR ''-'') \<and> dashes_inside (is_whitespace c) s)"

lemma dashes_inside_append:
  "dashes_inside b (s @ t) \<longleftrightarrow>
     dashes_inside b s \<and> dashes_inside (if s = [] then b else is_whitespace (last s)) t"
  by (induction b s rule: dashes_inside.induct) auto

lemma dashes_inside_plain: "list_all plain_char s \<Longrightarrow> dashes_inside False s"
  by (induction s) (auto simp: plain_char_def)

lemma dashes_inside_token: "token_shape t \<Longrightarrow> dashes_inside b t"
  by (cases t) (auto simp: token_shape_def plain_char_def dashes_inside_plain)

lemma dashes_inside_comma_list:
  "(\<And>t. t \<in> set ts \<Longrightarrow> token_shape t) \<Longrightarrow> dashes_inside b (comma_list ts)"
proof (induction ts arbitrary: b rule: comma_list.induct)
  case (3 t u us)
  then have "dashes_inside b t" "dashes_inside True (comma_list (u # us))" "t \<noteq> []"
    by (auto simp: dashes_inside_token token_shape_def)
  then show ?case by (simp add: dashes_inside_append is_whitespace_def)
qed (auto intro: dashes_inside_token)

lemma split_at_dashes_none:
  "dashes_inside (before = [] \<or> is_whitespace (hd before)) s \<Longrightarrow> split_at_dashes before s = None"
proof (induction before s rule: split_at_dashes.induct)
  case (1 before)
  then show ?case by simp
next
  case (2 before c rest)
  show ?case
  proof (cases rest)
    case Nil
    then show ?thesis by simp
  next
    case (Cons d rest')
    with 2 show ?thesis by (cases "c = CHR ''-'' \<and> d = CHR ''-''") auto
  qed
qed

lemma split_at_dashes_found:
  "dashes_inside (before = [] \<or> is_whitespace (hd before)) s \<Longrightarrow>
   split_at_dashes before (s @ '' -- '' @ r) = Some (rev before @ s @ '' '', CHR '' '' # r)"
proof (induction before s rule: split_at_dashes.induct)
  case (1 before)
  then show ?case by (simp add: is_whitespace_def)
next
  case (2 before c rest)
  show ?case
  proof (cases rest)
    case Nil
    with 2 show ?thesis by (auto simp: is_whitespace_def)
  next
    case (Cons d rest')
    show ?thesis
    proof (cases "c = CHR ''-'' \<and> d = CHR ''-''")
      case True
      with 2 Cons have "\<not> (before = [] \<or> is_whitespace (hd before))" by auto
      with 2 Cons True show ?thesis by (auto simp: is_whitespace_def)
    next
      case False
      with 2 Cons show ?thesis by auto
    qed
  qed
qed

lemma split_reason_body:
  assumes "trimmed s" "dashes_inside True s" "\<And>x. r = Some x \<Longrightarrow> trimmed x"
  shows "split_suppression_reason (s @ (case r of None \<Rightarrow> [] | Some x \<Rightarrow> '' -- '' @ x)) = (s, r)"
proof (cases r)
  case None
  with assms show ?thesis by (simp add: split_suppression_reason_def split_at_dashes_none)
next
  case (Some x)
  have "split_at_dashes [] (s @ '' -- '' @ x) = Some (s @ '' '', CHR '' '' # x)"
    using split_at_dashes_found [of "[]" s x] assms(2) by simp
  with Some assms show ?thesis
    by (simp add: split_suppression_reason_def trim_end_space trim_space Let_def trimmed_def)
qed

lemma split_on_cons_sep:
  "(\<And>c. c \<in> set a \<Longrightarrow> \<not> p c) \<Longrightarrow> p x \<Longrightarrow> split_on p (a @ x # b) = a # split_on p b"
  by (induction a) auto

lemma marker_tokens_comma_list:
  "(\<And>t. t \<in> set ts \<Longrightarrow> token_shape t) \<Longrightarrow> marker_tokens (comma_list ts) = ts"
proof (induction ts rule: comma_list.induct)
  case 1
  then show ?case by (simp add: marker_tokens_def)
next
  case (2 t)
  then have "split_on is_token_separator t = [t]"
    by (intro split_on_none)
      (auto simp: token_shape_def list_all_iff plain_char_def is_token_separator_def)
  with 2 show ?case by (simp add: marker_tokens_def token_shape_def)
next
  case (3 t u us)
  have sp: "split_on is_token_separator (CHR '' '' # s) = [] # split_on is_token_separator s" for s
    by (simp add: is_token_separator_def is_whitespace_def)
  have "split_on is_token_separator (t @ CHR '','' # CHR '' '' # comma_list (u # us)) =
      t # [] # split_on is_token_separator (comma_list (u # us))"
    using 3 sp by (subst split_on_cons_sep)
      (auto simp: token_shape_def list_all_iff plain_char_def is_token_separator_def)
  with 3 show ?case by (auto simp: marker_tokens_def token_shape_def)
qed

lemma parse_list_rendered:
  assumes "distinct ts" "\<And>t. t \<in> set ts \<Longrightarrow> valid_target t"
  shows "parse_suppression_target_list (comma_list (map target_token ts)) = (ts, [])"
proof -
  have mt: "marker_tokens (comma_list (map target_token ts)) = map target_token ts"
    using assms(2) by (intro marker_tokens_comma_list) (auto intro: token_shape_valid)
  have "List.map_filter parse_suppression_target (map target_token ts) = ts"
    using assms(2) by (induction ts) (auto simp: parse_target_token map_filter_simps)
  moreover have "filter (\<lambda>t. parse_suppression_target t = None) (map target_token ts) = []"
    using assms(2) by (induction ts) (auto simp: parse_target_token)
  ultimately show ?thesis
    using assms(1)
    by (simp add: parse_suppression_target_list_def fold_add_target_token mt [unfolded marker_tokens_def]
        flip: first_occurrences_def) (simp add: first_occurrences_distinct)
qed

lemma push_suppressions_rendered:
  assumes "ts \<noteq> []" "distinct ts" "\<And>t. t \<in> set ts \<Longrightarrow> valid_target t"
    "\<And>x. r = Some x \<Longrightarrow> trimmed x"
  shows "push_suppressions parsed l cl (marker_body ts r) =
    parsed\<lparr>suppressions := suppressions parsed @
      map (\<lambda>t. \<lparr>s_line = l, comment_line = cl, target = Some t, reason = r\<rparr>) ts\<rparr>"
proof -
  have sh: "t \<in> set (map target_token ts) \<Longrightarrow> token_shape t" for t
    using assms(3) token_shape_valid by auto
  have tr: "trimmed (comma_list (map target_token ts))"
    using assms(1) sh by (intro comma_list_trimmed) auto
  have "split_suppression_reason (marker_body ts r) = (comma_list (map target_token ts), r)"
    unfolding marker_body_def
    by (intro split_reason_body tr dashes_inside_comma_list sh assms(4))
  moreover have "comma_list (map target_token ts) \<noteq> []" using tr by (simp add: trimmed_def)
  ultimately show ?thesis
    using parse_list_rendered [OF assms(2,3)] by (simp add: push_suppressions_def)
qed

lemma marker_body_trimmed:
  assumes "ts \<noteq> []" "\<And>t. t \<in> set ts \<Longrightarrow> valid_target t" "\<And>x. r = Some x \<Longrightarrow> trimmed x"
  shows "trimmed (marker_body ts r)"
proof -
  have "trimmed (comma_list (map target_token ts))"
    using assms(1,2) by (intro comma_list_trimmed) (auto intro: token_shape_valid)
  then show ?thesis
    using assms(3) trimmed_append [of "comma_list (map target_token ts)" _ "'' -- ''"]
    by (auto simp: marker_body_def split: option.split)
qed

lemma push_marker_rendered:
  assumes "ts \<noteq> []" "distinct ts" "\<And>t. t \<in> set ts \<Longrightarrow> valid_target t"
    "\<And>x. r = Some x \<Longrightarrow> trimmed x"
  shows "push_marker parsed cl (marker_text ts r) =
    parsed\<lparr>suppressions := suppressions parsed @
      map (\<lambda>t. \<lparr>s_line = cl + 1, comment_line = cl, target = Some t, reason = r\<rparr>) ts\<rparr>"
  using assms
  by (simp add: push_marker_def marker_text_def trim_space marker_body_trimmed
      push_suppressions_rendered)

lemma comma_list_chars:
  "c \<in> set (comma_list ts) \<Longrightarrow> c = CHR '','' \<or> c = CHR '' '' \<or> (\<exists>t \<in> set ts. c \<in> set t)"
  by (induction ts rule: comma_list.induct) auto

lemma marker_text_one_line:
  assumes "\<And>t. t \<in> set ts \<Longrightarrow> valid_target t" "\<And>x. r = Some x \<Longrightarrow> CHR ''\<newline>'' \<notin> set x"
  shows "CHR ''\<newline>'' \<notin> set (marker_text ts r)"
proof
  assume "CHR ''\<newline>'' \<in> set (marker_text ts r)"
  then have "CHR ''\<newline>'' \<in> set (comma_list (map target_token ts))"
    using assms(2) by (auto simp: marker_text_def marker_body_def split: option.splits)
  then obtain t where "t \<in> set ts" "CHR ''\<newline>'' \<in> set (target_token t)"
    using comma_list_chars by fastforce
  then show False
    using token_shape_valid [OF assms(1), of t] ws_newline
    by (auto simp: token_shape_def list_all_iff plain_char_def)
qed

lemma split_on_blank_lines:
  "(\<And>c. c \<in> set s \<Longrightarrow> c \<noteq> CHR ''\<newline>'') \<Longrightarrow>
   split_on (\<lambda>c. c = CHR ''\<newline>'') (replicate n (CHR ''\<newline>'') @ s) = replicate n [] @ [s]"
  by (induction n) (auto simp: split_on_none)

lemma parse_lines_blank:
  "fold (\<lambda>(i, line) p. case comment_text_of_line line of None \<Rightarrow> p | Some t \<Rightarrow> push_marker p (i + 1) t)
     (enumerate k (replicate n [])) p = p"
  by (induction n arbitrary: k) (auto simp: comment_text_of_line_def)

text \<open>
  C31. A \<^verbatim>\<open>fallow-ignore-next-line\<close> comment written with any list of distinct valid targets
  and any reason, on any line of a file, is read back as exactly one directive per target: on
  the line after the comment, in order, with that reason, and no unknown token.
\<close>

theorem marker_roundtrip:
  assumes "ts \<noteq> []" "distinct ts" "\<And>t. t \<in> set ts \<Longrightarrow> valid_target t"
    "\<And>x. r = Some x \<Longrightarrow> trimmed x \<and> CHR ''\<newline>'' \<notin> set x"
  shows "parse_suppressions_from_source
      (replicate n (CHR ''\<newline>'') @ ''// '' @ marker_text ts r) =
    \<lparr>suppressions =
       map (\<lambda>t. \<lparr>s_line = n + 2, comment_line = n + 1, target = Some t, reason = r\<rparr>) ts,
     unknown_kinds = []\<rparr>"
proof -
  let ?m = "marker_text ts r"
  have body: "trimmed (marker_body ts r)" using assms by (intro marker_body_trimmed) auto
  have tm: "trimmed ?m"
    using body by (simp add: marker_text_def trimmed_def is_whitespace_def)
  have tl: "trimmed (''// '' @ ?m)"
    using tm by (simp add: trimmed_def is_whitespace_def)
  have cl: "comment_text_of_line (''// '' @ ?m) = Some ?m"
    using tm tl by (simp add: comment_text_of_line_def trim_trimmed trim_space)
  have nn: "c \<in> set (''// '' @ ?m) \<Longrightarrow> c \<noteq> CHR ''\<newline>''" for c
    using marker_text_one_line [of ts r] assms(3,4) by auto
  have "str_lines (replicate n (CHR ''\<newline>'') @ ''// '' @ ?m) = replicate n [] @ [''// '' @ ?m]"
    by (simp only: str_lines_def Let_def split_on_blank_lines [OF nn])
      (simp add: strip_cr_def butlast_append)
  then show ?thesis
    using assms by (simp add: parse_suppressions_from_source_def enumerate_append_eq
        parse_lines_blank cl [simplified] push_marker_rendered no_suppressions_def)
qed

theorem marker_roundtrip_witness:
  "parse_suppressions_from_source
     (replicate 3 (CHR ''\<newline>'') @ ''// '' @
      marker_text [Issue UnusedExport, Issue UnusedType] (Some ''kept for v2'')) =
   \<lparr>suppressions =
      [\<lparr>s_line = 5, comment_line = 4, target = Some (Issue UnusedExport),
         reason = Some ''kept for v2''\<rparr>,
       \<lparr>s_line = 5, comment_line = 4, target = Some (Issue UnusedType),
         reason = Some ''kept for v2''\<rparr>],
    unknown_kinds = []\<rparr>"
  by (subst marker_roundtrip) (auto simp: trimmed_def is_whitespace_def)

end
