(* ===== verification/Rules_Config.thy ===== *)
theory Rules_Config
  imports Issue_Kinds
begin

text \<open>
  The severity configuration of \<^verbatim>\<open>crates/config/src/config/rules.rs\<close> with the two functions
  of \<^verbatim>\<open>resolution.rs\<close> that layer it, and the rule an issue kind is gated by
  (\<^verbatim>\<open>severity_for_kind\<close> of \<^verbatim>\<open>crates/core/src/suppress.rs\<close>).

  \<^verbatim>\<open>RulesConfig\<close> has one \<^verbatim>\<open>Severity\<close> per rule and \<^verbatim>\<open>PartialRulesConfig\<close> one
  \<^verbatim>\<open>Option<Severity>\<close> per rule.  Both are functions from the enumeration \<open>rule_field\<close> of
  their (common) field names, so that an operation that lists fields one by one, as the
  macro calls of \<^verbatim>\<open>apply_partial\<close> do, is a fold over that list, and a field left out
  of it shows.
\<close>

section \<open>Severities\<close>

datatype Severity = Error | Warn | Off

primrec severity_display :: "Severity \<Rightarrow> string" where
  "severity_display Error = ''error''"
| "severity_display Warn = ''warn''"
| "severity_display Off = ''off''"

text \<open>
  \<^verbatim>\<open>FromStr\<close>; the error carries the lower-cased input, as the message does.  \<^verbatim>\<open>to_lowercase\<close> on the
  characters below 256 also maps the accented capitals, and not the multiplication sign among them.
\<close>

definition char_lower :: "char \<Rightarrow> char" where
  "char_lower c = (let n = of_char c :: nat in
     if (65 \<le> n \<and> n \<le> 90) \<or> (192 \<le> n \<and> n \<le> 222 \<and> n \<noteq> 215) then char_of (n + 32) else c)"

definition to_lowercase :: "string \<Rightarrow> string" where
  "to_lowercase s = map char_lower s"

definition severity_from_str :: "string \<Rightarrow> string + Severity" where
  "severity_from_str s = (let l = to_lowercase s in
     if l = ''error'' then Inr Error
     else if l = ''warn'' \<or> l = ''warning'' then Inr Warn
     else if l = ''off'' \<or> l = ''none'' then Inr Off
     else Inl l)"

section \<open>The rules and their defaults\<close>

datatype rule_field =
    unused_files | unused_exports | unused_types | private_type_leaks |
    unused_dependencies | unused_dev_dependencies | unused_optional_dependencies |
    unused_enum_members | unused_class_members | unused_store_members |
    unprovided_injects | unrendered_components | unused_component_props |
    unused_component_emits | unused_component_inputs | unused_component_outputs |
    unused_svelte_events | unused_server_actions | unused_load_data_keys | prop_drilling |
    thin_wrapper | duplicate_prop_shape | unresolved_imports | unlisted_dependencies |
    duplicate_exports | type_only_dependencies | test_only_dependencies |
    circular_dependencies | re_export_cycle | boundary_violation | coverage_gaps |
    feature_flags | stale_suppressions | require_suppression_reason |
    unused_catalog_entries | empty_catalog_groups | unresolved_catalog_references |
    unused_dependency_overrides | misconfigured_dependency_overrides |
    security_client_server_leak | security_sink | policy_violation |
    invalid_client_export | mixed_client_server_barrel | misplaced_directive |
    route_collision | dynamic_segment_name_conflict

type_synonym RulesConfig = "rule_field \<Rightarrow> Severity"
type_synonym PartialRulesConfig = "rule_field \<Rightarrow> Severity option"

definition all_rule_fields :: "rule_field list" where
  "all_rule_fields = [
     unused_files, unused_exports, unused_types, private_type_leaks, unused_dependencies,
     unused_dev_dependencies, unused_optional_dependencies, unused_enum_members,
     unused_class_members, unused_store_members, unprovided_injects, unrendered_components,
     unused_component_props, unused_component_emits, unused_component_inputs,
     unused_component_outputs, unused_svelte_events, unused_server_actions,
     unused_load_data_keys, prop_drilling, thin_wrapper, duplicate_prop_shape,
     unresolved_imports, unlisted_dependencies, duplicate_exports, type_only_dependencies,
     test_only_dependencies, circular_dependencies, re_export_cycle, boundary_violation,
     coverage_gaps, feature_flags, stale_suppressions, require_suppression_reason,
     unused_catalog_entries, empty_catalog_groups, unresolved_catalog_references,
     unused_dependency_overrides, misconfigured_dependency_overrides,
     security_client_server_leak, security_sink, policy_violation, invalid_client_export,
     mixed_client_server_barrel, misplaced_directive, route_collision,
     dynamic_segment_name_conflict]"

text \<open>\<^verbatim>\<open>impl Default for RulesConfig\<close>: what a configuration with no \<^verbatim>\<open>rules\<close> key gets.\<close>

primrec default_rules :: RulesConfig where
  "default_rules unused_files = Error"
| "default_rules unused_exports = Error"
| "default_rules unused_types = Error"
| "default_rules private_type_leaks = Off"
| "default_rules unused_dependencies = Error"
| "default_rules unused_dev_dependencies = Warn"
| "default_rules unused_optional_dependencies = Warn"
| "default_rules unused_enum_members = Error"
| "default_rules unused_class_members = Error"
| "default_rules unused_store_members = Warn"
| "default_rules unprovided_injects = Warn"
| "default_rules unrendered_components = Warn"
| "default_rules unused_component_props = Warn"
| "default_rules unused_component_emits = Warn"
| "default_rules unused_component_inputs = Warn"
| "default_rules unused_component_outputs = Warn"
| "default_rules unused_svelte_events = Warn"
| "default_rules unused_server_actions = Warn"
| "default_rules unused_load_data_keys = Warn"
| "default_rules prop_drilling = Off"
| "default_rules thin_wrapper = Off"
| "default_rules duplicate_prop_shape = Off"
| "default_rules unresolved_imports = Error"
| "default_rules unlisted_dependencies = Error"
| "default_rules duplicate_exports = Error"
| "default_rules type_only_dependencies = Warn"
| "default_rules test_only_dependencies = Warn"
| "default_rules circular_dependencies = Error"
| "default_rules re_export_cycle = Warn"
| "default_rules boundary_violation = Error"
| "default_rules coverage_gaps = Off"
| "default_rules feature_flags = Off"
| "default_rules stale_suppressions = Warn"
| "default_rules require_suppression_reason = Off"
| "default_rules unused_catalog_entries = Warn"
| "default_rules empty_catalog_groups = Warn"
| "default_rules unresolved_catalog_references = Error"
| "default_rules unused_dependency_overrides = Warn"
| "default_rules misconfigured_dependency_overrides = Error"
| "default_rules security_client_server_leak = Off"
| "default_rules security_sink = Off"
| "default_rules policy_violation = Warn"
| "default_rules invalid_client_export = Warn"
| "default_rules mixed_client_server_barrel = Warn"
| "default_rules misplaced_directive = Warn"
| "default_rules route_collision = Error"
| "default_rules dynamic_segment_name_conflict = Error"

text \<open>
  The \<^verbatim>\<open>#[serde(default ...)]\<close> attribute of each field: the value the field takes when a
  \<^verbatim>\<open>rules\<close> object is present and its key is missing.  A bare \<^verbatim>\<open>default\<close> is
  \<^verbatim>\<open>Severity::default()\<close>, that is \<^verbatim>\<open>Error\<close>.
\<close>

primrec serde_missing :: RulesConfig where
  "serde_missing unused_files = Error"
| "serde_missing unused_exports = Error"
| "serde_missing unused_types = Error"
| "serde_missing private_type_leaks = Off"
| "serde_missing unused_dependencies = Error"
| "serde_missing unused_dev_dependencies = Warn"
| "serde_missing unused_optional_dependencies = Warn"
| "serde_missing unused_enum_members = Error"
| "serde_missing unused_class_members = Error"
| "serde_missing unused_store_members = Error"
| "serde_missing unprovided_injects = Error"
| "serde_missing unrendered_components = Error"
| "serde_missing unused_component_props = Error"
| "serde_missing unused_component_emits = Error"
| "serde_missing unused_component_inputs = Error"
| "serde_missing unused_component_outputs = Error"
| "serde_missing unused_svelte_events = Warn"
| "serde_missing unused_server_actions = Error"
| "serde_missing unused_load_data_keys = Warn"
| "serde_missing prop_drilling = Off"
| "serde_missing thin_wrapper = Off"
| "serde_missing duplicate_prop_shape = Off"
| "serde_missing unresolved_imports = Error"
| "serde_missing unlisted_dependencies = Error"
| "serde_missing duplicate_exports = Error"
| "serde_missing type_only_dependencies = Warn"
| "serde_missing test_only_dependencies = Warn"
| "serde_missing circular_dependencies = Error"
| "serde_missing re_export_cycle = Warn"
| "serde_missing boundary_violation = Error"
| "serde_missing coverage_gaps = Error"
| "serde_missing feature_flags = Off"
| "serde_missing stale_suppressions = Warn"
| "serde_missing require_suppression_reason = Off"
| "serde_missing unused_catalog_entries = Warn"
| "serde_missing empty_catalog_groups = Warn"
| "serde_missing unresolved_catalog_references = Error"
| "serde_missing unused_dependency_overrides = Warn"
| "serde_missing misconfigured_dependency_overrides = Error"
| "serde_missing security_client_server_leak = Off"
| "serde_missing security_sink = Off"
| "serde_missing policy_violation = Warn"
| "serde_missing invalid_client_export = Warn"
| "serde_missing mixed_client_server_barrel = Warn"
| "serde_missing misplaced_directive = Warn"
| "serde_missing route_collision = Error"
| "serde_missing dynamic_segment_name_conflict = Error"

text \<open>Deserializing the object of a \<^verbatim>\<open>rules\<close> key, given which fields its keys set.\<close>

definition rules_from_object :: "(rule_field \<rightharpoonup> Severity) \<Rightarrow> RulesConfig" where
  "rules_from_object obj = (\<lambda>f. case obj f of Some s \<Rightarrow> s | None \<Rightarrow> serde_missing f)"

text \<open>The \<^verbatim>\<open>rules\<close> field of the whole configuration is itself \<^verbatim>\<open>#[serde(default)]\<close>.\<close>

definition config_rules :: "(rule_field \<rightharpoonup> Severity) option \<Rightarrow> RulesConfig" where
  "config_rules key = (case key of None \<Rightarrow> default_rules | Some obj \<Rightarrow> rules_from_object obj)"

text \<open>Key names: the \<^verbatim>\<open>rename_all\<close> form of the field and the aliases of each struct.\<close>

primrec rule_name :: "rule_field \<Rightarrow> string" where
  "rule_name unused_files = ''unused-files''"
| "rule_name unused_exports = ''unused-exports''"
| "rule_name unused_types = ''unused-types''"
| "rule_name private_type_leaks = ''private-type-leaks''"
| "rule_name unused_dependencies = ''unused-dependencies''"
| "rule_name unused_dev_dependencies = ''unused-dev-dependencies''"
| "rule_name unused_optional_dependencies = ''unused-optional-dependencies''"
| "rule_name unused_enum_members = ''unused-enum-members''"
| "rule_name unused_class_members = ''unused-class-members''"
| "rule_name unused_store_members = ''unused-store-members''"
| "rule_name unprovided_injects = ''unprovided-injects''"
| "rule_name unrendered_components = ''unrendered-components''"
| "rule_name unused_component_props = ''unused-component-props''"
| "rule_name unused_component_emits = ''unused-component-emits''"
| "rule_name unused_component_inputs = ''unused-component-inputs''"
| "rule_name unused_component_outputs = ''unused-component-outputs''"
| "rule_name unused_svelte_events = ''unused-svelte-events''"
| "rule_name unused_server_actions = ''unused-server-actions''"
| "rule_name unused_load_data_keys = ''unused-load-data-keys''"
| "rule_name prop_drilling = ''prop-drilling''"
| "rule_name thin_wrapper = ''thin-wrapper''"
| "rule_name duplicate_prop_shape = ''duplicate-prop-shape''"
| "rule_name unresolved_imports = ''unresolved-imports''"
| "rule_name unlisted_dependencies = ''unlisted-dependencies''"
| "rule_name duplicate_exports = ''duplicate-exports''"
| "rule_name type_only_dependencies = ''type-only-dependencies''"
| "rule_name test_only_dependencies = ''test-only-dependencies''"
| "rule_name circular_dependencies = ''circular-dependencies''"
| "rule_name re_export_cycle = ''re-export-cycle''"
| "rule_name boundary_violation = ''boundary-violation''"
| "rule_name coverage_gaps = ''coverage-gaps''"
| "rule_name feature_flags = ''feature-flags''"
| "rule_name stale_suppressions = ''stale-suppressions''"
| "rule_name require_suppression_reason = ''require-suppression-reason''"
| "rule_name unused_catalog_entries = ''unused-catalog-entries''"
| "rule_name empty_catalog_groups = ''empty-catalog-groups''"
| "rule_name unresolved_catalog_references = ''unresolved-catalog-references''"
| "rule_name unused_dependency_overrides = ''unused-dependency-overrides''"
| "rule_name misconfigured_dependency_overrides = ''misconfigured-dependency-overrides''"
| "rule_name security_client_server_leak = ''security-client-server-leak''"
| "rule_name security_sink = ''security-sink''"
| "rule_name policy_violation = ''policy-violation''"
| "rule_name invalid_client_export = ''invalid-client-export''"
| "rule_name mixed_client_server_barrel = ''mixed-client-server-barrel''"
| "rule_name misplaced_directive = ''misplaced-directive''"
| "rule_name route_collision = ''route-collision''"
| "rule_name dynamic_segment_name_conflict = ''dynamic-segment-name-conflict''"

primrec rule_aliases :: "rule_field \<Rightarrow> string list" where
  "rule_aliases unused_files = [''unused-file'']"
| "rule_aliases unused_exports = [''unused-export'']"
| "rule_aliases unused_types = [''unused-type'']"
| "rule_aliases private_type_leaks = [''private-type-leak'']"
| "rule_aliases unused_dependencies = [''unused-dependency'']"
| "rule_aliases unused_dev_dependencies = [''unused-dev-dependency'']"
| "rule_aliases unused_optional_dependencies = [''unused-optional-dependency'']"
| "rule_aliases unused_enum_members = [''unused-enum-member'']"
| "rule_aliases unused_class_members = [''unused-class-member'']"
| "rule_aliases unused_store_members = [''unused-store-member'']"
| "rule_aliases unprovided_injects = [''unprovided-inject'']"
| "rule_aliases unrendered_components = [''unrendered-component'']"
| "rule_aliases unused_component_props = [''unused-component-prop'']"
| "rule_aliases unused_component_emits = [''unused-component-emit'']"
| "rule_aliases unused_component_inputs = [''unused-component-input'']"
| "rule_aliases unused_component_outputs = [''unused-component-output'']"
| "rule_aliases unused_svelte_events = [''unused-svelte-event'']"
| "rule_aliases unused_server_actions = [''unused-server-action'']"
| "rule_aliases unused_load_data_keys = [''unused-load-data-key'']"
| "rule_aliases prop_drilling = [''prop-drilling'']"
| "rule_aliases thin_wrapper = [''thin-wrapper'']"
| "rule_aliases duplicate_prop_shape = [''duplicate-prop-shape'']"
| "rule_aliases unresolved_imports = [''unresolved-import'']"
| "rule_aliases unlisted_dependencies = [''unlisted-dependency'']"
| "rule_aliases duplicate_exports = [''duplicate-export'']"
| "rule_aliases type_only_dependencies = [''type-only-dependency'']"
| "rule_aliases test_only_dependencies = [''test-only-dependency'']"
| "rule_aliases circular_dependencies = [''circular-dependency'']"
| "rule_aliases re_export_cycle = [''re-export-cycles'', ''reexport-cycle'', ''reexport-cycles'']"
| "rule_aliases boundary_violation = [''boundary-violations'']"
| "rule_aliases coverage_gaps = [''coverage-gap'']"
| "rule_aliases feature_flags = [''feature-flag'']"
| "rule_aliases stale_suppressions = [''stale-suppression'']"
| "rule_aliases require_suppression_reason = [''suppression-reason'']"
| "rule_aliases unused_catalog_entries = [''unused-catalog-entry'']"
| "rule_aliases empty_catalog_groups = [''empty-catalog-group'']"
| "rule_aliases unresolved_catalog_references = [''unresolved-catalog-reference'']"
| "rule_aliases unused_dependency_overrides = [''unused-dependency-override'']"
| "rule_aliases misconfigured_dependency_overrides = [''misconfigured-dependency-override'']"
| "rule_aliases security_client_server_leak = []"
| "rule_aliases security_sink = []"
| "rule_aliases policy_violation = [''policy-violations'']"
| "rule_aliases invalid_client_export = [''invalid-client-exports'']"
| "rule_aliases mixed_client_server_barrel = [''mixed-client-server-barrels'']"
| "rule_aliases misplaced_directive = [''misplaced-directives'']"
| "rule_aliases route_collision = [''route-collisions'']"
| "rule_aliases dynamic_segment_name_conflict = [''dynamic-segment-name-conflicts'']"

primrec partial_rule_aliases :: "rule_field \<Rightarrow> string list" where
  "partial_rule_aliases unused_files = [''unused-file'']"
| "partial_rule_aliases unused_exports = [''unused-export'']"
| "partial_rule_aliases unused_types = [''unused-type'']"
| "partial_rule_aliases private_type_leaks = [''private-type-leak'']"
| "partial_rule_aliases unused_dependencies = [''unused-dependency'']"
| "partial_rule_aliases unused_dev_dependencies = [''unused-dev-dependency'']"
| "partial_rule_aliases unused_optional_dependencies = [''unused-optional-dependency'']"
| "partial_rule_aliases unused_enum_members = [''unused-enum-member'']"
| "partial_rule_aliases unused_class_members = [''unused-class-member'']"
| "partial_rule_aliases unused_store_members = [''unused-store-member'']"
| "partial_rule_aliases unprovided_injects = [''unprovided-inject'']"
| "partial_rule_aliases unrendered_components = [''unrendered-component'']"
| "partial_rule_aliases unused_component_props = [''unused-component-prop'']"
| "partial_rule_aliases unused_component_emits = [''unused-component-emit'']"
| "partial_rule_aliases unused_component_inputs = [''unused-component-input'']"
| "partial_rule_aliases unused_component_outputs = [''unused-component-output'']"
| "partial_rule_aliases unused_svelte_events = [''unused-svelte-event'']"
| "partial_rule_aliases unused_server_actions = [''unused-server-action'']"
| "partial_rule_aliases unused_load_data_keys = [''unused-load-data-key'']"
| "partial_rule_aliases prop_drilling = [''prop-drilling'']"
| "partial_rule_aliases thin_wrapper = [''thin-wrapper'']"
| "partial_rule_aliases duplicate_prop_shape = [''duplicate-prop-shape'']"
| "partial_rule_aliases unresolved_imports = [''unresolved-import'']"
| "partial_rule_aliases unlisted_dependencies = [''unlisted-dependency'']"
| "partial_rule_aliases duplicate_exports = [''duplicate-export'']"
| "partial_rule_aliases type_only_dependencies = [''type-only-dependency'']"
| "partial_rule_aliases test_only_dependencies = [''test-only-dependency'']"
| "partial_rule_aliases circular_dependencies = [''circular-dependency'']"
| "partial_rule_aliases re_export_cycle = [''re-export-cycles'', ''reexport-cycle'', ''reexport-cycles'']"
| "partial_rule_aliases boundary_violation = [''boundary-violations'']"
| "partial_rule_aliases coverage_gaps = [''coverage-gap'']"
| "partial_rule_aliases feature_flags = [''feature-flag'']"
| "partial_rule_aliases stale_suppressions = [''stale-suppression'']"
| "partial_rule_aliases require_suppression_reason = [''suppression-reason'']"
| "partial_rule_aliases unused_catalog_entries = [''unused-catalog-entry'']"
| "partial_rule_aliases empty_catalog_groups = [''empty-catalog-group'']"
| "partial_rule_aliases unresolved_catalog_references = [''unresolved-catalog-reference'']"
| "partial_rule_aliases unused_dependency_overrides = [''unused-dependency-override'']"
| "partial_rule_aliases misconfigured_dependency_overrides = [''misconfigured-dependency-override'']"
| "partial_rule_aliases security_client_server_leak = []"
| "partial_rule_aliases security_sink = []"
| "partial_rule_aliases policy_violation = [''policy-violations'']"
| "partial_rule_aliases invalid_client_export = [''invalid-client-exports'']"
| "partial_rule_aliases mixed_client_server_barrel = [''mixed-client-server-barrels'']"
| "partial_rule_aliases misplaced_directive = [''misplaced-directives'']"
| "partial_rule_aliases route_collision = [''route-collisions'']"
| "partial_rule_aliases dynamic_segment_name_conflict = [''dynamic-segment-name-conflicts'']"

section \<open>Layering\<close>

text \<open>
  \<^verbatim>\<open>apply_partial\<close>: five macro calls, each expanding to one conditional assignment per
  listed field.
\<close>

definition apply_partial_rules ::
  "rule_field list \<Rightarrow> PartialRulesConfig \<Rightarrow> RulesConfig \<Rightarrow> RulesConfig" where
  "apply_partial_rules listed partial target =
     fold (\<lambda>f t. case partial f of Some severity \<Rightarrow> t(f := severity) | None \<Rightarrow> t) listed target"

definition apply_partial :: "PartialRulesConfig \<Rightarrow> RulesConfig \<Rightarrow> RulesConfig" where
  "apply_partial partial self =
     (let self = apply_partial_rules [
       unused_files, unused_exports, unused_types, private_type_leaks, unused_dependencies,
       unused_dev_dependencies, unused_optional_dependencies] partial self;
          self = apply_partial_rules [
       unused_enum_members, unused_class_members, unused_store_members, unprovided_injects,
       unrendered_components, unused_component_props, unused_component_emits,
       unused_component_inputs, unused_component_outputs, unused_svelte_events,
       unused_server_actions, unused_load_data_keys, prop_drilling, thin_wrapper,
       duplicate_prop_shape] partial self;
          self = apply_partial_rules [
       unresolved_imports, unlisted_dependencies, duplicate_exports,
       type_only_dependencies, test_only_dependencies, circular_dependencies,
       re_export_cycle, boundary_violation] partial self;
          self = apply_partial_rules [
       coverage_gaps, feature_flags, stale_suppressions, require_suppression_reason,
       unused_catalog_entries, empty_catalog_groups, unresolved_catalog_references,
       unused_dependency_overrides, misconfigured_dependency_overrides] partial self;
          self = apply_partial_rules [
       security_client_server_leak, security_sink, policy_violation, invalid_client_export,
       mixed_client_server_barrel, misplaced_directive, route_collision,
       dynamic_segment_name_conflict] partial self
      in self)"

definition resolve_rules_for_production :: "RulesConfig \<Rightarrow> bool \<Rightarrow> RulesConfig" where
  "resolve_rules_for_production rules production =
     (if production
      then rules(unused_dev_dependencies := Off, unused_optional_dependencies := Off)
      else rules)"

text \<open>
  Glob matching is the \<^verbatim>\<open>globset\<close> crate: a compiled matcher is the predicate it decides
  on the path relative to the root.
\<close>

record ConfigOverride =
  files :: "string list"
  override_rules :: PartialRulesConfig

record ResolvedOverride =
  matchers :: "(string \<Rightarrow> bool) list"
  resolved_rules :: PartialRulesConfig

definition compile_overrides ::
  "(string \<Rightarrow> string \<Rightarrow> bool) \<Rightarrow> ConfigOverride list \<Rightarrow> ResolvedOverride list" where
  "compile_overrides glob overrides = List.map_filter (\<lambda>e.
     let ms = map glob (files e) in
     if ms = [] then None else Some \<lparr>matchers = ms, resolved_rules = override_rules e\<rparr>) overrides"

definition resolve_rules_for_path ::
  "ResolvedOverride list \<Rightarrow> RulesConfig \<Rightarrow> string \<Rightarrow> RulesConfig" where
  "resolve_rules_for_path overrides base relative_str =
     (if overrides = [] then base
      else fold (\<lambda>e rules. if \<exists>m \<in> set (matchers e). m relative_str
                             then apply_partial (resolved_rules e) rules else rules) overrides base)"

section \<open>The rule behind an issue kind\<close>

primrec severity_for_kind :: "RulesConfig \<Rightarrow> IssueKind \<Rightarrow> Severity" where
  "severity_for_kind rules UnusedFile = rules unused_files"
| "severity_for_kind rules UnusedExport = rules unused_exports"
| "severity_for_kind rules UnusedType = rules unused_types"
| "severity_for_kind rules PrivateTypeLeak = rules private_type_leaks"
| "severity_for_kind rules UnusedDependency = rules unused_dependencies"
| "severity_for_kind rules UnusedDevDependency = rules unused_dev_dependencies"
| "severity_for_kind rules UnusedEnumMember = rules unused_enum_members"
| "severity_for_kind rules UnusedClassMember = rules unused_class_members"
| "severity_for_kind rules UnusedStoreMember = rules unused_store_members"
| "severity_for_kind rules UnprovidedInject = rules unprovided_injects"
| "severity_for_kind rules UnresolvedImport = rules unresolved_imports"
| "severity_for_kind rules UnlistedDependency = rules unlisted_dependencies"
| "severity_for_kind rules DuplicateExport = rules duplicate_exports"
| "severity_for_kind rules CircularDependency = rules circular_dependencies"
| "severity_for_kind rules ReExportCycle = rules re_export_cycle"
| "severity_for_kind rules TypeOnlyDependency = rules type_only_dependencies"
| "severity_for_kind rules TestOnlyDependency = rules test_only_dependencies"
| "severity_for_kind rules BoundaryViolation = rules boundary_violation"
| "severity_for_kind rules CoverageGaps = rules coverage_gaps"
| "severity_for_kind rules FeatureFlag = rules feature_flags"
| "severity_for_kind rules StaleSuppression = rules stale_suppressions"
| "severity_for_kind rules PnpmCatalogEntry = rules unused_catalog_entries"
| "severity_for_kind rules EmptyCatalogGroup = rules empty_catalog_groups"
| "severity_for_kind rules UnresolvedCatalogReference = rules unresolved_catalog_references"
| "severity_for_kind rules UnusedDependencyOverride = rules unused_dependency_overrides"
| "severity_for_kind rules MisconfiguredDependencyOverride = rules misconfigured_dependency_overrides"
| "severity_for_kind rules SecurityClientServerLeak = rules security_client_server_leak"
| "severity_for_kind rules SecuritySink = rules security_sink"
| "severity_for_kind rules PolicyViolation = rules policy_violation"
| "severity_for_kind rules InvalidClientExport = rules invalid_client_export"
| "severity_for_kind rules MixedClientServerBarrel = rules mixed_client_server_barrel"
| "severity_for_kind rules MisplacedDirective = rules misplaced_directive"
| "severity_for_kind rules RouteCollision = rules route_collision"
| "severity_for_kind rules DynamicSegmentNameConflict = rules dynamic_segment_name_conflict"
| "severity_for_kind rules UnrenderedComponent = rules unrendered_components"
| "severity_for_kind rules UnusedComponentProp = rules unused_component_props"
| "severity_for_kind rules UnusedComponentEmit = rules unused_component_emits"
| "severity_for_kind rules UnusedComponentInput = rules unused_component_inputs"
| "severity_for_kind rules UnusedComponentOutput = rules unused_component_outputs"
| "severity_for_kind rules UnusedSvelteEvent = rules unused_svelte_events"
| "severity_for_kind rules UnusedServerAction = rules unused_server_actions"
| "severity_for_kind rules UnusedLoadDataKey = rules unused_load_data_keys"
| "severity_for_kind rules PropDrilling = rules prop_drilling"
| "severity_for_kind rules ThinWrapper = rules thin_wrapper"
| "severity_for_kind rules DuplicatePropShape = rules duplicate_prop_shape"
| "severity_for_kind rules Complexity = Error"
| "severity_for_kind rules CodeDuplication = Error"

section \<open>Known names\<close>

definition KNOWN_RULE_NAMES :: "string list" where
  "KNOWN_RULE_NAMES = [
     ''unused-files'', ''unused-exports'', ''unused-types'', ''private-type-leaks'',
     ''unused-dependencies'', ''unused-dev-dependencies'',
     ''unused-optional-dependencies'', ''unused-enum-members'', ''unused-class-members'',
     ''unused-store-members'', ''unprovided-injects'', ''unrendered-components'',
     ''unused-component-props'', ''unused-component-emits'', ''unused-component-inputs'',
     ''unused-component-outputs'', ''unused-svelte-events'', ''unused-server-actions'',
     ''unused-load-data-keys'', ''prop-drilling'', ''thin-wrapper'',
     ''duplicate-prop-shape'', ''unresolved-imports'', ''unlisted-dependencies'',
     ''duplicate-exports'', ''type-only-dependencies'', ''test-only-dependencies'',
     ''circular-dependencies'', ''re-export-cycle'', ''boundary-violation'',
     ''coverage-gaps'', ''feature-flags'', ''stale-suppressions'',
     ''require-suppression-reason'', ''suppression-reason'', ''unused-catalog-entries'',
     ''empty-catalog-groups'', ''unresolved-catalog-references'',
     ''unused-dependency-overrides'', ''misconfigured-dependency-overrides'',
     ''security-client-server-leak'', ''security-sink'', ''policy-violation'',
     ''policy-violations'', ''invalid-client-export'', ''mixed-client-server-barrel'',
     ''misplaced-directive'', ''route-collision'', ''dynamic-segment-name-conflict'',
     ''unused-file'', ''unused-export'', ''unused-type'', ''private-type-leak'',
     ''unused-dependency'', ''unused-dev-dependency'', ''unused-optional-dependency'',
     ''unused-enum-member'', ''unused-class-member'', ''unused-store-member'',
     ''unprovided-inject'', ''unrendered-component'', ''unused-component-prop'',
     ''unused-component-emit'', ''unused-component-input'', ''unused-component-output'',
     ''unused-svelte-event'', ''unused-server-action'', ''unused-load-data-key'',
     ''unresolved-import'', ''unlisted-dependency'', ''duplicate-export'',
     ''type-only-dependency'', ''test-only-dependency'', ''circular-dependency'',
     ''re-export-cycles'', ''reexport-cycle'', ''reexport-cycles'',
     ''boundary-violations'', ''coverage-gap'', ''feature-flag'', ''stale-suppression'',
     ''unused-catalog-entry'', ''empty-catalog-group'', ''unresolved-catalog-reference'',
     ''unused-dependency-override'', ''misconfigured-dependency-override'',
     ''invalid-client-exports'', ''mixed-client-server-barrels'', ''misplaced-directives'',
     ''route-collisions'', ''dynamic-segment-name-conflicts'']"

section \<open>Facts about the configuration\<close>

lemma in_all_rule_fields [simp, intro!]: "f \<in> set all_rule_fields"
  by (cases f) (simp_all add: all_rule_fields_def)

lemma severity_roundtrip: "severity_from_str (severity_display s) = Inr s"
  by (cases s) (simp_all add: severity_from_str_def to_lowercase_def char_lower_def Let_def)

lemma apply_partial_rules_at:
  "apply_partial_rules fs p r f =
     (if f \<in> set fs then (case p f of Some s \<Rightarrow> s | None \<Rightarrow> r f) else r f)"
  by (induction fs arbitrary: r)
    (auto simp: apply_partial_rules_def split: option.splits)

lemma apply_partial_layers:
  "apply_partial p r f = (case p f of Some s \<Rightarrow> s | None \<Rightarrow> r f)"
  by (cases f) (simp_all add: apply_partial_def apply_partial_rules_at split: option.split)

text \<open>Applying a partial configuration overrides every rule it sets and no other: none of
  the fields is missing from the five lists of assignments.\<close>

theorem apply_partial_is_override:
  "apply_partial p r = (\<lambda>f. case p f of Some s \<Rightarrow> s | None \<Rightarrow> r f)"
  by (rule ext) (rule apply_partial_layers)

definition override_sets :: "string \<Rightarrow> rule_field \<Rightarrow> ResolvedOverride \<Rightarrow> bool" where
  "override_sets path f e \<longleftrightarrow> (\<exists>m \<in> set (matchers e). m path) \<and> resolved_rules e f \<noteq> None"

lemma resolve_fold:
  "fold (\<lambda>e rules. if \<exists>m \<in> set (matchers e). m path then apply_partial (resolved_rules e) rules else rules)
     ovs base f =
   (case find (override_sets path f) (rev ovs) of
      Some e \<Rightarrow> the (resolved_rules e f) | None \<Rightarrow> base f)"
proof (induction ovs rule: rev_induct)
  case Nil
  then show ?case by simp
next
  case (snoc e ovs)
  then show ?case
    by (auto simp: override_sets_def apply_partial_layers split: option.splits)
qed

text \<open>The effective severity of a rule for a file is the one set by the last matching
  override that sets it, and the base severity when no matching override does.\<close>

theorem resolve_rules_last_override_wins:
  "resolve_rules_for_path ovs base path f =
     (case find (override_sets path f) (rev ovs) of
        Some e \<Rightarrow> the (resolved_rules e f) | None \<Rightarrow> base f)"
  unfolding resolve_rules_for_path_def by (cases "ovs = []") (simp_all add: resolve_fold)

lemma production_only_dependencies:
  "resolve_rules_for_production r p f \<noteq> r f \<Longrightarrow>
     p \<and> f \<in> {unused_dev_dependencies, unused_optional_dependencies}"
  by (auto simp: resolve_rules_for_production_def split: if_splits)

text \<open>
  C32. A \<^verbatim>\<open>rules\<close> object, even an empty one, changes the severity of the rules it does
  not mention: exactly these nine rules get \<^verbatim>\<open>Error\<close> from their field attribute
  although the default configuration has \<^verbatim>\<open>Warn\<close> (or \<^verbatim>\<open>Off\<close> for coverage gaps).\<close>

theorem empty_rules_object_is_not_the_default:
  "{f. config_rules (Some Map.empty) f \<noteq> config_rules None f} =
   {unused_store_members, unprovided_injects, unrendered_components, unused_component_props,
    unused_component_emits, unused_component_inputs, unused_component_outputs,
    unused_server_actions, coverage_gaps}"
proof -
  have "config_rules (Some Map.empty) f \<noteq> config_rules None f \<longleftrightarrow>
    f \<in> {unused_store_members, unprovided_injects, unrendered_components, unused_component_props,
      unused_component_emits, unused_component_inputs, unused_component_outputs,
      unused_server_actions, coverage_gaps}" for f
    by (cases f) (simp_all add: config_rules_def rules_from_object_def)
  then show ?thesis by blast
qed

lemma partial_aliases_agree: "partial_rule_aliases f = rule_aliases f"
  by (cases f) simp_all

definition rule_keys :: "rule_field \<Rightarrow> string list" where
  "rule_keys f = rule_name f # rule_aliases f"

lemma rule_keys_distinct:
  "distinct (concat (map (\<lambda>f. remdups (rule_keys f)) all_rule_fields))"
  by code_simp

lemma rule_keys_unambiguous: "k \<in> set (rule_keys f) \<Longrightarrow> k \<in> set (rule_keys g) \<Longrightarrow> f = g"
  by (rule distinct_concat_map_owner [OF rule_keys_distinct]) auto

text \<open>The known names and the keys, each as positions in the other list.\<close>

definition name_positions :: "nat list" where
  "name_positions = [
     0, 2, 4, 6, 8, 10, 12, 14, 16, 18, 20, 22, 24, 26, 28, 30, 32, 34, 36, 38, 40, 42, 44,
     46, 48, 50, 52, 54, 56, 60, 62, 64, 66, 68, 69, 70, 72, 74, 76, 78, 80, 81, 82, 83,
     84, 86, 88, 90, 92, 1, 3, 5, 7, 9, 11, 13, 15, 17, 19, 21, 23, 25, 27, 29, 31, 33, 35,
     37, 45, 47, 49, 51, 53, 55, 57, 58, 59, 61, 63, 65, 67, 71, 73, 75, 77, 79, 85, 87,
     89, 91, 93]"

definition key_positions :: "nat list" where
  "key_positions = [
     0, 49, 1, 50, 2, 51, 3, 52, 4, 53, 5, 54, 6, 55, 7, 56, 8, 57, 9, 58, 10, 59, 11, 60,
     12, 61, 13, 62, 14, 63, 15, 64, 16, 65, 17, 66, 18, 67, 19, 19, 20, 20, 21, 21, 22,
     68, 23, 69, 24, 70, 25, 71, 26, 72, 27, 73, 28, 74, 75, 76, 29, 77, 30, 78, 31, 79,
     32, 80, 33, 34, 35, 81, 36, 82, 37, 83, 38, 84, 39, 85, 40, 41, 42, 43, 44, 86, 45,
     87, 46, 88, 47, 89, 48, 90]"

lemma known_rule_names_listed:
  "KNOWN_RULE_NAMES =
     (let ks = concat (map rule_keys all_rule_fields) in map (\<lambda>i. ks ! i) name_positions)"
  by code_simp

lemma rule_keys_listed:
  "concat (map rule_keys all_rule_fields) =
     (let ns = KNOWN_RULE_NAMES in map (\<lambda>i. ns ! i) key_positions)"
  by code_simp

lemma positions_in_range:
  "list_all (\<lambda>i. i < length (concat (map rule_keys all_rule_fields))) name_positions"
  "list_all (\<lambda>i. i < length KNOWN_RULE_NAMES) key_positions"
  by code_simp+

lemma known_rule_names_set: "set KNOWN_RULE_NAMES = set (concat (map rule_keys all_rule_fields))"
proof
  show "set KNOWN_RULE_NAMES \<subseteq> set (concat (map rule_keys all_rule_fields))"
    using positions_in_range(1)
    by (subst known_rule_names_listed) (auto simp only: Let_def set_map list_all_iff nth_mem)
  show "set (concat (map rule_keys all_rule_fields)) \<subseteq> set KNOWN_RULE_NAMES"
    using positions_in_range(2)
    by (subst rule_keys_listed) (auto simp only: Let_def set_map list_all_iff nth_mem)
qed

text \<open>A key of a \<^verbatim>\<open>rules\<close> object is recognised by the typo check exactly when it is
  the name or an alias of some rule, and it then belongs to one rule only.\<close>

theorem known_rule_names_are_the_keys:
  "k \<in> set KNOWN_RULE_NAMES \<longleftrightarrow> (\<exists>!f. k \<in> set (rule_keys f))"
proof -
  have "set KNOWN_RULE_NAMES = set (concat (map rule_keys all_rule_fields))"
    by (rule known_rule_names_set)
  also have "\<dots> = (\<Union>f. set (rule_keys f))" by auto
  finally show ?thesis using rule_keys_unambiguous by blast
qed

end
