(* ===== verification/Typo_Suggestions.thy ===== *)
theory Typo_Suggestions
  imports Suppressions Rules_Config
begin

text \<open>
  The "did you mean" suggestions: the two-row Levenshtein distance, which the types crate
  (\<^verbatim>\<open>crates/types/src/suppress.rs\<close>) and the config crate (\<^verbatim>\<open>crates/config/src/levenshtein.rs\<close>)
  both carry, and the two searches over known names that use it.  The routine is proved to
  compute the least cost of an edit script.  Strings are read as their bytes here, as the code
  does.
\<close>

section \<open>The distance\<close>

text \<open>One cell, and the inner loop: one row, written over the row of two iterations before.\<close>

definition levenshtein_cell ::
  "string \<Rightarrow> string \<Rightarrow> nat \<Rightarrow> nat list \<Rightarrow> nat \<Rightarrow> nat list \<Rightarrow> nat list" where
  "levenshtein_cell a b i prev j row =
     (let cost = (if a ! (i - 1) \<noteq> b ! (j - 1) then 1 else 0)
      in row[j := min (min (prev ! j + 1) (row ! (j - 1) + 1)) (prev ! (j - 1) + cost)])"

definition levenshtein_row ::
  "string \<Rightarrow> string \<Rightarrow> nat \<Rightarrow> nat list \<Rightarrow> nat list \<Rightarrow> nat list" where
  "levenshtein_row a b i prev row =
     fold (levenshtein_cell a b i prev) [1..<length b + 1] (row[0 := i])"

definition levenshtein_rows :: "string \<Rightarrow> string \<Rightarrow> nat list \<times> nat list" where
  "levenshtein_rows a b =
     fold (\<lambda>i (prev, row). (levenshtein_row a b i prev row, prev))
       [1..<length a + 1] ([0..<length b + 1], replicate (length b + 1) 0)"

definition levenshtein :: "string \<Rightarrow> string \<Rightarrow> nat" where
  "levenshtein a b =
     (if a = [] then length b
      else if b = [] then length a
      else fst (levenshtein_rows a b) ! length b)"

section \<open>The searches\<close>

definition better_candidate ::
  "(string \<Rightarrow> nat) \<Rightarrow> string \<Rightarrow> (string \<times> nat) option \<Rightarrow> (string \<times> nat) option" where
  "better_candidate dist c best =
     (let d = dist c
      in case best of
           None \<Rightarrow> Some (c, d)
         | Some (_, b_dist) \<Rightarrow> if d < b_dist then Some (c, d) else best)"

definition accept_candidate :: "string \<Rightarrow> (string \<times> nat) option \<Rightarrow> string option" where
  "accept_candidate input best =
     (case best of
        None \<Rightarrow> None
      | Some (name, d) \<Rightarrow> if d > 0 \<and> d \<le> 2 \<and> length input div 2 > d then Some name else None)"

definition closest_known_kind_name :: "string \<Rightarrow> string option" where
  "closest_known_kind_name input =
     (let input_lower = to_ascii_lowercase input
      in accept_candidate input_lower
           (fold (better_candidate (levenshtein input_lower)) KNOWN_ISSUE_KIND_NAMES None))"

definition closest_match :: "string \<Rightarrow> string list \<Rightarrow> string option" where
  "closest_match input candidates =
     (let input_lower = to_ascii_lowercase input
      in accept_candidate input_lower
           (fold (better_candidate (\<lambda>c. levenshtein input_lower (to_ascii_lowercase c))) candidates None))"

definition closest_known_rule_name :: "string \<Rightarrow> string option" where
  "closest_known_rule_name input =
     (let input_lower = to_ascii_lowercase input
      in Option.bind (closest_match input_lower KNOWN_RULE_NAMES)
           (\<lambda>suggestion. find (\<lambda>c. c = suggestion) KNOWN_RULE_NAMES))"

record UnknownRuleKey =
  key_context :: string
  key_name :: string
  suggestion :: "string option"

text \<open>A JSON value is represented by the keys of the object it is, if it is one.\<close>

definition find_unknown_rule_keys :: "string list option \<Rightarrow> string \<Rightarrow> UnknownRuleKey list" where
  "find_unknown_rule_keys object context =
     (case object of
        None \<Rightarrow> []
      | Some keys \<Rightarrow>
          map (\<lambda>k. \<lparr>key_context = context, key_name = k, suggestion = closest_known_rule_name k\<rparr>)
            (filter (\<lambda>k. k \<notin> set KNOWN_RULE_NAMES) keys))"

section \<open>Edit scripts\<close>

text \<open>\<open>edits n xs ys\<close>: some script turns \<open>xs\<close> into \<open>ys\<close> with \<open>n\<close> insertions, deletions and
  substitutions.\<close>

inductive edits :: "nat \<Rightarrow> 'a list \<Rightarrow> 'a list \<Rightarrow> bool" where
  empty: "edits 0 [] []"
| keep: "edits n xs ys \<Longrightarrow> edits n (x # xs) (x # ys)"
| substitute: "edits n xs ys \<Longrightarrow> edits (Suc n) (x # xs) (y # ys)"
| delete: "edits n xs ys \<Longrightarrow> edits (Suc n) (x # xs) ys"
| insert: "edits n xs ys \<Longrightarrow> edits (Suc n) xs (y # ys)"

inductive_cases edits_NilE: "edits n [] ys"

lemma edits_refl: "edits 0 xs xs"
  by (induction xs) (auto intro: edits.intros)

lemma edits_append: "edits m xs ys \<Longrightarrow> edits n us vs \<Longrightarrow> edits (m + n) (xs @ us) (ys @ vs)"
  by (induction rule: edits.induct) (auto intro: edits.intros)

lemma edits_rev: "edits n xs ys \<Longrightarrow> edits n (rev xs) (rev ys)"
proof (induction rule: edits.induct)
  case empty
  then show ?case by (simp add: edits.empty)
next
  case (keep n xs ys x)
  then show ?case using edits_append [OF keep.IH edits_refl [of "[x]"]] by simp
next
  case (substitute n xs ys x y)
  then show ?case
    using edits_append [OF substitute.IH edits.substitute [OF edits.empty, of x y]] by simp
next
  case (delete n xs ys x)
  then show ?case
    using edits_append [OF delete.IH edits.delete [OF edits.empty, of x]] by simp
next
  case (insert n xs ys y)
  then show ?case
    using edits_append [OF insert.IH edits.insert [OF edits.empty, of y]] by simp
qed

lemma edits_sym: "edits n xs ys \<Longrightarrow> edits n ys xs"
  by (induction rule: edits.induct) (auto intro: edits.intros)

fun edit_distance :: "'a list \<Rightarrow> 'a list \<Rightarrow> nat" where
  "edit_distance [] ys = length ys"
| "edit_distance xs [] = length xs"
| "edit_distance (x # xs) (y # ys) =
     min (min (edit_distance xs (y # ys) + 1) (edit_distance (x # xs) ys + 1))
       (edit_distance xs ys + (if x \<noteq> y then 1 else 0))"

lemma edit_distance_Nil2 [simp]: "edit_distance xs [] = length xs"
  by (cases xs) auto

lemma edits_from_Nil: "edits (length ys) [] ys"
  by (induction ys) (auto intro: edits.intros)

lemma min3_cases:
  "m = min (min (a + 1) (b + 1)) (c + (if x \<noteq> y then 1 else 0)) \<Longrightarrow>
     m = Suc a \<or> m = Suc b \<or> (x = y \<and> m = c) \<or> m = Suc (c :: nat)"
  by (auto simp: min_def split: if_splits)

lemma edits_edit_distance: "edits (edit_distance xs ys) xs ys"
proof (induction xs ys rule: edit_distance.induct)
  case (3 x xs y ys)
  consider "edit_distance (x # xs) (y # ys) = Suc (edit_distance xs (y # ys))"
    | "edit_distance (x # xs) (y # ys) = Suc (edit_distance (x # xs) ys)"
    | "x = y" "edit_distance (x # xs) (y # ys) = edit_distance xs ys"
    | "edit_distance (x # xs) (y # ys) = Suc (edit_distance xs ys)"
    using min3_cases [OF edit_distance.simps(3) [of x xs y ys]] by blast
  then show ?case
  proof cases
    case 1
    with 3 show ?thesis by (auto simp del: edit_distance.simps intro: edits.delete)
  next
    case 2
    with 3 show ?thesis by (auto simp del: edit_distance.simps intro: edits.insert)
  next
    case c: 3
    with 3 show ?thesis by (auto simp del: edit_distance.simps intro: edits.keep)
  next
    case 4
    with 3 show ?thesis by (auto simp del: edit_distance.simps intro: edits.substitute)
  qed
next
  case (1 ys)
  then show ?case by (simp add: edits_from_Nil)
next
  case (2 x xs)
  then show ?case using edits_sym [OF edits_from_Nil [of "x # xs"]] by simp
qed

lemma edit_distance_le: "edits n xs ys \<Longrightarrow> edit_distance xs ys \<le> n"
proof (induction rule: edits.induct)
  case (delete n xs ys x)
  then show ?case by (cases ys) auto
next
  case (insert n xs ys y)
  then show ?case by (cases xs) auto
qed auto

lemma edit_distance_rev: "edit_distance (rev xs) (rev ys) = edit_distance xs ys"
proof (rule antisym)
  show "edit_distance (rev xs) (rev ys) \<le> edit_distance xs ys"
    by (intro edit_distance_le edits_rev edits_edit_distance)
  have "edits (edit_distance (rev xs) (rev ys)) (rev (rev xs)) (rev (rev ys))"
    by (intro edits_rev edits_edit_distance)
  then show "edit_distance xs ys \<le> edit_distance (rev xs) (rev ys)"
    by (simp add: edit_distance_le)
qed

lemma edit_distance_snoc:
  "edit_distance (xs @ [x]) (ys @ [y]) =
     min (min (edit_distance xs (ys @ [y]) + 1) (edit_distance (xs @ [x]) ys + 1))
       (edit_distance xs ys + (if x \<noteq> y then 1 else 0))"
proof -
  note rev = edit_distance_rev [of "xs @ [x]" "ys @ [y]"] edit_distance_rev [of xs "ys @ [y]"]
    edit_distance_rev [of "xs @ [x]" ys] edit_distance_rev [of xs ys]
  show ?thesis
    unfolding rev [symmetric] rev_append rev.simps append_Nil append_Cons
    by (rule edit_distance.simps(3))
qed

section \<open>The routine computes the distance\<close>

text \<open>Row \<open>i\<close> holds the distances from the first \<open>i\<close> bytes of \<open>a\<close> to the prefixes of \<open>b\<close>.\<close>

definition is_row :: "string \<Rightarrow> string \<Rightarrow> nat \<Rightarrow> nat \<Rightarrow> nat list \<Rightarrow> bool" where
  "is_row a b i n r \<longleftrightarrow> length r = length b + 1 \<and>
     (\<forall>j<n. r ! j = edit_distance (take i a) (take j b))"

lemma is_row_update:
  "is_row a b i (Suc n) r \<Longrightarrow> Suc n \<le> length b \<Longrightarrow>
     is_row a b i (Suc (Suc n)) (r[Suc n := edit_distance (take i a) (take (Suc n) b)])"
  by (auto simp: is_row_def nth_list_update)

lemma levenshtein_cell_correct:
  assumes "is_row a b i (length b + 1) prev" "is_row a b (Suc i) (Suc n) r" "i < length a"
    "n < length b"
  shows "levenshtein_cell a b (Suc i) prev (Suc n) r =
    r[Suc n := edit_distance (take (Suc i) a) (take (Suc n) b)]"
proof -
  have "r ! n = edit_distance (take (Suc i) a) (take n b)"
    "prev ! Suc n = edit_distance (take i a) (take (Suc n) b)"
    "prev ! n = edit_distance (take i a) (take n b)"
    using assms by (auto simp: is_row_def)
  moreover have "take (Suc i) a = take i a @ [a ! i]" "take (Suc n) b = take n b @ [b ! n]"
    using assms(3,4) by (auto simp: take_Suc_conv_app_nth)
  ultimately show ?thesis
    by (simp only: levenshtein_cell_def Let_def diff_Suc_1 edit_distance_snoc)
qed

lemma levenshtein_row_prefix:
  assumes "is_row a b i (length b + 1) prev" "length row = length b + 1" "i < length a"
    "n \<le> length b"
  shows "is_row a b (Suc i) (Suc n)
    (fold (levenshtein_cell a b (Suc i) prev) [1..<n + 1] (row[0 := Suc i]))"
  using assms(4)
proof (induction n)
  case 0
  with assms show ?case by (simp add: is_row_def)
next
  case (Suc n)
  then show ?case
    using levenshtein_cell_correct [OF assms(1) _ assms(3), of n]
    by (simp add: is_row_update)
qed

lemma levenshtein_row_correct:
  assumes "is_row a b i (length b + 1) prev" "length row = length b + 1" "i < length a"
  shows "is_row a b (Suc i) (length b + 1) (levenshtein_row a b (Suc i) prev row)"
  using levenshtein_row_prefix [OF assms order_refl] by (simp add: levenshtein_row_def)

lemma levenshtein_rows_prefix:
  assumes "n \<le> length a"
  shows "case fold (\<lambda>i (prev, row). (levenshtein_row a b i prev row, prev)) [1..<n + 1]
      ([0..<length b + 1], replicate (length b + 1) 0) of
    (prev, row) \<Rightarrow> is_row a b n (length b + 1) prev \<and> length row = length b + 1"
  using assms
proof (induction n)
  case 0
  then show ?case by (auto simp: is_row_def nth_append less_Suc_eq)
next
  case (Suc n)
  let ?g = "\<lambda>i (prev, row). (levenshtein_row a b i prev row, prev)"
  obtain p c where pc: "fold ?g [1..<n + 1] ([0..<length b + 1], replicate (length b + 1) 0) = (p, c)"
    by fastforce
  have "fold ?g [1..<Suc n + 1] st = ?g (Suc n) (fold ?g [1..<n + 1] st)" for st by simp
  moreover have "is_row a b n (length b + 1) p" "length c = length b + 1"
    using Suc pc by auto
  ultimately show ?case
    using levenshtein_row_correct [of a b n p c] Suc.prems pc by (simp add: is_row_def)
qed

lemma levenshtein_edit_distance: "levenshtein a b = edit_distance a b"
proof -
  obtain p c where pc: "levenshtein_rows a b = (p, c)" by fastforce
  then have "is_row a b (length a) (length b + 1) p"
    using levenshtein_rows_prefix [of "length a" a b] by (simp add: levenshtein_rows_def)
  then have "p ! length b = edit_distance a b" by (simp add: is_row_def)
  with pc show ?thesis by (simp add: levenshtein_def)
qed

text \<open>C33. The two-row routine returns the least number of single-byte insertions, deletions
  and substitutions that turn one string into the other.\<close>

theorem levenshtein_least_edits:
  "edits (levenshtein a b) a b \<and> (\<forall>n. edits n a b \<longrightarrow> levenshtein a b \<le> n)"
  by (simp add: levenshtein_edit_distance edits_edit_distance edit_distance_le)

theorem levenshtein_least_edits_witness:
  "levenshtein ''cat'' ''act'' = 2 \<and> edits 2 ''cat'' ''act''"
proof -
  have two: "levenshtein ''cat'' ''act'' = 2"
    unfolding levenshtein_edit_distance by simp
  show ?thesis
    using levenshtein_least_edits [of "''cat''" "''act''", THEN conjunct1] by (simp only: two)
qed

section \<open>The searches find the first closest name\<close>

definition first_closest :: "(string \<Rightarrow> nat) \<Rightarrow> string list \<Rightarrow> string \<Rightarrow> bool" where
  "first_closest dist names c \<longleftrightarrow>
     (\<exists>i<length names. names ! i = c \<and> (\<forall>j<i. dist c < dist (names ! j)) \<and>
        (\<forall>j<length names. dist c \<le> dist (names ! j)))"

lemma first_closest_Nil [simp]: "\<not> first_closest dist [] c"
  by (simp add: first_closest_def)

lemma first_closest_snoc:
  assumes "first_closest dist names b" "dist b \<le> dist c"
  shows "first_closest dist (names @ [c]) b"
proof -
  from assms(1) obtain i where "i < length names" "names ! i = b"
    "\<forall>j<i. dist b < dist (names ! j)" "\<forall>j<length names. dist b \<le> dist (names ! j)"
    by (auto simp: first_closest_def)
  with assms(2) show ?thesis
    unfolding first_closest_def by (intro exI [of _ i]) (auto simp: nth_append less_Suc_eq)
qed

lemma first_closest_new:
  assumes "first_closest dist names b" "dist c < dist b"
  shows "first_closest dist (names @ [c]) c"
proof -
  have "dist c < dist (names ! j)" if "j < length names" for j
    using assms that unfolding first_closest_def by (meson le_less_trans less_le_trans)
  then show ?thesis
    unfolding first_closest_def
    by (intro exI [of _ "length names"]) (auto simp: nth_append less_Suc_eq intro: less_imp_le)
qed

lemma first_closest_unique:
  "first_closest dist names b \<Longrightarrow> first_closest dist names c \<Longrightarrow> b = c"
  unfolding first_closest_def by (metis linorder_neqE_nat not_less)

lemma better_candidate_None [simp]: "better_candidate dist c None = Some (c, dist c)"
  by (simp add: better_candidate_def)

lemma better_candidate_Some [simp]:
  "better_candidate dist c (Some (b, d)) = (if dist c < d then Some (c, dist c) else Some (b, d))"
  by (simp add: better_candidate_def)

lemma fold_better_candidate:
  "case fold (better_candidate dist) names None of
     None \<Rightarrow> names = []
   | Some (c, d) \<Rightarrow> first_closest dist names c \<and> d = dist c"
proof (induction names rule: rev_induct)
  case Nil
  then show ?case by simp
next
  case (snoc c names)
  show ?case
  proof (cases "fold (better_candidate dist) names None")
    case None
    with snoc show ?thesis by (simp add: first_closest_def)
  next
    case (Some p)
    then obtain b d where p: "fold (better_candidate dist) names None = Some (b, d)"
      by (cases p) auto
    with snoc have "first_closest dist names b" "d = dist b" by auto
    with p show ?thesis
      by (auto intro: first_closest_snoc first_closest_new)
  qed
qed

lemma accept_candidate_fold:
  "accept_candidate input (fold (better_candidate dist) names None) = Some c \<longleftrightarrow>
     first_closest dist names c \<and> 0 < dist c \<and> dist c \<le> 2 \<and> dist c < length input div 2"
  using fold_better_candidate [of names dist]
  by (cases "fold (better_candidate dist) names None")
    (auto simp: accept_candidate_def split: if_splits dest: first_closest_unique)

text \<open>A typo suggestion is the first known name at the least edit distance from the
  lower-cased input, and is made exactly when that distance is one or two and less than half
  the length of the input.\<close>

theorem closest_known_kind_name_spec:
  "closest_known_kind_name input = Some name \<longleftrightarrow>
     first_closest (edit_distance (to_ascii_lowercase input)) KNOWN_ISSUE_KIND_NAMES name \<and>
     edit_distance (to_ascii_lowercase input) name \<in> {1, 2} \<and>
     edit_distance (to_ascii_lowercase input) name < length input div 2"
proof -
  have "(\<lambda>c. levenshtein (to_ascii_lowercase input) c) = edit_distance (to_ascii_lowercase input)"
    by (rule ext) (rule levenshtein_edit_distance)
  moreover have "length (to_ascii_lowercase input) = length input"
    by (simp add: to_ascii_lowercase_def)
  ultimately show ?thesis
    by (auto simp: closest_known_kind_name_def Let_def accept_candidate_fold)
qed

text \<open>No unknown key of a rules object is a key the configuration knows, every key
  outside the known ones is reported once per occurrence and in order, and what is suggested
  for it is itself a known key.\<close>

theorem unknown_rule_keys_are_reported:
  "map key_name (find_unknown_rule_keys (Some keys) context) =
     filter (\<lambda>k. k \<notin> set KNOWN_RULE_NAMES) keys \<and>
   list_all (\<lambda>u. key_context u = context \<and> set_option (suggestion u) \<subseteq> set KNOWN_RULE_NAMES)
     (find_unknown_rule_keys (Some keys) context)"
proof -
  have "set_option (closest_known_rule_name k) \<subseteq> set KNOWN_RULE_NAMES" for k
    by (auto simp: closest_known_rule_name_def find_Some_iff split: option.splits
        Option.bind_splits)
  then show ?thesis by (auto simp: find_unknown_rule_keys_def comp_def list_all_iff)
qed

end
