(* ===== verification/Stale_Suppressions.thy ===== *)
theory Stale_Suppressions
  imports Typo_Suggestions
begin

text \<open>
  Stale-suppression findings: the typed actions of \<^verbatim>\<open>crates/types/src/output.rs\<close> that they
  carry, the finding itself and its rendering from \<^verbatim>\<open>crates/types/src/results.rs\<close>.  A finding
  about a comment renders the comment back, so its description is related to the parser.
\<close>

section \<open>Actions\<close>

datatype FixActionType =
    RemoveExport | DeleteFile | RemoveDependency | MoveDependency | RemoveEnumMember
  | RemoveClassMember | ResolveImport | InstallDependency | RemoveDuplicate | MoveToDev
  | RefactorCycle | RefactorReExportCycle | RefactorBoundary | ExportType | RemoveCatalogEntry
  | RemoveEmptyCatalogGroup | UpdateCatalogReference | AddCatalogEntry | RemoveCatalogReference
  | RemoveDependencyOverride | FixDependencyOverride | ResolvePolicyViolation
  | MoveToServerModule | SplitMixedBarrel | HoistDirective | WireServerAction | ProvideInject
  | UseLoadData | RenderComponent | UseComponentProp | EmitComponentEvent | WireSvelteEvent
  | ResolveRouteCollision | ResolveDynamicSegmentNameConflict | AddSuppressionReason
  | RemoveStaleSuppression

record FixAction =
  fix_kind :: FixActionType
  fix_auto_fixable :: bool
  fix_description :: string
  fix_note :: "string option"
  available_in_catalogs :: "string list option"
  suggested_target :: "string option"

datatype SuppressLineKind = SuppressLine
datatype SuppressLineScope = PerLocation
datatype SuppressFileKind = SuppressFile

record SuppressLineAction =
  line_kind :: SuppressLineKind
  line_auto_fixable :: bool
  line_description :: string
  comment :: string
  scope :: "SuppressLineScope option"

record SuppressFileAction =
  file_kind :: SuppressFileKind
  file_auto_fixable :: bool
  file_description :: string
  file_comment :: string

datatype AddToConfigKind = AddToConfig

record IgnoreExportsRule =
  rule_file :: string
  exports :: "string list"

text \<open>A free-form JSON object is the type variable \<open>'json\<close>.\<close>

datatype 'json AddToConfigValue =
    Scalar string
  | ExportsRules "IgnoreExportsRule list"
  | RuleObject 'json

record 'json AddToConfigAction =
  config_kind :: AddToConfigKind
  config_auto_fixable :: bool
  config_description :: string
  config_entry :: string
  config_value :: "'json AddToConfigValue"
  value_schema :: "string option"

datatype 'json IssueAction =
    FixA FixAction
  | SuppressLineA SuppressLineAction
  | SuppressFileA SuppressFileAction
  | AddToConfigA "'json AddToConfigAction"

section \<open>Findings\<close>

datatype SuppressionOrigin =
    CommentOrigin (origin_kind: "string option") (origin_reason: "string option")
      (origin_file_level: bool) (origin_kind_known: bool)
  | JsdocTag (export_name: string) (tag_reason: "string option")

definition actions_for :: "bool \<Rightarrow> 'json IssueAction list" where
  "actions_for missing =
     (let (kind, description) =
        (if missing
         then (AddSuppressionReason, ''Add a human-authored reason after `--` on the suppression'')
         else (RemoveStaleSuppression, ''Remove or update the stale suppression''));
      fix_entry = FixA \<lparr>fix_kind = kind, fix_auto_fixable = False, fix_description = description,
        fix_note = None, available_in_catalogs = None, suggested_target = None\<rparr>
      in fix_entry #
         (if missing then []
          else [SuppressLineA \<lparr>line_kind = SuppressLine, line_auto_fixable = False,
            line_description =
              ''Suppress this stale suppression finding with a comment above the suppression'',
            comment = ''// fallow-ignore-next-line stale-suppression'',
            scope = Some PerLocation\<rparr>]))"

record 'json StaleSuppression =
  st_path :: path
  st_line :: nat
  st_col :: nat
  origin :: SuppressionOrigin
  missing_reason :: bool
  actions :: "'json IssueAction list"

definition stale_description :: "'json StaleSuppression \<Rightarrow> string" where
  "stale_description s = (case origin s of
     CommentOrigin kind rsn file_level known \<Rightarrow>
       (let directive = (if file_level then ''fallow-ignore-file'' else ''fallow-ignore-next-line'')
        in case kind of
             Some k \<Rightarrow>
               (case rsn of
                  Some r \<Rightarrow> ''// '' @ directive @ '' '' @ k @ '' -- '' @ r
                | None \<Rightarrow> ''// '' @ directive @ '' '' @ k)
           | None \<Rightarrow>
               (case rsn of
                  Some r \<Rightarrow> ''// '' @ directive @ '' -- '' @ r
                | None \<Rightarrow> ''// '' @ directive))
   | JsdocTag name rsn \<Rightarrow>
       (case rsn of
          Some r \<Rightarrow> ''@expected-unused on '' @ name @ '' -- '' @ r
        | None \<Rightarrow> ''@expected-unused on '' @ name))"

text \<open>The apostrophe, which a string literal cannot hold.\<close>

definition apostrophe :: char where
  "apostrophe = char_of (39 :: nat)"

definition stale_explanation :: "'json StaleSuppression \<Rightarrow> string" where
  "stale_explanation s = (case origin s of
     CommentOrigin kind rsn file_level known \<Rightarrow>
       if missing_reason s then ''suppression is missing a reason''
       else
         (let scope_text = (if file_level then ''in this file'' else ''on the next line'')
          in case kind of
               Some k \<Rightarrow>
                 if \<not> known then
                   (case closest_known_kind_name k of
                      Some suggested \<Rightarrow>
                        [apostrophe] @ k @ [apostrophe] @
                        '' is not a recognized fallow issue kind. Did you mean '' @
                        [apostrophe] @ suggested @ [apostrophe] @
                        ''? Other tokens on this line still apply.''
                    | None \<Rightarrow>
                        [apostrophe] @ k @ [apostrophe] @
                        '' is not a recognized fallow issue kind. Other tokens on this line still apply.'')
                 else ''no '' @ k @ '' issue found '' @ scope_text
             | None \<Rightarrow> ''no issues found '' @ scope_text)
   | JsdocTag name rsn \<Rightarrow>
       if missing_reason s then ''suppression is missing a reason'' else name @ '' is now used'')"

definition suppressed_kind :: "'json StaleSuppression \<Rightarrow> IssueKind option" where
  "suppressed_kind s = (case origin s of
     CommentOrigin kind rsn file_level known \<Rightarrow>
       (if known then Option.bind kind parse_issue_kind else None)
   | JsdocTag name rsn \<Rightarrow> None)"

definition display_message :: "'json StaleSuppression \<Rightarrow> string" where
  "display_message s =
     (let both = stale_description s @ '' ('' @ stale_explanation s @ '')'' in
      case origin s of
        CommentOrigin kind rsn file_level known \<Rightarrow>
          if \<not> known then both else if missing_reason s then both else stale_description s
      | JsdocTag name rsn \<Rightarrow> if missing_reason s then both else stale_description s)"

record ActiveSuppression =
  a_path :: path
  a_kind :: "string option"
  a_is_file_level :: bool
  a_reason :: "string option"


section \<open>A description reads back as its directive\<close>

lemma push_suppressions_target:
  assumes "valid_target t" "\<And>x. r = Some x \<Longrightarrow> trimmed x"
  shows "push_suppressions parsed l cl (marker_body [t] r) =
    parsed\<lparr>suppressions := suppressions parsed @
      [\<lparr>s_line = l, comment_line = cl, target = Some t, reason = r\<rparr>]\<rparr>"
  using push_suppressions_rendered [of "[t]" r] assms by simp

lemma push_suppressions_blanket:
  assumes "\<And>x. r = Some x \<Longrightarrow> trimmed x"
  shows "push_suppressions parsed l cl (case r of None \<Rightarrow> [] | Some x \<Rightarrow> ''-- '' @ x) =
    parsed\<lparr>suppressions := suppressions parsed @
      [\<lparr>s_line = l, comment_line = cl, target = None, reason = r\<rparr>]\<rparr>"
proof (cases r)
  case None
  then show ?thesis
    by (simp add: push_suppressions_def split_suppression_reason_def with_reason_def
        suppression_all_def)
next
  case (Some x)
  with assms have "trimmed x" by simp
  with Some show ?thesis
    by (simp add: push_suppressions_def split_suppression_reason_def with_reason_def
        suppression_all_def is_whitespace_def trim_space trim_end_def) (simp add: trimmed_def)
qed

text \<open>The text after the comment opener, for a target and a reason that may be missing.\<close>

definition directive_body :: "SuppressionTarget option \<Rightarrow> string option \<Rightarrow> string" where
  "directive_body t r = (case t of
     Some u \<Rightarrow> marker_body [u] r
   | None \<Rightarrow> (case r of None \<Rightarrow> [] | Some x \<Rightarrow> ''-- '' @ x))"

definition directive_text ::
  "bool \<Rightarrow> SuppressionTarget option \<Rightarrow> string option \<Rightarrow> string" where
  "directive_text file_level t r =
     (if file_level then ''fallow-ignore-file'' else ''fallow-ignore-next-line'') @
     (if directive_body t r = [] then [] else CHR '' '' # directive_body t r)"

definition well_formed_directive :: "SuppressionTarget option \<Rightarrow> string option \<Rightarrow> bool" where
  "well_formed_directive t r \<longleftrightarrow>
     (\<forall>u. t = Some u \<longrightarrow> valid_target u) \<and>
     (\<forall>x. r = Some x \<longrightarrow> trimmed x \<and> CHR ''\<newline>'' \<notin> set x)"

lemma directive_body_trimmed:
  "well_formed_directive t r \<Longrightarrow> directive_body t r \<noteq> [] \<Longrightarrow> trimmed (directive_body t r)"
proof (cases t)
  case None
  assume "well_formed_directive t r" "directive_body t r \<noteq> []"
  with None show ?thesis
    by (cases r) (auto simp: directive_body_def well_formed_directive_def trimmed_def is_whitespace_def)
next
  case (Some u)
  assume "well_formed_directive t r"
  with Some show ?thesis
    using marker_body_trimmed [of "[u]" r] by (auto simp: directive_body_def well_formed_directive_def)
qed

lemma directive_body_one_line:
  assumes "well_formed_directive t r"
  shows "CHR ''\<newline>'' \<notin> set (directive_body t r)"
proof (cases t)
  case None
  with assms show ?thesis by (auto simp: directive_body_def well_formed_directive_def split: option.split)
next
  case (Some u)
  with assms show ?thesis
    using marker_text_one_line [of "[u]" r]
    by (auto simp: directive_body_def well_formed_directive_def marker_text_def)
qed

lemma push_marker_directive:
  assumes "well_formed_directive t r"
  shows "push_marker parsed cl (directive_text fl t r) =
    parsed\<lparr>suppressions := suppressions parsed @
      [\<lparr>s_line = (if fl then 0 else cl + 1), comment_line = cl, target = t, reason = r\<rparr>]\<rparr>"
proof -
  have rest: "trim (if directive_body t r = [] then [] else CHR '' '' # directive_body t r) =
      directive_body t r"
    using directive_body_trimmed [OF assms] by (simp add: trim_space)
  have body: "push_suppressions parsed l cl (directive_body t r) =
      parsed\<lparr>suppressions := suppressions parsed @
        [\<lparr>s_line = l, comment_line = cl, target = t, reason = r\<rparr>]\<rparr>" for l
  proof (cases t)
    case None
    with assms show ?thesis
      by (simp only: directive_body_def option.case)
        (intro push_suppressions_blanket, simp add: well_formed_directive_def)
  next
    case (Some u)
    with assms show ?thesis
      by (simp add: directive_body_def push_suppressions_target well_formed_directive_def)
  qed
  show ?thesis
    by (cases fl) (simp_all only: push_marker_def directive_text_def if_True if_False
        strip_prefix_append option.case rest body, simp_all add: rest body)
qed

lemma parse_one_comment:
  assumes "trimmed m" "CHR ''\<newline>'' \<notin> set m"
  shows "parse_suppressions_from_source (replicate n (CHR ''\<newline>'') @ ''// '' @ m) =
    push_marker no_suppressions (n + 1) m"
proof -
  have tl: "trimmed (''// '' @ m)"
    using assms by (simp add: trimmed_def is_whitespace_def)
  have cl: "comment_text_of_line (''// '' @ m) = Some m"
    using assms tl by (simp add: comment_text_of_line_def trim_trimmed trim_space)
  have nn: "c \<in> set (''// '' @ m) \<Longrightarrow> c \<noteq> CHR ''\<newline>''" for c
    using assms(2) by auto
  have "str_lines (replicate n (CHR ''\<newline>'') @ ''// '' @ m) = replicate n [] @ [''// '' @ m]"
    by (simp only: str_lines_def Let_def split_on_blank_lines [OF nn])
      (simp add: strip_cr_def butlast_append)
  then show ?thesis
    by (simp add: parse_suppressions_from_source_def enumerate_append_eq parse_lines_blank
        cl [simplified])
qed

lemma target_token_nonempty [simp]: "target_token t \<noteq> []"
  by (cases t) (simp_all add: kebab_shape policy_rule_token_def)

lemma stale_description_directive:
  "origin e = CommentOrigin (map_option target_token t) r fl True \<Longrightarrow>
     stale_description e = ''// '' @ directive_text fl t r"
  by (cases t; cases r) (auto simp: stale_description_def directive_text_def directive_body_def
      marker_body_def Let_def)

text \<open>
  The description of a stale directive, put back as a comment on any line of a file, parses
  to exactly that directive: its scope, target and reason.
\<close>

theorem stale_description_roundtrip:
  assumes "origin e = CommentOrigin (map_option target_token t) r fl True"
    "well_formed_directive t r"
  shows "parse_suppressions_from_source (replicate n (CHR ''\<newline>'') @ stale_description e) =
    \<lparr>suppressions = [\<lparr>s_line = (if fl then 0 else n + 2), comment_line = n + 1,
                      target = t, reason = r\<rparr>],
     unknown_kinds = []\<rparr>"
proof -
  have b: "trimmed (directive_text fl t r)"
    using directive_body_trimmed [OF assms(2)]
    by (auto simp: directive_text_def trimmed_def is_whitespace_def)
  have l: "CHR ''\<newline>'' \<notin> set (directive_text fl t r)"
    using directive_body_one_line [OF assms(2)] by (auto simp: directive_text_def)
  show ?thesis
    using parse_one_comment [OF b l] push_marker_directive [OF assms(2)]
      stale_description_directive [OF assms(1)]
    by (simp add: no_suppressions_def)
qed

theorem stale_description_roundtrip_witness:
  "parse_suppressions_from_source
     (stale_description \<lparr>st_path = [''a.ts''], st_line = 4, st_col = 0,
        origin = CommentOrigin (Some ''unused-export'') (Some ''public api'') True True,
        missing_reason = False, actions = actions_for False :: unit IssueAction list\<rparr>) =
   \<lparr>suppressions = [\<lparr>s_line = 0, comment_line = 1, target = Some (Issue UnusedExport),
                     reason = Some ''public api''\<rparr>],
    unknown_kinds = []\<rparr>"
  by (subst stale_description_roundtrip
      [of _ "Some (Issue UnusedExport)" "Some ''public api''" True 0, simplified])
    (simp_all add: well_formed_directive_def trimmed_def is_whitespace_def)

end
