(* ===== verification/Suppression_Context.thy ===== *)
theory Suppression_Context
  imports Stale_Suppressions "HOL-Library.AList"
begin

text \<open>
  The suppression context of \<^verbatim>\<open>crates/core/src/suppress.rs\<close>: the directives of every file,
  the flags that record which of them silenced something, the queries of the detectors, which
  read the directives and set flags, and the reports made from the flags when all detectors
  have run.  A hash map is an association list with distinct keys, in the (unspecified) order
  its iterator has; the atomic flags are part of the state each query returns.
\<close>

section \<open>What the context reads\<close>

record ModuleInfo =
  file_id :: nat
  m_suppressions :: "Suppression list"
  unknown_suppression_kinds :: "UnknownSuppressionKind list"

record RulePackRule =
  pack_rule_id :: string
  pack_rule_severity :: "Severity option"

record RulePackDef =
  pack_name :: string
  pack_rules :: "RulePackRule list"

record ResolvedConfig =
  root :: path
  rules :: RulesConfig
  overrides :: "ResolvedOverride list"
  rule_packs :: "RulePackDef list"

definition rules_for_path :: "ResolvedConfig \<Rightarrow> path \<Rightarrow> RulesConfig" where
  "rules_for_path config p =
     resolve_rules_for_path (overrides config) (rules config)
       (path_string (case strip_prefix (root config) p of Some r \<Rightarrow> r | None \<Rightarrow> p))"

section \<open>The context\<close>

record SuppressionContext =
  by_file :: "(nat \<times> Suppression list) list"
  used :: "(nat \<times> bool list) list"
  ctx_unknown_kinds :: "(nat \<times> UnknownSuppressionKind list) list"

definition collect_map :: "('a \<times> 'b) list \<Rightarrow> ('a \<times> 'b) list" where
  "collect_map kvs = fold (\<lambda>(k, v). AList.update k v) kvs []"

definition context_new :: "ModuleInfo list \<Rightarrow> SuppressionContext" where
  "context_new modules =
     (let bf = collect_map (map (\<lambda>m. (file_id m, m_suppressions m))
                 (filter (\<lambda>m. m_suppressions m \<noteq> []) modules))
      in \<lparr>by_file = bf,
          used = map (\<lambda>(fid, supps). (fid, replicate (length supps) False)) bf,
          ctx_unknown_kinds = collect_map
            (map (\<lambda>m. (file_id m, unknown_suppression_kinds m))
              (filter (\<lambda>m. unknown_suppression_kinds m \<noteq> []) modules))\<rparr>)"

text \<open>The body the three queries share: the first directive that matches is marked.\<close>

definition mark_first ::
  "SuppressionContext \<Rightarrow> nat \<Rightarrow> (Suppression \<Rightarrow> bool) \<Rightarrow> bool \<times> SuppressionContext" where
  "mark_first ctx fid p =
     (case map_of (by_file ctx) fid of
        None \<Rightarrow> (False, ctx)
      | Some supps \<Rightarrow>
          (case map_of (used ctx) fid of
             None \<Rightarrow> (False, ctx)
           | Some flags \<Rightarrow>
               (case first_index p supps of
                  None \<Rightarrow> (False, ctx)
                | Some i \<Rightarrow> (True, ctx\<lparr>used := AList.update fid (flags[i := True]) (used ctx)\<rparr>))))"

definition ctx_is_suppressed ::
  "SuppressionContext \<Rightarrow> nat \<Rightarrow> nat \<Rightarrow> IssueKind \<Rightarrow> bool \<times> SuppressionContext" where
  "ctx_is_suppressed ctx fid line kind = mark_first ctx fid (\<lambda>s. matches_issue_kind s line kind)"

definition ctx_is_file_suppressed ::
  "SuppressionContext \<Rightarrow> nat \<Rightarrow> IssueKind \<Rightarrow> bool \<times> SuppressionContext" where
  "ctx_is_file_suppressed ctx fid kind =
     mark_first ctx fid (\<lambda>s. s_line s = 0 \<and> matches_issue_kind s 0 kind)"

definition ctx_is_policy_suppressed ::
  "SuppressionContext \<Rightarrow> nat \<Rightarrow> nat \<Rightarrow> string \<Rightarrow> string \<Rightarrow> bool \<times> SuppressionContext" where
  "ctx_is_policy_suppressed ctx fid line p r =
     mark_first ctx fid (\<lambda>s. matches_policy_rule s line p r)"

definition ctx_get :: "SuppressionContext \<Rightarrow> nat \<Rightarrow> Suppression list option" where
  "ctx_get ctx fid = map_of (by_file ctx) fid"

definition used_count :: "SuppressionContext \<Rightarrow> nat" where
  "used_count ctx = length (filter id (concat (map snd (used ctx))))"

definition is_suppressed :: "Suppression list \<Rightarrow> nat \<Rightarrow> IssueKind \<Rightarrow> bool" where
  "is_suppressed supps line kind \<longleftrightarrow> (\<exists>s \<in> set supps. matches_issue_kind s line kind)"

definition is_file_suppressed :: "Suppression list \<Rightarrow> IssueKind \<Rightarrow> bool" where
  "is_file_suppressed supps kind \<longleftrightarrow>
     (\<exists>s \<in> set supps. s_line s = 0 \<and> matches_issue_kind s 0 kind)"

section \<open>Stale directives\<close>

definition NON_CORE_KINDS :: "IssueKind list" where
  "NON_CORE_KINDS =
     [Complexity, CoverageGaps, FeatureFlag, CodeDuplication, UnusedDependency,
      UnusedDevDependency, UnlistedDependency, TypeOnlyDependency, TestOnlyDependency,
      PnpmCatalogEntry, EmptyCatalogGroup, UnresolvedCatalogReference,
      UnusedDependencyOverride, MisconfiguredDependencyOverride, IssueKind.StaleSuppression]"

definition policy_rule_exists :: "ResolvedConfig \<Rightarrow> PolicyRuleSuppression \<Rightarrow> bool" where
  "policy_rule_exists config t \<longleftrightarrow>
     (\<exists>p \<in> set (rule_packs config). pack_name p = pack t \<and>
        (\<exists>r \<in> set (pack_rules p). pack_rule_id r = rule_id t))"

definition policy_rule_is_disabled :: "ResolvedConfig \<Rightarrow> PolicyRuleSuppression \<Rightarrow> bool" where
  "policy_rule_is_disabled config t \<longleftrightarrow>
     (\<exists>p \<in> set (rule_packs config). pack_name p = pack t \<and>
        (\<exists>r \<in> set (pack_rules p). pack_rule_id r = rule_id t \<and> pack_rule_severity r = Some Off))"

definition known_stale_entry :: "path \<Rightarrow> Suppression \<Rightarrow> bool \<Rightarrow> 'json StaleSuppression" where
  "known_stale_entry p s missing =
     \<lparr>st_path = p, st_line = comment_line s, st_col = 0,
      origin = CommentOrigin (suppression_token s) (if missing then None else reason s)
        (s_line s = 0) True,
      missing_reason = missing, actions = actions_for missing\<rparr>"

definition unknown_kind_stale_entry ::
  "path \<Rightarrow> UnknownSuppressionKind \<Rightarrow> bool \<Rightarrow> 'json StaleSuppression" where
  "unknown_kind_stale_entry p u missing =
     \<lparr>st_path = p, st_line = u_comment_line u, st_col = 0,
      origin = CommentOrigin (Some (u_token u)) (if missing then None else u_reason u)
        (u_is_file_level u) False,
      missing_reason = missing, actions = actions_for missing\<rparr>"

text \<open>
  The state of the scan: the (path, token) pairs warned about, newest first; a warning is
  logged exactly when a pair enters it.
\<close>

type_synonym warned = "(string \<times> string) list"

definition stale_entry_for_suppression ::
  "ResolvedConfig \<Rightarrow> RulesConfig \<Rightarrow> path \<Rightarrow> Suppression \<Rightarrow> warned \<Rightarrow>
     'json StaleSuppression option \<times> warned" where
  "stale_entry_for_suppression config file_rules p s warned =
     (if (case issue_kind_target s of
            Some k \<Rightarrow> k \<in> set NON_CORE_KINDS | None \<Rightarrow> False) then (None, warned)
      else if (case issue_kind_target s of
            Some k \<Rightarrow> severity_for_kind file_rules k = Off | None \<Rightarrow> False) then (None, warned)
      else
        (case policy_rule_target s of
           None \<Rightarrow> (Some (known_stale_entry p s False), warned)
         | Some t \<Rightarrow>
             if file_rules policy_violation = Off \<or> policy_rule_is_disabled config t
             then (None, warned)
             else (Some (known_stale_entry p s False),
                   if \<not> policy_rule_exists config t
                   then (let key = (path_string p, policy_rule_token t)
                         in if key \<in> set warned then warned else key # warned)
                   else warned)))"

fun stale_of_file ::
  "ResolvedConfig \<Rightarrow> RulesConfig \<Rightarrow> path \<Rightarrow> (Suppression \<times> bool) list \<Rightarrow> warned \<Rightarrow>
     'json StaleSuppression list \<times> warned" where
  "stale_of_file config file_rules p [] warned = ([], warned)"
| "stale_of_file config file_rules p ((s, flag) # rest) warned =
     (if flag then stale_of_file config file_rules p rest warned
      else
        (let (entry, warned1) = stale_entry_for_suppression config file_rules p s warned;
             (stale, warned2) = stale_of_file config file_rules p rest warned1
         in (case entry of Some e \<Rightarrow> e # stale | None \<Rightarrow> stale, warned2)))"

text \<open>
  The graph gives the path of a file id; an id outside it, or a file without flags, is the
  panic of an index out of range, \<open>None\<close> here.
\<close>

definition module_path :: "path list \<Rightarrow> nat \<Rightarrow> path option" where
  "module_path graph fid = (if fid < length graph then Some (graph ! fid) else None)"

fun stale_known ::
  "path list \<Rightarrow> ResolvedConfig \<Rightarrow> (nat \<times> bool list) list \<Rightarrow> (nat \<times> Suppression list) list \<Rightarrow>
     warned \<Rightarrow> ('json StaleSuppression list \<times> warned) option" where
  "stale_known graph config flags [] warned = Some ([], warned)"
| "stale_known graph config flags ((fid, supps) # more_files) warned =
     (case (map_of flags fid, module_path graph fid) of
        (Some used_flags, Some p) \<Rightarrow>
          (let (stale, warned1) =
             stale_of_file config (rules_for_path config p) p (zip supps used_flags) warned
           in case stale_known graph config flags more_files warned1 of
                None \<Rightarrow> None
              | Some (later, warned2) \<Rightarrow> Some (stale @ later, warned2))
      | _ \<Rightarrow> None)"

fun stale_unknown ::
  "path list \<Rightarrow> (nat \<times> UnknownSuppressionKind list) list \<Rightarrow> 'json StaleSuppression list option"
  where
  "stale_unknown graph [] = Some []"
| "stale_unknown graph ((fid, unknowns) # more_files) =
     (case (module_path graph fid, stale_unknown graph more_files) of
        (Some p, Some later) \<Rightarrow> Some (map (\<lambda>u. unknown_kind_stale_entry p u False) unknowns @ later)
      | _ \<Rightarrow> None)"

definition find_stale ::
  "SuppressionContext \<Rightarrow> path list \<Rightarrow> ResolvedConfig \<Rightarrow> 'json StaleSuppression list option" where
  "find_stale ctx graph config =
     (case stale_known graph config (used ctx) (by_file ctx) [] of
        None \<Rightarrow> None
      | Some (stale, _) \<Rightarrow> map_option (\<lambda>later. stale @ later) (stale_unknown graph (ctx_unknown_kinds ctx)))"


section \<open>Directives without a reason\<close>

type_synonym seen = "(nat \<times> nat) set"

text \<open>One comment: reported when it has no reason and its line was not yet seen.\<close>

definition missing_reason_step ::
  "nat \<Rightarrow> nat \<Rightarrow> string option \<Rightarrow> 'e \<Rightarrow> 'e list \<times> seen \<Rightarrow> 'e list \<times> seen" where
  "missing_reason_step fid line rsn entry acc = (case acc of (findings, seen) \<Rightarrow>
     (if rsn \<noteq> None then (findings, seen)
      else if (fid, line) \<in> seen then (findings, seen)
      else (findings @ [entry], insert (fid, line) seen)))"

fun missing_known ::
  "path list \<Rightarrow> (nat \<times> Suppression list) list \<Rightarrow> 'json StaleSuppression list \<times> seen \<Rightarrow>
     ('json StaleSuppression list \<times> seen) option" where
  "missing_known graph [] acc = Some acc"
| "missing_known graph ((fid, supps) # more_files) acc =
     (case module_path graph fid of
        None \<Rightarrow> None
      | Some p \<Rightarrow> missing_known graph more_files
          (fold (\<lambda>s. missing_reason_step fid (comment_line s) (reason s) (known_stale_entry p s True))
            supps acc))"

fun missing_unknown ::
  "path list \<Rightarrow> (nat \<times> UnknownSuppressionKind list) list \<Rightarrow> 'json StaleSuppression list \<times> seen \<Rightarrow>
     ('json StaleSuppression list \<times> seen) option" where
  "missing_unknown graph [] acc = Some acc"
| "missing_unknown graph ((fid, unknowns) # more_files) acc =
     (case module_path graph fid of
        None \<Rightarrow> None
      | Some p \<Rightarrow> missing_unknown graph more_files
          (fold (\<lambda>u. missing_reason_step fid (u_comment_line u) (u_reason u)
                       (unknown_kind_stale_entry p u True)) unknowns acc))"

definition find_missing_reasons ::
  "SuppressionContext \<Rightarrow> path list \<Rightarrow> 'json StaleSuppression list option" where
  "find_missing_reasons ctx graph =
     map_option fst (Option.bind (missing_known graph (by_file ctx) ([], {}))
       (missing_unknown graph (ctx_unknown_kinds ctx)))"

fun all_suppressions_of ::
  "path list \<Rightarrow> (nat \<times> Suppression list) list \<Rightarrow> ActiveSuppression list option" where
  "all_suppressions_of graph [] = Some []"
| "all_suppressions_of graph ((fid, supps) # more_files) =
     (case (module_path graph fid, all_suppressions_of graph more_files) of
        (Some p, Some later) \<Rightarrow>
          Some (map (\<lambda>s. \<lparr>a_path = p, a_kind = suppression_token s,
                          a_is_file_level = (s_line s = 0), a_reason = reason s\<rparr>) supps @ later)
      | _ \<Rightarrow> None)"

definition all_suppressions ::
  "SuppressionContext \<Rightarrow> path list \<Rightarrow> ActiveSuppression list option" where
  "all_suppressions ctx graph = all_suppressions_of graph (by_file ctx)"

section \<open>The queries of a run\<close>

datatype query =
    LineQuery nat nat IssueKind
  | FileQuery nat IssueKind
  | PolicyQuery nat nat string string

primrec ask :: "query \<Rightarrow> SuppressionContext \<Rightarrow> bool \<times> SuppressionContext" where
  "ask (LineQuery fid line kind) ctx = ctx_is_suppressed ctx fid line kind"
| "ask (FileQuery fid kind) ctx = ctx_is_file_suppressed ctx fid kind"
| "ask (PolicyQuery fid line p r) ctx = ctx_is_policy_suppressed ctx fid line p r"

primrec query_file :: "query \<Rightarrow> nat" where
  "query_file (LineQuery fid line kind) = fid"
| "query_file (FileQuery fid kind) = fid"
| "query_file (PolicyQuery fid line p r) = fid"

primrec query_matches :: "query \<Rightarrow> Suppression \<Rightarrow> bool" where
  "query_matches (LineQuery fid line kind) s = matches_issue_kind s line kind"
| "query_matches (FileQuery fid kind) s = (s_line s = 0 \<and> matches_issue_kind s 0 kind)"
| "query_matches (PolicyQuery fid line p r) s = matches_policy_rule s line p r"

lemma query_matches_eq:
  "query_matches (LineQuery fid line kind) = (\<lambda>s. matches_issue_kind s line kind)"
  "query_matches (FileQuery fid kind) = (\<lambda>s. s_line s = 0 \<and> matches_issue_kind s 0 kind)"
  "query_matches (PolicyQuery fid line p r) = (\<lambda>s. matches_policy_rule s line p r)"
  by (simp_all add: fun_eq_iff)

lemma ask_mark_first: "ask q ctx = mark_first ctx (query_file q) (query_matches q)"
  by (cases q) (simp_all add: query_matches_eq ctx_is_suppressed_def ctx_is_file_suppressed_def
      ctx_is_policy_suppressed_def)

text \<open>The states a context goes through while the detectors run, in any order of queries.\<close>

inductive reached :: "ModuleInfo list \<Rightarrow> query list \<Rightarrow> SuppressionContext \<Rightarrow> bool"
  for modules where
  start: "reached modules [] (context_new modules)"
| asked: "reached modules qs ctx \<Longrightarrow> ask q ctx = (b, ctx') \<Longrightarrow> reached modules (qs @ [q]) ctx'"

inductive_cases reached_snocE: "reached modules (qs @ [q]) ctx"

text \<open>Flags and directives go together.\<close>

definition ctx_ok :: "SuppressionContext \<Rightarrow> bool" where
  "ctx_ok ctx \<longleftrightarrow> distinct (map fst (by_file ctx)) \<and> map fst (used ctx) = map fst (by_file ctx) \<and>
     (\<forall>fid supps flags. map_of (by_file ctx) fid = Some supps \<longrightarrow> map_of (used ctx) fid = Some flags \<longrightarrow>
        length flags = length supps)"

definition flag :: "SuppressionContext \<Rightarrow> nat \<Rightarrow> nat \<Rightarrow> bool" where
  "flag ctx fid i = (case map_of (used ctx) fid of Some flags \<Rightarrow> i < length flags \<and> flags ! i | None \<Rightarrow> False)"

definition silences :: "SuppressionContext \<Rightarrow> query \<Rightarrow> nat \<Rightarrow> bool" where
  "silences ctx q i \<longleftrightarrow>
     (case map_of (by_file ctx) (query_file q) of
        None \<Rightarrow> False
      | Some supps \<Rightarrow> first_index (query_matches q) supps = Some i)"

lemma silences_iff:
  "silences ctx q i \<longleftrightarrow>
     (\<exists>supps. map_of (by_file ctx) (query_file q) = Some supps \<and>
        first_index (query_matches q) supps = Some i)"
  by (simp add: silences_def split: option.split)

lemma distinct_collect_map: "distinct (map fst (collect_map kvs))"
proof -
  have "distinct (map fst acc) \<Longrightarrow> distinct (map fst (fold (\<lambda>(k, v). AList.update k v) kvs acc))" for acc
    by (induction kvs arbitrary: acc) (auto simp: distinct_update)
  then show ?thesis by (simp add: collect_map_def)
qed

lemma map_of_map_snd: "map_of (map (\<lambda>(k, v). (k, f v)) xs) k = map_option f (map_of xs k)"
  by (induction xs) auto

lemma ctx_ok_new: "ctx_ok (context_new modules)"
  by (auto simp: ctx_ok_def context_new_def Let_def distinct_collect_map map_of_map_snd
      comp_def case_prod_beta)

lemma ctx_ok_used_defined:
  "ctx_ok ctx \<Longrightarrow> map_of (by_file ctx) fid = Some supps \<Longrightarrow>
     \<exists>flags. map_of (used ctx) fid = Some flags \<and> length flags = length supps"
  unfolding ctx_ok_def by (metis map_of_eq_None_iff not_None_eq set_map)

lemma update_keys_in: "k \<in> fst ` set al \<Longrightarrow> map fst (AList.update k v al) = map fst al"
  by (induction al) auto

lemma mark_first_cases:
  assumes "ctx_ok ctx"
  obtains (miss) "mark_first ctx fid p = (False, ctx)"
      "\<And>supps. map_of (by_file ctx) fid = Some supps \<Longrightarrow> first_index p supps = None"
    | (hit) supps flags i where "map_of (by_file ctx) fid = Some supps"
      "map_of (used ctx) fid = Some flags" "length flags = length supps"
      "first_index p supps = Some i"
      "mark_first ctx fid p = (True, ctx\<lparr>used := AList.update fid (flags[i := True]) (used ctx)\<rparr>)"
proof (cases "map_of (by_file ctx) fid")
  case None
  then show ?thesis by (intro miss) (simp_all add: mark_first_def)
next
  case (Some supps)
  then obtain flags where f: "map_of (used ctx) fid = Some flags" "length flags = length supps"
    using ctx_ok_used_defined [OF assms] by blast
  show ?thesis
  proof (cases "first_index p supps")
    case None
    with Some f show ?thesis by (intro miss) (simp_all add: mark_first_def)
  next
    case (Some i)
    with f \<open>map_of (by_file ctx) fid = Some supps\<close> show ?thesis
      by (intro hit) (simp_all add: mark_first_def)
  qed
qed

lemma mark_first_ok:
  assumes "ctx_ok ctx"
  shows "ctx_ok (snd (mark_first ctx fid p))"
  using assms
proof (cases rule: mark_first_cases [of _ fid p])
  case miss
  with assms show ?thesis by simp
next
  case (hit supps flags i)
  then have "fid \<in> fst ` set (used ctx)" by (force dest: map_of_SomeD)
  with assms hit show ?thesis
    by (auto simp: ctx_ok_def update_keys_in update_conv')
qed

lemma mark_first_by_file: "by_file (snd (mark_first ctx fid p)) = by_file ctx"
  by (simp add: mark_first_def split: option.split)

lemma mark_first_unknown: "ctx_unknown_kinds (snd (mark_first ctx fid p)) = ctx_unknown_kinds ctx"
  by (simp add: mark_first_def split: option.split)

lemma mark_first_flag:
  assumes "ctx_ok ctx"
  shows "flag (snd (mark_first ctx fid p)) f i \<longleftrightarrow> flag ctx f i \<or>
    (f = fid \<and> (\<exists>supps. map_of (by_file ctx) fid = Some supps \<and> first_index p supps = Some i))"
  using assms
proof (cases rule: mark_first_cases [of _ fid p])
  case miss
  then show ?thesis by auto
next
  case (hit supps flags j)
  then have "j < length flags" by (simp add: first_index_Some)
  with hit show ?thesis by (auto simp: flag_def update_conv' nth_list_update)
qed

lemma mark_first_answer:
  assumes "ctx_ok ctx"
  shows "fst (mark_first ctx fid p) \<longleftrightarrow>
    (\<exists>supps. map_of (by_file ctx) fid = Some supps \<and> (\<exists>s \<in> set supps. p s))"
  using assms
proof (cases rule: mark_first_cases [of _ fid p])
  case miss
  then show ?thesis by (auto simp: first_index_None)
next
  case (hit supps flags i)
  then show ?thesis using nth_mem [of i supps] by (auto simp: first_index_Some)
qed

lemmas ask_facts = ask_mark_first mark_first_ok mark_first_by_file mark_first_unknown mark_first_flag

text \<open>The invariant of a run.\<close>

lemma reached_invariant:
  assumes "reached modules qs ctx"
  shows "ctx_ok ctx \<and> by_file ctx = by_file (context_new modules) \<and>
    ctx_unknown_kinds ctx = ctx_unknown_kinds (context_new modules) \<and>
    (\<forall>fid i. flag ctx fid i \<longleftrightarrow>
       (\<exists>q \<in> set qs. query_file q = fid \<and> silences (context_new modules) q i))"
  using assms
proof induction
  case start
  have "\<not> flag (context_new modules) fid i" for fid i
    by (auto simp: flag_def context_new_def Let_def map_of_map_snd split: option.splits)
  then show ?case by (simp add: ctx_ok_new)
next
  case (asked qs ctx q b ctx')
  from asked.hyps(2) have ctx': "ctx' = snd (mark_first ctx (query_file q) (query_matches q))"
    by (metis ask_mark_first snd_conv)
  with asked.IH show ?case
    by (auto simp: ask_facts silences_iff)
qed

text \<open>
  C29. In every state of a run, whatever queries the detectors have asked and in whatever order,
  a directive is marked as used exactly when it was the first match of one of the queries.
\<close>

theorem used_iff_first_match:
  assumes "reached modules qs ctx"
  shows "flag ctx fid i \<longleftrightarrow>
    (\<exists>q \<in> set qs. query_file q = fid \<and> silences (context_new modules) q i)"
  using reached_invariant [OF assms] by blast

text \<open>
  The tracking queries answer like the stateless predicates the command-line layer uses,
  in every state of a run: the answer never depends on what was asked before.
\<close>

theorem tracked_answer_is_the_predicate:
  assumes "reached modules qs ctx"
  shows "fst (ctx_is_suppressed ctx fid line kind) =
      (case ctx_get (context_new modules) fid of
         None \<Rightarrow> False | Some supps \<Rightarrow> is_suppressed supps line kind) \<and>
    fst (ctx_is_file_suppressed ctx fid kind) =
      (case ctx_get (context_new modules) fid of
         None \<Rightarrow> False | Some supps \<Rightarrow> is_file_suppressed supps kind)"
proof -
  have ok: "ctx_ok ctx" and bf: "by_file ctx = by_file (context_new modules)"
    using reached_invariant [OF assms] by auto
  have "fst (ctx_is_suppressed ctx fid line kind) =
      (case ctx_get (context_new modules) fid of
         None \<Rightarrow> False | Some supps \<Rightarrow> is_suppressed supps line kind)"
    by (cases "map_of (by_file ctx) fid")
      (simp_all add: ctx_is_suppressed_def mark_first_answer [OF ok] ctx_get_def is_suppressed_def
        flip: bf)
  moreover have "fst (ctx_is_file_suppressed ctx fid kind) =
      (case ctx_get (context_new modules) fid of
         None \<Rightarrow> False | Some supps \<Rightarrow> is_file_suppressed supps kind)"
    by (cases "map_of (by_file ctx) fid")
      (simp_all add: ctx_is_file_suppressed_def mark_first_answer [OF ok] ctx_get_def
        is_file_suppressed_def flip: bf)
  ultimately show ?thesis ..
qed

text \<open>A run of two queries on one file: the first one uses the blanket directive on line 3, the
  second one the directive for the whole file.\<close>

definition sample_modules :: "ModuleInfo list" where
  "sample_modules =
     [\<lparr>file_id = 0,
       m_suppressions =
         [suppression_all 3 2, suppression_issue 0 1 UnusedExport, suppression_issue 9 8 UnusedType],
       unknown_suppression_kinds = []\<rparr>]"

definition sample_queries :: "query list" where
  "sample_queries = [LineQuery 0 3 UnusedType, FileQuery 0 UnusedExport]"

definition sample_context :: SuppressionContext where
  "sample_context = fold (\<lambda>q ctx. snd (ask q ctx)) sample_queries (context_new sample_modules)"

lemma reached_fold:
  "reached modules qs ctx \<Longrightarrow> reached modules (qs @ rs) (fold (\<lambda>q c. snd (ask q c)) rs ctx)"
proof (induction rs arbitrary: qs ctx)
  case (Cons q rs)
  have "reached modules (qs @ [q]) (snd (ask q ctx))"
    using Cons.prems by (rule reached.asked) (rule surjective_pairing)
  from Cons.IH [OF this] show ?case by simp
qed simp

lemma reached_sample: "reached sample_modules sample_queries sample_context"
  using reached_fold [OF reached.start, of sample_modules sample_queries]
  by (simp add: sample_context_def)

theorem used_iff_first_match_witness:
  "flag sample_context 0 1 \<and>
   (\<exists>q \<in> set sample_queries. query_file q = 0 \<and> silences (context_new sample_modules) q 1)"
proof -
  have "flag sample_context 0 1" by code_simp
  then show ?thesis using used_iff_first_match [OF reached_sample, of 0 1] by simp
qed

theorem tracked_answer_is_the_predicate_witness:
  "fst (ctx_is_suppressed sample_context 0 9 UnusedType)"
  using tracked_answer_is_the_predicate [OF reached_sample, of 0 9 UnusedType]
  by (simp add: ctx_get_def context_new_def sample_modules_def collect_map_def is_suppressed_def
      matches_issue_kind_def applies_to_line_def suppression_issue_def suppression_all_def)

section \<open>What is reported as stale\<close>

definition stale_exempt :: "ResolvedConfig \<Rightarrow> RulesConfig \<Rightarrow> Suppression \<Rightarrow> bool" where
  "stale_exempt config file_rules s \<longleftrightarrow>
     (case target s of
        None \<Rightarrow> False
      | Some (Issue k) \<Rightarrow> k \<in> set NON_CORE_KINDS \<or> severity_for_kind file_rules k = Off
      | Some (PolicyRule t) \<Rightarrow>
          file_rules policy_violation = Off \<or> policy_rule_is_disabled config t)"

lemma stale_entry:
  "fst (stale_entry_for_suppression config file_rules p s warned) =
     (if stale_exempt config file_rules s then None else Some (known_stale_entry p s False))"
  by (simp add: stale_entry_for_suppression_def stale_exempt_def issue_kind_target_def
      policy_rule_target_def split: option.split SuppressionTarget.split)

lemma stale_of_file:
  "fst (stale_of_file config file_rules p zs warned) =
     map (\<lambda>(s, f). known_stale_entry p s False)
       (filter (\<lambda>(s, f). \<not> f \<and> \<not> stale_exempt config file_rules s) zs)"
proof (induction zs arbitrary: warned)
  case (Cons z zs)
  obtain s f where z: "z = (s, f)" by fastforce
  show ?case
    by (simp add: z case_prod_beta Let_def stale_entry Cons.IH)
qed simp

lemma filter_zip_nth:
  "length fl = length ss \<Longrightarrow>
     map (\<lambda>(s, f). e s) (filter (\<lambda>(s, f). \<not> f \<and> P s) (zip ss fl)) =
     map (\<lambda>i. e (ss ! i)) (filter (\<lambda>i. \<not> fl ! i \<and> P (ss ! i)) [0..<length ss])"
proof -
  assume "length fl = length ss"
  then have "zip ss fl = map (\<lambda>i. (ss ! i, fl ! i)) [0..<length ss]"
    by (intro nth_equalityI) auto
  then show ?thesis by (simp add: filter_map comp_def)
qed

definition stale_indices ::
  "ResolvedConfig \<Rightarrow> path list \<Rightarrow> (nat \<Rightarrow> nat \<Rightarrow> bool) \<Rightarrow> nat \<Rightarrow> Suppression list \<Rightarrow> nat list" where
  "stale_indices config graph is_used fid supps =
     filter (\<lambda>i. \<not> is_used fid i \<and>
                 \<not> stale_exempt config (rules_for_path config (graph ! fid)) (supps ! i))
       [0..<length supps]"

lemma stale_known_eq:
  assumes "ctx_ok ctx" "set fmap \<subseteq> set (by_file ctx)" "\<forall>(fid, supps) \<in> set fmap. fid < length graph"
  shows "map_option fst (stale_known graph config (used ctx) fmap warned ::
      ('json StaleSuppression list \<times> warned) option) =
    Some (concat (map (\<lambda>(fid, supps).
      map (\<lambda>i. known_stale_entry (graph ! fid) (supps ! i) False)
        (stale_indices config graph (flag ctx) fid supps)) fmap))"
  using assms(2,3)
proof (induction fmap arbitrary: warned)
  case (Cons f fmap)
  obtain fid supps where f: "f = (fid, supps)" by fastforce
  from Cons.prems f assms(1) have m: "map_of (by_file ctx) fid = Some supps"
    by (auto simp: ctx_ok_def)
  from ctx_ok_used_defined [OF assms(1) m] obtain fl
    where fl: "map_of (used ctx) fid = Some fl" "length fl = length supps" by blast
  have fe: "flag ctx fid i \<longleftrightarrow> fl ! i" if "i < length supps" for i
    using fl that by (simp add: flag_def)
  have idx: "filter (\<lambda>i. \<not> fl ! i \<and> \<not> stale_exempt config (rules_for_path config (graph ! fid)) (supps ! i))
      [0..<length supps] = stale_indices config graph (flag ctx) fid supps"
    unfolding stale_indices_def by (rule filter_cong) (simp_all add: fe)
  obtain st :: "'json StaleSuppression list" and w where st: "stale_of_file config (rules_for_path config (graph ! fid)) (graph ! fid)
      (zip supps fl) warned = (st, w)" by fastforce
  have "st = fst (stale_of_file config (rules_for_path config (graph ! fid)) (graph ! fid)
      (zip supps fl) warned)" by (simp only: st fst_conv)
  also have "\<dots> = map (\<lambda>i. known_stale_entry (graph ! fid) (supps ! i) False)
      (stale_indices config graph (flag ctx) fid supps)"
    by (simp only: stale_of_file filter_zip_nth [OF fl(2)] idx)
  finally have "st = map (\<lambda>i. known_stale_entry (graph ! fid) (supps ! i) False)
      (stale_indices config graph (flag ctx) fid supps)" .
  moreover have "map_option fst (stale_known graph config (used ctx) fmap w ::
      ('json StaleSuppression list \<times> warned) option) =
      Some (concat (map (\<lambda>(fid, supps). map (\<lambda>i. known_stale_entry (graph ! fid) (supps ! i) False)
        (stale_indices config graph (flag ctx) fid supps)) fmap))"
    using Cons by simp
  ultimately show ?case
    using Cons.prems fl st by (auto simp: f module_path_def split: option.split)
qed simp

lemma stale_unknown_eq:
  "\<forall>(fid, us) \<in> set fmap. fid < length graph \<Longrightarrow>
   stale_unknown graph fmap =
     Some (concat (map (\<lambda>(fid, us). map (\<lambda>u. unknown_kind_stale_entry (graph ! fid) u False) us) fmap))"
  by (induction fmap) (auto simp: module_path_def)

text \<open>
  C30. After any run, exactly these findings are stale, in the order of the map: the directives
  no query matched first and that are not exempt (their kind is checked elsewhere, or its rule
  is off for the file, or their policy rule is disabled), then every unknown token.  In
  particular no directive that silenced a finding is reported.
\<close>

theorem find_stale_reports_the_unused:
  assumes "reached modules qs ctx"
    "\<forall>(fid, supps) \<in> set (by_file ctx). fid < length graph"
    "\<forall>(fid, us) \<in> set (ctx_unknown_kinds ctx). fid < length graph"
  shows "(find_stale ctx graph config :: 'json StaleSuppression list option) = Some (
    concat (map (\<lambda>(fid, supps).
      map (\<lambda>i. known_stale_entry (graph ! fid) (supps ! i) False)
        (stale_indices config graph
           (\<lambda>fid i. \<exists>q \<in> set qs. query_file q = fid \<and> silences (context_new modules) q i)
           fid supps)) (by_file ctx)) @
    concat (map (\<lambda>(fid, us). map (\<lambda>u. unknown_kind_stale_entry (graph ! fid) u False) us)
      (ctx_unknown_kinds ctx)))"
proof -
  have "flag ctx = (\<lambda>fid i. \<exists>q \<in> set qs. query_file q = fid \<and> silences (context_new modules) q i)"
    using reached_invariant [OF assms(1)] by (intro ext) blast
  moreover have "map_option fst (stale_known graph config (used ctx) (by_file ctx) [] ::
      ('json StaleSuppression list \<times> warned) option) =
    Some (concat (map (\<lambda>(fid, supps).
      map (\<lambda>i. known_stale_entry (graph ! fid) (supps ! i) False)
        (stale_indices config graph (flag ctx) fid supps)) (by_file ctx)))"
    using reached_invariant [OF assms(1)] assms(2) by (intro stale_known_eq) auto
  ultimately show ?thesis
    by (auto simp: find_stale_def stale_unknown_eq [OF assms(3)])
qed

theorem find_stale_reports_the_unused_witness:
  "find_stale sample_context [[''src'', ''a.ts'']]
     \<lparr>root = [], rules = default_rules, overrides = [], rule_packs = []\<rparr> =
   Some [known_stale_entry [''src'', ''a.ts''] (suppression_issue 9 8 UnusedType) False ::
     unit StaleSuppression]"
proof -
  have bf: "by_file sample_context = [(0, m_suppressions (hd sample_modules))]"
    "ctx_unknown_kinds sample_context = []" by code_simp+
  have "stale_indices \<lparr>root = [], rules = default_rules, overrides = [], rule_packs = []\<rparr>
      [[''src'', ''a.ts'']]
      (\<lambda>fid i. \<exists>q \<in> set sample_queries. query_file q = fid \<and> silences (context_new sample_modules) q i)
      0 (m_suppressions (hd sample_modules)) = [2]"
    by code_simp
  then show ?thesis
    by (subst find_stale_reports_the_unused [OF reached_sample])
      (simp_all add: bf, simp add: sample_modules_def)
qed

section \<open>What is reported as missing a reason\<close>

text \<open>The place (path and line) of a finding, and the places of the comments without a reason.\<close>

definition place :: "'json StaleSuppression \<Rightarrow> path \<times> nat" where
  "place e = (st_path e, st_line e)"

definition unreasoned :: "SuppressionContext \<Rightarrow> (nat \<times> nat) list" where
  "unreasoned ctx =
     concat (map (\<lambda>(fid, supps).
       map (\<lambda>s. (fid, comment_line s)) (filter (\<lambda>s. reason s = None) supps)) (by_file ctx)) @
     concat (map (\<lambda>(fid, us).
       map (\<lambda>u. (fid, u_comment_line u)) (filter (\<lambda>u. u_reason u = None) us)) (ctx_unknown_kinds ctx))"

text \<open>The state of the scan after the places \<open>ks\<close> have been reported.\<close>

definition reported :: "path list \<Rightarrow> (nat \<times> nat) list \<Rightarrow> 'json StaleSuppression list \<times> seen \<Rightarrow> bool"
  where "reported graph ks acc \<longleftrightarrow> snd acc = set ks \<and>
     map place (fst acc) = map (\<lambda>(fid, l). (graph ! fid, l)) ks \<and> list_all missing_reason (fst acc)"

lemma missing_reason_step_reported:
  assumes "reported graph ks acc" "place entry = (graph ! fid, line)" "missing_reason entry"
  shows "reported graph (if rsn = None then push_new (fid, line) ks else ks)
    (missing_reason_step fid line rsn entry acc)"
proof -
  obtain fs sn where acc: "acc = (fs, sn)" by fastforce
  show ?thesis
  proof (cases "rsn = None \<and> (fid, line) \<notin> set ks")
    case True
    with assms show ?thesis by (simp add: acc reported_def missing_reason_step_def push_new_def)
  next
    case False
    with assms show ?thesis
      by (cases "rsn = None") (simp_all add: acc reported_def missing_reason_step_def push_new_def)
  qed
qed

lemma place_entry [simp]:
  "place (known_stale_entry p s missing) = (p, comment_line s)"
  "place (unknown_kind_stale_entry p u missing) = (p, u_comment_line u)"
  "missing_reason (known_stale_entry p s missing) = missing"
  "missing_reason (unknown_kind_stale_entry p u missing) = missing"
  by (simp_all add: place_def known_stale_entry_def unknown_kind_stale_entry_def)

lemma fold_known_reported:
  "reported graph ks acc \<Longrightarrow>
   reported graph
     (fold push_new (map (\<lambda>s. (fid, comment_line s)) (filter (\<lambda>s. reason s = None) supps)) ks)
     (fold (\<lambda>s. missing_reason_step fid (comment_line s) (reason s)
        (known_stale_entry (graph ! fid) s True)) supps acc)"
proof (induction supps arbitrary: ks acc)
  case (Cons s supps)
  show ?case
    using Cons.IH [OF missing_reason_step_reported [OF Cons.prems, of "known_stale_entry (graph ! fid) s True" fid
        "comment_line s" "reason s"]]
    by (cases "reason s") simp_all
qed simp

lemma fold_unknown_reported:
  "reported graph ks acc \<Longrightarrow>
   reported graph
     (fold push_new (map (\<lambda>u. (fid, u_comment_line u)) (filter (\<lambda>u. u_reason u = None) us)) ks)
     (fold (\<lambda>u. missing_reason_step fid (u_comment_line u) (u_reason u)
        (unknown_kind_stale_entry (graph ! fid) u True)) us acc)"
proof (induction us arbitrary: ks acc)
  case (Cons u us)
  show ?case
    using Cons.IH [OF missing_reason_step_reported [OF Cons.prems, of "unknown_kind_stale_entry (graph ! fid) u True" fid
        "u_comment_line u" "u_reason u"]]
    by (cases "u_reason u") simp_all
qed simp

lemma missing_known_reported:
  "reported graph ks acc \<Longrightarrow> \<forall>(fid, supps) \<in> set bf. fid < length graph \<Longrightarrow>
   \<exists>acc'. missing_known graph bf acc = Some acc' \<and>
     reported graph (fold push_new (concat (map (\<lambda>(fid, supps).
       map (\<lambda>s. (fid, comment_line s)) (filter (\<lambda>s. reason s = None) supps)) bf)) ks) acc'"
proof (induction bf arbitrary: ks acc)
  case (Cons f bf)
  obtain fid supps where f: "f = (fid, supps)" by fastforce
  show ?case
    using Cons.IH [OF fold_known_reported [OF Cons.prems(1), of fid supps]] Cons.prems(2)
    by (simp add: f module_path_def)
qed simp

lemma missing_unknown_reported:
  "reported graph ks acc \<Longrightarrow> \<forall>(fid, us) \<in> set uk. fid < length graph \<Longrightarrow>
   \<exists>acc'. missing_unknown graph uk acc = Some acc' \<and>
     reported graph (fold push_new (concat (map (\<lambda>(fid, us).
       map (\<lambda>u. (fid, u_comment_line u)) (filter (\<lambda>u. u_reason u = None) us)) uk)) ks) acc'"
proof (induction uk arbitrary: ks acc)
  case (Cons f uk)
  obtain fid us where f: "f = (fid, us)" by fastforce
  show ?case
    using Cons.IH [OF fold_unknown_reported [OF Cons.prems(1), of fid us]] Cons.prems(2)
    by (simp add: f module_path_def)
qed simp

text \<open>
  The comments without a reason are reported once each, at their own place, in the order
  in which the maps list them, a line with several directives or unknown tokens only once.
\<close>

theorem missing_reasons_reported_once:
  assumes "\<forall>(fid, supps) \<in> set (by_file ctx). fid < length graph"
    "\<forall>(fid, us) \<in> set (ctx_unknown_kinds ctx). fid < length graph"
  shows "\<exists>findings :: 'json StaleSuppression list. find_missing_reasons ctx graph = Some findings \<and>
    map place findings = map (\<lambda>(fid, l). (graph ! fid, l)) (first_occurrences (unreasoned ctx)) \<and>
    list_all missing_reason findings"
proof -
  have "reported graph [] ([] :: 'json StaleSuppression list, {})" by (simp add: reported_def)
  from missing_known_reported [OF this assms(1)] obtain acc1 :: "'json StaleSuppression list \<times> seen" where
    1: "missing_known graph (by_file ctx) ([], {}) = Some acc1" and
    r1: "reported graph (fold push_new (concat (map (\<lambda>(fid, supps).
       map (\<lambda>s. (fid, comment_line s)) (filter (\<lambda>s. reason s = None) supps)) (by_file ctx))) []) acc1"
    by blast
  from missing_unknown_reported [OF r1 assms(2)] obtain acc2 where
    2: "missing_unknown graph (ctx_unknown_kinds ctx) acc1 = Some acc2" and
    r2: "reported graph (first_occurrences (unreasoned ctx)) acc2"
    by (auto simp: first_occurrences_def unreasoned_def)
  show ?thesis
    using 1 2 r2 by (auto simp: find_missing_reasons_def reported_def)
qed

theorem missing_reasons_reported_once_witness:
  "\<exists>findings :: unit StaleSuppression list. find_missing_reasons sample_context [[''src'', ''a.ts'']] = Some findings \<and>
    map place findings = [([''src'', ''a.ts''], 2), ([''src'', ''a.ts''], 1), ([''src'', ''a.ts''], 8)]"
proof -
  have "by_file sample_context = [(0, m_suppressions (hd sample_modules))]"
    "ctx_unknown_kinds sample_context = []"
    "first_occurrences (unreasoned sample_context) = [(0, 2), (0, 1), (0, 8)]" by code_simp+
  then show ?thesis
    using missing_reasons_reported_once [of sample_context "[[''src'', ''a.ts'']]"] by auto
qed

end
