(* ===== verification/Line_Offsets.thy ===== *)
theory Line_Offsets
  imports Fallow_Prelude
begin

text \<open>
  The line tables of the findings (\<^verbatim>\<open>compute_line_offsets\<close> and \<^verbatim>\<open>byte_offset_to_line_col\<close> of
  \<^verbatim>\<open>crates/types/src/extract.rs\<close>, the lookup of \<^verbatim>\<open>crates/core/src/analyze/mod.rs\<close>): the byte offset
  at which every line starts, and the search for the line of an offset.  The source is a string
  of bytes below 4 GB, so offsets are naturals.
\<close>

section \<open>The table and the search\<close>

definition compute_line_offsets :: "string \<Rightarrow> nat list" where
  "compute_line_offsets source =
     fold (\<lambda>(i, byte) offsets. if byte = byte_char 10 then offsets @ [i + 1] else offsets) (enumerate 0 source) [0]"

text \<open>
  \<^verbatim>\<open>binary_search\<close> on a slice without repetitions: the index of the value, or else the index at
  which it would be inserted.
\<close>

definition binary_search :: "nat list \<Rightarrow> nat \<Rightarrow> nat + nat" where
  "binary_search xs k =
     (let i = partition_point (\<lambda>x. x < k) xs in if i < length xs \<and> xs ! i = k then Inr i else Inl i)"

definition line_col_of_offset :: "nat list \<Rightarrow> nat \<Rightarrow> nat \<times> nat" where
  "line_col_of_offset line_offsets byte_offset =
     (let line_idx = (case binary_search line_offsets byte_offset of Inr idx \<Rightarrow> idx | Inl idx \<Rightarrow> idx - 1);
          line = line_idx + 1;
          col = byte_offset - line_offsets ! line_idx
      in (line, col))"

type_synonym LineOffsetsMap = "nat \<Rightarrow> nat list option"

definition finding_line_col :: "LineOffsetsMap \<Rightarrow> nat \<Rightarrow> nat \<Rightarrow> nat \<times> nat" where
  "finding_line_col line_offsets_map fid byte_offset =
     (case line_offsets_map fid of None \<Rightarrow> (1, byte_offset)
      | Some offsets \<Rightarrow> line_col_of_offset offsets byte_offset)"

section \<open>The table lists the starts of the lines\<close>

definition line_start :: "string \<Rightarrow> nat \<Rightarrow> bool" where
  "line_start source k \<longleftrightarrow> k = 0 \<or> (0 < k \<and> k \<le> length source \<and> source ! (k - 1) = byte_char 10)"

lemma compute_line_offsets_snoc:
  "compute_line_offsets (source @ [b]) =
     compute_line_offsets source @ (if b = byte_char 10 then [length source + 1] else [])"
  by (simp add: compute_line_offsets_def enumerate_append_eq)

lemma compute_line_offsets_Nil [simp]: "compute_line_offsets [] = [0]"
  by (simp add: compute_line_offsets_def)

lemma set_compute_line_offsets: "set (compute_line_offsets source) = {k. line_start source k}"
proof (induction source rule: rev_induct)
  case (snoc b source)
  have "line_start (source @ [b]) k \<longleftrightarrow> line_start source k \<or> (b = byte_char 10 \<and> k = length source + 1)" for k
    by (cases k) (auto simp: line_start_def nth_append less_Suc_eq_le)
  then show ?case by (auto simp: compute_line_offsets_snoc snoc.IH)
qed (auto simp: line_start_def)

lemma sorted_compute_line_offsets: "sorted_wrt (<) (compute_line_offsets source)"
proof (induction source rule: rev_induct)
  case (snoc b source)
  have "k \<le> length source" if "k \<in> set (compute_line_offsets source)" for k
    using that unfolding set_compute_line_offsets by (auto simp: line_start_def)
  then show ?case using snoc.IH by (auto simp: compute_line_offsets_snoc sorted_wrt_append less_Suc_eq_le)
qed simp

lemma compute_line_offsets_hd: "compute_line_offsets source \<noteq> [] \<and> compute_line_offsets source ! 0 = 0"
  by (induction source rule: rev_induct) (auto simp: compute_line_offsets_snoc nth_append)

lemma partition_point_sorted:
  assumes "sorted_wrt (<) xs" "i < length xs"
  shows "i < partition_point (\<lambda>x. x < k) xs \<longleftrightarrow> xs ! i < (k :: nat)"
proof
  assume "xs ! i < k"
  show "i < partition_point (\<lambda>x. x < k) xs"
  proof (rule ccontr)
    assume "\<not> i < partition_point (\<lambda>x. x < k) xs"
    then have "partition_point (\<lambda>x. x < k) xs \<le> i" by simp
    moreover from this have "\<not> xs ! partition_point (\<lambda>x. x < k) xs < k"
      using partition_point_at [of "\<lambda>x. x < k" xs] assms(2) by simp
    ultimately show False
      using assms \<open>xs ! i < k\<close> by (metis le_neq_implies_less less_trans sorted_wrt_nth_less)
  qed
qed (rule partition_point_below)

lemma strictly_sorted_nth: "sorted_wrt (<) xs \<Longrightarrow> i \<le> j \<Longrightarrow> j < length xs \<Longrightarrow> xs ! i \<le> (xs ! j :: nat)"
  using sorted_wrt_nth_less [of "(<)" xs i j] by (cases "i = j") simp_all

text \<open>The line found is the last one that starts at or before the offset.\<close>

lemma line_col_of_offset_line:
  assumes "sorted_wrt (<) xs" "xs \<noteq> []" "xs ! 0 = 0" "line_col_of_offset xs off = (line, col)"
  shows "1 \<le> line" "line \<le> length xs" "xs ! (line - 1) \<le> off" "off = xs ! (line - 1) + col"
    "line < length xs \<Longrightarrow> off < xs ! line"
proof -
  let ?i = "partition_point (\<lambda>x. x < off) xs"
  have le: "?i \<le> length xs" by simp
  have "1 \<le> line \<and> line \<le> length xs \<and> xs ! (line - 1) \<le> off \<and> off = xs ! (line - 1) + col \<and>
    (line < length xs \<longrightarrow> off < xs ! line)"
  proof (cases "?i < length xs \<and> xs ! ?i = off")
    case True
    then have l: "line = ?i + 1" "col = 0"
      using assms(4) by (auto simp: line_col_of_offset_def binary_search_def Let_def)
    have "off < xs ! line" if "line < length xs"
      using sorted_wrt_nth_less [OF assms(1), of ?i line] that True l by simp
    then show ?thesis using True l by simp
  next
    case False
    then have l: "line = ?i - 1 + 1" "col = off - xs ! (?i - 1)"
      using assms(4) by (auto simp: line_col_of_offset_def binary_search_def Let_def)
    have pos: "0 < ?i"
    proof (rule ccontr)
      assume "\<not> 0 < ?i"
      then have "?i = 0" by simp
      moreover have "\<not> xs ! 0 < off" using partition_point_sorted [OF assms(1), of 0 off] assms(2) calculation by simp
      ultimately show False using False assms(2,3) by simp
    qed
    have below: "xs ! (?i - 1) < off" using partition_point_below [of "?i - 1" "\<lambda>x. x < off" xs] pos by simp
    have "off < xs ! ?i" if "?i < length xs"
      using that False partition_point_at [of "\<lambda>x. x < off" xs] by fastforce
    then show ?thesis using l pos below le by auto
  qed
  then show "1 \<le> line" "line \<le> length xs" "xs ! (line - 1) \<le> off" "off = xs ! (line - 1) + col"
    "line < length xs \<Longrightarrow> off < xs ! line"
    by auto
qed

lemmas computed_table = sorted_compute_line_offsets compute_line_offsets_hd [THEN conjunct1] compute_line_offsets_hd [THEN conjunct2]

text \<open>
  The position of an offset in its own table: the line starts at or before the offset, no
  line starts between them, and the start and the column give the offset back.
\<close>

lemma line_col_position:
  assumes "line_col_of_offset (compute_line_offsets source) off = (line, col)" "off \<le> length source"
  shows "line_start source (off - col)" "col \<le> off"
    "\<forall>k. off - col < k \<and> k \<le> off \<longrightarrow> \<not> line_start source k"
    "line = card {k. line_start source k \<and> k \<le> off}"
proof -
  let ?xs = "compute_line_offsets source"
  note p = line_col_of_offset_line [OF computed_table assms(1)]
  have line: "off - col = ?xs ! (line - 1)" using p(4) by simp
  show col: "col \<le> off" using p(4) by simp
  have "?xs ! (line - 1) \<in> set ?xs" using p(1,2) by simp
  then show "line_start source (off - col)" by (simp add: line set_compute_line_offsets)
  have idx: "?xs ! i \<le> off \<longleftrightarrow> i < line" if "i < length ?xs" for i
  proof
    assume "?xs ! i \<le> off"
    show "i < line"
    proof (rule ccontr)
      assume "\<not> i < line"
      then have "?xs ! line \<le> ?xs ! i" "line < length ?xs"
        using sorted_wrt_nth_less [OF computed_table(1), of line i source] that by (cases "i = line"; simp)+
      then show False using p(5) \<open>?xs ! i \<le> off\<close> by simp
    qed
  next
    assume "i < line"
    then have "?xs ! i \<le> ?xs ! (line - 1)"
      using strictly_sorted_nth [OF computed_table(1), of i "line - 1" source] p(2) by simp
    then show "?xs ! i \<le> off" using p(3) by simp
  qed
  have set: "{k. line_start source k \<and> k \<le> off} = (!) ?xs ` {..<line}"
  proof -
    have "{k. line_start source k \<and> k \<le> off} = {k \<in> set ?xs. k \<le> off}" by (simp add: set_compute_line_offsets)
    also have "\<dots> = (!) ?xs ` {i. i < length ?xs \<and> ?xs ! i \<le> off}" by (auto simp: in_set_conv_nth)
    also have "{i. i < length ?xs \<and> ?xs ! i \<le> off} = {..<line}" using idx p(2) by auto
    finally show ?thesis .
  qed
  have "inj_on ((!) ?xs) {..<line}"
    using computed_table(1) [of source] p(2)
    by (intro inj_onI) (metis (no_types, lifting) lessThan_iff less_irrefl linorder_cases order_less_le_trans sorted_wrt_nth_less)
  then show "line = card {k. line_start source k \<and> k \<le> off}" by (simp add: set card_image)
  show "\<forall>k. off - col < k \<and> k \<le> off \<longrightarrow> \<not> line_start source k"
  proof (intro allI impI notI)
    fix k
    assume k: "off - col < k \<and> k \<le> off" and "line_start source k"
    then have "k \<in> (!) ?xs ` {..<line}" using set by blast
    then obtain i where "i < line" "k = ?xs ! i" by blast
    then have "k \<le> ?xs ! (line - 1)"
      using strictly_sorted_nth [OF computed_table(1), of i "line - 1" source] p(2) by simp
    then show False using k line by simp
  qed
qed

end
