(* ===== verification/Module_Growth.thy ===== *)
theory Module_Growth
  imports Graph_Types
begin

text \<open>
  Growth of module nodes: the passes that attach references only add references to exports and
  append new exports. This theory holds that order with the lemmas the passes share.
\<close>

section \<open>Names and references of exports\<close>

definition export_name_of :: "string \<Rightarrow> ExportName" where
  "export_name_of name = (if name = ''default'' then ExpDefault else ExpNamed name)"

definition files_of :: "SymbolReference list \<Rightarrow> FileId set" where
  "files_of rs = from_file ` set rs"

definition has_star :: "ModuleNode \<Rightarrow> bool" where
  "has_star m \<longleftrightarrow> (\<exists>re \<in> set (re_exports m). re_exported_name re = ''*'')"

section \<open>The order\<close>

definition export_grows :: "ExportSymbol \<Rightarrow> ExportSymbol \<Rightarrow> bool" where
  "export_grows e e' \<longleftrightarrow> (\<exists>rs ty. e' = e\<lparr>references := references e @ rs, exp_is_type_only := ty\<rparr> \<and>
     (ty \<longrightarrow> exp_is_type_only e))"

definition module_grows :: "ModuleNode \<Rightarrow> ModuleNode \<Rightarrow> bool" where
  "module_grows m m' \<longleftrightarrow> (\<exists>old new. m' = m\<lparr>exports := old @ new\<rparr> \<and> list_all2 export_grows (exports m) old)"

lemma export_same [simp]: "e\<lparr>references := references e\<rparr> = e" "m\<lparr>exports := exports m\<rparr> = m"
  for m :: ModuleNode
  by (cases e, simp) (cases m, simp)

lemma export_grows_add [intro]: "export_grows e (e\<lparr>references := references e @ rs\<rparr>)"
  by (cases e) (auto simp: export_grows_def)

lemma export_grows_refl [simp]: "export_grows e e"
  using export_grows_add [of e "[]"] by simp

lemma export_grows_trans:
  assumes "export_grows e f" "export_grows f g"
  shows "export_grows e g"
proof -
  obtain rs ty where 1: "f = e\<lparr>references := references e @ rs, exp_is_type_only := ty\<rparr>" "ty \<longrightarrow> exp_is_type_only e"
    using assms(1) unfolding export_grows_def by blast
  obtain rs' ty' where 2: "g = f\<lparr>references := references f @ rs', exp_is_type_only := ty'\<rparr>" "ty' \<longrightarrow> exp_is_type_only f"
    using assms(2) unfolding export_grows_def by blast
  have "g = e\<lparr>references := references e @ (rs @ rs'), exp_is_type_only := ty'\<rparr>" using 1(1) 2(1) by simp
  moreover have "ty' \<longrightarrow> exp_is_type_only e" using 1 2 by simp
  ultimately show ?thesis unfolding export_grows_def by blast
qed

lemma module_grows_exports:
  "list_all2 export_grows (exports m) es \<Longrightarrow> module_grows m (m\<lparr>exports := es\<rparr>)"
  unfolding module_grows_def by (metis append_Nil2)

lemma module_grows_refl [simp]: "module_grows m m"
  using module_grows_exports [of m "exports m"] by (simp add: list.rel_refl)

lemma module_grows_trans:
  assumes "module_grows m n" "module_grows n p"
  shows "module_grows m p"
proof -
  obtain old new where n: "n = m\<lparr>exports := old @ new\<rparr>" "list_all2 export_grows (exports m) old"
    using assms(1) by (auto simp: module_grows_def)
  obtain old' new' where p: "p = n\<lparr>exports := old' @ new'\<rparr>" "list_all2 export_grows (old @ new) old'"
    using assms(2) n by (auto simp: module_grows_def)
  obtain a b where ab: "old' = a @ b" "list_all2 export_grows old a" "list_all2 export_grows new b"
    using p(2) by (auto simp: list_all2_append1)
  have "list_all2 export_grows (exports m) a"
    using list_all2_trans [of export_grows export_grows export_grows] export_grows_trans n(2) ab(2) by blast
  moreover have "p = m\<lparr>exports := a @ (b @ new')\<rparr>" using p(1) n(1) ab(1) by simp
  ultimately show ?thesis unfolding module_grows_def by blast
qed

lemma list_all2_update: "(\<And>x. P x x) \<Longrightarrow> P (xs ! i) y \<Longrightarrow> list_all2 P xs (xs[i := y])"
  by (cases "i < length xs") (auto simp: list_all2_conv_all_nth nth_list_update)

lemma module_grows_map:
  "(\<And>e. export_grows e (f e)) \<Longrightarrow> module_grows m (m\<lparr>exports := map f (exports m)\<rparr>)"
  by (intro module_grows_exports) (simp add: list_all2_conv_all_nth)

end
