(* ===== verification/Reference_Narrowing.thy ===== *)
theory Reference_Narrowing
  imports Module_Growth
begin

text \<open>
  Attaching the references of one imported symbol to the exports of its target module
  (\<^verbatim>\<open>graph/src/graph/narrowing.rs\<close> and \<^verbatim>\<open>export_matches\<close>, \<^verbatim>\<open>is_css_module_path\<close> of
  \<^verbatim>\<open>graph/src/graph/build.rs\<close>). Namespace imports and default imports of CSS modules are
  narrowed to the members the importing file accesses. A resolved module that may be missing is
  an option value; the lookup by file is a partial function.
\<close>

section \<open>What the importing file says about a binding\<close>

definition file_stem_ext :: "string \<Rightarrow> string \<times> string option" where
  "file_stem_ext name =
     (case split_once CHR ''.'' (rev name) of
        Some (e, s) \<Rightarrow> if s = [] then (name, None) else (rev s, Some (rev e))
      | None \<Rightarrow> (name, None))"

definition ends_with :: "string \<Rightarrow> string \<Rightarrow> bool" where
  "ends_with s suf \<longleftrightarrow> strip_suffix suf s \<noteq> None"

definition is_css_module_path :: "path \<Rightarrow> bool" where
  "is_css_module_path p =
     (case file_name p of
        None \<Rightarrow> False
      | Some name \<Rightarrow> (case file_stem_ext name of (stem, ext) \<Rightarrow>
          ends_with stem ''.module'' \<and> (ext = Some ''css'' \<or> ext = Some ''scss'')))"

fun export_matches :: "ExportName \<Rightarrow> ImportedName \<Rightarrow> bool" where
  "export_matches (ExpNamed e) (ImpNamed i) = (e = i)"
| "export_matches ExpDefault ImpDefault = True"
| "export_matches _ _ = False"

definition is_unused_import_binding :: "string \<Rightarrow> ImportedName \<Rightarrow> ResolvedModule option \<Rightarrow> bool" where
  "is_unused_import_binding sym_local_name sym_imported_name source_mod \<longleftrightarrow>
     sym_local_name \<noteq> [] \<and> sym_imported_name \<noteq> ImpSideEffect \<and>
     (case source_mod of None \<Rightarrow> False | Some m \<Rightarrow> sym_local_name \<in> unused_import_bindings m)"

definition extract_accessed_members :: "ResolvedModule option \<Rightarrow> string \<Rightarrow> string list" where
  "extract_accessed_members source_mod local =
     (case source_mod of
        None \<Rightarrow> []
      | Some m \<Rightarrow> map ma_member (filter (\<lambda>ma. ma_object ma = local) (member_accesses m)))"

definition is_whole_object_use :: "ResolvedModule option \<Rightarrow> string \<Rightarrow> bool" where
  "is_whole_object_use source_mod local =
     (case source_mod of None \<Rightarrow> False | Some m \<Rightarrow> local \<in> set (whole_object_uses m))"

definition import_binding_has_type_usage :: "ResolvedModule option \<Rightarrow> string \<Rightarrow> bool" where
  "import_binding_has_type_usage source_mod local \<longleftrightarrow> local \<noteq> [] \<and>
     (case source_mod of None \<Rightarrow> False | Some m \<Rightarrow> local \<in> set (type_referenced_import_bindings m))"

definition import_binding_has_value_usage :: "ResolvedModule option \<Rightarrow> string \<Rightarrow> bool" where
  "import_binding_has_value_usage source_mod local \<longleftrightarrow> local \<noteq> [] \<and>
     (case source_mod of None \<Rightarrow> False | Some m \<Rightarrow> local \<in> set (value_referenced_import_bindings m))"

section \<open>Marking exports\<close>

definition attach_reference :: "FileId \<Rightarrow> ReferenceKind \<Rightarrow> Span \<Rightarrow> ExportSymbol \<Rightarrow> ExportSymbol" where
  "attach_reference source_id kind span e =
     (if \<forall>r \<in> set (references e). from_file r \<noteq> source_id
      then e\<lparr>references := references e @ [\<lparr>from_file = source_id, ref_kind = kind, ref_span = span\<rparr>]\<rparr>
      else e)"

definition mark_all_exports_referenced ::
  "ExportSymbol list \<Rightarrow> FileId \<Rightarrow> Span \<Rightarrow> ReferenceKind \<Rightarrow> ExportSymbol list" where
  "mark_all_exports_referenced es source_id span kind = map (attach_reference source_id kind span) es"

definition mark_member_exports_referenced ::
  "ExportSymbol list \<Rightarrow> FileId \<Rightarrow> string list \<Rightarrow> Span \<Rightarrow> ReferenceKind \<Rightarrow> ExportSymbol list \<times> string set" where
  "mark_member_exports_referenced es source_id accessed span kind =
     (map (\<lambda>e. if export_display (export_name e) \<in> set accessed then attach_reference source_id kind span e else e) es,
      {n \<in> set accessed. \<exists>e \<in> set es. export_display (export_name e) = n})"

definition synthetic_export :: "FileId \<Rightarrow> Span \<Rightarrow> string \<Rightarrow> ExportSymbol" where
  "synthetic_export source_id span member =
     \<lparr>export_name = export_name_of member, exp_is_type_only = False, is_side_effect_used = False,
      visibility = VisNone, expected_unused_reason = None, export_span = \<lparr>span_begin = 0, span_end = 0\<rparr>,
      references = [\<lparr>from_file = source_id, ref_kind = NamespaceImport, ref_span = span\<rparr>], members = []\<rparr>"

definition create_synthetic_exports_for_star_re_exports ::
  "ExportSymbol list \<Rightarrow> ReExportEdge list \<Rightarrow> FileId \<Rightarrow> string list \<Rightarrow> string set \<Rightarrow> Span \<Rightarrow> ExportSymbol list" where
  "create_synthetic_exports_for_star_re_exports es res source_id accessed found span =
     (if \<not> (\<exists>re \<in> set res. re_exported_name re = ''*'') then es
      else es @ map (synthetic_export source_id span) (filter (\<lambda>m. m \<notin> found) accessed))"

text \<open>Both steps together, as the callers run them for a set of accessed members.\<close>

definition credit_members :: "ModuleNode \<Rightarrow> FileId \<Rightarrow> string list \<Rightarrow> Span \<Rightarrow> ModuleNode" where
  "credit_members module source_id accessed span =
     (case mark_member_exports_referenced (exports module) source_id accessed span NamespaceImport of
        (es, found) \<Rightarrow> module\<lparr>exports :=
          create_synthetic_exports_for_star_re_exports es (re_exports module) source_id accessed found span\<rparr>)"

section \<open>Narrowing\<close>

definition narrow_namespace_references ::
  "ModuleNode \<Rightarrow> FileId \<Rightarrow> string \<Rightarrow> Span \<Rightarrow> (FileId \<Rightarrow> ResolvedModule option) \<Rightarrow> FileId set \<Rightarrow> ModuleNode" where
  "narrow_namespace_references module source_id sym_local_name span module_by_id entry_point_ids =
     (let source_mod = module_by_id source_id;
          accessed = extract_accessed_members source_mod sym_local_name;
          is_whole_object = is_whole_object_use source_mod sym_local_name;
          is_re_exported_from_non_entry =
            (case source_mod of None \<Rightarrow> False
             | Some m \<Rightarrow> \<exists>e \<in> set (rm_exports m). ei_local_name e = Some sym_local_name) \<and>
            source_id \<notin> entry_point_ids;
          is_entry_with_no_access = accessed = [] \<and> \<not> is_whole_object \<and> source_id \<in> entry_point_ids
      in if is_whole_object \<or> \<not> is_entry_with_no_access \<and> (accessed = [] \<or> is_re_exported_from_non_entry)
         then module\<lparr>exports := mark_all_exports_referenced (exports module) source_id span NamespaceImport\<rparr>
         else credit_members module source_id accessed span)"

definition narrow_css_module_references ::
  "ExportSymbol list \<Rightarrow> FileId \<Rightarrow> string \<Rightarrow> Span \<Rightarrow> (FileId \<Rightarrow> ResolvedModule option) \<Rightarrow> ExportSymbol list" where
  "narrow_css_module_references es source_id sym_local_name span module_by_id =
     (let source_mod = module_by_id source_id;
          accessed = extract_accessed_members source_mod sym_local_name
      in if is_whole_object_use source_mod sym_local_name \<or> accessed = []
         then mark_all_exports_referenced es source_id span DefaultImport
         else fst (mark_member_exports_referenced es source_id accessed span DefaultImport))"

definition reference_kind_for :: "ImportedName \<Rightarrow> ReferenceKind" where
  "reference_kind_for name =
     (case name of
        ImpNamed _ \<Rightarrow> NamedImport
      | ImpDefault \<Rightarrow> DefaultImport
      | ImpNamespace \<Rightarrow> NamespaceImport
      | ImpSideEffect \<Rightarrow> SideEffectImport)"

definition decide_attach_targets ::
  "ImportedSymbol \<Rightarrow> ResolvedModule option \<Rightarrow> bool \<Rightarrow> bool \<Rightarrow> bool \<times> bool" where
  "decide_attach_targets s source_mod has_type_exports has_value_exports =
     ((if \<not> has_type_exports then False
       else if \<not> has_value_exports \<or> sym_is_type_only s then True
       else import_binding_has_type_usage source_mod (local_name s)),
      (if \<not> has_value_exports then False
       else if \<not> has_type_exports then True
       else import_binding_has_value_usage source_mod (local_name s)))"

definition attach_at :: "FileId \<Rightarrow> ReferenceKind \<Rightarrow> Span \<Rightarrow> nat \<Rightarrow> ExportSymbol list \<Rightarrow> ExportSymbol list" where
  "attach_at source_id kind span idx es = es[idx := attach_reference source_id kind span (es ! idx)]"

definition attach_to_export_groups ::
  "ExportSymbol list \<Rightarrow> FileId \<Rightarrow> ImportedSymbol \<Rightarrow> ReferenceKind \<Rightarrow> nat list \<times> bool \<Rightarrow> nat list \<times> bool \<Rightarrow>
   ExportSymbol list" where
  "attach_to_export_groups es source_id s kind type_group value_group =
     fold (\<lambda>(grp, should_attach) es.
         if should_attach then fold (attach_at source_id kind (import_span s)) grp es else es)
       [type_group, value_group] es"

definition attach_direct_export_references ::
  "ModuleNode \<Rightarrow> FileId \<Rightarrow> ImportedSymbol \<Rightarrow> ResolvedModule option \<Rightarrow> ReferenceKind \<Rightarrow> ModuleNode" where
  "attach_direct_export_references target_module source_id s source_mod kind =
     (let es = exports target_module;
          matching = filter (\<lambda>i. export_matches (export_name (es ! i)) (imported_name s)) [0..<length es];
          type_exports = filter (\<lambda>i. exp_is_type_only (es ! i)) matching;
          value_exports = filter (\<lambda>i. \<not> exp_is_type_only (es ! i)) matching
      in if matching = [] then target_module
         else (case decide_attach_targets s source_mod (type_exports \<noteq> []) (value_exports \<noteq> []) of
           (attach_type, attach_value) \<Rightarrow>
             if attach_type \<or> attach_value then
               target_module\<lparr>exports := attach_to_export_groups es source_id s kind
                 (type_exports, attach_type) (value_exports, attach_value)\<rparr>
             else
               (let first_of = (\<lambda>a b. case a of i # _ \<Rightarrow> Some i | [] \<Rightarrow> (case b of i # _ \<Rightarrow> Some i | [] \<Rightarrow> None));
                    fallback = (if sym_is_type_only s then first_of type_exports value_exports
                                else first_of value_exports type_exports)
                in case fallback of
                     None \<Rightarrow> target_module
                   | Some i \<Rightarrow> target_module\<lparr>exports := attach_at source_id kind (import_span s) i es\<rparr>)))"

definition attach_symbol_reference ::
  "FileId \<Rightarrow> (FileId \<Rightarrow> ResolvedModule option) \<Rightarrow> FileId set \<Rightarrow> ImportedSymbol \<Rightarrow> ModuleNode \<Rightarrow> ModuleNode" where
  "attach_symbol_reference source_id module_by_id entry_point_ids s target_module =
     (if is_unused_import_binding (local_name s) (imported_name s) (module_by_id source_id) then target_module
      else
        (let m1 = attach_direct_export_references target_module source_id s (module_by_id source_id)
               (reference_kind_for (imported_name s));
             m2 = (if imported_name s = ImpNamespace then
                     (if local_name s = []
                      then m1\<lparr>exports := mark_all_exports_referenced (exports m1) source_id (import_span s) NamespaceImport\<rparr>
                      else narrow_namespace_references m1 source_id (local_name s) (import_span s)
                             module_by_id entry_point_ids)
                   else m1)
         in if imported_name s = ImpDefault \<and> local_name s \<noteq> [] \<and> is_css_module_path (node_path m2)
            then m2\<lparr>exports := narrow_css_module_references (exports m2) source_id (local_name s) (import_span s)
                   module_by_id\<rparr>
            else m2))"

section \<open>Attaching references only adds those of the importing file\<close>

definition referrers :: "ModuleNode \<Rightarrow> FileId set" where
  "referrers m = (\<Union>e \<in> set (exports m). files_of (references e))"

text \<open>
  The step of a pass that works for one importing file: the module grows, and every reference
  that is new is one of that file.
\<close>

definition credits :: "FileId \<Rightarrow> ModuleNode \<Rightarrow> ModuleNode \<Rightarrow> bool" where
  "credits f m m' \<longleftrightarrow> module_grows m m' \<and> referrers m' \<subseteq> insert f (referrers m)"

lemma credits_refl [simp]: "credits f m m"
  by (auto simp: credits_def)

lemma credits_trans: "credits f m n \<Longrightarrow> credits f n p \<Longrightarrow> credits f m p"
  using module_grows_trans by (auto simp: credits_def)

lemma attach_reference_grows [simp]: "export_grows e (attach_reference f kind span e)"
  by (auto simp: attach_reference_def)

lemma files_attach_reference [simp]: "files_of (references (attach_reference f kind span e)) = insert f (files_of (references e))"
  by (auto simp: attach_reference_def files_of_def)

lemma export_name_attach_reference [simp]: "export_name (attach_reference f kind span e) = export_name e"
  by (simp add: attach_reference_def)

lemma credits_map:
  assumes "\<And>e. export_grows e (h e) \<and> files_of (references (h e)) \<subseteq> insert f (files_of (references e))"
  shows "credits f m (m\<lparr>exports := map h (exports m)\<rparr>)"
proof -
  have "module_grows m (m\<lparr>exports := map h (exports m)\<rparr>)" using assms by (intro module_grows_map) blast
  moreover have "files_of (references (h e)) \<subseteq> insert f (\<Union>e \<in> set (exports m). files_of (references e))"
    if "e \<in> set (exports m)" for e
    using assms [of e] that by blast
  then have "referrers (m\<lparr>exports := map h (exports m)\<rparr>) \<subseteq> insert f (referrers m)" by (auto simp: referrers_def)
  ultimately show ?thesis by (simp add: credits_def)
qed

lemma credits_mark_all: "credits f m (m\<lparr>exports := mark_all_exports_referenced (exports m) f span kind\<rparr>)"
  unfolding mark_all_exports_referenced_def by (rule credits_map) simp

lemma credits_mark_members:
  "credits f m (m\<lparr>exports := fst (mark_member_exports_referenced (exports m) f accessed span kind)\<rparr>)"
  unfolding mark_member_exports_referenced_def fst_conv by (rule credits_map) auto

lemma credits_credit_members: "credits f m (credit_members m f accessed span)"
proof -
  let ?es = "fst (mark_member_exports_referenced (exports m) f accessed span NamespaceImport)"
  let ?found = "snd (mark_member_exports_referenced (exports m) f accessed span NamespaceImport)"
  let ?new = "map (synthetic_export f span) (filter (\<lambda>x. x \<notin> ?found) accessed)"
  have c: "credits f m (m\<lparr>exports := ?es\<rparr>)" by (rule credits_mark_members)
  have "module_grows (m\<lparr>exports := ?es\<rparr>) (m\<lparr>exports := ?es @ ?new\<rparr>)"
    unfolding module_grows_def by (intro exI [of _ ?es] exI [of _ ?new]) (simp add: list.rel_refl)
  then have "credits f (m\<lparr>exports := ?es\<rparr>) (m\<lparr>exports := ?es @ ?new\<rparr>)"
    by (auto simp: credits_def referrers_def synthetic_export_def files_of_def)
  with c have "credits f m (m\<lparr>exports := ?es @ ?new\<rparr>)" by (rule credits_trans)
  with c show ?thesis
    by (auto simp: credit_members_def create_synthetic_exports_for_star_re_exports_def split: prod.splits)
qed

lemma credits_update:
  "export_grows (exports m ! i) e \<Longrightarrow> files_of (references e) \<subseteq> insert f (files_of (references (exports m ! i))) \<Longrightarrow>
   credits f m (m\<lparr>exports := (exports m)[i := e]\<rparr>)"
proof (cases "i < length (exports m)")
  case True
  assume e: "export_grows (exports m ! i) e" "files_of (references e) \<subseteq> insert f (files_of (references (exports m ! i)))"
  have "module_grows m (m\<lparr>exports := (exports m)[i := e]\<rparr>)"
    using e(1) by (intro module_grows_exports list_all2_update) simp_all
  moreover have "files_of (references e') \<subseteq> insert f (referrers m)" if "e' \<in> set ((exports m)[i := e])" for e'
  proof -
    have "e' = e \<or> e' \<in> set (exports m)" using that set_update_subset_insert [of "exports m" i e] by auto
    moreover have "exports m ! i \<in> set (exports m)" using True by simp
    ultimately show ?thesis using e(2) unfolding referrers_def by blast
  qed
  then have "referrers (m\<lparr>exports := (exports m)[i := e]\<rparr>) \<subseteq> insert f (referrers m)"
    unfolding referrers_def by auto
  ultimately show ?thesis by (simp add: credits_def)
qed (simp add: list_update_beyond)

lemma credits_attach_at: "credits f m (m\<lparr>exports := attach_at f kind span i (exports m)\<rparr>)"
  unfolding attach_at_def by (rule credits_update) simp_all

lemma credits_fold_attach:
  "credits f m (m\<lparr>exports := fold (attach_at f kind span) grp (exports m)\<rparr>)"
proof (induction grp arbitrary: m)
  case (Cons i grp)
  show ?case
    using credits_trans [OF credits_attach_at [of f m kind span i] Cons [of "m\<lparr>exports := attach_at f kind span i (exports m)\<rparr>"]]
    by simp
qed simp

lemma credits_attach_groups:
  "credits f m (m\<lparr>exports := attach_to_export_groups (exports m) f s kind tg vg\<rparr>)"
proof -
  obtain tgs ta vgs va where g: "tg = (tgs, ta)" "vg = (vgs, va)" by fastforce
  let ?f = "fold (attach_at f kind (import_span s))"
  have "credits f m (m\<lparr>exports := ?f vgs (?f tgs (exports m))\<rparr>)"
    using credits_trans [OF credits_fold_attach [of f m kind "import_span s" tgs]
        credits_fold_attach [of f "m\<lparr>exports := ?f tgs (exports m)\<rparr>" kind "import_span s" vgs]] by simp
  then show ?thesis by (simp add: attach_to_export_groups_def g credits_fold_attach)
qed

lemma credits_attach_direct: "credits f m (attach_direct_export_references m f s source_mod kind)"
  by (simp add: attach_direct_export_references_def Let_def credits_attach_groups credits_attach_at
      split: prod.splits option.splits)

lemma credits_narrow_namespace:
  "credits f m (narrow_namespace_references m f local span module_by_id entry_point_ids)"
  by (simp add: narrow_namespace_references_def Let_def credits_mark_all credits_credit_members)

lemma credits_narrow_css:
  "credits f m (m\<lparr>exports := narrow_css_module_references (exports m) f local span module_by_id\<rparr>)"
  by (simp add: narrow_css_module_references_def Let_def credits_mark_all credits_mark_members)

lemma attach_symbol_reference_credits:
  "credits f m (attach_symbol_reference f module_by_id entry_point_ids s m)"
proof -
  define m1 where "m1 = attach_direct_export_references m f s (module_by_id f) (reference_kind_for (imported_name s))"
  define m2 where "m2 = (if imported_name s = ImpNamespace then
                     (if local_name s = []
                      then m1\<lparr>exports := mark_all_exports_referenced (exports m1) f (import_span s) NamespaceImport\<rparr>
                      else narrow_namespace_references m1 f (local_name s) (import_span s)
                             module_by_id entry_point_ids)
                   else m1)"
  have "credits f m m1" unfolding m1_def by (rule credits_attach_direct)
  moreover have "credits f m1 m2" by (simp add: m2_def credits_mark_all credits_narrow_namespace)
  ultimately have 2: "credits f m m2" by (rule credits_trans)
  then show ?thesis
    using credits_trans [OF 2 credits_narrow_css]
    unfolding attach_symbol_reference_def Let_def m1_def [symmetric] m2_def [symmetric] by simp
qed

section \<open>A named or default import reaches an export it matches\<close>

definition used_by :: "FileId \<Rightarrow> ImportedName \<Rightarrow> ModuleNode \<Rightarrow> bool" where
  "used_by f n m \<longleftrightarrow> (\<exists>e \<in> set (exports m). export_matches (export_name e) n \<and> f \<in> files_of (references e))"

lemma used_by_grows:
  assumes "module_grows m m'" "used_by f n m"
  shows "used_by f n m'"
proof -
  obtain old new where m': "m' = m\<lparr>exports := old @ new\<rparr>" "list_all2 export_grows (exports m) old"
    using assms(1) by (auto simp: module_grows_def)
  obtain i where i: "i < length (exports m)" "export_matches (export_name (exports m ! i)) n"
      "f \<in> files_of (references (exports m ! i))"
    using assms(2) by (auto simp: used_by_def in_set_conv_nth)
  have "export_grows (exports m ! i) (old ! i)" "i < length old"
    using m'(2) i(1) by (auto simp: list_all2_conv_all_nth)
  then have "old ! i \<in> set (exports m')" "export_matches (export_name (old ! i)) n"
      "f \<in> files_of (references (old ! i))"
    using i m'(1) by (auto simp: export_grows_def files_of_def)
  then show ?thesis unfolding used_by_def by blast
qed

lemma fold_attach_keeps:
  assumes "i < length es" "f \<in> files_of (references (es ! i)) \<or> i \<in> set grp"
  shows "f \<in> files_of (references (fold (attach_at f kind span) grp es ! i)) \<and>
    export_name (fold (attach_at f kind span) grp es ! i) = export_name (es ! i) \<and>
    length (fold (attach_at f kind span) grp es) = length es"
  using assms
proof (induction grp arbitrary: es)
  case (Cons j grp)
  have "f \<in> files_of (references (attach_at f kind span j es ! i)) \<or> i \<in> set grp"
      "export_name (attach_at f kind span j es ! i) = export_name (es ! i)" "length (attach_at f kind span j es) = length es"
    using Cons.prems by (cases "i = j"; simp add: attach_at_def)+
  then show ?case using Cons.IH [of "attach_at f kind span j es"] Cons.prems(1) by simp
qed simp

lemma attach_groups_reach:
  assumes "i < length es" "i \<in> set tgs \<and> ta \<or> i \<in> set vgs \<and> va"
  shows "i < length (attach_to_export_groups es f s kind (tgs, ta) (vgs, va)) \<and>
    f \<in> files_of (references (attach_to_export_groups es f s kind (tgs, ta) (vgs, va) ! i)) \<and>
    export_name (attach_to_export_groups es f s kind (tgs, ta) (vgs, va) ! i) = export_name (es ! i)"
proof -
  define es1 where "es1 = (if ta then fold (attach_at f kind (import_span s)) tgs es else es)"
  have n: "i < length (fold (attach_at f kind (import_span s)) grp xs)"
      "export_name (fold (attach_at f kind (import_span s)) grp xs ! i) = export_name (xs ! i)"
    if "i < length xs" for grp xs
  proof -
    have "length (fold (attach_at f kind (import_span s)) grp xs) = length xs \<and>
        export_name (fold (attach_at f kind (import_span s)) grp xs ! i) = export_name (xs ! i)"
      using that
    proof (induction grp arbitrary: xs)
      case (Cons j grp)
      have "export_name (attach_at f kind (import_span s) j xs ! i) = export_name (xs ! i)"
        using Cons.prems by (cases "i = j") (simp_all add: attach_at_def)
      then show ?case using Cons.IH [of "attach_at f kind (import_span s) j xs"] Cons.prems
        by (simp add: attach_at_def)
    qed simp
    then show "i < length (fold (attach_at f kind (import_span s)) grp xs)"
      "export_name (fold (attach_at f kind (import_span s)) grp xs ! i) = export_name (xs ! i)"
      using that by simp_all
  qed
  have 1: "i < length es1" "export_name (es1 ! i) = export_name (es ! i)"
      "i \<in> set tgs \<and> ta \<Longrightarrow> f \<in> files_of (references (es1 ! i))"
    using assms(1) n [of es tgs] fold_attach_keeps [of i es f tgs kind "import_span s"]
    by (simp_all add: es1_def)
  have "attach_to_export_groups es f s kind (tgs, ta) (vgs, va) =
      (if va then fold (attach_at f kind (import_span s)) vgs es1 else es1)"
    by (simp add: attach_to_export_groups_def es1_def)
  then show ?thesis
    using 1 n [of es1 vgs] assms(2) fold_attach_keeps [of i es1 f vgs kind "import_span s"] by auto
qed

lemma attach_direct_reaches:
  assumes "\<exists>e \<in> set (exports m). export_matches (export_name e) (imported_name s)"
  shows "used_by f (imported_name s) (attach_direct_export_references m f s source_mod kind)"
proof -
  let ?es = "exports m"
  let ?M = "filter (\<lambda>i. export_matches (export_name (?es ! i)) (imported_name s)) [0..<length ?es]"
  let ?T = "filter (\<lambda>i. exp_is_type_only (?es ! i)) ?M" and ?V = "filter (\<lambda>i. \<not> exp_is_type_only (?es ! i)) ?M"
  obtain at av where d: "decide_attach_targets s source_mod (?T \<noteq> []) (?V \<noteq> []) = (at, av)" by fastforce
  obtain k where k: "k \<in> set ?M" using assms by (auto simp: in_set_conv_nth)
  then have M: "?M \<noteq> []" by (metis empty_iff list.set(1))
  have used: "used_by f (imported_name s) (m\<lparr>exports := es'\<rparr>)"
    if "i \<in> set ?M" "i < length es'" "f \<in> files_of (references (es' ! i))" "export_name (es' ! i) = export_name (?es ! i)"
    for i es'
    using that by (auto simp: used_by_def intro!: bexI [of _ "es' ! i"])
  show ?thesis
  proof (cases "at \<or> av")
    case True
    then obtain i where i: "i \<in> set ?T \<and> at \<or> i \<in> set ?V \<and> av"
    proof
      assume at
      then have "?T \<noteq> []" using d by (auto simp: decide_attach_targets_def split: if_splits)
      then obtain i where "i \<in> set ?T" using last_in_set by blast
      with \<open>at\<close> that show thesis by blast
    next
      assume av
      then have "?V \<noteq> []" using d by (auto simp: decide_attach_targets_def split: if_splits)
      then obtain i where "i \<in> set ?V" using last_in_set by blast
      with \<open>av\<close> that show thesis by blast
    qed
    then have iM: "i \<in> set ?M" by auto
    then have "i < length ?es" by simp
    note r = attach_groups_reach [OF this i, of f s kind]
    have "attach_direct_export_references m f s source_mod kind =
        m\<lparr>exports := attach_to_export_groups ?es f s kind (?T, at) (?V, av)\<rparr>"
      using M d True by (simp only: attach_direct_export_references_def Let_def if_False prod.case if_True)
    then show ?thesis using used [OF iM] r by simp
  next
    case False
    have "k \<in> set ?T \<or> k \<in> set ?V" using k by auto
    then have "?T \<noteq> [] \<or> ?V \<noteq> []" by (metis empty_iff list.set(1))
    then have "?T \<noteq> []" "?V \<noteq> []" using d False
      by (simp_all only: decide_attach_targets_def Pair_inject split: if_splits) auto
    then obtain t ts v vs where tv: "?T = t # ts" "?V = v # vs" by (cases ?T; cases ?V) (simp_all only: list.distinct simp_thms)
    define i where "i = (if sym_is_type_only s then t else v)"
    have "t \<in> set ?T" "v \<in> set ?V" using tv by (metis list.set_intros(1))+
    then have iM: "i \<in> set ?M" by (auto simp: i_def)
    have "attach_direct_export_references m f s source_mod kind =
        m\<lparr>exports := attach_at f kind (import_span s) i ?es\<rparr>"
      using M d False tv by (simp only: attach_direct_export_references_def Let_def if_False prod.case if_True list.case i_def
          option.case split: if_split) simp
    moreover have "i < length ?es" using iM by simp
    ultimately show ?thesis using used [OF iM, of "attach_at f kind (import_span s) i ?es"]
      by (simp add: attach_at_def)
  qed
qed

lemma attach_symbol_reference_reaches:
  assumes "\<not> is_unused_import_binding (local_name s) (imported_name s) (module_by_id f)"
    and "\<exists>e \<in> set (exports m). export_matches (export_name e) (imported_name s)"
  shows "used_by f (imported_name s) (attach_symbol_reference f module_by_id entry_point_ids s m)"
proof -
  define m1 where "m1 = attach_direct_export_references m f s (module_by_id f) (reference_kind_for (imported_name s))"
  define m2 where "m2 = (if imported_name s = ImpNamespace then
                     (if local_name s = []
                      then m1\<lparr>exports := mark_all_exports_referenced (exports m1) f (import_span s) NamespaceImport\<rparr>
                      else narrow_namespace_references m1 f (local_name s) (import_span s)
                             module_by_id entry_point_ids)
                   else m1)"
  have "used_by f (imported_name s) m1" unfolding m1_def using assms(2) by (rule attach_direct_reaches)
  moreover have "credits f m1 m2" by (simp add: m2_def credits_mark_all credits_narrow_namespace)
  moreover have "credits f m2 (attach_symbol_reference f module_by_id entry_point_ids s m)"
    using assms(1) credits_narrow_css
    unfolding attach_symbol_reference_def Let_def m1_def [symmetric] m2_def [symmetric] by simp
  ultimately show ?thesis using used_by_grows by (auto simp: credits_def)
qed

end
