(* ===== verification/Detector_Pass.thy ===== *)
theory Detector_Pass
  imports Suppression_Context Line_Offsets Graph_Types Reference_Narrowing
begin

text \<open>
  What the detectors of \<^verbatim>\<open>crates/core/src/analyze/\<close> share: a pass over items that asks the
  suppression context and collects findings, the lookup of a module by its file, and the
  predicates on paths of \<^verbatim>\<open>analyze/predicates/file.rs\<close>.  A pass that the code runs in parallel is
  run in the order of its results; the answers of the context do not depend on the order, which
  is what the locale rests on.
\<close>

section \<open>Passes\<close>

fun collect_findings :: "('a \<Rightarrow> 's \<Rightarrow> 'b list \<times> 's) \<Rightarrow> 'a list \<Rightarrow> 's \<Rightarrow> 'b list \<times> 's" where
  "collect_findings step [] s = ([], s)"
| "collect_findings step (x # xs) s =
     (let (ys, s) = step x s; (zs, s) = collect_findings step xs s in (ys @ zs, s))"

text \<open>
  A step that keeps an invariant and whose findings do not depend on the state within it: the pass
  returns the findings of the items one after the other.
\<close>

locale detector_pass =
  fixes step :: "'a \<Rightarrow> 's \<Rightarrow> 'b list \<times> 's" and inv :: "'s \<Rightarrow> bool" and out :: "'a \<Rightarrow> 'b list"
  assumes step_inv: "inv s \<Longrightarrow> inv (snd (step x s))" and step_out: "inv s \<Longrightarrow> fst (step x s) = out x"
begin

lemma pass: "inv s \<Longrightarrow> fst (collect_findings step xs s) = concat (map out xs) \<and> inv (snd (collect_findings step xs s))"
proof (induction xs arbitrary: s)
  case (Cons x xs)
  show ?case
    using Cons.IH [OF step_inv [OF Cons.prems, of x]] step_out [OF Cons.prems, of x]
    by (simp add: Let_def case_prod_beta)
qed simp

lemmas pass_out = pass [THEN conjunct1] and pass_inv = pass [THEN conjunct2]

end

section \<open>The answers of the context\<close>

text \<open>A context with the directives of a given one, whatever flags are set.\<close>

definition same_directives :: "SuppressionContext \<Rightarrow> SuppressionContext \<Rightarrow> bool" where
  "same_directives ctx0 ctx \<longleftrightarrow> ctx_ok ctx \<and> by_file ctx = by_file ctx0"

definition line_silenced :: "SuppressionContext \<Rightarrow> nat \<Rightarrow> nat \<Rightarrow> IssueKind \<Rightarrow> bool" where
  "line_silenced ctx fid line kind \<longleftrightarrow>
     (case ctx_get ctx fid of None \<Rightarrow> False | Some supps \<Rightarrow> is_suppressed supps line kind)"

definition file_silenced :: "SuppressionContext \<Rightarrow> nat \<Rightarrow> IssueKind \<Rightarrow> bool" where
  "file_silenced ctx fid kind \<longleftrightarrow>
     (case ctx_get ctx fid of None \<Rightarrow> False | Some supps \<Rightarrow> is_file_suppressed supps kind)"

lemma same_directives_refl: "ctx_ok ctx \<Longrightarrow> same_directives ctx ctx"
  by (simp add: same_directives_def)

lemma asked_directives:
  assumes "same_directives ctx0 ctx"
  shows "same_directives ctx0 (snd (ctx_is_suppressed ctx fid line kind))"
    "same_directives ctx0 (snd (ctx_is_file_suppressed ctx fid kind))"
    "fst (ctx_is_suppressed ctx fid line kind) = line_silenced ctx0 fid line kind"
    "fst (ctx_is_file_suppressed ctx fid kind) = file_silenced ctx0 fid kind"
  using assms
  by (auto simp: same_directives_def ctx_is_suppressed_def ctx_is_file_suppressed_def mark_first_ok mark_first_by_file
      mark_first_answer line_silenced_def file_silenced_def ctx_get_def is_suppressed_def is_file_suppressed_def
      split: option.splits)

section \<open>Modules and paths\<close>

definition module_at :: "ModuleGraph \<Rightarrow> FileId \<Rightarrow> ModuleNode option" where
  "module_at g f = (if f < length (modules g) then Some (modules g ! f) else None)"

definition reachable_at :: "ModuleGraph \<Rightarrow> FileId \<Rightarrow> bool" where
  "reachable_at g f \<longleftrightarrow> (case module_at g f of None \<Rightarrow> False | Some m \<Rightarrow> is_reachable m)"

lemma reachable_at_iff: "reachable_at g f \<longleftrightarrow> f < length (modules g) \<and> is_reachable (modules g ! f)"
  by (simp add: reachable_at_def module_at_def)

definition starts_with :: "string \<Rightarrow> string \<Rightarrow> bool" where
  "starts_with s p \<longleftrightarrow> strip_prefix p s \<noteq> None"

fun str_contains :: "string \<Rightarrow> string \<Rightarrow> bool" where
  "str_contains [] p = (p = [])"
| "str_contains (c # s) p = (starts_with (c # s) p \<or> str_contains s p)"

definition name_or_empty :: "path \<Rightarrow> string" where
  "name_or_empty p = (case file_name p of None \<Rightarrow> [] | Some name \<Rightarrow> name)"

definition extension_of :: "path \<Rightarrow> string option" where
  "extension_of p = (case file_name p of None \<Rightarrow> None | Some name \<Rightarrow> snd (file_stem_ext name))"

definition is_declaration_file :: "path \<Rightarrow> bool" where
  "is_declaration_file p =
     (let name = name_or_empty p
      in ends_with name ''.d.ts'' \<or> ends_with name ''.d.mts'' \<or> ends_with name ''.d.cts'')"

definition is_html_file :: "path \<Rightarrow> bool" where
  "is_html_file p \<longleftrightarrow> extension_of p = Some ''html''"

definition config_patterns :: "string list" where
  "config_patterns =
     [''babel.config.'', ''rollup.config.'', ''webpack.config.'', ''postcss.config.'', ''stencil.config.'',
      ''remotion.config.'', ''metro.config.'', ''tsup.config.'', ''unbuild.config.'', ''esbuild.config.'',
      ''swc.config.'', ''turbo.'', ''jest.config.'', ''jest.setup.'', ''vitest.config.'', ''vitest.ci.config.'',
      ''vitest.setup.'', ''vitest.workspace.'', ''playwright.config.'', ''cypress.config.'', ''karma.conf.'',
      ''eslint.config.'', ''prettier.config.'', ''stylelint.config.'', ''lint-staged.config.'',
      ''commitlint.config.'', ''next.config.'', ''next-sitemap.config.'', ''nuxt.config.'', ''astro.config.'',
      ''sanity.config.'', ''vite.config.'', ''tailwind.config.'', ''drizzle.config.'', ''knexfile.'',
      ''sentry.client.config.'', ''sentry.server.config.'', ''sentry.edge.config.'', ''react-router.config.'',
      ''typedoc.'', ''knip.config.'', ''fallow.config.'', ''i18next-parser.config.'', ''codegen.config.'',
      ''graphql.config.'', ''npmpackagejsonlint.config.'', ''release-it.'', ''release.config.'',
      ''contentlayer.config.'', ''next-env.d.'', ''env.d.'', ''vite-env.d.'']"

definition is_config_file :: "path \<Rightarrow> bool" where
  "is_config_file p =
     (let name = name_or_empty p
      in if starts_with name ''.'' \<and> \<not> starts_with name ''..'' \<and> str_contains (to_ascii_lowercase name) ''rc.'' then True
         else list_ex (\<lambda>pat. starts_with name pat) config_patterns)"

definition is_barrel_with_reachable_sources :: "ModuleNode \<Rightarrow> ModuleGraph \<Rightarrow> bool" where
  "is_barrel_with_reachable_sources m graph =
     (if re_exports m = [] then False
      else let has_local_exports =
                 list_ex (\<lambda>e. span_begin (export_span e) \<noteq> 0 \<or> span_end (export_span e) \<noteq> 0) (exports m)
           in if has_local_exports \<or> has_cjs_exports m then False
              else list_ex (\<lambda>re. reachable_at graph (source_file re)) (re_exports m))"

end
