(* ===== verification/Unused_Files.thy ===== *)
theory Unused_Files
  imports Detector_Pass
begin

text \<open>
  The detector of unused files (\<^verbatim>\<open>crates/core/src/analyze/unused_files.rs\<close>).  Whether a path
  exists on disk is a parameter.
\<close>

record UnusedFile =
  unused_file_path :: path

definition has_reachable_importer :: "FileId \<Rightarrow> ModuleGraph \<Rightarrow> bool" where
  "has_reachable_importer f graph =
     (if f \<ge> length (reverse_deps graph) then False
      else list_ex (\<lambda>dep. dep < length (modules graph) \<and> is_reachable (modules graph ! dep)) (reverse_deps graph ! f))"

definition has_reachable_export_reference :: "FileId \<Rightarrow> ModuleGraph \<Rightarrow> bool" where
  "has_reachable_export_reference f graph =
     (case module_at graph f of None \<Rightarrow> False
      | Some m \<Rightarrow> list_ex (\<lambda>e. list_ex (\<lambda>r. reachable_at graph (from_file r)) (references e)) (exports m))"

text \<open>The filters in front of the two that ask the outside.\<close>

definition unused_file_candidate :: "ModuleGraph \<Rightarrow> ModuleNode \<Rightarrow> bool" where
  "unused_file_candidate graph m \<longleftrightarrow>
     (\<not> is_reachable m \<and> \<not> is_entry_point m) \<and> \<not> is_declaration_file (node_path m) \<and>
     \<not> is_config_file (node_path m) \<and> \<not> is_html_file (node_path m) \<and>
     \<not> is_barrel_with_reachable_sources m graph \<and> \<not> has_reachable_importer (ModuleNode.file_id m) graph \<and>
     \<not> has_reachable_export_reference (ModuleNode.file_id m) graph"

definition unused_file_step ::
  "(path \<Rightarrow> bool) \<Rightarrow> ModuleGraph \<Rightarrow> ModuleNode \<Rightarrow> SuppressionContext \<Rightarrow> UnusedFile list \<times> SuppressionContext" where
  "unused_file_step path_exists graph m ctx =
     (if unused_file_candidate graph m \<and> path_exists (node_path m)
      then let (suppressed, ctx) = ctx_is_file_suppressed ctx (ModuleNode.file_id m) UnusedFile
           in (if suppressed then [] else [\<lparr>unused_file_path = node_path m\<rparr>], ctx)
      else ([], ctx))"

definition find_unused_files ::
  "(path \<Rightarrow> bool) \<Rightarrow> ModuleGraph \<Rightarrow> SuppressionContext \<Rightarrow> UnusedFile list \<times> SuppressionContext" where
  "find_unused_files path_exists graph = collect_findings (unused_file_step path_exists graph) (modules graph)"

definition unused_file_of :: "(path \<Rightarrow> bool) \<Rightarrow> ModuleGraph \<Rightarrow> SuppressionContext \<Rightarrow> ModuleNode \<Rightarrow> UnusedFile list" where
  "unused_file_of path_exists graph ctx m =
     (if unused_file_candidate graph m \<and> path_exists (node_path m) \<and>
        \<not> file_silenced ctx (ModuleNode.file_id m) UnusedFile then [\<lparr>unused_file_path = node_path m\<rparr>] else [])"

interpretation unused_files: detector_pass "unused_file_step path_exists graph" "same_directives ctx"
    "unused_file_of path_exists graph ctx" for path_exists graph ctx
  by unfold_locales (auto simp: unused_file_step_def unused_file_of_def Let_def case_prod_beta asked_directives)

lemma find_unused_files_out:
  "ctx_ok ctx \<Longrightarrow> fst (find_unused_files path_exists graph ctx) =
     concat (map (unused_file_of path_exists graph ctx) (modules graph))"
  unfolding find_unused_files_def by (rule unused_files.pass_out [OF same_directives_refl])

lemma find_unused_files_mem:
  assumes "ctx_ok ctx"
  shows "u \<in> set (fst (find_unused_files path_exists graph ctx)) \<longleftrightarrow>
    (\<exists>m \<in> set (modules graph). unused_file_path u = node_path m \<and> unused_file_candidate graph m \<and>
       path_exists (node_path m) \<and> \<not> file_silenced ctx (ModuleNode.file_id m) UnusedFile)"
  unfolding find_unused_files_out [OF assms] by (cases u) (force simp: unused_file_of_def)

end
