(* ===== verification/Unused_Exports.thy ===== *)
theory Unused_Exports
  imports Detector_Pass
begin

text \<open>
  The detector of unused exports (\<^verbatim>\<open>crates/core/src/analyze/unused_exports.rs\<close>) with the rules that
  exempt exports: configured globs (\<^verbatim>\<open>config/src/config/resolution.rs\<close>), rules of plugins
  (\<^verbatim>\<open>core/src/plugins/mod.rs\<close>) and uses inside the file.  Globs, regular expressions, the text of
  a file and the binding analysis of the oxc semantic model are parameters.
\<close>

section \<open>Rules\<close>

record CompiledIgnoreExportRule =
  ignore_matcher :: "string \<Rightarrow> bool"
  ignore_exports :: "string list"

record IgnoreExportsUsedInFileByKind =
  by_type :: bool
  by_interface :: bool

datatype IgnoreExportsUsedInFileConfig = IgnoreBool bool | IgnoreByKind IgnoreExportsUsedInFileByKind

fun ignore_is_enabled :: "IgnoreExportsUsedInFileConfig \<Rightarrow> bool" where
  "ignore_is_enabled (IgnoreBool value) = value"
| "ignore_is_enabled (IgnoreByKind kind) = (by_type kind \<or> by_interface kind)"

fun ignore_suppresses :: "IgnoreExportsUsedInFileConfig \<Rightarrow> bool \<Rightarrow> bool" where
  "ignore_suppresses (IgnoreBool value) type_only = value"
| "ignore_suppresses (IgnoreByKind kind) type_only = (type_only \<and> (by_type kind \<or> by_interface kind))"

text \<open>The configuration with the fields this detector reads.\<close>

record ExportConfig = ResolvedConfig +
  compiled_ignore_exports :: "CompiledIgnoreExportRule list"
  ignore_exports_used_in_file :: IgnoreExportsUsedInFileConfig
  include_entry_exports :: bool

record PathRule =
  rule_pattern :: string
  rule_exclude_globs :: "string list"
  rule_exclude_regexes :: "string list"
  rule_exclude_segment_regexes :: "string list"

record PluginUsedExportRule =
  plugin_name :: string
  used_path :: PathRule
  used_exports :: "string list"

text \<open>The compilers of patterns: \<open>None\<close> for an invalid pattern.\<close>

record PatternCompilers =
  glob :: "string \<Rightarrow> (string \<Rightarrow> bool) option"
  literal_glob :: "string \<Rightarrow> (string \<Rightarrow> bool) option"
  regex :: "string \<Rightarrow> (string \<Rightarrow> bool) option"

record CompiledPathRule =
  include_glob :: "string \<Rightarrow> bool"
  exclude_globs :: "(string \<Rightarrow> bool) list"
  exclude_regexes :: "(string \<Rightarrow> bool) list"
  exclude_segment_regexes :: "(string \<Rightarrow> bool) list"

definition for_used_export_rule :: "PatternCompilers \<Rightarrow> PathRule \<Rightarrow> CompiledPathRule option" where
  "for_used_export_rule pc rule =
     (case glob pc (rule_pattern rule) of None \<Rightarrow> None
      | Some incl \<Rightarrow> Some
          \<lparr>include_glob = incl,
           exclude_globs = List.map_filter (literal_glob pc) (rule_exclude_globs rule),
           exclude_regexes = List.map_filter (regex pc) (rule_exclude_regexes rule),
           exclude_segment_regexes = List.map_filter (regex pc) (rule_exclude_segment_regexes rule)\<rparr>)"

definition matches_segment_regex :: "string \<Rightarrow> (string \<Rightarrow> bool) list \<Rightarrow> bool" where
  "matches_segment_regex p regexes \<longleftrightarrow>
     list_ex (\<lambda>segment. list_ex (\<lambda>r. r segment) regexes) (split_on (\<lambda>c. c = CHR ''/'') p)"

definition path_rule_matches :: "CompiledPathRule \<Rightarrow> string \<Rightarrow> bool" where
  "path_rule_matches self p \<longleftrightarrow>
     include_glob self p \<and> \<not> list_ex (\<lambda>g. g p) (exclude_globs self) \<and>
     \<not> list_ex (\<lambda>r. r p) (exclude_regexes self) \<and> \<not> matches_segment_regex p (exclude_segment_regexes self)"

record CompiledUsedExportRule =
  compiled_path :: CompiledPathRule
  compiled_exports :: "string list"

definition compile_used_export_rule :: "PatternCompilers \<Rightarrow> PluginUsedExportRule \<Rightarrow> CompiledUsedExportRule option" where
  "compile_used_export_rule pc rule =
     (case for_used_export_rule pc (used_path rule) of None \<Rightarrow> None
      | Some p \<Rightarrow> Some \<lparr>compiled_path = p, compiled_exports = used_exports rule\<rparr>)"

text \<open>What the detectors of exports read of the plugin results.\<close>

record AggregatedPluginResult =
  active_plugins :: "string list"
  plugin_used_exports :: "PluginUsedExportRule list"

definition compile_plugin_matchers :: "PatternCompilers \<Rightarrow> AggregatedPluginResult option \<Rightarrow> CompiledUsedExportRule list" where
  "compile_plugin_matchers pc plugin_result =
     (case plugin_result of None \<Rightarrow> []
      | Some pr \<Rightarrow> List.map_filter (compile_used_export_rule pc) (plugin_used_exports pr))"

definition relative_path :: "path \<Rightarrow> path \<Rightarrow> path" where
  "relative_path file_path config_root =
     (case strip_prefix config_root file_path of Some r \<Rightarrow> r | None \<Rightarrow> file_path)"

definition matchers_for_module ::
  "path \<Rightarrow> path \<Rightarrow> CompiledIgnoreExportRule list \<Rightarrow> CompiledUsedExportRule list \<Rightarrow> string list list \<times> string list list" where
  "matchers_for_module file_path config_root ignore_matchers plugin_matchers =
     (if ignore_matchers = [] \<and> plugin_matchers = [] then ([], [])
      else let file_str = path_string (relative_path file_path config_root)
           in (map ignore_exports (filter (\<lambda>rule. ignore_matcher rule file_str) ignore_matchers),
               map compiled_exports (filter (\<lambda>rule. path_rule_matches (compiled_path rule) file_str) plugin_matchers)))"

definition is_export_ignored :: "string \<Rightarrow> string list list \<Rightarrow> string list list \<Rightarrow> bool" where
  "is_export_ignored name matching_ignore matching_plugin \<longleftrightarrow>
     list_ex (\<lambda>exps. list_ex (\<lambda>e. e = ''*'' \<or> e = name) exps) matching_ignore \<or>
     list_ex (\<lambda>exps. ''*'' \<in> set exps \<or> name \<in> set exps) matching_plugin"

section \<open>Which modules and exports are looked at\<close>

definition should_skip_module :: "ModuleNode \<Rightarrow> bool \<Rightarrow> bool \<Rightarrow> bool" where
  "should_skip_module m has_plugin_used_exports include_entry =
     (if is_entry_point m \<and> \<not> has_plugin_used_exports \<and> \<not> include_entry then True
      else if \<not> is_reachable m then list_all (\<lambda>e. references e = []) (exports m)
      else if has_cjs_exports m \<and> exports m = [] then True
      else extension_of (node_path m) = Some ''svelte'')"

definition local_export_binding_name :: "ExportInfo \<Rightarrow> string option" where
  "local_export_binding_name e =
     (case ei_local_name e of Some n \<Rightarrow> Some n
      | None \<Rightarrow> (case ei_name e of ExpNamed n \<Rightarrow> Some n | ExpDefault \<Rightarrow> None))"

definition is_js_like_source :: "path \<Rightarrow> bool" where
  "is_js_like_source p =
     (case extension_of p of None \<Rightarrow> False
      | Some e \<Rightarrow> e \<in> {''js'', ''jsx'', ''mjs'', ''cjs'', ''ts'', ''tsx'', ''mts'', ''cts''})"

text \<open>
  The outside of the same-file analysis: the text of a path (empty when it cannot be read), and
  whether the program parsed from the text has a root binding of the name with a reference outside
  an export specifier and a default export.
\<close>

record SemanticModel =
  read_source :: "path \<Rightarrow> string"
  has_real_use :: "path \<Rightarrow> string \<Rightarrow> string \<Rightarrow> bool"

record ExportModuleInfo = ModuleInfo +
  mi_exports :: "ExportInfo list"
  public_signature_types :: "string list"

definition collect_exports_used_in_file :: "SemanticModel \<Rightarrow> 'a ExportModuleInfo_scheme \<Rightarrow> path \<Rightarrow> string set" where
  "collect_exports_used_in_file sm info p =
     (if mi_exports info = [] \<or> \<not> is_js_like_source p then {}
      else let src = read_source sm p
           in if src = [] then {}
              else set (map (\<lambda>e. export_display (ei_name e))
                (filter (\<lambda>e. case local_export_binding_name e of None \<Rightarrow> False | Some n \<Rightarrow> has_real_use sm p src n)
                  (mi_exports info))))"

definition export_has_reachable_reference :: "ModuleGraph \<Rightarrow> ModuleNode \<Rightarrow> ExportSymbol \<Rightarrow> bool" where
  "export_has_reachable_reference graph m e =
     (if is_reachable m then references e \<noteq> []
      else list_ex (\<lambda>r. reachable_at graph (from_file r)) (references e))"

section \<open>The findings of a module\<close>

record UnusedExport =
  ue_path :: path
  ue_export_name :: string
  ue_is_type_only :: bool
  ue_line :: nat
  ue_col :: nat
  ue_span_start :: nat
  ue_is_re_export :: bool

record UnusedExportModuleContext =
  uc_graph :: ModuleGraph
  uc_config :: ExportConfig
  uc_ignore_matchers :: "CompiledIgnoreExportRule list"
  uc_plugin_matchers :: "CompiledUsedExportRule list"
  uc_module_info_by_id :: "(FileId \<Rightarrow> ExportModuleInfo option) option"
  uc_line_offsets :: LineOffsetsMap
  uc_semantic :: SemanticModel

definition stale_expected_unused_suppression :: "ModuleNode \<Rightarrow> ExportSymbol \<Rightarrow> LineOffsetsMap \<Rightarrow> 'json StaleSuppression" where
  "stale_expected_unused_suppression m e line_offsets_by_file =
     (let (line, col) = finding_line_col line_offsets_by_file (ModuleNode.file_id m) (span_begin (export_span e))
      in \<lparr>st_path = node_path m, st_line = line, st_col = col,
          origin = JsdocTag (export_display (ExportSymbol.export_name e)) (expected_unused_reason e),
          missing_reason = False, actions = actions_for False\<rparr>)"

definition record_expected_unused_stale ::
  "ModuleNode \<Rightarrow> ExportSymbol \<Rightarrow> UnusedExportModuleContext \<Rightarrow> bool \<Rightarrow> 'json StaleSuppression list" where
  "record_expected_unused_stale m e ctx is_referenced =
     (if rules (uc_config ctx) require_suppression_reason \<noteq> Off \<and> expected_unused_reason e = None
      then let (line, col) = finding_line_col (uc_line_offsets ctx) (ModuleNode.file_id m) (span_begin (export_span e))
           in [\<lparr>st_path = node_path m, st_line = line, st_col = col,
                origin = JsdocTag (export_display (ExportSymbol.export_name e)) None,
                missing_reason = True, actions = actions_for True\<rparr>]
      else []) @
     (if is_referenced then [stale_expected_unused_suppression m e (uc_line_offsets ctx)] else [])"

definition same_file_used_exports :: "ModuleNode \<Rightarrow> UnusedExportModuleContext \<Rightarrow> string set" where
  "same_file_used_exports m ctx =
     (case uc_module_info_by_id ctx of None \<Rightarrow> {}
      | Some by_id \<Rightarrow> (case by_id (ModuleNode.file_id m) of None \<Rightarrow> {}
          | Some info \<Rightarrow> collect_exports_used_in_file (uc_semantic ctx) info (node_path m)))"

definition export_is_referenced :: "ModuleNode \<Rightarrow> ExportSymbol \<Rightarrow> UnusedExportModuleContext \<Rightarrow> bool" where
  "export_is_referenced m e ctx \<longleftrightarrow>
     export_has_reachable_reference (uc_graph ctx) m e \<or> (is_reachable m \<and> is_side_effect_used e)"

record UnusedExportMatchContext =
  mc_same_file :: "string set"
  mc_re_export_names :: "string set"
  mc_ignore :: "string list list"
  mc_plugin :: "string list list"

definition build_unused_export :: "ModuleNode \<Rightarrow> ExportSymbol \<Rightarrow> string \<Rightarrow> nat \<Rightarrow> nat \<Rightarrow> bool \<Rightarrow> UnusedExport" where
  "build_unused_export m e name line col is_re_export =
     \<lparr>ue_path = node_path m, ue_export_name = name, ue_is_type_only = exp_is_type_only e, ue_line = line,
      ue_col = col, ue_span_start = span_begin (export_span e), ue_is_re_export = is_re_export\<rparr>"

definition unused_export_for_module ::
  "ModuleNode \<Rightarrow> ExportSymbol \<Rightarrow> UnusedExportModuleContext \<Rightarrow> UnusedExportMatchContext \<Rightarrow> SuppressionContext \<Rightarrow>
   UnusedExport option \<times> 'json StaleSuppression list \<times> SuppressionContext" where
  "unused_export_for_module m e ctx mc supp =
     (let is_referenced = export_is_referenced m e ctx;
          name = export_display (ExportSymbol.export_name e)
      in if visibility e = VisExpectedUnused then (None, record_expected_unused_stale m e ctx is_referenced, supp)
         else if suppresses_unused (visibility e) \<or> is_referenced then (None, [], supp)
         else if ignore_suppresses (ignore_exports_used_in_file (uc_config ctx)) (exp_is_type_only e) \<and> name \<in> mc_same_file mc
           then (None, [], supp)
         else if is_export_ignored name (mc_ignore mc) (mc_plugin mc) then (None, [], supp)
         else (let (line, col) = finding_line_col (uc_line_offsets ctx) (ModuleNode.file_id m) (span_begin (export_span e));
                   kind = (if exp_is_type_only e then UnusedType else UnusedExport);
                   (suppressed, supp) = ctx_is_suppressed supp (ModuleNode.file_id m) line kind
               in if suppressed then (None, [], supp)
                  else (Some (build_unused_export m e name line col (name \<in> mc_re_export_names mc)), [], supp)))"

type_synonym 'json module_result = "UnusedExport list \<times> UnusedExport list \<times> 'json StaleSuppression list"

definition export_step ::
  "ModuleNode \<Rightarrow> UnusedExportModuleContext \<Rightarrow> UnusedExportMatchContext \<Rightarrow> ExportSymbol \<Rightarrow>
   'json module_result \<times> SuppressionContext \<Rightarrow> 'json module_result \<times> SuppressionContext" where
  "export_step m ctx mc e st = (case st of ((exps, tys, stale), supp) \<Rightarrow>
     (case unused_export_for_module m e ctx mc supp of
        (None, stale', supp) \<Rightarrow> ((exps, tys, stale @ stale'), supp)
      | (Some u, stale', supp) \<Rightarrow>
          if exp_is_type_only e then ((exps, tys @ [u], stale @ stale'), supp)
          else ((exps @ [u], tys, stale @ stale'), supp)))"

definition match_context :: "ModuleNode \<Rightarrow> UnusedExportModuleContext \<Rightarrow> UnusedExportMatchContext" where
  "match_context m ctx =
     (let (matching_ignore, matching_plugin) = matchers_for_module (node_path m) (root (uc_config ctx))
            (uc_ignore_matchers ctx) (uc_plugin_matchers ctx)
      in \<lparr>mc_same_file = same_file_used_exports m ctx, mc_re_export_names = set (map re_exported_name (re_exports m)),
          mc_ignore = matching_ignore, mc_plugin = matching_plugin\<rparr>)"

definition find_unused_exports_for_module ::
  "UnusedExportModuleContext \<Rightarrow> ModuleNode \<Rightarrow> SuppressionContext \<Rightarrow> 'json module_result \<times> SuppressionContext" where
  "find_unused_exports_for_module ctx m supp =
     (if exports m = [] \<and> \<not> has_cjs_exports m then (([], [], []), supp)
      else let mc = match_context m ctx
           in if should_skip_module m (mc_plugin mc \<noteq> []) (include_entry_exports (uc_config ctx)) then (([], [], []), supp)
              else fold (export_step m ctx mc) (exports m) (([], [], []), supp))"

definition module_export_context ::
  "PatternCompilers \<Rightarrow> SemanticModel \<Rightarrow> ModuleGraph \<Rightarrow> ExportModuleInfo list \<Rightarrow> ExportConfig \<Rightarrow>
   AggregatedPluginResult option \<Rightarrow> LineOffsetsMap \<Rightarrow> UnusedExportModuleContext" where
  "module_export_context pc sm graph infos config plugin_result line_offsets_by_file =
     \<lparr>uc_graph = graph, uc_config = config, uc_ignore_matchers = compiled_ignore_exports config,
      uc_plugin_matchers = compile_plugin_matchers pc plugin_result,
      uc_module_info_by_id =
        (if ignore_is_enabled (ignore_exports_used_in_file config)
         then Some (fold (\<lambda>i by_id. by_id(ModuleInfo.file_id i \<mapsto> i)) infos Map.empty) else None),
      uc_line_offsets = line_offsets_by_file, uc_semantic = sm\<rparr>"

definition find_unused_exports ::
  "PatternCompilers \<Rightarrow> SemanticModel \<Rightarrow> ModuleGraph \<Rightarrow> ExportModuleInfo list \<Rightarrow> ExportConfig \<Rightarrow>
   AggregatedPluginResult option \<Rightarrow> LineOffsetsMap \<Rightarrow> SuppressionContext \<Rightarrow> 'json module_result \<times> SuppressionContext" where
  "find_unused_exports pc sm graph infos config plugin_result line_offsets_by_file supp =
     (let ctx = module_export_context pc sm graph infos config plugin_result line_offsets_by_file;
          (module_results, supp) =
            collect_findings (\<lambda>m supp. let (r, supp) = find_unused_exports_for_module ctx m supp in ([r], supp))
              (modules graph) supp
      in ((concat (map fst module_results), concat (map (fst \<circ> snd) module_results),
           concat (map (snd \<circ> snd) module_results)), supp))"

definition suppress_signature_backing_types ::
  "ModuleGraph \<Rightarrow> ExportModuleInfo list \<Rightarrow> UnusedExport list \<Rightarrow> UnusedExport list" where
  "suppress_signature_backing_types graph infos tys =
     (let path_by_id = fold (\<lambda>m acc. acc(ModuleNode.file_id m \<mapsto> node_path m)) (modules graph) Map.empty;
          backing_types = set (concat (List.map_filter
            (\<lambda>i. map_option (\<lambda>p. map (\<lambda>t. (p, t)) (public_signature_types i)) (path_by_id (ModuleInfo.file_id i))) infos))
      in filter (\<lambda>u. (ue_path u, ue_export_name u) \<notin> backing_types) tys)"

section \<open>What is reported\<close>

text \<open>An export that no rule exempts, nothing refers to and no directive silences.\<close>

definition export_exempt :: "ModuleNode \<Rightarrow> ExportSymbol \<Rightarrow> UnusedExportModuleContext \<Rightarrow> UnusedExportMatchContext \<Rightarrow> bool" where
  "export_exempt m e ctx mc \<longleftrightarrow> suppresses_unused (visibility e) \<or>
     (ignore_suppresses (ignore_exports_used_in_file (uc_config ctx)) (exp_is_type_only e) \<and>
        export_display (ExportSymbol.export_name e) \<in> mc_same_file mc) \<or>
     is_export_ignored (export_display (ExportSymbol.export_name e)) (mc_ignore mc) (mc_plugin mc)"

definition export_silenced :: "ModuleNode \<Rightarrow> ExportSymbol \<Rightarrow> UnusedExportModuleContext \<Rightarrow> SuppressionContext \<Rightarrow> bool" where
  "export_silenced m e ctx supp \<longleftrightarrow>
     line_silenced supp (ModuleNode.file_id m)
       (fst (finding_line_col (uc_line_offsets ctx) (ModuleNode.file_id m) (span_begin (export_span e))))
       (if exp_is_type_only e then UnusedType else UnusedExport)"

definition export_reported :: "UnusedExportModuleContext \<Rightarrow> SuppressionContext \<Rightarrow> ModuleNode \<Rightarrow> ExportSymbol \<Rightarrow> bool" where
  "export_reported ctx supp m e \<longleftrightarrow> visibility e \<noteq> VisExpectedUnused \<and> \<not> export_is_referenced m e ctx \<and>
     \<not> export_exempt m e ctx (match_context m ctx) \<and> \<not> export_silenced m e ctx supp"

definition finding_of :: "UnusedExportModuleContext \<Rightarrow> ModuleNode \<Rightarrow> ExportSymbol \<Rightarrow> UnusedExport" where
  "finding_of ctx m e =
     (let (line, col) = finding_line_col (uc_line_offsets ctx) (ModuleNode.file_id m) (span_begin (export_span e));
          name = export_display (ExportSymbol.export_name e)
      in build_unused_export m e name line col (name \<in> set (map re_exported_name (re_exports m))))"

definition stale_of_export :: "UnusedExportModuleContext \<Rightarrow> ModuleNode \<Rightarrow> ExportSymbol \<Rightarrow> 'json StaleSuppression list" where
  "stale_of_export ctx m e =
     (if visibility e = VisExpectedUnused then record_expected_unused_stale m e ctx (export_is_referenced m e ctx) else [])"

lemma match_context_re_exports [simp]: "mc_re_export_names (match_context m ctx) = set (map re_exported_name (re_exports m))"
  by (simp add: match_context_def split: prod.split)

lemma unused_export_for_module_facts:
  assumes "same_directives supp0 supp" "unused_export_for_module m e ctx (match_context m ctx) supp = (u, st, supp')"
  shows "u = (if export_reported ctx supp0 m e then Some (finding_of ctx m e) else None)"
    and "st = stale_of_export ctx m e" and "same_directives supp0 supp'"
  using assms
  by (auto simp: unused_export_for_module_def export_reported_def export_exempt_def export_silenced_def stale_of_export_def
      finding_of_def Let_def case_prod_beta asked_directives split: if_splits)

lemma export_fold:
  fixes S :: "'json StaleSuppression list"
  assumes "same_directives supp0 supp"
  shows "fst (fold (export_step m ctx (match_context m ctx)) es ((E, T, S), supp)) =
      (E @ map (finding_of ctx m) (filter (\<lambda>e. export_reported ctx supp0 m e \<and> \<not> exp_is_type_only e) es),
       T @ map (finding_of ctx m) (filter (\<lambda>e. export_reported ctx supp0 m e \<and> exp_is_type_only e) es),
       S @ concat (map (stale_of_export ctx m) es)) \<and>
    same_directives supp0 (snd (fold (export_step m ctx (match_context m ctx)) es ((E, T, S), supp)))"
  using assms
proof (induction es arbitrary: E T S supp)
  case (Cons e es)
  obtain u and st :: "'json StaleSuppression list" and supp' where
      r: "unused_export_for_module m e ctx (match_context m ctx) supp = (u, st, supp')"
    by (metis prod_cases3)
  note f = unused_export_for_module_facts [OF Cons.prems r]
  have "export_step m ctx (match_context m ctx) e ((E, T, S), supp) =
      ((E @ (if export_reported ctx supp0 m e \<and> \<not> exp_is_type_only e then [finding_of ctx m e] else []),
        T @ (if export_reported ctx supp0 m e \<and> exp_is_type_only e then [finding_of ctx m e] else []),
        S @ stale_of_export ctx m e), supp')"
    by (simp add: export_step_def r f(1,2))
  then show ?case using Cons.IH [OF f(3)] by simp
qed (simp add: assms)

definition module_looked_at :: "UnusedExportModuleContext \<Rightarrow> ModuleNode \<Rightarrow> bool" where
  "module_looked_at ctx m \<longleftrightarrow> (exports m \<noteq> [] \<or> has_cjs_exports m) \<and>
     \<not> should_skip_module m (mc_plugin (match_context m ctx) \<noteq> []) (include_entry_exports (uc_config ctx))"

definition module_findings :: "UnusedExportModuleContext \<Rightarrow> SuppressionContext \<Rightarrow> ModuleNode \<Rightarrow> 'json module_result" where
  "module_findings ctx supp m =
     (if module_looked_at ctx m
      then (map (finding_of ctx m) (filter (\<lambda>e. export_reported ctx supp m e \<and> \<not> exp_is_type_only e) (exports m)),
            map (finding_of ctx m) (filter (\<lambda>e. export_reported ctx supp m e \<and> exp_is_type_only e) (exports m)),
            concat (map (stale_of_export ctx m) (exports m)))
      else ([], [], []))"

lemma find_unused_exports_for_module_facts:
  assumes "same_directives supp0 supp"
  shows "fst (find_unused_exports_for_module ctx m supp) = (module_findings ctx supp0 m :: 'json module_result) \<and>
    same_directives supp0 (snd (find_unused_exports_for_module ctx m supp :: 'json module_result \<times> SuppressionContext))"
  using assms export_fold [OF assms, of m ctx "exports m" "[]" "[]" "[] :: 'json StaleSuppression list"]
  by (auto simp: find_unused_exports_for_module_def module_findings_def module_looked_at_def Let_def)

interpretation export_pass: detector_pass
    "\<lambda>m supp. let (r, supp) = find_unused_exports_for_module ctx m supp in ([r], supp)" "same_directives supp0"
    "\<lambda>m. [module_findings ctx supp0 m]" for ctx supp0
  by unfold_locales (simp_all add: find_unused_exports_for_module_facts case_prod_beta)

lemma find_unused_exports_out:
  assumes "ctx_ok supp" and ctx_def: "ctx = module_export_context pc sm graph infos config plugin_result line_offsets_by_file"
  shows "fst (find_unused_exports pc sm graph infos config plugin_result line_offsets_by_file supp) =
    (concat (map (fst \<circ> (module_findings ctx supp :: ModuleNode \<Rightarrow> 'json module_result)) (modules graph)),
     concat (map (fst \<circ> snd \<circ> (module_findings ctx supp :: ModuleNode \<Rightarrow> 'json module_result)) (modules graph)),
     concat (map (snd \<circ> snd \<circ> (module_findings ctx supp :: ModuleNode \<Rightarrow> 'json module_result)) (modules graph)))"
proof -
  have "fst (collect_findings (\<lambda>m supp. let (r, supp) = find_unused_exports_for_module ctx m supp in ([r], supp))
      (modules graph) supp) = map (module_findings ctx supp :: ModuleNode \<Rightarrow> 'json module_result) (modules graph)"
    using export_pass.pass_out [OF same_directives_refl [OF assms(1)], of ctx "modules graph"]
    by (simp add: concat_map_singleton)
  then show ?thesis
    by (simp add: find_unused_exports_def Let_def case_prod_beta comp_def flip: ctx_def)
qed

lemma find_unused_exports_mem:
  fixes stale :: "'json StaleSuppression list"
  assumes "ctx_ok supp"
    and "fst (find_unused_exports pc sm graph infos config plugin_result line_offsets_by_file supp) = (exps, tys, stale)"
    and ctx_def: "ctx = module_export_context pc sm graph infos config plugin_result line_offsets_by_file"
  shows "u \<in> set exps \<union> set tys \<longleftrightarrow>
    (\<exists>m \<in> set (modules graph). module_looked_at ctx m \<and> (\<exists>e \<in> set (exports m). export_reported ctx supp m e \<and> u = finding_of ctx m e))"
    (is "?l = ?r")
proof -
  have sets: "set exps = (\<Union>m \<in> set (modules graph). set (fst (module_findings ctx supp m :: 'json module_result)))"
    "set tys = (\<Union>m \<in> set (modules graph). set (fst (snd (module_findings ctx supp m :: 'json module_result))))"
    using assms(2) by (auto simp: find_unused_exports_out [OF assms(1,3)])
  have "u \<in> set (fst (module_findings ctx supp m :: 'json module_result)) \<union> set (fst (snd (module_findings ctx supp m :: 'json module_result))) \<longleftrightarrow>
      module_looked_at ctx m \<and> (\<exists>e \<in> set (exports m). export_reported ctx supp m e \<and> u = finding_of ctx m e)" for m
    by (auto simp: module_findings_def)
  then show ?thesis unfolding sets by blast
qed

lemma finding_of_fields [simp]:
  "ue_path (finding_of ctx m e) = node_path m" "ue_export_name (finding_of ctx m e) = export_display (ExportSymbol.export_name e)"
  "ue_is_type_only (finding_of ctx m e) = exp_is_type_only e" "ue_span_start (finding_of ctx m e) = span_begin (export_span e)"
  by (simp_all add: finding_of_def build_unused_export_def Let_def case_prod_beta)

end
