(* ===== verification/Union_Find.thy ===== *)
theory Union_Find
  imports Main "HOL-Library.While_Combinator" "HOL-Library.AList"
begin

text \<open>
  The union-find structure of the duplicate-export detector (\<^verbatim>\<open>UnionFind\<close> of
  \<^verbatim>\<open>crates/core/src/analyze/unused_exports.rs\<close>): an array of parents, searched with path halving
  and merged at the roots.  A search that did not end would be \<open>None\<close>.
\<close>

section \<open>The structure\<close>

definition uf_new :: "nat \<Rightarrow> nat list" where
  "uf_new len = [0..<len]"

definition uf_find :: "nat list \<Rightarrow> nat \<Rightarrow> (nat \<times> nat list) option" where
  "uf_find parent x =
     while_option (\<lambda>(x, parent). parent ! x \<noteq> x)
       (\<lambda>(x, parent). let parent = parent[x := parent ! (parent ! x)] in (parent ! x, parent)) (x, parent)"

definition uf_union :: "nat list \<Rightarrow> nat \<Rightarrow> nat \<Rightarrow> nat list option" where
  "uf_union parent a b =
     (case uf_find parent a of None \<Rightarrow> None
      | Some (root_a, parent) \<Rightarrow>
          (case uf_find parent b of None \<Rightarrow> None
           | Some (root_b, parent) \<Rightarrow> Some (if root_a \<noteq> root_b then parent[root_a := root_b] else parent)))"

fun fold_option :: "('a \<Rightarrow> 's \<Rightarrow> 's option) \<Rightarrow> 'a list \<Rightarrow> 's \<Rightarrow> 's option" where
  "fold_option f [] s = Some s"
| "fold_option f (x # xs) s = (case f x s of None \<Rightarrow> None | Some s \<Rightarrow> fold_option f xs s)"

definition uf_push :: "nat \<Rightarrow> nat \<Rightarrow> (nat \<times> nat list) list \<Rightarrow> (nat \<times> nat list) list" where
  "uf_push root i al = AList.update root ((case map_of al root of None \<Rightarrow> [] | Some is \<Rightarrow> is) @ [i]) al"

text \<open>The order in which the hash map of components is read is a parameter.\<close>

definition uf_components :: "(nat list \<Rightarrow> nat list) \<Rightarrow> nat list \<Rightarrow> nat list list option" where
  "uf_components root_order parent =
     (case fold_option (\<lambda>i (parent, al). case uf_find parent i of None \<Rightarrow> None
          | Some (root, parent) \<Rightarrow> Some (parent, uf_push root i al)) [0..<length parent] (parent, []) of
        None \<Rightarrow> None
      | Some (_, al) \<Rightarrow> Some (map (\<lambda>r. the (map_of al r)) (root_order (map fst al))))"

section \<open>What an array represents\<close>

text \<open>
  An array of parents stands for a function that gives every element the root of its tree; the
  parents have no cycle, so that a rank falls along them.
\<close>

definition represents :: "nat list \<Rightarrow> (nat \<Rightarrow> nat) \<Rightarrow> bool" where
  "represents p f \<longleftrightarrow>
     (\<exists>d :: nat \<Rightarrow> nat. \<forall>i < length p. p ! i \<noteq> i \<longrightarrow> d (p ! i) < d i) \<and>
     (\<forall>i < length p. p ! i < length p \<and> f (p ! i) = f i \<and> (p ! i = i \<longrightarrow> f i = i) \<and>
        f i < length p \<and> p ! f i = f i)"

lemma representsD:
  assumes "represents p f" "i < length p"
  shows "p ! i < length p" "f (p ! i) = f i" "p ! i = i \<Longrightarrow> f i = i" "f i < length p" "p ! f i = f i" "f (f i) = f i"
  using assms unfolding represents_def by metis+

lemma represents_new: "represents (uf_new n) id"
  by (simp add: represents_def uf_new_def)

lemma represents_halve:
  assumes "represents p f" "x < length p" "p ! x \<noteq> x"
  shows "represents (p[x := p ! (p ! x)]) f"
proof -
  let ?q = "p[x := p ! (p ! x)]"
  note r = representsD [OF assms(1)]
  obtain d :: "nat \<Rightarrow> nat" where d: "\<And>i. i < length p \<Longrightarrow> p ! i \<noteq> i \<Longrightarrow> d (p ! i) < d i"
    using assms(1) unfolding represents_def by blast
  have x: "p ! x < length p" "p ! (p ! x) < length p" using r(1) assms(2) by simp_all
  have dx: "d (p ! (p ! x)) < d x"
  proof (cases "p ! (p ! x) = p ! x")
    case False
    then show ?thesis using d [OF x(1)] d [OF assms(2,3)] by simp
  qed (use d [OF assms(2,3)] in simp)
  have "d (?q ! i) < d i" if "i < length ?q" "?q ! i \<noteq> i" for i
    using that d [of i] dx by (cases "i = x") simp_all
  moreover have "?q ! i < length ?q \<and> f (?q ! i) = f i \<and> (?q ! i = i \<longrightarrow> f i = i) \<and> f i < length ?q \<and> ?q ! f i = f i"
    if "i < length ?q" for i
  proof (cases "i = x")
    case True
    have "?q ! x \<noteq> x" using dx assms(2) by auto
    moreover have "f x \<noteq> x" using r(5) [OF assms(2)] assms(3) by metis
    ultimately show ?thesis using True assms(2) x r by simp
  next
    case False
    have "f i \<noteq> x" using r(5) [of i] that assms(3) by fastforce
    then show ?thesis using False that r [of i] by simp
  qed
  ultimately show ?thesis unfolding represents_def by blast
qed

lemma uf_find_represents:
  assumes "represents p f" "x < length p"
  obtains p' where "uf_find p x = Some (f x, p')" "represents p' f" "length p' = length p"
proof -
  define P where "P = (\<lambda>(y, q). represents q f \<and> length q = length p \<and> y < length p \<and> f y = f x)"
  obtain d :: "nat \<Rightarrow> nat" where d: "\<And>i. i < length p \<Longrightarrow> p ! i \<noteq> i \<Longrightarrow> d (p ! i) < d i"
    using assms(1) unfolding represents_def by blast
  define Q where "Q = (\<lambda>(y :: nat, q :: nat list). \<forall>i < length q. q ! i \<noteq> i \<longrightarrow> d (q ! i) < d i)"
  let ?b = "\<lambda>(x, p :: nat list). p ! x \<noteq> x"
  let ?c = "\<lambda>(x, p :: nat list). let p = p[x := p ! (p ! x)] in (p ! x, p)"
  have step: "(P s \<and> Q s \<longrightarrow> P (?c s) \<and> Q (?c s)) \<and> (P s \<and> Q s \<longrightarrow> d (fst (?c s)) < d (fst s))" if b: "?b s" for s
  proof -
    obtain y q where s: "s = (y, q)" by (cases s)
    have ne: "q ! y \<noteq> y" using b s by simp
    have "P (?c s) \<and> Q (?c s) \<and> d (fst (?c s)) < d (fst s)" if "P s" "Q s"
    proof -
      have h: "represents q f" "length q = length p" "y < length q" "f y = f x" using that(1) s by (auto simp: P_def)
      have dq: "\<And>i. i < length q \<Longrightarrow> q ! i \<noteq> i \<Longrightarrow> d (q ! i) < d i" using that(2) s by (auto simp: Q_def)
      note r = representsD [OF h(1)]
      have y: "q ! y < length q" "q ! (q ! y) < length q" using r(1) h(3) by simp_all
      have dx: "d (q ! (q ! y)) < d y"
        using dq [OF h(3) ne] dq [OF y(1)] by (cases "q ! (q ! y) = q ! y") auto
      have "P (?c s)" using s h y r(2) represents_halve [OF h(1,3) ne] by (auto simp: P_def Let_def)
      moreover have "d (q[y := q ! (q ! y)] ! i) < d i" if "i < length q" "q[y := q ! (q ! y)] ! i \<noteq> i" for i
        using that dq [of i] dx by (cases "i = y") simp_all
      then have "Q (?c s)" using s by (simp add: Q_def Let_def)
      moreover have "d (fst (?c s)) < d (fst s)" using s h(3) dx by (simp add: Let_def)
      ultimately show ?thesis by simp
    qed
    then show ?thesis by blast
  qed
  have start: "P (x, p)" "Q (x, p)" using assms d by (auto simp: P_def Q_def)
  have "\<exists>t. while_option ?b ?c (x, p) = Some t"
    by (rule measure_while_option_Some [where P = "\<lambda>s. P s \<and> Q s" and f = "\<lambda>s. d (fst s)"]) (use step start in blast)+
  then obtain t where t: "while_option ?b ?c (x, p) = Some t" ..
  have "P t" using while_option_rule [where P = "\<lambda>s. P s \<and> Q s", OF _ t] step start by blast
  moreover have "\<not> ?b t" by (rule while_option_stop [OF t])
  ultimately have t': "represents (snd t) f" "length (snd t) = length p" "fst t < length p" "f (fst t) = f x" "snd t ! fst t = fst t"
    by (simp_all add: P_def case_prod_beta)
  then have "fst t = f x" using representsD(3) [OF t'(1), of "fst t"] by metis
  then have "t = (f x, snd t)" by (metis prod.collapse)
  then show thesis using that [OF _ t'(1,2)] t unfolding uf_find_def by metis
qed

text \<open>Abstract merging of two elements: the first one's root becomes the second one's.\<close>

definition merge_roots :: "nat \<times> nat \<Rightarrow> (nat \<Rightarrow> nat) \<Rightarrow> nat \<Rightarrow> nat" where
  "merge_roots ab f i = (if f i = f (fst ab) then f (snd ab) else f i)"

lemma represents_link:
  assumes "represents p f" "a < length p" "b < length p" "f a \<noteq> f b"
  shows "represents (p[f a := f b]) (merge_roots (a, b) f)"
proof -
  let ?q = "p[f a := f b]" and ?g = "merge_roots (a, b) f"
  note r = representsD [OF assms(1)]
  obtain d :: "nat \<Rightarrow> nat" where d: "\<And>i. i < length p \<Longrightarrow> p ! i \<noteq> i \<Longrightarrow> d (p ! i) < d i"
    using assms(1) unfolding represents_def by blast
  let ?d = "\<lambda>i. if f i = f a then d i + d (f b) + 1 else d i"
  have rank: "?d (?q ! i) < ?d i" if "i < length ?q" "?q ! i \<noteq> i" for i
    using that d [of i] r(2) [of i] r(6) [OF assms(2)] r(6) [OF assms(3)] r(4) [OF assms(2)] assms(4)
    by (cases "i = f a") auto
  have "?q ! i < length ?q \<and> ?g (?q ! i) = ?g i \<and> (?q ! i = i \<longrightarrow> ?g i = i) \<and> ?g i < length ?q \<and> ?q ! ?g i = ?g i"
    if "i < length ?q" for i
  proof (cases "i = f a")
    case True
    then show ?thesis using r(4,5,6) [OF assms(3)] r(4,6) [OF assms(2)] assms(4) by (simp add: merge_roots_def)
  next
    case False
    have i: "i < length p" using that by simp
    have g: "?g i = (if f i = f a then f b else f i)" and ne: "?g i \<noteq> f a" using assms(4) by (simp_all add: merge_roots_def)
    have q: "?q ! i = p ! i" "?q ! ?g i = p ! ?g i" using False ne by simp_all
    have "?g (p ! i) = ?g i" unfolding merge_roots_def r(2) [OF i] ..
    moreover have "?g i = i" if "p ! i = i" using r(3) [OF i that] False g by metis
    moreover have "?g i < length p" using g r(4) [OF i] r(4) [OF assms(3)] by metis
    moreover have "p ! ?g i = ?g i" using g r(5) [OF i] r(5) [OF assms(3)] by metis
    ultimately show ?thesis using r(1) [OF i] q by simp
  qed
  with rank show ?thesis unfolding represents_def by (intro conjI exI [of _ ?d]) simp_all
qed

lemma uf_union_represents:
  assumes "represents p f" "a < length p" "b < length p"
  obtains p' where "uf_union p a b = Some p'" "represents p' (merge_roots (a, b) f)" "length p' = length p"
proof -
  obtain p1 where 1: "uf_find p a = Some (f a, p1)" "represents p1 f" "length p1 = length p"
    using uf_find_represents [OF assms(1,2)] .
  obtain p2 where 2: "uf_find p1 b = Some (f b, p2)" "represents p2 f" "length p2 = length p"
    using uf_find_represents [OF 1(2), of b] assms(3) 1(3) by metis
  show thesis
  proof (cases "f a = f b")
    case True
    then have "merge_roots (a, b) f = f" by (auto simp: merge_roots_def)
    then show thesis using that 1 2 True by (simp add: uf_union_def)
  next
    case False
    then show thesis
      using that [OF _ represents_link [OF 2(2)]] 1 2 assms by (simp add: uf_union_def)
  qed
qed

section \<open>Connected elements\<close>

text \<open>After merging a list of pairs, two elements have one root exactly when the pairs connect them.\<close>

definition merged :: "(nat \<times> nat) list \<Rightarrow> nat \<Rightarrow> nat" where
  "merged ps = fold merge_roots ps id"

definition linked :: "(nat \<times> nat) set \<Rightarrow> (nat \<times> nat) set" where
  "linked E = (E \<union> E\<inverse>)\<^sup>*"

lemma linked_refl [simp]: "(i, i) \<in> linked E"
  by (simp add: linked_def)

lemma linked_sym: "(i, j) \<in> linked E \<Longrightarrow> (j, i) \<in> linked E"
  unfolding linked_def by (rule symD [OF sym_rtrancl [OF sym_Un_converse]])

lemma linked_trans [trans]: "(i, j) \<in> linked E \<Longrightarrow> (j, k) \<in> linked E \<Longrightarrow> (i, k) \<in> linked E"
  unfolding linked_def by (rule rtrancl_trans)

lemma linked_edge: "(i, j) \<in> E \<Longrightarrow> (i, j) \<in> linked E"
  unfolding linked_def by blast

lemma linked_mono: "(i, j) \<in> linked E \<Longrightarrow> E \<subseteq> linked F \<Longrightarrow> (i, j) \<in> linked F"
  unfolding linked_def
proof (induction rule: rtrancl_induct)
  case (step y z)
  then have "(y, z) \<in> linked F" using linked_sym by (auto simp: linked_def)
  then show ?case using step by (auto simp: linked_def)
qed simp

lemma merge_roots_eqD:
  "merge_roots x f i = merge_roots x f j \<Longrightarrow>
   f i = f j \<or> (f i = f (fst x) \<and> f j = f (snd x)) \<or> (f i = f (snd x) \<and> f j = f (fst x))"
  by (simp add: merge_roots_def split: if_splits)

lemma merged_snoc: "merged (ps @ [p]) = merge_roots p (merged ps)"
  by (simp add: merged_def)

lemma merged_edge: "(a, b) \<in> set ps \<Longrightarrow> merged ps a = merged ps b"
  unfolding merged_def
proof (induction ps rule: rev_induct)
  case (snoc p ps)
  show ?case
  proof (cases "(a, b) \<in> set ps")
    case True
    then show ?thesis using snoc.IH by (simp add: merge_roots_def)
  next
    case False
    then have "p = (a, b)" using snoc.prems by simp
    then show ?thesis by (simp add: merge_roots_def)
  qed
qed simp

lemma merged_iff_linked: "merged ps i = merged ps j \<longleftrightarrow> (i, j) \<in> linked (set ps)"
proof
  assume "(i, j) \<in> linked (set ps)"
  then show "merged ps i = merged ps j"
    unfolding linked_def
  proof (induction rule: rtrancl_induct)
    case (step y z)
    then show ?case using merged_edge by (metis Un_iff converse_iff)
  qed simp
next
  show "merged ps i = merged ps j \<Longrightarrow> (i, j) \<in> linked (set ps)"
  proof (induction ps arbitrary: i j rule: rev_induct)
    case (snoc p ps)
    let ?f = "merged ps"
    have mono: "(x, y) \<in> linked (set (ps @ [p]))" if "?f x = ?f y" for x y
      by (rule linked_mono [OF snoc.IH [OF that]]) (auto intro: linked_edge)
    have p: "(fst p, snd p) \<in> linked (set (ps @ [p]))" by (rule linked_edge) simp
    note links = mono p linked_sym [OF p]
    have top: "merge_roots p ?f i = merge_roots p ?f j" using snoc.prems by (simp only: merged_snoc)
    consider "?f i = ?f j" | "?f i = ?f (fst p)" "?f j = ?f (snd p)" | "?f i = ?f (snd p)" "?f j = ?f (fst p)"
      using merge_roots_eqD [OF top] by blast
    then show ?case
    proof cases
      case 2
      then show ?thesis using links(1) [OF 2(1)] links(1) [OF 2(2) [symmetric]] p by (meson linked_trans)
    next
      case 3
      then show ?thesis using links(1) [OF 3(1)] links(1) [OF 3(2) [symmetric]] links(3) by (meson linked_trans)
    qed (rule mono)
  qed (simp add: merged_def)
qed

lemma fold_option_unions:
  assumes "represents p f" "\<forall>x \<in> set ps. fst x < length p \<and> snd x < length p"
  obtains p' where "fold_option (\<lambda>x p. uf_union p (fst x) (snd x)) ps p = Some p'" "represents p' (fold merge_roots ps f)" "length p' = length p"
  using assms
proof (induction ps arbitrary: p f thesis)
  case (Cons x ps)
  obtain p1 where p1: "uf_union p (fst x) (snd x) = Some p1" "represents p1 (merge_roots x f)" "length p1 = length p"
    using uf_union_represents [OF Cons.prems(2), of "fst x" "snd x"] Cons.prems(3) by auto
  obtain p2 where "fold_option (\<lambda>x p. uf_union p (fst x) (snd x)) ps p1 = Some p2" "represents p2 (fold merge_roots ps (merge_roots x f))"
      "length p2 = length p1"
    using Cons.IH [OF _ p1(2)] Cons.prems(3) p1(3) by auto
  then show ?case using Cons.prems(1) p1 by simp
qed simp

lemma fold_option_append:
  "fold_option f (xs @ ys) s = (case fold_option f xs s of None \<Rightarrow> None | Some s \<Rightarrow> fold_option f ys s)"
  by (induction xs arbitrary: s) (auto split: option.split)

section \<open>The components\<close>

definition classes_of :: "(nat \<Rightarrow> nat) \<Rightarrow> nat \<Rightarrow> (nat \<times> nat list) list \<Rightarrow> bool" where
  "classes_of f k al \<longleftrightarrow> distinct (map fst al) \<and>
     (\<forall>r. map_of al r = (if \<exists>i<k. f i = r then Some (filter (\<lambda>i. f i = r) [0..<k]) else None))"

lemma classes_of_push:
  assumes "classes_of f k al"
  shows "classes_of f (Suc k) (uf_push (f k) k al)"
proof -
  have "map_of (uf_push (f k) k al) r =
      (if \<exists>i<Suc k. f i = r then Some (filter (\<lambda>i. f i = r) [0..<Suc k]) else None)" for r
    using assms by (auto simp: classes_of_def uf_push_def update_conv' less_Suc_eq)
  moreover have "distinct (map fst (uf_push (f k) k al))"
    using assms by (simp add: classes_of_def uf_push_def distinct_update)
  ultimately show ?thesis by (simp add: classes_of_def)
qed

lemma fold_option_classes:
  assumes "represents p f" "k \<le> length p"
  obtains p' al where "fold_option (\<lambda>i (parent, al). case uf_find parent i of None \<Rightarrow> None
      | Some (root, parent) \<Rightarrow> Some (parent, uf_push root i al)) [0..<k] (p, []) = Some (p', al)"
    "represents p' f" "length p' = length p" "classes_of f k al"
  using assms(2)
proof (induction k arbitrary: thesis)
  case 0
  then show ?case using assms(1) by (simp add: classes_of_def)
next
  case (Suc k)
  obtain p1 al where 1: "fold_option (\<lambda>i (parent, al). case uf_find parent i of None \<Rightarrow> None
      | Some (root, parent) \<Rightarrow> Some (parent, uf_push root i al)) [0..<k] (p, []) = Some (p1, al)"
    "represents p1 f" "length p1 = length p" "classes_of f k al"
    using Suc.IH Suc.prems(2) by auto
  obtain p2 where "uf_find p1 k = Some (f k, p2)" "represents p2 f" "length p2 = length p1"
    using uf_find_represents [OF 1(2), of k] Suc.prems(2) 1(3) by auto
  then show ?case using Suc.prems(1) 1 classes_of_push [OF 1(4)] by (simp add: fold_option_append)
qed

lemma uf_components_classes:
  assumes "represents p f" "\<And>xs. set (root_order xs) = set xs"
  shows "\<exists>cs. uf_components root_order p = Some cs \<and>
    set cs = (\<lambda>i. filter (\<lambda>j. f j = f i) [0..<length p]) ` {..<length p}"
proof -
  obtain p' al where al: "fold_option (\<lambda>i (parent, al). case uf_find parent i of None \<Rightarrow> None
      | Some (root, parent) \<Rightarrow> Some (parent, uf_push root i al)) [0..<length p] (p, []) = Some (p', al)"
      "classes_of f (length p) al"
    by (rule fold_option_classes [OF assms(1) order_refl]) (rule that)
  have keys: "r \<in> fst ` set al \<longleftrightarrow> (\<exists>i<length p. f i = r)" for r
  proof -
    have "r \<in> fst ` set al \<longleftrightarrow> map_of al r \<noteq> None" by (simp add: map_of_eq_None_iff)
    then show ?thesis using al(2) by (auto simp: classes_of_def)
  qed
  have g: "the (map_of al (f i)) = filter (\<lambda>j. f j = f i) [0..<length p]" if "i < length p" for i
    using al(2) that by (auto simp: classes_of_def)
  have "fst ` set al = f ` {..<length p}"
  proof (rule set_eqI)
    fix r
    show "r \<in> fst ` set al \<longleftrightarrow> r \<in> f ` {..<length p}" unfolding keys by blast
  qed
  then have "(\<lambda>r. the (map_of al r)) ` (fst ` set al) = (\<lambda>i. filter (\<lambda>j. f j = f i) [0..<length p]) ` {..<length p}"
    by (simp add: image_image g cong: image_cong_simp)
  then show ?thesis using al(1) by (simp add: uf_components_def assms(2))
qed

end
