(* ===== verification/Duplicate_Exports.thy ===== *)
theory Duplicate_Exports
  imports Unused_Exports Union_Find
begin

text \<open>
  The detector of duplicate exports (\<^verbatim>\<open>find_duplicate_exports_with_plugins\<close> of
  \<^verbatim>\<open>crates/core/src/analyze/unused_exports.rs\<close>): the exports of every name, without the modules
  that re-export it, split by the importers they share.  The orders of the hash maps of importers
  and of components are parameters; a search that did not end would make the result \<open>None\<close>.
\<close>

section \<open>The exports of a name\<close>

record ExportEntry =
  module_idx :: nat
  en_path :: path
  en_file_id :: FileId
  en_span_start :: nat
  en_is_type_only :: bool

record DuplicateLocation =
  dl_path :: path
  dl_line :: nat
  dl_col :: nat

record DuplicateExport =
  de_export_name :: string
  de_locations :: "DuplicateLocation list"

definition TANSTACK_ROUTER_PLUGIN_NAME :: string where
  "TANSTACK_ROUTER_PLUGIN_NAME = ''tanstack-router''"

definition compile_tanstack_duplicate_export_matchers ::
  "PatternCompilers \<Rightarrow> AggregatedPluginResult option \<Rightarrow> CompiledUsedExportRule list" where
  "compile_tanstack_duplicate_export_matchers pc plugin_result =
     (case plugin_result of None \<Rightarrow> []
      | Some pr \<Rightarrow> List.map_filter (compile_used_export_rule pc)
          (filter (\<lambda>rule. plugin_name rule = TANSTACK_ROUTER_PLUGIN_NAME) (plugin_used_exports pr)))"

definition is_tanstack_router_active :: "AggregatedPluginResult option \<Rightarrow> bool" where
  "is_tanstack_router_active plugin_result =
     (case plugin_result of None \<Rightarrow> False
      | Some pr \<Rightarrow> list_ex (\<lambda>plugin. plugin = TANSTACK_ROUTER_PLUGIN_NAME) (active_plugins pr))"

definition has_route_path_segment :: "path \<Rightarrow> path \<Rightarrow> bool" where
  "has_route_path_segment file_path config_root \<longleftrightarrow>
     list_ex (\<lambda>segment. segment = ''routes'')
       (split_on (\<lambda>c. c = CHR ''/'')
         (map (\<lambda>c. if c = CHR 0x5C then CHR ''/'' else c) (path_string (relative_path file_path config_root))))"

definition is_route_tree_generated_file :: "path \<Rightarrow> bool" where
  "is_route_tree_generated_file p =
     (case file_name p of None \<Rightarrow> False | Some name \<Rightarrow> starts_with name ''routeTree.gen.'')"

definition is_route_referenced_by_tanstack_generated_tree ::
  "string \<Rightarrow> ExportSymbol \<Rightarrow> ModuleNode \<Rightarrow> ModuleGraph \<Rightarrow> path \<Rightarrow> bool" where
  "is_route_referenced_by_tanstack_generated_tree name e m graph config_root \<longleftrightarrow>
     name = ''Route'' \<and> has_route_path_segment (node_path m) config_root \<and>
     list_ex (\<lambda>r. case module_at graph (from_file r) of None \<Rightarrow> False
        | Some from \<Rightarrow> is_route_tree_generated_file (node_path from)) (references e)"

definition ignore_matchers_for_module :: "path \<Rightarrow> path \<Rightarrow> CompiledIgnoreExportRule list \<Rightarrow> string list list" where
  "ignore_matchers_for_module file_path config_root ignore_matchers =
     (if ignore_matchers = [] then []
      else let file_str = path_string (relative_path file_path config_root)
           in map ignore_exports (filter (\<lambda>rule. ignore_matcher rule file_str) ignore_matchers))"

record DuplicateContext =
  dc_graph :: ModuleGraph
  dc_config :: ExportConfig
  dc_tanstack_matchers :: "CompiledUsedExportRule list"
  dc_has_tanstack_router :: bool

definition duplicate_candidate ::
  "DuplicateContext \<Rightarrow> ModuleNode \<Rightarrow> string list list \<Rightarrow> string list list \<Rightarrow> ExportSymbol \<Rightarrow> bool" where
  "duplicate_candidate dc m matching_ignore matching_tanstack e =
     (let name = export_display (ExportSymbol.export_name e)
      in if ExportSymbol.export_name e = ExpDefault then False
         else if span_begin (export_span e) = 0 \<and> span_end (export_span e) = 0 then False
         else if is_export_ignored name matching_ignore matching_tanstack then False
         else \<not> (dc_has_tanstack_router dc \<and>
           is_route_referenced_by_tanstack_generated_tree name e m (dc_graph dc) (root (dc_config dc))))"

definition entry_of :: "nat \<Rightarrow> ModuleNode \<Rightarrow> ExportSymbol \<Rightarrow> ExportEntry" where
  "entry_of idx m e = \<lparr>module_idx = idx, en_path = node_path m, en_file_id = ModuleNode.file_id m,
     en_span_start = span_begin (export_span e), en_is_type_only = exp_is_type_only e\<rparr>"

text \<open>The named entries a module contributes, in the order of its exports.\<close>

definition duplicate_step ::
  "DuplicateContext \<Rightarrow> nat \<times> ModuleNode \<Rightarrow> SuppressionContext \<Rightarrow> (string \<times> ExportEntry) list \<times> SuppressionContext" where
  "duplicate_step dc im supp = (case im of (idx, m) \<Rightarrow>
     (if \<not> is_reachable m \<or> is_entry_point m then ([], supp)
      else let (suppressed, supp) = ctx_is_file_suppressed supp (ModuleNode.file_id m) DuplicateExport
           in if suppressed then ([], supp)
              else let matching_ignore =
                         ignore_matchers_for_module (node_path m) (root (dc_config dc)) (compiled_ignore_exports (dc_config dc));
                       matching_tanstack =
                         snd (matchers_for_module (node_path m) (root (dc_config dc)) [] (dc_tanstack_matchers dc))
                   in (map (\<lambda>e. (export_display (ExportSymbol.export_name e), entry_of idx m e))
                         (filter (duplicate_candidate dc m matching_ignore matching_tanstack) (exports m)), supp)))"

definition push_entry :: "string \<times> ExportEntry \<Rightarrow> (string \<times> ExportEntry list) list \<Rightarrow> (string \<times> ExportEntry list) list" where
  "push_entry ne al =
     AList.update (fst ne) ((case map_of al (fst ne) of None \<Rightarrow> [] | Some es \<Rightarrow> es) @ [snd ne]) al"

definition duplicate_context :: "PatternCompilers \<Rightarrow> ModuleGraph \<Rightarrow> ExportConfig \<Rightarrow> AggregatedPluginResult option \<Rightarrow> DuplicateContext" where
  "duplicate_context pc graph config plugin_result =
     \<lparr>dc_graph = graph, dc_config = config,
      dc_tanstack_matchers = compile_tanstack_duplicate_export_matchers pc plugin_result,
      dc_has_tanstack_router = is_tanstack_router_active plugin_result\<rparr>"

definition collect_duplicate_export_locations ::
  "DuplicateContext \<Rightarrow> SuppressionContext \<Rightarrow> (string \<times> ExportEntry list) list \<times> SuppressionContext" where
  "collect_duplicate_export_locations dc supp =
     (let (entries, supp) = collect_findings (duplicate_step dc) (enumerate 0 (modules (dc_graph dc))) supp
      in (fold push_entry entries [], supp))"

section \<open>Modules that re-export\<close>

definition dynamic_matches_export :: "ImportedName \<Rightarrow> ExportSymbol list \<Rightarrow> bool" where
  "dynamic_matches_export nm wrapper_exports =
     (case nm of
        ImpNamed n \<Rightarrow> list_ex (\<lambda>e. ExportSymbol.export_name e = ExpNamed n) wrapper_exports
      | ImpDefault \<Rightarrow> list_ex (\<lambda>e. ExportSymbol.export_name e = ExpDefault) wrapper_exports
      | ImpNamespace \<Rightarrow> False
      | ImpSideEffect \<Rightarrow> False)"

text \<open>The pairs of a module and a module it re-exports from; the map of sets is their relation.\<close>

definition dynamic_reexport_sources :: "ModuleGraph \<Rightarrow> ResolvedModule \<Rightarrow> (nat \<times> nat) list" where
  "dynamic_reexport_sources graph resolved =
     (case module_at graph (rm_file_id resolved) of None \<Rightarrow> []
      | Some wrapper \<Rightarrow> List.map_filter (\<lambda>dynamic_import.
          case internal_file_id (import_target dynamic_import) of None \<Rightarrow> None
          | Some source_idx \<Rightarrow>
              if \<not> dynamic_matches_export (ii_imported_name (import_info dynamic_import)) (exports wrapper) then None
              else if source_idx \<ge> length (modules graph) then None
              else Some (rm_file_id resolved, source_idx)) (resolved_dynamic_imports resolved))"

definition build_re_export_source_map :: "ModuleGraph \<Rightarrow> ResolvedModule list \<Rightarrow> (nat \<times> nat) set" where
  "build_re_export_source_map graph resolved_modules =
     set (concat (map (\<lambda>(idx, m). map (\<lambda>re. (idx, source_file re)) (re_exports m)) (enumerate 0 (modules graph))) @
          concat (map (dynamic_reexport_sources graph) resolved_modules))"

section \<open>Groups by importer\<close>

definition importers_of :: "ModuleGraph \<Rightarrow> ExportEntry \<Rightarrow> FileId list" where
  "importers_of graph e =
     (if en_file_id e \<ge> length (reverse_deps graph) then [] else reverse_deps graph ! en_file_id e)"

definition push_importer :: "nat \<Rightarrow> FileId \<Rightarrow> (FileId \<times> nat list) list \<Rightarrow> (FileId \<times> nat list) list" where
  "push_importer i importer al =
     AList.update importer ((case map_of al importer of None \<Rightarrow> [] | Some is \<Rightarrow> is) @ [i]) al"

definition importer_to_entries :: "ExportEntry list \<Rightarrow> ModuleGraph \<Rightarrow> (FileId \<times> nat list) list" where
  "importer_to_entries entries graph =
     fold (\<lambda>(i, e) al. fold (push_importer i) (importers_of graph e) al) (enumerate 0 entries) []"

fun first_with_rest :: "nat list \<Rightarrow> (nat \<times> nat) list" where
  "first_with_rest [] = []"
| "first_with_rest (first # rest) = map (Pair first) rest"

definition direct_import_pairs :: "ExportEntry list \<Rightarrow> ModuleGraph \<Rightarrow> (nat \<times> nat) list" where
  "direct_import_pairs entries graph =
     concat (map (\<lambda>(i, e). List.map_filter (\<lambda>importer.
         if importer \<in> en_file_id ` set entries
         then map_option (Pair i) (first_index (\<lambda>e. en_file_id e = importer) entries) else None)
       (importers_of graph e)) (enumerate 0 entries))"

definition partition_by_common_importer ::
  "(FileId list \<Rightarrow> FileId list) \<Rightarrow> (nat list \<Rightarrow> nat list) \<Rightarrow> ExportEntry list \<Rightarrow> ModuleGraph \<Rightarrow> nat list list option" where
  "partition_by_common_importer importer_order root_order entries graph =
     (let union = (\<lambda>(a, b) parent. uf_union parent a b);
          by_importer = importer_to_entries entries graph;
          members = map (\<lambda>k. the (map_of by_importer k)) (importer_order (map fst by_importer))
      in case fold_option union (concat (map first_with_rest members)) (uf_new (length entries)) of
           None \<Rightarrow> None
         | Some parent \<Rightarrow>
             (case fold_option union (direct_import_pairs entries graph) parent of
                None \<Rightarrow> None
              | Some parent \<Rightarrow> uf_components root_order parent))"

section \<open>The findings\<close>

definition entry_location :: "LineOffsetsMap \<Rightarrow> ExportEntry \<Rightarrow> DuplicateLocation" where
  "entry_location line_offsets_by_file e =
     (let (line, col) = finding_line_col line_offsets_by_file (en_file_id e) (en_span_start e)
      in \<lparr>dl_path = en_path e, dl_line = line, dl_col = col\<rparr>)"

definition component_duplicate_locations ::
  "nat list \<Rightarrow> ExportEntry list \<Rightarrow> LineOffsetsMap \<Rightarrow> DuplicateLocation list" where
  "component_duplicate_locations component_indices independent_entries line_offsets_by_file =
     (if length component_indices \<le> 1 then []
      else let value_count = length (filter (\<lambda>i. \<not> en_is_type_only (independent_entries ! i)) component_indices);
               type_count = length (filter (\<lambda>i. en_is_type_only (independent_entries ! i)) component_indices)
           in if value_count = 1 \<and> type_count = 1 then []
              else map (\<lambda>i. entry_location line_offsets_by_file (independent_entries ! i)) component_indices)"

definition independent_entries :: "(nat \<times> nat) set \<Rightarrow> ExportEntry list \<Rightarrow> ExportEntry list" where
  "independent_entries re_export_sources locations =
     (let module_indices = module_idx ` set locations
      in filter (\<lambda>e. \<not> (\<exists>src \<in> module_indices. (module_idx e, src) \<in> re_export_sources)) locations)"

definition evaluate_duplicate_export_group ::
  "(FileId list \<Rightarrow> FileId list) \<Rightarrow> (nat list \<Rightarrow> nat list) \<Rightarrow> (nat \<times> nat) set \<Rightarrow> ModuleGraph \<Rightarrow> LineOffsetsMap \<Rightarrow>
   string \<times> ExportEntry list \<Rightarrow> DuplicateExport option option" where
  "evaluate_duplicate_export_group importer_order root_order re_export_sources graph line_offsets_by_file nl =
     (case nl of (name, locations) \<Rightarrow>
       (if length locations \<le> 1 then Some None
        else let entries = independent_entries re_export_sources locations
             in if length entries \<le> 1 then Some None
                else (case partition_by_common_importer importer_order root_order entries graph of
                   None \<Rightarrow> None
                 | Some components \<Rightarrow>
                     let surviving = concat (map (\<lambda>c. component_duplicate_locations c entries line_offsets_by_file) components)
                     in Some (if length surviving \<le> 1 then None
                          else Some \<lparr>de_export_name = name, de_locations = surviving\<rparr>))))"

definition find_duplicate_exports_with_plugins ::
  "(FileId list \<Rightarrow> FileId list) \<Rightarrow> (nat list \<Rightarrow> nat list) \<Rightarrow> PatternCompilers \<Rightarrow> ModuleGraph \<Rightarrow> ExportConfig \<Rightarrow>
   LineOffsetsMap \<Rightarrow> AggregatedPluginResult option \<Rightarrow> ResolvedModule list \<Rightarrow> SuppressionContext \<Rightarrow>
   DuplicateExport list option \<times> SuppressionContext" where
  "find_duplicate_exports_with_plugins importer_order root_order pc graph config line_offsets_by_file plugin_result
       resolved_modules supp =
     (let re_export_sources = build_re_export_source_map graph resolved_modules;
          (export_locations, supp) = collect_duplicate_export_locations (duplicate_context pc graph config plugin_result) supp;
          results = map (evaluate_duplicate_export_group importer_order root_order re_export_sources graph line_offsets_by_file)
            (sort_key fst export_locations)
      in (if None \<in> set results then None
          else Some (List.map_filter the results), supp))"

definition find_duplicate_exports ::
  "(FileId list \<Rightarrow> FileId list) \<Rightarrow> (nat list \<Rightarrow> nat list) \<Rightarrow> PatternCompilers \<Rightarrow> ModuleGraph \<Rightarrow> ExportConfig \<Rightarrow>
   LineOffsetsMap \<Rightarrow> ResolvedModule list \<Rightarrow> SuppressionContext \<Rightarrow> DuplicateExport list option \<times> SuppressionContext" where
  "find_duplicate_exports importer_order root_order pc graph config line_offsets_by_file resolved_modules supp =
     find_duplicate_exports_with_plugins importer_order root_order pc graph config line_offsets_by_file None resolved_modules supp"

section \<open>The groups are the connected entries\<close>

text \<open>Two entries belong together when a file imports both of their files, or one's file imports the other's.\<close>

definition related_entries :: "ExportEntry list \<Rightarrow> ModuleGraph \<Rightarrow> (nat \<times> nat) set" where
  "related_entries entries graph = {(i, j). i < length entries \<and> j < length entries \<and>
     (set (importers_of graph (entries ! i)) \<inter> set (importers_of graph (entries ! j)) \<noteq> {} \<or>
      en_file_id (entries ! j) \<in> set (importers_of graph (entries ! i)))}"

definition index_of_importers :: "(FileId \<times> nat list) list \<Rightarrow> (nat \<times> FileId) set \<Rightarrow> bool" where
  "index_of_importers al S \<longleftrightarrow>
     (\<forall>k. case map_of al k of None \<Rightarrow> \<forall>i. (i, k) \<notin> S | Some is \<Rightarrow> is \<noteq> [] \<and> set is = {i. (i, k) \<in> S})"

lemma index_push:
  assumes "index_of_importers al S"
  shows "index_of_importers (push_importer i k al) (insert (i, k) S)"
  unfolding index_of_importers_def
proof
  fix k'
  show "case map_of (push_importer i k al) k' of None \<Rightarrow> \<forall>j. (j, k') \<notin> insert (i, k) S
     | Some is \<Rightarrow> is \<noteq> [] \<and> set is = {j. (j, k') \<in> insert (i, k) S}"
    using assms [unfolded index_of_importers_def, rule_format, of k']
    by (cases "k' = k") (auto simp: push_importer_def update_conv' split: option.splits)
qed

lemma index_push_all: "index_of_importers al S \<Longrightarrow> index_of_importers (fold (push_importer i) ks al) (S \<union> {i} \<times> set ks)"
proof (induction ks arbitrary: al S)
  case (Cons k ks)
  from Cons.IH [OF index_push [OF Cons.prems, of i k]] show ?case by (simp add: insert_commute)
qed simp

lemma index_fold:
  "index_of_importers al S \<Longrightarrow>
   index_of_importers (fold (\<lambda>(i, e) al. fold (push_importer i) (importers_of graph e) al) ies al)
     (S \<union> {(i, k). \<exists>e. (i, e) \<in> set ies \<and> k \<in> set (importers_of graph e)})"
proof (induction ies arbitrary: al S)
  case (Cons ie ies)
  obtain i e where ie: "ie = (i, e)" by (cases ie)
  have "S \<union> {i} \<times> set (importers_of graph e) \<union> {(i, k). \<exists>e. (i, e) \<in> set ies \<and> k \<in> set (importers_of graph e)} =
      S \<union> {(i, k). \<exists>e. (i, e) \<in> set (ie # ies) \<and> k \<in> set (importers_of graph e)}"
    using ie by auto
  with Cons.IH [OF index_push_all [OF Cons.prems, of i "importers_of graph e"]] show ?case
    by (simp only: ie fold_Cons comp_apply prod.case)
qed simp

lemma importer_index:
  "index_of_importers (importer_to_entries entries graph)
     {(i, k). i < length entries \<and> k \<in> set (importers_of graph (entries ! i))}"
proof -
  have "{(i, k). \<exists>e. (i, e) \<in> set (enumerate 0 entries) \<and> k \<in> set (importers_of graph e)} =
      {(i, k). i < length entries \<and> k \<in> set (importers_of graph (entries ! i))}"
    by (auto simp: in_set_enumerate_eq)
  then show ?thesis
    using index_fold [of "[]" "{}" graph "enumerate 0 entries"]
    by (simp add: importer_to_entries_def index_of_importers_def)
qed

definition importer_pairs :: "(FileId list \<Rightarrow> FileId list) \<Rightarrow> ExportEntry list \<Rightarrow> ModuleGraph \<Rightarrow> (nat \<times> nat) list" where
  "importer_pairs importer_order entries graph =
     concat (map first_with_rest (map (\<lambda>k. the (map_of (importer_to_entries entries graph) k))
       (importer_order (map fst (importer_to_entries entries graph)))))"

lemma first_with_rest_mem: "(a, b) \<in> set (first_with_rest xs) \<Longrightarrow> a \<in> set xs \<and> b \<in> set xs"
  by (cases xs) auto

lemma importer_pairs_related:
  assumes "\<And>xs. set (importer_order xs) = set xs"
  shows "set (importer_pairs importer_order entries graph) \<subseteq> related_entries entries graph"
proof
  fix ab
  assume "ab \<in> set (importer_pairs importer_order entries graph)"
  then obtain k js where k: "map_of (importer_to_entries entries graph) k = Some js" "ab \<in> set (first_with_rest js)"
  proof -
    assume *: "\<And>k js. map_of (importer_to_entries entries graph) k = Some js \<Longrightarrow> ab \<in> set (first_with_rest js) \<Longrightarrow> thesis"
    have "ab \<in> set (importer_pairs importer_order entries graph)" by fact
    then obtain k where "k \<in> fst ` set (importer_to_entries entries graph)"
        "ab \<in> set (first_with_rest (the (map_of (importer_to_entries entries graph) k)))"
      unfolding importer_pairs_def by (auto simp: assms)
    then show thesis using * by (metis map_of_eq_None_iff option.collapse)
  qed
  then have "set js = {i. i < length entries \<and> k \<in> set (importers_of graph (entries ! i))}"
    using importer_index [of entries graph, unfolded index_of_importers_def, rule_format, of k] by simp
  moreover obtain a b where "ab = (a, b)" "a \<in> set js" "b \<in> set js"
    using first_with_rest_mem [of "fst ab" "snd ab" js] k(2) by (metis prod.collapse)
  ultimately show "ab \<in> related_entries entries graph" by (simp add: related_entries_def) blast
qed

lemma shared_importer_linked:
  assumes "\<And>xs. set (importer_order xs) = set xs"
    and "i < length entries" "j < length entries" "k \<in> set (importers_of graph (entries ! i))" "k \<in> set (importers_of graph (entries ! j))"
  shows "(i, j) \<in> linked (set (importer_pairs importer_order entries graph))"
proof -
  obtain js where k: "map_of (importer_to_entries entries graph) k = Some js" "i \<in> set js" "j \<in> set js"
    using importer_index [of entries graph, unfolded index_of_importers_def, rule_format, of k] assms(2-5)
    by (auto split: option.splits)
  then have "k \<in> fst ` set (importer_to_entries entries graph)" by (force dest: map_of_SomeD)
  then have sub: "set (first_with_rest js) \<subseteq> set (importer_pairs importer_order entries graph)"
    using k(1) by (force simp: importer_pairs_def assms(1))
  obtain f rest where "js = f # rest" using k(2) by (cases js) auto
  then have "x = f \<or> (f, x) \<in> set (first_with_rest js)" if "x \<in> set js" for x
    using that by (simp add: image_iff)
  then have fx: "(f, x) \<in> linked (set (importer_pairs importer_order entries graph))" if "x \<in> set js" for x
    using that sub linked_edge linked_refl by (metis subsetD)
  show ?thesis by (rule linked_trans [OF linked_sym [OF fx [OF k(2)]] fx [OF k(3)]])
qed

lemma mem_map_filter: "y \<in> set (List.map_filter f xs) \<longleftrightarrow> (\<exists>x \<in> set xs. f x = Some y)"
  by (induction xs) (auto simp: map_filter_simps split: option.splits)

lemma mem_concat_map_pairs:
  "y \<in> set (concat (map (\<lambda>(i, e). F i e) xs)) \<longleftrightarrow> (\<exists>i e. (i, e) \<in> set xs \<and> y \<in> set (F i e))"
  by (induction xs) auto

lemma mem_map_filter_the: "None \<notin> set rs \<Longrightarrow> d \<in> set (List.map_filter the rs) \<longleftrightarrow> Some (Some d) \<in> set rs"
  unfolding mem_map_filter by (metis option.exhaust_sel option.sel)

lemma direct_import_pairs_mem:
  "(i, j) \<in> set (direct_import_pairs entries graph) \<longleftrightarrow> i < length entries \<and>
     (\<exists>k \<in> set (importers_of graph (entries ! i)). first_index (\<lambda>e. en_file_id e = k) entries = Some j)"
proof -
  have pick: "(if k \<in> en_file_id ` set entries then map_option (Pair i') (first_index (\<lambda>e. en_file_id e = k) entries) else None) = Some (i, j)
      \<longleftrightarrow> i' = i \<and> first_index (\<lambda>e. en_file_id e = k) entries = Some j" for i' k
    using nth_mem [of j entries] by (auto simp: first_index_Some)
  have "(i, j) \<in> set (direct_import_pairs entries graph) \<longleftrightarrow>
      (\<exists>i' e. (i', e) \<in> set (enumerate 0 entries) \<and> (\<exists>k \<in> set (importers_of graph e).
        (if k \<in> en_file_id ` set entries then map_option (Pair i') (first_index (\<lambda>e. en_file_id e = k) entries) else None) = Some (i, j)))"
    by (simp only: direct_import_pairs_def mem_concat_map_pairs mem_map_filter)
  also have "\<dots> \<longleftrightarrow> (\<exists>e. (i, e) \<in> set (enumerate 0 entries) \<and>
      (\<exists>k \<in> set (importers_of graph e). first_index (\<lambda>e. en_file_id e = k) entries = Some j))"
    unfolding pick by blast
  also have "\<dots> \<longleftrightarrow> i < length entries \<and>
     (\<exists>k \<in> set (importers_of graph (entries ! i)). first_index (\<lambda>e. en_file_id e = k) entries = Some j)"
    by (simp add: in_set_enumerate_eq)
  finally show ?thesis .
qed

lemma pairs_linked:
  assumes "\<And>xs. set (importer_order xs) = set xs" "\<forall>e \<in> set entries. importers_of graph e \<noteq> []"
  shows "linked (set (importer_pairs importer_order entries graph @ direct_import_pairs entries graph)) =
    linked (related_entries entries graph)"
proof -
  let ?ps = "set (importer_pairs importer_order entries graph @ direct_import_pairs entries graph)"
  have "(i, j) \<in> related_entries entries graph" if "(i, j) \<in> ?ps" for i j
    using that importer_pairs_related [OF assms(1), of entries graph]
    by (auto simp: direct_import_pairs_mem related_entries_def first_index_Some)
  then have 1: "?ps \<subseteq> linked (related_entries entries graph)" by (auto intro: linked_edge)
  have shared: "(i, j) \<in> linked ?ps" if "i < length entries" "j < length entries"
      "k \<in> set (importers_of graph (entries ! i))" "k \<in> set (importers_of graph (entries ! j))" for i j k
    by (rule linked_mono [OF shared_importer_linked [OF assms(1) that]]) (auto intro: linked_edge)
  have 2: "(i, j) \<in> linked ?ps" if r: "(i, j) \<in> related_entries entries graph" for i j
  proof (cases "set (importers_of graph (entries ! i)) \<inter> set (importers_of graph (entries ! j)) = {}")
    case False
    then show ?thesis using shared r by (auto simp: related_entries_def)
  next
    case True
    then have ij: "i < length entries" "j < length entries" "en_file_id (entries ! j) \<in> set (importers_of graph (entries ! i))"
      using r by (auto simp: related_entries_def)
    obtain j0 where j0: "first_index (\<lambda>e. en_file_id e = en_file_id (entries ! j)) entries = Some j0"
      using ij(2) by (metis (mono_tags, lifting) first_index_None nth_mem not_None_eq)
    then have f: "j0 < length entries" "en_file_id (entries ! j0) = en_file_id (entries ! j)" by (simp_all add: first_index_Some)
    then have "importers_of graph (entries ! j0) = importers_of graph (entries ! j)" by (simp add: importers_of_def)
    moreover have "importers_of graph (entries ! j) \<noteq> []" using assms(2) ij(2) by simp
    ultimately have "(j0, j) \<in> linked ?ps" using shared [OF f(1) ij(2), of "hd (importers_of graph (entries ! j))"] by simp
    moreover have "(i, j0) \<in> linked ?ps" using j0 ij by (intro linked_edge) (auto simp: direct_import_pairs_mem)
    ultimately show ?thesis by (metis linked_trans)
  qed
  then have "related_entries entries graph \<subseteq> linked ?ps" by auto
  with 1 show ?thesis using linked_mono by (intro set_eqI) (metis prod.collapse)
qed

text \<open>The classes of connected entries, as lists of indices in increasing order.\<close>

definition connected_groups :: "ExportEntry list \<Rightarrow> ModuleGraph \<Rightarrow> nat list set" where
  "connected_groups entries graph =
     (\<lambda>i. filter (\<lambda>j. (i, j) \<in> linked (related_entries entries graph)) [0..<length entries]) ` {..<length entries}"

lemma partition_connected_groups:
  assumes "\<And>xs. set (importer_order xs) = set xs" "\<And>xs. set (root_order xs) = set xs"
    and "\<forall>e \<in> set entries. importers_of graph e \<noteq> []"
  shows "\<exists>cs. partition_by_common_importer importer_order root_order entries graph = Some cs \<and>
    set cs = connected_groups entries graph"
proof -
  let ?a = "importer_pairs importer_order entries graph" and ?b = "direct_import_pairs entries graph"
  let ?u = "\<lambda>(a, b) parent. uf_union parent a b"
  have u: "?u = (\<lambda>x p. uf_union p (fst x) (snd x))" by (simp add: fun_eq_iff)
  have "set ?b \<subseteq> related_entries entries graph"
    by (auto simp: direct_import_pairs_mem related_entries_def first_index_Some)
  then have "\<forall>x \<in> set (?a @ ?b). fst x < length entries \<and> snd x < length entries"
    using importer_pairs_related [OF assms(1), of entries graph] by (auto simp: related_entries_def)
  then obtain p where p: "fold_option ?u (?a @ ?b) (uf_new (length entries)) = Some p"
      "represents p (fold merge_roots (?a @ ?b) id)" "length p = length entries"
    using fold_option_unions [OF represents_new, of "?a @ ?b" "length entries"] unfolding u by (auto simp: uf_new_def)
  obtain cs where cs: "uf_components root_order p = Some cs"
      "set cs = (\<lambda>i. filter (\<lambda>j. merged (?a @ ?b) j = merged (?a @ ?b) i) [0..<length p]) ` {..<length p}"
    using uf_components_classes [OF p(2) assms(2)] unfolding merged_def by blast
  have "partition_by_common_importer importer_order root_order entries graph = Some cs"
    using p(1) cs(1)
    by (auto simp: partition_by_common_importer_def Let_def fold_option_append importer_pairs_def split: option.splits)
  moreover have "merged (?a @ ?b) j = merged (?a @ ?b) i \<longleftrightarrow> (i, j) \<in> linked (related_entries entries graph)" for i j
    unfolding merged_iff_linked pairs_linked [OF assms(1,3)] using linked_sym by blast
  ultimately show ?thesis using cs(2) p(3) by (simp add: connected_groups_def)
qed

section \<open>The groups that are reported\<close>

definition genuine_group :: "ExportEntry list \<Rightarrow> nat list \<Rightarrow> bool" where
  "genuine_group entries c \<longleftrightarrow> 2 \<le> length c \<and>
     \<not> (length (filter (\<lambda>i. \<not> en_is_type_only (entries ! i)) c) = 1 \<and>
        length (filter (\<lambda>i. en_is_type_only (entries ! i)) c) = 1)"

lemma component_duplicate_locations_eq:
  "component_duplicate_locations c entries lines =
     (if genuine_group entries c then map (\<lambda>i. entry_location lines (entries ! i)) c else [])"
  by (simp add: component_duplicate_locations_def genuine_group_def Let_def)

definition module_entries :: "DuplicateContext \<Rightarrow> SuppressionContext \<Rightarrow> nat \<times> ModuleNode \<Rightarrow> (string \<times> ExportEntry) list" where
  "module_entries dc supp im = (case im of (idx, m) \<Rightarrow>
     (if \<not> is_reachable m \<or> is_entry_point m \<or> file_silenced supp (ModuleNode.file_id m) DuplicateExport then []
      else map (\<lambda>e. (export_display (ExportSymbol.export_name e), entry_of idx m e))
        (filter (duplicate_candidate dc m
            (ignore_matchers_for_module (node_path m) (root (dc_config dc)) (compiled_ignore_exports (dc_config dc)))
            (snd (matchers_for_module (node_path m) (root (dc_config dc)) [] (dc_tanstack_matchers dc)))) (exports m))))"

interpretation duplicate_pass: detector_pass "duplicate_step dc" "same_directives supp" "module_entries dc supp" for dc supp
  by unfold_locales (auto simp: duplicate_step_def module_entries_def Let_def case_prod_beta asked_directives)

definition all_entries :: "DuplicateContext \<Rightarrow> SuppressionContext \<Rightarrow> (string \<times> ExportEntry) list" where
  "all_entries dc supp = concat (map (module_entries dc supp) (enumerate 0 (modules (dc_graph dc))))"

definition entries_named :: "string \<Rightarrow> (string \<times> ExportEntry) list \<Rightarrow> ExportEntry list" where
  "entries_named n xs = map snd (filter (\<lambda>x. fst x = n) xs)"

lemma push_entry_lookup:
  "map_of (push_entry x al) n =
     (if n = fst x then Some ((case map_of al (fst x) of None \<Rightarrow> [] | Some es \<Rightarrow> es) @ [snd x]) else map_of al n)"
  by (simp add: push_entry_def update_conv')

lemma push_entry_keys: "distinct (map fst al) \<Longrightarrow> distinct (map fst (push_entry x al))"
  by (simp add: push_entry_def distinct_update)

lemma entries_named_none: "n \<notin> fst ` set xs \<Longrightarrow> entries_named n xs = []"
  by (auto simp: entries_named_def filter_empty_conv image_iff)

lemma entries_by_name_keys: "distinct (map fst (fold push_entry xs []))"
  by (induction xs rule: rev_induct) (simp_all add: push_entry_keys)

lemma entries_by_name:
  "map_of (fold push_entry xs []) n = (if n \<in> fst ` set xs then Some (entries_named n xs) else None)"
proof (induction xs arbitrary: n rule: rev_induct)
  case (snoc x xs)
  have "entries_named n (xs @ [x]) = entries_named n xs @ (if fst x = n then [snd x] else [])"
    by (simp add: entries_named_def)
  then show ?case
    using snoc.IH [of n] entries_named_none [of n xs] by (auto simp: push_entry_lookup split: if_splits)
qed simp

lemma group_of_few: "length entries \<le> 1 \<Longrightarrow> c \<in> connected_groups entries graph \<Longrightarrow> \<not> genuine_group entries c"
proof -
  assume l: "length entries \<le> 1" and "c \<in> connected_groups entries graph"
  then have "length c \<le> length [0..<length entries]"
    unfolding connected_groups_def by (metis (no_types, lifting) imageE length_filter_le)
  then show "\<not> genuine_group entries c" using l by (simp add: genuine_group_def)
qed

definition reported_group :: "(nat \<times> nat) set \<Rightarrow> ModuleGraph \<Rightarrow> ExportEntry list \<Rightarrow> nat list \<Rightarrow> bool" where
  "reported_group sources graph locations c \<longleftrightarrow>
     c \<in> connected_groups (independent_entries sources locations) graph \<and> genuine_group (independent_entries sources locations) c"

definition reported_locations :: "(nat \<times> nat) set \<Rightarrow> ModuleGraph \<Rightarrow> LineOffsetsMap \<Rightarrow> ExportEntry list \<Rightarrow> DuplicateLocation set" where
  "reported_locations sources graph lines locations =
     (\<Union>c \<in> {c. reported_group sources graph locations c}. (\<lambda>i. entry_location lines (independent_entries sources locations ! i)) ` set c)"

lemma evaluate_group:
  assumes "\<And>xs. set (importer_order xs) = set xs" "\<And>xs. set (root_order xs) = set xs"
    and "\<forall>e \<in> set locations. importers_of graph e \<noteq> []"
  shows "\<exists>r. evaluate_duplicate_export_group importer_order root_order sources graph lines (name, locations) = Some r \<and>
    (case r of None \<Rightarrow> \<forall>c. \<not> reported_group sources graph locations c
     | Some d \<Rightarrow> de_export_name d = name \<and> 2 \<le> length (de_locations d) \<and>
         (\<exists>c. reported_group sources graph locations c) \<and> set (de_locations d) = reported_locations sources graph lines locations)"
proof -
  let ?es = "independent_entries sources locations"
  have le: "length ?es \<le> length locations" by (simp add: independent_entries_def Let_def)
  show ?thesis
  proof (cases "length ?es \<le> 1")
    case True
    then show ?thesis
      using le group_of_few [OF True]
      by (auto simp: evaluate_duplicate_export_group_def Let_def reported_group_def)
  next
    case False
    have "\<forall>e \<in> set ?es. importers_of graph e \<noteq> []" using assms(3) by (simp add: independent_entries_def Let_def)
    from partition_connected_groups [OF assms(1,2) this]
    obtain cs where cs: "partition_by_common_importer importer_order root_order ?es graph = Some cs"
        "set cs = connected_groups ?es graph" by blast
    let ?sv = "concat (map (\<lambda>c. component_duplicate_locations c ?es lines) cs)"
    have sv: "set ?sv = reported_locations sources graph lines locations"
      by (auto simp: component_duplicate_locations_eq reported_locations_def reported_group_def cs(2) split: if_splits)
    have long: "2 \<le> length ?sv" if c: "reported_group sources graph locations c" for c
    proof -
      have c': "c \<in> set cs" "genuine_group ?es c" using c cs(2) by (simp_all add: reported_group_def)
      then obtain as bs where "cs = as @ c # bs" by (metis split_list)
      then have "length (component_duplicate_locations c ?es lines) \<le> length ?sv" by simp
      then show ?thesis using c'(2) by (simp add: component_duplicate_locations_eq genuine_group_def)
    qed
    have none: "?sv = []" if "\<forall>c. \<not> reported_group sources graph locations c"
      using sv that by (simp add: reported_locations_def)
    have ev: "evaluate_duplicate_export_group importer_order root_order sources graph lines (name, locations) =
        Some (if length ?sv \<le> 1 then None else Some \<lparr>de_export_name = name, de_locations = ?sv\<rparr>)"
      using False le cs(1) by (simp add: evaluate_duplicate_export_group_def Let_def)
    show ?thesis
    proof (cases "\<exists>c. reported_group sources graph locations c")
      case True
      then have "2 \<le> length ?sv" using long by blast
      then show ?thesis using True ev sv by simp
    next
      case False
      then have "length ?sv \<le> 1" using none by (metis le0 list.size(3) le_trans One_nat_def)
      then show ?thesis unfolding ev using False by simp
    qed
  qed
qed

lemma find_duplicates:
  assumes "ctx_ok supp" "\<And>xs. set (importer_order xs) = set xs" "\<And>xs. set (root_order xs) = set xs"
    and dc: "dc = duplicate_context pc graph config plugin_result"
    and sources: "sources = build_re_export_source_map graph resolved_modules"
    and "\<forall>x \<in> set (all_entries dc supp). importers_of graph (snd x) \<noteq> []"
  shows "\<exists>ds. fst (find_duplicate_exports_with_plugins importer_order root_order pc graph config lines plugin_result
      resolved_modules supp) = Some ds \<and>
    (\<forall>n. (\<exists>d \<in> set ds. de_export_name d = n) \<longleftrightarrow>
       (\<exists>c. reported_group sources graph (entries_named n (all_entries dc supp)) c)) \<and>
    (\<forall>d \<in> set ds. set (de_locations d) =
       reported_locations sources graph lines (entries_named (de_export_name d) (all_entries dc supp)))"
proof -
  let ?xs = "all_entries dc supp" and ?al = "fold push_entry (all_entries dc supp) []"
  let ?ev = "evaluate_duplicate_export_group importer_order root_order sources graph lines"
  let ?loc = "\<lambda>n. entries_named n ?xs"
  have "fst (collect_findings (duplicate_step dc) (enumerate 0 (modules graph)) supp) = ?xs"
    using duplicate_pass.pass_out [OF same_directives_refl [OF assms(1)], of dc "enumerate 0 (modules graph)"]
    by (simp add: all_entries_def dc duplicate_context_def)
  then have al: "fst (collect_duplicate_export_locations dc supp) = ?al"
    by (simp add: collect_duplicate_export_locations_def Let_def case_prod_beta dc duplicate_context_def)
  have mem: "(n, locs) \<in> set ?al \<longleftrightarrow> n \<in> fst ` set ?xs \<and> locs = ?loc n" for n locs
    unfolding map_of_eq_Some_iff [OF entries_by_name_keys, symmetric] entries_by_name by auto
  have "\<forall>e \<in> set (?loc n). importers_of graph e \<noteq> []" for n
    using assms(6) by (auto simp: entries_named_def)
  from evaluate_group [OF assms(2,3) this]
  have ev: "\<exists>r. ?ev (n, ?loc n) = Some r \<and>
    (case r of None \<Rightarrow> \<forall>c. \<not> reported_group sources graph (?loc n) c
     | Some d \<Rightarrow> de_export_name d = n \<and> 2 \<le> length (de_locations d) \<and>
         (\<exists>c. reported_group sources graph (?loc n) c) \<and> set (de_locations d) = reported_locations sources graph lines (?loc n))" for n
    by blast
  let ?rs = "map ?ev (sort_key fst ?al)"
  have rs: "r \<in> set ?rs \<longleftrightarrow> (\<exists>n \<in> fst ` set ?xs. r = ?ev (n, ?loc n))" for r
    using mem by (auto simp: image_iff)
  then have total: "None \<notin> set ?rs" using ev by (metis option.distinct(1))
  let ?ds = "List.map_filter the ?rs"
  have ds: "d \<in> set ?ds \<longleftrightarrow> (\<exists>n \<in> fst ` set ?xs. ?ev (n, ?loc n) = Some (Some d))" for d
    unfolding mem_map_filter_the [OF total] rs by (intro bex_cong refl eq_commute)
  have named: "n \<in> fst ` set ?xs" if "reported_group sources graph (?loc n) c" for n c
  proof (rule ccontr)
    assume "n \<notin> fst ` set ?xs"
    then have "?loc n = []" by (auto simp: entries_named_def filter_empty_conv)
    then show False using that by (simp add: reported_group_def connected_groups_def independent_entries_def)
  qed
  have "fst (find_duplicate_exports_with_plugins importer_order root_order pc graph config lines plugin_result
      resolved_modules supp) = Some ?ds"
    using total by (simp only: find_duplicate_exports_with_plugins_def Let_def case_prod_beta if_False fst_conv snd_conv al dc [symmetric] sources [symmetric])
  moreover have "(\<exists>d \<in> set ?ds. de_export_name d = n) \<longleftrightarrow> (\<exists>c. reported_group sources graph (?loc n) c)" for n
  proof
    assume "\<exists>d \<in> set ?ds. de_export_name d = n"
    then obtain d n' where "?ev (n', ?loc n') = Some (Some d)" "de_export_name d = n" using ds by blast
    then show "\<exists>c. reported_group sources graph (?loc n) c" using ev [of n'] by auto
  next
    assume "\<exists>c. reported_group sources graph (?loc n) c"
    then show "\<exists>d \<in> set ?ds. de_export_name d = n" using ev [of n] named ds by (fastforce split: option.splits)
  qed
  moreover have "set (de_locations d) = reported_locations sources graph lines (?loc (de_export_name d))" if "d \<in> set ?ds" for d
  proof -
    from that obtain n where "?ev (n, ?loc n) = Some (Some d)" using ds by blast
    then show ?thesis using ev [of n] by auto
  qed
  ultimately show ?thesis by blast
qed

end
