(* ===== verification/Graph_Build.thy ===== *)
theory Graph_Build
  imports Reference_Narrowing "HOL-Library.AList"
begin

text \<open>
  The first two phases of graph construction (\<^verbatim>\<open>graph/src/graph/build.rs\<close>): the flat edge
  storage with the module nodes and reverse dependencies (\<^verbatim>\<open>populate_edges\<close>), and the references
  the edges put on the exports of their targets (\<^verbatim>\<open>populate_references\<close>).

  The map of a file's edges by target is an association list; the code sorts it by its keys.
\<close>

section \<open>The edges of one file\<close>

type_synonym edge_map = "(FileId \<times> ImportedSymbol list) list"

record EdgeAccumulator =
  acc_package_usage :: "string \<Rightarrow> FileId list option"
  acc_type_only_package_usage :: "string \<Rightarrow> FileId list option"
  acc_namespace_imported :: FixedBitSet
  acc_total_capacity :: nat

definition record_namespace_import :: "FileId \<Rightarrow> FixedBitSet \<Rightarrow> nat \<Rightarrow> FixedBitSet" where
  "record_namespace_import target_id b cap =
     (if target_id < cap then b\<lparr>bits := insert target_id (bits b)\<rparr> else b)"

definition push_usage :: "string \<Rightarrow> FileId \<Rightarrow> (string \<Rightarrow> FileId list option) \<Rightarrow> string \<Rightarrow> FileId list option" where
  "push_usage name f m = m(name \<mapsto> (case m name of None \<Rightarrow> [] | Some fs \<Rightarrow> fs) @ [f])"

definition record_package_usage :: "string \<Rightarrow> FileId \<Rightarrow> bool \<Rightarrow> EdgeAccumulator \<Rightarrow> EdgeAccumulator" where
  "record_package_usage name f type_only acc =
     (let acc = acc\<lparr>acc_package_usage := push_usage name f (acc_package_usage acc)\<rparr>
      in if type_only
         then acc\<lparr>acc_type_only_package_usage := push_usage name f (acc_type_only_package_usage acc)\<rparr>
         else acc)"

definition push_symbol :: "FileId \<Rightarrow> ImportedSymbol \<Rightarrow> edge_map \<Rightarrow> edge_map" where
  "push_symbol t s m = AList.update t ((case map_of m t of None \<Rightarrow> [] | Some ss \<Rightarrow> ss) @ [s]) m"

definition import_symbol :: "ResolvedImport \<Rightarrow> ImportedSymbol" where
  "import_symbol i =
     \<lparr>imported_name = ii_imported_name (import_info i), local_name = ii_local_name (import_info i),
      import_span = ii_span (import_info i), sym_is_type_only = ii_is_type_only (import_info i)\<rparr>"

definition collect_import_edge ::
  "FileId \<Rightarrow> ResolvedImport \<Rightarrow> edge_map \<times> EdgeAccumulator \<Rightarrow> edge_map \<times> EdgeAccumulator" where
  "collect_import_edge f i st = (case st of (edges_by_target, acc) \<Rightarrow>
     (let acc = (case package_usage_name (import_target i) of
            None \<Rightarrow> acc
          | Some name \<Rightarrow> record_package_usage name f (ii_is_type_only (import_info i)) acc)
      in case internal_file_id (import_target i) of
           None \<Rightarrow> (edges_by_target, acc)
         | Some t \<Rightarrow>
             (push_symbol t (import_symbol i) edges_by_target,
              if ii_imported_name (import_info i) = ImpNamespace
              then acc\<lparr>acc_namespace_imported :=
                     record_namespace_import t (acc_namespace_imported acc) (acc_total_capacity acc)\<rparr>
              else acc)))"

definition re_export_symbol :: "ResolvedReExport \<Rightarrow> ImportedSymbol" where
  "re_export_symbol r =
     \<lparr>imported_name = ImpSideEffect, local_name = [], import_span = \<lparr>span_begin = 0, span_end = 0\<rparr>,
      sym_is_type_only = ri_is_type_only (re_export_info r)\<rparr>"

definition collect_re_export_edge ::
  "FileId \<Rightarrow> ResolvedReExport \<Rightarrow> edge_map \<times> EdgeAccumulator \<Rightarrow> edge_map \<times> EdgeAccumulator" where
  "collect_re_export_edge f r st = (case st of (edges_by_target, acc) \<Rightarrow>
     (let acc = (case package_usage_name (re_export_target r) of
            None \<Rightarrow> acc
          | Some name \<Rightarrow> record_package_usage name f (ri_is_type_only (re_export_info r)) acc)
      in case internal_file_id (re_export_target r) of
           None \<Rightarrow> (edges_by_target, acc)
         | Some t \<Rightarrow> (push_symbol t (re_export_symbol r) edges_by_target, acc)))"

definition pattern_symbol :: ImportedSymbol where
  "pattern_symbol =
     \<lparr>imported_name = ImpNamespace, local_name = [], import_span = \<lparr>span_begin = 0, span_end = 0\<rparr>,
      sym_is_type_only = False\<rparr>"

definition credit_pattern_target ::
  "FileId \<Rightarrow> FileId set \<times> edge_map \<times> EdgeAccumulator \<Rightarrow> FileId set \<times> edge_map \<times> EdgeAccumulator" where
  "credit_pattern_target t st = (case st of (credited, edges_by_target, acc) \<Rightarrow>
     (if t \<in> credited then st
      else (insert t credited, push_symbol t pattern_symbol edges_by_target,
            acc\<lparr>acc_namespace_imported :=
              record_namespace_import t (acc_namespace_imported acc) (acc_total_capacity acc)\<rparr>)))"

definition collect_edges_for_module ::
  "ResolvedModule \<Rightarrow> FileId \<Rightarrow> EdgeAccumulator \<Rightarrow> edge_map \<times> EdgeAccumulator" where
  "collect_edges_for_module resolved f acc =
     (let st = fold (collect_import_edge f) (resolved_imports resolved) ([], acc);
          st = fold (collect_re_export_edge f) (rm_re_exports resolved) st;
          st = fold (collect_import_edge f) (resolved_dynamic_imports resolved) st
      in case fold (\<lambda>(_, matched_ids). fold credit_pattern_target matched_ids)
                (resolved_dynamic_patterns resolved) ({}, st) of
           (_, edges_by_target, acc) \<Rightarrow> (sort_key fst edges_by_target, acc))"

section \<open>The node of one file\<close>

definition build_export_symbols :: "ResolvedModule option \<Rightarrow> ExportSymbol list" where
  "build_export_symbols resolved =
     (case resolved of
        None \<Rightarrow> []
      | Some m \<Rightarrow> map (\<lambda>e.
          \<lparr>export_name = ei_name e, exp_is_type_only = ei_is_type_only e,
           is_side_effect_used = ei_is_side_effect_used e, visibility = ei_visibility e,
           expected_unused_reason = ei_expected_unused_reason e, export_span = ei_span e,
           references = [], members = ei_members e\<rparr>) (rm_exports m))"

definition add_named_re_export_stub :: "ResolvedReExport \<Rightarrow> ExportSymbol list \<Rightarrow> ExportSymbol list" where
  "add_named_re_export_stub re es =
     (let info = re_export_info re; name = export_name_of (ri_exported_name info)
      in if ri_exported_name info = ''*'' then es
         else if \<exists>e \<in> set es. export_name e = name then es
         else es @ [\<lparr>export_name = name, exp_is_type_only = ri_is_type_only info, is_side_effect_used = False,
                visibility = VisNone, expected_unused_reason = None, export_span = ri_span info,
                references = [], members = []\<rparr>])"

definition append_named_re_export_stubs :: "ExportSymbol list \<Rightarrow> ResolvedModule \<Rightarrow> ExportSymbol list" where
  "append_named_re_export_stubs es resolved = fold add_named_re_export_stub (rm_re_exports resolved) es"

definition build_re_export_edges :: "ResolvedModule option \<Rightarrow> ReExportEdge list" where
  "build_re_export_edges resolved =
     (case resolved of
        None \<Rightarrow> []
      | Some m \<Rightarrow> List.map_filter (\<lambda>re. map_option (\<lambda>t.
          \<lparr>source_file = t, re_imported_name = ri_imported_name (re_export_info re),
           re_exported_name = ri_exported_name (re_export_info re),
           re_is_type_only = ri_is_type_only (re_export_info re), re_span = ri_span (re_export_info re)\<rparr>)
          (internal_file_id (re_export_target re))) (rm_re_exports m))"

definition build_module_node ::
  "DiscoveredFile \<Rightarrow> (FileId \<Rightarrow> ResolvedModule option) \<Rightarrow> FileId set \<Rightarrow> nat \<times> nat \<Rightarrow> ModuleNode" where
  "build_module_node file module_by_id entry_point_ids rng =
     (let resolved = module_by_id (df_id file);
          es = build_export_symbols resolved;
          es = (case resolved of None \<Rightarrow> es | Some m \<Rightarrow> append_named_re_export_stubs es m)
      in \<lparr>file_id = df_id file, node_path = df_path file, edge_range = rng, exports = es,
          re_exports = build_re_export_edges resolved,
          flags = flags_from (df_id file \<in> entry_point_ids) False
            (case resolved of None \<Rightarrow> False | Some m \<Rightarrow> rm_has_cjs_exports m)\<rparr>)"

section \<open>The graph of all files\<close>

record PopulateEdgesInput =
  pe_files :: "DiscoveredFile list"
  pe_module_by_id :: "FileId \<Rightarrow> ResolvedModule option"
  pe_entry_point_ids :: "FileId set"
  pe_runtime_entry_point_ids :: "FileId set"
  pe_test_entry_point_ids :: "FileId set"
  pe_module_count :: nat
  pe_total_capacity :: nat

definition add_edge :: "FileId \<Rightarrow> FileId \<times> ImportedSymbol list \<Rightarrow> Edge list \<times> FileId list list \<Rightarrow> Edge list \<times> FileId list list" where
  "add_edge f ts st = (case ts of (t, ss) \<Rightarrow> case st of (all_edges, reverse) \<Rightarrow>
     (all_edges @ [\<lparr>edge_source = f, edge_target = t, symbols = ss\<rparr>],
      if t < length reverse then reverse[t := reverse ! t @ [f]] else reverse))"

definition add_file ::
  "PopulateEdgesInput \<Rightarrow> DiscoveredFile \<Rightarrow>
   Edge list \<times> ModuleNode list \<times> FileId list list \<times> EdgeAccumulator \<Rightarrow>
   Edge list \<times> ModuleNode list \<times> FileId list list \<times> EdgeAccumulator" where
  "add_file inp file st = (case st of (all_edges, ms, reverse, acc) \<Rightarrow>
     (case (case pe_module_by_id inp (df_id file) of
              None \<Rightarrow> ((all_edges, reverse), acc)
            | Some resolved \<Rightarrow> (case collect_edges_for_module resolved (df_id file) acc of
                (sorted_edges, acc) \<Rightarrow> (fold (add_edge (df_id file)) sorted_edges (all_edges, reverse), acc))) of
        ((all_edges', reverse'), acc') \<Rightarrow>
          (all_edges',
           ms @ [build_module_node file (pe_module_by_id inp) (pe_entry_point_ids inp)
                   (length all_edges, length all_edges')],
           reverse', acc')))"

definition populate_edges :: "PopulateEdgesInput \<Rightarrow> ModuleGraph" where
  "populate_edges inp =
     (case fold (add_file inp) (pe_files inp)
        ([], [], replicate (pe_total_capacity inp) [],
         \<lparr>acc_package_usage = Map.empty, acc_type_only_package_usage = Map.empty,
          acc_namespace_imported = \<lparr>bit_length = pe_total_capacity inp, bits = {}\<rparr>,
          acc_total_capacity = pe_total_capacity inp\<rparr>) of
        (all_edges, ms, reverse, acc) \<Rightarrow>
          \<lparr>modules = ms, edges = all_edges, package_usage = acc_package_usage acc,
           type_only_package_usage = acc_type_only_package_usage acc,
           entry_points = pe_entry_point_ids inp, runtime_entry_points = pe_runtime_entry_point_ids inp,
           test_entry_points = pe_test_entry_point_ids inp, reverse_deps = reverse,
           namespace_imported = acc_namespace_imported acc, re_export_cycles = []\<rparr>)"

definition attach_edge ::
  "(FileId \<Rightarrow> ResolvedModule option) \<Rightarrow> FileId set \<Rightarrow> Edge \<Rightarrow> ModuleNode list \<Rightarrow> ModuleNode list" where
  "attach_edge module_by_id entry_point_ids e ms =
     (let target_idx = edge_target e
      in if target_idx \<ge> length ms then ms
         else ms[target_idx := fold (attach_symbol_reference (edge_source e) module_by_id entry_point_ids)
                (symbols e) (ms ! target_idx)])"

definition populate_references ::
  "(FileId \<Rightarrow> ResolvedModule option) \<Rightarrow> FileId set \<Rightarrow> ModuleGraph \<Rightarrow> ModuleGraph" where
  "populate_references module_by_id entry_point_ids self =
     self\<lparr>modules := fold (attach_edge module_by_id entry_point_ids) (edges self) (modules self)\<rparr>"

section \<open>The edges of a file are its imports\<close>

definition imports_symbol :: "ResolvedModule \<Rightarrow> FileId \<Rightarrow> ImportedSymbol \<Rightarrow> bool" where
  "imports_symbol r t s \<longleftrightarrow>
     (\<exists>i \<in> set (resolved_imports r) \<union> set (resolved_dynamic_imports r).
        internal_file_id (import_target i) = Some t \<and> s = import_symbol i) \<or>
     (\<exists>re \<in> set (rm_re_exports r). internal_file_id (re_export_target re) = Some t \<and> s = re_export_symbol re) \<or>
     (\<exists>p \<in> set (resolved_dynamic_patterns r). t \<in> set (snd p) \<and> s = pattern_symbol)"

definition symbols_at :: "edge_map \<Rightarrow> FileId \<Rightarrow> ImportedSymbol list" where
  "symbols_at m t = (case map_of m t of None \<Rightarrow> [] | Some ss \<Rightarrow> ss)"

definition edge_map_ok :: "edge_map \<Rightarrow> bool" where
  "edge_map_ok m \<longleftrightarrow> distinct (map fst m) \<and> (\<forall>x \<in> set m. snd x \<noteq> [])"

lemma symbols_at_push: "symbols_at (push_symbol t s m) t' = symbols_at m t' @ (if t' = t then [s] else [])"
  by (auto simp: symbols_at_def push_symbol_def update_conv' split: option.splits)

lemma set_update: "set (AList.update k v al) \<subseteq> insert (k, v) (set al)"
  by (induction al) auto

lemma edge_map_ok_push: "edge_map_ok m \<Longrightarrow> edge_map_ok (push_symbol t s m)"
  using set_update [of t _ m] by (fastforce simp: edge_map_ok_def push_symbol_def distinct_update)

definition extends_map :: "edge_map \<Rightarrow> (FileId \<Rightarrow> ImportedSymbol set) \<Rightarrow> edge_map \<Rightarrow> bool" where
  "extends_map m added m' \<longleftrightarrow> (edge_map_ok m \<longrightarrow> edge_map_ok m') \<and>
     (\<forall>t. set (symbols_at m' t) = set (symbols_at m t) \<union> added t)"

lemma extends_map_trans:
  "extends_map m a n \<Longrightarrow> extends_map n b p \<Longrightarrow> extends_map m (\<lambda>t. a t \<union> b t) p"
  by (auto simp: extends_map_def)

lemma extends_map_refl: "extends_map m (\<lambda>_. {}) m"
  by (simp add: extends_map_def)

lemma extends_map_fold:
  assumes "\<And>x st. extends_map (fst st) (a x) (fst (f x st))"
  shows "extends_map (fst st) (\<lambda>t. \<Union>x \<in> set xs. a x t) (fst (fold f xs st))"
proof (induction xs arbitrary: st)
  case (Cons x xs)
  show ?case using extends_map_trans [OF assms [of st x] Cons [of "f x st"]] by simp
qed (simp add: extends_map_refl)

definition import_syms :: "ResolvedImport \<Rightarrow> FileId \<Rightarrow> ImportedSymbol set" where
  "import_syms i t = (if internal_file_id (import_target i) = Some t then {import_symbol i} else {})"

definition re_export_syms :: "ResolvedReExport \<Rightarrow> FileId \<Rightarrow> ImportedSymbol set" where
  "re_export_syms r t = (if internal_file_id (re_export_target r) = Some t then {re_export_symbol r} else {})"

lemma collect_import_edge_extends: "extends_map (fst st) (import_syms i) (fst (collect_import_edge f i st))"
  by (cases "internal_file_id (import_target i)")
    (simp_all add: collect_import_edge_def import_syms_def extends_map_def edge_map_ok_push symbols_at_push
      Let_def split: prod.split)

lemma collect_re_export_edge_extends: "extends_map (fst st) (re_export_syms i) (fst (collect_re_export_edge f i st))"
  by (cases "internal_file_id (re_export_target i)")
    (simp_all add: collect_re_export_edge_def re_export_syms_def extends_map_def edge_map_ok_push symbols_at_push
      Let_def split: prod.split)

text \<open>The targets of the patterns: each one not credited before gets the pattern symbol.\<close>

definition pattern_state :: "FileId set \<times> edge_map \<times> EdgeAccumulator \<Rightarrow> FileId set \<Rightarrow>
    FileId set \<times> edge_map \<times> EdgeAccumulator \<Rightarrow> bool" where
  "pattern_state st ts st' \<longleftrightarrow> fst st' = fst st \<union> ts \<and>
     extends_map (fst (snd st)) (\<lambda>t. if t \<in> ts - fst st then {pattern_symbol} else {}) (fst (snd st'))"

lemma pattern_state_trans:
  assumes "pattern_state st ts st1" "pattern_state st1 us st2"
  shows "pattern_state st (ts \<union> us) st2"
  using assms by (auto simp: pattern_state_def extends_map_def)

lemma credit_pattern_targets: "pattern_state st (set ts) (fold credit_pattern_target ts st)"
proof (induction ts arbitrary: st)
  case Nil
  then show ?case by (simp add: pattern_state_def extends_map_refl)
next
  case (Cons t ts)
  have "pattern_state st {t} (credit_pattern_target t st)"
    by (cases st) (auto simp: pattern_state_def credit_pattern_target_def insert_absorb extends_map_def
        edge_map_ok_push symbols_at_push)
  from pattern_state_trans [OF this Cons] show ?case by simp
qed

lemma credit_patterns:
  "pattern_state st (\<Union>p \<in> set ps. set (snd p)) (fold (\<lambda>(_, ids). fold credit_pattern_target ids) ps st)"
proof (induction ps arbitrary: st)
  case Nil
  then show ?case by (simp add: pattern_state_def extends_map_refl)
next
  case (Cons p ps)
  show ?case
    using pattern_state_trans [OF credit_pattern_targets [of st "snd p"] Cons [of "fold credit_pattern_target (snd p) st"]]
    by (simp add: case_prod_beta)
qed

lemma map_of_sort_key:
  "distinct (map fst m) \<Longrightarrow> map_of (sort_key fst m) = map_of (m :: (FileId \<times> 'b) list)"
  by (rule map_of_inject_set [THEN iffD2]) (simp_all add: distinct_map inj_on_def)

lemma collect_edges_for_module_ok:
  "sorted_wrt (<) (map fst (fst (collect_edges_for_module r f acc))) \<and>
   (\<forall>t s. (\<exists>ss. (t, ss) \<in> set (fst (collect_edges_for_module r f acc)) \<and> s \<in> set ss) \<longleftrightarrow> imports_symbol r t s)"
proof -
  define st1 where "st1 = fold (collect_import_edge f) (resolved_imports r) ([], acc)"
  define st2 where "st2 = fold (collect_re_export_edge f) (rm_re_exports r) st1"
  define st3 where "st3 = fold (collect_import_edge f) (resolved_dynamic_imports r) st2"
  obtain cr m acc' where st4: "fold (\<lambda>(_, ids). fold credit_pattern_target ids) (resolved_dynamic_patterns r) ({}, st3)
      = (cr, m, acc')" by (metis prod.collapse)
  have "extends_map [] (\<lambda>t. \<Union>i \<in> set (resolved_imports r). import_syms i t) (fst st1)"
    using extends_map_fold [OF collect_import_edge_extends, of "([], acc)"] by (simp add: st1_def)
  moreover have "extends_map (fst st1) (\<lambda>t. \<Union>i \<in> set (rm_re_exports r). re_export_syms i t) (fst st2)"
    unfolding st2_def by (rule extends_map_fold [OF collect_re_export_edge_extends])
  moreover have "extends_map (fst st2) (\<lambda>t. \<Union>i \<in> set (resolved_dynamic_imports r). import_syms i t) (fst st3)"
    unfolding st3_def by (rule extends_map_fold [OF collect_import_edge_extends])
  moreover have "extends_map (fst st3) (\<lambda>t. if \<exists>p \<in> set (resolved_dynamic_patterns r). t \<in> set (snd p)
      then {pattern_symbol} else {}) m"
    using credit_patterns [of "({}, st3)" "resolved_dynamic_patterns r"] unfolding st4
    by (simp add: pattern_state_def extends_map_def)
  ultimately have ext: "edge_map_ok m" "set (symbols_at m t) = (\<Union>i \<in> set (resolved_imports r). import_syms i t) \<union>
      (\<Union>i \<in> set (rm_re_exports r). re_export_syms i t) \<union> (\<Union>i \<in> set (resolved_dynamic_imports r). import_syms i t) \<union>
      (if \<exists>p \<in> set (resolved_dynamic_patterns r). t \<in> set (snd p) then {pattern_symbol} else {})" for t
    by (simp_all add: extends_map_def) (simp_all add: edge_map_ok_def symbols_at_def)
  have es: "fst (collect_edges_for_module r f acc) = sort_key fst m"
    by (simp add: collect_edges_for_module_def Let_def st1_def [symmetric] st2_def [symmetric]
        st3_def [symmetric] st4)
  have d: "distinct (map fst m)" using ext(1) by (simp add: edge_map_ok_def)
  have "sorted (map fst (sort_key fst m))" "distinct (map fst (sort_key fst m))"
    using d by (simp_all add: distinct_map inj_on_def)
  then have "sorted_wrt (<) (map fst (sort_key fst m))" by (simp add: strict_sorted_iff)
  moreover have "(\<exists>ss. (t, ss) \<in> set m \<and> s \<in> set ss) \<longleftrightarrow> s \<in> set (symbols_at m t)" for t s
    using map_of_eq_Some_iff [OF d] by (cases "map_of m t") (force simp: symbols_at_def map_of_eq_None_iff)+
  then have "(\<exists>ss. (t, ss) \<in> set m \<and> s \<in> set ss) \<longleftrightarrow> imports_symbol r t s" for t s
    unfolding ext(2) by (auto simp: imports_symbol_def import_syms_def re_export_syms_def)
  ultimately show ?thesis by (simp add: es)
qed

section \<open>The edge storage and its indexes\<close>

definition edge_list :: "FileId \<Rightarrow> edge_map \<Rightarrow> Edge list" where
  "edge_list f es = map (\<lambda>(t, ss). \<lparr>edge_source = f, edge_target = t, symbols = ss\<rparr>) es"

lemma edge_list_targets: "map edge_target (edge_list f ts) = map fst ts"
  by (auto simp: edge_list_def)

lemma edge_list_mem:
  "(\<exists>e \<in> set (edge_list f ts). edge_target e = t \<and> s \<in> set (symbols e)) \<longleftrightarrow> (\<exists>ss. (t, ss) \<in> set ts \<and> s \<in> set ss)"
  by (force simp: edge_list_def)

text \<open>Every node owns the edges of its file, and the reverse dependencies list their sources.\<close>

definition file_edges :: "PopulateEdgesInput \<Rightarrow> DiscoveredFile \<Rightarrow> Edge list \<Rightarrow> bool" where
  "file_edges inp fl es \<longleftrightarrow>
     (case pe_module_by_id inp (df_id fl) of
        None \<Rightarrow> es = []
      | Some r \<Rightarrow> \<exists>acc. es = edge_list (df_id fl) (fst (collect_edges_for_module r (df_id fl) acc)))"

definition node_of :: "PopulateEdgesInput \<Rightarrow> DiscoveredFile \<Rightarrow> ModuleNode \<Rightarrow> bool" where
  "node_of inp fl m \<longleftrightarrow>
     m = build_module_node fl (pe_module_by_id inp) (pe_entry_point_ids inp) (edge_range m)"

definition reverse_of :: "Edge list \<Rightarrow> FileId \<Rightarrow> FileId list" where
  "reverse_of es t = map edge_source (filter (\<lambda>e. edge_target e = t) es)"

definition storage_ok :: "PopulateEdgesInput \<Rightarrow> DiscoveredFile list \<Rightarrow> Edge list \<Rightarrow> ModuleNode list \<Rightarrow>
    FileId list list \<Rightarrow> bool" where
  "storage_ok inp fs es ms reverse \<longleftrightarrow>
     list_all2 (\<lambda>fl m. node_of inp fl m \<and> file_edges inp fl (edges_of es m) \<and>
       snd (edge_range m) \<le> length es) fs ms \<and>
     es = concat (map (edges_of es) ms) \<and>
     reverse = map (reverse_of es) [0..<pe_total_capacity inp]"

lemma fold_add_edge:
  "fold (add_edge f) ts (es, map (reverse_of es) [0..<cap]) =
     (es @ edge_list f ts, map (reverse_of (es @ edge_list f ts)) [0..<cap])"
proof (induction ts arbitrary: es)
  case (Cons ts tss)
  obtain t ss where ts: "ts = (t, ss)" by fastforce
  let ?e = "\<lparr>edge_source = f, edge_target = t, symbols = ss\<rparr>"
  have "add_edge f ts (es, map (reverse_of es) [0..<cap]) = (es @ [?e], map (reverse_of (es @ [?e])) [0..<cap])"
    by (auto simp: add_edge_def ts reverse_of_def intro: nth_equalityI simp: nth_list_update)
  then show ?case using Cons.IH [of "es @ [?e]"] by (simp add: edge_list_def ts)
qed (simp add: edge_list_def)

lemma edges_of_append: "snd (edge_range m) \<le> length es \<Longrightarrow> edges_of (es @ new) m = edges_of es m"
  by (simp add: edges_of_def slice_def)

lemma add_file_ok:
  assumes "storage_ok inp fs es ms reverse"
  shows "\<exists>es' ms' reverse' acc'. add_file inp fl (es, ms, reverse, acc) = (es', ms', reverse', acc') \<and>
    storage_ok inp (fs @ [fl]) es' ms' reverse'"
proof -
  have rev: "reverse = map (reverse_of es) [0..<pe_total_capacity inp]" using assms by (simp add: storage_ok_def)
  obtain new acc' where new: "file_edges inp fl new"
      "add_file inp fl (es, ms, reverse, acc) = (es @ new,
         ms @ [build_module_node fl (pe_module_by_id inp) (pe_entry_point_ids inp) (length es, length (es @ new))],
         map (reverse_of (es @ new)) [0..<pe_total_capacity inp], acc')"
  proof (cases "pe_module_by_id inp (df_id fl)")
    case None
    then show ?thesis using that [of "[]" acc] rev by (simp add: add_file_def file_edges_def)
  next
    case (Some r)
    obtain ts acc' where c: "collect_edges_for_module r (df_id fl) acc = (ts, acc')" by fastforce
    then have "file_edges inp fl (edge_list (df_id fl) ts)"
      using Some by (auto simp: file_edges_def intro!: exI [of _ acc])
    then show ?thesis using that [of "edge_list (df_id fl) ts" acc'] Some c rev
      by (simp add: add_file_def fold_add_edge)
  qed
  let ?m = "build_module_node fl (pe_module_by_id inp) (pe_entry_point_ids inp) (length es, length (es @ new))"
  have m: "edge_range ?m = (length es, length (es @ new))" by (simp add: build_module_node_def Let_def)
  then have me: "edges_of (es @ new) ?m = new" by (simp add: edges_of_def slice_def)
  have old: "list_all2 (\<lambda>fl m. node_of inp fl m \<and> file_edges inp fl (edges_of es m) \<and>
       snd (edge_range m) \<le> length es) fs ms" "es = concat (map (edges_of es) ms)"
    using assms by (simp_all add: storage_ok_def)
  have same: "edges_of (es @ new) n = edges_of es n" if "n \<in> set ms" for n
    using old(1) that by (auto simp: list_all2_conv_all_nth in_set_conv_nth edges_of_append)
  have "list_all2 (\<lambda>fl m. node_of inp fl m \<and> file_edges inp fl (edges_of (es @ new) m) \<and>
       snd (edge_range m) \<le> length (es @ new)) fs ms"
    using old(1) same by (fastforce simp: list_all2_conv_all_nth)
  moreover have "map (edges_of (es @ new)) ms = map (edges_of es) ms" using same by simp
  then have "concat (map (edges_of (es @ new)) (ms @ [?m])) = concat (map (edges_of es) ms) @ new"
    using me by (simp only: map_append concat_append) simp
  then have "es @ new = concat (map (edges_of (es @ new)) (ms @ [?m]))" by (simp only: old(2) [symmetric])
  ultimately have "storage_ok inp (fs @ [fl]) (es @ new) (ms @ [?m]) (map (reverse_of (es @ new)) [0..<pe_total_capacity inp])"
    using m me new(1) by (auto simp: storage_ok_def node_of_def intro!: list_all2_appendI)
  with new(2) show ?thesis by blast
qed

lemma fold_add_file_ok:
  assumes "storage_ok inp fs es ms reverse"
  shows "\<exists>es' ms' reverse' acc'. fold (add_file inp) files (es, ms, reverse, acc) = (es', ms', reverse', acc') \<and>
    storage_ok inp (fs @ files) es' ms' reverse'"
  using assms
proof (induction files arbitrary: fs es ms reverse acc)
  case (Cons fl files)
  obtain es1 ms1 reverse1 acc1 where 1: "add_file inp fl (es, ms, reverse, acc) = (es1, ms1, reverse1, acc1)"
      "storage_ok inp (fs @ [fl]) es1 ms1 reverse1"
    using add_file_ok [OF Cons.prems] by blast
  from Cons.IH [OF 1(2), of acc1] 1(1) show ?case by simp
qed simp

lemma populate_edges_storage:
  "storage_ok inp (pe_files inp) (edges (populate_edges inp)) (modules (populate_edges inp)) (reverse_deps (populate_edges inp))"
proof -
  have "storage_ok inp [] [] [] (replicate (pe_total_capacity inp) [])"
    by (auto simp: storage_ok_def reverse_of_def intro: nth_equalityI)
  from fold_add_file_ok [OF this, of "pe_files inp"
      "\<lparr>acc_package_usage = Map.empty, acc_type_only_package_usage = Map.empty,
          acc_namespace_imported = \<lparr>bit_length = pe_total_capacity inp, bits = {}\<rparr>,
          acc_total_capacity = pe_total_capacity inp\<rparr>"]
  show ?thesis by (auto simp: populate_edges_def split: prod.splits)
qed

lemma node_fields:
  assumes "node_of inp fl m"
  shows "file_id m = df_id fl" "node_path m = df_path fl"
  using assms by (auto simp: node_of_def build_module_node_def Let_def) (metis ModuleNode.select_convs(1,2))+

text \<open>
  C22. The graph keeps one node per file in the order of the files; the flat edge list is the
  concatenation of the edges of the nodes, every edge of a node starts at its file, and the
  reverse dependencies of a file are the sources of the edges into it, in the order of the edges.
\<close>

theorem edge_storage_is_indexed:
  "map file_id (modules (populate_edges inp)) = map df_id (pe_files inp) \<and>
   edges (populate_edges inp) = concat (map (edges_of (edges (populate_edges inp))) (modules (populate_edges inp))) \<and>
   list_all (\<lambda>m. list_all (\<lambda>e. edge_source e = file_id m) (edges_of (edges (populate_edges inp)) m))
     (modules (populate_edges inp)) \<and>
   reverse_deps (populate_edges inp) = map (reverse_of (edges (populate_edges inp))) [0..<pe_total_capacity inp]"
proof -
  let ?g = "populate_edges inp"
  have st: "list_all2 (\<lambda>fl m. node_of inp fl m \<and> file_edges inp fl (edges_of (edges ?g) m) \<and>
       snd (edge_range m) \<le> length (edges ?g)) (pe_files inp) (modules ?g)"
    "edges ?g = concat (map (edges_of (edges ?g)) (modules ?g))"
    "reverse_deps ?g = map (reverse_of (edges ?g)) [0..<pe_total_capacity inp]"
    using populate_edges_storage [of inp] by (simp_all add: storage_ok_def)
  have "map file_id (modules ?g) = map df_id (pe_files inp)"
    using st(1) node_fields(1) by (auto simp: list_all2_conv_all_nth intro!: nth_equalityI)
  moreover have "edge_source e = file_id m" if "m \<in> set (modules ?g)" "e \<in> set (edges_of (edges ?g) m)" for m e
  proof -
    obtain fl where "node_of inp fl m" "file_edges inp fl (edges_of (edges ?g) m)"
      using st(1) \<open>m \<in> set (modules ?g)\<close> by (auto simp: list_all2_conv_all_nth in_set_conv_nth)
    with that(2) show ?thesis
      using node_fields(1) by (auto simp: file_edges_def edge_list_def split: option.splits)
  qed
  ultimately show ?thesis using st(2,3) by (simp add: list_all_iff)
qed

lemma edges_of_module:
  assumes "i < length (pe_files inp)" "pe_module_by_id inp (df_id (pe_files inp ! i)) = Some r"
  shows "sorted_wrt (<) (map edge_target (edges_of (edges (populate_edges inp)) (modules (populate_edges inp) ! i))) \<and>
    (\<forall>t s. (\<exists>e \<in> set (edges_of (edges (populate_edges inp)) (modules (populate_edges inp) ! i)).
        edge_target e = t \<and> s \<in> set (symbols e)) \<longleftrightarrow> imports_symbol r t s)"
proof -
  let ?g = "populate_edges inp"
  have "file_edges inp (pe_files inp ! i) (edges_of (edges ?g) (modules ?g ! i))"
    using populate_edges_storage [of inp] assms(1) by (simp add: storage_ok_def list_all2_conv_all_nth)
  then obtain acc where es: "edges_of (edges ?g) (modules ?g ! i) =
      edge_list (df_id (pe_files inp ! i)) (fst (collect_edges_for_module r (df_id (pe_files inp ! i)) acc))"
    using assms(2) by (auto simp: file_edges_def)
  show ?thesis
    using collect_edges_for_module_ok [of r "df_id (pe_files inp ! i)" acc] unfolding es
    by (simp add: edge_list_targets edge_list_mem)
qed

text \<open>
  C23. The edges of a module are exactly the imports of its file: it has one edge per internal file
  that a static or dynamic import, a re-export or a dynamic import pattern resolves to, in
  ascending order of the files, and the symbols of the edge are those of these imports.
\<close>

theorem edges_are_the_imports:
  assumes "i < length (pe_files inp)" "pe_module_by_id inp (df_id (pe_files inp ! i)) = Some r"
  shows "sorted_wrt (<) (map edge_target (edges_of (edges (populate_edges inp)) (modules (populate_edges inp) ! i))) \<and>
    (\<forall>t s. (\<exists>e \<in> set (edges_of (edges (populate_edges inp)) (modules (populate_edges inp) ! i)).
        edge_target e = t \<and> s \<in> set (symbols e)) \<longleftrightarrow> imports_symbol r t s)"
  using edges_of_module [OF assms] .

section \<open>The references the edges attach\<close>

lemma attach_symbols_credit:
  "credits f m (fold (attach_symbol_reference f module_by_id eps) ss m)"
proof (induction ss arbitrary: m)
  case (Cons s ss)
  from credits_trans [OF attach_symbol_reference_credits Cons] show ?case by simp
qed simp

definition attached :: "Edge list \<Rightarrow> ModuleNode list \<Rightarrow> ModuleNode list \<Rightarrow> bool" where
  "attached es ms ms' \<longleftrightarrow> length ms' = length ms \<and> (\<forall>t < length ms. module_grows (ms ! t) (ms' ! t) \<and>
     referrers (ms' ! t) \<subseteq> referrers (ms ! t) \<union> set (reverse_of es t))"

lemma attach_edge_attached: "attached [e] ms (attach_edge module_by_id eps e ms)"
proof -
  have c: "credits (edge_source e) (ms ! edge_target e)
      (fold (attach_symbol_reference (edge_source e) module_by_id eps) (symbols e) (ms ! edge_target e))"
    by (rule attach_symbols_credit)
  then show ?thesis
    by (auto simp: attached_def attach_edge_def Let_def nth_list_update reverse_of_def credits_def)
qed

lemma attached_trans: "attached es ms ms1 \<Longrightarrow> attached fs ms1 ms2 \<Longrightarrow> attached (es @ fs) ms ms2"
  unfolding attached_def reverse_of_def using module_grows_trans by (auto 0 4)

lemma fold_attach_edge_attached: "attached es ms (fold (attach_edge module_by_id eps) es ms)"
proof (induction es arbitrary: ms)
  case (Cons e es)
  from attached_trans [OF attach_edge_attached Cons] show ?case by simp
qed (simp add: attached_def)

definition exports_match :: "ModuleNode \<Rightarrow> ImportedName \<Rightarrow> bool" where
  "exports_match m n \<longleftrightarrow> (\<exists>x \<in> set (exports m). export_matches (export_name x) n)"

lemma exports_match_grows:
  assumes "module_grows m m'" "exports_match m n"
  shows "exports_match m' n"
proof -
  obtain old new where m': "m' = m\<lparr>exports := old @ new\<rparr>" "list_all2 export_grows (exports m) old"
    using assms(1) by (auto simp: module_grows_def)
  obtain i where i: "i < length (exports m)" "export_matches (export_name (exports m ! i)) n"
    using assms(2) by (auto simp: exports_match_def in_set_conv_nth)
  then have "export_grows (exports m ! i) (old ! i)" "i < length old"
    using m'(2) by (auto simp: list_all2_conv_all_nth)
  then have "old ! i \<in> set (exports m')" "export_matches (export_name (old ! i)) n"
    using i m'(1) by (auto simp: export_grows_def)
  then show ?thesis unfolding exports_match_def by blast
qed

lemma fold_attach_symbols_reach:
  assumes "s \<in> set ss" "\<not> is_unused_import_binding (local_name s) (imported_name s) (module_by_id f)"
    and "exports_match m (imported_name s)"
  shows "used_by f (imported_name s) (fold (attach_symbol_reference f module_by_id eps) ss m)"
  using assms(1,3)
proof (induction ss arbitrary: m)
  case (Cons x ss)
  let ?m = "attach_symbol_reference f module_by_id eps x m"
  have g: "module_grows m ?m" using attach_symbol_reference_credits by (simp add: credits_def)
  show ?case
  proof (cases "s \<in> set ss")
    case True
    then show ?thesis using Cons.IH [of ?m] exports_match_grows [OF g Cons.prems(2)] by simp
  next
    case False
    then have "used_by f (imported_name s) ?m"
      using Cons.prems attach_symbol_reference_reaches [where module_by_id = module_by_id and f = f, OF assms(2)] by (simp add: exports_match_def)
    moreover have "module_grows ?m (fold (attach_symbol_reference f module_by_id eps) ss ?m)"
      using attach_symbols_credit by (simp add: credits_def)
    ultimately show ?thesis using used_by_grows by simp
  qed
qed simp

lemma fold_attach_edges_reach:
  assumes "e \<in> set es" "s \<in> set (symbols e)" "edge_target e < length ms"
    and "\<not> is_unused_import_binding (local_name s) (imported_name s) (module_by_id (edge_source e))"
    and "exports_match (ms ! edge_target e) (imported_name s)"
  shows "used_by (edge_source e) (imported_name s) (fold (attach_edge module_by_id eps) es ms ! edge_target e)"
  using assms(1,3,5)
proof (induction es arbitrary: ms)
  case (Cons x es)
  let ?ms = "attach_edge module_by_id eps x ms"
  have g: "length ?ms = length ms" "module_grows (ms ! edge_target e) (?ms ! edge_target e)"
    using attach_edge_attached [of x ms module_by_id eps] Cons.prems(2) by (simp_all add: attached_def)
  show ?case
  proof (cases "e \<in> set es")
    case True
    then show ?thesis using Cons.IH [of ?ms] Cons.prems g exports_match_grows by simp
  next
    case False
    then have x: "x = e" using Cons.prems(1) by simp
    have "used_by (edge_source e) (imported_name s) (?ms ! edge_target e)"
      using fold_attach_symbols_reach [where module_by_id = module_by_id and f = "edge_source e", OF assms(2,4)] Cons.prems(2,3) by (simp add: attach_edge_def x Let_def)
    moreover have "module_grows (?ms ! edge_target e) (fold (attach_edge module_by_id eps) es ?ms ! edge_target e)"
      using fold_attach_edge_attached [of es ?ms module_by_id eps] g(1) Cons.prems(2) by (simp add: attached_def)
    ultimately show ?thesis using used_by_grows by simp
  qed
qed simp

lemma built_exports_fresh:
  assumes "node_of inp fl m"
  shows "referrers m = {}"
proof -
  have stub: "\<forall>x \<in> set (fold add_named_re_export_stub res es). references x = []"
    if "\<forall>x \<in> set es. references x = []" for res es
    using that
  proof (induction res arbitrary: es)
    case (Cons re res)
    have "\<forall>x \<in> set (add_named_re_export_stub re es). references x = []"
      using Cons.prems by (auto simp: add_named_re_export_stub_def Let_def)
    from Cons.IH [OF this] show ?case by simp
  qed simp
  have "\<forall>x \<in> set (build_export_symbols r). references x = []" for r
    by (auto simp: build_export_symbols_def split: option.splits)
  then have "\<forall>x \<in> set (exports (build_module_node fl (pe_module_by_id inp) (pe_entry_point_ids inp) rng)). references x = []"
    for rng using stub [of "build_export_symbols (Some r)" "rm_re_exports r" for r]
    by (auto simp: build_module_node_def Let_def append_named_re_export_stubs_def split: option.splits)
  then have "\<forall>x \<in> set (exports m). references x = []" using assms unfolding node_of_def by metis
  then show ?thesis by (auto simp: referrers_def files_of_def)
qed

text \<open>
  After the references of the edges are attached, a file is recorded at an export of a module
  only if it has an edge to the module.
\<close>

theorem references_come_from_edges:
  "list_all (\<lambda>t. referrers (modules (populate_references module_by_id eps (populate_edges inp)) ! t) \<subseteq>
       set (reverse_of (edges (populate_edges inp)) t))
     [0..<length (modules (populate_edges inp))]"
proof -
  let ?g = "populate_edges inp"
  have "referrers (modules ?g ! t) = {}" if "t < length (modules ?g)" for t
    using populate_edges_storage [of inp] that built_exports_fresh
    by (auto simp: storage_ok_def list_all2_conv_all_nth)
  then show ?thesis
    using fold_attach_edge_attached [of "edges ?g" "modules ?g" module_by_id eps]
    by (auto simp: attached_def populate_references_def list_all_iff)
qed

end
