(* ===== verification/Worklist.thy ===== *)
theory Worklist
  imports Main
begin

text \<open>
  The worklist loop shared by the graph traversals of the code: a set of visited items and a
  list of pending ones; one item is taken, its successors that were not visited are marked and
  pushed, until nothing is pending. The way new items are pushed is a parameter, so that the
  loop is a breadth-first search with a queue and a depth-first search with a stack. The locale
  states when the loop ends and that it then has visited exactly the reachable items.
\<close>

definition visit :: "('a \<Rightarrow> 'a list \<Rightarrow> 'a list) \<Rightarrow> 'a \<Rightarrow> 'a set \<times> 'a list \<Rightarrow> 'a set \<times> 'a list" where
  "visit push x s = (if x \<in> fst s then s else (insert x (fst s), push x (snd s)))"

lemma visit_old [simp]: "x \<in> seen \<Longrightarrow> visit push x (seen, w) = (seen, w)"
  by (simp add: visit_def)

lemma visit_new [simp]: "x \<notin> seen \<Longrightarrow> visit push x (seen, w) = (insert x seen, push x w)"
  by (simp add: visit_def)

partial_function (option) explore ::
  "('a \<Rightarrow> 'a list) \<Rightarrow> ('a \<Rightarrow> 'a list \<Rightarrow> 'a list) \<Rightarrow> 'a set \<Rightarrow> 'a list \<Rightarrow> 'a set option" where
  "explore succs push seen work =
     (case work of
        [] \<Rightarrow> Some seen
      | x # work' \<Rightarrow>
          (case fold (visit push) (succs x) (seen, work') of
             (seen', work'') \<Rightarrow> explore succs push seen' work''))"

declare explore.simps [code]

definition push_back :: "'a \<Rightarrow> 'a list \<Rightarrow> 'a list" where
  "push_back x q = q @ [x]"

definition push_top :: "'a \<Rightarrow> 'a list \<Rightarrow> 'a list" where
  "push_top x st = x # st"

definition step_rel :: "('a \<Rightarrow> 'a list) \<Rightarrow> ('a \<times> 'a) set" where
  "step_rel succs = {(x, y). y \<in> set (succs x)}"

lemma step_rel_iff [simp]: "(x, y) \<in> step_rel succs \<longleftrightarrow> y \<in> set (succs x)"
  by (simp add: step_rel_def)

lemma explore_Nil: "explore succs push seen [] = Some seen"
  by (subst explore.simps) simp

lemma explore_Cons:
  "explore succs push seen (x # work) =
     (case fold (visit push) (succs x) (seen, work) of
        (seen', work') \<Rightarrow> explore succs push seen' work')"
  by (subst explore.simps) simp

locale exploration =
  fixes succs :: "'a \<Rightarrow> 'a list" and push :: "'a \<Rightarrow> 'a list \<Rightarrow> 'a list" and universe :: "'a set"
  assumes finite_universe: "finite universe"
    and succs_closed: "x \<in> universe \<Longrightarrow> set (succs x) \<subseteq> universe"
    and set_push [simp]: "set (push x w) = insert x (set w)"
    and length_push [simp]: "length (push x w) = Suc (length w)"
begin

lemma fold_visit_all:
  assumes "fold (visit push) ys (seen, w) = (seen', w')" "set w \<subseteq> seen" "set ys \<subseteq> universe" "seen \<subseteq> universe"
  shows "seen' = seen \<union> set ys \<and> set w' = set w \<union> (set ys - seen) \<and>
    length w' + card (universe - seen') = length w + card (universe - seen)"
  using assms
proof (induction ys arbitrary: seen w)
  case (Cons y ys)
  show ?case
  proof (cases "y \<in> seen")
    case True
    then have "fold (visit push) ys (seen, w) = (seen', w')" using Cons.prems(1) by simp
    then have ih: "seen' = seen \<union> set ys" "set w' = set w \<union> (set ys - seen)"
        "length w' + card (universe - seen') = length w + card (universe - seen)"
      using Cons.IH Cons.prems(2-4) by simp_all
    show ?thesis
    proof (intro conjI)
      show "seen' = seen \<union> set (y # ys)" unfolding ih(1) using True by auto
      show "set w' = set w \<union> (set (y # ys) - seen)" unfolding ih(2) using True by auto
    qed (fact ih(3))
  next
    case False
    have "y \<in> universe - seen" using Cons.prems(3) False by simp
    then have c: "card (universe - seen) = Suc (card (universe - insert y seen))"
      using card.remove [OF finite_Diff [OF finite_universe], of y seen]
      by (simp only: Diff_insert [symmetric])
    have "fold (visit push) ys (insert y seen, push y w) = (seen', w')"
      using Cons.prems(1) False by simp
    moreover have "set (push y w) \<subseteq> insert y seen" "insert y seen \<subseteq> universe"
      using Cons.prems(2-4) by auto
    moreover have "set ys \<subseteq> universe" using Cons.prems(3) by simp
    ultimately have ih: "seen' = insert y seen \<union> set ys"
        "set w' = set (push y w) \<union> (set ys - insert y seen)"
        "length w' + card (universe - seen') = length (push y w) + card (universe - insert y seen)"
      using Cons.IH by blast+
    show ?thesis
    proof (intro conjI)
      show "seen' = seen \<union> set (y # ys)" using ih(1) by simp
      show "set w' = set w \<union> (set (y # ys) - seen)" using ih(2) False by auto
      show "length w' + card (universe - seen') = length w + card (universe - seen)"
        using ih(3) c by simp
    qed
  qed
qed simp

lemmas fold_visit = fold_visit_all [THEN conjunct1] fold_visit_all [THEN conjunct2, THEN conjunct1]
  fold_visit_all [THEN conjunct2, THEN conjunct2]

definition closed_but :: "'a list \<Rightarrow> 'a set \<Rightarrow> bool" where
  "closed_but work seen \<longleftrightarrow> (\<forall>x \<in> seen - set work. set (succs x) \<subseteq> seen)"

lemma explore_terminates:
  assumes "seen \<subseteq> universe" "set work \<subseteq> seen"
  shows "\<exists>r. explore succs push seen work = Some r"
  using assms
proof (induction "length work + card (universe - seen)" arbitrary: seen work rule: less_induct)
  case less
  show ?case
  proof (cases work)
    case (Cons x w)
    obtain seen' w' where f: "fold (visit push) (succs x) (seen, w) = (seen', w')" by fastforce
    have u: "set (succs x) \<subseteq> universe" using less.prems Cons succs_closed by auto
    have w: "set w \<subseteq> seen" using less.prems Cons by auto
    note v = fold_visit [OF f w u less.prems(1)]
    have "length w' + card (universe - seen') < length work + card (universe - seen)"
      using v(3) Cons by simp
    moreover have "seen' \<subseteq> universe" "set w' \<subseteq> seen'" using v(1,2) u w less.prems(1) by auto
    ultimately show ?thesis using less.hyps [of w' seen'] Cons f by (simp add: explore_Cons)
  qed (simp add: explore_Nil)
qed

lemma explore_sound_closed:
  assumes "explore succs push seen work = Some r"
    and "seen \<subseteq> universe" "set work \<subseteq> seen" "closed_but work seen" "seen \<subseteq> (step_rel succs)\<^sup>* `` start"
  shows "seen \<subseteq> r \<and> closed_but [] r \<and> r \<subseteq> (step_rel succs)\<^sup>* `` start"
  using assms(2-) assms(1)
proof (induction "length work + card (universe - seen)" arbitrary: seen work rule: less_induct)
  case less
  show ?case
  proof (cases work)
    case Nil
    with less.prems show ?thesis by (simp add: explore_Nil)
  next
    case (Cons x w)
    obtain seen' w' where f: "fold (visit push) (succs x) (seen, w) = (seen', w')" by fastforce
    have u: "set (succs x) \<subseteq> universe" using less.prems Cons succs_closed by auto
    have w: "set w \<subseteq> seen" using less.prems Cons by auto
    note v = fold_visit [OF f w u less.prems(1)]
    have x: "x \<in> seen" using less.prems(2) Cons by simp
    have "closed_but w' seen'"
      using less.prems(3) Cons unfolding closed_but_def v(1,2) by auto
    moreover have "seen' \<subseteq> (step_rel succs)\<^sup>* `` start"
    proof -
      have "y \<in> (step_rel succs)\<^sup>* `` start" if "y \<in> set (succs x)" for y
      proof -
        obtain s where "s \<in> start" "(s, x) \<in> (step_rel succs)\<^sup>*" using less.prems(4) x by auto
        moreover from this(2) that have "(s, y) \<in> (step_rel succs)\<^sup>*"
          by (rule rtrancl_into_rtrancl [OF _ iffD2 [OF step_rel_iff]])
        ultimately show ?thesis by auto
      qed
      with less.prems(4) show ?thesis unfolding v(1) by auto
    qed
    moreover have "length w' + card (universe - seen') < length work + card (universe - seen)"
      using v(3) Cons by simp
    moreover have "seen' \<subseteq> universe" "set w' \<subseteq> seen'" using v(1,2) u w less.prems(1) by auto
    moreover have "explore succs push seen' w' = Some r"
      using less.prems(5) Cons f by (simp add: explore_Cons)
    ultimately have "seen' \<subseteq> r \<and> closed_but [] r \<and> r \<subseteq> (step_rel succs)\<^sup>* `` start"
      using less.hyps by blast
    then show ?thesis using v(1) by auto
  qed
qed

text \<open>From any start set, the loop ends and has then visited exactly what the start reaches.\<close>

lemma explore_reaches:
  assumes "set work = start" "start \<subseteq> universe"
  shows "explore succs push start work = Some ((step_rel succs)\<^sup>* `` start)"
proof -
  obtain r where r: "explore succs push start work = Some r"
    using explore_terminates [of start work] assms by auto
  have c: "start \<subseteq> r" "closed_but [] r" "r \<subseteq> (step_rel succs)\<^sup>* `` start"
    using explore_sound_closed [OF r, of start] assms by (auto simp: closed_but_def)
  have "(step_rel succs)\<^sup>* `` r \<subseteq> r"
  proof -
    have "y \<in> r" if "(x, y) \<in> (step_rel succs)\<^sup>*" "x \<in> r" for x y
      using that by induction (use c(2) in \<open>auto simp: closed_but_def\<close>)
    then show ?thesis by auto
  qed
  then have "r = (step_rel succs)\<^sup>* `` start" using c(1,3) by (meson Image_mono order.trans subset_antisym order_refl)
  with r show ?thesis by simp
qed

end

lemmas explore_simps = explore_Nil explore_Cons visit_def push_back_def push_top_def

end
