(* ===== verification/Reachability.thy ===== *)
theory Reachability
  imports Graph_Types Worklist "HOL-Library.Monad_Syntax"
begin

text \<open>
  Reachability over the module graph (\<^verbatim>\<open>graph/src/graph/reachability.rs\<close>) and over its
  re-export edges (\<^verbatim>\<open>graph/src/graph/re_export_reachability.rs\<close>). Both are the worklist
  loop of \<^verbatim>\<open>Worklist\<close>, the first with a queue and the second with a stack; a loop that did
  not end would have the value \<open>None\<close>. The entry point sets are iterated in increasing order;
  the results do not depend on it.
\<close>

section \<open>Marking the modules\<close>

definition reach_succs :: "ModuleGraph \<Rightarrow> nat \<Rightarrow> FileId \<Rightarrow> FileId list" where
  "reach_succs self total_capacity f =
     (if f \<ge> length (modules self) then []
      else filter (\<lambda>t. t < total_capacity)
        (map edge_target (edges_of (edges self) (modules self ! f))))"

definition collect_reachable :: "ModuleGraph \<Rightarrow> FileId set \<Rightarrow> nat \<Rightarrow> FixedBitSet option" where
  "collect_reachable self starts total_capacity =
     (let queue = filter (\<lambda>ep. ep < total_capacity) (sorted_list_of_set starts)
      in do {
        visited \<leftarrow> explore (reach_succs self total_capacity) push_back (set queue) queue;
        Some \<lparr>bit_length = total_capacity, bits = visited\<rparr>
      })"

definition mark_module ::
  "FixedBitSet \<Rightarrow> FixedBitSet option \<Rightarrow> FixedBitSet option \<Rightarrow> nat \<times> ModuleNode \<Rightarrow> ModuleNode" where
  "mark_module visited runtime_visited test_visited im =
     (case im of (idx, m) \<Rightarrow>
        set_test_reachable (case test_visited of None \<Rightarrow> False | Some tv \<Rightarrow> bit_contains tv idx)
          (set_runtime_reachable
             (case runtime_visited of None \<Rightarrow> bit_contains visited idx | Some rv \<Rightarrow> bit_contains rv idx)
             (set_reachable (bit_contains visited idx) m)))"

definition mark_reachable ::
  "ModuleGraph \<Rightarrow> FileId set \<Rightarrow> FileId set \<Rightarrow> FileId set \<Rightarrow> nat \<Rightarrow> ModuleGraph option" where
  "mark_reachable self eps runtime_eps test_eps total_capacity = do {
     visited \<leftarrow> collect_reachable self eps total_capacity;
     runtime_visited \<leftarrow>
       (if runtime_eps = eps then Some None
        else map_option Some (collect_reachable self runtime_eps total_capacity));
     test_visited \<leftarrow>
       (if test_eps = {} then Some None
        else map_option Some (collect_reachable self test_eps total_capacity));
     Some (self\<lparr>modules :=
       map (mark_module visited runtime_visited test_visited) (enumerate 0 (modules self))\<rparr>)
   }"

section \<open>The loop computes reachability\<close>

definition imports_rel :: "ModuleGraph \<Rightarrow> nat \<Rightarrow> (FileId \<times> FileId) set" where
  "imports_rel g cap = {(f, t). f < length (modules g) \<and> t < cap \<and>
     (\<exists>e \<in> set (edges_of (edges g) (modules g ! f)). edge_target e = t)}"

definition reached :: "ModuleGraph \<Rightarrow> nat \<Rightarrow> FileId set \<Rightarrow> FileId set" where
  "reached g cap starts = (imports_rel g cap)\<^sup>* `` (starts \<inter> {..<cap})"

lemma step_rel_reach_succs: "step_rel (reach_succs g cap) = imports_rel g cap"
  by (auto simp: step_rel_def imports_rel_def reach_succs_def split: if_splits)

interpretation reach_loop: exploration "reach_succs g cap" push_back "{..<cap}" for g cap
  by unfold_locales (auto simp: reach_succs_def push_back_def)

lemma collect_reachable_reached:
  "finite starts \<Longrightarrow>
   collect_reachable g starts cap = Some \<lparr>bit_length = cap, bits = reached g cap starts\<rparr>"
proof -
  assume "finite starts"
  then have q: "set (filter (\<lambda>ep. ep < cap) (sorted_list_of_set starts)) = starts \<inter> {..<cap}" by auto
  show ?thesis
    unfolding collect_reachable_def Let_def q reach_loop.explore_reaches [OF q Int_lower2]
    by (simp add: reached_def step_rel_reach_succs)
qed

lemma reached_below: "y \<in> reached g cap starts \<Longrightarrow> y < cap"
proof -
  assume "y \<in> reached g cap starts"
  then obtain x where "x < cap" "(x, y) \<in> (imports_rel g cap)\<^sup>*" by (auto simp: reached_def)
  from this(2,1) show ?thesis by induction (auto simp: imports_rel_def)
qed

lemma bit_contains_reached [simp]:
  "bit_contains \<lparr>bit_length = cap, bits = reached g cap starts\<rparr> i \<longleftrightarrow> i \<in> reached g cap starts"
  using reached_below by (auto simp: bit_contains_def)

lemma reached_empty [simp]: "reached g cap {} = {}"
  by (simp add: reached_def)

definition marked :: "ModuleGraph \<Rightarrow> nat \<Rightarrow> FileId set \<Rightarrow> FileId set \<Rightarrow> FileId set \<Rightarrow> nat \<Rightarrow> NodeFlags" where
  "marked g cap eps runtime_eps test_eps idx =
     (node_flags (modules g ! idx))\<lparr>nf_reachable := idx \<in> reached g cap eps,
        nf_runtime := idx \<in> reached g cap runtime_eps, nf_test := idx \<in> reached g cap test_eps\<rparr>"

lemma mark_module_flags:
  "node_flags (mark_module v r t (idx, m)) = (node_flags m)\<lparr>nf_reachable := bit_contains v idx,
     nf_runtime := (case r of None \<Rightarrow> bit_contains v idx | Some rv \<Rightarrow> bit_contains rv idx),
     nf_test := (case t of None \<Rightarrow> False | Some tv \<Rightarrow> bit_contains tv idx)\<rparr>"
  by (simp add: mark_module_def node_flags_setters)

lemma mark_module_fields: "(mark_module v r t (idx, m))\<lparr>flags := flags m\<rparr> = m"
  by (simp add: mark_module_def flag_setters)

lemma mark_reachable_some:
  assumes "finite eps" "finite runtime_eps" "finite test_eps"
  shows "mark_reachable g eps runtime_eps test_eps cap = Some (g\<lparr>modules :=
    map (mark_module \<lparr>bit_length = cap, bits = reached g cap eps\<rparr>
        (if runtime_eps = eps then None else Some \<lparr>bit_length = cap, bits = reached g cap runtime_eps\<rparr>)
        (if test_eps = {} then None else Some \<lparr>bit_length = cap, bits = reached g cap test_eps\<rparr>))
      (enumerate 0 (modules g))\<rparr>)"
  using assms by (simp add: mark_reachable_def collect_reachable_reached)

lemma mark_reachable_result:
  assumes "finite eps" "finite runtime_eps" "finite test_eps" "idx < length (modules g)"
  shows "\<exists>ms. mark_reachable g eps runtime_eps test_eps cap = Some (g\<lparr>modules := ms\<rparr>) \<and>
    length ms = length (modules g) \<and>
    node_flags (ms ! idx) = marked g cap eps runtime_eps test_eps idx \<and>
    (ms ! idx)\<lparr>flags := flags (modules g ! idx)\<rparr> = modules g ! idx"
proof -
  let ?b = "\<lambda>s. \<lparr>bit_length = cap, bits = reached g cap s\<rparr>"
  let ?r = "if runtime_eps = eps then None else Some (?b runtime_eps)"
  let ?t = "if test_eps = {} then None else Some (?b test_eps)"
  let ?ms = "map (mark_module (?b eps) ?r ?t) (enumerate 0 (modules g))"
  have "mark_reachable g eps runtime_eps test_eps cap = Some (g\<lparr>modules := ?ms\<rparr>)"
    using assms(1-3) by (rule mark_reachable_some)
  moreover have "?ms ! idx = mark_module (?b eps) ?r ?t (idx, modules g ! idx)"
    using assms(4) by (simp add: nth_enumerate_eq)
  moreover have "node_flags (mark_module (?b eps) ?r ?t (idx, modules g ! idx)) =
      marked g cap eps runtime_eps test_eps idx"
    by (simp add: mark_module_flags marked_def)
  moreover have "length ?ms = length (modules g)" by simp
  ultimately show ?thesis using mark_module_fields by (intro exI [of _ ?ms]) simp
qed

text \<open>
  Marking always ends, for any graph, and sets the three reachability flags of every module
  to whether it can be reached over imports from the corresponding entry points below the
  capacity; the shared pass for equal runtime roots and the skipped pass for no test roots give
  the same answer as separate passes. Every other flag and field of every module is unchanged.
\<close>

theorem mark_reachable_marks_the_reachable:
  assumes "finite eps" "finite runtime_eps" "finite test_eps" "idx < length (modules g)"
  shows "\<exists>ms. mark_reachable g eps runtime_eps test_eps cap = Some (g\<lparr>modules := ms\<rparr>) \<and>
    length ms = length (modules g) \<and>
    node_flags (ms ! idx) = marked g cap eps runtime_eps test_eps idx \<and>
    (ms ! idx)\<lparr>flags := flags (modules g ! idx)\<rparr> = modules g ! idx"
  using mark_reachable_result [OF assms] .

definition plain_module :: "FileId \<Rightarrow> nat \<times> nat \<Rightarrow> ModuleNode" where
  "plain_module f r = \<lparr>file_id = f, node_path = [], edge_range = r, exports = [], re_exports = [],
     flags = flags_from (f = 0) False False\<rparr>"

definition plain_graph :: "ModuleGraph" where
  "plain_graph = \<lparr>modules = [plain_module 0 (0, 1), plain_module 1 (1, 1), plain_module 2 (1, 1)],
     edges = [\<lparr>edge_source = 0, edge_target = 1, symbols = []\<rparr>],
     package_usage = Map.empty, type_only_package_usage = Map.empty,
     entry_points = {0}, runtime_entry_points = {0}, test_entry_points = {},
     reverse_deps = [[], [0], []], namespace_imported = \<lparr>bit_length = 3, bits = {}\<rparr>,
     re_export_cycles = []\<rparr>"

lemma plain_graph_reached: "1 \<in> reached plain_graph 3 {0}"
proof -
  have "(0, 1) \<in> imports_rel plain_graph 3"
    by (simp add: imports_rel_def plain_graph_def edges_of_def plain_module_def slice_def)
  then show ?thesis by (auto simp: reached_def)
qed

theorem mark_reachable_marks_the_reachable_witness:
  "\<exists>ms. mark_reachable plain_graph {0} {0} {} 3 = Some (plain_graph\<lparr>modules := ms\<rparr>) \<and>
     is_reachable (ms ! 1) \<and> is_runtime_reachable (ms ! 1) \<and> \<not> is_test_reachable (ms ! 1)"
proof -
  have l: "1 < length (modules plain_graph)" by (simp add: plain_graph_def)
  obtain ms where ms: "mark_reachable plain_graph {0} {0} {} 3 = Some (plain_graph\<lparr>modules := ms\<rparr>)"
      "node_flags (ms ! 1) = marked plain_graph 3 {0} {0} {} 1"
    using mark_reachable_marks_the_reachable [of "{0}" "{0}" "{}" 1 plain_graph 3, OF _ _ _ l] by auto
  then have "nf_reachable (node_flags (ms ! 1)) \<and> nf_runtime (node_flags (ms ! 1)) \<and>
      \<not> nf_test (node_flags (ms ! 1))"
    using plain_graph_reached by (simp add: marked_def)
  with ms(1) show ?thesis by (auto simp: node_flags_def)
qed

section \<open>Named re-exports\<close>

definition barrel_succs :: "ModuleGraph \<Rightarrow> FileId \<times> string \<Rightarrow> (FileId \<times> string) list" where
  "barrel_succs g s =
     (case s of (source, name) \<Rightarrow>
       concat (map (\<lambda>(idx, m).
         List.map_filter (\<lambda>e.
           if source_file e \<noteq> source then None
           else if re_imported_name e = name then Some (idx, re_exported_name e)
           else if re_imported_name e = ''*'' \<and> re_exported_name e = ''*'' then Some (idx, name)
           else None)
         (re_exports m)) (enumerate 0 (modules g))))"

definition enumerate_reachable_barrels ::
  "ModuleGraph \<Rightarrow> FileId \<Rightarrow> string \<Rightarrow> (FileId \<times> string) set option" where
  "enumerate_reachable_barrels g seed_file seed_name =
     explore (barrel_succs g) push_top {(seed_file, seed_name)} [(seed_file, seed_name)]"

text \<open>One re-export edge forwards a name of its source module to a name of its barrel.\<close>

inductive forwards :: "ModuleGraph \<Rightarrow> FileId \<times> string \<Rightarrow> FileId \<times> string \<Rightarrow> bool" for g where
  named: "b < length (modules g) \<Longrightarrow> e \<in> set (re_exports (modules g ! b)) \<Longrightarrow> source_file e = s \<Longrightarrow>
    re_imported_name e = n \<Longrightarrow> forwards g (s, n) (b, re_exported_name e)"
| star: "b < length (modules g) \<Longrightarrow> e \<in> set (re_exports (modules g ! b)) \<Longrightarrow> source_file e = s \<Longrightarrow>
    re_imported_name e = ''*'' \<Longrightarrow> re_exported_name e = ''*'' \<Longrightarrow> forwards g (s, n) (b, n)"

inductive_simps forwards_iff: "forwards g (s, n) (b, n')"

lemma forward_edge:
  "(if source_file e \<noteq> s then None
    else if re_imported_name e = n then Some (b, re_exported_name e)
    else if re_imported_name e = ''*'' \<and> re_exported_name e = ''*'' then Some (b, n)
    else None) = Some (b', n') \<longleftrightarrow>
   b' = b \<and> source_file e = s \<and>
     (re_imported_name e = n \<and> n' = re_exported_name e \<or>
      re_imported_name e = ''*'' \<and> re_exported_name e = ''*'' \<and> n' = n)"
  by auto

lemma set_map_filter_iff: "y \<in> set (List.map_filter f xs) \<longleftrightarrow> (\<exists>x \<in> set xs. f x = Some y)"
  by (force simp: map_filter_def)

lemma bex_enumerate:
  "(\<exists>x \<in> set (enumerate 0 xs). P x) \<longleftrightarrow> (\<exists>i < length xs. P (i, xs ! i))"
  by (force simp: in_set_enumerate_eq)

lemma barrel_succs_iff: "y \<in> set (barrel_succs g x) \<longleftrightarrow> forwards g x y"
proof (cases x; cases y)
  fix s n b n' assume xy [simp]: "x = (s, n)" "y = (b, n')"
  have "y \<in> set (barrel_succs g x) \<longleftrightarrow> b < length (modules g) \<and>
      (\<exists>e \<in> set (re_exports (modules g ! b)). source_file e = s \<and>
        (re_imported_name e = n \<and> n' = re_exported_name e \<or>
         re_imported_name e = ''*'' \<and> re_exported_name e = ''*'' \<and> n' = n))"
    by (auto simp: barrel_succs_def set_map_filter_iff forward_edge bex_enumerate)
  then show ?thesis by (auto simp: forwards_iff)
qed

definition barrel_universe :: "ModuleGraph \<Rightarrow> FileId \<times> string \<Rightarrow> (FileId \<times> string) set" where
  "barrel_universe g seed = insert seed ({..<length (modules g)} \<times>
     insert (snd seed) (\<Union>m \<in> set (modules g). re_exported_name ` set (re_exports m)))"

lemma barrel_universe_closed:
  assumes "x \<in> barrel_universe g seed"
  shows "set (barrel_succs g x) \<subseteq> barrel_universe g seed"
proof
  fix y assume "y \<in> set (barrel_succs g x)"
  then have "forwards g x y" by (simp add: barrel_succs_iff)
  then show "y \<in> barrel_universe g seed"
    using assms by cases (auto simp: barrel_universe_def)
qed

interpretation barrel_walk: exploration "barrel_succs g" push_top "barrel_universe g seed" for g seed
  by unfold_locales (use barrel_universe_closed in \<open>auto simp: barrel_universe_def push_top_def\<close>)

lemma barrel_walk_total:
  "enumerate_reachable_barrels g f n = Some ((step_rel (barrel_succs g))\<^sup>* `` {(f, n)})"
  using barrel_walk.explore_reaches [of "[(f, n)]" _ g "(f, n)"]
  by (simp add: enumerate_reachable_barrels_def barrel_universe_def)

text \<open>
  C24. The walk over named re-exports ends for every graph, cyclic or not, and returns exactly
  the pairs of a barrel and an exported name under which the seed symbol is forwarded, the seed
  included.
\<close>

theorem barrels_terminate_with_forwarded_names:
  "enumerate_reachable_barrels g seed_file seed_name =
     Some {y. (forwards g)\<^sup>*\<^sup>* (seed_file, seed_name) y}"
proof -
  have "(step_rel (barrel_succs g))\<^sup>* `` {x} = {y. (forwards g)\<^sup>*\<^sup>* x y}" for x
    by (auto simp: Image_def rtrancl_def step_rel_def barrel_succs_iff)
  then show ?thesis by (simp add: barrel_walk_total)
qed

end
