(* ===== verification/Namespace_Credits.thy ===== *)
theory Namespace_Credits
  imports Reachability Reference_Narrowing "HOL-Library.AList"
begin

text \<open>
  The two passes between the references of the edges and reachability: member accesses through
  objects that carry a namespace import (\<^verbatim>\<open>graph/src/graph/namespace_aliases.rs\<close>) and through
  namespace re-exports (\<^verbatim>\<open>graph/src/graph/namespace_re_exports.rs\<close>). Both collect credits first
  and then apply them in groups.

  The orders in which the code visits its hash maps are the fields of \<open>HashOrders\<close>. The walk
  along chained re-exports is recursive in the code; here it takes fuel, and one unit more than
  there are modules is enough, since every level enters a module not visited before.
\<close>

section \<open>Orders of hash maps\<close>

type_synonym group_key = "nat \<times> FileId \<times> Span"

record GroupState =
  gs_members :: "string list"
  gs_whole_object :: bool

record HashOrders =
  visit_modules :: "ResolvedModule list \<Rightarrow> ResolvedModule list"
  visit_alias_groups :: "(group_key \<times> string list) list \<Rightarrow> (group_key \<times> string list) list"
  visit_credit_groups :: "(group_key \<times> GroupState) list \<Rightarrow> (group_key \<times> GroupState) list"
  visit_refs :: "(string \<times> SymbolReference list) list \<Rightarrow> (string \<times> SymbolReference list) list"

fun fold_option :: "('a \<Rightarrow> 'b \<Rightarrow> 'b option) \<Rightarrow> 'a list \<Rightarrow> 'b \<Rightarrow> 'b option" where
  "fold_option f [] s = Some s"
| "fold_option f (x # xs) s = Option.bind (f x s) (fold_option f xs)"

definition module_index_for_file :: "ModuleGraph \<Rightarrow> FileId \<Rightarrow> nat option" where
  "module_index_for_file g f = (if f \<ge> length (modules g) then None else Some f)"

definition default_imported_name :: "ImportedName \<Rightarrow> string option" where
  "default_imported_name n = (case n of ImpNamed s \<Rightarrow> Some s | ImpDefault \<Rightarrow> Some ''default'' | _ \<Rightarrow> None)"

section \<open>Namespace objects\<close>

record PendingCredit =
  pc_target :: nat
  pc_member :: string
  pc_consumer :: FileId
  pc_span :: Span

definition resolve_namespace_target :: "ResolvedModule \<Rightarrow> NamespaceObjectAlias \<Rightarrow> FileId option" where
  "resolve_namespace_target alias_module alias =
     (case List.map_filter (\<lambda>i.
         if ii_local_name (import_info i) \<noteq> namespace_local alias then None
         else if ii_imported_name (import_info i) \<noteq> ImpNamespace then None
         else internal_file_id (import_target i)) (resolved_imports alias_module) of
        [] \<Rightarrow> None
      | f # _ \<Rightarrow> Some f)"

definition chained_targets :: "ModuleGraph \<Rightarrow> nat \<Rightarrow> string \<Rightarrow> FileId list" where
  "chained_targets g barrel_idx credited_name =
     (if barrel_idx \<ge> length (modules g) then []
      else map source_file (filter (\<lambda>e. re_imported_name e = ''*'' \<and> re_exported_name e = credited_name)
        (re_exports (modules g ! barrel_idx))))"

fun collect_chained_re_export_credits ::
  "nat \<Rightarrow> ModuleGraph \<Rightarrow> ResolvedModule \<Rightarrow> Span \<Rightarrow> nat \<Rightarrow> string \<Rightarrow> string \<Rightarrow>
   nat set \<times> PendingCredit list \<Rightarrow> (nat set \<times> PendingCredit list) option" where
  "collect_chained_re_export_credits 0 g consumer span barrel_idx credited_name accessor st = None"
| "collect_chained_re_export_credits (Suc fuel) g consumer span barrel_idx credited_name accessor st =
     fold_option (\<lambda>source_file (visited, pending).
       case module_index_for_file g source_file of
         None \<Rightarrow> Some (visited, pending)
       | Some source_idx \<Rightarrow>
           if source_idx \<in> visited then Some (visited, pending)
           else fold_option (\<lambda>access (visited, pending).
                  if ma_object access \<noteq> accessor then Some (visited, pending)
                  else collect_chained_re_export_credits fuel g consumer span source_idx (ma_member access)
                    (accessor @ ''.'' @ ma_member access)
                    (visited, pending @ [\<lparr>pc_target = source_idx, pc_member = ma_member access,
                       pc_consumer = rm_file_id consumer, pc_span = span\<rparr>]))
                (member_accesses consumer) (insert source_idx visited, pending))
       (chained_targets g barrel_idx credited_name) st"

definition collect_credits_for_consumer_import ::
  "ModuleGraph \<Rightarrow> ResolvedModule \<Rightarrow> (FileId \<times> string) set \<Rightarrow> string \<Rightarrow> nat \<Rightarrow> ResolvedImport \<Rightarrow>
   PendingCredit list \<Rightarrow> PendingCredit list option" where
  "collect_credits_for_consumer_import g consumer reachable prefix_match target_idx i pending =
     (case (internal_file_id (import_target i), default_imported_name (ii_imported_name (import_info i))) of
        (Some target_file, Some name) \<Rightarrow>
          (let local = ii_local_name (import_info i); expected_object = local @ prefix_match in
           if (target_file, name) \<notin> reachable \<or> local = [] then Some pending
           else fold_option (\<lambda>access pending.
                  if ma_object access \<noteq> expected_object then Some pending
                  else map_option snd (collect_chained_re_export_credits (length (modules g) + 1) g consumer
                    (ii_span (import_info i)) target_idx (ma_member access) (expected_object @ ''.'' @ ma_member access)
                    ({target_idx}, pending @ [\<lparr>pc_target = target_idx, pc_member = ma_member access,
                       pc_consumer = rm_file_id consumer, pc_span = ii_span (import_info i)\<rparr>])))
                (member_accesses consumer) pending)
      | _ \<Rightarrow> Some pending)"

definition collect_credits_for_alias ::
  "ModuleGraph \<Rightarrow> ResolvedModule list \<Rightarrow> FileId \<Rightarrow> NamespaceObjectAlias \<Rightarrow> nat \<Rightarrow> (FileId \<times> string) set \<Rightarrow>
   PendingCredit list \<Rightarrow> PendingCredit list option" where
  "collect_credits_for_alias g rms alias_file_id alias target_idx reachable pending =
     fold_option (\<lambda>consumer pending.
         if rm_file_id consumer = alias_file_id then Some pending
         else fold_option (collect_credits_for_consumer_import g consumer reachable (''.'' @ suffix alias) target_idx)
                (resolved_imports consumer) pending)
       rms pending"

definition collect_pending_credits :: "ModuleGraph \<Rightarrow> ResolvedModule list \<Rightarrow> PendingCredit list option" where
  "collect_pending_credits g rms =
     fold_option (\<lambda>alias_module. fold_option (\<lambda>alias pending.
         case resolve_namespace_target alias_module alias of
           None \<Rightarrow> Some pending
         | Some namespace_target_id \<Rightarrow>
             (case module_index_for_file g namespace_target_id of
                None \<Rightarrow> Some pending
              | Some target_idx \<Rightarrow> do {
                  reachable \<leftarrow> enumerate_reachable_barrels g (rm_file_id alias_module) (via_export_name alias);
                  collect_credits_for_alias g rms (rm_file_id alias_module) alias target_idx reachable pending
                }))
         (namespace_object_aliases alias_module)) rms []"

definition add_to_group :: "PendingCredit \<Rightarrow> (group_key \<times> string list) list \<Rightarrow> (group_key \<times> string list) list" where
  "add_to_group c groups =
     (let k = (pc_target c, pc_consumer c, pc_span c)
      in AList.update k ((case map_of groups k of None \<Rightarrow> [] | Some ms \<Rightarrow> ms) @ [pc_member c]) groups)"

definition apply_pending_credits ::
  "((group_key \<times> string list) list \<Rightarrow> (group_key \<times> string list) list) \<Rightarrow> PendingCredit list \<Rightarrow>
   ModuleGraph \<Rightarrow> ModuleGraph" where
  "apply_pending_credits order pending g =
     g\<lparr>modules := fold (\<lambda>((target_idx, consumer, span), members) ms.
         ms[target_idx := credit_members (ms ! target_idx) consumer members span])
       (order (fold add_to_group pending [])) (modules g)\<rparr>"

definition propagate_cross_package_aliases ::
  "HashOrders \<Rightarrow> ResolvedModule list \<Rightarrow> ModuleGraph \<Rightarrow> ModuleGraph option" where
  "propagate_cross_package_aliases orders rms g =
     map_option (\<lambda>pending. apply_pending_credits (visit_alias_groups orders) pending g)
       (collect_pending_credits g (visit_modules orders rms))"

section \<open>Namespace re-exports\<close>

datatype CreditKind = CreditMember string | AllExports

record NsPendingCredit =
  np_target :: nat
  np_kind :: CreditKind
  np_consumer :: FileId
  np_span :: Span

definition namespace_edges :: "ModuleGraph \<Rightarrow> (FileId \<times> FileId \<times> string) list" where
  "namespace_edges g =
     concat (map (\<lambda>m. map (\<lambda>re. (file_id m, source_file re, re_exported_name re))
       (filter (\<lambda>re. re_imported_name re = ''*'' \<and> re_exported_name re \<noteq> ''*'') (re_exports m))) (modules g))"

definition consumer_credits ::
  "nat \<Rightarrow> (FileId \<times> string) set \<Rightarrow> ResolvedModule \<Rightarrow> ResolvedImport \<Rightarrow> NsPendingCredit list" where
  "consumer_credits target_idx reachable consumer i =
     (case (internal_file_id (import_target i), default_imported_name (ii_imported_name (import_info i))) of
        (Some import_file, Some name) \<Rightarrow>
          (let local = ii_local_name (import_info i);
               credit = (\<lambda>k. \<lparr>np_target = target_idx, np_kind = k, np_consumer = rm_file_id consumer,
                          np_span = ii_span (import_info i)\<rparr>)
           in if (import_file, name) \<notin> reachable then []
              else if local = [] then []
              else if local \<in> unused_import_bindings consumer then []
              else if local \<in> set (whole_object_uses consumer) then [credit AllExports]
              else map (\<lambda>a. credit (CreditMember (ma_member a)))
                     (filter (\<lambda>a. ma_object a = local) (member_accesses consumer)))
      | _ \<Rightarrow> [])"

definition collect_consumer_credits ::
  "ResolvedModule list \<Rightarrow> FileId \<Rightarrow> nat \<Rightarrow> (FileId \<times> string) set \<Rightarrow> NsPendingCredit list" where
  "collect_consumer_credits rms seed_barrel_file target_idx reachable =
     concat (map (\<lambda>consumer. concat (map (consumer_credits target_idx reachable consumer) (resolved_imports consumer)))
       (filter (\<lambda>c. rm_file_id c \<noteq> seed_barrel_file) rms))"

definition add_to_credit_group ::
  "NsPendingCredit \<Rightarrow> (group_key \<times> GroupState) list \<Rightarrow> (group_key \<times> GroupState) list" where
  "add_to_credit_group c groups =
     (let k = (np_target c, np_consumer c, np_span c);
          entry = (case map_of groups k of None \<Rightarrow> \<lparr>gs_members = [], gs_whole_object = False\<rparr> | Some e \<Rightarrow> e)
      in AList.update k (case np_kind c of
           CreditMember name \<Rightarrow>
             (if \<not> gs_whole_object entry then entry\<lparr>gs_members := gs_members entry @ [name]\<rparr> else entry)
         | AllExports \<Rightarrow> \<lparr>gs_members = [], gs_whole_object = True\<rparr>) groups)"

definition apply_namespace_credits ::
  "((group_key \<times> GroupState) list \<Rightarrow> (group_key \<times> GroupState) list) \<Rightarrow> NsPendingCredit list \<Rightarrow>
   ModuleGraph \<Rightarrow> ModuleGraph" where
  "apply_namespace_credits order pending g =
     g\<lparr>modules := fold (\<lambda>((target_idx, consumer, span), st) ms.
         ms[target_idx :=
           (if gs_whole_object st
            then (ms ! target_idx)\<lparr>exports :=
              mark_all_exports_referenced (exports (ms ! target_idx)) consumer span NamespaceImport\<rparr>
            else credit_members (ms ! target_idx) consumer (gs_members st) span)])
       (order (fold add_to_credit_group pending [])) (modules g)\<rparr>"

definition collect_edge_credits ::
  "ModuleGraph \<Rightarrow> ResolvedModule list \<Rightarrow> FileId \<times> FileId \<times> string \<Rightarrow> NsPendingCredit list \<Rightarrow>
   NsPendingCredit list option" where
  "collect_edge_credits g rms edge pending = (case edge of (barrel_file_id, source_file_id, exported) \<Rightarrow>
     (case module_index_for_file g source_file_id of
        None \<Rightarrow> Some pending
      | Some target_idx \<Rightarrow> do {
          reachable \<leftarrow> enumerate_reachable_barrels g barrel_file_id exported;
          let exposed = (\<exists>x \<in> reachable. fst x < length (modules g) \<and> is_entry_point (modules g ! fst x));
          Some (pending @
            (if exposed then [\<lparr>np_target = target_idx, np_kind = AllExports, np_consumer = barrel_file_id,
                               np_span = \<lparr>span_begin = 0, span_end = 0\<rparr>\<rparr>] else []) @
            collect_consumer_credits rms barrel_file_id target_idx reachable)
        }))"

definition propagate_namespace_re_exports ::
  "HashOrders \<Rightarrow> ResolvedModule list \<Rightarrow> ModuleGraph \<Rightarrow> ModuleGraph option" where
  "propagate_namespace_re_exports orders rms g =
     (if namespace_edges g = [] then Some g
      else map_option (\<lambda>pending. apply_namespace_credits (visit_credit_groups orders) pending g)
        (fold_option (collect_edge_credits g (visit_modules orders rms)) (namespace_edges g) []))"

section \<open>Both passes end\<close>

lemma fold_option_total:
  assumes "P s" "\<And>x s. x \<in> set xs \<Longrightarrow> P s \<Longrightarrow> \<exists>t. f x s = Some t \<and> P t"
  shows "\<exists>t. fold_option f xs s = Some t \<and> P t"
  using assms
proof (induction xs arbitrary: s)
  case (Cons x xs)
  obtain t where "f x s = Some t" "P t" using Cons.prems by (meson list.set_intros(1))
  then show ?case using Cons.IH [of t] Cons.prems(2) by simp
qed simp

text \<open>The walk never runs out of fuel: each level of the recursion enters a module that was not visited.\<close>

lemma chained_credits_total:
  assumes "card ({..<length (modules g)} - fst st) < fuel"
  shows "\<exists>st'. collect_chained_re_export_credits fuel g consumer span idx name accessor st = Some st' \<and>
    fst st \<subseteq> fst st'"
  using assms
proof (induction fuel arbitrary: st idx name accessor)
  case (Suc fuel)
  let ?n = "length (modules g)"
  let ?P = "\<lambda>st'. fst st \<subseteq> fst st'"
  have inner: "\<exists>st'. fold_option (\<lambda>access (visited, pending).
        if ma_object access \<noteq> accessor then Some (visited, pending)
        else collect_chained_re_export_credits fuel g consumer span k (ma_member access)
          (accessor @ ''.'' @ ma_member access) (visited, pending @ [c access]))
      xs st1 = Some st' \<and> ?P st'"
    if st1: "?P st1" "k \<in> fst st1" and k: "k < ?n" "k \<notin> fst st" for st1 k xs and c :: "MemberAccess \<Rightarrow> PendingCredit"
  proof -
    have "\<exists>st'. fold_option (\<lambda>access (visited, pending).
        if ma_object access \<noteq> accessor then Some (visited, pending)
        else collect_chained_re_export_credits fuel g consumer span k (ma_member access)
          (accessor @ ''.'' @ ma_member access) (visited, pending @ [c access]))
      xs st1 = Some st' \<and> (?P st' \<and> k \<in> fst st')"
    proof (rule fold_option_total)
      show "?P st1 \<and> k \<in> fst st1" using st1 by simp
      fix access :: MemberAccess and st2 :: "nat set \<times> PendingCredit list"
      assume 2: "?P st2 \<and> k \<in> fst st2"
      have "{..<?n} - fst st2 \<subset> {..<?n} - fst st" using 2 k by auto
      then have "card ({..<?n} - fst st2) < card ({..<?n} - fst st)" by (intro psubset_card_mono) simp_all
      then have "card ({..<?n} - fst st2) < fuel" using Suc.prems by simp
      then obtain st3 where "collect_chained_re_export_credits fuel g consumer span k (ma_member access)
          (accessor @ ''.'' @ ma_member access) (fst st2, snd st2 @ [c access]) = Some st3" "fst st2 \<subseteq> fst st3"
        using Suc.IH [of "(fst st2, snd st2 @ [c access])"] by fastforce
      then show "\<exists>t. (case st2 of (visited, pending) \<Rightarrow>
          if ma_object access \<noteq> accessor then Some (visited, pending)
          else collect_chained_re_export_credits fuel g consumer span k (ma_member access)
            (accessor @ ''.'' @ ma_member access) (visited, pending @ [c access])) = Some t \<and> (?P t \<and> k \<in> fst t)"
        using 2 by (cases st2; cases st3) auto
    qed
    then show ?thesis by blast
  qed
  show ?case unfolding collect_chained_re_export_credits.simps
  proof (rule fold_option_total)
    fix src and st1 :: "nat set \<times> PendingCredit list"
    assume 1: "?P st1"
    obtain visited pending where st1: "st1 = (visited, pending)" by fastforce
    show "\<exists>t. (case st1 of (visited, pending) \<Rightarrow>
        (case module_index_for_file g src of None \<Rightarrow> Some (visited, pending)
        | Some k \<Rightarrow> if k \<in> visited then Some (visited, pending)
          else fold_option (\<lambda>access (visited, pending).
              if ma_object access \<noteq> accessor then Some (visited, pending)
              else collect_chained_re_export_credits fuel g consumer span k (ma_member access)
                (accessor @ ''.'' @ ma_member access)
                (visited, pending @ [\<lparr>pc_target = k, pc_member = ma_member access,
                   pc_consumer = rm_file_id consumer, pc_span = span\<rparr>]))
            (member_accesses consumer) (insert k visited, pending))) = Some t \<and> ?P t"
    proof (cases "module_index_for_file g src")
      case None
      with 1 st1 show ?thesis by simp
    next
      case (Some k)
      then have k: "k < ?n" by (simp add: module_index_for_file_def split: if_splits)
      show ?thesis
      proof (cases "k \<in> visited")
        case True
        with Some 1 st1 show ?thesis by simp
      next
        case False
        then have "k \<notin> fst st" using 1 st1 by auto
        moreover have "?P (insert k visited, pending)" "k \<in> fst (insert k visited, pending)" using 1 st1 by auto
        ultimately have "\<exists>st'. fold_option (\<lambda>access (visited, pending).
              if ma_object access \<noteq> accessor then Some (visited, pending)
              else collect_chained_re_export_credits fuel g consumer span k (ma_member access)
                (accessor @ ''.'' @ ma_member access)
                (visited, pending @ [\<lparr>pc_target = k, pc_member = ma_member access,
                   pc_consumer = rm_file_id consumer, pc_span = span\<rparr>]))
            (member_accesses consumer) (insert k visited, pending) = Some st' \<and> ?P st'"
          using k by (intro inner)
        then show ?thesis using st1 Some False by simp
      qed
    qed
  qed simp
qed simp

declare collect_chained_re_export_credits.simps [simp del]

lemma consumer_import_total:
  "\<exists>t. collect_credits_for_consumer_import g consumer reachable prefix_match idx i pending = Some t"
proof -
  let ?walk = "\<lambda>local access (pending :: PendingCredit list). collect_chained_re_export_credits (length (modules g) + 1) g consumer
      (ii_span (import_info i)) idx (ma_member access) ((local @ prefix_match) @ ''.'' @ ma_member access) ({idx}, pending)"
  have walk: "\<exists>st. ?walk local access pending = Some st" for local access pending
  proof -
    have "card ({..<length (modules g)} - fst ({idx}, pending)) < length (modules g) + 1"
      using card_mono [of "{..<length (modules g)}" "{..<length (modules g)} - {idx}"] by simp
    from chained_credits_total [OF this] show ?thesis by blast
  qed
  have "\<exists>t. fold_option (\<lambda>access pending.
      if ma_object access \<noteq> local @ prefix_match then Some pending
      else map_option snd (?walk local access (pending @ [c access]))) xs pending = Some t \<and> True"
    for local xs and c :: "MemberAccess \<Rightarrow> PendingCredit"
  proof (rule fold_option_total)
    fix x :: MemberAccess and pending
    obtain st where "?walk local x (pending @ [c x]) = Some st" using walk by blast
    then show "\<exists>t. (if ma_object x \<noteq> local @ prefix_match then Some pending
        else map_option snd (?walk local x (pending @ [c x]))) = Some t \<and> True" by simp
  qed simp
  then show ?thesis
    by (auto simp: collect_credits_for_consumer_import_def Let_def split: option.splits)
qed

lemma pending_credits_total: "\<exists>pending. collect_pending_credits g rms = Some pending"
proof -
  have of_alias: "\<exists>t. collect_credits_for_alias g rms f al idx reachable pending = Some t" for f al idx reachable pending
  proof -
    have "\<exists>t. fold_option (collect_credits_for_consumer_import g consumer reachable p idx) xs pending = Some t \<and> True"
      for consumer p xs pending
      by (rule fold_option_total) (use consumer_import_total in auto)
    then have "\<exists>t. collect_credits_for_alias g rms f al idx reachable pending = Some t \<and> True"
      unfolding collect_credits_for_alias_def by - (rule fold_option_total, simp_all)
    then show ?thesis by simp
  qed
  have "\<exists>t. fold_option (\<lambda>alias pending.
         case resolve_namespace_target m alias of
           None \<Rightarrow> Some pending
         | Some namespace_target_id \<Rightarrow>
             (case module_index_for_file g namespace_target_id of
                None \<Rightarrow> Some pending
              | Some target_idx \<Rightarrow> do {
                  reachable \<leftarrow> enumerate_reachable_barrels g (rm_file_id m) (via_export_name alias);
                  collect_credits_for_alias g rms (rm_file_id m) alias target_idx reachable pending
                })) xs pending = Some t \<and> True" for m xs pending
    by (rule fold_option_total) (auto simp: barrel_walk_total of_alias split: option.split)
  then have "\<exists>t. collect_pending_credits g rms = Some t \<and> True"
    unfolding collect_pending_credits_def by - (rule fold_option_total, simp_all)
  then show ?thesis by simp
qed

text \<open>The credits of the namespace re-exports, in the order in which they are collected.\<close>

definition edge_credits :: "ModuleGraph \<Rightarrow> ResolvedModule list \<Rightarrow> FileId \<times> FileId \<times> string \<Rightarrow> NsPendingCredit list" where
  "edge_credits g rms edge = (case edge of (b, t, n) \<Rightarrow>
     if t \<ge> length (modules g) then []
     else (let reachable = (step_rel (barrel_succs g))\<^sup>* `` {(b, n)} in
       (if \<exists>x \<in> reachable. fst x < length (modules g) \<and> is_entry_point (modules g ! fst x)
        then [\<lparr>np_target = t, np_kind = AllExports, np_consumer = b, np_span = \<lparr>span_begin = 0, span_end = 0\<rparr>\<rparr>]
        else []) @ collect_consumer_credits rms b t reachable))"

lemma collect_edge_credits_appends: "collect_edge_credits g rms edge pending = Some (pending @ edge_credits g rms edge)"
  by (cases edge)
    (simp add: collect_edge_credits_def edge_credits_def barrel_walk_total Let_def module_index_for_file_def)

lemma fold_option_appends:
  assumes "\<And>x s. f x s = Some (s @ h x)"
  shows "fold_option f xs s = Some (s @ concat (map h xs))"
  by (induction xs arbitrary: s) (simp_all add: assms)

lemma collected_edge_credits:
  "fold_option (collect_edge_credits g rms) es [] = Some (concat (map (edge_credits g rms) es))"
  using fold_option_appends [of "collect_edge_credits g rms" "edge_credits g rms", OF collect_edge_credits_appends] by simp

section \<open>Both passes only add references\<close>

lemma fold_update_grows:
  assumes "\<And>x m. module_grows m (h x m)"
  shows "list_all2 module_grows ms (fold (\<lambda>x ms. ms[t x := h x (ms ! t x)]) xs ms)"
proof (induction xs arbitrary: ms)
  case (Cons x xs)
  have "list_all2 module_grows ms (ms[t x := h x (ms ! t x)])" by (rule list_all2_update) (simp_all add: assms)
  from list_all2_trans [OF module_grows_trans this Cons] show ?case by simp
qed (simp add: list.rel_refl)

lemma credit_members_grows: "module_grows m (credit_members m f accessed span)"
  using credits_credit_members by (simp add: credits_def)

lemma mark_all_grows: "module_grows m (m\<lparr>exports := mark_all_exports_referenced (exports m) f span kind\<rparr>)"
  using credits_mark_all by (simp add: credits_def)

lemma apply_pending_credits_eq:
  "apply_pending_credits order pending g = g\<lparr>modules :=
     fold (\<lambda>x ms. ms[fst (fst x) := credit_members (ms ! fst (fst x)) (fst (snd (fst x))) (snd x) (snd (snd (fst x)))])
       (order (fold add_to_group pending [])) (modules g)\<rparr>"
  unfolding apply_pending_credits_def
  by (intro arg_cong [where f = "\<lambda>ms. g\<lparr>modules := ms\<rparr>"] fold_cong refl ext) (simp split: prod.split)

lemma apply_pending_credits_grows:
  "apply_pending_credits order pending g = g\<lparr>modules := modules (apply_pending_credits order pending g)\<rparr> \<and>
   list_all2 module_grows (modules g) (modules (apply_pending_credits order pending g))"
  using fold_update_grows [of "\<lambda>x m. credit_members m (fst (snd (fst x))) (snd x) (snd (snd (fst x)))"
      "modules g" "\<lambda>x. fst (fst x)"]
  by (simp add: apply_pending_credits_eq credit_members_grows)

definition credit_group :: "group_key \<times> GroupState \<Rightarrow> ModuleNode \<Rightarrow> ModuleNode" where
  "credit_group x m = (case x of ((t, consumer, span), st) \<Rightarrow>
     if gs_whole_object st
     then m\<lparr>exports := mark_all_exports_referenced (exports m) consumer span NamespaceImport\<rparr>
     else credit_members m consumer (gs_members st) span)"

lemma credit_group_grows: "module_grows m (credit_group x m)"
  by (simp add: credit_group_def credit_members_grows mark_all_grows split: prod.split)

lemma apply_namespace_credits_eq:
  "apply_namespace_credits order pending g = g\<lparr>modules :=
     fold (\<lambda>x ms. ms[fst (fst x) := credit_group x (ms ! fst (fst x))])
       (order (fold add_to_credit_group pending [])) (modules g)\<rparr>"
  unfolding apply_namespace_credits_def credit_group_def
  by (intro arg_cong [where f = "\<lambda>ms. g\<lparr>modules := ms\<rparr>"] fold_cong refl ext) (simp split: prod.split)

lemma aliases_grow:
  "\<exists>g'. propagate_cross_package_aliases orders rms g = Some g' \<and> g' = g\<lparr>modules := modules g'\<rparr> \<and>
     list_all2 module_grows (modules g) (modules g')"
proof -
  obtain pending where "collect_pending_credits g (visit_modules orders rms) = Some pending"
    using pending_credits_total by blast
  then show ?thesis using apply_pending_credits_grows [of "visit_alias_groups orders" pending g]
    by (auto simp: propagate_cross_package_aliases_def)
qed

lemma namespace_re_exports_grow:
  "\<exists>g'. propagate_namespace_re_exports orders rms g = Some g' \<and> g' = g\<lparr>modules := modules g'\<rparr> \<and>
     list_all2 module_grows (modules g) (modules g')"
proof (cases "namespace_edges g = []")
  case True
  then show ?thesis by (simp add: propagate_namespace_re_exports_def list.rel_refl)
next
  case False
  then show ?thesis
    using fold_update_grows [OF credit_group_grows, of "modules g" "\<lambda>x. fst (fst x)"]
    by (simp add: propagate_namespace_re_exports_def apply_namespace_credits_eq collected_edge_credits)
qed

section \<open>Accesses through a namespace re-export are credited\<close>

definition named_export :: "ModuleNode \<Rightarrow> string \<Rightarrow> bool" where
  "named_export m n \<longleftrightarrow> (\<exists>e \<in> set (exports m). export_display (export_name e) = n)"

definition credited :: "FileId \<Rightarrow> string \<Rightarrow> ModuleNode \<Rightarrow> bool" where
  "credited f n m \<longleftrightarrow> (\<exists>e \<in> set (exports m). export_display (export_name e) = n \<and> f \<in> files_of (references e))"

lemma grown_export:
  assumes "module_grows m m'" "e \<in> set (exports m)"
  shows "\<exists>e' \<in> set (exports m'). export_name e' = export_name e \<and> files_of (references e) \<subseteq> files_of (references e')"
proof -
  obtain old new where m': "m' = m\<lparr>exports := old @ new\<rparr>" "list_all2 export_grows (exports m) old"
    using assms(1) by (auto simp: module_grows_def)
  obtain i where i: "i < length (exports m)" "exports m ! i = e" using assms(2) by (auto simp: in_set_conv_nth)
  then have "export_grows e (old ! i)" "i < length old" using m'(2) by (auto simp: list_all2_conv_all_nth)
  then show ?thesis using m'(1) by (intro bexI [of _ "old ! i"]) (auto simp: export_grows_def files_of_def)
qed

lemma named_export_grows: "module_grows m m' \<Longrightarrow> named_export m n \<Longrightarrow> named_export m' n"
  unfolding named_export_def using grown_export by metis

lemma credited_grows: "module_grows m m' \<Longrightarrow> credited f n m \<Longrightarrow> credited f n m'"
  unfolding credited_def using grown_export by (metis subsetD)

lemma credit_members_credits:
  assumes "n \<in> set accessed" "named_export m n"
  shows "credited f n (credit_members m f accessed span)"
proof -
  let ?es = "fst (mark_member_exports_referenced (exports m) f accessed span NamespaceImport)"
  obtain e where e: "e \<in> set (exports m)" "export_display (export_name e) = n"
    using assms(2) by (auto simp: named_export_def)
  then have "attach_reference f NamespaceImport span e \<in> set ?es"
    using assms(1) by (force simp: mark_member_exports_referenced_def)
  moreover have "set ?es \<subseteq> set (exports (credit_members m f accessed span))"
    by (auto simp: credit_members_def create_synthetic_exports_for_star_re_exports_def split: prod.splits)
  ultimately show ?thesis using e unfolding credited_def
    by (intro bexI [of _ "attach_reference f NamespaceImport span e"]) auto
qed

definition asks :: "string \<Rightarrow> GroupState \<Rightarrow> bool" where
  "asks n st \<longleftrightarrow> gs_whole_object st \<or> n \<in> set (gs_members st)"

lemma credit_group_credits:
  assumes "asks n st" "named_export m n"
  shows "credited f n (credit_group ((t, f, span), st) m)"
proof (cases "gs_whole_object st")
  case True
  obtain e where e: "e \<in> set (exports m)" "export_display (export_name e) = n"
    using assms(2) by (auto simp: named_export_def)
  then have "attach_reference f NamespaceImport span e \<in> set (exports (credit_group ((t, f, span), st) m))"
    using True by (simp add: credit_group_def mark_all_exports_referenced_def)
  with e(2) show ?thesis unfolding credited_def
    by (intro bexI [of _ "attach_reference f NamespaceImport span e"]) simp_all
next
  case False
  with assms credit_members_credits show ?thesis by (simp add: credit_group_def asks_def)
qed

lemma fold_groups_credit:
  assumes "((t, f, span), st) \<in> set xs" "asks n st" "t < length ms" "named_export (ms ! t) n"
  shows "credited f n (fold (\<lambda>x ms. ms[fst (fst x) := credit_group x (ms ! fst (fst x))]) xs ms ! t)"
  using assms(1,3,4)
proof (induction xs arbitrary: ms)
  case (Cons x xs)
  let ?ms = "ms[fst (fst x) := credit_group x (ms ! fst (fst x))]"
  have "list_all2 module_grows ms ?ms" by (rule list_all2_update) (simp_all add: credit_group_grows)
  then have g: "module_grows (ms ! t) (?ms ! t)" using Cons.prems(2) by (auto simp: list_all2_conv_all_nth)
  show ?case
  proof (cases "((t, f, span), st) \<in> set xs")
    case True
    then show ?thesis using Cons.IH [of ?ms] Cons.prems(2,3) named_export_grows [OF g] by simp
  next
    case False
    then have x: "x = ((t, f, span), st)" using Cons.prems(1) by simp
    have "credited f n (?ms ! t)" using credit_group_credits [OF assms(2)] Cons.prems(2,3) by (simp add: x)
    moreover have "list_all2 module_grows ?ms (fold (\<lambda>x ms. ms[fst (fst x) := credit_group x (ms ! fst (fst x))]) xs ?ms)"
      by (rule fold_update_grows) (rule credit_group_grows)
    then have "module_grows (?ms ! t) (fold (\<lambda>x ms. ms[fst (fst x) := credit_group x (ms ! fst (fst x))]) xs ?ms ! t)"
      using Cons.prems(2) by (auto simp: list_all2_conv_all_nth)
    ultimately show ?thesis using credited_grows by simp
  qed
qed simp

definition asks_in :: "(group_key \<times> GroupState) list \<Rightarrow> group_key \<Rightarrow> string \<Rightarrow> bool" where
  "asks_in groups k n \<longleftrightarrow> (\<exists>st. map_of groups k = Some st \<and> asks n st)"

lemma add_to_credit_group_asks:
  "np_kind c = CreditMember n \<or> np_kind c = AllExports \<Longrightarrow>
     asks_in (add_to_credit_group c groups) (np_target c, np_consumer c, np_span c) n"
  "asks_in groups k n \<Longrightarrow> asks_in (add_to_credit_group c groups) k n"
  by (auto simp: asks_in_def asks_def add_to_credit_group_def Let_def update_conv' split: CreditKind.splits option.splits)

lemma fold_credit_groups_keeps:
  "asks_in groups k n \<Longrightarrow> asks_in (fold add_to_credit_group pending groups) k n"
  by (induction pending arbitrary: groups) (simp_all add: add_to_credit_group_asks(2))

lemma fold_credit_groups_asks:
  assumes "c \<in> set pending" "np_kind c = CreditMember n \<or> np_kind c = AllExports"
  shows "asks_in (fold add_to_credit_group pending groups) (np_target c, np_consumer c, np_span c) n"
  using assms(1)
proof (induction pending arbitrary: groups)
  case (Cons d pending)
  show ?case
  proof (cases "c \<in> set pending")
    case False
    then have "d = c" using Cons.prems by simp
    then show ?thesis using fold_credit_groups_keeps add_to_credit_group_asks(1) [OF assms(2)] by simp
  qed (simp add: Cons.IH)
qed simp

text \<open>Every credit that is collected reaches the exports of its name.\<close>

lemma collected_credit_is_applied:
  assumes order: "\<And>xs. set (visit_credit_groups orders xs) = set xs"
    and e: "edge \<in> set (namespace_edges g)" "c \<in> set (edge_credits g (visit_modules orders rms) edge)"
    and c: "np_kind c = CreditMember n \<or> np_kind c = AllExports"
    and t: "np_target c < length (modules g)" "named_export (modules g ! np_target c) n"
  shows "\<exists>g'. propagate_namespace_re_exports orders rms g = Some g' \<and>
    credited (np_consumer c) n (modules g' ! np_target c)"
proof -
  let ?pending = "concat (map (edge_credits g (visit_modules orders rms)) (namespace_edges g))"
  have "c \<in> set ?pending" using e by auto
  from fold_credit_groups_asks [OF this c, of "[]"] obtain st where
    "((np_target c, np_consumer c, np_span c), st) \<in> set (visit_credit_groups orders (fold add_to_credit_group ?pending []))"
    "asks n st"
    using map_of_SomeD order unfolding asks_in_def by metis
  from fold_groups_credit [OF this t] show ?thesis
    using e(1) by (auto simp: propagate_namespace_re_exports_def apply_namespace_credits_eq collected_edge_credits)
qed

text \<open>A file reads a member of the object that a name it imports from another file is bound to.\<close>

definition reads_through :: "ResolvedModule \<Rightarrow> FileId \<Rightarrow> string \<Rightarrow> string \<Rightarrow> bool" where
  "reads_through r b n x \<longleftrightarrow> (\<exists>i \<in> set (resolved_imports r).
     internal_file_id (import_target i) = Some b \<and> default_imported_name (ii_imported_name (import_info i)) = Some n \<and>
     ii_local_name (import_info i) \<noteq> [] \<and> ii_local_name (import_info i) \<notin> unused_import_bindings r \<and>
     (ii_local_name (import_info i) \<in> set (whole_object_uses r) \<or>
      (\<exists>a \<in> set (member_accesses r). ma_object a = ii_local_name (import_info i) \<and> ma_member a = x)))"

lemma forwarded_names: "(step_rel (barrel_succs g))\<^sup>* `` {x} = {y. (forwards g)\<^sup>*\<^sup>* x y}"
  by (auto simp: Image_def rtrancl_def step_rel_def barrel_succs_iff)

lemma reads_through_credit:
  assumes "t < length (modules g)" "r \<in> set rms" "rm_file_id r \<noteq> b" "(forwards g)\<^sup>*\<^sup>* (b, n) (b', n')"
    "reads_through r b' n' x"
  shows "\<exists>c \<in> set (edge_credits g rms (b, t, n)). np_target c = t \<and> np_consumer c = rm_file_id r \<and>
    (np_kind c = CreditMember x \<or> np_kind c = AllExports)"
proof -
  let ?reach = "{y. (forwards g)\<^sup>*\<^sup>* (b, n) y}"
  obtain i where i: "i \<in> set (resolved_imports r)" "internal_file_id (import_target i) = Some b'"
      "default_imported_name (ii_imported_name (import_info i)) = Some n'"
      "ii_local_name (import_info i) \<noteq> []" "ii_local_name (import_info i) \<notin> unused_import_bindings r"
      "ii_local_name (import_info i) \<in> set (whole_object_uses r) \<or>
       (\<exists>a \<in> set (member_accesses r). ma_object a = ii_local_name (import_info i) \<and> ma_member a = x)"
    using assms(5) unfolding reads_through_def by blast
  then have "\<exists>c \<in> set (consumer_credits t ?reach r i). np_target c = t \<and> np_consumer c = rm_file_id r \<and>
      (np_kind c = CreditMember x \<or> np_kind c = AllExports)"
    using assms(4) by (auto simp: consumer_credits_def Let_def)
  then obtain c where c: "c \<in> set (consumer_credits t ?reach r i)" "np_target c = t" "np_consumer c = rm_file_id r"
      "np_kind c = CreditMember x \<or> np_kind c = AllExports" by blast
  then have "c \<in> set (collect_consumer_credits rms b t ?reach)"
    using assms(2,3) i(1) by (auto simp: collect_consumer_credits_def)
  then have "c \<in> set (edge_credits g rms (b, t, n))"
    using assms(1) by (simp add: edge_credits_def forwarded_names)
  with c show ?thesis by blast
qed

lemma exposed_credit:
  assumes "t < length (modules g)" "(forwards g)\<^sup>*\<^sup>* (b, n) (b', n')" "b' < length (modules g)" "is_entry_point (modules g ! b')"
  shows "\<exists>c \<in> set (edge_credits g rms (b, t, n)). np_target c = t \<and> np_consumer c = b \<and> np_kind c = AllExports"
  using assms by (force simp: edge_credits_def forwarded_names)

end
