(* ===== verification/Re_Export_Cycles.thy ===== *)
theory Re_Export_Cycles
  imports Graph_Types Tarjan_Search "HOL-Library.While_Combinator" "HOL-Library.Multiset"
begin

text \<open>
  Cycles of the re-export graph (\<^verbatim>\<open>graph/src/graph/re_exports/mod.rs\<close>, the part that runs
  before the propagation): the re-export edges, their dense numbering and adjacency, the
  iterative Tarjan search with saturating counters, and the cycles reported. The search loop
  is a \<open>while_option\<close>, whose value would be \<open>None\<close> if it did not end. Log lines are left out.
\<close>

section \<open>Re-export edges\<close>

record ReExportTuple =
  barrel :: FileId
  source :: FileId
  rt_imported_name :: string
  rt_exported_name :: string
  rt_is_type_only :: bool

definition collect_re_export_tuples :: "ModuleNode list \<Rightarrow> ReExportTuple list" where
  "collect_re_export_tuples ms =
     concat (map (\<lambda>m. map (\<lambda>re.
       \<lparr>barrel = file_id m, source = source_file re, rt_imported_name = re_imported_name re,
        rt_exported_name = re_exported_name re, rt_is_type_only = re_is_type_only re\<rparr>)
       (re_exports m)) ms)"

section \<open>Tarjan's algorithm\<close>

record TarjanFrame =
  tf_node :: nat
  next_succ :: nat

definition tarjan_new :: "nat \<Rightarrow> TarjanState" where
  "tarjan_new n = \<lparr>index_counter = 0, indices = replicate n U32_MAX, lowlinks = replicate n 0,
     on_stack = {}, stack = [], sccs = []\<rparr>"

definition tarjan_discover :: "nat \<Rightarrow> TarjanState \<Rightarrow> TarjanState" where
  "tarjan_discover node s =
     s\<lparr>indices := (indices s)[node := index_counter s],
       lowlinks := (lowlinks s)[node := index_counter s],
       index_counter := min (index_counter s + 1) U32_MAX,
       stack := node # stack s,
       on_stack := insert node (on_stack s)\<rparr>"

definition step_successor ::
  "TarjanFrame \<Rightarrow> nat list list \<Rightarrow> TarjanState \<Rightarrow> nat option \<times> TarjanFrame \<times> TarjanState" where
  "step_successor frame adj s =
     (let v = tf_node frame; w = adj ! v ! next_succ frame;
          frame' = frame\<lparr>next_succ := next_succ frame + 1\<rparr>
      in if indices s ! w = U32_MAX then (Some w, frame', tarjan_discover w s)
         else (None, frame',
           if w \<in> on_stack s
           then s\<lparr>lowlinks := (lowlinks s)[v := min (lowlinks s ! v) (indices s ! w)]\<rparr>
           else s))"

fun pop_until :: "nat \<Rightarrow> nat list \<Rightarrow> nat set \<Rightarrow> nat list \<Rightarrow> nat list \<times> nat set \<times> nat list" where
  "pop_until v [] on scc = ([], on, scc)"
| "pop_until v (w # st) on scc =
     (if w = v then (st, on - {w}, scc @ [w]) else pop_until v st (on - {w}) (scc @ [w]))"

definition finish_frame :: "nat \<Rightarrow> nat option \<Rightarrow> TarjanState \<Rightarrow> TarjanState" where
  "finish_frame v parent s =
     (let s1 =
        (if lowlinks s ! v = indices s ! v then
           (case pop_until v (stack s) (on_stack s) [] of
              (st, on, scc) \<Rightarrow> s\<lparr>stack := st, on_stack := on, sccs := sccs s @ [scc]\<rparr>)
         else s)
      in case parent of
           None \<Rightarrow> s1
         | Some pv \<Rightarrow> s1\<lparr>lowlinks := (lowlinks s1)[pv := min (lowlinks s1 ! pv) (lowlinks s1 ! v)]\<rparr>)"

fun tarjan_step :: "nat list list \<Rightarrow> TarjanState \<times> TarjanFrame list \<Rightarrow> TarjanState \<times> TarjanFrame list" where
  "tarjan_step adj (s, []) = (s, [])"
| "tarjan_step adj (s, frame # dfs) =
     (if next_succ frame < length (adj ! tf_node frame) then
        (case step_successor frame adj s of
           (Some child, frame', s') \<Rightarrow> (s', \<lparr>tf_node = child, next_succ = 0\<rparr> # frame' # dfs)
         | (None, frame', s') \<Rightarrow> (s', frame' # dfs))
      else
        (finish_frame (tf_node frame) (case dfs of [] \<Rightarrow> None | parent # _ \<Rightarrow> Some (tf_node parent)) s,
         dfs))"

definition tarjan_from :: "nat list list \<Rightarrow> nat \<Rightarrow> TarjanState \<Rightarrow> TarjanState option" where
  "tarjan_from adj start s =
     (if indices s ! start \<noteq> U32_MAX then Some s
      else map_option fst (while_option (\<lambda>(s, dfs). dfs \<noteq> []) (tarjan_step adj)
        (tarjan_discover start s, [\<lparr>tf_node = start, next_succ = 0\<rparr>])))"

definition tarjan_scc :: "nat \<Rightarrow> nat list list \<Rightarrow> nat list list option" where
  "tarjan_scc n adj =
     map_option sccs
       (fold (\<lambda>start st. Option.bind st (tarjan_from adj start)) [0..<n] (Some (tarjan_new n)))"

section \<open>The search returns the components\<close>

definition below :: "nat \<Rightarrow> nat list list \<Rightarrow> nat \<Rightarrow> nat list" where
  "below n adj v = filter (\<lambda>w. w < n) (adj ! v)"

definition adjacency_ok :: "nat \<Rightarrow> nat list list \<Rightarrow> bool" where
  "adjacency_ok n adj \<longleftrightarrow> length adj = n \<and> (\<forall>v < n. \<forall>w \<in> set (adj ! v). w < n)"

lemma below_adj: "adjacency_ok n adj \<Longrightarrow> v < n \<Longrightarrow> below n adj v = adj ! v"
  by (auto simp: below_def adjacency_ok_def filter_id_conv)

interpretation tarjan: scc_search n "below n adj" for n adj
  by unfold_locales (auto simp: below_def)

abbreviation frames_of :: "TarjanFrame list \<Rightarrow> (nat \<times> nat) list" where
  "frames_of dfs \<equiv> map (\<lambda>f. (tf_node f, next_succ f)) dfs"

abbreviation "search_ok n adj s dfs \<equiv> tarjan.state_ok n adj (\<lambda>_. True) s (frames_of dfs)"

lemma pop_until_split:
  "v \<notin> set pre \<Longrightarrow> pop_until v (pre @ v # post) on scc = (post, on - set (pre @ [v]), scc @ pre @ [v])"
  by (induction pre arbitrary: on scc) (auto simp: insert_commute Diff_insert2 [symmetric])

lemma discover_is_found:
  assumes "tarjan.state_ok n adj keep s fr" "w < n" "w \<notin> tarjan.seen s"
  shows "tarjan_discover w s = tarjan.found w s"
proof -
  have "index_counter s + 1 \<le> U32_MAX"
    using tarjan.counter_below [OF assms] assms(1) by (simp add: tarjan.state_ok_def)
  then show ?thesis by (simp add: tarjan_discover_def tarjan.found_def)
qed

lemma finish_frame_ok:
  assumes ok: "search_ok n adj s (f # dfs)" and k: "\<not> next_succ f < length (below n adj (tf_node f))"
  shows "search_ok n adj
    (finish_frame (tf_node f) (case dfs of [] \<Rightarrow> None | p # _ \<Rightarrow> Some (tf_node p)) s) dfs"
proof (cases "lowlinks s ! tf_node f = indices s ! tf_node f")
  case True
  obtain pre post where st: "stack s = pre @ tf_node f # post" "tf_node f \<notin> set pre"
    and c: "tarjan.state_ok n adj (\<lambda>_. True) (tarjan.closed_state (\<lambda>_. True) (tf_node f) pre post s) (frames_of dfs)"
    using tarjan.state_close [OF ok [simplified] k True] by blast
  let ?s1 = "s\<lparr>stack := post, on_stack := on_stack s - set (pre @ [tf_node f]),
    sccs := sccs s @ [pre @ [tf_node f]]\<rparr>"
  have s1: "tarjan.closed_state (\<lambda>_. True) (tf_node f) pre post s = ?s1"
    by (simp add: tarjan.closed_state_def)
  show ?thesis
  proof (cases dfs)
    case Nil
    then show ?thesis using c True by (simp add: finish_frame_def st(1) pop_until_split [OF st(2)] s1)
  next
    case (Cons p rest)
    have "lowlinks s ! tf_node p < lowlinks s ! tf_node f"
      using tarjan.parent_low [OF ok [unfolded Cons, simplified] True] .
    then have "finish_frame (tf_node f) (Some (tf_node p)) s = ?s1"
      using True by (simp add: finish_frame_def st(1) pop_until_split [OF st(2)] min_def)
    then show ?thesis using c Cons by (simp add: s1)
  qed
next
  case False
  obtain p j rest where fr: "frames_of dfs = (p, j) # rest"
    and r: "tarjan.state_ok n adj (\<lambda>_. True)
      (s\<lparr>lowlinks := (lowlinks s)[p := min (lowlinks s ! p) (lowlinks s ! tf_node f)]\<rparr>) (frames_of dfs)"
    using tarjan.state_retreat [OF ok [simplified] k False] by blast
  then obtain q qs where "dfs = q # qs" "tf_node q = p" by (cases dfs) auto
  then show ?thesis using r False by (simp add: finish_frame_def)
qed

lemma finish_frame_seen: "tarjan.seen (finish_frame v parent s) = tarjan.seen s"
  by (cases parent) (simp_all add: finish_frame_def tarjan.seen_def Let_def split: prod.splits)

lemma tarjan_step_ok:
  assumes adj: "adjacency_ok n adj" and ok: "search_ok n adj s (f # dfs)"
    and step: "tarjan_step adj (s, f # dfs) = (s', dfs')"
  shows "search_ok n adj s' dfs' \<and> tarjan.seen s \<subseteq> tarjan.seen s' \<and>
    tarjan.work_left n adj s' (frames_of dfs') < tarjan.work_left n adj s (frames_of (f # dfs))"
proof -
  let ?v = "tf_node f" and ?k = "next_succ f"
  have v: "?v < n"
    using ok by (auto simp: tarjan.state_ok_def tarjan.search_inv_def tarjan.ordered_def)
  have sv: "below n adj ?v = adj ! ?v" by (rule below_adj [OF adj v])
  have ok': "tarjan.state_ok n adj (\<lambda>_. True) s ((?v, ?k) # frames_of dfs)" using ok by simp
  show ?thesis
  proof (cases "?k < length (adj ! ?v)")
    case True
    let ?w = "adj ! ?v ! ?k"
    have k: "?k < length (below n adj ?v)" "below n adj ?v ! ?k = ?w" using True sv by simp_all
    have w: "?w < n" using adj v True by (auto simp: adjacency_ok_def)
    show ?thesis
    proof (cases "indices s ! ?w = U32_MAX")
      case unseen: True
      then have ns: "?w \<notin> tarjan.seen s" using tarjan.seen_iff [OF ok w] by simp
      have "s' = tarjan.found ?w s" "frames_of dfs' = (?w, 0) # (?v, Suc ?k) # frames_of dfs"
        using step True unseen discover_is_found [OF ok w ns]
        by (auto simp: step_successor_def Let_def)
      then show ?thesis
        using tarjan.state_descend [OF ok' k ns] tarjan.seen_found [OF ok w ns] by auto
    next
      case False
      then have "?w \<in> tarjan.seen s" using tarjan.seen_iff [OF ok w] by simp
      have "s' = (if ?w \<in> on_stack s
          then s\<lparr>lowlinks := (lowlinks s)[?v := min (lowlinks s ! ?v) (indices s ! ?w)]\<rparr> else s)"
          "frames_of dfs' = (?v, Suc ?k) # frames_of dfs"
        using step True False by (auto simp: step_successor_def Let_def)
      moreover from this(1) have "tarjan.seen s' = tarjan.seen s" by (simp add: tarjan.seen_def)
      ultimately show ?thesis
        using tarjan.state_skip [OF ok' k \<open>?w \<in> tarjan.seen s\<close>] by simp
    qed
  next
    case False
    then have k: "\<not> ?k < length (below n adj ?v)" by (simp add: sv)
    have s': "s' = finish_frame ?v (case dfs of [] \<Rightarrow> None | p # _ \<Rightarrow> Some (tf_node p)) s" "dfs' = dfs"
      using step False by auto
    show ?thesis
      using finish_frame_ok [OF ok k] tarjan.work_left_pop [OF finish_frame_seen]
      by (simp add: s' finish_frame_seen)
  qed
qed

lemma tarjan_from_ok:
  assumes adj: "adjacency_ok n adj" and ok: "search_ok n adj s []" and start: "start < n"
  shows "\<exists>s'. tarjan_from adj start s = Some s' \<and> search_ok n adj s' [] \<and>
    insert start (tarjan.seen s) \<subseteq> tarjan.seen s'"
proof (cases "start \<in> tarjan.seen s")
  case True
  then have "indices s ! start \<noteq> U32_MAX" using tarjan.seen_iff [OF ok start] by simp
  with True ok show ?thesis by (auto simp: tarjan_from_def)
next
  case False
  let ?init = "(tarjan_discover start s, [\<lparr>tf_node = start, next_succ = 0\<rparr>])"
  let ?P = "\<lambda>(t, dfs). search_ok n adj t dfs \<and> insert start (tarjan.seen s) \<subseteq> tarjan.seen t"
  have found: "tarjan_discover start s = tarjan.found start s"
    using discover_is_found [OF ok start False] .
  have init: "?P ?init"
    using tarjan.state_start [OF ok [simplified] start False] tarjan.seen_found [OF ok start False]
    by (auto simp: found)
  have step: "?P (tarjan_step adj x) \<and>
      tarjan.work_left n adj (fst (tarjan_step adj x)) (frames_of (snd (tarjan_step adj x))) <
      tarjan.work_left n adj (fst x) (frames_of (snd x))"
    if P: "?P x" and N: "case x of (t, dfs) \<Rightarrow> dfs \<noteq> []" for x
  proof -
    obtain t f dfs where x: "x = (t, f # dfs)" using N by (cases x) (auto simp: neq_Nil_conv)
    obtain t' dfs' where st: "tarjan_step adj x = (t', dfs')" by fastforce
    show ?thesis using tarjan_step_ok [OF adj _ st [unfolded x]] P x st by auto
  qed
  obtain r where r: "while_option (\<lambda>(t, dfs). dfs \<noteq> []) (tarjan_step adj) ?init = Some r"
    using measure_while_option_Some [where P = ?P and s = ?init
      and f = "\<lambda>x. tarjan.work_left n adj (fst x) (frames_of (snd x))", OF step init] by blast
  have "?P r" by (rule while_option_rule [OF _ r]) (use step init in auto)
  moreover have "snd r = []" using while_option_stop [OF r] by (auto split: prod.splits)
  moreover have "indices s ! start = U32_MAX" using tarjan.seen_iff [OF ok start] False by simp
  ultimately show ?thesis using r by (auto simp: tarjan_from_def split: prod.splits)
qed

lemma tarjan_fold_ok:
  assumes adj: "adjacency_ok n adj" and ok: "search_ok n adj s []" and starts: "set starts \<subseteq> {..<n}"
  shows "\<exists>s'. fold (\<lambda>start st. Option.bind st (tarjan_from adj start)) starts (Some s) = Some s' \<and>
    search_ok n adj s' [] \<and> set starts \<union> tarjan.seen s \<subseteq> tarjan.seen s'"
  using ok starts
proof (induction starts arbitrary: s)
  case (Cons v starts)
  obtain s1 where s1: "tarjan_from adj v s = Some s1" "search_ok n adj s1 []"
      "insert v (tarjan.seen s) \<subseteq> tarjan.seen s1"
    using tarjan_from_ok [OF adj Cons.prems(1), of v] Cons.prems(2) by auto
  then show ?case using Cons.IH [OF s1(2)] Cons.prems(2) by fastforce
qed auto

lemma tarjan_scc_components:
  assumes "adjacency_ok n adj" "n \<le> U32_MAX"
  shows "\<exists>cs. tarjan_scc n adj = Some cs \<and> distinct (concat cs) \<and> set (concat cs) = {..<n} \<and>
    (\<forall>c \<in> set cs. c \<noteq> [] \<and> set c = component n ((!) adj) (hd c))"
proof -
  have "search_ok n adj (tarjan_new n) []"
    using tarjan.state_ok_fresh [OF assms(2)] by (simp add: tarjan_new_def tarjan.fresh_state_def)
  from tarjan_fold_ok [OF assms(1) this, of "[0..<n]"]
  obtain s where s: "fold (\<lambda>start st. Option.bind st (tarjan_from adj start)) [0..<n] (Some (tarjan_new n)) = Some s"
      "search_ok n adj s []" "{..<n} \<subseteq> tarjan.seen s"
    by (auto simp: atLeast0LessThan)
  have "graph_rel n (below n adj) = graph_rel n ((!) adj)"
    using below_adj [OF assms(1)] by (auto simp: graph_rel_def)
  then have "component n (below n adj) v = component n ((!) adj) v" for v by (simp add: component_def)
  moreover have "tarjan.recorded n adj (\<lambda>_. True) {..<n} (sccs s)"
    using tarjan.state_ok_all_seen [OF s(2) [simplified] s(3)] .
  ultimately show ?thesis using s(1) by (auto simp: tarjan_scc_def tarjan.recorded_def)
qed

section \<open>The cycles reported\<close>

definition add_node ::
  "FileId \<Rightarrow> (FileId \<Rightarrow> nat option) \<times> FileId list \<Rightarrow> (FileId \<Rightarrow> nat option) \<times> FileId list" where
  "add_node i st = (case st of (node_index, nodes) \<Rightarrow>
     (case node_index i of
        Some _ \<Rightarrow> (node_index, nodes)
      | None \<Rightarrow> (node_index(i \<mapsto> length nodes), nodes @ [i])))"

definition build_re_export_node_index ::
  "ReExportTuple list \<Rightarrow> (FileId \<Rightarrow> nat option) \<times> FileId list" where
  "build_re_export_node_index infos =
     fold (\<lambda>e st. add_node (source e) (add_node (barrel e) st)) infos (Map.empty, [])"

definition module_path_and_display :: "FileId \<Rightarrow> ModuleNode list \<Rightarrow> path \<times> string" where
  "module_path_and_display i ms =
     (if i < length ms then (node_path (ms ! i), path_string (node_path (ms ! i)))
      else (let placeholder = ''<file id '' @ decimal i @ ''>'' in ([placeholder], placeholder)))"

definition build_self_loop_cycle :: "FileId \<Rightarrow> ModuleNode list \<Rightarrow> GraphReExportCycle" where
  "build_self_loop_cycle i ms =
     \<lparr>cycle_files = [fst (module_path_and_display i ms)], cycle_file_ids = [i], is_self_loop = True\<rparr>"

definition build_multi_node_cycle ::
  "nat list \<Rightarrow> FileId list \<Rightarrow> ModuleNode list \<Rightarrow> GraphReExportCycle" where
  "build_multi_node_cycle scc nodes ms =
     (let triples = sort_key (\<lambda>t. fst (snd t))
        (map (\<lambda>idx. case module_path_and_display (nodes ! idx) ms of (p, d) \<Rightarrow> (p, d, nodes ! idx)) scc)
      in \<lparr>cycle_files = map fst triples, cycle_file_ids = map (\<lambda>t. snd (snd t)) triples,
          is_self_loop = False\<rparr>)"

type_synonym adjacency_state =
  "nat list list \<times> (nat \<times> nat) set \<times> FileId set \<times> GraphReExportCycle list"

definition add_re_export ::
  "ModuleNode list \<Rightarrow> (FileId \<Rightarrow> nat option) \<Rightarrow> ReExportTuple \<Rightarrow> adjacency_state \<Rightarrow> adjacency_state" where
  "add_re_export ms node_index e st = (case st of (adj, seen_edge, seen_self_loop, cycles) \<Rightarrow>
     (let src = the (node_index (barrel e)); dst = the (node_index (source e))
      in if src = dst then
           (if barrel e \<in> seen_self_loop then (adj, seen_edge, seen_self_loop, cycles)
            else (adj, seen_edge, insert (barrel e) seen_self_loop,
                  cycles @ [build_self_loop_cycle (barrel e) ms]))
         else if (src, dst) \<in> seen_edge then (adj, seen_edge, seen_self_loop, cycles)
         else (adj[src := adj ! src @ [dst]], insert (src, dst) seen_edge, seen_self_loop, cycles)))"

definition build_re_export_adjacency ::
  "ReExportTuple list \<Rightarrow> (FileId \<Rightarrow> nat option) \<Rightarrow> nat \<Rightarrow> ModuleNode list \<Rightarrow>
   nat list list \<times> GraphReExportCycle list" where
  "build_re_export_adjacency infos node_index n ms =
     (case fold (add_re_export ms node_index) infos (replicate n [], {}, {}, []) of
        (adj, _, _, cycles) \<Rightarrow> (adj, cycles))"

definition find_re_export_cycles ::
  "ModuleNode list \<Rightarrow> ReExportTuple list \<Rightarrow> GraphReExportCycle list option" where
  "find_re_export_cycles ms infos =
     (case build_re_export_node_index infos of (node_index, nodes) \<Rightarrow>
        let n = length nodes in
        if n = 0 then Some []
        else
          (case build_re_export_adjacency infos node_index n ms of (adj, cycles) \<Rightarrow>
             map_option (\<lambda>cs. cycles @
                 map (\<lambda>scc. build_multi_node_cycle scc nodes ms) (filter (\<lambda>scc. \<not> length scc < 2) cs))
               (tarjan_scc n adj)))"

section \<open>They are the cycles of the re-export relation\<close>

definition re_export_rel :: "ReExportTuple list \<Rightarrow> (FileId \<times> FileId) set" where
  "re_export_rel infos = (\<lambda>e. (barrel e, source e)) ` set infos"

definition re_export_component :: "ReExportTuple list \<Rightarrow> FileId \<Rightarrow> FileId set" where
  "re_export_component infos x =
     {y. (x, y) \<in> (re_export_rel infos)\<^sup>* \<and> (y, x) \<in> (re_export_rel infos)\<^sup>*}"

definition indexes :: "(FileId \<Rightarrow> nat option) \<Rightarrow> FileId list \<Rightarrow> bool" where
  "indexes ix nodes \<longleftrightarrow> distinct nodes \<and> (\<forall>f i. ix f = Some i \<longleftrightarrow> i < length nodes \<and> nodes ! i = f)"

lemma index_of:
  assumes "indexes ix nodes" "f \<in> set nodes"
  obtains i where "ix f = Some i" "i < length nodes" "nodes ! i = f"
proof -
  obtain i where "i < length nodes" "nodes ! i = f" using assms(2) by (auto simp: in_set_conv_nth)
  moreover from this assms(1) have "ix f = Some i" by (simp add: indexes_def)
  ultimately show thesis using that by blast
qed

lemma indexes_add_node:
  assumes "indexes (fst st) (snd st)"
  shows "indexes (fst (add_node f st)) (snd (add_node f st))"
    "set (snd (add_node f st)) = insert f (set (snd st))"
    "length (snd (add_node f st)) \<le> Suc (length (snd st))"
proof -
  obtain ix nodes where st: "st = (ix, nodes)" by fastforce
  have ix: "distinct nodes" "ix g = Some i \<longleftrightarrow> i < length nodes \<and> nodes ! i = g" for g i
    using assms by (auto simp: st indexes_def)
  have None: "f \<notin> set nodes" if "ix f = None"
  proof
    assume "f \<in> set nodes"
    then obtain i where "i < length nodes" "nodes ! i = f" by (auto simp: in_set_conv_nth)
    with ix(2) that show False by (metis option.distinct(1))
  qed
  have Some: "f \<in> set nodes" if "ix f = Some i" for i using ix(2) [of f i] that by auto
  show "indexes (fst (add_node f st)) (snd (add_node f st))"
    using ix None by (auto simp: st add_node_def indexes_def nth_append less_Suc_eq split: option.splits)
  show "set (snd (add_node f st)) = insert f (set (snd st))"
    using Some by (auto simp: st add_node_def split: option.splits)
  show "length (snd (add_node f st)) \<le> Suc (length (snd st))"
    by (auto simp: st add_node_def split: option.splits)
qed

lemma node_index_fold:
  fixes infos :: "ReExportTuple list"
  assumes "indexes (fst st) (snd st)"
  defines "st' \<equiv> fold (\<lambda>e st. add_node (source e) (add_node (barrel e) st)) infos st"
  shows "indexes (fst st') (snd st') \<and>
    set (snd st') = set (snd st) \<union> barrel ` set infos \<union> source ` set infos \<and>
    length (snd st') \<le> length (snd st) + 2 * length infos"
  using assms(1) unfolding st'_def
proof (induction infos arbitrary: st)
  case (Cons e infos)
  let ?st = "add_node (source e) (add_node (barrel e) st)"
  have "indexes (fst ?st) (snd ?st)" using indexes_add_node(1) Cons.prems by blast
  moreover have "set (snd ?st) = insert (source e) (insert (barrel e) (set (snd st)))"
    using indexes_add_node Cons.prems by simp
  moreover have "length (snd ?st) \<le> length (snd st) + 2"
    using indexes_add_node(3) [OF Cons.prems, of "barrel e"]
      indexes_add_node(3) [OF indexes_add_node(1) [OF Cons.prems], of "source e" "barrel e"] by linarith
  ultimately show ?case using Cons.IH [of ?st] by auto
qed simp

lemma node_index_ok:
  assumes "build_re_export_node_index infos = (ix, nodes)"
  shows "indexes ix nodes" "set nodes = barrel ` set infos \<union> source ` set infos"
    "length nodes \<le> 2 * length infos"
  using node_index_fold [of "(Map.empty, [])" infos] assms
  by (auto simp: build_re_export_node_index_def indexes_def)

definition adjacency_inv ::
  "ModuleNode list \<Rightarrow> FileId list \<Rightarrow> ReExportTuple list \<Rightarrow> adjacency_state \<Rightarrow> bool" where
  "adjacency_inv ms nodes infos st \<longleftrightarrow> (case st of (adj, seen_edge, seen_self_loop, cycles) \<Rightarrow>
     length adj = length nodes \<and>
     seen_edge = {(i, j). i < length nodes \<and> j < length nodes \<and> i \<noteq> j \<and>
       (nodes ! i, nodes ! j) \<in> re_export_rel infos} \<and>
     (\<forall>i < length nodes. set (adj ! i) = {j. (i, j) \<in> seen_edge}) \<and>
     seen_self_loop = {f. (f, f) \<in> re_export_rel infos} \<and>
     (\<exists>fs. cycles = map (\<lambda>f. build_self_loop_cycle f ms) fs \<and> distinct fs \<and> set fs = seen_self_loop))"

lemma adjacency_inv_step:
  assumes ix: "indexes ix nodes" and e: "barrel e \<in> set nodes" "source e \<in> set nodes"
    and inv: "adjacency_inv ms nodes infos st"
  shows "adjacency_inv ms nodes (infos @ [e]) (add_re_export ms ix e st)"
proof -
  obtain adj se sl cycles where st: "st = (adj, se, sl, cycles)" by (cases st) auto
  obtain b where b: "ix (barrel e) = Some b" "b < length nodes" "nodes ! b = barrel e"
    using index_of [OF ix e(1)] .
  obtain s where s: "ix (source e) = Some s" "s < length nodes" "nodes ! s = source e"
    using index_of [OF ix e(2)] .
  have inj: "nodes ! i = nodes ! j \<longleftrightarrow> i = j" if "i < length nodes" "j < length nodes" for i j
    using ix that by (simp add: indexes_def nth_eq_iff_index_eq)
  have rel: "re_export_rel (infos @ [e]) = insert (barrel e, source e) (re_export_rel infos)"
    by (auto simp: re_export_rel_def)
  have bs: "b = s \<longleftrightarrow> barrel e = source e" using b s inj by metis
  have h: "length adj = length nodes"
    "se = {(i, j). i < length nodes \<and> j < length nodes \<and> i \<noteq> j \<and> (nodes ! i, nodes ! j) \<in> re_export_rel infos}"
    "\<forall>i < length nodes. set (adj ! i) = {j. (i, j) \<in> se}" "sl = {f. (f, f) \<in> re_export_rel infos}"
    using inv by (auto simp: adjacency_inv_def st)
  obtain fs where fs: "cycles = map (\<lambda>f. build_self_loop_cycle f ms) fs" "distinct fs" "set fs = sl"
    using inv by (auto simp: adjacency_inv_def st)
  have edge: "{(i, j). i < length nodes \<and> j < length nodes \<and> i \<noteq> j \<and>
      (nodes ! i, nodes ! j) \<in> re_export_rel (infos @ [e])} = (if b = s then se else insert (b, s) se)"
  proof -
    have "nodes ! i = barrel e \<longleftrightarrow> i = b" "nodes ! i = source e \<longleftrightarrow> i = s" if "i < length nodes" for i
      using inj that b(2,3) s(2,3) by metis+
    then show ?thesis using b(2) s(2) unfolding rel h(2) by auto
  qed
  have loop: "{f. (f, f) \<in> re_export_rel (infos @ [e])} = (if b = s then insert (barrel e) sl else sl)"
    using bs unfolding rel h(4) by auto
  show ?thesis
  proof (cases "b = s")
    case True
    show ?thesis
    proof (cases "barrel e \<in> sl")
      case in_sl: True
      then show ?thesis
        using True b s h(1,3) fs edge loop by (auto simp: st add_re_export_def adjacency_inv_def insert_absorb)
    next
      case False
      have "\<exists>gs. cycles @ [build_self_loop_cycle (barrel e) ms] = map (\<lambda>f. build_self_loop_cycle f ms) gs \<and>
          distinct gs \<and> set gs = insert (barrel e) sl"
        using fs False by (intro exI [of _ "fs @ [barrel e]"]) auto
      then show ?thesis
        using True False b s h(1,3) edge loop by (simp add: st add_re_export_def adjacency_inv_def)
    qed
  next
    case False
    have fs': "\<exists>gs. cycles = map (\<lambda>f. build_self_loop_cycle f ms) gs \<and> distinct gs \<and> set gs = sl"
      using fs by blast
    show ?thesis
    proof (cases "(b, s) \<in> se")
      case True
      then show ?thesis
        using False b s h(1,3) fs' edge loop by (simp add: st add_re_export_def adjacency_inv_def insert_absorb)
    next
      case new: False
      have "\<forall>i < length nodes. set ((adj[b := adj ! b @ [s]]) ! i) = {j. (i, j) \<in> insert (b, s) se}"
        using h(1,3) b(2) by (auto simp: nth_list_update)
      then show ?thesis
        using False new b s h(1) fs' edge loop by (simp add: st add_re_export_def adjacency_inv_def)
    qed
  qed
qed

lemma adjacency_inv_fold:
  assumes "indexes ix nodes" "barrel ` set infos \<union> source ` set infos \<subseteq> set nodes"
  shows "adjacency_inv ms nodes infos
    (fold (add_re_export ms ix) infos (replicate (length nodes) [], {}, {}, []))"
  using assms(2)
proof (induction infos rule: rev_induct)
  case Nil
  show ?case by (auto simp: adjacency_inv_def re_export_rel_def)
next
  case (snoc e infos)
  then show ?case using adjacency_inv_step [OF assms(1), of e] by auto
qed

lemma index_paths:
  assumes "indexes ix nodes" "i < length nodes" "j < length nodes"
    and rel: "\<And>i j. i < length nodes \<Longrightarrow> j \<in> set (adj ! i) \<longleftrightarrow>
      j < length nodes \<and> i \<noteq> j \<and> (nodes ! i, nodes ! j) \<in> r"
    and r: "r \<subseteq> set nodes \<times> set nodes"
  shows "(i, j) \<in> (graph_rel (length nodes) ((!) adj))\<^sup>* \<longleftrightarrow> (nodes ! i, nodes ! j) \<in> r\<^sup>*"
proof
  assume "(i, j) \<in> (graph_rel (length nodes) ((!) adj))\<^sup>*"
  then show "(nodes ! i, nodes ! j) \<in> r\<^sup>*"
    by induction (auto simp: graph_rel_def rel intro: rtrancl_into_rtrancl)
next
  assume "(nodes ! i, nodes ! j) \<in> r\<^sup>*"
  then have "\<exists>k < length nodes. nodes ! k = nodes ! j \<and> (i, k) \<in> (graph_rel (length nodes) ((!) adj))\<^sup>*"
  proof induction
    case base
    with assms(2) show ?case by blast
  next
    case (step y z)
    obtain k where k: "k < length nodes" "nodes ! k = y" "(i, k) \<in> (graph_rel (length nodes) ((!) adj))\<^sup>*"
      using step.IH by blast
    have "z \<in> set nodes" using step.hyps(2) r by auto
    then obtain l where l: "l < length nodes" "nodes ! l = z" by (auto simp: in_set_conv_nth)
    show ?case
    proof (cases "k = l")
      case False
      then have "(k, l) \<in> graph_rel (length nodes) ((!) adj)"
        using rel [OF k(1), of l] k l step.hyps(2) by (auto simp: graph_rel_def)
      with k(3) have "(i, l) \<in> (graph_rel (length nodes) ((!) adj))\<^sup>*" by (rule rtrancl_into_rtrancl)
      with l show ?thesis by blast
    qed (use k l in blast)
  qed
  then show "(i, j) \<in> (graph_rel (length nodes) ((!) adj))\<^sup>*"
    using assms(1,3) by (auto simp: indexes_def nth_eq_iff_index_eq)
qed

definition multi_cycles :: "GraphReExportCycle list \<Rightarrow> GraphReExportCycle list" where
  "multi_cycles cs = filter (\<lambda>c. \<not> is_self_loop c) cs"

definition self_loops :: "GraphReExportCycle list \<Rightarrow> GraphReExportCycle list" where
  "self_loops cs = filter is_self_loop cs"

definition cycle_paths_ok :: "ModuleNode list \<Rightarrow> GraphReExportCycle \<Rightarrow> bool" where
  "cycle_paths_ok ms c \<longleftrightarrow>
     cycle_files c = map (\<lambda>f. fst (module_path_and_display f ms)) (cycle_file_ids c) \<and>
     sorted (map (\<lambda>f. snd (module_path_and_display f ms)) (cycle_file_ids c))"

lemma multi_node_cycle:
  "mset (cycle_file_ids (build_multi_node_cycle scc nodes ms)) = mset (map ((!) nodes) scc)"
  "\<not> is_self_loop (build_multi_node_cycle scc nodes ms)"
  "cycle_paths_ok ms (build_multi_node_cycle scc nodes ms)"
proof -
  let ?f = "\<lambda>idx. case module_path_and_display (nodes ! idx) ms of (p, d) \<Rightarrow> (p, d, nodes ! idx)"
  let ?t = "sort_key (\<lambda>t. fst (snd t)) (map ?f scc)"
  have t: "fst t = fst (module_path_and_display (snd (snd t)) ms) \<and>
      fst (snd t) = snd (module_path_and_display (snd (snd t)) ms)" if "t \<in> set ?t" for t
    using that by (auto split: prod.splits)
  have "mset (map (\<lambda>t. snd (snd t)) ?t) = mset (map (\<lambda>t. snd (snd t)) (map ?f scc))"
    by (simp only: mset_map mset_sort)
  also have "map (\<lambda>t. snd (snd t)) (map ?f scc) = map ((!) nodes) scc" by (auto split: prod.splits)
  finally show "mset (cycle_file_ids (build_multi_node_cycle scc nodes ms)) = mset (map ((!) nodes) scc)"
    by (simp only: build_multi_node_cycle_def Let_def GraphReExportCycle.simps)
  show "\<not> is_self_loop (build_multi_node_cycle scc nodes ms)"
    by (simp add: build_multi_node_cycle_def Let_def)
  have 1: "map fst ?t = map (\<lambda>f. fst (module_path_and_display f ms)) (map (\<lambda>t. snd (snd t)) ?t)"
    using t by (simp del: set_sort)
  have 2: "map (\<lambda>f. snd (module_path_and_display f ms)) (map (\<lambda>t. snd (snd t)) ?t) = map (\<lambda>t. fst (snd t)) ?t"
    using t by (simp del: set_sort)
  show "cycle_paths_ok ms (build_multi_node_cycle scc nodes ms)"
    by (simp only: cycle_paths_ok_def build_multi_node_cycle_def Let_def GraphReExportCycle.simps
        1 2 sorted_sort_key simp_thms)
qed

lemma self_loop_cycle:
  "cycle_file_ids (build_self_loop_cycle f ms) = [f]" "is_self_loop (build_self_loop_cycle f ms)"
  "cycle_paths_ok ms (build_self_loop_cycle f ms)"
  by (simp_all add: build_self_loop_cycle_def cycle_paths_ok_def)

lemma find_re_export_cycles_facts:
  assumes small: "2 * length infos \<le> U32_MAX"
  obtains cs fs sccs nodes where "find_re_export_cycles ms infos = Some cs"
    "cs = map (\<lambda>f. build_self_loop_cycle f ms) fs @ map (\<lambda>scc. build_multi_node_cycle scc nodes ms) sccs"
    "distinct fs" "set fs = {f. (f, f) \<in> re_export_rel infos}"
    "distinct (concat (map (map ((!) nodes)) sccs))"
    "(\<lambda>scc. (!) nodes ` set scc) ` set sccs = {C. (\<exists>x. C = re_export_component infos x) \<and> 2 \<le> card C}"
proof -
  obtain ix nodes where nx: "build_re_export_node_index infos = (ix, nodes)" by fastforce
  note ok = node_index_ok [OF nx]
  let ?n = "length nodes" and ?r = "re_export_rel infos"
  have r: "?r \<subseteq> set nodes \<times> set nodes" using ok(2) by (auto simp: re_export_rel_def)
  obtain adj se sl cycles where f: "fold (add_re_export ms ix) infos (replicate ?n [], {}, {}, []) = (adj, se, sl, cycles)"
    by (metis prod_cases4)
  have inv: "adjacency_inv ms nodes infos (adj, se, sl, cycles)"
    using adjacency_inv_fold [OF ok(1), of infos ms] ok(2) f by simp
  then obtain fs where fs: "cycles = map (\<lambda>f. build_self_loop_cycle f ms) fs" "distinct fs"
      "set fs = {f. (f, f) \<in> ?r}" by (auto simp: adjacency_inv_def)
  have rel: "j \<in> set (adj ! i) \<longleftrightarrow> j < ?n \<and> i \<noteq> j \<and> (nodes ! i, nodes ! j) \<in> ?r" if "i < ?n" for i j
    using inv that by (auto simp: adjacency_inv_def)
  have adj: "adjacency_ok ?n adj" using inv rel by (auto simp: adjacency_inv_def adjacency_ok_def)
  have "?n \<le> U32_MAX" using ok(3) small by simp
  from tarjan_scc_components [OF adj this]
  obtain cs where cs: "tarjan_scc ?n adj = Some cs" "distinct (concat cs)" "set (concat cs) = {..<?n}"
      "\<forall>c \<in> set cs. c \<noteq> [] \<and> set c = component ?n ((!) adj) (hd c)"
    by (elim exE conjE)
  note comp_hd = bspec [OF cs(4)]
  have below: "i < ?n" if "c \<in> set cs" "i \<in> set c" for c i using cs(3) that by auto
  have comp: "(!) nodes ` set c = re_export_component infos (nodes ! i)" if c: "c \<in> set cs" "i \<in> set c" for c i
  proof -
    have i: "i < ?n" using below c by blast
    have hd: "hd c < ?n" using below [OF c(1)] comp_hd [OF c(1)] by simp
    have sc: "set c = component ?n ((!) adj) i"
      using comp_hd [OF c(1)] c(2) component_eq [of i ?n "(!) adj" "hd c"] by simp
    note paths = index_paths [OF ok(1) _ _ rel r]
    show ?thesis
    proof (intro equalityI subsetI)
      fix y assume "y \<in> (!) nodes ` set c"
      then obtain j where j: "j \<in> set c" "y = nodes ! j" by auto
      then have "j < ?n" using below c(1) by blast
      then show "y \<in> re_export_component infos (nodes ! i)"
        using j paths [OF i \<open>j < ?n\<close>] paths [OF \<open>j < ?n\<close> i]
        unfolding sc by (simp add: component_def re_export_component_def)
    next
      fix y assume "y \<in> re_export_component infos (nodes ! i)"
      then have y: "(nodes ! i, y) \<in> ?r\<^sup>*" "(y, nodes ! i) \<in> ?r\<^sup>*" by (simp_all add: re_export_component_def)
      from y(1) have "y \<in> set nodes" by induction (use r i in auto)
      then obtain j where j: "j < ?n" "nodes ! j = y" by (auto simp: in_set_conv_nth)
      then have "j \<in> component ?n ((!) adj) i"
        using y paths [OF i j(1)] paths [OF j(1) i] by (simp add: component_def)
      then show "y \<in> (!) nodes ` set c" using sc j(2) by auto
    qed
  qed
  let ?big = "filter (\<lambda>scc. \<not> length scc < 2) cs"
  have inj: "inj_on ((!) nodes) {..<?n}" using ok(1) by (auto simp: indexes_def inj_on_def nth_eq_iff_index_eq)
  have card: "card ((!) nodes ` set c) = length c" if "c \<in> set cs" for c
  proof -
    have "distinct c" using cs(2) that by (auto simp: distinct_concat_iff)
    moreover have "inj_on ((!) nodes) (set c)" using inj below [OF that] by (auto intro: inj_on_subset)
    ultimately show ?thesis by (simp add: card_image distinct_card)
  qed
  have "distinct (concat ?big)" using cs(2) by (induction cs) auto
  then have "distinct (map ((!) nodes) (concat ?big))"
    unfolding distinct_map using below by (auto intro!: inj_on_subset [OF inj])
  then have d: "distinct (concat (map (map ((!) nodes)) ?big))" by (simp add: map_concat)
  have B: "(\<lambda>scc. (!) nodes ` set scc) ` set ?big = {C. (\<exists>x. C = re_export_component infos x) \<and> 2 \<le> card C}"
  proof (intro equalityI subsetI)
    fix C assume "C \<in> (\<lambda>scc. (!) nodes ` set scc) ` set ?big"
    then obtain c where c: "c \<in> set cs" "2 \<le> length c" "C = (!) nodes ` set c" by auto
    then have "hd c \<in> set c" using comp_hd by auto
    then show "C \<in> {C. (\<exists>x. C = re_export_component infos x) \<and> 2 \<le> card C}"
      using comp [OF c(1)] card [OF c(1)] c by auto
  next
    fix C assume "C \<in> {C. (\<exists>x. C = re_export_component infos x) \<and> 2 \<le> card C}"
    then obtain x where x: "C = re_export_component infos x" "2 \<le> card C" by blast
    have "x \<in> set nodes"
    proof (rule ccontr)
      assume "x \<notin> set nodes"
      have "y = x" if "(x, y) \<in> ?r\<^sup>*" for y
        using that by (rule converse_rtranclE) (use r \<open>x \<notin> set nodes\<close> in auto)
      then have "C \<subseteq> {x}" using x(1) by (auto simp: re_export_component_def)
      then have "card C \<le> card {x}" by (intro card_mono) auto
      with x(2) show False by simp
    qed
    then obtain i where i: "i < ?n" "nodes ! i = x" by (auto simp: in_set_conv_nth)
    then obtain c where c: "c \<in> set cs" "i \<in> set c" using cs(3) by auto
    then have "C = (!) nodes ` set c" using comp [OF c] i x(1) by simp
    moreover from this have "\<not> length c < 2" using card [OF c(1)] x(2) by simp
    ultimately show "C \<in> (\<lambda>scc. (!) nodes ` set scc) ` set ?big" using c(1) by auto
  qed
  have A: "find_re_export_cycles ms infos =
      Some (map (\<lambda>f. build_self_loop_cycle f ms) fs @ map (\<lambda>scc. build_multi_node_cycle scc nodes ms) ?big)"
  proof (cases "nodes = []")
    case True
    then have "set fs = {}" using r fs(3) by auto
    moreover have "set c = {}" if "c \<in> set cs" for c using cs(3) True that by auto
    then have "cs = []" using comp_hd by (cases cs) auto
    ultimately have "fs = []" "cs = []" by simp_all
    with True show ?thesis by (simp add: find_re_export_cycles_def nx)
  next
    case False
    then show ?thesis
      by (simp add: find_re_export_cycles_def nx build_re_export_adjacency_def f fs(1) cs(1))
  qed
  show thesis by (rule that [OF A refl fs(2,3) d B])
qed

text \<open>
  C18. The search for re-export cycles ends and reports, for at most \<open>U32_MAX\<close> modules, exactly the
  cycles of the re-export graph: one self loop for every module that re-exports from itself, and
  one cycle for every strongly connected component of at least two modules, with exactly its
  members. No module is in two of the latter, and the files of a cycle are listed in the order of
  their paths, parallel to the identifiers.
\<close>

theorem re_export_cycles_are_the_components:
  assumes "2 * length infos \<le> U32_MAX"
  shows "\<exists>cs. find_re_export_cycles ms infos = Some cs \<and>
    set (map cycle_file_ids (self_loops cs)) = {[f] |f. (f, f) \<in> re_export_rel infos} \<and>
    distinct (map cycle_file_ids (self_loops cs)) \<and>
    set (map (set \<circ> cycle_file_ids) (multi_cycles cs)) =
      {C. (\<exists>x. C = re_export_component infos x) \<and> 2 \<le> card C} \<and>
    distinct (concat (map cycle_file_ids (multi_cycles cs))) \<and>
    list_all (cycle_paths_ok ms) cs"
proof -
  obtain cs fs sccs nodes where f: "find_re_export_cycles ms infos = Some cs"
    "cs = map (\<lambda>f. build_self_loop_cycle f ms) fs @ map (\<lambda>scc. build_multi_node_cycle scc nodes ms) sccs"
    "distinct fs" "set fs = {f. (f, f) \<in> re_export_rel infos}"
    "distinct (concat (map (map ((!) nodes)) sccs))"
    "(\<lambda>scc. (!) nodes ` set scc) ` set sccs = {C. (\<exists>x. C = re_export_component infos x) \<and> 2 \<le> card C}"
    using find_re_export_cycles_facts [OF assms] .
  let ?m = "\<lambda>scc. build_multi_node_cycle scc nodes ms"
  have loops: "self_loops cs = map (\<lambda>f. build_self_loop_cycle f ms) fs"
    by (simp add: f(2) self_loops_def self_loop_cycle multi_node_cycle filter_map comp_def)
  have multi: "multi_cycles cs = map ?m sccs"
    by (simp add: f(2) multi_cycles_def self_loop_cycle multi_node_cycle filter_map comp_def)
  have ids: "map cycle_file_ids (self_loops cs) = map (\<lambda>f. [f]) fs"
    by (simp add: loops self_loop_cycle)
  have set_ids: "set (cycle_file_ids (?m scc)) = (!) nodes ` set scc" for scc
    using multi_node_cycle(1) [of scc nodes ms] by (metis list.set_map mset_eq_setD)
  have "mset (concat (map cycle_file_ids (map ?m ss))) = mset (concat (map (map ((!) nodes)) ss))" for ss
    by (induction ss) (simp_all add: multi_node_cycle(1))
  then have "distinct (concat (map cycle_file_ids (multi_cycles cs)))"
    using f(5) multi by (metis mset_eq_imp_distinct_iff)
  moreover have "set (map (set \<circ> cycle_file_ids) (multi_cycles cs)) =
      {C. (\<exists>x. C = re_export_component infos x) \<and> 2 \<le> card C}"
    using f(6) by (simp add: multi set_ids image_image)
  moreover have "distinct (map cycle_file_ids (self_loops cs))"
    unfolding ids using f(3) by (simp add: distinct_map inj_on_def)
  moreover have "set (map cycle_file_ids (self_loops cs)) = {[f] |f. (f, f) \<in> re_export_rel infos}"
    unfolding ids using f(4) by auto
  moreover have "list_all (cycle_paths_ok ms) cs"
    by (auto simp: f(2) list_all_iff self_loop_cycle multi_node_cycle)
  ultimately show ?thesis using f(1) by blast
qed

definition sample_re_exports :: "ReExportTuple list" where
  "sample_re_exports = map (\<lambda>(b, s). \<lparr>barrel = b, source = s, rt_imported_name = ''*'',
     rt_exported_name = ''*'', rt_is_type_only = False\<rparr>) [(4, 7), (7, 4), (7, 7), (7, 9)]"

theorem re_export_cycles_are_the_components_witness:
  "\<exists>cs. find_re_export_cycles [] sample_re_exports = Some cs \<and>
     set (map cycle_file_ids (self_loops cs)) = {[7]}"
proof -
  have "2 * length sample_re_exports \<le> U32_MAX" by (simp add: sample_re_exports_def U32_MAX_def)
  from re_export_cycles_are_the_components [OF this, of "[]"]
  obtain cs where "find_re_export_cycles [] sample_re_exports = Some cs"
    "set (map cycle_file_ids (self_loops cs)) = {[f] |f. (f, f) \<in> re_export_rel sample_re_exports}"
    by (elim exE conjE)
  moreover have "{[f] |f. (f, f) \<in> re_export_rel sample_re_exports} = {[7]}"
    by (auto simp: re_export_rel_def sample_re_exports_def)
  ultimately show ?thesis by metis
qed

end
