(* ===== verification/Fixpoint_Passes.thy ===== *)
theory Fixpoint_Passes
  imports Main
begin

text \<open>
  The loop of a propagation that runs over a list of entries again and again until a pass changes
  nothing or a cap on the number of passes is reached. Every entry is a step on the state that
  says whether it changed anything. The locale states what such a loop keeps and what holds of
  its state when it stopped because nothing changed.
\<close>

definition run_pass :: "('e \<Rightarrow> 's \<Rightarrow> 's \<times> bool) \<Rightarrow> 'e list \<Rightarrow> 's \<Rightarrow> 's \<times> bool" where
  "run_pass step es s =
     fold (\<lambda>e (s, changed). case step e s of (s', c) \<Rightarrow> (s', changed \<or> c)) es (s, False)"

fun run_passes :: "('e \<Rightarrow> 's \<Rightarrow> 's \<times> bool) \<Rightarrow> 'e list \<Rightarrow> nat \<Rightarrow> bool \<Rightarrow> 's \<Rightarrow> 's \<times> bool" where
  "run_passes step es 0 changed s = (s, changed)"
| "run_passes step es (Suc n) changed s =
     (if changed then (case run_pass step es s of (s', c) \<Rightarrow> run_passes step es n c s') else (s, False))"

locale propagation =
  fixes step :: "'e \<Rightarrow> 's \<Rightarrow> 's \<times> bool" and grows :: "'s \<Rightarrow> 's \<Rightarrow> bool"
  assumes grows_refl: "grows s s"
    and grows_trans: "grows s t \<Longrightarrow> grows t u \<Longrightarrow> grows s u"
    and step_grows: "grows s (fst (step e s))"
    and step_unchanged: "\<not> snd (step e s) \<Longrightarrow> fst (step e s) = s"
begin

lemma fold_grows:
  "grows s (fst (fold (\<lambda>e (s, changed). case step e s of (s', c) \<Rightarrow> (s', changed \<or> c)) es (s, ch)))"
proof (induction es arbitrary: s ch)
  case (Cons e es)
  obtain s' c where e: "step e s = (s', c)" by fastforce
  then have "grows s s'" using step_grows [of s e] by simp
  then show ?case using Cons.IH [of s' "ch \<or> c"] e grows_trans by simp
qed (simp add: grows_refl)

lemma fold_unchanged:
  "\<not> snd (fold (\<lambda>e (s, changed). case step e s of (s', c) \<Rightarrow> (s', changed \<or> c)) es (s, ch)) \<Longrightarrow>
   \<not> ch \<and> fst (fold (\<lambda>e (s, changed). case step e s of (s', c) \<Rightarrow> (s', changed \<or> c)) es (s, ch)) = s \<and>
   (\<forall>e \<in> set es. step e s = (s, False))"
proof (induction es arbitrary: s ch)
  case (Cons e es)
  obtain s' c where e: "step e s = (s', c)" by fastforce
  have 1: "\<not> (ch \<or> c)" "\<forall>e \<in> set es. step e s' = (s', False)"
      "fst (fold (\<lambda>e (s, changed). case step e s of (s', c) \<Rightarrow> (s', changed \<or> c)) es (s', ch \<or> c)) = s'"
    using Cons.IH [of s' "ch \<or> c"] Cons.prems e by auto
  then have "s' = s" using step_unchanged [of e s] e by simp
  with 1 e show ?case by simp
qed simp

lemma run_pass_grows: "grows s (fst (run_pass step es s))"
  using fold_grows by (simp add: run_pass_def)

lemma run_pass_unchanged:
  "run_pass step es s = (s', False) \<Longrightarrow> s' = s \<and> (\<forall>e \<in> set es. step e s = (s, False))"
  using fold_unchanged [of es s False] by (simp add: run_pass_def)

lemma run_pass_quiet:
  assumes "\<not> snd (run_pass step es s)"
  shows "fst (run_pass step es s) = s" "e \<in> set es \<Longrightarrow> step e s = (s, False)"
  using run_pass_unchanged [of es s "fst (run_pass step es s)"] assms by (simp_all add: prod_eq_iff)

lemma run_passes_grows: "grows s (fst (run_passes step es n changed s))"
proof (induction n arbitrary: changed s)
  case (Suc n)
  obtain s' c where p: "run_pass step es s = (s', c)" by fastforce
  then have "grows s s'" using run_pass_grows [of s es] by simp
  then have "grows s (fst (run_passes step es n c s'))" using Suc.IH by (rule grows_trans)
  then show ?case using p grows_refl by simp
qed (simp add: grows_refl)

text \<open>A loop that stops below its cap has reached a state no entry changes.\<close>

lemma run_passes_stable:
  "run_passes step es n True s = (t, False) \<Longrightarrow> \<forall>e \<in> set es. step e t = (t, False)"
proof (induction n arbitrary: s)
  case (Suc n)
  obtain s' c where p: "run_pass step es s = (s', c)" by fastforce
  show ?case
  proof (cases c)
    case True
    then have "run_passes step es n True s' = (t, False)" using Suc.prems p by simp
    then show ?thesis by (rule Suc.IH)
  next
    case False
    then have "t = s'" using Suc.prems p by (cases n) simp_all
    moreover have "run_pass step es s = (s', False)" using p False by simp
    ultimately show ?thesis using run_pass_unchanged [of es s s'] by simp
  qed
qed simp

end

text \<open>
  A propagation whose entries have ranks: an entry that was run changes nothing until an entry of
  a smaller rank runs. Then the number of ranks bounds the number of passes that change anything.
  The contract holds for the states that satisfy an invariant.
\<close>

locale ranked_propagation = propagation +
  fixes inv :: "'s \<Rightarrow> bool" and entries :: "'e set" and rank :: "'e \<Rightarrow> nat"
  assumes inv_step: "inv s \<Longrightarrow> inv (fst (step e s))"
    and settles: "inv s \<Longrightarrow> e \<in> entries \<Longrightarrow> \<not> snd (step e (fst (step e s)))"
    and keeps: "inv s \<Longrightarrow> e \<in> entries \<Longrightarrow> e' \<in> entries \<Longrightarrow> rank e \<le> rank e' \<Longrightarrow> \<not> snd (step e s) \<Longrightarrow>
      \<not> snd (step e (fst (step e' s)))"
begin

definition quiet_below :: "nat \<Rightarrow> 's \<Rightarrow> bool" where
  "quiet_below d s \<longleftrightarrow> inv s \<and> (\<forall>e \<in> entries. rank e < d \<longrightarrow> \<not> snd (step e s))"

lemma quiet_below_step:
  assumes "quiet_below d s" "e \<in> entries"
  shows "quiet_below d (fst (step e s))"
    and "\<forall>x \<in> entries. rank x \<le> d \<and> \<not> snd (step x s) \<longrightarrow> \<not> snd (step x (fst (step e s)))"
    and "rank e \<le> d \<Longrightarrow> \<not> snd (step e (fst (step e s)))"
proof -
  have i: "inv s" using assms(1) by (simp add: quiet_below_def)
  show k: "\<forall>x \<in> entries. rank x \<le> d \<and> \<not> snd (step x s) \<longrightarrow> \<not> snd (step x (fst (step e s)))"
  proof (cases "rank e < d")
    case True
    then have "fst (step e s) = s" using assms step_unchanged by (simp add: quiet_below_def)
    then show ?thesis by simp
  next
    case False
    then show ?thesis using keeps [OF i _ assms(2)] by auto
  qed
  then show "quiet_below d (fst (step e s))"
    using assms(1) inv_step [OF i] by (auto simp: quiet_below_def)
  show "rank e \<le> d \<Longrightarrow> \<not> snd (step e (fst (step e s)))" using settles [OF i assms(2)] .
qed

lemma fold_quiet:
  assumes "quiet_below d s" "set es \<subseteq> entries"
    and t: "t = fst (fold (\<lambda>e (s, changed). case step e s of (s', c) \<Rightarrow> (s', changed \<or> c)) es (s, ch))"
  shows "quiet_below d t \<and> (\<forall>x \<in> entries. rank x \<le> d \<and> (x \<in> set es \<or> \<not> snd (step x s)) \<longrightarrow> \<not> snd (step x t))"
  using assms(1,2) unfolding t
proof (induction es arbitrary: s ch)
  case (Cons e es)
  have e: "e \<in> entries" using Cons.prems(2) by simp
  note q = quiet_below_step [OF Cons.prems(1) e]
  let ?t = "fst (fold (\<lambda>e (s, changed). case step e s of (s', c) \<Rightarrow> (s', changed \<or> c)) es (fst (step e s), ch \<or> snd (step e s)))"
  have IH: "quiet_below d ?t \<and>
      (\<forall>x \<in> entries. rank x \<le> d \<and> (x \<in> set es \<or> \<not> snd (step x (fst (step e s)))) \<longrightarrow> \<not> snd (step x ?t))"
    using Cons.IH [OF q(1)] Cons.prems(2) by simp
  moreover have "fst (fold (\<lambda>e (s, changed). case step e s of (s', c) \<Rightarrow> (s', changed \<or> c)) (e # es) (s, ch)) = ?t"
    by (simp add: case_prod_beta)
  ultimately show ?case using q(2,3) by auto
qed simp

lemma run_pass_quiets:
  "quiet_below d s \<Longrightarrow> set es = entries \<Longrightarrow> quiet_below (Suc d) (fst (run_pass step es s))"
  using fold_quiet [of d s es _ False, OF _ _ refl] unfolding run_pass_def quiet_below_def by (auto simp: less_Suc_eq_le)

lemma run_pass_settles:
  "quiet_below d s \<Longrightarrow> set es \<subseteq> entries \<Longrightarrow> x \<in> set es \<Longrightarrow> rank x \<le> d \<Longrightarrow>
   \<not> snd (step x (fst (run_pass step es s)))"
  using fold_quiet [of d s es _ False, OF _ _ refl] unfolding run_pass_def by blast

lemma quiet_pass:
  assumes "\<forall>e \<in> set es. \<not> snd (step e s)"
  shows "run_pass step es s = (s, False)"
proof -
  have "fold (\<lambda>e (s, changed). case step e s of (s', c) \<Rightarrow> (s', changed \<or> c)) es (s, False) = (s, False)"
    using assms
  proof (induction es)
    case (Cons e es)
    then have "step e s = (s, False)" using step_unchanged [of e s] by (simp add: prod_eq_iff)
    then show ?case using Cons by simp
  qed simp
  then show ?thesis by (simp add: run_pass_def)
qed

lemma run_passes_settle:
  assumes "quiet_below d s" "set es = entries" "\<forall>e \<in> entries. rank e < d + n"
  shows "\<not> snd (run_passes step es (Suc n) changed s)"
  using assms
proof (induction n arbitrary: d s changed)
  case 0
  then have "run_pass step es s = (s, False)" by (intro quiet_pass) (simp add: quiet_below_def)
  then show ?case by simp
next
  case (Suc n)
  obtain s' c where p: "run_pass step es s = (s', c)" by fastforce
  then have "quiet_below (Suc d) s'" using run_pass_quiets [OF Suc.prems(1,2)] by simp
  from Suc.IH [OF this Suc.prems(2)] Suc.prems(3) have "\<not> snd (run_passes step es (Suc n) c s')" by simp
  then show ?case using p by simp
qed

end

end
