(* ===== verification/Re_Exports.thy ===== *)
theory Re_Exports
  imports Re_Export_Cycles Reachability Fixpoint_Passes Module_Growth "HOL-Library.AList"
begin

text \<open>
  Re-export chains (\<^verbatim>\<open>graph/src/graph/re_exports/mod.rs\<close> and
  \<^verbatim>\<open>graph/src/graph/re_exports/propagate.rs\<close>): a reference to an export of a barrel is also
  attached to the export the barrel forwards, edge by edge, until a pass over all re-export edges
  changes nothing or the cap of the loop is reached.

  The modules that change and the set of synthetic stubs are the state of a propagation step. The
  order in which an \<^verbatim>\<open>FxHashMap\<close> of references by name is visited is the parameter \<open>order\<close>.
\<close>

section \<open>The references that pass through a star re-export\<close>

type_synonym ref_map = "(string \<times> SymbolReference list) list"
type_synonym propagation_state = "ModuleNode list \<times> (FileId \<times> string) set"

definition build_edges_by_target :: "Edge list \<Rightarrow> FileId \<Rightarrow> nat list option" where
  "build_edges_by_target es =
     fold (\<lambda>(idx, e) m. m(edge_target e \<mapsto> (case m (edge_target e) of None \<Rightarrow> [] | Some ix \<Rightarrow> ix) @ [idx]))
       (enumerate 0 es) Map.empty"

definition named_reference :: "Edge \<Rightarrow> ImportedSymbol \<Rightarrow> (string \<times> SymbolReference) option" where
  "named_reference e s =
     (case imported_name s of
        ImpNamed n \<Rightarrow> Some (n, \<lparr>from_file = edge_source e, ref_kind = NamedImport, ref_span = import_span s\<rparr>)
      | _ \<Rightarrow> None)"

definition add_refs :: "string \<Rightarrow> SymbolReference list \<Rightarrow> ref_map \<Rightarrow> ref_map" where
  "add_refs name rs m = AList.update name ((case map_of m name of None \<Rightarrow> [] | Some old \<Rightarrow> old) @ rs) m"

definition collect_star_refs_by_name ::
  "ModuleNode list \<Rightarrow> Edge list \<Rightarrow> (FileId \<Rightarrow> nat list option) \<Rightarrow> FileId \<Rightarrow> nat \<Rightarrow> ref_map" where
  "collect_star_refs_by_name ms es edges_by_target barrel_file_id barrel_idx =
     (let named_refs =
            (case edges_by_target barrel_file_id of
               None \<Rightarrow> []
             | Some idxs \<Rightarrow> concat (map (\<lambda>idx.
                 List.map_filter (named_reference (es ! idx)) (symbols (es ! idx))) idxs));
          barrel_refs =
            map (\<lambda>e. (export_display (export_name e), references e))
              (filter (\<lambda>e. references e \<noteq> []) (exports (ms ! barrel_idx)));
          refs_by_name = fold (\<lambda>(name, r) m. add_refs name [r] m) named_refs []
      in fold (\<lambda>(name, rs) m. add_refs name rs m) barrel_refs refs_by_name)"

text \<open>The references whose file is new, the first one of each file.\<close>

fun new_refs :: "FileId set \<Rightarrow> SymbolReference list \<Rightarrow> SymbolReference list" where
  "new_refs existing_files [] = []"
| "new_refs existing_files (r # rs) =
     (if from_file r \<in> existing_files then new_refs existing_files rs
      else r # new_refs (insert (from_file r) existing_files) rs)"

definition star_stub :: "string \<Rightarrow> bool \<Rightarrow> SymbolReference list \<Rightarrow> ExportSymbol" where
  "star_stub name type_only rs =
     \<lparr>export_name = export_name_of name, exp_is_type_only = type_only, is_side_effect_used = False,
      visibility = VisNone, expected_unused_reason = None, export_span = \<lparr>span_begin = 0, span_end = 0\<rparr>,
      references = rs, members = []\<rparr>"

definition apply_star_refs_to_source ::
  "FileId \<Rightarrow> bool \<Rightarrow> bool \<Rightarrow> string \<times> SymbolReference list \<Rightarrow> ModuleNode \<times> (FileId \<times> string) set \<Rightarrow>
   (ModuleNode \<times> (FileId \<times> string) set) \<times> bool" where
  "apply_star_refs_to_source source_id triggering_is_type_only source_has_star nrs st =
     (case nrs of (name, rs) \<Rightarrow> case st of (src, stubs) \<Rightarrow>
        (case first_index (\<lambda>e. export_name e = export_name_of name) (exports src) of
           Some i \<Rightarrow>
             (let e = exports src ! i;
                  retype = \<not> triggering_is_type_only \<and> exp_is_type_only e \<and> (source_id, name) \<in> stubs;
                  e = (if retype then e\<lparr>exp_is_type_only := False\<rparr> else e);
                  added = new_refs (files_of (references e)) rs
              in ((src\<lparr>exports := (exports src)[i := e\<lparr>references := references e @ added\<rparr>]\<rparr>, stubs),
                  retype \<or> added \<noteq> []))
         | None \<Rightarrow>
             if source_has_star
             then ((src\<lparr>exports := exports src @ [star_stub name triggering_is_type_only rs]\<rparr>,
                    insert (source_id, name) stubs), True)
             else (st, False)))"

section \<open>One re-export edge\<close>

definition barrel_ref :: "FileId \<Rightarrow> SymbolReference" where
  "barrel_ref f = \<lparr>from_file = f, ref_kind = ReExport, ref_span = \<lparr>span_begin = 0, span_end = 0\<rparr>\<rparr>"

definition credit_barrel :: "FileId \<Rightarrow> ExportSymbol \<Rightarrow> ExportSymbol" where
  "credit_barrel barrel_id e =
     (if \<forall>r \<in> set (references e). from_file r \<noteq> barrel_id
      then e\<lparr>references := references e @ [barrel_ref barrel_id]\<rparr> else e)"

definition credit_exports ::
  "(ExportSymbol \<Rightarrow> bool) \<Rightarrow> FileId \<Rightarrow> nat \<Rightarrow> propagation_state \<Rightarrow> propagation_state \<times> bool" where
  "credit_exports p barrel_id source_idx st =
     (case st of (ms, stubs) \<Rightarrow>
        let src = ms ! source_idx
        in ((ms[source_idx := src\<lparr>exports := map (\<lambda>e. if p e then credit_barrel barrel_id e else e) (exports src)\<rparr>], stubs),
            \<exists>e \<in> set (exports src). p e \<and> barrel_id \<notin> files_of (references e)))"

definition propagate_entry_point_star :: "FileId \<Rightarrow> nat \<Rightarrow> propagation_state \<Rightarrow> propagation_state \<times> bool" where
  "propagate_entry_point_star barrel_id source_idx st =
     credit_exports (\<lambda>e. export_name e \<noteq> ExpDefault) barrel_id source_idx st"

definition propagate_entry_point_named ::
  "FileId \<Rightarrow> nat \<Rightarrow> string \<Rightarrow> propagation_state \<Rightarrow> propagation_state \<times> bool" where
  "propagate_entry_point_named barrel_id source_idx imported st =
     credit_exports (\<lambda>e. matches_str (export_name e) imported) barrel_id source_idx st"

definition propagate_star_re_export ::
  "(ref_map \<Rightarrow> ref_map) \<Rightarrow> Edge list \<Rightarrow> (FileId \<Rightarrow> nat list option) \<Rightarrow> FileId set \<Rightarrow> ReExportTuple \<Rightarrow>
   propagation_state \<Rightarrow> propagation_state \<times> bool" where
  "propagate_star_re_export order es edges_by_target entry_star_targets entry st =
     (case st of (ms, stubs) \<Rightarrow>
        if is_entry_point (ms ! barrel entry) \<or> file_id (ms ! barrel entry) \<in> entry_star_targets
        then propagate_entry_point_star (barrel entry) (source entry) st
        else
          (let refs_by_name = collect_star_refs_by_name ms es edges_by_target
                 (file_id (ms ! barrel entry)) (barrel entry);
               src = ms ! source entry
           in case run_pass (apply_star_refs_to_source (source entry) (rt_is_type_only entry) (has_star src))
                     (order refs_by_name) (src, stubs) of
                ((src', stubs'), changed) \<Rightarrow> ((ms[source entry := src'], stubs'), changed)))"

definition propagate_named_re_export :: "ReExportTuple \<Rightarrow> propagation_state \<Rightarrow> propagation_state \<times> bool" where
  "propagate_named_re_export entry st =
     (case st of (ms, stubs) \<Rightarrow>
        let refs_on_barrel = concat (map references
              (filter (\<lambda>e. matches_str (export_name e) (rt_exported_name entry)) (exports (ms ! barrel entry))))
        in if refs_on_barrel = [] then
             (if is_entry_point (ms ! barrel entry)
              then propagate_entry_point_named (barrel entry) (source entry) (rt_imported_name entry) st
              else (st, False))
           else
             (let src = ms ! source entry;
                  missing = (\<lambda>e. filter (\<lambda>r. from_file r \<notin> files_of (references e)) refs_on_barrel);
                  target = (\<lambda>e. matches_str (export_name e) (rt_imported_name entry))
              in ((ms[source entry := src\<lparr>exports := map (\<lambda>e.
                     if target e then e\<lparr>references := references e @ missing e\<rparr> else e) (exports src)\<rparr>], stubs),
                  \<exists>e \<in> set (exports src). target e \<and> missing e \<noteq> [])))"

definition propagate_re_export_entry ::
  "(ref_map \<Rightarrow> ref_map) \<Rightarrow> Edge list \<Rightarrow> (FileId \<Rightarrow> nat list option) \<Rightarrow> FileId set \<Rightarrow> ReExportTuple \<Rightarrow>
   propagation_state \<Rightarrow> propagation_state \<times> bool" where
  "propagate_re_export_entry order es edges_by_target entry_star_targets entry st =
     (if barrel entry \<ge> length (fst st) \<or> source entry \<ge> length (fst st) then (st, False)
      else if rt_exported_name entry = ''*''
      then propagate_star_re_export order es edges_by_target entry_star_targets entry st
      else propagate_named_re_export entry st)"

section \<open>The whole propagation\<close>

definition star_sources :: "ModuleNode \<Rightarrow> FileId list" where
  "star_sources m = map source_file (filter (\<lambda>re. re_exported_name re = ''*'') (re_exports m))"

definition star_succs :: "ModuleNode list \<Rightarrow> FileId \<Rightarrow> FileId list" where
  "star_succs ms f = (if f \<ge> length ms then [] else star_sources (ms ! f))"

definition collect_entry_star_targets :: "ModuleNode list \<Rightarrow> FileId set option" where
  "collect_entry_star_targets ms =
     (let starts = remdups (concat (map star_sources (filter is_entry_point ms)))
      in explore (star_succs ms) push_top (set starts) (rev starts))"

definition run_re_export_fixpoint ::
  "(ref_map \<Rightarrow> ref_map) \<Rightarrow> Edge list \<Rightarrow> (FileId \<Rightarrow> nat list option) \<Rightarrow> FileId set \<Rightarrow> ReExportTuple list \<Rightarrow>
   ModuleNode list \<Rightarrow> ModuleNode list \<times> bool" where
  "run_re_export_fixpoint order es edges_by_target entry_star_targets infos ms =
     (case run_passes (propagate_re_export_entry order es edges_by_target entry_star_targets) infos
             (length infos + 1) True (ms, {}) of
        ((ms', _), changed) \<Rightarrow> (ms', changed))"

text \<open>
  The result is the list of cycles, the graph after the propagation and whether the cap of the
  loop was exceeded, which the code logs as an error.
\<close>

definition resolve_re_export_chains ::
  "(ref_map \<Rightarrow> ref_map) \<Rightarrow> ModuleGraph \<Rightarrow> (GraphReExportCycle list \<times> ModuleGraph \<times> bool) option" where
  "resolve_re_export_chains order self =
     (let infos = collect_re_export_tuples (modules self) in
      if infos = [] then Some ([], self, False)
      else do {
        cycles \<leftarrow> find_re_export_cycles (modules self) infos;
        targets \<leftarrow> collect_entry_star_targets (modules self);
        let (ms, exceeded) = run_re_export_fixpoint order (edges self) (build_edges_by_target (edges self))
              targets infos (modules self);
        Some (cycles, self\<lparr>modules := ms\<rparr>, exceeded)
      })"

section \<open>Propagation only adds references\<close>

definition state_grows :: "propagation_state \<Rightarrow> propagation_state \<Rightarrow> bool" where
  "state_grows s t \<longleftrightarrow> list_all2 module_grows (fst s) (fst t) \<and> snd s \<subseteq> snd t"

lemma state_grows_refl: "state_grows s s"
  by (simp add: state_grows_def list.rel_refl)

lemma state_grows_trans: "state_grows s t \<Longrightarrow> state_grows t u \<Longrightarrow> state_grows s u"
  unfolding state_grows_def by (auto intro: list_all2_trans [OF module_grows_trans])

lemma state_grows_update:
  "module_grows (ms ! i) m \<Longrightarrow> stubs \<subseteq> stubs' \<Longrightarrow> state_grows (ms, stubs) (ms[i := m], stubs')"
  by (simp add: state_grows_def list_all2_update)

lemma new_refs_Nil_iff: "new_refs fs rs = [] \<longleftrightarrow> files_of rs \<subseteq> fs"
  by (induction rs arbitrary: fs) (auto simp: files_of_def)

definition star_grows ::
  "ModuleNode \<times> (FileId \<times> string) set \<Rightarrow> ModuleNode \<times> (FileId \<times> string) set \<Rightarrow> bool" where
  "star_grows s t \<longleftrightarrow> module_grows (fst s) (fst t) \<and> snd s \<subseteq> snd t"

lemma apply_star_refs_grows:
  "star_grows st (fst (apply_star_refs_to_source sid ty star nrs st))"
proof -
  obtain name rs src stubs where st: "nrs = (name, rs)" "st = (src, stubs)" by fastforce
  show ?thesis
  proof (cases "first_index (\<lambda>e. export_name e = export_name_of name) (exports src)")
    case None
    have "module_grows src (src\<lparr>exports := exports src @ [star_stub name ty rs]\<rparr>)"
      unfolding module_grows_def by (intro exI [of _ "exports src"] exI) (simp add: list.rel_refl)
    then show ?thesis using None by (auto simp: apply_star_refs_to_source_def st star_grows_def)
  next
    case (Some i)
    have "export_grows e ((if b then e\<lparr>exp_is_type_only := False\<rparr> else e)\<lparr>references := references e @ added\<rparr>)" for e b added
      by (cases e) (auto simp: export_grows_def)
    then have g: "module_grows src (src\<lparr>exports := (exports src)[i :=
        (if b then (exports src ! i)\<lparr>exp_is_type_only := False\<rparr> else exports src ! i)
          \<lparr>references := references (exports src ! i) @ added\<rparr>]\<rparr>)" for b added
      by (intro module_grows_exports list_all2_update) (simp_all only: export_grows_refl)
    show ?thesis using Some g [of _ True] g [of _ False]
      by (auto simp: apply_star_refs_to_source_def st star_grows_def Let_def)
  qed
qed

lemma apply_star_refs_unchanged:
  assumes "\<not> snd (apply_star_refs_to_source sid ty star nrs st)"
  shows "fst (apply_star_refs_to_source sid ty star nrs st) = st"
proof -
  obtain name rs src stubs where st: "nrs = (name, rs)" "st = (src, stubs)" by fastforce
  show ?thesis using assms
    by (auto simp: apply_star_refs_to_source_def st Let_def split: option.splits if_splits)
qed

interpretation star: propagation "apply_star_refs_to_source sid ty star" star_grows for sid ty star
proof
  show "star_grows s s" for s by (simp add: star_grows_def)
  show "star_grows s u" if "star_grows s t" "star_grows t u" for s t u
    using that module_grows_trans by (auto simp: star_grows_def)
qed (fact apply_star_refs_grows apply_star_refs_unchanged)+

lemma credit_exports_grows: "state_grows st (fst (credit_exports p b i st))"
proof -
  have "export_grows e (if p e then credit_barrel b e else e)" for e by (auto simp: credit_barrel_def)
  from module_grows_map [OF this] show ?thesis
    by (simp add: credit_exports_def Let_def split: prod.splits) (auto intro: state_grows_update)
qed

lemma map_if_id: "(\<And>e. e \<in> set es \<Longrightarrow> p e \<Longrightarrow> f e = e) \<Longrightarrow> map (\<lambda>e. if p e then f e else e) es = es"
  by (simp add: map_idI)

lemma credit_barrel_same: "b \<in> files_of (references e) \<Longrightarrow> credit_barrel b e = e"
  by (auto simp: credit_barrel_def files_of_def)

lemma credit_exports_unchanged:
  assumes "\<not> snd (credit_exports p b i st)"
  shows "fst (credit_exports p b i st) = st"
proof -
  obtain ms stubs where st: "st = (ms, stubs)" by fastforce
  have "map (\<lambda>e. if p e then credit_barrel b e else e) (exports (ms ! i)) = exports (ms ! i)"
    using assms by (intro map_if_id credit_barrel_same) (auto simp: credit_exports_def st Let_def)
  then show ?thesis by (simp add: credit_exports_def st Let_def)
qed

lemma star_re_export_grows: "state_grows st (fst (propagate_star_re_export order es ebt T entry st))"
proof -
  obtain ms stubs where st: "st = (ms, stubs)" by fastforce
  let ?run = "run_pass (apply_star_refs_to_source (source entry) (rt_is_type_only entry) (has_star (ms ! source entry)))
    (order (collect_star_refs_by_name ms es ebt (file_id (ms ! barrel entry)) (barrel entry))) (ms ! source entry, stubs)"
  have "star_grows (ms ! source entry, stubs) (fst ?run)" by (rule star.run_pass_grows)
  then have "state_grows (ms, stubs) (ms[source entry := fst (fst ?run)], snd (fst ?run))"
    by (intro state_grows_update) (auto simp: star_grows_def)
  then show ?thesis
    by (auto simp: propagate_star_re_export_def st Let_def propagate_entry_point_star_def credit_exports_grows
        split: prod.splits)
qed

lemma star_re_export_unchanged:
  assumes "\<not> snd (propagate_star_re_export order es ebt T entry st)"
  shows "fst (propagate_star_re_export order es ebt T entry st) = st"
proof -
  obtain ms stubs where st: "st = (ms, stubs)" by fastforce
  let ?run = "run_pass (apply_star_refs_to_source (source entry) (rt_is_type_only entry) (has_star (ms ! source entry)))
    (order (collect_star_refs_by_name ms es ebt (file_id (ms ! barrel entry)) (barrel entry))) (ms ! source entry, stubs)"
  have "fst ?run = (ms ! source entry, stubs)" if "\<not> snd ?run"
    using that by (rule star.run_pass_quiet(1))
  then show ?thesis using assms
    by (auto simp: propagate_star_re_export_def st Let_def propagate_entry_point_star_def credit_exports_unchanged
        split: prod.splits if_splits)
qed

lemma named_re_export_grows: "state_grows st (fst (propagate_named_re_export entry st))"
proof -
  obtain ms stubs where st: "st = (ms, stubs)" by fastforce
  have "module_grows m (m\<lparr>exports := map (\<lambda>e. if q e then e\<lparr>references := references e @ h e\<rparr> else e) (exports m)\<rparr>)"
    for m q h by (rule module_grows_map) auto
  then show ?thesis
    by (auto simp: propagate_named_re_export_def st Let_def propagate_entry_point_named_def credit_exports_grows
        state_grows_refl intro!: state_grows_update)
qed

lemma named_re_export_unchanged:
  assumes "\<not> snd (propagate_named_re_export entry st)"
  shows "fst (propagate_named_re_export entry st) = st"
proof -
  obtain ms stubs where st: "st = (ms, stubs)" by fastforce
  let ?m = "exports (ms ! source entry)" and ?p = "\<lambda>e. matches_str (export_name e) (rt_imported_name entry)"
  define refs where
    "refs = concat (map references (filter (\<lambda>e. matches_str (export_name e) (rt_exported_name entry)) (exports (ms ! barrel entry))))"
  let ?h = "\<lambda>e. filter (\<lambda>r. from_file r \<notin> files_of (references e)) refs"
  note def = propagate_named_re_export_def [of entry st, unfolded st prod.case Let_def, folded refs_def]
  show ?thesis
  proof (cases "refs = []")
    case True
    then show ?thesis using assms credit_exports_unchanged
      by (auto simp: def st propagate_entry_point_named_def split: if_splits)
  next
    case False
    then have "map (\<lambda>e. if ?p e then e\<lparr>references := references e @ ?h e\<rparr> else e) ?m = ?m"
      using assms by (intro map_if_id) (auto simp: def st)
    then show ?thesis using False by (simp add: def st)
  qed
qed

interpretation re_export: propagation "propagate_re_export_entry order es ebt T" state_grows
  for order es ebt T
proof
  show "state_grows s (fst (propagate_re_export_entry order es ebt T e s))" for e s
    by (simp add: propagate_re_export_entry_def state_grows_refl star_re_export_grows named_re_export_grows)
  show "fst (propagate_re_export_entry order es ebt T e s) = s"
    if "\<not> snd (propagate_re_export_entry order es ebt T e s)" for e s
    using that star_re_export_unchanged [of order es ebt T e s] named_re_export_unchanged [of e s]
    by (auto simp: propagate_re_export_entry_def)
qed (fact state_grows_refl state_grows_trans)+

section \<open>When the propagation stops, every edge is settled\<close>

definition uses_name :: "ModuleNode list \<Rightarrow> Edge list \<Rightarrow> ModuleNode \<Rightarrow> string \<Rightarrow> FileId \<Rightarrow> bool" where
  "uses_name ms es b n f \<longleftrightarrow>
     (\<exists>e \<in> set es. edge_target e = file_id b \<and> edge_source e = f \<and>
       (\<exists>s \<in> set (symbols e). imported_name s = ImpNamed n)) \<or>
     (\<exists>e \<in> set (exports b). export_display (export_name e) = n \<and> f \<in> files_of (references e))"

definition settled :: "ModuleNode list \<Rightarrow> Edge list \<Rightarrow> FileId set \<Rightarrow> ReExportTuple \<Rightarrow> bool" where
  "settled ms es entry_star_targets t \<longleftrightarrow>
     (let b = ms ! barrel t; s = ms ! source t in
      if rt_exported_name t = ''*'' then
        (if is_entry_point b \<or> file_id b \<in> entry_star_targets
         then \<forall>e \<in> set (exports s). export_name e \<noteq> ExpDefault \<longrightarrow> barrel t \<in> files_of (references e)
         else \<forall>n f. uses_name ms es b n f \<longrightarrow>
           (case first_index (\<lambda>e. export_name e = export_name_of n) (exports s) of
              Some i \<Rightarrow> f \<in> files_of (references (exports s ! i))
            | None \<Rightarrow> \<not> has_star s))
      else \<forall>e \<in> set (exports s). matches_str (export_name e) (rt_imported_name t) \<longrightarrow>
        (\<forall>e' \<in> set (exports b). matches_str (export_name e') (rt_exported_name t) \<longrightarrow>
           files_of (references e') \<subseteq> files_of (references e)) \<and>
        (is_entry_point b \<longrightarrow>
           (\<forall>e' \<in> set (exports b). matches_str (export_name e') (rt_exported_name t) \<longrightarrow> references e' = []) \<longrightarrow>
           barrel t \<in> files_of (references e)))"

definition refs_at :: "ref_map \<Rightarrow> string \<Rightarrow> SymbolReference list" where
  "refs_at m n = (case map_of m n of None \<Rightarrow> [] | Some rs \<Rightarrow> rs)"

lemma refs_at_add_refs: "refs_at (add_refs n rs m) k = refs_at m k @ (if k = n then rs else [])"
  by (auto simp: refs_at_def add_refs_def update_conv' split: option.splits)

lemma refs_at_mem: "f \<in> files_of (refs_at m n) \<Longrightarrow> \<exists>rs. (n, rs) \<in> set m \<and> f \<in> files_of rs"
  by (cases "map_of m n") (auto simp: refs_at_def files_of_def dest: map_of_SomeD)

lemma refs_at_fold:
  "refs_at (fold (\<lambda>(n, rs) m. add_refs n rs m) xs m) k =
     refs_at m k @ concat (map snd (filter (\<lambda>x. fst x = k) xs))"
  by (induction xs arbitrary: m) (auto simp: refs_at_add_refs)

lemma refs_at_fold_single:
  "refs_at (fold (\<lambda>(n, r) m. add_refs n [r] m) xs m) k =
     refs_at m k @ map snd (filter (\<lambda>x. fst x = k) xs)"
  by (induction xs arbitrary: m) (auto simp: refs_at_add_refs)

lemma edges_by_target_fold:
  "(case fold (\<lambda>(idx, e) m. m(edge_target e \<mapsto> (case m (edge_target e) of None \<Rightarrow> [] | Some ix \<Rightarrow> ix) @ [idx])) ps m t of
      None \<Rightarrow> [] | Some ix \<Rightarrow> ix) =
   (case m t of None \<Rightarrow> [] | Some ix \<Rightarrow> ix) @ map fst (filter (\<lambda>p. edge_target (snd p) = t) ps)"
  by (induction ps arbitrary: m) (auto split: option.splits)

lemma edges_by_target:
  assumes "e \<in> set es"
  shows "\<exists>ix i. build_edges_by_target es (edge_target e) = Some ix \<and> i \<in> set ix \<and> es ! i = e"
proof -
  obtain i where i: "i < length es" "es ! i = e" using assms by (auto simp: in_set_conv_nth)
  let ?l = "case build_edges_by_target es (edge_target e) of None \<Rightarrow> [] | Some ix \<Rightarrow> ix"
  have "(i, e) \<in> set (enumerate 0 es)" using i by (auto simp: in_set_enumerate_eq)
  then have "i \<in> set ?l"
    using edges_by_target_fold [of "enumerate 0 es" Map.empty "edge_target e"]
    by (force simp: build_edges_by_target_def)
  with i(2) show ?thesis by (cases "build_edges_by_target es (edge_target e)") auto
qed

lemma collect_star_refs:
  assumes "uses_name ms es (ms ! b) n f"
  shows "\<exists>rs. (n, rs) \<in> set (collect_star_refs_by_name ms es (build_edges_by_target es) (file_id (ms ! b)) b) \<and>
    f \<in> files_of rs"
proof -
  let ?m = "collect_star_refs_by_name ms es (build_edges_by_target es) (file_id (ms ! b)) b"
  define named where "named = (case build_edges_by_target es (file_id (ms ! b)) of None \<Rightarrow> []
    | Some idxs \<Rightarrow> concat (map (\<lambda>idx. List.map_filter (named_reference (es ! idx)) (symbols (es ! idx))) idxs))"
  have m: "refs_at ?m n = map snd (filter (\<lambda>x. fst x = n) named) @ concat (map snd (filter (\<lambda>x. fst x = n)
      (map (\<lambda>e. (export_display (export_name e), references e)) (filter (\<lambda>e. references e \<noteq> []) (exports (ms ! b))))))"
    unfolding collect_star_refs_by_name_def Let_def named_def [symmetric] refs_at_fold refs_at_fold_single
    by (simp add: refs_at_def)
  from assms consider e s where "e \<in> set es" "edge_target e = file_id (ms ! b)" "edge_source e = f"
        "s \<in> set (symbols e)" "imported_name s = ImpNamed n"
    | e where "e \<in> set (exports (ms ! b))" "export_display (export_name e) = n" "f \<in> files_of (references e)"
    unfolding uses_name_def by blast
  then have "f \<in> files_of (refs_at ?m n)"
  proof cases
    case 1
    obtain ix i where i: "build_edges_by_target es (file_id (ms ! b)) = Some ix" "i \<in> set ix" "es ! i = e"
      using edges_by_target [OF 1(1)] 1(2) by auto
    let ?r = "\<lparr>from_file = f, ref_kind = NamedImport, ref_span = import_span s\<rparr>"
    have "named_reference e s = Some (n, ?r)" using 1(3,5) by (simp add: named_reference_def)
    then have "(n, ?r) \<in> set (List.map_filter (named_reference (es ! i)) (symbols (es ! i)))"
      using 1(4) i(3) by (auto simp: set_map_filter_iff)
    then have "(n, ?r) \<in> set named" using i(1,2) by (auto simp: named_def)
    then show ?thesis unfolding m by (force simp: files_of_def)
  next
    case 2
    then have "references e \<noteq> []" by (auto simp: files_of_def)
    with 2 show ?thesis unfolding m by (force simp: files_of_def)
  qed
  then show ?thesis by (rule refs_at_mem)
qed

lemma star_settled:
  assumes order: "\<And>m. set (order m) = set m"
    and same: "\<not> snd (propagate_star_re_export order es (build_edges_by_target es) T t (ms, stubs))"
    and star: "rt_exported_name t = ''*''"
  shows "settled ms es T t"
proof (cases "is_entry_point (ms ! barrel t) \<or> file_id (ms ! barrel t) \<in> T")
  case True
  then have "\<not> snd (credit_exports (\<lambda>e. export_name e \<noteq> ExpDefault) (barrel t) (source t) (ms, stubs))"
    using same by (auto simp: propagate_star_re_export_def propagate_entry_point_star_def)
  then show ?thesis using True star by (auto simp: settled_def Let_def credit_exports_def)
next
  case False
  let ?refs = "collect_star_refs_by_name ms es (build_edges_by_target es) (file_id (ms ! barrel t)) (barrel t)"
  let ?apply = "apply_star_refs_to_source (source t) (rt_is_type_only t) (has_star (ms ! source t))"
  have "\<not> snd (run_pass ?apply (order ?refs) (ms ! source t, stubs))"
    using same False by (auto simp: propagate_star_re_export_def Let_def split: prod.splits)
  then have app: "\<not> snd (?apply nrs (ms ! source t, stubs))" if "nrs \<in> set ?refs" for nrs
    using star.run_pass_quiet(2) [of _ _ _ "order ?refs" _ nrs] order that by simp
  have "case first_index (\<lambda>e. export_name e = export_name_of n) (exports (ms ! source t)) of
      Some i \<Rightarrow> f \<in> files_of (references (exports (ms ! source t) ! i)) | None \<Rightarrow> \<not> has_star (ms ! source t)"
    if use: "uses_name ms es (ms ! barrel t) n f" for n f
  proof -
    obtain rs where rs: "(n, rs) \<in> set ?refs" "f \<in> files_of rs" using collect_star_refs [OF use] by blast
    show ?thesis
      using app [OF rs(1)] rs(2)
      by (auto simp: apply_star_refs_to_source_def Let_def new_refs_Nil_iff split: option.splits if_splits)
  qed
  then show ?thesis using False star by (simp add: settled_def Let_def)
qed

lemma named_settled:
  assumes same: "\<not> snd (propagate_named_re_export t (ms, stubs))"
    and named: "rt_exported_name t \<noteq> ''*''"
  shows "settled ms es T t"
proof -
  define refs where
    "refs = concat (map references (filter (\<lambda>e. matches_str (export_name e) (rt_exported_name t)) (exports (ms ! barrel t))))"
  note def = propagate_named_re_export_def [of t "(ms, stubs)", unfolded prod.case Let_def, folded refs_def]
  have refs: "files_of (references e') \<subseteq> files_of refs"
    if "e' \<in> set (exports (ms ! barrel t))" "matches_str (export_name e') (rt_exported_name t)" for e'
    using that by (auto simp: refs_def files_of_def)
  have empty: "refs = [] \<longleftrightarrow> (\<forall>e' \<in> set (exports (ms ! barrel t)). matches_str (export_name e') (rt_exported_name t) \<longrightarrow> references e' = [])"
    by (auto simp: refs_def)
  show ?thesis
  proof (cases "refs = []")
    case True
    then show ?thesis
      using same named empty by (auto simp: def settled_def Let_def propagate_entry_point_named_def credit_exports_def files_of_def)
  next
    case False
    have "files_of refs \<subseteq> files_of (references e)"
      if "e \<in> set (exports (ms ! source t))" "matches_str (export_name e) (rt_imported_name t)" for e
      using same False that by (auto simp: def files_of_def filter_empty_conv)
    then show ?thesis using named refs False empty by (force simp: settled_def Let_def)
  qed
qed

section \<open>The modules whose stars an entry point re-exports\<close>

definition star_rel :: "ModuleNode list \<Rightarrow> (FileId \<times> FileId) set" where
  "star_rel ms = {(a, b). a < length ms \<and>
     (\<exists>re \<in> set (re_exports (ms ! a)). re_exported_name re = ''*'' \<and> source_file re = b)}"

definition entry_star_targets :: "ModuleNode list \<Rightarrow> FileId set" where
  "entry_star_targets ms = (star_rel ms)\<^sup>* ``
     {f. \<exists>m \<in> set ms. is_entry_point m \<and> f \<in> set (star_sources m)}"

definition star_universe :: "ModuleNode list \<Rightarrow> FileId set" where
  "star_universe ms = (\<Union>m \<in> set ms. set (star_sources m))"

interpretation star_walk: exploration "star_succs ms" push_top "star_universe ms" for ms
proof
  show "set (star_succs ms x) \<subseteq> star_universe ms" for x
  proof (cases "x < length ms")
    case True
    then have "ms ! x \<in> set ms" by (rule nth_mem)
    then show ?thesis by (auto simp: star_universe_def star_succs_def)
  qed (simp add: star_succs_def)
qed (simp_all add: star_universe_def push_top_def)

lemma collect_entry_star_targets_reached:
  "collect_entry_star_targets ms = Some (entry_star_targets ms)"
proof -
  let ?starts = "remdups (concat (map star_sources (filter is_entry_point ms)))"
  have starts: "set ?starts = {f. \<exists>m \<in> set ms. is_entry_point m \<and> f \<in> set (star_sources m)}" by auto
  have "set ?starts \<subseteq> star_universe ms" by (auto simp: star_universe_def)
  then have "explore (star_succs ms) push_top (set ?starts) (rev ?starts) =
      Some ((step_rel (star_succs ms))\<^sup>* `` set ?starts)"
    by (intro star_walk.explore_reaches) simp_all
  moreover have "step_rel (star_succs ms) = star_rel ms"
    by (auto simp: step_rel_def star_succs_def star_sources_def star_rel_def split: if_splits)
  ultimately show ?thesis
    unfolding collect_entry_star_targets_def entry_star_targets_def Let_def starts by simp
qed

section \<open>The properties of the resolution\<close>

lemma resolve_run:
  assumes "resolve_re_export_chains order g = Some (cs, g', exceeded)"
    and "collect_re_export_tuples (modules g) \<noteq> []"
  shows "\<exists>stubs. g' = g\<lparr>modules := modules g'\<rparr> \<and>
    run_passes (propagate_re_export_entry order (edges g) (build_edges_by_target (edges g))
        (entry_star_targets (modules g))) (collect_re_export_tuples (modules g))
      (length (collect_re_export_tuples (modules g)) + 1) True (modules g, {}) = ((modules g', stubs), exceeded)"
proof -
  obtain ms stubs ch where r: "run_passes (propagate_re_export_entry order (edges g)
        (build_edges_by_target (edges g)) (entry_star_targets (modules g))) (collect_re_export_tuples (modules g))
      (length (collect_re_export_tuples (modules g)) + 1) True (modules g, {}) = ((ms, stubs), ch)"
    by (metis surj_pair)
  then have "g' = g\<lparr>modules := ms\<rparr>" "exceeded = ch"
    using assms by (auto simp: resolve_re_export_chains_def collect_entry_star_targets_reached
        run_re_export_fixpoint_def Let_def split: option.splits bind_splits)
  then show ?thesis using r by auto
qed

lemma resolution_grows:
  assumes "resolve_re_export_chains order g = Some (cs, g', exceeded)"
  shows "g' = g\<lparr>modules := modules g'\<rparr> \<and> list_all2 module_grows (modules g) (modules g')"
proof (cases "collect_re_export_tuples (modules g) = []")
  case True
  then show ?thesis using assms by (simp add: resolve_re_export_chains_def list.rel_refl)
next
  case False
  from resolve_run [OF assms this] re_export.run_passes_grows show ?thesis
    by (metis fst_conv state_grows_def)
qed

lemma resolution_total:
  assumes "2 * length (collect_re_export_tuples (modules g)) \<le> U32_MAX"
  shows "\<exists>cs g' exceeded. resolve_re_export_chains order g = Some (cs, g', exceeded)"
proof -
  obtain cs where "find_re_export_cycles (modules g) (collect_re_export_tuples (modules g)) = Some cs"
    by (rule find_re_export_cycles_facts [OF assms])
  then show ?thesis
    by (auto simp: resolve_re_export_chains_def Let_def collect_entry_star_targets_reached split: prod.split)
qed

lemma resolution_settled:
  assumes "\<And>m. set (order m) = set m"
    and "resolve_re_export_chains order g = Some (cs, g', False)"
    and "t \<in> set (collect_re_export_tuples (modules g))"
    and "barrel t < length (modules g)" "source t < length (modules g)"
  shows "settled (modules g') (edges g) (entry_star_targets (modules g)) t"
proof -
  let ?step = "propagate_re_export_entry order (edges g) (build_edges_by_target (edges g)) (entry_star_targets (modules g))"
  have "collect_re_export_tuples (modules g) \<noteq> []" using assms(3) by auto
  then obtain stubs where run: "run_passes ?step (collect_re_export_tuples (modules g))
      (length (collect_re_export_tuples (modules g)) + 1) True (modules g, {}) = ((modules g', stubs), False)"
    using resolve_run [OF assms(2)] by auto
  have "length (modules g') = length (modules g)"
    using re_export.run_passes_grows [of "(modules g, {})"] run
    by (metis fst_conv list_all2_lengthD state_grows_def)
  moreover have "\<not> snd (?step t (modules g', stubs))"
    using re_export.run_passes_stable [OF run] assms(3) by simp
  ultimately show ?thesis
    using star_settled [OF assms(1)] named_settled assms(4,5)
    by (auto simp: propagate_re_export_entry_def split: if_splits)
qed

text \<open>
  Resolving the re-export chains only adds: every module keeps its fields and all the exports
  it had, in their places; an export keeps its references and gains new ones behind them, and may
  only change from type-only to value; new exports are appended. Nothing else of the graph changes.
\<close>

theorem resolution_only_adds:
  assumes "resolve_re_export_chains order g = Some (cs, g', exceeded)"
  shows "g' = g\<lparr>modules := modules g'\<rparr> \<and> list_all2 module_grows (modules g) (modules g')"
  using resolution_grows [OF assms] .

text \<open>
  C21. When the resolution stops below the cap of its loop, every re-export edge is settled: all
  files that use the exported name of a named re-export are recorded at the exports it forwards,
  all files that use a name of a star barrel are recorded at the export of that name of its
  source, and what an entry point re-exports is recorded as used by it.
\<close>

theorem resolution_settles_re_exports:
  assumes "\<And>m. set (order m) = set m"
    and "resolve_re_export_chains order g = Some (cs, g', False)"
    and "t \<in> set (collect_re_export_tuples (modules g))"
    and "barrel t < length (modules g)" "source t < length (modules g)"
  shows "settled (modules g') (edges g) (entry_star_targets (modules g)) t"
  using resolution_settled [OF assms] .

text \<open>A leaf that exports a name and a barrel that re-exports it to one importing file.\<close>

definition chain_graph :: ModuleGraph where
  "chain_graph =
     (let node = (\<lambda>f es res. \<lparr>file_id = f, node_path = [replicate f CHR ''a''], edge_range = (0, 0), exports = es,
            re_exports = res, flags = 0\<rparr>);
          used = \<lparr>from_file = 2, ref_kind = NamedImport, ref_span = \<lparr>span_begin = 0, span_end = 1\<rparr>\<rparr>
      in \<lparr>modules = [node 0 [star_stub ''x'' False []] [],
             node 1 [star_stub ''x'' False [used]]
               [\<lparr>source_file = 0, re_imported_name = ''x'', re_exported_name = ''x'', re_is_type_only = False,
                 re_span = \<lparr>span_begin = 0, span_end = 1\<rparr>\<rparr>],
             node 2 [] []],
          edges = [], package_usage = Map.empty, type_only_package_usage = Map.empty, entry_points = {},
          runtime_entry_points = {}, test_entry_points = {}, reverse_deps = [],
          namespace_imported = \<lparr>bit_length = 0, bits = {}\<rparr>, re_export_cycles = []\<rparr>)"

lemma chain_graph_tuples: "collect_re_export_tuples (modules chain_graph) =
    [\<lparr>barrel = 1, source = 0, rt_imported_name = ''x'', rt_exported_name = ''x'', rt_is_type_only = False\<rparr>]"
  by (simp add: chain_graph_def collect_re_export_tuples_def)

lemma chain_graph_resolved: "\<exists>cs g'. resolve_re_export_chains id chain_graph = Some (cs, g', False)"
proof -
  have "2 * length (collect_re_export_tuples (modules chain_graph)) \<le> U32_MAX"
    by (simp add: chain_graph_tuples U32_MAX_def)
  then obtain cs where cs: "find_re_export_cycles (modules chain_graph)
      (collect_re_export_tuples (modules chain_graph)) = Some cs"
    by (rule find_re_export_cycles_facts)
  have "\<not> snd (run_re_export_fixpoint id [] (build_edges_by_target []) T
      (collect_re_export_tuples (modules chain_graph)) (modules chain_graph))" for T
    unfolding chain_graph_tuples
    by (simp add: chain_graph_def run_re_export_fixpoint_def run_pass_def propagate_re_export_entry_def
        propagate_named_re_export_def matches_str_def star_stub_def export_name_of_def is_entry_point_def
        files_of_def numeral_2_eq_2)
  moreover have "edges chain_graph = []" by (simp add: chain_graph_def Let_def)
  ultimately show ?thesis
    using cs by (auto simp: resolve_re_export_chains_def Let_def collect_entry_star_targets_reached
        chain_graph_tuples split: prod.splits) (metis snd_conv)
qed

theorem resolution_only_adds_witness:
  "\<exists>cs g'. resolve_re_export_chains id chain_graph = Some (cs, g', False) \<and>
     list_all2 module_grows (modules chain_graph) (modules g')"
  using chain_graph_resolved resolution_only_adds [of id chain_graph] by blast

theorem resolution_settles_re_exports_witness:
  "\<exists>cs g'. resolve_re_export_chains id chain_graph = Some (cs, g', False) \<and>
     settled (modules g') [] (entry_star_targets (modules chain_graph))
       \<lparr>barrel = 1, source = 0, rt_imported_name = ''x'', rt_exported_name = ''x'', rt_is_type_only = False\<rparr>"
proof -
  obtain cs g' where r: "resolve_re_export_chains id chain_graph = Some (cs, g', False)"
    using chain_graph_resolved by blast
  have "edges chain_graph = []" "length (modules chain_graph) = 3" by (simp_all add: chain_graph_def Let_def)
  with resolution_settles_re_exports [of id, OF _ r, unfolded chain_graph_tuples] r show ?thesis by auto
qed

end
