(* ===== verification/Module_Graph.thy ===== *)
theory Module_Graph
  imports Graph_Build Namespace_Credits Re_Exports "HOL-Library.Code_Target_Nat"
begin

text \<open>
  Graph construction as a whole (\<^verbatim>\<open>graph/src/graph/mod.rs\<close>): entry points are resolved to files,
  and the phases run one after another: edges, references, the two namespace passes, reachability
  and the re-export chains. The result is the graph and whether the propagation of re-exports
  exceeded its cap, which the code logs; it would be \<open>None\<close> if one of the loops did not end.

  Canonicalisation of a path asks the file system; it is the parameter \<open>canonicalize\<close>.
\<close>

section \<open>Entry points\<close>

datatype EntryPointSource =
    PackageJsonMain
  | PackageJsonModule
  | PackageJsonExports
  | PackageJsonBin
  | PackageJsonScript
  | Plugin string
  | TestFile
  | DefaultIndex
  | ManualEntry
  | InfrastructureConfig
  | DynamicallyLoaded

record EntryPoint =
  ep_path :: path
  ep_source :: EntryPointSource

definition entry_point_source_display :: "EntryPointSource \<Rightarrow> string" where
  "entry_point_source_display self =
     (case self of
        PackageJsonMain \<Rightarrow> ''package.json main''
      | PackageJsonModule \<Rightarrow> ''package.json module''
      | PackageJsonExports \<Rightarrow> ''package.json exports''
      | PackageJsonBin \<Rightarrow> ''package.json bin''
      | PackageJsonScript \<Rightarrow> ''package.json script''
      | Plugin name \<Rightarrow> name
      | TestFile \<Rightarrow> ''test file''
      | DefaultIndex \<Rightarrow> ''default index''
      | ManualEntry \<Rightarrow> ''manual entry''
      | InfrastructureConfig \<Rightarrow> ''infrastructure config''
      | DynamicallyLoaded \<Rightarrow> ''dynamically loaded'')"

definition is_declaration_file_path :: "path \<Rightarrow> bool" where
  "is_declaration_file_path p =
     (case file_name p of
        None \<Rightarrow> False
      | Some name \<Rightarrow> ends_with name ''.d.ts'' \<or> ends_with name ''.d.mts'' \<or> ends_with name ''.d.cts'')"

definition resolve_entry_point_ids ::
  "(path \<Rightarrow> path option) \<Rightarrow> EntryPoint list \<Rightarrow> (path \<Rightarrow> FileId option) \<Rightarrow> FileId set" where
  "resolve_entry_point_ids canonicalize eps path_to_id =
     set (List.map_filter (\<lambda>ep.
       case path_to_id (ep_path ep) of
         Some f \<Rightarrow> Some f
       | None \<Rightarrow> (case canonicalize (ep_path ep) of None \<Rightarrow> None | Some p \<Rightarrow> path_to_id p)) eps)"

section \<open>The construction\<close>

definition total_capacity_of :: "DiscoveredFile list \<Rightarrow> nat" where
  "total_capacity_of files =
     (let max_file_id = (case map df_id files of [] \<Rightarrow> 0 | f # fs \<Rightarrow> fold max fs f + 1)
      in max max_file_id (length files))"

definition path_ids :: "DiscoveredFile list \<Rightarrow> path \<Rightarrow> FileId option" where
  "path_ids files = fold (\<lambda>f m. m(df_path f \<mapsto> df_id f)) files Map.empty"

definition modules_by_id :: "ResolvedModule list \<Rightarrow> (FileId \<times> ResolvedModule) list" where
  "modules_by_id rms = fold (\<lambda>m al. AList.update (rm_file_id m) m al) rms []"

definition build_input ::
  "(path \<Rightarrow> path option) \<Rightarrow> ResolvedModule list \<Rightarrow> EntryPoint list \<Rightarrow> EntryPoint list \<Rightarrow> EntryPoint list \<Rightarrow>
   DiscoveredFile list \<Rightarrow> PopulateEdgesInput" where
  "build_input canonicalize rms eps runtime_eps test_eps files =
     (let resolve = (\<lambda>es. resolve_entry_point_ids canonicalize es (path_ids files))
      in \<lparr>pe_files = files, pe_module_by_id = map_of (modules_by_id rms),
          pe_entry_point_ids =
            fold (\<lambda>f ids. if is_declaration_file_path (df_path f) then insert (df_id f) ids else ids) files (resolve eps),
          pe_runtime_entry_point_ids = resolve runtime_eps, pe_test_entry_point_ids = resolve test_eps,
          pe_module_count = length files, pe_total_capacity = total_capacity_of files\<rparr>)"

definition build_with_reachability_roots ::
  "HashOrders \<Rightarrow> (path \<Rightarrow> path option) \<Rightarrow> ResolvedModule list \<Rightarrow> EntryPoint list \<Rightarrow> EntryPoint list \<Rightarrow>
   EntryPoint list \<Rightarrow> DiscoveredFile list \<Rightarrow> (ModuleGraph \<times> bool) option" where
  "build_with_reachability_roots orders canonicalize rms eps runtime_eps test_eps files =
     (let inp = build_input canonicalize rms eps runtime_eps test_eps files;
          visited = map snd (modules_by_id rms);
          g = populate_references (pe_module_by_id inp) (pe_entry_point_ids inp) (populate_edges inp)
      in do {
        g \<leftarrow> propagate_cross_package_aliases orders visited g;
        g \<leftarrow> propagate_namespace_re_exports orders visited g;
        g \<leftarrow> mark_reachable g (pe_entry_point_ids inp) (pe_runtime_entry_point_ids inp)
               (pe_test_entry_point_ids inp) (pe_total_capacity inp);
        (cycles, g, exceeded) \<leftarrow> resolve_re_export_chains (visit_refs orders) g;
        Some (g\<lparr>re_export_cycles := cycles\<rparr>, exceeded)
      })"

definition build ::
  "HashOrders \<Rightarrow> (path \<Rightarrow> path option) \<Rightarrow> ResolvedModule list \<Rightarrow> EntryPoint list \<Rightarrow> DiscoveredFile list \<Rightarrow>
   (ModuleGraph \<times> bool) option" where
  "build orders canonicalize rms eps files =
     build_with_reachability_roots orders canonicalize rms eps eps [] files"

definition module_count :: "ModuleGraph \<Rightarrow> nat" where
  "module_count self = length (modules self)"

definition edge_count :: "ModuleGraph \<Rightarrow> nat" where
  "edge_count self = length (edges self)"

section \<open>What the passes keep of a module\<close>

definition frame :: "ModuleNode \<Rightarrow> FileId \<times> path \<times> (nat \<times> nat) \<times> ReExportEdge list \<times> bool \<times> bool" where
  "frame m = (file_id m, node_path m, edge_range m, re_exports m, is_entry_point m, has_cjs_exports m)"

lemma frame_grows: "module_grows m m' \<Longrightarrow> frame m' = frame m"
  by (auto simp: module_grows_def frame_def is_entry_point_def has_cjs_exports_def)

lemma frames_grow: "list_all2 module_grows ms ms' \<Longrightarrow> map frame ms' = map frame ms"
  by (auto simp: list_all2_conv_all_nth frame_grows intro!: nth_equalityI)

lemma frame_mark: "frame (mark_module v r t (i, m)) = frame m"
proof -
  have "node_flags (mark_module v r t (i, m)) = (node_flags m)\<lparr>nf_reachable := nf_reachable (node_flags (mark_module v r t (i, m))),
      nf_runtime := nf_runtime (node_flags (mark_module v r t (i, m))), nf_test := nf_test (node_flags (mark_module v r t (i, m)))\<rparr>"
    by (simp add: mark_module_flags)
  then have "is_entry_point (mark_module v r t (i, m)) = is_entry_point m"
      "has_cjs_exports (mark_module v r t (i, m)) = has_cjs_exports m"
    by (simp_all add: node_flags_def)
  moreover have "(mark_module v r t (i, m))\<lparr>flags := flags m\<rparr> = m" by (rule mark_module_fields)
  then have "file_id (mark_module v r t (i, m)) = file_id m" "node_path (mark_module v r t (i, m)) = node_path m"
      "edge_range (mark_module v r t (i, m)) = edge_range m" "re_exports (mark_module v r t (i, m)) = re_exports m"
    by (metis ModuleNode.select_convs(1-5) ModuleNode.surjective ModuleNode.update_convs(6))+
  ultimately show ?thesis by (simp add: frame_def)
qed

lemma exports_mark: "exports (mark_module v r t (i, m)) = exports m"
  using mark_module_fields [where v = v and r = r and t = t and idx = i and m = m]
  by (metis ModuleNode.select_convs(4) ModuleNode.surjective ModuleNode.update_convs(6))

lemma flags_grow: "module_grows m m' \<Longrightarrow> flags m' = flags m"
  by (auto simp: module_grows_def)

lemma frame_nth:
  "map frame ms' = map frame ms \<Longrightarrow> i < length ms \<Longrightarrow> frame (ms' ! i) = frame (ms ! i)"
  by (metis length_map nth_map)

lemma frames_map:
  assumes "\<And>m m'. frame m' = frame m \<Longrightarrow> h m' = h m" "map frame ms' = map frame ms"
  shows "map h ms' = map h ms"
proof (rule nth_equalityI)
  have l: "length ms' = length ms" using map_eq_imp_length_eq [OF assms(2)] .
  then show "length (map h ms') = length (map h ms)" by simp
  fix i assume "i < length (map h ms')"
  then show "map h ms' ! i = map h ms ! i" using assms(1) [OF frame_nth [OF assms(2)]] l by simp
qed

lemma frames_tuples:
  assumes "map frame ms' = map frame ms"
  shows "collect_re_export_tuples ms' = collect_re_export_tuples ms"
  unfolding collect_re_export_tuples_def
  by (rule arg_cong [where f = concat], rule frames_map [OF _ assms]) (clarsimp simp: frame_def)

lemma frames_reached:
  assumes "map frame (modules g') = map frame (modules g)" "edges g' = edges g"
  shows "reached g' cap starts = reached g cap starts"
proof -
  have "length (modules g') = length (modules g)" using map_eq_imp_length_eq [OF assms(1)] .
  moreover have "edges_of (edges g') (modules g' ! f) = edges_of (edges g) (modules g ! f)" if "f < length (modules g)" for f
    using frame_nth [OF assms(1) that] assms(2) by (simp add: frame_def edges_of_def)
  ultimately have "imports_rel g' cap = imports_rel g cap" by (auto simp: imports_rel_def)
  then show ?thesis by (simp add: reached_def)
qed

section \<open>The phases end\<close>

definition re_export_count :: "ResolvedModule list \<Rightarrow> DiscoveredFile list \<Rightarrow> nat" where
  "re_export_count rms files =
     (\<Sum>f \<leftarrow> files. case map_of (modules_by_id rms) (df_id f) of None \<Rightarrow> 0 | Some r \<Rightarrow> length (rm_re_exports r))"

lemma length_map_filter: "length (List.map_filter f xs) \<le> length xs"
  by (simp add: map_filter_def)

lemma built_re_exports:
  "length (re_exports (build_module_node fl by_id eps rng)) \<le>
     (case by_id (df_id fl) of None \<Rightarrow> 0 | Some r \<Rightarrow> length (rm_re_exports r))"
  by (auto simp: build_module_node_def Let_def build_re_export_edges_def length_map_filter split: option.split)

lemma built_tuples:
  "length (collect_re_export_tuples (modules (populate_edges inp))) \<le>
     (\<Sum>f \<leftarrow> pe_files inp. case pe_module_by_id inp (df_id f) of None \<Rightarrow> 0 | Some r \<Rightarrow> length (rm_re_exports r))"
proof -
  have "list_all2 (\<lambda>fl m. length (re_exports m) \<le>
      (case pe_module_by_id inp (df_id fl) of None \<Rightarrow> 0 | Some r \<Rightarrow> length (rm_re_exports r)))
      (pe_files inp) (modules (populate_edges inp))"
    using populate_edges_storage [of inp] unfolding storage_ok_def
    by (auto elim!: list_all2_mono simp: node_of_def) (metis built_re_exports)
  then have "(\<Sum>m \<leftarrow> modules (populate_edges inp). length (re_exports m)) \<le>
      (\<Sum>f \<leftarrow> pe_files inp. case pe_module_by_id inp (df_id f) of None \<Rightarrow> 0 | Some r \<Rightarrow> length (rm_re_exports r))"
    by (induction rule: list_all2_induct) auto
  then show ?thesis by (simp add: collect_re_export_tuples_def length_concat comp_def)
qed

text \<open>Every phase of a construction, with what it keeps of the phase before.\<close>

definition phases ::
  "HashOrders \<Rightarrow> ResolvedModule list \<Rightarrow> PopulateEdgesInput \<Rightarrow> ModuleGraph \<times> ModuleGraph \<times> ModuleGraph \<times> ModuleGraph \<times>
   ModuleGraph \<times> bool \<Rightarrow> bool" where
  "phases orders visited inp st = (case st of (g1, g2, g3, g4, g, exceeded) \<Rightarrow>
     g1 = populate_references (pe_module_by_id inp) (pe_entry_point_ids inp) (populate_edges inp) \<and>
     propagate_cross_package_aliases orders visited g1 = Some g2 \<and>
     g2 = g1\<lparr>modules := modules g2\<rparr> \<and> list_all2 module_grows (modules g1) (modules g2) \<and>
     propagate_namespace_re_exports orders visited g2 = Some g3 \<and>
     g3 = g2\<lparr>modules := modules g3\<rparr> \<and> list_all2 module_grows (modules g2) (modules g3) \<and>
     mark_reachable g3 (pe_entry_point_ids inp) (pe_runtime_entry_point_ids inp)
       (pe_test_entry_point_ids inp) (pe_total_capacity inp) = Some g4 \<and>
     g4 = g3\<lparr>modules := modules g4\<rparr> \<and> map frame (modules g4) = map frame (modules g3) \<and>
     map exports (modules g4) = map exports (modules g3) \<and>
     (\<exists>cs g5. resolve_re_export_chains (visit_refs orders) g4 = Some (cs, g5, exceeded) \<and>
       g5 = g4\<lparr>modules := modules g5\<rparr> \<and> list_all2 module_grows (modules g4) (modules g5) \<and>
       g = g5\<lparr>re_export_cycles := cs\<rparr>))"

lemma finite_entry_points: "finite (resolve_entry_point_ids canonicalize eps ids)"
  by (simp add: resolve_entry_point_ids_def)

lemma finite_declarations:
  "finite ids \<Longrightarrow> finite (fold (\<lambda>f ids. if p f then insert (df_id f) ids else ids) files ids)"
  by (induction files arbitrary: ids) auto

lemma build_input_finite:
  "finite (pe_entry_point_ids (build_input canonicalize rms eps runtime_eps test_eps files))"
  "finite (pe_runtime_entry_point_ids (build_input canonicalize rms eps runtime_eps test_eps files))"
  "finite (pe_test_entry_point_ids (build_input canonicalize rms eps runtime_eps test_eps files))"
  by (simp_all add: build_input_def Let_def finite_entry_points finite_declarations)

lemma populate_references_grows:
  "populate_references by_id eps g = g\<lparr>modules := modules (populate_references by_id eps g)\<rparr> \<and>
   list_all2 module_grows (modules g) (modules (populate_references by_id eps g))"
  using fold_attach_edge_attached [of "edges g" "modules g" by_id eps]
  by (simp add: populate_references_def attached_def list_all2_conv_all_nth)

lemma mark_keeps:
  assumes "finite eps" "finite runtime_eps" "finite test_eps"
  obtains g' where "mark_reachable g eps runtime_eps test_eps cap = Some g'" "g' = g\<lparr>modules := modules g'\<rparr>"
    "map frame (modules g') = map frame (modules g)" "map exports (modules g') = map exports (modules g)"
proof -
  define r where "r = (if runtime_eps = eps then None else Some \<lparr>bit_length = cap, bits = reached g cap runtime_eps\<rparr>)"
  define t where "t = (if test_eps = {} then None else Some \<lparr>bit_length = cap, bits = reached g cap test_eps\<rparr>)"
  define f where "f = mark_module \<lparr>bit_length = cap, bits = reached g cap eps\<rparr> r t"
  define g' where "g' = g\<lparr>modules := map f (enumerate 0 (modules g))\<rparr>"
  have m: "modules g' = map f (enumerate 0 (modules g))" by (simp add: g'_def)
  show thesis
  proof (rule that [of g'])
    show "mark_reachable g eps runtime_eps test_eps cap = Some g'"
      unfolding g'_def f_def r_def t_def by (rule mark_reachable_some [OF assms])
    show "map frame (modules g') = map frame (modules g)" "map exports (modules g') = map exports (modules g)"
      unfolding m f_def by (auto intro!: nth_equalityI simp: nth_enumerate_eq frame_mark exports_mark)
  qed (simp add: g'_def)
qed

lemma phases_exist:
  assumes fin: "finite (pe_entry_point_ids inp)" "finite (pe_runtime_entry_point_ids inp)" "finite (pe_test_entry_point_ids inp)"
    and small: "2 * length (collect_re_export_tuples (modules (populate_edges inp))) \<le> U32_MAX"
  shows "\<exists>g1 g2 g3 g4 g exceeded. phases orders visited inp (g1, g2, g3, g4, g, exceeded)"
proof -
  define g1 where "g1 = populate_references (pe_module_by_id inp) (pe_entry_point_ids inp) (populate_edges inp)"
  have f1: "map frame (modules g1) = map frame (modules (populate_edges inp))"
    unfolding g1_def using populate_references_grows frames_grow by blast
  obtain g2 where 2: "propagate_cross_package_aliases orders visited g1 = Some g2" "g2 = g1\<lparr>modules := modules g2\<rparr>"
      "list_all2 module_grows (modules g1) (modules g2)" using aliases_grow by blast
  obtain g3 where 3: "propagate_namespace_re_exports orders visited g2 = Some g3" "g3 = g2\<lparr>modules := modules g3\<rparr>"
      "list_all2 module_grows (modules g2) (modules g3)" using namespace_re_exports_grow by blast
  obtain g4 where 4: "mark_reachable g3 (pe_entry_point_ids inp) (pe_runtime_entry_point_ids inp)
       (pe_test_entry_point_ids inp) (pe_total_capacity inp) = Some g4" "g4 = g3\<lparr>modules := modules g4\<rparr>"
      "map frame (modules g4) = map frame (modules g3)" "map exports (modules g4) = map exports (modules g3)"
    using mark_keeps [OF fin] .
  have "collect_re_export_tuples (modules g4) = collect_re_export_tuples (modules (populate_edges inp))"
    using f1 4(3) frames_grow [OF 2(3)] frames_grow [OF 3(3)] by (intro frames_tuples) simp
  then have "2 * length (collect_re_export_tuples (modules g4)) \<le> U32_MAX" using small by simp
  from resolution_total [OF this] obtain cs g5 exceeded where
    5: "resolve_re_export_chains (visit_refs orders) g4 = Some (cs, g5, exceeded)" by blast
  have 6: "g5 = g4\<lparr>modules := modules g5\<rparr>" "list_all2 module_grows (modules g4) (modules g5)"
    using resolution_grows [OF 5] by blast+
  from g1_def 2 3 4 5 6 have "phases orders visited inp (g1, g2, g3, g4, g5\<lparr>re_export_cycles := cs\<rparr>, exceeded)"
    unfolding phases_def prod.case by blast
  then show ?thesis by blast
qed

lemma build_phases:
  "build_with_reachability_roots orders canonicalize rms eps runtime_eps test_eps files = Some (g, exceeded) \<longleftrightarrow>
   (\<exists>g1 g2 g3 g4. phases orders (map snd (modules_by_id rms))
      (build_input canonicalize rms eps runtime_eps test_eps files) (g1, g2, g3, g4, g, exceeded))"
proof
  let ?inp = "build_input canonicalize rms eps runtime_eps test_eps files"
  let ?visited = "map snd (modules_by_id rms)"
  define g1 where "g1 = populate_references (pe_module_by_id ?inp) (pe_entry_point_ids ?inp) (populate_edges ?inp)"
  assume b: "build_with_reachability_roots orders canonicalize rms eps runtime_eps test_eps files = Some (g, exceeded)"
  obtain g2 where 2: "propagate_cross_package_aliases orders ?visited g1 = Some g2" "g2 = g1\<lparr>modules := modules g2\<rparr>"
      "list_all2 module_grows (modules g1) (modules g2)" using aliases_grow by blast
  obtain g3 where 3: "propagate_namespace_re_exports orders ?visited g2 = Some g3" "g3 = g2\<lparr>modules := modules g3\<rparr>"
      "list_all2 module_grows (modules g2) (modules g3)" using namespace_re_exports_grow by blast
  obtain g4 where 4: "mark_reachable g3 (pe_entry_point_ids ?inp) (pe_runtime_entry_point_ids ?inp)
       (pe_test_entry_point_ids ?inp) (pe_total_capacity ?inp) = Some g4" "g4 = g3\<lparr>modules := modules g4\<rparr>"
      "map frame (modules g4) = map frame (modules g3)" "map exports (modules g4) = map exports (modules g3)"
    using mark_keeps [OF build_input_finite] .
  obtain cs g5 where 5: "resolve_re_export_chains (visit_refs orders) g4 = Some (cs, g5, exceeded)" "g = g5\<lparr>re_export_cycles := cs\<rparr>"
    using b unfolding build_with_reachability_roots_def Let_def g1_def [symmetric] 2(1) 3(1) 4(1) bind.simps
    by (auto split: bind_splits)
  show "\<exists>g1 g2 g3 g4. phases orders ?visited ?inp (g1, g2, g3, g4, g, exceeded)"
    using g1_def 2 3 4 5 resolution_grows [OF 5(1)] unfolding phases_def prod.case by blast
next
  assume "\<exists>g1 g2 g3 g4. phases orders (map snd (modules_by_id rms))
      (build_input canonicalize rms eps runtime_eps test_eps files) (g1, g2, g3, g4, g, exceeded)"
  then show "build_with_reachability_roots orders canonicalize rms eps runtime_eps test_eps files = Some (g, exceeded)"
    by (auto simp: phases_def build_with_reachability_roots_def Let_def)
qed

lemma phases_frames:
  assumes "phases orders visited inp (g1, g2, g3, g4, g, exceeded)"
  shows "map frame (modules g1) = map frame (modules (populate_edges inp))"
    "map frame (modules g2) = map frame (modules g1)" "map frame (modules g3) = map frame (modules g2)"
    "map frame (modules g4) = map frame (modules g3)" "map frame (modules g) = map frame (modules g4)"
  using assms frames_grow populate_references_grows [of "pe_module_by_id inp" "pe_entry_point_ids inp" "populate_edges inp"]
  unfolding phases_def by (auto simp: ModuleGraph.select_convs)

lemma phases_fields:
  assumes "phases orders visited inp (g1, g2, g3, g4, g, exceeded)"
  shows "edges g1 = edges (populate_edges inp)" "edges g2 = edges g1" "edges g3 = edges g2" "edges g4 = edges g3"
    "edges g = edges g4" "entry_points g = pe_entry_point_ids inp" "runtime_entry_points g = pe_runtime_entry_point_ids inp"
    "test_entry_points g = pe_test_entry_point_ids inp" "reverse_deps g = reverse_deps (populate_edges inp)"
proof -
  let ?rest = "\<lambda>x. (edges x, entry_points x, runtime_entry_points x, test_entry_points x, reverse_deps x)"
  have rest: "?rest x = ?rest y" if "x = y\<lparr>modules := modules x\<rparr>" for x y :: ModuleGraph
    by (subst that, simp)+
  have "g1 = (populate_edges inp)\<lparr>modules := modules g1\<rparr>"
    using assms populate_references_grows unfolding phases_def by blast
  then have 1: "?rest g1 = ?rest (populate_edges inp)" by (rule rest)
  obtain cs g5 where 5: "g5 = g4\<lparr>modules := modules g5\<rparr>" "g = g5\<lparr>re_export_cycles := cs\<rparr>"
      "g2 = g1\<lparr>modules := modules g2\<rparr>" "g3 = g2\<lparr>modules := modules g3\<rparr>" "g4 = g3\<lparr>modules := modules g4\<rparr>"
    using assms unfolding phases_def by blast
  have "?rest g = ?rest g5" by (simp add: 5(2))
  with rest [OF 5(1)] have 6: "?rest g = ?rest g4" by simp
  have 0: "entry_points (populate_edges inp) = pe_entry_point_ids inp"
      "runtime_entry_points (populate_edges inp) = pe_runtime_entry_point_ids inp"
      "test_entry_points (populate_edges inp) = pe_test_entry_point_ids inp"
    by (simp_all add: populate_edges_def split: prod.split)
  show "edges g1 = edges (populate_edges inp)" "edges g2 = edges g1" "edges g3 = edges g2" "edges g4 = edges g3"
    "edges g = edges g4" "entry_points g = pe_entry_point_ids inp" "runtime_entry_points g = pe_runtime_entry_point_ids inp"
    "test_entry_points g = pe_test_entry_point_ids inp" "reverse_deps g = reverse_deps (populate_edges inp)"
    using 0 1 6 rest [OF 5(3)] rest [OF 5(4)] rest [OF 5(5)] by simp_all
qed

section \<open>The flags of the result\<close>

lemma phases_flags:
  assumes "phases orders visited inp (g1, g2, g3, g4, g, exceeded)"
    and "finite (pe_entry_point_ids inp)" "finite (pe_runtime_entry_point_ids inp)" "finite (pe_test_entry_point_ids inp)"
    and i: "i < length (modules g)"
  shows "node_flags (modules g ! i) = \<lparr>nf_entry = is_entry_point (modules (populate_edges inp) ! i),
    nf_reachable = i \<in> reached g (pe_total_capacity inp) (entry_points g),
    nf_runtime = i \<in> reached g (pe_total_capacity inp) (runtime_entry_points g),
    nf_test = i \<in> reached g (pe_total_capacity inp) (test_entry_points g),
    nf_cjs = has_cjs_exports (modules (populate_edges inp) ! i)\<rparr>"
proof -
  note fr = phases_frames [OF assms(1)] and fi = phases_fields [OF assms(1)]
  have l: "length (modules g) = length (modules g4)" "length (modules g4) = length (modules g3)"
      "length (modules g3) = length (modules (populate_edges inp))"
    using fr by (metis length_map)+
  have r: "reached g3 cap starts = reached g cap starts" for cap starts
    using fr(4,5) fi(4,5) by (intro frames_reached) simp_all
  have m: "mark_reachable g3 (pe_entry_point_ids inp) (pe_runtime_entry_point_ids inp)
       (pe_test_entry_point_ids inp) (pe_total_capacity inp) = Some g4"
    using assms(1) by (simp add: phases_def)
  have "i < length (modules g3)" using i l by simp
  from mark_reachable_result [OF assms(2-4) this, of "pe_total_capacity inp"] m
  have f4: "node_flags (modules g4 ! i) = marked g3 (pe_total_capacity inp) (pe_entry_point_ids inp)
      (pe_runtime_entry_point_ids inp) (pe_test_entry_point_ids inp) i"
    by auto
  have "list_all2 module_grows (modules g4) (modules g)" using assms(1) by (auto simp: phases_def)
  then have "module_grows (modules g4 ! i) (modules g ! i)" using i l by (simp add: list_all2_conv_all_nth)
  then have "flags (modules g ! i) = flags (modules g4 ! i)" by (rule flags_grow)
  then have "node_flags (modules g ! i) = node_flags (modules g4 ! i)" by (simp add: node_flags_bits)
  moreover have "frame (modules g3 ! i) = frame (modules (populate_edges inp) ! i)"
    using fr(1-3) i l by (intro frame_nth) simp_all
  then have "is_entry_point (modules g3 ! i) = is_entry_point (modules (populate_edges inp) ! i)"
      "has_cjs_exports (modules g3 ! i) = has_cjs_exports (modules (populate_edges inp) ! i)"
    by (simp_all add: frame_def)
  ultimately show ?thesis using f4 r fi(6-8) by (simp add: marked_def node_flags_def)
qed

lemma built_flags:
  assumes "i < length (pe_files inp)"
  shows "is_entry_point (modules (populate_edges inp) ! i) \<longleftrightarrow> df_id (pe_files inp ! i) \<in> pe_entry_point_ids inp"
    "has_cjs_exports (modules (populate_edges inp) ! i) \<longleftrightarrow>
      (case pe_module_by_id inp (df_id (pe_files inp ! i)) of None \<Rightarrow> False | Some r \<Rightarrow> rm_has_cjs_exports r)"
proof -
  let ?f = "pe_files inp ! i"
  have "node_of inp ?f (modules (populate_edges inp) ! i)"
    using populate_edges_storage [of inp] assms by (simp add: storage_ok_def list_all2_conv_all_nth)
  then have m: "modules (populate_edges inp) ! i = (modules (populate_edges inp) ! i)\<lparr>flags :=
      flags_from (df_id ?f \<in> pe_entry_point_ids inp) False
        (case pe_module_by_id inp (df_id ?f) of None \<Rightarrow> False | Some r \<Rightarrow> rm_has_cjs_exports r)\<rparr>"
    unfolding node_of_def build_module_node_def Let_def by (metis (no_types, lifting) ModuleNode.update_convs(6))
  have "nf_entry (node_flags (modules (populate_edges inp) ! i)) = (df_id ?f \<in> pe_entry_point_ids inp)"
    by (subst m, subst node_flags_flags_from) simp
  then show "is_entry_point (modules (populate_edges inp) ! i) \<longleftrightarrow> df_id ?f \<in> pe_entry_point_ids inp"
    by (simp add: node_flags_def)
  have "nf_cjs (node_flags (modules (populate_edges inp) ! i)) =
      (case pe_module_by_id inp (df_id ?f) of None \<Rightarrow> False | Some r \<Rightarrow> rm_has_cjs_exports r)"
    by (subst m, subst node_flags_flags_from) simp
  then show "has_cjs_exports (modules (populate_edges inp) ! i) \<longleftrightarrow>
      (case pe_module_by_id inp (df_id ?f) of None \<Rightarrow> False | Some r \<Rightarrow> rm_has_cjs_exports r)"
    by (simp add: node_flags_def)
qed

lemma populated_ids: "map file_id (modules (populate_edges inp)) = map df_id (pe_files inp)"
  using populate_edges_storage [of inp] node_fields(1)
  by (auto simp: storage_ok_def list_all2_conv_all_nth intro!: nth_equalityI)

lemma build_input_fields:
  "pe_files (build_input canonicalize rms eps runtime_eps test_eps files) = files"
  "pe_module_by_id (build_input canonicalize rms eps runtime_eps test_eps files) = map_of (modules_by_id rms)"
  "pe_total_capacity (build_input canonicalize rms eps runtime_eps test_eps files) = total_capacity_of files"
  by (simp_all add: build_input_def Let_def)

text \<open>
  C10. Construction ends for every project whose re-exports can be numbered in 32 bits, whatever
  the orders of the hash maps: the graph has one node per file, in their order, and the flags of
  each node say whether its file is an entry point, whether the runtime, test and all entry points
  of the graph reach it over its edges, and whether its module has CommonJS exports.
\<close>

theorem construction_ends_with_reachability:
  assumes "2 * re_export_count rms files \<le> U32_MAX"
  shows "\<exists>g exceeded. build_with_reachability_roots orders canonicalize rms eps runtime_eps test_eps files = Some (g, exceeded) \<and>
    map file_id (modules g) = map df_id files \<and>
    (\<forall>i < length files. node_flags (modules g ! i) =
      \<lparr>nf_entry = df_id (files ! i) \<in> entry_points g,
       nf_reachable = i \<in> reached g (total_capacity_of files) (entry_points g),
       nf_runtime = i \<in> reached g (total_capacity_of files) (runtime_entry_points g),
       nf_test = i \<in> reached g (total_capacity_of files) (test_entry_points g),
       nf_cjs = (case map_of (modules_by_id rms) (df_id (files ! i)) of None \<Rightarrow> False | Some r \<Rightarrow> rm_has_cjs_exports r)\<rparr>)"
proof -
  let ?inp = "build_input canonicalize rms eps runtime_eps test_eps files"
  have "length (collect_re_export_tuples (modules (populate_edges ?inp))) \<le> re_export_count rms files"
    using built_tuples [of ?inp] by (simp add: build_input_fields re_export_count_def)
  then have "2 * length (collect_re_export_tuples (modules (populate_edges ?inp))) \<le> U32_MAX" using assms by simp
  from phases_exist [OF build_input_finite this] obtain g1 g2 g3 g4 g exceeded where
    p: "phases orders (map snd (modules_by_id rms)) ?inp (g1, g2, g3, g4, g, exceeded)" by blast
  note fr = phases_frames [OF p] and fi = phases_fields [OF p]
  have ids: "map file_id (modules g) = map file_id (modules (populate_edges ?inp))"
    by (rule frames_map) (use fr in \<open>simp_all add: frame_def\<close>)
  then have "map file_id (modules g) = map df_id files" by (simp add: populated_ids build_input_fields)
  moreover from this have "length (modules g) = length files" by (metis length_map)
  ultimately show ?thesis
    using p phases_flags [OF p build_input_finite] built_flags [of _ ?inp] fi(6)
    by (intro exI [of _ g] exI [of _ exceeded]) (auto simp: build_phases build_input_fields)
qed

end
