(* ===== verification/Re_Export_Settling.thy ===== *)
theory Re_Export_Settling
  imports Re_Exports
begin

text \<open>
  Why the cap of the propagation of re-exports is enough (\<^verbatim>\<open>graph/src/graph/re_exports/mod.rs\<close>):
  without a re-export cycle the entries can be ranked, an entry after the ones that change its
  barrel or add exports to its source, and a pass settles one more rank. A graph for which no cycle
  is reported never exceeds the cap.
\<close>

section \<open>Star references into one source\<close>

type_synonym source_state = "ModuleNode \<times> (FileId \<times> string) set"

text \<open>
  What a step does to its source module: the exports grow, new ones appear only when the flag
  allows it, and a stub is recorded only for a name the module did not export.
\<close>

definition source_step :: "FileId \<Rightarrow> bool \<Rightarrow> source_state \<Rightarrow> source_state \<Rightarrow> bool" where
  "source_step sid star s t \<longleftrightarrow> module_grows (fst s) (fst t) \<and>
     (\<not> star \<longrightarrow> length (exports (fst t)) = length (exports (fst s))) \<and>
     (\<forall>x \<in> snd t. x \<notin> snd s \<longrightarrow> fst x = sid \<and>
        first_index (\<lambda>e. export_name e = export_name_of (snd x)) (exports (fst s)) = None)"

text \<open>What an entry for the source can see of such a step, and of one for another source.\<close>

definition source_seen :: "FileId \<Rightarrow> bool \<Rightarrow> source_state \<Rightarrow> source_state \<Rightarrow> bool" where
  "source_seen sid star s t \<longleftrightarrow> module_grows (fst s) (fst t) \<and>
     (\<not> star \<longrightarrow> length (exports (fst t)) = length (exports (fst s))) \<and>
     (\<forall>n. (sid, n) \<in> snd t \<longrightarrow> (sid, n) \<notin> snd s \<longrightarrow>
        first_index (\<lambda>e. export_name e = export_name_of n) (exports (fst s)) = None)"

lemma source_step_seen: "source_step sid star s t \<Longrightarrow> (star \<Longrightarrow> star') \<Longrightarrow> source_seen sid star' s t"
  by (auto simp: source_step_def source_seen_def)

lemma grown_exports:
  assumes "module_grows m m'"
  shows "\<exists>old new. exports m' = old @ new \<and> length old = length (exports m) \<and>
     (\<forall>i < length old. export_grows (exports m ! i) (old ! i))"
proof -
  obtain old new where "m' = m\<lparr>exports := old @ new\<rparr>" "list_all2 export_grows (exports m) old"
    using assms by (auto simp: module_grows_def)
  then show ?thesis by (intro exI [of _ old] exI [of _ new]) (simp add: list_all2_conv_all_nth)
qed

lemma export_grows_facts:
  assumes "export_grows e e'"
  shows "export_name e' = export_name e" "files_of (references e) \<subseteq> files_of (references e')"
    "exp_is_type_only e' \<Longrightarrow> exp_is_type_only e"
  using assms by (auto simp: export_grows_def files_of_def)

lemma first_index_grown:
  assumes "module_grows m m'" "first_index (\<lambda>e. export_name e = n) (exports m) = Some i"
  shows "first_index (\<lambda>e. export_name e = n) (exports m') = Some i \<and> i < length (exports m) \<and>
    export_grows (exports m ! i) (exports m' ! i)"
proof -
  obtain old new where m': "exports m' = old @ new" "length old = length (exports m)"
      "\<forall>i < length old. export_grows (exports m ! i) (old ! i)"
    using grown_exports [OF assms(1)] by blast
  have i: "i < length (exports m)" "export_name (exports m ! i) = n" "\<forall>j < i. export_name (exports m ! j) \<noteq> n"
    using assms(2) by (simp_all add: first_index_Some)
  have "export_name (old ! j) = export_name (exports m ! j)" if "j \<le> i" for j
    using export_grows_facts(1) m'(3) that i(1) m'(2) by simp
  then show ?thesis using i m' by (simp add: first_index_Some nth_append)
qed

lemma first_index_None_grown:
  assumes "module_grows m m'" "first_index (\<lambda>e. export_name e = n) (exports m') = None"
  shows "first_index (\<lambda>e. export_name e = n) (exports m) = None"
  using first_index_grown [OF assms(1)] assms(2) by (metis not_None_eq option.distinct(1))

lemma source_step_refl: "source_step sid star s s"
  by (simp add: source_step_def)

lemma source_step_trans:
  assumes "source_step sid star s t" "source_step sid star t u"
  shows "source_step sid star s u"
proof -
  have "module_grows (fst s) (fst u)" using assms module_grows_trans by (auto simp: source_step_def)
  moreover have "fst x = sid \<and> first_index (\<lambda>e. export_name e = export_name_of (snd x)) (exports (fst s)) = None"
    if "x \<in> snd u" "x \<notin> snd s" for x
  proof (cases "x \<in> snd t")
    case True
    then show ?thesis using assms(1) that(2) by (auto simp: source_step_def)
  next
    case False
    then have "fst x = sid" "first_index (\<lambda>e. export_name e = export_name_of (snd x)) (exports (fst t)) = None"
      using assms(2) that(1) by (auto simp: source_step_def)
    with first_index_None_grown [of "fst s" "fst t"] assms(1) show ?thesis by (simp add: source_step_def)
  qed
  ultimately show ?thesis using assms by (simp add: source_step_def)
qed

lemma apply_star_step: "source_step sid star st (fst (apply_star_refs_to_source sid ty star nrs st))"
proof -
  obtain name rs src stubs where st: "nrs = (name, rs)" "st = (src, stubs)" by fastforce
  have g: "module_grows src (fst (fst (apply_star_refs_to_source sid ty star nrs st)))"
    using apply_star_refs_grows [of st sid ty star nrs] by (simp add: star_grows_def st)
  then show ?thesis
    by (auto simp: source_step_def apply_star_refs_to_source_def st Let_def split: option.splits if_splits)
qed

lemma apply_star_quiet_iff:
  "\<not> snd (apply_star_refs_to_source sid ty star (n, rs) (src, stubs)) \<longleftrightarrow>
   (case first_index (\<lambda>e. export_name e = export_name_of n) (exports src) of
      Some i \<Rightarrow> files_of rs \<subseteq> files_of (references (exports src ! i)) \<and>
        (ty \<or> \<not> exp_is_type_only (exports src ! i) \<or> (sid, n) \<notin> stubs)
    | None \<Rightarrow> \<not> star)"
  by (auto simp: apply_star_refs_to_source_def Let_def new_refs_Nil_iff split: option.split)

lemma apply_star_keeps:
  assumes "source_seen sid star s t" "\<not> snd (apply_star_refs_to_source sid ty star nrs s)"
  shows "\<not> snd (apply_star_refs_to_source sid ty star nrs t)"
proof -
  obtain n rs src stubs src' stubs' where st: "nrs = (n, rs)" "s = (src, stubs)" "t = (src', stubs')" by (metis surj_pair)
  have g: "module_grows src src'" using assms(1) by (simp add: source_seen_def st)
  show ?thesis
  proof (cases "first_index (\<lambda>e. export_name e = export_name_of n) (exports src)")
    case None
    then have ns: "\<not> star" using assms(2) unfolding st apply_star_quiet_iff by simp
    obtain old new where m': "exports src' = old @ new" "length old = length (exports src)"
      "\<forall>i < length old. export_grows (exports src ! i) (old ! i)"
      using grown_exports [OF g] by blast
    have "new = []" using ns m'(1,2) assms(1) by (simp add: source_seen_def st)
    then have "\<forall>e \<in> set (exports src'). export_name e \<noteq> export_name_of n"
      using None m' export_grows_facts(1) by (fastforce simp: first_index_None in_set_conv_nth)
    then have "first_index (\<lambda>e. export_name e = export_name_of n) (exports src') = None"
      by (simp add: first_index_None)
    with ns show ?thesis unfolding st apply_star_quiet_iff by simp
  next
    case (Some i)
    from first_index_grown [OF g this] have i: "first_index (\<lambda>e. export_name e = export_name_of n) (exports src') = Some i"
      "export_grows (exports src ! i) (exports src' ! i)" by simp_all
    have "(sid, n) \<in> stubs' \<Longrightarrow> (sid, n) \<in> stubs" using assms(1) Some by (fastforce simp: source_seen_def st)
    then show ?thesis
      using assms(2) export_grows_facts [OF i(2)] Some i(1) unfolding st apply_star_quiet_iff by auto
  qed
qed

lemma new_refs_complete: "files_of rs \<subseteq> fs \<union> files_of (new_refs fs rs)"
proof (induction rs arbitrary: fs)
  case (Cons r rs)
  show ?case using Cons [of fs] Cons [of "insert (from_file r) fs"] by (auto simp: files_of_def)
qed (simp add: files_of_def)

lemma first_index_update:
  assumes "first_index (\<lambda>e. export_name e = n) es = Some i" "export_name e = export_name (es ! i)"
  shows "first_index (\<lambda>e. export_name e = n) (es[i := e]) = Some i"
  using assms by (auto simp: first_index_Some)

lemma apply_star_settles:
  "\<not> snd (apply_star_refs_to_source sid ty star nrs (fst (apply_star_refs_to_source sid ty star nrs s)))"
proof -
  obtain n rs src stubs where st: "nrs = (n, rs)" "s = (src, stubs)" by (metis surj_pair)
  let ?p = "\<lambda>e. export_name e = export_name_of n"
  show ?thesis
  proof (cases "first_index ?p (exports src)")
    case None
    show ?thesis
    proof (cases star)
      case True
      have "first_index ?p (exports src @ [star_stub n ty rs]) = Some (length (exports src))"
        using None by (auto simp: first_index_Some first_index_None nth_append star_stub_def)
      then show ?thesis
        using True None by (simp add: st apply_star_refs_to_source_def star_stub_def new_refs_Nil_iff)
    next
      case False
      then show ?thesis using None by (simp add: st apply_star_refs_to_source_def)
    qed
  next
    case (Some i)
    let ?e = "exports src ! i"
    define re where "re = (\<not> ty \<and> exp_is_type_only ?e \<and> (sid, n) \<in> stubs)"
    define e1 where "e1 = (if re then ?e\<lparr>exp_is_type_only := False\<rparr> else ?e)"
    define e2 where "e2 = e1\<lparr>references := references e1 @ new_refs (files_of (references e1)) rs\<rparr>"
    have 1: "fst (apply_star_refs_to_source sid ty star nrs s) = (src\<lparr>exports := (exports src)[i := e2]\<rparr>, stubs)"
      using Some by (simp add: st apply_star_refs_to_source_def Let_def re_def e1_def e2_def)
    have i: "i < length (exports src)" using Some by (simp add: first_index_Some)
    have "export_name e2 = export_name ?e" by (simp add: e2_def e1_def)
    then have "first_index ?p ((exports src)[i := e2]) = Some i" by (rule first_index_update [OF Some])
    moreover have "files_of rs \<subseteq> files_of (references e2)"
      using new_refs_complete [of rs "files_of (references e1)"] by (auto simp: e2_def files_of_def)
    moreover have "ty \<or> \<not> exp_is_type_only e2 \<or> (sid, n) \<notin> stubs" by (auto simp: e2_def e1_def re_def)
    ultimately show ?thesis using i unfolding 1 unfolding st(1) apply_star_quiet_iff by simp
  qed
qed

interpretation star_source: ranked_propagation "apply_star_refs_to_source sid ty star" "source_step sid star" "\<lambda>_. True" UNIV "\<lambda>_. 0"
  for sid ty star
proof
  show "source_step sid star s s" for s by (rule source_step_refl)
  show "source_step sid star s u" if "source_step sid star s t" "source_step sid star t u" for s t u
    using that by (rule source_step_trans)
  show "source_step sid star s (fst (apply_star_refs_to_source sid ty star e s))" for s e by (rule apply_star_step)
  show "fst (apply_star_refs_to_source sid ty star e s) = s" if "\<not> snd (apply_star_refs_to_source sid ty star e s)" for s e
    using that by (rule apply_star_refs_unchanged)
  show "\<not> snd (apply_star_refs_to_source sid ty star e (fst (apply_star_refs_to_source sid ty star e s)))" for s e
    by (rule apply_star_settles)
  show "\<not> snd (apply_star_refs_to_source sid ty star e (fst (apply_star_refs_to_source sid ty star e' s)))"
    if "\<not> snd (apply_star_refs_to_source sid ty star e s)" for s e e'
    using source_step_seen [OF apply_star_step] that by (rule apply_star_keeps)
qed simp_all

section \<open>One re-export edge among others\<close>

text \<open>An entry that adds exports to its source: a star re-export whose barrel no entry point exposes.\<close>

definition creates :: "FileId set \<Rightarrow> ModuleNode list \<Rightarrow> ReExportTuple \<Rightarrow> bool" where
  "creates T ms e \<longleftrightarrow> rt_exported_name e = ''*'' \<and> \<not> is_entry_point (ms ! barrel e) \<and> file_id (ms ! barrel e) \<notin> T"

definition in_range :: "ModuleNode list \<Rightarrow> ReExportTuple \<Rightarrow> bool" where
  "in_range ms e \<longleftrightarrow> barrel e < length ms \<and> source e < length ms"

definition source_of :: "ReExportTuple \<Rightarrow> propagation_state \<Rightarrow> source_state" where
  "source_of e st = (fst st ! source e, snd st)"

lemma has_star_grows: "module_grows m m' \<Longrightarrow> has_star m' = has_star m"
  by (auto simp: module_grows_def has_star_def)

lemma source_step_any: "source_step sid False s t \<Longrightarrow> source_step sid star s t"
  by (simp add: source_step_def)

lemma credit_map_step:
  assumes "\<And>e. export_grows e (h e)"
  shows "source_step sid False (m, stubs) (m\<lparr>exports := map h (exports m)\<rparr>, stubs)"
  using module_grows_map [of h m, OF assms] by (simp add: source_step_def)

lemma credit_grows: "export_grows x (if p x then credit_barrel b x else x)"
  by (auto simp: credit_barrel_def)

lemma entry_effect:
  "fst (fst (propagate_re_export_entry order es ebt T e (ms, stubs))) =
     ms[source e := fst (source_of e (fst (propagate_re_export_entry order es ebt T e (ms, stubs))))] \<and>
   source_step (source e) (creates T ms e \<and> has_star (ms ! source e)) (ms ! source e, stubs)
     (source_of e (fst (propagate_re_export_entry order es ebt T e (ms, stubs))))"
proof (cases "in_range ms e")
  case False
  then show ?thesis
    by (auto simp: in_range_def propagate_re_export_entry_def source_of_def source_step_refl list_update_id)
next
  case True
  then have s: "source e < length ms" and b: "barrel e < length ms" by (simp_all add: in_range_def)
  have credit: "fst (fst (credit_exports p (barrel e) (source e) (ms, stubs))) =
       ms[source e := fst (source_of e (fst (credit_exports p (barrel e) (source e) (ms, stubs))))] \<and>
     source_step (source e) False (ms ! source e, stubs) (source_of e (fst (credit_exports p (barrel e) (source e) (ms, stubs))))"
    for p
    using s credit_map_step [OF credit_grows [of _ p "barrel e"], of "source e" "ms ! source e" stubs]
    by (simp add: credit_exports_def Let_def source_of_def)
  show ?thesis
  proof (cases "rt_exported_name e = ''*''")
    case star: True
    show ?thesis
    proof (cases "creates T ms e")
      case True
      let ?run = "run_pass (apply_star_refs_to_source (source e) (rt_is_type_only e) (has_star (ms ! source e)))
        (order (collect_star_refs_by_name ms es ebt (file_id (ms ! barrel e)) (barrel e))) (ms ! source e, stubs)"
      have "fst (propagate_re_export_entry order es ebt T e (ms, stubs)) = (ms[source e := fst (fst ?run)], snd (fst ?run))"
        using True star s b by (simp add: propagate_re_export_entry_def propagate_star_re_export_def creates_def Let_def
            split: prod.split)
      moreover have "source_step (source e) (has_star (ms ! source e)) (ms ! source e, stubs) (fst ?run)"
        by (rule star_source.run_pass_grows)
      ultimately show ?thesis using True s by (simp add: source_of_def)
    next
      case False
      then have "propagate_re_export_entry order es ebt T e (ms, stubs) =
          credit_exports (\<lambda>x. export_name x \<noteq> ExpDefault) (barrel e) (source e) (ms, stubs)"
        using star s b by (auto simp: propagate_re_export_entry_def propagate_star_re_export_def creates_def
            propagate_entry_point_star_def)
      then show ?thesis using credit False by simp
    qed
  next
    case named: False
    define refs where
      "refs = concat (map references (filter (\<lambda>x. matches_str (export_name x) (rt_exported_name e)) (exports (ms ! barrel e))))"
    note def = propagate_named_re_export_def [of e "(ms, stubs)", unfolded prod.case Let_def, folded refs_def]
    have p: "propagate_re_export_entry order es ebt T e (ms, stubs) = propagate_named_re_export e (ms, stubs)"
      using named s b by (simp add: propagate_re_export_entry_def)
    have c: "\<not> creates T ms e" using named by (simp add: creates_def)
    show ?thesis
    proof (cases "refs = []")
      case True
      then show ?thesis
        using credit c by (auto simp: p def propagate_entry_point_named_def source_of_def source_step_refl list_update_id)
    next
      case False
      have "export_grows x (if q x then x\<lparr>references := references x @ h x\<rparr> else x)" for x q h by auto
      from credit_map_step [OF this] show ?thesis using False c s by (simp add: p def source_of_def)
    qed
  qed
qed

section \<open>When an edge stays settled\<close>

lemma same_exports_grow:
  assumes "source_seen sid False s t"
  shows "list_all2 export_grows (exports (fst s)) (exports (fst t))"
proof -
  obtain old new where e: "exports (fst t) = old @ new" "length old = length (exports (fst s))"
      "\<forall>i < length old. export_grows (exports (fst s) ! i) (old ! i)"
    using grown_exports [of "fst s" "fst t"] assms by (auto simp: source_seen_def)
  moreover have "new = []" using e(1,2) assms by (simp add: source_seen_def)
  ultimately show ?thesis by (simp add: list_all2_conv_all_nth)
qed

lemma same_exports_back:
  assumes "source_seen sid False s t" "x' \<in> set (exports (fst t))"
  shows "\<exists>x \<in> set (exports (fst s)). export_name x' = export_name x \<and> files_of (references x) \<subseteq> files_of (references x')"
proof -
  obtain i where "i < length (exports (fst t))" "exports (fst t) ! i = x'" using assms(2) by (auto simp: in_set_conv_nth)
  with same_exports_grow [OF assms(1)] have "export_grows (exports (fst s) ! i) x'" "exports (fst s) ! i \<in> set (exports (fst s))"
    by (auto simp: list_all2_conv_all_nth)
  with export_grows_facts show ?thesis by blast
qed

text \<open>What makes an entry change nothing, read off the barrel and the source.\<close>

definition star_refs ::
  "(ref_map \<Rightarrow> ref_map) \<Rightarrow> Edge list \<Rightarrow> (FileId \<Rightarrow> nat list option) \<Rightarrow> ModuleNode list \<Rightarrow> ReExportTuple \<Rightarrow> ref_map" where
  "star_refs order es ebt ms e = order (collect_star_refs_by_name ms es ebt (file_id (ms ! barrel e)) (barrel e))"

definition barrel_refs :: "ModuleNode list \<Rightarrow> ReExportTuple \<Rightarrow> SymbolReference list" where
  "barrel_refs ms e =
     concat (map references (filter (\<lambda>x. matches_str (export_name x) (rt_exported_name e)) (exports (ms ! barrel e))))"

lemma star_refs_cong: "ms' ! barrel e = ms ! barrel e \<Longrightarrow> star_refs order es ebt ms' e = star_refs order es ebt ms e"
  by (simp add: star_refs_def collect_star_refs_by_name_def)

lemma creates_cong: "ms' ! barrel e = ms ! barrel e \<Longrightarrow> creates T ms' e = creates T ms e"
  by (simp add: creates_def)

definition entry_quiet ::
  "(ref_map \<Rightarrow> ref_map) \<Rightarrow> Edge list \<Rightarrow> (FileId \<Rightarrow> nat list option) \<Rightarrow> FileId set \<Rightarrow> ReExportTuple \<Rightarrow>
   propagation_state \<Rightarrow> bool" where
  "entry_quiet order es ebt T e st \<longleftrightarrow> \<not> snd (propagate_re_export_entry order es ebt T e st)"

lemma quiet_creator:
  assumes "in_range ms e" "creates T ms e"
  shows "entry_quiet order es ebt T e (ms, stubs) \<longleftrightarrow>
    (\<forall>nrs \<in> set (star_refs order es ebt ms e).
       \<not> snd (apply_star_refs_to_source (source e) (rt_is_type_only e) (has_star (ms ! source e)) nrs (source_of e (ms, stubs))))"
proof -
  let ?run = "run_pass (apply_star_refs_to_source (source e) (rt_is_type_only e) (has_star (ms ! source e)))
    (star_refs order es ebt ms e) (ms ! source e, stubs)"
  have "snd (propagate_re_export_entry order es ebt T e (ms, stubs)) = snd ?run"
    using assms by (simp add: propagate_re_export_entry_def propagate_star_re_export_def creates_def in_range_def Let_def
        star_refs_def split: prod.split)
  then show ?thesis
    using star_source.run_pass_quiet(2) [of "source e" "rt_is_type_only e" "has_star (ms ! source e)"
        "star_refs order es ebt ms e" "(ms ! source e, stubs)"]
      star_source.quiet_pass [of "star_refs order es ebt ms e" "source e" "rt_is_type_only e" "has_star (ms ! source e)"
        "(ms ! source e, stubs)"]
    by (auto simp: entry_quiet_def source_of_def)
qed

lemma quiet_exposed_star:
  assumes "in_range ms e" "rt_exported_name e = ''*''" "\<not> creates T ms e"
  shows "entry_quiet order es ebt T e (ms, stubs) \<longleftrightarrow>
    (\<forall>x \<in> set (exports (ms ! source e)). export_name x \<noteq> ExpDefault \<longrightarrow> barrel e \<in> files_of (references x))"
  using assms by (auto simp: entry_quiet_def propagate_re_export_entry_def propagate_star_re_export_def creates_def
      in_range_def propagate_entry_point_star_def credit_exports_def Let_def)

lemma quiet_named:
  assumes "in_range ms e" "rt_exported_name e \<noteq> ''*''"
  shows "entry_quiet order es ebt T e (ms, stubs) \<longleftrightarrow>
    (\<forall>x \<in> set (exports (ms ! source e)). matches_str (export_name x) (rt_imported_name e) \<longrightarrow>
       (if barrel_refs ms e = [] then is_entry_point (ms ! barrel e) \<longrightarrow> barrel e \<in> files_of (references x)
        else files_of (barrel_refs ms e) \<subseteq> files_of (references x)))"
proof -
  have "propagate_re_export_entry order es ebt T e (ms, stubs) = propagate_named_re_export e (ms, stubs)"
    using assms by (simp add: propagate_re_export_entry_def in_range_def)
  moreover note def = propagate_named_re_export_def [of e "(ms, stubs)", unfolded prod.case Let_def, folded barrel_refs_def]
  ultimately show ?thesis
    by (cases "barrel_refs ms e = []")
      (auto simp: entry_quiet_def def propagate_entry_point_named_def credit_exports_def Let_def files_of_def filter_empty_conv)
qed

lemma quiet_keeps:
  assumes "entry_quiet order es ebt T e (ms, stubs)" "length ms' = length ms" "ms' ! barrel e = ms ! barrel e"
    and step: "source_seen (source e) (creates T ms e \<and> has_star (ms ! source e)) (ms ! source e, stubs) (ms' ! source e, stubs')"
  shows "entry_quiet order es ebt T e (ms', stubs')"
proof (cases "in_range ms e")
  case False
  then show ?thesis using assms(2) by (auto simp: entry_quiet_def propagate_re_export_entry_def in_range_def)
next
  case True
  then have r: "in_range ms' e" using assms(2) by (simp add: in_range_def)
  have refs: "barrel_refs ms' e = barrel_refs ms e" using assms(3) by (simp add: barrel_refs_def)
  show ?thesis
  proof (cases "creates T ms e")
    case c: True
    then have c': "creates T ms' e" using creates_cong [OF assms(3)] by simp
    have star: "has_star (ms' ! source e) = has_star (ms ! source e)"
      using step by (intro has_star_grows) (simp add: source_seen_def)
    have "source_seen (source e) (has_star (ms ! source e)) (ms ! source e, stubs) (ms' ! source e, stubs')"
      using step c by simp
    from apply_star_keeps [OF this] show ?thesis
      using assms(1) unfolding quiet_creator [OF True c] quiet_creator [OF r c'] star_refs_cong [OF assms(3)] star
      by (simp add: source_of_def)
  next
    case c: False
    then have c': "\<not> creates T ms' e" using creates_cong [OF assms(3)] by simp
    have "source_seen (source e) False (ms ! source e, stubs) (ms' ! source e, stubs')" using step c by simp
    note bwd = same_exports_back [OF this, unfolded fst_conv]
    show ?thesis
    proof (cases "rt_exported_name e = ''*''")
      case star: True
      show ?thesis
        using assms(1) unfolding quiet_exposed_star [OF True star c] quiet_exposed_star [OF r star c']
        using bwd by (metis subsetD)
    next
      case named: False
      show ?thesis
        using assms(1) unfolding quiet_named [OF True named] quiet_named [OF r named] refs assms(3)
        using bwd by (fastforce split: if_splits)
    qed
  qed
qed

section \<open>An entry settles its own edge\<close>

lemma credited_everywhere:
  "\<forall>x \<in> set (map (\<lambda>x. if p x then credit_barrel b x else x) es). p x \<longrightarrow> b \<in> files_of (references x)"
  if "\<And>x. p (credit_barrel b x) = p x"
  using that by (auto simp: credit_barrel_def files_of_def barrel_ref_def)

lemma missing_added: "files_of rs \<subseteq> files_of (xs @ filter (\<lambda>r. from_file r \<notin> files_of xs) rs)"
proof
  fix f assume "f \<in> files_of rs"
  then obtain r where "r \<in> set rs" "from_file r = f" by (auto simp: files_of_def)
  then show "f \<in> files_of (xs @ filter (\<lambda>r. from_file r \<notin> files_of xs) rs)"
    by (cases "f \<in> files_of xs") (auto simp: files_of_def)
qed

lemma entry_settles:
  assumes "barrel e \<noteq> source e"
  shows "entry_quiet order es ebt T e (fst (propagate_re_export_entry order es ebt T e (ms, stubs)))"
proof (cases "in_range ms e")
  case False
  then show ?thesis by (auto simp: entry_quiet_def propagate_re_export_entry_def in_range_def)
next
  case True
  define t where "t = fst (propagate_re_export_entry order es ebt T e (ms, stubs))"
  obtain ms' stubs' where t': "t = (ms', stubs')" by fastforce
  have eff: "ms' = ms[source e := ms' ! source e]"
      "source_step (source e) (creates T ms e \<and> has_star (ms ! source e)) (ms ! source e, stubs) (ms' ! source e, stubs')"
    using entry_effect [of order es ebt T e ms stubs] unfolding t_def [symmetric] t' by (simp_all add: source_of_def)
  have l: "length ms' = length ms" by (subst eff(1)) simp
  have b: "ms' ! barrel e = ms ! barrel e" by (subst eff(1)) (simp add: assms [symmetric])
  have r: "in_range ms' e" using True l by (simp add: in_range_def)
  have s: "source e < length ms" using True by (simp add: in_range_def)
  show ?thesis unfolding t_def [symmetric] t'
  proof (cases "creates T ms e")
    case c: True
    let ?apply = "apply_star_refs_to_source (source e) (rt_is_type_only e) (has_star (ms ! source e))"
    let ?run = "run_pass ?apply (star_refs order es ebt ms e) (ms ! source e, stubs)"
    have "t = (ms[source e := fst (fst ?run)], snd (fst ?run))"
      using c True by (simp add: t_def propagate_re_export_entry_def propagate_star_re_export_def creates_def in_range_def
          Let_def star_refs_def split: prod.split)
    then have so: "source_of e (ms', stubs') = fst ?run" using s by (simp add: source_of_def t')
    have star: "has_star (ms' ! source e) = has_star (ms ! source e)"
      using eff(2) by (intro has_star_grows) (simp add: source_step_def)
    have "star_source.quiet_below (source e) (rt_is_type_only e) (has_star (ms ! source e)) 0 (ms ! source e, stubs)"
      by (simp add: star_source.quiet_below_def)
    from star_source.run_pass_settles [OF this subset_UNIV]
    show "entry_quiet order es ebt T e (ms', stubs')"
      unfolding quiet_creator [OF r creates_cong [THEN iffD2, OF b c]] star_refs_cong [OF b] star so by simp
  next
    case c: False
    then have c': "\<not> creates T ms' e" using creates_cong [OF b] by simp
    have credit: "exports (fst (fst (credit_exports p (barrel e) (source e) (ms, stubs))) ! source e) =
        map (\<lambda>x. if p x then credit_barrel (barrel e) x else x) (exports (ms ! source e))" for p
      using s by (simp add: credit_exports_def Let_def)
    have name [simp]: "export_name (credit_barrel b x) = export_name x" for b x by (simp add: credit_barrel_def)
    show "entry_quiet order es ebt T e (ms', stubs')"
    proof (cases "rt_exported_name e = ''*''")
      case star: True
      have "t = fst (credit_exports (\<lambda>x. export_name x \<noteq> ExpDefault) (barrel e) (source e) (ms, stubs))"
        using c True star by (auto simp: t_def propagate_re_export_entry_def propagate_star_re_export_def creates_def
            in_range_def propagate_entry_point_star_def)
      then have "exports (ms' ! source e) =
          map (\<lambda>x. if export_name x \<noteq> ExpDefault then credit_barrel (barrel e) x else x) (exports (ms ! source e))"
        using credit t' by (metis fst_conv)
      then show ?thesis
        unfolding quiet_exposed_star [OF r star c']
        using credited_everywhere [of "\<lambda>x. export_name x \<noteq> ExpDefault" "barrel e"] by simp
    next
      case named: False
      have refs: "barrel_refs ms' e = barrel_refs ms e" using b by (simp add: barrel_refs_def)
      have p: "propagate_re_export_entry order es ebt T e (ms, stubs) = propagate_named_re_export e (ms, stubs)"
        using named True by (simp add: propagate_re_export_entry_def in_range_def)
      note def = propagate_named_re_export_def [of e "(ms, stubs)", unfolded prod.case Let_def, folded barrel_refs_def]
      let ?q = "\<lambda>x. matches_str (export_name x) (rt_imported_name e)"
      show ?thesis
      proof (cases "barrel_refs ms e = []")
        case nil: True
        show ?thesis
        proof (cases "is_entry_point (ms ! barrel e)")
          case True
          then have "t = fst (credit_exports ?q (barrel e) (source e) (ms, stubs))"
            using nil by (simp add: t_def p def propagate_entry_point_named_def)
          then have "exports (ms' ! source e) =
              map (\<lambda>x. if ?q x then credit_barrel (barrel e) x else x) (exports (ms ! source e))"
            using credit t' by (metis fst_conv)
          then show ?thesis
            unfolding quiet_named [OF r named] refs b
            using nil credited_everywhere [of ?q "barrel e" "exports (ms ! source e)"] by auto
        next
          case False
          then show ?thesis unfolding quiet_named [OF r named] refs b using nil by simp
        qed
      next
        case False
        let ?es = "map (\<lambda>x. if ?q x then x\<lparr>references := references x @
            filter (\<lambda>r. from_file r \<notin> files_of (references x)) (barrel_refs ms e)\<rparr> else x) (exports (ms ! source e))"
        have "ms' = ms[source e := (ms ! source e)\<lparr>exports := ?es\<rparr>]" using False t' by (auto simp: t_def p def)
        then have "exports (ms' ! source e) = ?es" using s by simp
        then show ?thesis
          unfolding quiet_named [OF r named] refs b using False by (auto intro: subsetD [OF missing_added])
      qed
    qed
  qed
qed

section \<open>Ranks\<close>

text \<open>An entry depends on those that change its barrel, and on those that add exports to its source.\<close>

definition depends :: "ReExportTuple set \<Rightarrow> (ReExportTuple \<Rightarrow> bool) \<Rightarrow> (ReExportTuple \<times> ReExportTuple) set" where
  "depends E C = {(e', e). e' \<in> E \<and> e \<in> E \<and> (source e' = barrel e \<or> source e' = source e \<and> C e' \<and> \<not> C e)}"

definition entry_rank :: "ReExportTuple set \<Rightarrow> (ReExportTuple \<Rightarrow> bool) \<Rightarrow> ReExportTuple \<Rightarrow> nat" where
  "entry_rank E C e = card {x. (x, e) \<in> (depends E C)\<^sup>+}"

lemma finite_re_export_rel: "finite (re_export_rel infos)"
  by (simp add: re_export_rel_def)

lemma wf_depends:
  assumes "acyclic (re_export_rel infos)"
  shows "wf (depends (set infos) C)"
proof -
  let ?f = "\<lambda>e. (source e, \<not> C e)"
  have "wf (re_export_rel infos)" using finite_acyclic_wf [OF finite_re_export_rel assms] .
  moreover have "wf {(False, True)}" by (intro finite_acyclic_wf) (auto simp: acyclic_def trancl_insert)
  ultimately have "wf (inv_image (re_export_rel infos <*lex*> {(False, True)}) ?f)" by (intro wf_inv_image wf_lex_prod)
  moreover have "depends (set infos) C \<subseteq> inv_image (re_export_rel infos <*lex*> {(False, True)}) ?f"
    by (auto simp: depends_def re_export_rel_def inv_image_def image_iff)
  ultimately show ?thesis by (rule wf_subset)
qed

lemma depends_in: "(x, e) \<in> (depends E C)\<^sup>+ \<Longrightarrow> x \<in> E \<and> e \<in> E"
  by (induction rule: trancl_induct) (auto simp: depends_def)

lemma rank_less:
  assumes "acyclic (re_export_rel infos)" "(e', e) \<in> depends (set infos) C"
  shows "entry_rank (set infos) C e' < entry_rank (set infos) C e"
proof -
  let ?d = "\<lambda>e. {x. (x, e) \<in> (depends (set infos) C)\<^sup>+}"
  have "(e', e') \<notin> (depends (set infos) C)\<^sup>+" using wf_acyclic [OF wf_depends [OF assms(1)]] by (simp add: acyclic_def)
  moreover have "?d e' \<subseteq> ?d e" using assms(2) by auto
  moreover have "e' \<in> ?d e" using assms(2) by auto
  ultimately have "?d e' \<subset> ?d e" by blast
  moreover have "finite (?d e)" by (rule finite_subset [of _ "set infos"]) (auto dest: depends_in)
  ultimately show ?thesis by (simp add: entry_rank_def psubset_card_mono)
qed

lemma rank_bound:
  assumes "acyclic (re_export_rel infos)" "e \<in> set infos"
  shows "entry_rank (set infos) C e < length infos"
proof -
  have "(e, e) \<notin> (depends (set infos) C)\<^sup>+" using wf_acyclic [OF wf_depends [OF assms(1)]] by (simp add: acyclic_def)
  then have "{x. (x, e) \<in> (depends (set infos) C)\<^sup>+} \<subset> set infos" using assms(2) depends_in by blast
  then have "entry_rank (set infos) C e < card (set infos)" unfolding entry_rank_def by (intro psubset_card_mono) simp_all
  then show ?thesis using card_length [of infos] by simp
qed

lemma creates_grows:
  assumes "list_all2 module_grows ms0 ms" "barrel e < length ms"
  shows "creates T ms0 e = creates T ms e"
proof -
  have "module_grows (ms0 ! barrel e) (ms ! barrel e)" using assms by (simp add: list_all2_conv_all_nth)
  then have "is_entry_point (ms ! barrel e) = is_entry_point (ms0 ! barrel e)" "file_id (ms ! barrel e) = file_id (ms0 ! barrel e)"
    by (auto simp: module_grows_def is_entry_point_def)
  then show ?thesis by (simp add: creates_def)
qed

lemma entry_keeps:
  assumes inv: "list_all2 module_grows ms0 (fst st)" and e: "e \<in> E" "e' \<in> E" "(e', e) \<notin> depends E (creates T ms0)"
    and q: "entry_quiet order es ebt T e st"
  shows "entry_quiet order es ebt T e (fst (propagate_re_export_entry order es ebt T e' st))"
proof -
  obtain ms stubs where st: "st = (ms, stubs)" by fastforce
  obtain ms' stubs' where t: "fst (propagate_re_export_entry order es ebt T e' st) = (ms', stubs')" by fastforce
  have eff: "ms' = ms[source e' := ms' ! source e']"
      "source_step (source e') (creates T ms e' \<and> has_star (ms ! source e')) (ms ! source e', stubs) (ms' ! source e', stubs')"
    using entry_effect [of order es ebt T e' ms stubs] t unfolding st by (simp_all add: source_of_def)
  have l: "length ms' = length ms" by (subst eff(1)) simp
  show ?thesis
  proof (cases "in_range ms e \<and> in_range ms e'")
    case False
    show ?thesis
    proof (cases "in_range ms e")
      case True
      then have "\<not> in_range ms e'" using False by simp
      then have "fst (propagate_re_export_entry order es ebt T e' st) = st"
        by (auto simp: propagate_re_export_entry_def in_range_def st)
      then show ?thesis using q by simp
    next
      case False
      then have "\<not> in_range ms' e" using l by (simp add: in_range_def)
      then show ?thesis unfolding t by (auto simp: entry_quiet_def propagate_re_export_entry_def in_range_def)
    qed
  next
    case True
    then have c: "creates T ms0 e = creates T ms e" "creates T ms0 e' = creates T ms e'"
      using creates_grows [of ms0 ms] inv by (simp_all add: st in_range_def)
    have ne: "source e' \<noteq> barrel e" "source e' = source e \<Longrightarrow> creates T ms e' \<Longrightarrow> creates T ms e"
      using e c by (auto simp: depends_def)
    have b: "ms' ! barrel e = ms ! barrel e" by (subst eff(1)) (simp add: ne(1))
    have "source_seen (source e) (creates T ms e \<and> has_star (ms ! source e)) (ms ! source e, stubs) (ms' ! source e, stubs')"
    proof (cases "source e' = source e")
      case True
      with ne(2) show ?thesis by (intro source_step_seen [OF eff(2) [unfolded True]]) auto
    next
      case False
      then have "ms' ! source e = ms ! source e" by (subst eff(1)) simp
      then show ?thesis using eff(2) False by (auto simp: source_seen_def source_step_def)
    qed
    with q have "entry_quiet order es ebt T e (ms', stubs')" unfolding st by (rule quiet_keeps [OF _ l b])
    then show ?thesis unfolding t .
  qed
qed

definition ranked_entries :: "ReExportTuple list \<Rightarrow> ReExportTuple set" where
  "ranked_entries infos = (if acyclic (re_export_rel infos) then set infos else {})"

interpretation re_export_ranks: ranked_propagation "propagate_re_export_entry order es ebt T" state_grows
    "\<lambda>st. list_all2 module_grows ms0 (fst st)" "ranked_entries infos" "entry_rank (set infos) (creates T ms0)"
  for order es ebt T ms0 infos
proof
  fix st :: propagation_state and e e' :: ReExportTuple
  assume inv: "list_all2 module_grows ms0 (fst st)"
  show "list_all2 module_grows ms0 (fst (fst (propagate_re_export_entry order es ebt T e st)))"
    using inv re_export.step_grows [of st order es ebt T e] list_all2_trans [of module_grows module_grows module_grows]
      module_grows_trans unfolding state_grows_def by blast
  { assume e: "e \<in> ranked_entries infos"
    then have ac: "acyclic (re_export_rel infos)" and e: "e \<in> set infos" by (simp_all add: ranked_entries_def split: if_splits)
    have "barrel e \<noteq> source e" using ac e by (auto simp: acyclic_def re_export_rel_def)
    from entry_settles [OF this, of order es ebt T "fst st" "snd st"]
    show "\<not> snd (propagate_re_export_entry order es ebt T e (fst (propagate_re_export_entry order es ebt T e st)))"
      by (simp add: entry_quiet_def)
    assume "e' \<in> ranked_entries infos" "entry_rank (set infos) (creates T ms0) e \<le> entry_rank (set infos) (creates T ms0) e'"
      and q: "\<not> snd (propagate_re_export_entry order es ebt T e st)"
    then have "e' \<in> set infos" "(e', e) \<notin> depends (set infos) (creates T ms0)"
      using ac rank_less [OF ac, of e' e "creates T ms0"] by (auto simp: ranked_entries_def)
    from entry_keeps [OF inv e this] q
    show "\<not> snd (propagate_re_export_entry order es ebt T e (fst (propagate_re_export_entry order es ebt T e' st)))"
      by (simp add: entry_quiet_def) }
qed

lemma acyclic_settles:
  assumes "acyclic (re_export_rel (collect_re_export_tuples (modules g)))"
    and "resolve_re_export_chains order g = Some (cs, g', exceeded)"
  shows "\<not> exceeded"
proof (cases "collect_re_export_tuples (modules g) = []")
  case True
  then show ?thesis using assms(2) by (simp add: resolve_re_export_chains_def)
next
  case False
  let ?infos = "collect_re_export_tuples (modules g)" and ?T = "entry_star_targets (modules g)"
  have E: "set ?infos = ranked_entries ?infos" using assms(1) by (simp add: ranked_entries_def)
  have start: "re_export_ranks.quiet_below order (edges g) (build_edges_by_target (edges g)) ?T (modules g) ?infos 0 (modules g, {})"
    by (simp add: re_export_ranks.quiet_below_def list.rel_refl)
  have "\<not> snd (run_passes (propagate_re_export_entry order (edges g) (build_edges_by_target (edges g)) ?T) ?infos
      (Suc (length ?infos)) True (modules g, {}))"
    by (rule re_export_ranks.run_passes_settle [OF start E]) (use assms(1) rank_bound in \<open>auto simp: ranked_entries_def\<close>)
  then show ?thesis using resolve_run [OF assms(2) False] by auto
qed

lemma no_cycles_acyclic:
  assumes "2 * length infos \<le> U32_MAX" "find_re_export_cycles ms infos = Some []"
  shows "acyclic (re_export_rel infos)"
proof -
  obtain cs fs sccs nodes where f: "find_re_export_cycles ms infos = Some cs"
    "cs = map (\<lambda>f. build_self_loop_cycle f ms) fs @ map (\<lambda>scc. build_multi_node_cycle scc nodes ms) sccs"
    "distinct fs" "set fs = {f. (f, f) \<in> re_export_rel infos}"
    "distinct (concat (map (map ((!) nodes)) sccs))"
    "(\<lambda>scc. (!) nodes ` set scc) ` set sccs = {C. (\<exists>x. C = re_export_component infos x) \<and> 2 \<le> card C}"
    using find_re_export_cycles_facts [OF assms(1)] .
  have "cs = []" using f(1) assms(2) by simp
  then have "fs = []" "sccs = []" using f(2) by simp_all
  then have loops: "(x, x) \<notin> re_export_rel infos" and comps: "\<not> 2 \<le> card (re_export_component infos x)" for x
    using f(4,6) by auto
  show ?thesis unfolding acyclic_def
  proof
    fix x
    show "(x, x) \<notin> (re_export_rel infos)\<^sup>+"
    proof
      assume "(x, x) \<in> (re_export_rel infos)\<^sup>+"
      then obtain y where y: "(x, y) \<in> re_export_rel infos" "(y, x) \<in> (re_export_rel infos)\<^sup>*"
        using tranclD by metis
      then have "x \<noteq> y" using loops by auto
      moreover have "{x, y} \<subseteq> re_export_component infos x" using y by (auto simp: re_export_component_def)
      moreover have "re_export_component infos x \<subseteq> insert x (Range (re_export_rel infos))"
        by (auto simp: re_export_component_def elim: rtranclE)
      then have "finite (re_export_component infos x)"
        by (rule finite_subset) (simp add: finite_re_export_rel finite_Range)
      ultimately have "card {x, y} \<le> card (re_export_component infos x)" by (intro card_mono)
      moreover have "card {x, y} = 2" using \<open>x \<noteq> y\<close> by simp
      ultimately show False using comps [of x] by linarith
    qed
  qed
qed

lemma no_cycles_settle:
  assumes "2 * length (collect_re_export_tuples (modules g)) \<le> U32_MAX"
    and "resolve_re_export_chains order g = Some ([], g', exceeded)"
  shows "\<not> exceeded"
proof (cases "collect_re_export_tuples (modules g) = []")
  case True
  then show ?thesis using assms(2) by (simp add: resolve_re_export_chains_def)
next
  case False
  then have "find_re_export_cycles (modules g) (collect_re_export_tuples (modules g)) = Some []"
    using assms(2) by (auto simp: resolve_re_export_chains_def Let_def collect_entry_star_targets_reached
        split: bind_splits prod.splits)
  from acyclic_settles [OF no_cycles_acyclic [OF assms(1) this] assms(2)] show ?thesis .
qed

end
