(* ===== verification/Graph_Usage.thy ===== *)
theory Graph_Usage
  imports Module_Graph Re_Export_Settling
begin

text \<open>
  What construction promises to the detectors of unused exports: an export that a file imports,
  directly or along re-exports, or that an entry point re-exports, has a reference in the final
  graph. The lemmas follow a reference through the phases of \<^verbatim>\<open>graph/src/graph/mod.rs\<close>, whose
  definitions are in \<open>Module_Graph\<close>.
\<close>

section \<open>Exports that are used\<close>

definition used_name :: "ModuleGraph \<Rightarrow> FileId \<Rightarrow> string \<Rightarrow> bool" where
  "used_name g b n \<longleftrightarrow> (\<exists>e \<in> set (exports (modules g ! b)). export_display (export_name e) = n \<and> references e \<noteq> [])"

text \<open>A re-export edge carries a use of a barrel's name to an export of its source.\<close>

inductive carries :: "ModuleGraph \<Rightarrow> FileId \<times> string \<Rightarrow> FileId \<times> string \<Rightarrow> bool" for g where
  carry_named: "b < length (modules g) \<Longrightarrow> s < length (modules g) \<Longrightarrow> e \<in> set (re_exports (modules g ! b)) \<Longrightarrow>
    source_file e = s \<Longrightarrow> re_exported_name e = n' \<Longrightarrow> n' \<noteq> ''*'' \<Longrightarrow> re_imported_name e = n \<Longrightarrow>
    named_export (modules g ! s) n \<Longrightarrow> carries g (s, n) (b, n')"
| carry_star: "b < length (modules g) \<Longrightarrow> s < length (modules g) \<Longrightarrow> e \<in> set (re_exports (modules g ! b)) \<Longrightarrow>
    source_file e = s \<Longrightarrow> re_exported_name e = ''*'' \<Longrightarrow> n \<noteq> ''default'' \<Longrightarrow>
    named_export (modules g ! s) n \<Longrightarrow> carries g (s, n) (b, n)"

lemma matches_str_iff: "matches_str x n \<longleftrightarrow> export_display x = n"
  by (auto simp: matches_str_def export_display_def split: ExportName.splits)

lemma used_nameI: "e \<in> set (exports (modules g ! b)) \<Longrightarrow> export_display (export_name e) = n \<Longrightarrow>
    f \<in> files_of (references e) \<Longrightarrow> used_name g b n"
  by (auto simp: used_name_def files_of_def)

lemma used_name_file: "used_name g b n \<Longrightarrow>
    \<exists>e \<in> set (exports (modules g ! b)). \<exists>f. export_display (export_name e) = n \<and> f \<in> files_of (references e)"
  by (fastforce simp: used_name_def files_of_def)

text \<open>A settled star edge puts every file that uses a name at the export of the name.\<close>

lemma settled_star:
  assumes "settled (modules g) es T t" "rt_exported_name t = ''*''" "n \<noteq> ''default''"
    and "named_export (modules g ! source t) n"
    and "is_entry_point (modules g ! barrel t) \<or> (\<exists>f. uses_name (modules g) es (modules g ! barrel t) n f)"
  shows "used_name g (source t) n"
proof -
  let ?s = "modules g ! source t" and ?b = "modules g ! barrel t"
  obtain e where e: "e \<in> set (exports ?s)" "export_display (export_name e) = n"
    using assms(4) by (auto simp: named_export_def)
  then have name: "export_name e = export_name_of n" "export_name e \<noteq> ExpDefault"
    using assms(3) by (auto simp: export_display_def export_name_of_def split: ExportName.splits)
  show ?thesis
  proof (cases "is_entry_point ?b \<or> file_id ?b \<in> T")
    case True
    then have "barrel t \<in> files_of (references e)"
      using assms(1,2) e(1) name(2) by (simp add: settled_def Let_def)
    with e show ?thesis by (rule used_nameI)
  next
    case False
    then obtain f where f: "uses_name (modules g) es ?b n f" using assms(5) by blast
    have "first_index (\<lambda>e. export_name e = export_name_of n) (exports ?s) \<noteq> None"
      using e(1) name(1) by (auto simp: first_index_None)
    then obtain i where i: "first_index (\<lambda>e. export_name e = export_name_of n) (exports ?s) = Some i" by auto
    have "\<forall>n f. uses_name (modules g) es ?b n f \<longrightarrow>
           (case first_index (\<lambda>e. export_name e = export_name_of n) (exports ?s) of
              Some i \<Rightarrow> f \<in> files_of (references (exports ?s ! i))
            | None \<Rightarrow> \<not> has_star ?s)"
      using assms(1,2) False by (simp add: settled_def Let_def)
    from this [rule_format, OF f] have "f \<in> files_of (references (exports ?s ! i))" by (simp add: i)
    moreover have "i < length (exports ?s)" "export_name (exports ?s ! i) = export_name_of n"
      using i by (simp_all add: first_index_Some)
    ultimately show ?thesis
      by (intro used_nameI [of "exports ?s ! i"]) (auto simp: export_display_def export_name_of_def)
  qed
qed

lemma settled_named:
  assumes "settled (modules g) es T t" "rt_exported_name t \<noteq> ''*''"
    and "named_export (modules g ! source t) (rt_imported_name t)"
    and "is_entry_point (modules g ! barrel t) \<or> used_name g (barrel t) (rt_exported_name t)"
  shows "used_name g (source t) (rt_imported_name t)"
proof -
  let ?b = "modules g ! barrel t"
  obtain e where e: "e \<in> set (exports (modules g ! source t))" "export_display (export_name e) = rt_imported_name t"
    using assms(3) by (auto simp: named_export_def)
  have s: "\<And>e'. e' \<in> set (exports ?b) \<Longrightarrow> export_display (export_name e') = rt_exported_name t \<Longrightarrow>
        files_of (references e') \<subseteq> files_of (references e)"
      "is_entry_point ?b \<Longrightarrow> (\<forall>e' \<in> set (exports ?b). export_display (export_name e') = rt_exported_name t \<longrightarrow>
        references e' = []) \<Longrightarrow> barrel t \<in> files_of (references e)"
    using assms(1,2) e by (auto simp: settled_def Let_def matches_str_iff)
  show ?thesis
  proof (cases "used_name g (barrel t) (rt_exported_name t)")
    case True
    from used_name_file [OF this] obtain e' f where "e' \<in> set (exports ?b)"
      "export_display (export_name e') = rt_exported_name t" "f \<in> files_of (references e')" by blast
    then have "f \<in> files_of (references e)" using s(1) by blast
    with e show ?thesis by (rule used_nameI)
  next
    case False
    then have "barrel t \<in> files_of (references e)" using assms(4) s(2) by (auto simp: used_name_def)
    with e show ?thesis by (rule used_nameI)
  qed
qed

section \<open>The final graph is settled\<close>

lemma phases_settled:
  assumes "phases orders visited inp (g1, g2, g3, g4, g, False)" "\<And>m. set (visit_refs orders m) = set m"
    and "t \<in> set (collect_re_export_tuples (modules g))" "barrel t < length (modules g)" "source t < length (modules g)"
  shows "settled (modules g) (edges g) (entry_star_targets (modules g4)) t"
proof -
  obtain cs g5 where r: "resolve_re_export_chains (visit_refs orders) g4 = Some (cs, g5, False)" "g = g5\<lparr>re_export_cycles := cs\<rparr>"
    using assms(1) by (auto simp: phases_def)
  have m: "modules g = modules g5" by (simp add: r(2))
  note fr = phases_frames(5) [OF assms(1)]
  then have "collect_re_export_tuples (modules g) = collect_re_export_tuples (modules g4)" "length (modules g) = length (modules g4)"
    by (rule frames_tuples, metis length_map)
  with resolution_settled [OF assms(2) r(1), of t] assms(3-5) m phases_fields(5) [OF assms(1)] show ?thesis by simp
qed

lemma tuple_of_edge:
  assumes "map file_id (modules g) = [0..<length (modules g)]" "b < length (modules g)" "e \<in> set (re_exports (modules g ! b))"
  shows "\<lparr>barrel = b, source = source_file e, rt_imported_name = re_imported_name e,
      rt_exported_name = re_exported_name e, rt_is_type_only = re_is_type_only e\<rparr> \<in> set (collect_re_export_tuples (modules g))"
proof -
  have "file_id (modules g ! b) = b" using assms(1,2) by (metis add_0 length_map nth_map nth_upt)
  then show ?thesis using assms(2,3) by (force simp: collect_re_export_tuples_def)
qed

text \<open>A graph whose modules are indexed by their files and whose re-export edges are all settled.\<close>

definition settled_graph :: "ModuleGraph \<Rightarrow> FileId set \<Rightarrow> bool" where
  "settled_graph g T \<longleftrightarrow> map file_id (modules g) = [0..<length (modules g)] \<and>
     (\<forall>t \<in> set (collect_re_export_tuples (modules g)). barrel t < length (modules g) \<longrightarrow>
        source t < length (modules g) \<longrightarrow> settled (modules g) (edges g) T t)"

lemma settled_edge:
  assumes "settled_graph g T" "b < length (modules g)" "e \<in> set (re_exports (modules g ! b))" "source_file e < length (modules g)"
  shows "settled (modules g) (edges g) T \<lparr>barrel = b, source = source_file e, rt_imported_name = re_imported_name e,
      rt_exported_name = re_exported_name e, rt_is_type_only = re_is_type_only e\<rparr>"
  using assms tuple_of_edge [of g b e] by (force simp: settled_graph_def)

lemma carries_use:
  assumes g: "settled_graph g T" and "carries g (s, n) (b, n')" "used_name g b n' \<or> is_entry_point (modules g ! b)"
  shows "used_name g s n"
  using assms(2)
proof cases
  case (carry_named e)
  show ?thesis
    using settled_named [OF settled_edge [OF g carry_named(1,3)]] carry_named assms(3) by auto
next
  case (carry_star e)
  have "\<exists>f. uses_name (modules g) (edges g) (modules g ! b) n f" if "used_name g b n"
    using used_name_file [OF that] by (auto simp: uses_name_def)
  then show ?thesis
    using settled_star [OF settled_edge [OF g carry_star(2,4)]] carry_star assms(3) by auto
qed

lemma chain_use:
  assumes g: "settled_graph g T" and "(carries g)\<^sup>*\<^sup>* x y" "used_name g (fst y) (snd y)"
  shows "used_name g (fst x) (snd x)"
  using assms(2,3)
proof (induction rule: converse_rtranclp_induct)
  case (step x z)
  then show ?case using carries_use [OF g, of "fst x" "snd x" "fst z" "snd z"] by simp
qed


section \<open>From the resolved modules to the graph\<close>

definition imports_name :: "ResolvedModule \<Rightarrow> FileId \<Rightarrow> ImportedName \<Rightarrow> bool" where
  "imports_name r b nm \<longleftrightarrow> (\<exists>i \<in> set (resolved_imports r) \<union> set (resolved_dynamic_imports r).
     internal_file_id (import_target i) = Some b \<and> ii_imported_name (import_info i) = nm \<and>
     \<not> is_unused_import_binding (ii_local_name (import_info i)) nm (Some r))"

definition offers :: "ResolvedModule \<Rightarrow> ImportedName \<Rightarrow> bool" where
  "offers r nm \<longleftrightarrow> (\<exists>e \<in> set (rm_exports r). export_matches (ei_name e) nm) \<or>
     (\<exists>re \<in> set (rm_re_exports r). ri_exported_name (re_export_info re) \<noteq> ''*'' \<and>
       export_matches (export_name_of (ri_exported_name (re_export_info re))) nm)"


lemma stubs_added:
  "(\<exists>e \<in> set es. export_name e = n) \<or>
   (\<exists>re \<in> set res. ri_exported_name (re_export_info re) \<noteq> ''*'' \<and> export_name_of (ri_exported_name (re_export_info re)) = n) \<Longrightarrow>
   \<exists>e \<in> set (fold add_named_re_export_stub res es). export_name e = n"
proof (induction res arbitrary: es)
  case (Cons re res)
  let ?es = "add_named_re_export_stub re es"
  have "(\<exists>e \<in> set ?es. export_name e = n) \<or>
     (\<exists>re \<in> set res. ri_exported_name (re_export_info re) \<noteq> ''*'' \<and> export_name_of (ri_exported_name (re_export_info re)) = n)"
    using Cons.prems by (auto simp: add_named_re_export_stub_def Let_def)
  from Cons.IH [OF this] show ?case by simp
qed simp

lemma built_offers:
  assumes "b < length (pe_files inp)" "pe_module_by_id inp (df_id (pe_files inp ! b)) = Some r" "offers r nm"
  shows "exports_match (modules (populate_edges inp) ! b) nm"
proof -
  let ?f = "pe_files inp ! b"
  have "node_of inp ?f (modules (populate_edges inp) ! b)"
    using populate_edges_storage [of inp] assms(1) by (simp add: storage_ok_def list_all2_conv_all_nth)
  then have "exports (modules (populate_edges inp) ! b) =
      fold add_named_re_export_stub (rm_re_exports r) (build_export_symbols (Some r))"
    using assms(2) unfolding node_of_def
    by (metis (no_types, lifting) ModuleNode.select_convs(4) append_named_re_export_stubs_def build_module_node_def option.simps(5))
  moreover obtain n where "export_matches n nm" "(\<exists>e \<in> set (build_export_symbols (Some r)). export_name e = n) \<or>
     (\<exists>re \<in> set (rm_re_exports r). ri_exported_name (re_export_info re) \<noteq> ''*'' \<and>
        export_name_of (ri_exported_name (re_export_info re)) = n)"
    using assms(3) unfolding offers_def build_export_symbols_def by fastforce
  ultimately show ?thesis using stubs_added [of "build_export_symbols (Some r)"] unfolding exports_match_def by metis
qed

section \<open>From phase to phase\<close>

lemma phases_grow_from_references:
  assumes p: "phases orders visited inp (g1, g2, g3, g4, g, exceeded)" and t: "t < length (modules g)"
    and mono: "\<And>m m'. module_grows m m' \<Longrightarrow> P m \<Longrightarrow> P m'" and ex: "\<And>m m'. exports m' = exports m \<Longrightarrow> P m \<Longrightarrow> P m'"
    and P: "P (modules g1 ! t) \<or> P (modules g3 ! t)"
  shows "P (modules g ! t)"
proof -
  note fr = phases_frames [OF p]
  have l: "t < length (modules g1)" "t < length (modules g2)" "t < length (modules g3)" "t < length (modules g4)"
    using fr t by (metis length_map)+
  have g12: "list_all2 module_grows (modules g1) (modules g2)" and g23: "list_all2 module_grows (modules g2) (modules g3)"
    and e34: "map exports (modules g4) = map exports (modules g3)"
    using p unfolding phases_def by blast+
  obtain cs g5 where "list_all2 module_grows (modules g4) (modules g5)" "g = g5\<lparr>re_export_cycles := cs\<rparr>"
    using p unfolding phases_def by blast
  then have g45: "list_all2 module_grows (modules g4) (modules g)" by simp
  have "P (modules g3 ! t)"
    using P mono [OF list_all2_nthD [OF g23 l(2)]] mono [OF list_all2_nthD [OF g12 l(1)]] by blast
  moreover have "exports (modules g4 ! t) = exports (modules g3 ! t)" using e34 l(3,4) by (metis nth_map)
  ultimately have "P (modules g4 ! t)" by (rule ex [rotated])
  then show ?thesis by (rule mono [OF list_all2_nthD [OF g45 l(4)]])
qed


lemma credited_exports: "exports m' = exports m \<Longrightarrow> credited f n m \<Longrightarrow> credited f n m'"
  by (simp add: credited_def)

lemma export_matches_display:
  "export_matches x nm \<Longrightarrow> default_imported_name nm = Some n \<Longrightarrow> export_display x = n"
  by (cases x; cases nm) (simp_all add: export_display_def default_imported_name_def)


lemma phases_grows_to_aliases:
  assumes "phases orders visited inp (g1, g2, g3, g4, g, exceeded)"
  shows "list_all2 module_grows (modules (populate_edges inp)) (modules g2)"
proof -
  have 1: "list_all2 module_grows (modules (populate_edges inp)) (modules g1)"
    using assms populate_references_grows [of "pe_module_by_id inp" "pe_entry_point_ids inp" "populate_edges inp"]
    unfolding phases_def by blast
  have 2: "list_all2 module_grows (modules g1) (modules g2)" using assms unfolding phases_def by blast
  from list_all2_trans [OF module_grows_trans 1 2] show ?thesis .
qed

lemma modules_by_id_keys: "\<forall>x \<in> set (modules_by_id rms). rm_file_id (snd x) = fst x"
proof -
  have "\<forall>x \<in> set al. rm_file_id (snd x) = fst x \<Longrightarrow>
      \<forall>x \<in> set (fold (\<lambda>m al. AList.update (rm_file_id m) m al) rms al). rm_file_id (snd x) = fst x" for al
  proof (induction rms arbitrary: al)
    case (Cons m rms)
    have "\<forall>x \<in> set (AList.update (rm_file_id m) m al). rm_file_id (snd x) = fst x"
      using Cons.prems set_update [of "rm_file_id m" m al] by auto
    from Cons.IH [OF this] show ?case by simp
  qed simp
  from this [of "[]"] show ?thesis by (simp add: modules_by_id_def)
qed

lemma modules_by_id_key: "map_of (modules_by_id rms) f = Some r \<Longrightarrow> rm_file_id r = f"
  using modules_by_id_keys [of rms] map_of_SomeD [of "modules_by_id rms" f r] by fastforce


lemma phases_credited:
  assumes "phases orders visited inp (g1, g2, g3, g4, g, exceeded)" "t < length (modules g)" "credited f n (modules g3 ! t)"
  shows "credited f n (modules g ! t)"
proof (rule phases_grow_from_references [where P = "credited f n", OF assms(1,2)])
  show "credited f n m'" if "module_grows m m'" "credited f n m" for m m' using that by (rule credited_grows)
  show "credited f n m'" if "exports m' = exports m" "credited f n m" for m m' using that by (rule credited_exports)
qed (simp add: assms(3))

section \<open>The promises of a construction\<close>

lemma built_graph:
  assumes "build_with_reachability_roots orders canonicalize rms eps runtime_eps test_eps files = Some (g, exceeded)"
    and "map df_id files = [0..<length files]"
  obtains g1 g2 g3 g4 where "phases orders (map snd (modules_by_id rms))
      (build_input canonicalize rms eps runtime_eps test_eps files) (g1, g2, g3, g4, g, exceeded)"
    "map file_id (modules g) = [0..<length (modules g)]" "length (modules g) = length files"
    "\<And>i. i < length files \<Longrightarrow> df_id (files ! i) = i"
proof -
  obtain g1 g2 g3 g4 where p: "phases orders (map snd (modules_by_id rms))
      (build_input canonicalize rms eps runtime_eps test_eps files) (g1, g2, g3, g4, g, exceeded)"
    using assms(1) build_phases by blast
  have "map file_id (modules g) = map file_id (modules (populate_edges (build_input canonicalize rms eps runtime_eps test_eps files)))"
    by (rule frames_map) (use phases_frames [OF p] in \<open>simp_all add: frame_def\<close>)
  then have ids: "map file_id (modules g) = [0..<length files]"
    using assms(2) by (simp add: populated_ids build_input_fields)
  then have "length (modules g) = length files" by (metis length_map length_upt diff_zero)
  moreover have "df_id (files ! i) = i" if "i < length files" for i
    using assms(2) that by (metis add_0 nth_map nth_upt)
  ultimately show thesis using that [OF p] ids by simp
qed

lemma built_settled:
  assumes "\<And>m. set (visit_refs orders m) = set m" "map file_id (modules g) = [0..<length (modules g)]"
    and "phases orders visited inp (g1, g2, g3, g4, g, False)"
  shows "settled_graph g (entry_star_targets (modules g4))"
  using assms(2) phases_settled [OF assms(3,1)] by (simp add: settled_graph_def)





text \<open>
  C3. When the propagation stops below its cap, every export that an entry point re-exports
  has a reference, and so has every export to which further re-exports lead from there.  A
  re-export leads from a module to its source only as far as the source itself has an export of
  the name in the built graph, a declared one or the stub of a named re-export (the relation
  \<^const>\<open>carries\<close> asks for it at every hop); this covers \<^verbatim>\<open>export {a as b} from\<close> at every step
  and \<^verbatim>\<open>export * from\<close> a module that has the export.  It does not cover a name that the
  source has only through its own \<^verbatim>\<open>export *\<close>, reached by a named re-export: the code does not
  propagate references through such a source, as \<^verbatim>\<open>renamed_star_example\<close> below
  shows on an example.
\<close>

theorem entry_point_re_exports_are_used:
  assumes "\<And>m. set (visit_refs orders m) = set m"
    and "build_with_reachability_roots orders canonicalize rms eps runtime_eps test_eps files = Some (g, False)"
    and "map df_id files = [0..<length files]"
    and "b \<in> entry_points g" "b < length files" "carries g (s, n) (b, n')" "(carries g)\<^sup>*\<^sup>* (t, m) (s, n)"
  shows "used_name g t m"
proof -
  let ?inp = "build_input canonicalize rms eps runtime_eps test_eps files"
  obtain g1 g2 g3 g4 where p: "phases orders (map snd (modules_by_id rms)) ?inp (g1, g2, g3, g4, g, False)"
      and ids: "map file_id (modules g) = [0..<length (modules g)]" and len: "length (modules g) = length files"
      and df: "\<And>i. i < length files \<Longrightarrow> df_id (files ! i) = i"
    using built_graph [OF assms(2,3)] by blast
  note settled = built_settled [OF assms(1) ids p]
  have "nf_entry (node_flags (modules g ! b))"
    using phases_flags [OF p build_input_finite, of b] built_flags(1) [of b ?inp] assms(4,5) len df phases_fields(6) [OF p]
    by (simp add: build_input_fields)
  then have "is_entry_point (modules g ! b)" by (simp add: node_flags_def)
  with carries_use [OF settled assms(6)] have "used_name g s n" by simp
  then show ?thesis using chain_use [OF settled assms(7)] by simp
qed

text \<open>
  C11. A member read through a namespace re-export is credited: when a file binds a name that leads
  to \<^verbatim>\<open>export * as N from t\<close> over any re-exports and reads the member \<open>x\<close> of the binding, or uses
  it as a whole, then the file is recorded at an export \<open>x\<close> of the target.
\<close>

theorem namespace_reads_are_credited:
  assumes "\<And>xs. set (visit_credit_groups orders xs) = set xs" "\<And>ms. set (visit_modules orders ms) = set ms"
    and "build_with_reachability_roots orders canonicalize rms eps runtime_eps test_eps files = Some (g, exceeded)"
    and "map df_id files = [0..<length files]"
    and "b < length files" "e \<in> set (re_exports (modules g ! b))" "re_imported_name e = ''*''" "re_exported_name e \<noteq> ''*''"
    and "source_file e < length files" "map_of (modules_by_id rms) (source_file e) = Some r'" "offers r' nm"
    and "default_imported_name nm = Some x"
    and "map_of (modules_by_id rms) f = Some r" "f \<noteq> b" "(forwards g)\<^sup>*\<^sup>* (b, re_exported_name e) (b', n')"
    and "reads_through r b' n' x"
  shows "credited f x (modules g ! source_file e)"
proof -
  let ?inp = "build_input canonicalize rms eps runtime_eps test_eps files"
  let ?t = "source_file e" and ?visited = "map snd (modules_by_id rms)"
  obtain g1 g2 g3 g4 where p: "phases orders ?visited ?inp (g1, g2, g3, g4, g, exceeded)"
      and ids: "map file_id (modules g) = [0..<length (modules g)]" and len: "length (modules g) = length files"
      and df: "\<And>i. i < length files \<Longrightarrow> df_id (files ! i) = i"
    using built_graph [OF assms(3,4)] by blast
  note fr = phases_frames [OF p]
  have l: "length (modules g2) = length files" using fr len by (metis length_map)
  have fr2: "map frame (modules g) = map frame (modules g2)" using fr by simp
  have re: "re_exports (modules g ! i) = re_exports (modules g2 ! i)" "file_id (modules g ! i) = file_id (modules g2 ! i)"
    if "i < length files" for i
    using frame_nth [OF fr2] that l by (simp_all add: frame_def)
  then have "forwards g x y \<longleftrightarrow> forwards g2 x y" for x y
    using l len by (cases x; cases y) (auto simp: forwards_iff)
  then have "forwards g = forwards g2" by (intro ext)
  then have fw: "(forwards g2)\<^sup>*\<^sup>* (b, re_exported_name e) (b', n')" using assms(15) by simp
  have "file_id (modules g2 ! b) = b"
    using ids re(2) assms(5) len by (metis add_0 length_map nth_map nth_upt)
  then have edge: "(b, ?t, re_exported_name e) \<in> set (namespace_edges g2)"
    using assms(5-8) l re(1) by (auto simp: namespace_edges_def intro!: bexI [of _ "modules g2 ! b"] image_eqI)
  have "r \<in> set (visit_modules orders ?visited)" using map_of_SomeD [OF assms(13)] assms(2) by force
  moreover have f: "rm_file_id r = f" using modules_by_id_key assms(13) by blast
  ultimately obtain c where c: "c \<in> set (edge_credits g2 (visit_modules orders ?visited) (b, ?t, re_exported_name e))"
      "np_target c = ?t" "np_consumer c = f" "np_kind c = CreditMember x \<or> np_kind c = AllExports"
    using reads_through_credit [where g = g2 and r = r and t = ?t and rms = "visit_modules orders ?visited", OF _ _ _ fw assms(16)]
      assms(9,14) l by auto
  have "exports_match (modules (populate_edges ?inp) ! ?t) nm"
    using built_offers [of ?t ?inp r' nm] assms(9-11) df by (simp add: build_input_fields)
  then have "named_export (modules (populate_edges ?inp) ! ?t) x"
    using assms(12) by (auto simp: exports_match_def named_export_def) (metis export_matches_display)
  moreover have "module_grows (modules (populate_edges ?inp) ! ?t) (modules g2 ! ?t)"
    using phases_grows_to_aliases [OF p] assms(9) l by (simp add: list_all2_conv_all_nth)
  ultimately have "named_export (modules g2 ! ?t) x" by (metis named_export_grows)
  then have "\<exists>g3. propagate_namespace_re_exports orders ?visited g2 = Some g3 \<and> credited f x (modules g3 ! ?t)"
    using collected_credit_is_applied [where orders = orders, OF assms(1) edge c(1,4)] c(2,3) assms(9) l by simp
  then have "credited f x (modules g3 ! ?t)" using p by (simp add: phases_def)
  then show ?thesis using phases_credited [OF p] assms(9) len by simp
qed

text \<open>
  C9. The propagation reaches its end: in a project for which construction reports no re-export
  cycle, the cap on the number of passes is never exceeded, for any number and order of re-exports.
\<close>

theorem constructions_without_cycles_settle:
  assumes "2 * re_export_count rms files \<le> U32_MAX"
    and "build_with_reachability_roots orders canonicalize rms eps runtime_eps test_eps files = Some (g, exceeded)"
    and "re_export_cycles g = []"
  shows "\<not> exceeded"
proof -
  let ?inp = "build_input canonicalize rms eps runtime_eps test_eps files"
  obtain g1 g2 g3 g4 where p: "phases orders (map snd (modules_by_id rms)) ?inp (g1, g2, g3, g4, g, exceeded)"
    using assms(2) build_phases by blast
  note fr = phases_frames [OF p]
  have "collect_re_export_tuples (modules g4) = collect_re_export_tuples (modules (populate_edges ?inp))"
    by (rule frames_tuples) (use fr in simp)
  moreover have "length (collect_re_export_tuples (modules (populate_edges ?inp))) \<le> re_export_count rms files"
    using built_tuples [of ?inp] by (simp add: build_input_fields re_export_count_def)
  ultimately have small: "2 * length (collect_re_export_tuples (modules g4)) \<le> U32_MAX" using assms(1) by simp
  obtain cs g5 where "resolve_re_export_chains (visit_refs orders) g4 = Some (cs, g5, exceeded)" "g = g5\<lparr>re_export_cycles := cs\<rparr>"
    using p by (auto simp: phases_def)
  moreover from this(2) assms(3) have "cs = []" by simp
  ultimately show ?thesis using no_cycles_settle [OF small] by blast
qed

section \<open>A project with every kind of re-export\<close>

text \<open>
  File 0 imports from a barrel that renames, from a star barrel and from a barrel that re-exports
  the namespace of the leaf 2; the entry point 5 re-exports another name of the leaf.
\<close>

definition list_orders :: HashOrders where
  "list_orders = \<lparr>visit_modules = \<lambda>x. x, visit_alias_groups = \<lambda>x. x, visit_credit_groups = \<lambda>x. x, visit_refs = \<lambda>x. x\<rparr>"

definition demo_span :: Span where "demo_span = \<lparr>span_begin = 0, span_end = 1\<rparr>"

definition demo_import :: "string \<Rightarrow> FileId \<Rightarrow> ResolvedImport" where
  "demo_import n t = \<lparr>import_info = \<lparr>ii_source = [], ii_imported_name = ImpNamed n, ii_local_name = n,
     ii_is_type_only = False, ii_from_style = False, ii_span = demo_span, ii_source_span = demo_span\<rparr>,
     import_target = InternalModule t\<rparr>"

definition demo_re_export :: "string \<Rightarrow> string \<Rightarrow> FileId \<Rightarrow> ResolvedReExport" where
  "demo_re_export n n' t = \<lparr>re_export_info = \<lparr>ri_source = [], ri_imported_name = n, ri_exported_name = n',
     ri_is_type_only = False, ri_span = demo_span\<rparr>, re_export_target = InternalModule t\<rparr>"

definition demo_export :: "string \<Rightarrow> ExportInfo" where
  "demo_export n = \<lparr>ei_name = ExpNamed n, ei_local_name = None, ei_is_type_only = False,
     ei_is_side_effect_used = False, ei_visibility = VisNone, ei_expected_unused_reason = None,
     ei_span = demo_span, ei_members = [], ei_super_class = None\<rparr>"

definition demo_module :: "FileId \<Rightarrow> ResolvedImport list \<Rightarrow> ResolvedReExport list \<Rightarrow> ExportInfo list \<Rightarrow> ResolvedModule" where
  "demo_module f is rs es =
     default_resolved_module\<lparr>rm_file_id := f, resolved_imports := is, rm_re_exports := rs, rm_exports := es\<rparr>"

definition demo_path :: "FileId \<Rightarrow> path" where
  "demo_path f = [''/'', replicate (f + 1) CHR ''a'']"

definition demo_files :: "nat \<Rightarrow> DiscoveredFile list" where
  "demo_files n = map (\<lambda>f. \<lparr>df_id = f, df_path = demo_path f, size_bytes = 0\<rparr>) [0..<n]"

definition demo_modules :: "ResolvedModule list" where
  "demo_modules =
     [demo_module 0 [demo_import ''x'' 1, demo_import ''s'' 3, demo_import ''N'' 4] [] []
        \<lparr>member_accesses := [\<lparr>ma_object = ''N'', ma_member = ''m''\<rparr>]\<rparr>,
      demo_module 1 [] [demo_re_export ''y'' ''x'' 2] [],
      demo_module 2 [] [] [demo_export ''y'', demo_export ''s'', demo_export ''m'', demo_export ''q''],
      demo_module 3 [] [demo_re_export ''*'' ''*'' 2] [],
      demo_module 4 [] [demo_re_export ''*'' ''N'' 2] [],
      demo_module 5 [] [demo_re_export ''q'' ''q'' 2] []]"

definition demo_build :: "(ModuleGraph \<times> bool) option" where
  "demo_build = build_with_reachability_roots list_orders Some demo_modules
     [\<lparr>ep_path = demo_path 5, ep_source = ManualEntry\<rparr>] [] [] (demo_files 6)"

definition demo_shape :: "ModuleGraph \<Rightarrow> bool" where
  "demo_shape g \<longleftrightarrow> entry_points g = {5} \<and> length (modules g) = 6 \<and>
     map (\<lambda>m. map (\<lambda>e. (source_file e, re_imported_name e, re_exported_name e)) (re_exports m)) (modules g) =
       [[], [(2, ''y'', ''x'')], [], [(2, ''*'', ''*'')], [(2, ''*'', ''N'')], [(2, ''q'', ''q'')]] \<and>
     list_all (named_export (modules g ! 2)) [''y'', ''s'', ''q'', ''m'']"

lemma demo_built: "\<exists>g. demo_build = Some (g, False) \<and> demo_shape g"
proof -
  have "case demo_build of None \<Rightarrow> False | Some (g, exceeded) \<Rightarrow> \<not> exceeded \<and> demo_shape g" by code_simp
  then show ?thesis by (auto split: option.splits)
qed

lemma demo_shape_edge:
  assumes "demo_shape g" "b < 6"
    "map (\<lambda>e. (source_file e, re_imported_name e, re_exported_name e)) (re_exports (modules g ! b)) = [(2, n, n')]"
  shows "\<exists>e \<in> set (re_exports (modules g ! b)). source_file e = 2 \<and> re_imported_name e = n \<and> re_exported_name e = n'"
  using assms(3) by (auto simp: map_eq_Cons_conv)

lemma demo_edges:
  assumes "demo_shape g"
  shows "\<exists>e \<in> set (re_exports (modules g ! 1)). source_file e = 2 \<and> re_imported_name e = ''y'' \<and> re_exported_name e = ''x''"
    "\<exists>e \<in> set (re_exports (modules g ! 3)). source_file e = 2 \<and> re_imported_name e = ''*'' \<and> re_exported_name e = ''*''"
    "\<exists>e \<in> set (re_exports (modules g ! 4)). source_file e = 2 \<and> re_imported_name e = ''*'' \<and> re_exported_name e = ''N''"
    "\<exists>e \<in> set (re_exports (modules g ! 5)). source_file e = 2 \<and> re_imported_name e = ''q'' \<and> re_exported_name e = ''q''"
proof -
  let ?h = "\<lambda>m. map (\<lambda>e. (source_file e, re_imported_name e, re_exported_name e)) (re_exports m)"
  have m: "map ?h (modules g) =
       [[], [(2, ''y'', ''x'')], [], [(2, ''*'', ''*'')], [(2, ''*'', ''N'')], [(2, ''q'', ''q'')]]" "length (modules g) = 6"
    using assms by (simp_all add: demo_shape_def)
  have h: "?h (modules g ! i) = map ?h (modules g) ! i" if "i < 6" for i using that m(2) by simp
  have "?h (modules g ! 1) = [(2, ''y'', ''x'')]" "?h (modules g ! 3) = [(2, ''*'', ''*'')]"
      "?h (modules g ! 4) = [(2, ''*'', ''N'')]" "?h (modules g ! 5) = [(2, ''q'', ''q'')]"
    by (simp_all only: h m(1)) simp_all
  from demo_shape_edge [OF assms _ this(1)] demo_shape_edge [OF assms _ this(2)]
    demo_shape_edge [OF assms _ this(3)] demo_shape_edge [OF assms _ this(4)]
  show "\<exists>e \<in> set (re_exports (modules g ! 1)). source_file e = 2 \<and> re_imported_name e = ''y'' \<and> re_exported_name e = ''x''"
    "\<exists>e \<in> set (re_exports (modules g ! 3)). source_file e = 2 \<and> re_imported_name e = ''*'' \<and> re_exported_name e = ''*''"
    "\<exists>e \<in> set (re_exports (modules g ! 4)). source_file e = 2 \<and> re_imported_name e = ''*'' \<and> re_exported_name e = ''N''"
    "\<exists>e \<in> set (re_exports (modules g ! 5)). source_file e = 2 \<and> re_imported_name e = ''q'' \<and> re_exported_name e = ''q''"
    by simp_all
qed

lemma demo_inputs:
  "map df_id (demo_files 6) = [0..<length (demo_files 6)]" "length (demo_files 6) = 6"
  "map_of (modules_by_id demo_modules) 0 = Some (demo_modules ! 0)"
  "map_of (modules_by_id demo_modules) 1 = Some (demo_modules ! 1)"
  "map_of (modules_by_id demo_modules) 2 = Some (demo_modules ! 2)"
  "imports_name (demo_modules ! 0) 1 (ImpNamed ''x'')" "imports_name (demo_modules ! 0) 3 (ImpNamed ''s'')"
  "offers (demo_modules ! 1) (ImpNamed ''x'')" "offers (demo_modules ! 2) (ImpNamed ''m'')"
  "reads_through (demo_modules ! 0) 4 ''N'' ''m''"
  by (simp_all add: demo_files_def demo_modules_def modules_by_id_def demo_module_def default_resolved_module_def
      imports_name_def offers_def reads_through_def demo_import_def demo_re_export_def demo_export_def demo_path_def
      internal_file_id_def is_unused_import_binding_def export_name_of_def default_imported_name_def upt_rec)



theorem entry_point_re_exports_are_used_witness: "\<exists>g. demo_build = Some (g, False) \<and> used_name g 2 ''q''"
proof -
  obtain g where g: "demo_build = Some (g, False)" "demo_shape g" using demo_built by blast
  then have "carries g (2, ''q'') (5, ''q'')"
    using demo_edges(4) [OF g(2)] by (auto simp: demo_shape_def intro!: carry_named)
  then have "used_name g 2 ''q''"
    using entry_point_re_exports_are_used [where orders = list_orders, OF _ g(1) [unfolded demo_build_def] demo_inputs(1),
        of 5 2 "''q''" "''q''" 2 "''q''"] g(2)
    by (simp add: list_orders_def demo_inputs(2) demo_shape_def)
  with g(1) show ?thesis by blast
qed

theorem namespace_reads_are_credited_witness: "\<exists>g. demo_build = Some (g, False) \<and> credited 0 ''m'' (modules g ! 2)"
proof -
  obtain g where g: "demo_build = Some (g, False)" "demo_shape g" using demo_built by blast
  obtain e where e: "e \<in> set (re_exports (modules g ! 4))" "source_file e = 2" "re_imported_name e = ''*''"
      "re_exported_name e = ''N''"
    using demo_edges(3) [OF g(2)] by blast
  have "credited 0 ''m'' (modules g ! source_file e)"
    by (rule namespace_reads_are_credited [where orders = list_orders and b = 4 and f = 0 and b' = 4 and n' = "''N''"
          and r' = "demo_modules ! 2" and nm = "ImpNamed ''m''", OF _ _ g(1) [unfolded demo_build_def] demo_inputs(1) _ e(1,3)])
      (use e demo_inputs in \<open>simp_all add: list_orders_def default_imported_name_def\<close>)
  with g(1) e(2) show ?thesis by auto
qed

definition demo_input :: PopulateEdgesInput where
  "demo_input = build_input Some demo_modules [] [] [] (demo_files 6)"

theorem edges_are_the_imports_witness:
  "sorted_wrt (<) (map edge_target (edges_of (edges (populate_edges demo_input)) (modules (populate_edges demo_input) ! 0))) \<and>
   (\<exists>e \<in> set (edges_of (edges (populate_edges demo_input)) (modules (populate_edges demo_input) ! 0)). edge_target e = 4)"
proof -
  let ?s = "import_symbol (demo_import ''N'' 4)"
  have i: "0 < length (pe_files demo_input)" "pe_module_by_id demo_input (df_id (pe_files demo_input ! 0)) = Some (demo_modules ! 0)"
    using demo_inputs(2,3) by (simp_all add: demo_input_def build_input_fields demo_files_def)
  have "imports_symbol (demo_modules ! 0) 4 ?s"
    by (auto simp: imports_symbol_def demo_modules_def demo_module_def default_resolved_module_def demo_import_def internal_file_id_def)
  with edges_are_the_imports [OF i] show ?thesis by blast
qed

lemma demo_small: "2 * re_export_count demo_modules (demo_files 6) \<le> U32_MAX"
proof -
  have "map_of (modules_by_id demo_modules) 3 = Some (demo_modules ! 3)" "map_of (modules_by_id demo_modules) 4 = Some (demo_modules ! 4)"
    "map_of (modules_by_id demo_modules) 5 = Some (demo_modules ! 5)"
    by (simp_all add: demo_modules_def modules_by_id_def demo_module_def default_resolved_module_def)
  then have "re_export_count demo_modules (demo_files 6) = 4"
    using demo_inputs(3-5)
    by (simp add: re_export_count_def demo_files_def upt_rec)
      (simp add: demo_modules_def demo_module_def default_resolved_module_def numeral_eq_Suc)
  then show ?thesis by (simp add: U32_MAX_def)
qed

theorem constructions_without_cycles_settle_witness:
  "\<exists>g exceeded. demo_build = Some (g, exceeded) \<and> re_export_cycles g = [] \<and> \<not> exceeded"
proof -
  have "case demo_build of None \<Rightarrow> False | Some (g, exceeded) \<Rightarrow> re_export_cycles g = []" by code_simp
  then obtain g exceeded where g: "demo_build = Some (g, exceeded)" "re_export_cycles g = []" by (auto split: option.splits)
  then show ?thesis
    using constructions_without_cycles_settle [OF demo_small g(1) [unfolded demo_build_def] g(2)] by blast
qed

theorem construction_ends_with_reachability_witness:
  "\<exists>g exceeded. demo_build = Some (g, exceeded) \<and> map file_id (modules g) = [0..<6] \<and> is_entry_point (modules g ! 5)"
proof -
  have "2 * re_export_count demo_modules (demo_files 6) \<le> U32_MAX" by (rule demo_small)
  from construction_ends_with_reachability [OF this, of list_orders Some "[\<lparr>ep_path = demo_path 5, ep_source = ManualEntry\<rparr>]" "[]" "[]"]
  obtain g exceeded where g: "demo_build = Some (g, exceeded)" "map file_id (modules g) = [0..<6]"
      "nf_entry (node_flags (modules g ! 5)) \<longleftrightarrow> df_id (demo_files 6 ! 5) \<in> entry_points g"
    unfolding demo_build_def [symmetric] demo_inputs(1,2) by auto
  obtain g' where g': "demo_build = Some (g', False)" "demo_shape g'" using demo_built by blast
  have "Some (g', False) = Some (g, exceeded)" unfolding g'(1) [symmetric] by (rule g(1))
  then have "entry_points g = {5}" using g'(2) by (simp add: demo_shape_def)
  moreover have "df_id (demo_files 6 ! 5) = 5" by (simp add: demo_files_def)
  ultimately show ?thesis using g by (auto simp: node_flags_def)
qed

section \<open>Where the propagation falls short\<close>

text \<open>
  A named re-export of a module that has the name only through a star: the file imports \<open>f\<close> from
  the barrel 1, which re-exports it from 2, which re-exports everything from the leaf 3. The leaf
  forwards its export to the import, and yet the export ends without a reference.
\<close>

definition renamed_star_modules :: "ResolvedModule list" where
  "renamed_star_modules =
     [demo_module 0 [demo_import ''f'' 1] [] [], demo_module 1 [] [demo_re_export ''f'' ''f'' 2] [],
      demo_module 2 [] [demo_re_export ''*'' ''*'' 3] [], demo_module 3 [] [] [demo_export ''f'']]"

definition forwards_name :: "ModuleGraph \<Rightarrow> FileId \<times> string \<Rightarrow> FileId \<times> string \<Rightarrow> bool" where
  "forwards_name g x y \<longleftrightarrow> y \<in> set (barrel_succs g x)"

text \<open>
  An example of the limit of the propagation.  In the project \<^const>\<open>renamed_star_modules\<close>
  of four files the import of \<^verbatim>\<open>f\<close> ends at a leaf behind \<^verbatim>\<open>export *\<close>, reached by a named
  re-export; the construction stops below its cap and the export of the leaf has no reference.
\<close>

lemma renamed_star_example:
  "\<exists>g. build list_orders Some renamed_star_modules [] (demo_files 4) = Some (g, False) \<and>
     imports_name (renamed_star_modules ! 0) 1 (ImpNamed ''f'') \<and> (forwards g)\<^sup>*\<^sup>* (3, ''f'') (1, ''f'') \<and>
     named_export (modules g ! 3) ''f'' \<and> \<not> used_name g 3 ''f''"
proof -
  have "case build list_orders Some renamed_star_modules [] (demo_files 4) of None \<Rightarrow> False
    | Some (g, exceeded) \<Rightarrow> \<not> exceeded \<and> forwards_name g (3, ''f'') (2, ''f'') \<and> forwards_name g (2, ''f'') (1, ''f'') \<and>
        named_export (modules g ! 3) ''f'' \<and> \<not> used_name g 3 ''f''" by code_simp
  then obtain g where g: "build list_orders Some renamed_star_modules [] (demo_files 4) = Some (g, False)"
      "forwards_name g (3, ''f'') (2, ''f'')" "forwards_name g (2, ''f'') (1, ''f'')"
      "named_export (modules g ! 3) ''f''" "\<not> used_name g 3 ''f''"
    by (auto split: option.splits)
  have "forwards g (3, ''f'') (2, ''f'')" "forwards g (2, ''f'') (1, ''f'')"
    using g(2,3) by (simp_all add: forwards_name_def barrel_succs_iff)
  then have "(forwards g)\<^sup>*\<^sup>* (3, ''f'') (1, ''f'')" by simp
  moreover have "imports_name (renamed_star_modules ! 0) 1 (ImpNamed ''f'')"
    by (simp add: imports_name_def renamed_star_modules_def demo_module_def default_resolved_module_def demo_import_def
        internal_file_id_def is_unused_import_binding_def)
  ultimately show ?thesis using g by blast
qed

text \<open>
  A cycle of star re-exports with two renamings, four re-export edges in all: the propagation
  exceeds the cap of five passes, which the code logs as a defect, though it only adds references.
\<close>

definition renaming_ring_modules :: "ResolvedModule list" where
  "renaming_ring_modules =
     [demo_module 0 [] [demo_re_export ''o'' ''n'' 2, demo_re_export ''p'' ''o'' 2] [],
      demo_module 1 [] [demo_re_export ''*'' ''*'' 0] [],
      demo_module 2 [] [demo_re_export ''*'' ''*'' 1] [demo_export ''o'', demo_export ''p''],
      demo_module 3 [demo_import ''n'' 2] [] []]"

text \<open>
  An example of the safety cap: the project \<^const>\<open>renaming_ring_modules\<close> with four re-export
  edges along a cycle of three files exceeds the cap of five passes.
\<close>

lemma renaming_ring_example:
  "\<exists>g. build list_orders Some renaming_ring_modules [] (demo_files 4) = Some (g, True) \<and>
     length (collect_re_export_tuples (modules g)) = 4"
proof -
  have "case build list_orders Some renaming_ring_modules [] (demo_files 4) of None \<Rightarrow> False
    | Some (g, exceeded) \<Rightarrow> exceeded \<and> length (collect_re_export_tuples (modules g)) = 4" by code_simp
  then show ?thesis by (auto split: option.splits)
qed

end
