(* ===== verification/Dead_Code.thy ===== *)
theory Dead_Code
  imports Unused_Files Duplicate_Exports Graph_Usage
begin

text \<open>
  The detectors of unused files, unused exports and duplicate exports on a constructed graph
  (\<^verbatim>\<open>crates/core/src/analyze/\<close> on the result of \<^verbatim>\<open>crates/graph/src/graph/mod.rs\<close>): what they report is
  what the entry points do not reach, what nothing imports, and what related files export twice.
\<close>

section \<open>Facts about constructed graphs\<close>

definition indexed_graph :: "ModuleGraph \<Rightarrow> nat \<Rightarrow> bool" where
  "indexed_graph g cap \<longleftrightarrow> map ModuleNode.file_id (modules g) = [0..<length (modules g)] \<and> length (modules g) \<le> cap \<and>
     edges g = concat (map (edges_of (edges g)) (modules g)) \<and>
     (\<forall>m \<in> set (modules g). \<forall>e \<in> set (edges_of (edges g) m). edge_source e = ModuleNode.file_id m) \<and>
     reverse_deps g = map (reverse_of (edges g)) [0..<cap] \<and>
     (\<forall>i < length (modules g). (is_reachable (modules g ! i) \<longleftrightarrow> i \<in> Reachability.reached g cap (entry_points g)) \<and>
        (is_entry_point (modules g ! i) \<longleftrightarrow> i \<in> entry_points g)) \<and>
     (\<forall>i < length (modules g). \<forall>re \<in> set (re_exports (modules g ! i)).
        \<exists>e \<in> set (edges g). edge_source e = i \<and> edge_target e = source_file re)"

lemma frames_nth: "map frame ms = map frame ms' \<Longrightarrow> i < length ms \<Longrightarrow> frame (ms ! i) = frame (ms' ! i)"
  by (metis length_map nth_map)

lemma bex_nth: "(\<exists>x \<in> set xs. P x) \<longleftrightarrow> (\<exists>i < length xs. P (xs ! i))"
  by (metis in_set_conv_nth)

lemma mem_concat_nth: "xs = concat (map f ms) \<Longrightarrow> e \<in> set xs \<longleftrightarrow> (\<exists>i < length ms. e \<in> set (f (ms ! i)))"
  by simp (metis in_set_conv_nth)

lemma populated_re_export_edge:
  assumes "i < length (pe_files inp)" "re \<in> set (re_exports (modules (populate_edges inp) ! i))"
  shows "\<exists>e \<in> set (edges_of (edges (populate_edges inp)) (modules (populate_edges inp) ! i)). edge_target e = source_file re"
proof -
  let ?f = "pe_files inp ! i" and ?m = "modules (populate_edges inp) ! i"
  have "node_of inp ?f ?m"
    using populate_edges_storage [of inp] assms(1) by (simp add: storage_ok_def list_all2_conv_all_nth)
  then have "re_exports ?m = build_re_export_edges (pe_module_by_id inp (df_id ?f))"
    unfolding node_of_def build_module_node_def Let_def by (metis (no_types, lifting) ModuleNode.select_convs(5))
  then obtain r rr where r: "pe_module_by_id inp (df_id ?f) = Some r" "rr \<in> set (rm_re_exports r)"
      "internal_file_id (re_export_target rr) = Some (source_file re)"
    using assms(2) by (auto simp: build_re_export_edges_def map_filter_def split: option.splits)
  then have "imports_symbol r (source_file re) (re_export_symbol rr)" unfolding imports_symbol_def by blast
  then show ?thesis using edges_of_module [OF assms(1) r(1)] by blast
qed

lemma built_indexed:
  assumes "build_with_reachability_roots orders canonicalize rms eps runtime_eps test_eps fs = Some (g, exceeded)"
    and ids: "map df_id fs = [0..<length fs]"
  shows "indexed_graph g (total_capacity_of fs)" "length (modules g) = length fs"
    "\<forall>i < length fs. node_path (modules g ! i) = df_path (fs ! i)"
    "\<forall>i < length fs. is_declaration_file_path (df_path (fs ! i)) \<longrightarrow> i \<in> entry_points g"
proof -
  let ?inp = "build_input canonicalize rms eps runtime_eps test_eps fs"
  let ?pg = "populate_edges ?inp" and ?cap = "total_capacity_of fs"
  obtain g1 g2 g3 g4 where p: "phases orders (map snd (modules_by_id rms)) ?inp (g1, g2, g3, g4, g, exceeded)"
      and gids: "map ModuleNode.file_id (modules g) = [0..<length (modules g)]" and len: "length (modules g) = length fs"
      and df: "\<And>i. i < length fs \<Longrightarrow> df_id (fs ! i) = i"
    using built_graph [OF assms] by blast
  note inp = build_input_fields [of canonicalize rms eps runtime_eps test_eps fs]
  have fr: "map frame (modules g) = map frame (modules ?pg)" using phases_frames [OF p] by simp
  have frame: "frame (modules g ! i) = frame (modules ?pg ! i)" if "i < length fs" for i
    using frames_nth [OF fr] that len by simp
  have es: "edges g = edges ?pg" using phases_fields(1-5) [OF p] by simp
  have eo: "edges_of (edges g) (modules g ! i) = edges_of (edges ?pg) (modules ?pg ! i)" if "i < length fs" for i
    using frame [OF that] es by (simp add: frame_def edges_of_def)
  have st: "list_all2 (\<lambda>fl m. node_of ?inp fl m \<and> file_edges ?inp fl (edges_of (edges ?pg) m) \<and>
       snd (edge_range m) \<le> length (edges ?pg)) fs (modules ?pg)"
    "edges ?pg = concat (map (edges_of (edges ?pg)) (modules ?pg))"
    "reverse_deps ?pg = map (reverse_of (edges ?pg)) [0..<?cap]"
    using populate_edges_storage [of ?inp] by (simp_all add: storage_ok_def inp)
  have plen: "length (modules ?pg) = length fs" using st(1) by (simp add: list_all2_lengthD)
  have "map (edges_of (edges g)) (modules g) = map (edges_of (edges ?pg)) (modules ?pg)"
    using eo len plen by (intro nth_equalityI) simp_all
  then have all: "edges g = concat (map (edges_of (edges g)) (modules g))" using es st(2) by simp
  have src: "edge_source e = i" if "i < length fs" "e \<in> set (edges_of (edges g) (modules g ! i))" for i e
  proof -
    have "file_edges ?inp (fs ! i) (edges_of (edges ?pg) (modules ?pg ! i))"
      using st(1) that(1) by (simp add: list_all2_conv_all_nth)
    then show ?thesis
      using that eo [OF that(1)] df [OF that(1)] by (auto simp: file_edges_def edge_list_def split: option.splits)
  qed
  have fid: "ModuleNode.file_id (modules g ! i) = i" if "i < length fs" for i
    using gids that len by (metis add_0 nth_map nth_upt)
  have le: "length fs \<le> ?cap" by (simp add: total_capacity_of_def Let_def)
  have flags: "is_reachable (modules g ! i) \<longleftrightarrow> i \<in> Reachability.reached g ?cap (entry_points g)"
    "is_entry_point (modules g ! i) \<longleftrightarrow> i \<in> entry_points g" if "i < length fs" for i
    using phases_flags [OF p build_input_finite, of i] built_flags(1) [of i ?inp] that len df [OF that] phases_fields(6) [OF p] inp
    by (simp_all add: node_flags_def)
  have re: "\<exists>e \<in> set (edges g). edge_source e = i \<and> edge_target e = source_file re"
    if "i < length fs" "re \<in> set (re_exports (modules g ! i))" for i re
  proof -
    have "re \<in> set (re_exports (modules ?pg ! i))" using frame [OF that(1)] that(2) by (simp add: frame_def)
    then have "\<exists>e \<in> set (edges_of (edges g) (modules g ! i)). edge_target e = source_file re"
      unfolding eo [OF that(1)] using that(1) inp(1) by (intro populated_re_export_edge) simp_all
    then obtain e where e: "e \<in> set (edges_of (edges g) (modules g ! i))" "edge_target e = source_file re" by blast
    then have "e \<in> set (edges g)" unfolding mem_concat_nth [OF all] using that(1) len by auto
    then show ?thesis using e(2) src [OF that(1) e(1)] by blast
  qed
  show "indexed_graph g ?cap"
    unfolding indexed_graph_def
  proof (intro conjI)
    show "edges g = concat (map (edges_of (edges g)) (modules g))" by (rule all)
    show "\<forall>m \<in> set (modules g). \<forall>e \<in> set (edges_of (edges g) m). edge_source e = ModuleNode.file_id m"
    proof (intro ballI)
      fix m e
      assume "m \<in> set (modules g)" and e: "e \<in> set (edges_of (edges g) m)"
      then obtain i where i: "i < length fs" "m = modules g ! i" using len by (metis in_set_conv_nth)
      then show "edge_source e = ModuleNode.file_id m" using src [OF i(1)] fid [OF i(1)] e by simp
    qed
    show "\<forall>i < length (modules g). (is_reachable (modules g ! i) \<longleftrightarrow> i \<in> Reachability.reached g ?cap (entry_points g)) \<and>
        (is_entry_point (modules g ! i) \<longleftrightarrow> i \<in> entry_points g)"
      using flags len by simp
  qed (use gids le len re phases_fields(9) [OF p] st(3) es in simp_all)
  show "length (modules g) = length fs" by (rule len)
  show "\<forall>i < length fs. node_path (modules g ! i) = df_path (fs ! i)"
  proof (intro allI impI)
    fix i
    assume i: "i < length fs"
    then have "node_of ?inp (fs ! i) (modules ?pg ! i)" using st(1) by (simp add: list_all2_conv_all_nth)
    then show "node_path (modules g ! i) = df_path (fs ! i)" using node_fields(2) frame [OF i] by (auto simp: frame_def)
  qed
  show "\<forall>i < length fs. is_declaration_file_path (df_path (fs ! i)) \<longrightarrow> i \<in> entry_points g"
  proof (intro allI impI)
    fix i
    assume i: "i < length fs" "is_declaration_file_path (df_path (fs ! i))"
    have decl: "(\<exists>f \<in> set fls. is_declaration_file_path (df_path f) \<and> df_id f = k) \<longrightarrow>
        k \<in> fold (\<lambda>f ids. if is_declaration_file_path (df_path f) then insert (df_id f) ids else ids) fls start"
      for fls k start
    proof (induction fls rule: rev_induct)
      case (snoc f fls)
      then show ?case by auto
    qed simp
    have "\<exists>f \<in> set fs. is_declaration_file_path (df_path f) \<and> df_id f = i"
      using i df [OF i(1)] nth_mem [OF i(1)] by blast
    then have "i \<in> pe_entry_point_ids ?inp"
      unfolding build_input_def Let_def using decl [of fs i] by simp
    then show "i \<in> entry_points g" using phases_fields(6) [OF p] by simp
  qed
qed

lemma edge_of_module:
  assumes "indexed_graph g cap" "e \<in> set (edges g)"
  shows "edge_source e < length (modules g)" "e \<in> set (edges_of (edges g) (modules g ! edge_source e))"
proof -
  have "edges g = concat (map (edges_of (edges g)) (modules g))" using assms(1) unfolding indexed_graph_def by blast
  from mem_concat_nth [OF this] assms(2) obtain i where
    i: "i < length (modules g)" "e \<in> set (edges_of (edges g) (modules g ! i))" by blast
  moreover have "edge_source e = i"
  proof -
    have "edge_source e = ModuleNode.file_id (modules g ! i)"
      using assms(1) i nth_mem [OF i(1)] unfolding indexed_graph_def by blast
    also have "\<dots> = map ModuleNode.file_id (modules g) ! i" using i(1) by simp
    also have "map ModuleNode.file_id (modules g) = [0..<length (modules g)]" using assms(1) unfolding indexed_graph_def by blast
    finally show ?thesis using i(1) by simp
  qed
  ultimately show "edge_source e < length (modules g)" "e \<in> set (edges_of (edges g) (modules g ! edge_source e))" by simp_all
qed

lemma edge_reaches:
  assumes g: "indexed_graph g cap" and e: "e \<in> set (edges g)" "is_reachable (modules g ! edge_source e)"
    and "edge_target e < length (modules g)"
  shows "is_reachable (modules g ! edge_target e)"
proof -
  note m = edge_of_module [OF g e(1)]
  have "edge_source e \<in> Reachability.reached g cap (entry_points g)" using g e(2) m(1) by (simp add: indexed_graph_def)
  moreover have "(edge_source e, edge_target e) \<in> imports_rel g cap"
    using m assms(4) g by (auto simp: imports_rel_def indexed_graph_def)
  ultimately have "edge_target e \<in> Reachability.reached g cap (entry_points g)"
    unfolding Reachability.reached_def by (auto intro: rtrancl_into_rtrancl)
  then show ?thesis using g assms(4) by (simp add: indexed_graph_def)
qed

lemma reachable_has_importer:
  assumes g: "indexed_graph g cap" and i: "i < length (modules g)" "is_reachable (modules g ! i)" "\<not> is_entry_point (modules g ! i)"
  shows "\<exists>e \<in> set (edges g). edge_target e = i"
proof -
  obtain s where s: "s \<in> entry_points g" "(s, i) \<in> (imports_rel g cap)\<^sup>*"
    using g i by (auto simp: indexed_graph_def Reachability.reached_def)
  have "s \<noteq> i" using s(1) g i by (auto simp: indexed_graph_def)
  with s(2) obtain f where "(f, i) \<in> imports_rel g cap" by (metis rtranclE)
  then obtain e where e: "f < length (modules g)" "e \<in> set (edges_of (edges g) (modules g ! f))" "edge_target e = i"
    by (auto simp: imports_rel_def)
  moreover have "edges g = concat (map (edges_of (edges g)) (modules g))" using g unfolding indexed_graph_def by blast
  from mem_concat_nth [OF this] e(1,2) have "e \<in> set (edges g)" by blast
  ultimately show ?thesis by blast
qed

lemma reverse_deps_mem:
  assumes "indexed_graph g cap" "t < cap"
  shows "s \<in> set (reverse_deps g ! t) \<longleftrightarrow> (\<exists>e \<in> set (edges g). edge_source e = s \<and> edge_target e = t)"
  using assms by (auto simp: indexed_graph_def reverse_of_def)

section \<open>Unused files\<close>

lemma reachable_importer_reaches:
  assumes g: "indexed_graph g cap" and i: "i < length (modules g)" "has_reachable_importer i g"
  shows "is_reachable (modules g ! i)"
proof -
  have cap: "i < cap" using g i(1) by (simp add: indexed_graph_def)
  obtain dep where dep: "dep \<in> set (reverse_deps g ! i)" "is_reachable (modules g ! dep)"
    using i(2) by (auto simp: has_reachable_importer_def list_ex_iff split: if_splits)
  from dep(1) reverse_deps_mem [OF g cap] obtain e where "e \<in> set (edges g)" "edge_source e = dep" "edge_target e = i" by blast
  then show ?thesis using edge_reaches [OF g, of e] dep(2) i(1) by simp
qed

lemma entry_point_reachable:
  assumes "indexed_graph g cap" "i < length (modules g)" "is_entry_point (modules g ! i)"
  shows "is_reachable (modules g ! i)"
  using assms by (auto simp: indexed_graph_def Reachability.reached_def)

lemma declaration_files_agree: "is_declaration_file p \<longleftrightarrow> is_declaration_file_path p"
  by (auto simp: is_declaration_file_def is_declaration_file_path_def name_or_empty_def ends_with_def strip_suffix_def
      Let_def strip_prefix_eq split: option.splits)

text \<open>
  C7. A file is reported as unused exactly when no entry point reaches it over imports and re-exports,
  it is not a tool configuration or an HTML file, not a barrel of a reachable module, no reachable
  file is recorded at its exports, it exists, and no file directive silences the finding.  The two
  further conditions of the detector never decide: a file with a reachable importer is reached,
  and a declaration file is always an entry point.
\<close>

theorem unused_files_are_the_unreached:
  assumes "build_with_reachability_roots orders canonicalize rms eps runtime_eps test_eps fs = Some (g, exceeded)"
    and "map df_id fs = [0..<length fs]" "ctx_ok supp"
  shows "\<lparr>unused_file_path = p\<rparr> \<in> set (fst (find_unused_files path_exists g supp)) \<longleftrightarrow>
    (\<exists>i < length fs. df_path (fs ! i) = p \<and> i \<notin> Reachability.reached g (total_capacity_of fs) (entry_points g) \<and>
       \<not> is_config_file p \<and> \<not> is_html_file p \<and> \<not> is_barrel_with_reachable_sources (modules g ! i) g \<and>
       \<not> has_reachable_export_reference i g \<and> path_exists p \<and> \<not> file_silenced supp i UnusedFile)"
proof -
  note b = built_indexed [OF assms(1,2)]
  have fid: "ModuleNode.file_id (modules g ! i) = i" if "i < length fs" for i
    using b(1,2) that unfolding indexed_graph_def by (metis add_0 nth_map nth_upt)
  have cand: "unused_file_candidate g (modules g ! i) \<longleftrightarrow>
      i \<notin> Reachability.reached g (total_capacity_of fs) (entry_points g) \<and>
      \<not> is_config_file (df_path (fs ! i)) \<and> \<not> is_html_file (df_path (fs ! i)) \<and>
      \<not> is_barrel_with_reachable_sources (modules g ! i) g \<and> \<not> has_reachable_export_reference i g" if i: "i < length fs" for i
  proof -
    have r: "is_reachable (modules g ! i) \<longleftrightarrow> i \<in> Reachability.reached g (total_capacity_of fs) (entry_points g)"
        "is_entry_point (modules g ! i) \<longleftrightarrow> i \<in> entry_points g"
      using b(1,2) i by (simp_all add: indexed_graph_def)
    have "is_entry_point (modules g ! i) \<Longrightarrow> is_reachable (modules g ! i)"
      "has_reachable_importer i g \<Longrightarrow> is_reachable (modules g ! i)"
      using entry_point_reachable [OF b(1), of i] reachable_importer_reaches [OF b(1), of i] b(2) i by auto
    moreover have "is_declaration_file (df_path (fs ! i)) \<Longrightarrow> is_entry_point (modules g ! i)"
      using b(4) i r(2) by (simp add: declaration_files_agree)
    ultimately show ?thesis using r(1) b(3) i fid [OF i] unfolding unused_file_candidate_def by auto
  qed
  have "\<lparr>unused_file_path = p\<rparr> \<in> set (fst (find_unused_files path_exists g supp)) \<longleftrightarrow>
      (\<exists>i < length fs. p = node_path (modules g ! i) \<and> unused_file_candidate g (modules g ! i) \<and>
         path_exists (node_path (modules g ! i)) \<and> \<not> file_silenced supp (ModuleNode.file_id (modules g ! i)) UnusedFile)"
    unfolding find_unused_files_mem [OF assms(3)] bex_nth b(2) by simp
  also have "\<dots> \<longleftrightarrow> (\<exists>i < length fs. df_path (fs ! i) = p \<and> i \<notin> Reachability.reached g (total_capacity_of fs) (entry_points g) \<and>
       \<not> is_config_file p \<and> \<not> is_html_file p \<and> \<not> is_barrel_with_reachable_sources (modules g ! i) g \<and>
       \<not> has_reachable_export_reference i g \<and> path_exists p \<and> \<not> file_silenced supp i UnusedFile)"
    using b(3) fid cand by auto
  finally show ?thesis .
qed

section \<open>Unused exports\<close>





section \<open>Duplicate exports\<close>

text \<open>
  C16. The search for duplicate exports ends, for all orders of its hash maps.  A name is reported exactly
  when some of the modules that export it, leaving out those that re-export it from another of
  them, form a group connected by common importers or imports of each other, with at least two
  exports that are not just one value and one type; the locations of the finding are those of
  all such groups.
\<close>

theorem duplicate_exports_are_the_related_groups:
  assumes "build_with_reachability_roots orders canonicalize rms eps runtime_eps test_eps fs = Some (g, exceeded)"
    and "map df_id fs = [0..<length fs]" "ctx_ok supp"
    and "\<And>xs. set (importer_order xs) = set xs" "\<And>xs. set (root_order xs) = set xs"
    and "dc = duplicate_context pc g config plugin_result" "sources = build_re_export_source_map g resolved_modules"
  shows "\<exists>ds. fst (find_duplicate_exports_with_plugins importer_order root_order pc g config lines plugin_result
      resolved_modules supp) = Some ds \<and>
    (\<forall>n. (\<exists>d \<in> set ds. de_export_name d = n) \<longleftrightarrow>
       (\<exists>c. reported_group sources g (entries_named n (all_entries dc supp)) c)) \<and>
    (\<forall>d \<in> set ds. set (de_locations d) =
       reported_locations sources g lines (entries_named (de_export_name d) (all_entries dc supp)))"
proof (rule find_duplicates [OF assms(3,4,5,6,7)], intro ballI)
  note b = built_indexed [OF assms(1,2)]
  fix x
  assume "x \<in> set (all_entries dc supp)"
  then obtain i m e where i: "i < length fs" "m = modules g ! i" "is_reachable m" "\<not> is_entry_point m" "snd x = entry_of i m e"
    using b(2) by (auto simp: all_entries_def module_entries_def assms(6) duplicate_context_def in_set_enumerate_eq split: if_splits)
  have "ModuleNode.file_id m = i"
    using b(1,2) i(1,2) unfolding indexed_graph_def by (metis add_0 nth_map nth_upt)
  moreover have cap: "i < total_capacity_of fs" "length (reverse_deps g) = total_capacity_of fs"
    using b(1,2) i(1) by (simp_all add: indexed_graph_def)
  ultimately have imp: "importers_of g (snd x) = reverse_deps g ! i"
    by (simp add: importers_of_def entry_of_def i(5))
  obtain e where "e \<in> set (edges g)" "edge_target e = i" using reachable_has_importer [OF b(1), of i] i b(2) by auto
  then have "edge_source e \<in> set (importers_of g (snd x))"
    unfolding imp using reverse_deps_mem [OF b(1) cap(1)] by blast
  then show "importers_of g (snd x) \<noteq> []" by auto
qed

section \<open>A project\<close>

text \<open>
  An entry point that imports \<open>x\<close> from a barrel, which renames \<open>y\<close> of a module, and \<open>d\<close> from two
  modules; the export \<open>z\<close> and a whole file are left over.
\<close>

definition report_modules :: "ResolvedModule list" where
  "report_modules =
     [demo_module 0 [demo_import ''x'' 1, demo_import ''d'' 2, demo_import ''d'' 3] [] [],
      demo_module 1 [] [demo_re_export ''y'' ''x'' 2] [],
      demo_module 2 [] [] [demo_export ''y'', demo_export ''d'', demo_export ''z''],
      demo_module 3 [] [] [demo_export ''d''],
      demo_module 4 [] [] [demo_export ''u'']]"

definition report_build :: "(ModuleGraph \<times> bool) option" where
  "report_build = build_with_reachability_roots list_orders Some report_modules
     [\<lparr>ep_path = demo_path 0, ep_source = ManualEntry\<rparr>] [] [] (demo_files 5)"

definition report_config :: ExportConfig where
  "report_config = \<lparr>root = [''/''], rules = default_rules, overrides = [], rule_packs = [], compiled_ignore_exports = [],
     ignore_exports_used_in_file = IgnoreBool False, include_entry_exports = False\<rparr>"

definition no_patterns :: PatternCompilers where
  "no_patterns = \<lparr>glob = \<lambda>_. None, literal_glob = \<lambda>_. None, regex = \<lambda>_. None\<rparr>"

definition no_sources :: SemanticModel where
  "no_sources = \<lparr>read_source = \<lambda>_. [], has_real_use = \<lambda>_ _ _. False\<rparr>"

definition report_exports :: "ModuleGraph \<Rightarrow> unit module_result" where
  "report_exports g = fst (find_unused_exports no_patterns no_sources g [] report_config None Map.empty (context_new []))"

definition report_duplicates :: "ModuleGraph \<Rightarrow> DuplicateExport list option" where
  "report_duplicates g = fst (find_duplicate_exports_with_plugins id id no_patterns g report_config Map.empty None [] (context_new []))"

definition report_shape :: "ModuleGraph \<Rightarrow> bool" where
  "report_shape g \<longleftrightarrow> length (modules g) = 5 \<and> is_reachable (modules g ! 0) \<and>
     map (export_display \<circ> ExportSymbol.export_name) (exports (modules g ! 2)) = [''y'', ''d'', ''z''] \<and>
     map (\<lambda>e. (source_file e, re_imported_name e, re_exported_name e)) (re_exports (modules g ! 1)) = [(2, ''y'', ''x'')] \<and>
     named_export (modules g ! 2) ''y'' \<and>
     fst (find_unused_files (\<lambda>_. True) g (context_new [])) = [\<lparr>unused_file_path = demo_path 4\<rparr>] \<and>
     map ue_export_name (fst (report_exports g)) = [''z''] \<and>
     map_option (map de_export_name) (report_duplicates g) = Some [''d'']"

lemma report_built: "\<exists>g. report_build = Some (g, False) \<and> report_shape g"
proof -
  have "case report_build of None \<Rightarrow> False | Some (g, exceeded) \<Rightarrow> \<not> exceeded \<and> report_shape g" by code_simp
  then show ?thesis by (auto split: option.splits)
qed

lemma report_inputs:
  "map df_id (demo_files 5) = [0..<length (demo_files 5)]" "length (demo_files 5) = 5"
  "distinct (map df_path (demo_files 5))" "df_path (demo_files 5 ! 2) = demo_path 2" "df_path (demo_files 5 ! 4) = demo_path 4"
  "map_of (modules_by_id report_modules) 0 = Some (report_modules ! 0)"
  "map_of (modules_by_id report_modules) 1 = Some (report_modules ! 1)"
  "imports_name (report_modules ! 0) 1 (ImpNamed ''x'')" "offers (report_modules ! 1) (ImpNamed ''x'')"
  by (simp_all add: eval_nat_numeral demo_files_def report_modules_def modules_by_id_def demo_module_def default_resolved_module_def
      imports_name_def offers_def demo_import_def demo_re_export_def demo_export_def demo_path_def
      internal_file_id_def is_unused_import_binding_def export_name_of_def default_imported_name_def upt_rec)

theorem unused_files_are_the_unreached_witness:
  "\<exists>g. report_build = Some (g, False) \<and>
     4 \<notin> Reachability.reached g (total_capacity_of (demo_files 5)) (entry_points g)"
proof -
  obtain g where g: "report_build = Some (g, False)" "report_shape g" using report_built by blast
  have "\<lparr>unused_file_path = demo_path 4\<rparr> \<in> set (fst (find_unused_files (\<lambda>_. True) g (context_new [])))"
    using g(2) by (simp add: report_shape_def)
  with unused_files_are_the_unreached [OF g(1) [unfolded report_build_def] report_inputs(1) ctx_ok_new]
  obtain i where "i < 5" "df_path (demo_files 5 ! i) = demo_path 4"
      "i \<notin> Reachability.reached g (total_capacity_of (demo_files 5)) (entry_points g)"
    using report_inputs(2) by auto
  then show ?thesis
    using g(1) nth_eq_iff_index_eq [OF report_inputs(3), of i 4] report_inputs(2,5) by auto
qed


theorem duplicate_exports_are_the_related_groups_witness:
  "\<exists>g c. report_build = Some (g, False) \<and>
     reported_group (build_re_export_source_map g []) g
       (entries_named ''d'' (all_entries (duplicate_context no_patterns g report_config None) (context_new []))) c"
proof -
  obtain g where g: "report_build = Some (g, False)" "report_shape g" using report_built by blast
  then obtain ds where ds: "report_duplicates g = Some ds" "map de_export_name ds = [''d'']" by (auto simp: report_shape_def)
  then have d: "\<exists>d \<in> set ds. de_export_name d = ''d''" by (auto simp: map_eq_Cons_conv)
  note r = duplicate_exports_are_the_related_groups [OF g(1) [unfolded report_build_def] report_inputs(1) ctx_ok_new [of "[]"] _ _ refl refl,
      where importer_order = id and root_order = id and pc = no_patterns and config = report_config and plugin_result = None
        and lines = Map.empty and resolved_modules = "[]", folded report_duplicates_def, unfolded id_apply, OF refl refl]
  from r ds(1) d show ?thesis using g(1) by (metis option.inject)
qed

end
