(* ===== verification/Clone_Tokens.thy ===== *)
theory Clone_Tokens
  imports Fallow_Prelude
begin

text \<open>
  Tokens of the duplicate-code detector (\<^verbatim>\<open>crates/core/src/duplicates/token_types.rs\<close>) and
  their normalisation to hashes (\<^verbatim>\<open>normalize.rs\<close>, with the modes of
  \<^verbatim>\<open>crates/config/src/config/duplicates_config.rs\<close>).  The constructors of the keyword,
  operator and punctuation enumerations carry a prefix.  The byte hash \<^verbatim>\<open>xxh3_64\<close> of a
  library is a parameter.  Source text is a string of UTF-8 bytes.
\<close>

section \<open>Tokens\<close>

datatype KeywordType =
    KwVar | KwLet | KwConst | KwFunction | KwReturn | KwIf | KwElse | KwFor | KwWhile | KwDo
   | KwSwitch | KwCase | KwBreak | KwContinue | KwDefault | KwThrow | KwTry | KwCatch
   | KwFinally | KwNew | KwDelete | KwTypeof | KwInstanceof | KwIn | KwOf | KwVoid | KwThis
   | KwSuper | KwClass | KwExtends | KwImport | KwExport | KwFrom | KwAs | KwAsync | KwAwait
   | KwYield | KwStatic | KwGet | KwSet | KwType | KwInterface | KwEnum | KwImplements
   | KwAbstract | KwDeclare | KwReadonly | KwKeyof | KwSatisfies

datatype OperatorType =
    OpAssign | OpAdd | OpSub | OpMul | OpDiv | OpMod | OpExp | OpEq | OpNEq | OpStrictEq
   | OpStrictNEq | OpLt | OpGt | OpLtEq | OpGtEq | OpAnd | OpOr | OpNot | OpBitwiseAnd
   | OpBitwiseOr | OpBitwiseXor | OpBitwiseNot | OpShiftLeft | OpShiftRight
   | OpUnsignedShiftRight | OpNullishCoalescing | OpOptionalChaining | OpSpread | OpTernary
   | OpArrow | OpComma | OpAddAssign | OpSubAssign | OpMulAssign | OpDivAssign | OpModAssign
   | OpExpAssign | OpAndAssign | OpOrAssign | OpNullishAssign | OpBitwiseAndAssign
   | OpBitwiseOrAssign | OpBitwiseXorAssign | OpShiftLeftAssign | OpShiftRightAssign
   | OpUnsignedShiftRightAssign | OpIncrement | OpDecrement | OpInstanceof | OpIn

datatype PunctuationType =
    PnOpenParen | PnCloseParen | PnOpenBrace | PnCloseBrace | PnOpenBracket | PnCloseBracket
   | PnSemicolon | PnColon | PnDot

text \<open>The discriminants \<^verbatim>\<open>as u8\<close>.\<close>

primrec keyword_byte :: "KeywordType \<Rightarrow> nat" where
  "keyword_byte KwVar = 0"
| "keyword_byte KwLet = 1"
| "keyword_byte KwConst = 2"
| "keyword_byte KwFunction = 3"
| "keyword_byte KwReturn = 4"
| "keyword_byte KwIf = 5"
| "keyword_byte KwElse = 6"
| "keyword_byte KwFor = 7"
| "keyword_byte KwWhile = 8"
| "keyword_byte KwDo = 9"
| "keyword_byte KwSwitch = 10"
| "keyword_byte KwCase = 11"
| "keyword_byte KwBreak = 12"
| "keyword_byte KwContinue = 13"
| "keyword_byte KwDefault = 14"
| "keyword_byte KwThrow = 15"
| "keyword_byte KwTry = 16"
| "keyword_byte KwCatch = 17"
| "keyword_byte KwFinally = 18"
| "keyword_byte KwNew = 19"
| "keyword_byte KwDelete = 20"
| "keyword_byte KwTypeof = 21"
| "keyword_byte KwInstanceof = 22"
| "keyword_byte KwIn = 23"
| "keyword_byte KwOf = 24"
| "keyword_byte KwVoid = 25"
| "keyword_byte KwThis = 26"
| "keyword_byte KwSuper = 27"
| "keyword_byte KwClass = 28"
| "keyword_byte KwExtends = 29"
| "keyword_byte KwImport = 30"
| "keyword_byte KwExport = 31"
| "keyword_byte KwFrom = 32"
| "keyword_byte KwAs = 33"
| "keyword_byte KwAsync = 34"
| "keyword_byte KwAwait = 35"
| "keyword_byte KwYield = 36"
| "keyword_byte KwStatic = 37"
| "keyword_byte KwGet = 38"
| "keyword_byte KwSet = 39"
| "keyword_byte KwType = 40"
| "keyword_byte KwInterface = 41"
| "keyword_byte KwEnum = 42"
| "keyword_byte KwImplements = 43"
| "keyword_byte KwAbstract = 44"
| "keyword_byte KwDeclare = 45"
| "keyword_byte KwReadonly = 46"
| "keyword_byte KwKeyof = 47"
| "keyword_byte KwSatisfies = 48"

primrec operator_byte :: "OperatorType \<Rightarrow> nat" where
  "operator_byte OpAssign = 0"
| "operator_byte OpAdd = 1"
| "operator_byte OpSub = 2"
| "operator_byte OpMul = 3"
| "operator_byte OpDiv = 4"
| "operator_byte OpMod = 5"
| "operator_byte OpExp = 6"
| "operator_byte OpEq = 7"
| "operator_byte OpNEq = 8"
| "operator_byte OpStrictEq = 9"
| "operator_byte OpStrictNEq = 10"
| "operator_byte OpLt = 11"
| "operator_byte OpGt = 12"
| "operator_byte OpLtEq = 13"
| "operator_byte OpGtEq = 14"
| "operator_byte OpAnd = 15"
| "operator_byte OpOr = 16"
| "operator_byte OpNot = 17"
| "operator_byte OpBitwiseAnd = 18"
| "operator_byte OpBitwiseOr = 19"
| "operator_byte OpBitwiseXor = 20"
| "operator_byte OpBitwiseNot = 21"
| "operator_byte OpShiftLeft = 22"
| "operator_byte OpShiftRight = 23"
| "operator_byte OpUnsignedShiftRight = 24"
| "operator_byte OpNullishCoalescing = 25"
| "operator_byte OpOptionalChaining = 26"
| "operator_byte OpSpread = 27"
| "operator_byte OpTernary = 28"
| "operator_byte OpArrow = 29"
| "operator_byte OpComma = 30"
| "operator_byte OpAddAssign = 31"
| "operator_byte OpSubAssign = 32"
| "operator_byte OpMulAssign = 33"
| "operator_byte OpDivAssign = 34"
| "operator_byte OpModAssign = 35"
| "operator_byte OpExpAssign = 36"
| "operator_byte OpAndAssign = 37"
| "operator_byte OpOrAssign = 38"
| "operator_byte OpNullishAssign = 39"
| "operator_byte OpBitwiseAndAssign = 40"
| "operator_byte OpBitwiseOrAssign = 41"
| "operator_byte OpBitwiseXorAssign = 42"
| "operator_byte OpShiftLeftAssign = 43"
| "operator_byte OpShiftRightAssign = 44"
| "operator_byte OpUnsignedShiftRightAssign = 45"
| "operator_byte OpIncrement = 46"
| "operator_byte OpDecrement = 47"
| "operator_byte OpInstanceof = 48"
| "operator_byte OpIn = 49"

primrec punctuation_byte :: "PunctuationType \<Rightarrow> nat" where
  "punctuation_byte PnOpenParen = 0"
| "punctuation_byte PnCloseParen = 1"
| "punctuation_byte PnOpenBrace = 2"
| "punctuation_byte PnCloseBrace = 3"
| "punctuation_byte PnOpenBracket = 4"
| "punctuation_byte PnCloseBracket = 5"
| "punctuation_byte PnSemicolon = 6"
| "punctuation_byte PnColon = 7"
| "punctuation_byte PnDot = 8"

datatype TokenKind =
    Keyword KeywordType
  | Identifier string
  | StringLiteral string
  | NumericLiteral string
  | BooleanLiteral bool
  | NullLiteral
  | TemplateLiteral
  | RegExpLiteral
  | Operator OperatorType
  | Punctuation PunctuationType
  | Boundary string

record SourceToken =
  token_kind :: TokenKind
  token_span :: Span

record FileTokens =
  tokens :: "SourceToken list"
  atomic_invocation_spans :: "Span list"
  source :: string
  line_count :: nat

definition point_span :: "nat \<Rightarrow> Span" where
  "point_span pos = \<lparr>span_begin = pos, span_end = pos + 1\<rparr>"

record HashedToken =
  token_hash :: u64
  original_index :: nat

section \<open>Normalisation\<close>

datatype DetectionMode = Strict | Mild | Weak | Semantic

record NormalizationConfig =
  cfg_ignore_identifiers :: "bool option"
  cfg_ignore_string_values :: "bool option"
  cfg_ignore_numeric_values :: "bool option"

record ResolvedNormalization =
  ignore_identifiers :: bool
  ignore_string_values :: bool
  ignore_numeric_values :: bool

definition resolve_normalization ::
  "DetectionMode \<Rightarrow> NormalizationConfig \<Rightarrow> ResolvedNormalization" where
  "resolve_normalization mode cfg =
     (let (default_ids, default_strings, default_numbers) =
        (case mode of
           Strict \<Rightarrow> (False, False, False)
         | Mild \<Rightarrow> (False, False, False)
         | Weak \<Rightarrow> (False, True, False)
         | Semantic \<Rightarrow> (True, True, True));
        unwrap_or = (\<lambda>x d. case x of Some b \<Rightarrow> b | None \<Rightarrow> d)
      in \<lparr>ignore_identifiers = unwrap_or (cfg_ignore_identifiers cfg) default_ids,
          ignore_string_values = unwrap_or (cfg_ignore_string_values cfg) default_strings,
          ignore_numeric_values = unwrap_or (cfg_ignore_numeric_values cfg) default_numbers\<rparr>)"

definition namespaced :: "string \<Rightarrow> string \<Rightarrow> string" where
  "namespaced namespace data = namespace @ [byte_char 0] @ data"

text \<open>The bytes that are hashed for a token.\<close>

primrec token_bytes :: "ResolvedNormalization \<Rightarrow> string \<Rightarrow> TokenKind \<Rightarrow> string" where
  "token_bytes norm namespace (Keyword kw) =
     namespaced namespace [byte_char 0, byte_char (keyword_byte kw)]"
| "token_bytes norm namespace (Identifier name) =
     namespaced namespace
       (if ignore_identifiers norm then [byte_char 1, byte_char 0] else byte_char 1 # name)"
| "token_bytes norm namespace (StringLiteral val) =
     namespaced namespace
       (if ignore_string_values norm then [byte_char 2, byte_char 0] else byte_char 2 # val)"
| "token_bytes norm namespace (NumericLiteral val) =
     namespaced namespace
       (if ignore_numeric_values norm then [byte_char 3, byte_char 0] else byte_char 3 # val)"
| "token_bytes norm namespace (BooleanLiteral b) =
     namespaced namespace [byte_char 4, byte_char (if b then 1 else 0)]"
| "token_bytes norm namespace NullLiteral = namespaced namespace [byte_char 5]"
| "token_bytes norm namespace TemplateLiteral = namespaced namespace [byte_char 6]"
| "token_bytes norm namespace RegExpLiteral = namespaced namespace [byte_char 7]"
| "token_bytes norm namespace (Operator op) =
     namespaced namespace [byte_char 8, byte_char (operator_byte op)]"
| "token_bytes norm namespace (Punctuation p) =
     namespaced namespace [byte_char 9, byte_char (punctuation_byte p)]"
| "token_bytes norm namespace (Boundary name) = byte_char 10 # name"

definition hash_token_resolved ::
  "(string \<Rightarrow> u64) \<Rightarrow> ResolvedNormalization \<Rightarrow> string \<Rightarrow> TokenKind \<Rightarrow> u64" where
  "hash_token_resolved xxh3 norm namespace kind = xxh3 (token_bytes norm namespace kind)"

text \<open>The loop over the tokens: the namespace in force and the index of the next token.\<close>

fun normalize_from ::
  "(string \<Rightarrow> u64) \<Rightarrow> ResolvedNormalization \<Rightarrow> string \<Rightarrow> nat \<Rightarrow> SourceToken list \<Rightarrow>
     HashedToken list" where
  "normalize_from xxh3 norm namespace i [] = []"
| "normalize_from xxh3 norm namespace i (t # ts) =
     (let ns = (case token_kind t of Boundary name \<Rightarrow> name | _ \<Rightarrow> namespace)
      in \<lparr>token_hash = hash_token_resolved xxh3 norm ns (token_kind t), original_index = i\<rparr> #
         normalize_from xxh3 norm ns (i + 1) ts)"

definition normalize_and_hash_resolved ::
  "(string \<Rightarrow> u64) \<Rightarrow> SourceToken list \<Rightarrow> ResolvedNormalization \<Rightarrow> HashedToken list" where
  "normalize_and_hash_resolved xxh3 toks norm = normalize_from xxh3 norm ''js'' 0 toks"

definition normalize_and_hash ::
  "(string \<Rightarrow> u64) \<Rightarrow> SourceToken list \<Rightarrow> DetectionMode \<Rightarrow> HashedToken list" where
  "normalize_and_hash xxh3 toks mode =
     normalize_and_hash_resolved xxh3 toks (resolve_normalization mode
       \<lparr>cfg_ignore_identifiers = None, cfg_ignore_string_values = None,
        cfg_ignore_numeric_values = None\<rparr>)"

section \<open>The encoding separates what the mode keeps apart\<close>

definition all_keywords :: "KeywordType list" where
  "all_keywords =
     [KwVar, KwLet, KwConst, KwFunction, KwReturn, KwIf, KwElse, KwFor, KwWhile, KwDo,
      KwSwitch, KwCase, KwBreak, KwContinue, KwDefault, KwThrow, KwTry, KwCatch, KwFinally,
      KwNew, KwDelete, KwTypeof, KwInstanceof, KwIn, KwOf, KwVoid, KwThis, KwSuper, KwClass,
      KwExtends, KwImport, KwExport, KwFrom, KwAs, KwAsync, KwAwait, KwYield, KwStatic,
      KwGet, KwSet, KwType, KwInterface, KwEnum, KwImplements, KwAbstract, KwDeclare,
      KwReadonly, KwKeyof, KwSatisfies]"

definition all_operators :: "OperatorType list" where
  "all_operators =
     [OpAssign, OpAdd, OpSub, OpMul, OpDiv, OpMod, OpExp, OpEq, OpNEq, OpStrictEq,
      OpStrictNEq, OpLt, OpGt, OpLtEq, OpGtEq, OpAnd, OpOr, OpNot, OpBitwiseAnd, OpBitwiseOr,
      OpBitwiseXor, OpBitwiseNot, OpShiftLeft, OpShiftRight, OpUnsignedShiftRight,
      OpNullishCoalescing, OpOptionalChaining, OpSpread, OpTernary, OpArrow, OpComma,
      OpAddAssign, OpSubAssign, OpMulAssign, OpDivAssign, OpModAssign, OpExpAssign,
      OpAndAssign, OpOrAssign, OpNullishAssign, OpBitwiseAndAssign, OpBitwiseOrAssign,
      OpBitwiseXorAssign, OpShiftLeftAssign, OpShiftRightAssign, OpUnsignedShiftRightAssign,
      OpIncrement, OpDecrement, OpInstanceof, OpIn]"

definition all_punctuation :: "PunctuationType list" where
  "all_punctuation =
     [PnOpenParen, PnCloseParen, PnOpenBrace, PnCloseBrace, PnOpenBracket, PnCloseBracket,
      PnSemicolon, PnColon, PnDot]"

lemma nth_keyword_byte: "all_keywords ! keyword_byte k = k" "keyword_byte k < 256"
  by (cases k; simp add: all_keywords_def)+

lemma nth_operator_byte: "all_operators ! operator_byte k = k" "operator_byte k < 256"
  by (cases k; simp add: all_operators_def)+

lemma nth_punctuation_byte: "all_punctuation ! punctuation_byte k = k" "punctuation_byte k < 256"
  by (cases k; simp add: all_punctuation_def)+

lemma byte_char_eq: "m < 256 \<Longrightarrow> n < 256 \<Longrightarrow> byte_char m = byte_char n \<longleftrightarrow> m = n"
  by (simp add: byte_char_def char_of_eq_iff take_bit_eq_mod)

lemma byte_code_eq [simp]:
  "byte_char (keyword_byte k) = byte_char (keyword_byte l) \<longleftrightarrow> k = l"
  "byte_char (operator_byte p) = byte_char (operator_byte q) \<longleftrightarrow> p = q"
  "byte_char (punctuation_byte r) = byte_char (punctuation_byte s) \<longleftrightarrow> r = s"
  by (metis byte_char_eq nth_keyword_byte nth_operator_byte nth_punctuation_byte)+

lemma namespaced_eq:
  assumes "byte_char 0 \<notin> set ns" "byte_char 0 \<notin> set ns'"
  shows "namespaced ns d = namespaced ns' d' \<longleftrightarrow> ns = ns' \<and> d = d'"
proof -
  have "split_once (byte_char 0) (namespaced ns d) = Some (ns, d)"
    "split_once (byte_char 0) (namespaced ns' d') = Some (ns', d')"
    using assms by (simp_all add: split_once_Some namespaced_def)
  then show ?thesis by (metis option.inject prod.inject)
qed

text \<open>A namespace as the tokenizer emits them: no zero byte, no line feed in front.\<close>

definition plain_namespace :: "string \<Rightarrow> bool" where
  "plain_namespace ns \<longleftrightarrow> byte_char 0 \<notin> set ns \<and> (ns = [] \<or> hd ns \<noteq> byte_char 10)"

lemma namespaced_not_boundary:
  "plain_namespace ns \<Longrightarrow> namespaced ns d \<noteq> byte_char 10 # name"
  by (cases ns) (auto simp: plain_namespace_def namespaced_def byte_char_eq)

text \<open>What a mode leaves of a token.\<close>

primrec shape :: "ResolvedNormalization \<Rightarrow> TokenKind \<Rightarrow> TokenKind" where
  "shape norm (Keyword kw) = Keyword kw"
| "shape norm (Identifier name) = Identifier (if ignore_identifiers norm then [byte_char 0] else name)"
| "shape norm (StringLiteral v) =
     StringLiteral (if ignore_string_values norm then [byte_char 0] else v)"
| "shape norm (NumericLiteral v) =
     NumericLiteral (if ignore_numeric_values norm then [byte_char 0] else v)"
| "shape norm (BooleanLiteral b) = BooleanLiteral b"
| "shape norm NullLiteral = NullLiteral"
| "shape norm TemplateLiteral = TemplateLiteral"
| "shape norm RegExpLiteral = RegExpLiteral"
| "shape norm (Operator op) = Operator op"
| "shape norm (Punctuation p) = Punctuation p"
| "shape norm (Boundary name) = Boundary name"

definition is_boundary :: "TokenKind \<Rightarrow> bool" where
  "is_boundary k = (case k of Boundary _ \<Rightarrow> True | _ \<Rightarrow> False)"

text \<open>The bytes after the namespace.\<close>

primrec token_data :: "TokenKind \<Rightarrow> string" where
  "token_data (Keyword kw) = [byte_char 0, byte_char (keyword_byte kw)]"
| "token_data (Identifier name) = byte_char 1 # name"
| "token_data (StringLiteral v) = byte_char 2 # v"
| "token_data (NumericLiteral v) = byte_char 3 # v"
| "token_data (BooleanLiteral b) = [byte_char 4, byte_char (if b then 1 else 0)]"
| "token_data NullLiteral = [byte_char 5]"
| "token_data TemplateLiteral = [byte_char 6]"
| "token_data RegExpLiteral = [byte_char 7]"
| "token_data (Operator op) = [byte_char 8, byte_char (operator_byte op)]"
| "token_data (Punctuation p) = [byte_char 9, byte_char (punctuation_byte p)]"
| "token_data (Boundary name) = byte_char 10 # name"

lemma token_bytes_data:
  "token_bytes norm ns k =
     (if is_boundary k then token_data k else namespaced ns (token_data (shape norm k)))"
  by (cases k) (simp_all add: is_boundary_def)

lemma token_data_eq: "token_data k = token_data l \<longleftrightarrow> k = l"
  by (cases k; cases l) (simp_all add: byte_char_eq)

text \<open>C39. Two tokens are hashed from the same bytes exactly when the mode makes them the same:
  equal after blinding, and, unless they are region boundaries, in the same namespace.\<close>

theorem token_bytes_separate:
  assumes "plain_namespace ns" "plain_namespace ns'"
  shows "token_bytes norm ns k = token_bytes norm ns' l \<longleftrightarrow>
    shape norm k = shape norm l \<and> (is_boundary k \<or> ns = ns')"
proof -
  have b: "shape norm k = shape norm l \<Longrightarrow> is_boundary k = is_boundary l"
    by (cases k; cases l) (auto simp: is_boundary_def)
  have s: "is_boundary m \<Longrightarrow> shape norm m = m \<and> (\<exists>name. token_data m = byte_char 10 # name)" for m
    by (cases m) (auto simp: is_boundary_def)
  have n: "namespaced ns d = namespaced ns' d' \<longleftrightarrow> ns = ns' \<and> d = d'" for d d'
    using assms by (intro namespaced_eq) (auto simp: plain_namespace_def)
  note nb = namespaced_not_boundary [OF assms(1)] namespaced_not_boundary [OF assms(2)]
  show ?thesis
  proof (cases "is_boundary k"; cases "is_boundary l")
    assume k: "is_boundary k" and l: "is_boundary l"
    with s [OF k] s [OF l] show ?thesis by (simp add: token_bytes_data token_data_eq)
  next
    assume k: "is_boundary k" and l: "\<not> is_boundary l"
    obtain name where "token_data k = byte_char 10 # name" using s [OF k] by blast
    with k l b nb(2) [of "token_data (shape norm l)" name, symmetric] show ?thesis
      by (auto simp: token_bytes_data)
  next
    assume k: "\<not> is_boundary k" and l: "is_boundary l"
    obtain name where "token_data l = byte_char 10 # name" using s [OF l] by blast
    with k l b nb(1) [of "token_data (shape norm k)" name] show ?thesis
      by (auto simp: token_bytes_data)
  next
    assume "\<not> is_boundary k" "\<not> is_boundary l"
    then show ?thesis by (auto simp: token_bytes_data n token_data_eq)
  qed
qed

theorem token_bytes_separate_witness:
  "token_bytes (resolve_normalization Semantic
       \<lparr>cfg_ignore_identifiers = None, cfg_ignore_string_values = None, cfg_ignore_numeric_values = None\<rparr>)
     ''js'' (Identifier ''a'') =
   token_bytes (resolve_normalization Semantic
       \<lparr>cfg_ignore_identifiers = None, cfg_ignore_string_values = None, cfg_ignore_numeric_values = None\<rparr>)
     ''js'' (Identifier ''b'')"
proof -
  have js: "plain_namespace ''js''" by code_simp
  show ?thesis by (subst token_bytes_separate [OF js js]) (simp add: resolve_normalization_def)
qed

end
