(* ===== verification/Source_Positions.thy ===== *)
theory Source_Positions
  imports Clone_Tokens
begin

text \<open>
  The mapping from byte offsets to lines and columns of
  \<^verbatim>\<open>crates/core/src/duplicates/detect/utils.rs\<close>: the fast routine over a table of newline
  positions, and the direct definition it is tested against.  Source text is a string of UTF-8
  bytes.
\<close>

section \<open>Byte offsets to lines and columns\<close>

definition is_newline :: "char \<Rightarrow> bool" where
  "is_newline b \<longleftrightarrow> b = byte_char 10"

definition is_continuation :: "char \<Rightarrow> bool" where
  "is_continuation b = (let n = of_char b :: nat in 128 \<le> n \<and> n < 192)"

definition is_char_boundary :: "string \<Rightarrow> nat \<Rightarrow> bool" where
  "is_char_boundary src i \<longleftrightarrow>
     i = 0 \<or> i = length src \<or> (i < length src \<and> \<not> is_continuation (src ! i))"

text \<open>The two loops that move an offset to a character boundary.\<close>

primrec floor_boundary :: "string \<Rightarrow> nat \<Rightarrow> nat" where
  "floor_boundary src 0 = 0"
| "floor_boundary src (Suc n) =
     (if is_char_boundary src (Suc n) then Suc n else floor_boundary src n)"

function ceil_boundary :: "string \<Rightarrow> nat \<Rightarrow> nat" where
  "ceil_boundary src n =
     (if n < length src \<and> \<not> is_char_boundary src n then ceil_boundary src (n + 1) else n)"
  by pat_completeness auto
termination by (relation "measure (\<lambda>(src, n). length src - n)") auto

declare ceil_boundary.simps [simp del]

definition char_count :: "string \<Rightarrow> nat" where
  "char_count bytes = length (filter (\<lambda>b. \<not> is_continuation b) bytes)"

definition byte_offset_to_line_col_fast :: "string \<Rightarrow> nat \<Rightarrow> nat list \<Rightarrow> nat \<times> nat" where
  "byte_offset_to_line_col_fast src byte_offset line_table =
     (let off = floor_boundary src (min byte_offset (length src));
          line_idx = partition_point (\<lambda>nl_pos. nl_pos < off) line_table;
          line = line_idx + 1;
          line_start = (if line_idx = 0 then 0 else line_table ! (line_idx - 1) + 1);
          col = char_count (slice line_start off src)
      in (line, col))"

text \<open>The newline positions of a text whose first byte is at \<open>pos\<close>.\<close>

fun newline_positions :: "nat \<Rightarrow> string \<Rightarrow> nat list" where
  "newline_positions pos [] = []"
| "newline_positions pos (b # bs) =
     (if is_newline b then pos # newline_positions (pos + 1) bs else newline_positions (pos + 1) bs)"

section \<open>The direct definition\<close>

definition rfind :: "('a \<Rightarrow> bool) \<Rightarrow> 'a list \<Rightarrow> nat option" where
  "rfind p xs =
     (case first_index p (rev xs) of None \<Rightarrow> None | Some k \<Rightarrow> Some (length xs - 1 - k))"

definition byte_offset_to_line_col :: "string \<Rightarrow> nat \<Rightarrow> nat \<times> nat" where
  "byte_offset_to_line_col src byte_offset =
     (let off = floor_boundary src (min byte_offset (length src));
          before = take off src;
          line = length (filter is_newline before) + 1;
          line_start = (case rfind is_newline before of None \<Rightarrow> 0 | Some pos \<Rightarrow> pos + 1);
          col = char_count (drop line_start before)
      in (line, col))"

section \<open>The routines agree\<close>

lemma newline_positions_snoc:
  "newline_positions pos (xs @ [b]) =
     newline_positions pos xs @ (if is_newline b then [pos + length xs] else [])"
  by (induction pos xs rule: newline_positions.induct) auto

lemma newline_positions_range: "q \<in> set (newline_positions pos xs) \<Longrightarrow> pos \<le> q \<and> q < pos + length xs"
  by (induction pos xs rule: newline_positions.induct) (auto split: if_splits)

lemma newline_positions_append:
  "newline_positions pos (xs @ ys) = newline_positions pos xs @ newline_positions (pos + length xs) ys"
  by (induction pos xs rule: newline_positions.induct) auto

lemma length_newline_positions:
  "length (newline_positions pos xs) = length (filter is_newline xs)"
  by (induction pos xs rule: newline_positions.induct) auto

lemma takeWhile_newline_positions:
  assumes "off \<le> length src"
  shows "takeWhile (\<lambda>p. p < off) (newline_positions 0 src) = newline_positions 0 (take off src)"
proof -
  have "newline_positions 0 src =
      newline_positions 0 (take off src) @ newline_positions off (drop off src)"
    using newline_positions_append [of 0 "take off src" "drop off src"] assms by simp
  moreover have "\<forall>p \<in> set (newline_positions 0 (take off src)). p < off"
    using newline_positions_range [of _ 0 "take off src"] assms by auto
  moreover have "\<forall>p \<in> set (newline_positions off (drop off src)). \<not> p < off"
    using newline_positions_range [of _ off "drop off src"] by (auto simp: not_less)
  ultimately show ?thesis by (simp only: takeWhile_split)
qed

lemma rfind_newline:
  "rfind is_newline xs =
     (if newline_positions 0 xs = [] then None else Some (last (newline_positions 0 xs)))"
  by (induction xs rule: rev_induct)
    (auto simp: rfind_def newline_positions_snoc split: option.splits if_splits)

lemma floor_boundary_le: "floor_boundary src n \<le> n"
  by (induction n) auto

lemma floor_boundary_mono: "m \<le> n \<Longrightarrow> floor_boundary src m \<le> floor_boundary src n"
proof (induction n)
  case (Suc n)
  show ?case
  proof (cases "m = Suc n")
    case False
    with Suc have "floor_boundary src m \<le> floor_boundary src n" by simp
    also have "\<dots> \<le> floor_boundary src (Suc n)"
      using floor_boundary_le [of src n] by simp
    finally show ?thesis .
  qed simp
qed simp

lemma line_col_fast:
  "byte_offset_to_line_col_fast src byte_offset (newline_positions 0 src) =
     byte_offset_to_line_col src byte_offset"
proof -
  let ?off = "floor_boundary src (min byte_offset (length src))"
  let ?ps = "newline_positions 0 (take ?off src)"
  have le: "?off \<le> length src"
    using floor_boundary_le [of src "min byte_offset (length src)"] by simp
  have pp: "partition_point (\<lambda>p. p < ?off) (newline_positions 0 src) = length ?ps"
    using takeWhile_newline_positions [OF le] by (simp add: partition_point_def)
  have nth: "newline_positions 0 src ! (length ?ps - 1) = last ?ps" if "?ps \<noteq> []"
    using that takeWhile_newline_positions [OF le] takeWhile_nth [of "length ?ps - 1" "\<lambda>p. p < ?off" "newline_positions 0 src"]
    by (simp add: last_conv_nth)
  have sl: "slice a ?off src = drop a (take ?off src)" for a
    by (simp add: slice_def drop_take)
  show ?thesis
  proof (cases "?ps = []")
    case True
    then show ?thesis
      using pp length_newline_positions [of 0 "take ?off src"]
      by (simp add: byte_offset_to_line_col_fast_def byte_offset_to_line_col_def Let_def sl rfind_newline)
  next
    case False
    then have "filter is_newline (take ?off src) \<noteq> []"
      using length_newline_positions [of 0 "take ?off src"] by (metis length_0_conv)
    with False show ?thesis
      using pp nth length_newline_positions [of 0 "take ?off src"]
      by (simp add: byte_offset_to_line_col_fast_def byte_offset_to_line_col_def Let_def sl rfind_newline)
  qed
qed

lemma line_mono:
  assumes "a \<le> b"
  shows "fst (byte_offset_to_line_col src a) \<le> fst (byte_offset_to_line_col src b)"
proof -
  let ?f = "\<lambda>n. floor_boundary src (min n (length src))"
  have "?f a \<le> ?f b" using assms by (intro floor_boundary_mono) simp
  then have "take (?f b) src = take (?f a) src @ take (?f b - ?f a) (drop (?f a) src)"
    by (metis le_add_diff_inverse take_add)
  then show ?thesis by (simp add: byte_offset_to_line_col_def Let_def)
qed

text \<open>C38. The table lookup computes the line and column of the direct definition, for every
  text and every offset, also one inside a character or past the end.\<close>

theorem line_col_fast_correct:
  "byte_offset_to_line_col_fast src byte_offset (newline_positions 0 src) =
     byte_offset_to_line_col src byte_offset"
  by (rule line_col_fast)

end
