(* ===== verification/Interval_Index.thy ===== *)
theory Interval_Index
  imports Fallow_Prelude "HOL-Library.Sublist"
begin

text \<open>
  The interval index of \<^verbatim>\<open>crates/core/src/duplicates/detect/filtering.rs\<close>: per slot a sorted
  list of intervals that neither overlap nor touch.  Both subset removals of the clone filter
  are one greedy pass over such an index; the pass is proved correct once, in the locale
  \<open>coverage_index\<close>, from the laws an index promises.
\<close>

section \<open>The index\<close>

record IntervalIndex =
  slots :: "(nat \<times> nat) list list"

definition index_new :: "nat \<Rightarrow> IntervalIndex" where
  "index_new num_slots = \<lparr>slots = replicate num_slots []\<rparr>"

text \<open>
  The lookup in one slot: the last interval that starts at or before \<open>start\<close> must reach \<open>stop\<close>.
  \<^verbatim>\<open>remove_line_subsets\<close> has it inlined, with a line as \<open>stop\<close>.
\<close>

definition slot_covers :: "(nat \<times> nat) list \<Rightarrow> nat \<Rightarrow> nat \<Rightarrow> bool" where
  "slot_covers intervals start stop =
     (let idx = partition_point (\<lambda>(s, _). s \<le> start) intervals
      in if idx = 0 then False
         else (let (s, e) = intervals ! (idx - 1) in start \<ge> s \<and> stop \<le> e))"

definition is_covered :: "IntervalIndex \<Rightarrow> nat \<Rightarrow> nat \<Rightarrow> nat \<Rightarrow> bool" where
  "is_covered ix slot start len = slot_covers (slots ix ! slot) start (start + len)"

definition slot_insert :: "nat \<Rightarrow> nat \<Rightarrow> (nat \<times> nat) list \<Rightarrow> (nat \<times> nat) list" where
  "slot_insert start stop intervals =
     (let lo = partition_point (\<lambda>(_, e). e < start) intervals;
          hi = partition_point (\<lambda>(s, _). s \<le> stop) intervals
      in if lo = hi then take lo intervals @ [(start, stop)] @ drop lo intervals
         else (let merged_start = min (fst (intervals ! lo)) start;
                   merged_end = max (snd (intervals ! (hi - 1))) stop
               in take lo intervals @ [(merged_start, merged_end)] @ drop hi intervals))"

definition index_insert :: "nat \<Rightarrow> nat \<Rightarrow> nat \<Rightarrow> IntervalIndex \<Rightarrow> IntervalIndex" where
  "index_insert slot start stop ix =
     ix\<lparr>slots := (slots ix)[slot := slot_insert start stop (slots ix ! slot)]\<rparr>"

section \<open>Separated intervals\<close>

text \<open>The invariant of a slot: intervals in order, with a gap between any two of them.\<close>

definition separated :: "(nat \<times> nat) list \<Rightarrow> bool" where
  "separated xs \<longleftrightarrow> sorted_wrt (\<lambda>a b. snd a < fst b) xs \<and> (\<forall>a \<in> set xs. fst a \<le> snd a)"

lemma separated_Nil [simp]: "separated []"
  by (simp add: separated_def)

lemma separated_append:
  "separated (xs @ ys) \<longleftrightarrow>
     separated xs \<and> separated ys \<and> (\<forall>a \<in> set xs. \<forall>b \<in> set ys. snd a < fst b)"
  by (auto simp: separated_def sorted_wrt_append)

lemma separated_Cons:
  "separated (a # ys) \<longleftrightarrow> fst a \<le> snd a \<and> separated ys \<and> (\<forall>b \<in> set ys. snd a < fst b)"
  by (auto simp: separated_def)

text \<open>
  Around a new interval a separated list falls into the part before it, the part that touches
  it, and the part after it.
\<close>

lemma separated_split:
  assumes "separated xs" "start \<le> stop"
  obtains A B C where "xs = A @ B @ C" "\<forall>a \<in> set A. snd a < start"
    "\<forall>b \<in> set B. start \<le> snd b \<and> fst b \<le> stop" "\<forall>c \<in> set C. stop < fst c"
    "takeWhile (\<lambda>(_, e). e < start) xs = A" "takeWhile (\<lambda>(s, _). s \<le> stop) xs = A @ B"
proof -
  let ?A = "takeWhile (\<lambda>(_, e). e < start) xs" and ?R = "dropWhile (\<lambda>(_, e). e < start) xs"
  let ?B = "takeWhile (\<lambda>(s, _). s \<le> stop) ?R" and ?C = "dropWhile (\<lambda>(s, _). s \<le> stop) ?R"
  have xs: "xs = ?A @ ?B @ ?C" by simp
  have sep: "separated ?A" "separated ?R" "separated (?A @ ?B @ ?C)"
    using assms(1) separated_append [of ?A ?R] by auto
  have A: "\<forall>a \<in> set ?A. snd a < start" by (auto dest: set_takeWhileD)
  have R: "\<forall>b \<in> set ?R. start \<le> snd b"
  proof (cases ?R)
    case (Cons r rs)
    then have "start \<le> snd r" using hd_dropWhile [of "\<lambda>(_, e). e < start" xs] by auto
    moreover have "snd r \<le> snd b" if "b \<in> set rs" for b
      using that sep(2) Cons by (fastforce simp: separated_Cons separated_def)
    ultimately show ?thesis using Cons by fastforce
  next
    case Nil
    show ?thesis unfolding Nil by simp
  qed
  have C: "\<forall>c \<in> set ?C. stop < fst c"
  proof (cases ?C)
    case (Cons c cs)
    then have "stop < fst c" using hd_dropWhile [of "\<lambda>(s, _). s \<le> stop" ?R] by auto
    moreover have "separated (c # cs)" using sep(3) Cons by (auto simp: separated_append)
    ultimately show ?thesis using Cons by (fastforce simp: separated_Cons)
  next
    case Nil
    show ?thesis unfolding Nil by simp
  qed
  have B: "\<forall>b \<in> set ?B. start \<le> snd b \<and> fst b \<le> stop"
    using R by (auto dest: set_takeWhileD)
  have "\<forall>a \<in> set (?A @ ?B). fst a \<le> stop"
    using A B sep(1) assms(2) by (fastforce simp: separated_def)
  with C have "takeWhile (\<lambda>(s, _). s \<le> stop) ((?A @ ?B) @ ?C) = ?A @ ?B"
    by (intro takeWhile_split) (simp_all only: case_prod_beta not_le)
  then show thesis using that [OF xs A B C refl] by simp
qed

lemma slot_insert_split:
  assumes "xs = A @ B @ C" "takeWhile (\<lambda>(_, e). e < start) xs = A"
    "takeWhile (\<lambda>(s, _). s \<le> stop) xs = A @ B"
  shows "slot_insert start stop xs =
    A @ [if B = [] then (start, stop) else (min (fst (hd B)) start, max (snd (last B)) stop)] @ C"
proof (cases "B = []")
  case True
  with assms show ?thesis by (simp add: slot_insert_def partition_point_def Let_def)
next
  case False
  then have "xs ! (length A + length B - 1) = last B"
    by (cases B rule: rev_cases) (simp_all add: assms(1) nth_append)
  moreover have "xs ! length A = hd B"
    using False by (simp add: assms(1) nth_append hd_conv_nth)
  ultimately show ?thesis
    using assms False by (simp add: slot_insert_def partition_point_def Let_def)
qed

lemma separated_hd_last:
  assumes "separated B" "b \<in> set B"
  shows "fst (hd B) \<le> fst b \<and> snd b \<le> snd (last B)"
proof -
  obtain i where i: "i < length B" "b = B ! i" using assms(2) by (auto simp: in_set_conv_nth)
  have le: "fst (B ! j) \<le> snd (B ! j)" if "j < length B" for j
    using assms(1) that by (simp add: separated_def)
  have lt: "snd (B ! j) < fst (B ! k)" if "j < k" "k < length B" for j k
    using assms(1) that by (simp add: separated_def sorted_wrt_iff_nth_less)
  have n: "0 < length B" "length B - 1 < length B" using i by auto
  have "fst (B ! 0) \<le> fst (B ! i)"
    using lt [of 0 i] le [OF n(1)] i by (cases "i = 0") simp_all
  moreover have "snd (B ! i) \<le> snd (B ! (length B - 1))"
  proof (cases "i < length B - 1")
    case True
    then show ?thesis using lt [OF True n(2)] le [OF n(2)] by simp
  next
    case False
    then have "i = length B - 1" using i by linarith
    then show ?thesis by simp
  qed
  moreover have "B \<noteq> []" using n by auto
  ultimately show ?thesis by (simp add: i hd_conv_nth last_conv_nth)
qed

text \<open>
  The points of an interval in half units: \<open>2 * k\<close> is the position \<open>k\<close>, \<open>2 * k + 1\<close> the step
  from \<open>k\<close> to \<open>k + 1\<close>, so that two intervals that do not touch leave a point uncovered.
\<close>

definition points :: "nat \<times> nat \<Rightarrow> nat set" where
  "points a = {2 * fst a..2 * snd a}"

definition extent :: "(nat \<times> nat) list \<Rightarrow> nat set" where
  "extent xs = (\<Union>a \<in> set xs. points a)"

lemma extent_append [simp]: "extent (xs @ ys) = extent xs \<union> extent ys"
  by (auto simp: extent_def)

lemma slot_insert_correct:
  assumes "separated xs" "start \<le> stop"
  shows "separated (slot_insert start stop xs)" (is ?sep)
    and "extent (slot_insert start stop xs) = extent xs \<union> points (start, stop)" (is ?ext)
proof -
  obtain A B C where s: "xs = A @ B @ C" "\<forall>a \<in> set A. snd a < start"
    "\<forall>b \<in> set B. start \<le> snd b \<and> fst b \<le> stop" "\<forall>c \<in> set C. stop < fst c"
    "takeWhile (\<lambda>(_, e). e < start) xs = A" "takeWhile (\<lambda>(s, _). s \<le> stop) xs = A @ B"
    using separated_split [OF assms] .
  let ?m = "if B = [] then (start, stop) else (min (fst (hd B)) start, max (snd (last B)) stop)"
  have ins: "slot_insert start stop xs = A @ [?m] @ C" by (rule slot_insert_split [OF s(1,5,6)])
  have sep: "separated A" "separated B" "separated C" "\<forall>a \<in> set A. \<forall>b \<in> set B. snd a < fst b"
    "\<forall>b \<in> set B. \<forall>c \<in> set C. snd b < fst c" "\<forall>a \<in> set A. \<forall>c \<in> set C. snd a < fst c"
    using assms(1) by (auto simp: s(1) separated_append)
  show ?sep
    unfolding ins using sep s(2-4) assms(2)
    by (auto simp: separated_append separated_Cons min_def max_def)
  have "points ?m = extent B \<union> points (start, stop)"
  proof (cases "B = []")
    case True
    then show ?thesis by (simp add: extent_def)
  next
    case False
    then have hl: "hd B \<in> set B" "last B \<in> set B" by simp_all
    with s(3) have touch: "start \<le> snd (hd B)" "fst (last B) \<le> stop" by auto
    have "x \<in> extent B \<union> points (start, stop)" if "x \<in> points ?m" for x
    proof (cases "x < 2 * start")
      case True
      with that False touch have "x \<in> points (hd B)" by (auto simp: points_def min_def split: if_splits)
      with hl show ?thesis by (auto simp: extent_def)
    next
      case x: False
      show ?thesis
      proof (cases "x \<le> 2 * stop")
        case True
        with x show ?thesis by (simp add: points_def)
      next
        case False
        with that \<open>B \<noteq> []\<close> touch have "x \<in> points (last B)"
          by (auto simp: points_def max_def split: if_splits)
        with hl show ?thesis by (auto simp: extent_def)
      qed
    qed
    moreover have "points b \<subseteq> points ?m" if "b \<in> set B" for b
      using separated_hd_last [OF sep(2) that] False by (auto simp: points_def min_def max_def)
    moreover have "points (start, stop) \<subseteq> points ?m" using False by (auto simp: points_def)
    ultimately show ?thesis
      by (intro subset_antisym subsetI) (simp_all only: extent_def UN_iff Un_iff, blast)
  qed
  moreover have "extent (slot_insert start stop xs) = extent A \<union> points ?m \<union> extent C"
    by (simp only: ins extent_append Un_assoc) (simp add: extent_def)
  moreover have "extent xs = extent A \<union> extent B \<union> extent C" by (simp add: s(1) Un_assoc)
  ultimately show ?ext by blast
qed

lemma slot_covers_iff:
  assumes "separated xs" "start \<le> stop"
  shows "slot_covers xs start stop \<longleftrightarrow> points (start, stop) \<subseteq> extent xs"
proof -
  let ?T = "takeWhile (\<lambda>(s, _). s \<le> start) xs" and ?D = "dropWhile (\<lambda>(s, _). s \<le> start) xs"
  have sep: "separated ?T" "separated ?D" "\<forall>a \<in> set ?T. \<forall>b \<in> set ?D. snd a < fst b"
    using assms(1) separated_append [of ?T ?D] by auto
  have T: "\<forall>a \<in> set ?T. fst a \<le> start" by (auto dest: set_takeWhileD)
  have D: "\<forall>b \<in> set ?D. start < fst b"
  proof (cases ?D)
    case (Cons d ds)
    then have "start < fst d" using hd_dropWhile [of "\<lambda>(s, _). s \<le> start" xs] by auto
    with sep(2) Cons show ?thesis by (fastforce simp: separated_Cons)
  next
    case Nil
    show ?thesis unfolding Nil by simp
  qed
  have ext: "extent xs = extent ?T \<union> extent ?D"
    using extent_append [of ?T ?D] by simp
  have Dpts: "x \<notin> extent ?D" if "x \<le> 2 * start + 1" for x
    using D that by (fastforce simp: extent_def points_def)
  show ?thesis
  proof (cases "?T = []")
    case True
    have "2 * start \<notin> extent xs" unfolding ext True using Dpts [of "2 * start"] by (simp add: extent_def)
    moreover have "2 * start \<in> points (start, stop)" using assms(2) by (simp add: points_def)
    ultimately show ?thesis using True by (auto simp: slot_covers_def partition_point_def)
  next
    case False
    then have l: "last ?T \<in> set ?T" "fst (last ?T) \<le> start" using T by (blast intro: last_in_set)+
    have "xs ! (length ?T - 1) = last ?T"
      using False takeWhile_nth [of "length ?T - 1" "\<lambda>(s, _). s \<le> start" xs]
      by (simp add: last_conv_nth)
    then have cov: "slot_covers xs start stop \<longleftrightarrow> stop \<le> snd (last ?T)"
      using False l by (simp add: slot_covers_def partition_point_def Let_def case_prod_beta)
    show ?thesis
    proof
      assume "slot_covers xs start stop"
      then have "points (start, stop) \<subseteq> points (last ?T)"
        using cov l(2) by (auto simp: points_def)
      moreover have "last ?T \<in> set xs" using l(1) by (rule set_takeWhileD [THEN conjunct1])
      ultimately show "points (start, stop) \<subseteq> extent xs" by (auto simp only: extent_def UN_iff)
    next
      assume sub: "points (start, stop) \<subseteq> extent xs"
      have Tpts: "x \<le> 2 * snd (last ?T)" if "x \<in> extent ?T" for x
        using that separated_hd_last [OF sep(1)] by (fastforce simp: extent_def points_def)
      have "stop \<le> snd (last ?T)"
      proof (rule ccontr)
        assume n: "\<not> stop \<le> snd (last ?T)"
        let ?x = "max (2 * start) (2 * snd (last ?T) + 1)"
        have "?x \<in> points (start, stop)" using n assms(2) by (auto simp: points_def)
        with sub ext have "?x \<in> extent ?T \<or> ?x \<in> extent ?D" by blast
        then show False
        proof
          assume "?x \<in> extent ?T"
          from Tpts [OF this] show False by simp
        next
          assume "?x \<in> extent ?D"
          then obtain d where d: "d \<in> set ?D" "2 * fst d \<le> ?x" by (auto simp: extent_def points_def)
          with D sep(3) l(1) have "start < fst d" "snd (last ?T) < fst d" by auto
          with d(2) show False by (simp add: max_def split: if_splits)
        qed
      qed
      with cov show "slot_covers xs start stop" by simp
    qed
  qed
qed

section \<open>The greedy pass\<close>

text \<open>
  The loop of both subset removals: a group all of whose items the index covers is dropped, any
  other group is kept and its items enter the index.
\<close>

fun greedy_subsets ::
  "('ix \<Rightarrow> 'i \<Rightarrow> bool) \<Rightarrow> ('i \<Rightarrow> 'ix \<Rightarrow> 'ix) \<Rightarrow> ('g \<Rightarrow> 'i list) \<Rightarrow> 'ix \<Rightarrow> 'g list \<Rightarrow> 'g list" where
  "greedy_subsets covers add items ix [] = []"
| "greedy_subsets covers add items ix (g # gs) =
     (if list_all (covers ix) (items g) then greedy_subsets covers add items ix gs
      else g # greedy_subsets covers add items (fold add (items g) ix) gs)"

lemma subseq_greedy_subsets: "subseq (greedy_subsets covers add items ix gs) gs"
  by (induction gs arbitrary: ix) auto

text \<open>What a client of the index relies on.\<close>

locale coverage_index =
  fixes covers :: "'ix \<Rightarrow> 'i \<Rightarrow> bool"
    and add :: "'i \<Rightarrow> 'ix \<Rightarrow> 'ix"
    and pts :: "'i \<Rightarrow> 'p set"
    and all_pts :: "'ix \<Rightarrow> 'p set"
    and ok :: "'ix \<Rightarrow> bool"
    and item_ok :: "'i \<Rightarrow> bool"
  assumes add_ok: "ok ix \<Longrightarrow> item_ok i \<Longrightarrow> ok (add i ix)"
    and add_pts: "ok ix \<Longrightarrow> item_ok i \<Longrightarrow> all_pts (add i ix) = all_pts ix \<union> pts i"
    and covers_iff: "ok ix \<Longrightarrow> item_ok i \<Longrightarrow> covers ix i \<longleftrightarrow> pts i \<subseteq> all_pts ix"
begin

lemma fold_add:
  assumes "ok ix" "\<And>i. i \<in> set is \<Longrightarrow> item_ok i"
  shows "ok (fold add is ix) \<and> all_pts (fold add is ix) = all_pts ix \<union> (\<Union>i \<in> set is. pts i)"
  using assms
proof (induction "is" arbitrary: ix)
  case (Cons i "is")
  then have "ok (add i ix)" "all_pts (add i ix) = all_pts ix \<union> pts i"
    by (auto intro: add_ok simp: add_pts)
  with Cons show ?case by auto
qed simp

abbreviation "greedy items \<equiv> greedy_subsets covers add items"

text \<open>The index after a pass over some groups.\<close>

fun index_after :: "('g \<Rightarrow> 'i list) \<Rightarrow> 'ix \<Rightarrow> 'g list \<Rightarrow> 'ix" where
  "index_after items ix [] = ix"
| "index_after items ix (g # gs) =
     (if list_all (covers ix) (items g) then index_after items ix gs
      else index_after items (fold add (items g) ix) gs)"

lemma greedy_append:
  "greedy items ix (xs @ ys) = greedy items ix xs @ greedy items (index_after items ix xs) ys"
  by (induction xs arbitrary: ix) auto

lemma index_after_correct:
  assumes "ok ix" "\<And>g i. g \<in> set gs \<Longrightarrow> i \<in> set (items g) \<Longrightarrow> item_ok i"
  shows "ok (index_after items ix gs) \<and> all_pts (index_after items ix gs) =
    all_pts ix \<union> (\<Union>g \<in> set (greedy items ix gs). \<Union>i \<in> set (items g). pts i)"
  using assms
proof (induction gs arbitrary: ix)
  case (Cons g gs)
  have "ok (fold add (items g) ix) \<and>
      all_pts (fold add (items g) ix) = all_pts ix \<union> (\<Union>i \<in> set (items g). pts i)"
    using Cons.prems by (intro fold_add) auto
  moreover have "ok ix' \<Longrightarrow> ok (index_after items ix' gs) \<and> all_pts (index_after items ix' gs) =
      all_pts ix' \<union> (\<Union>g \<in> set (greedy items ix' gs). \<Union>i \<in> set (items g). pts i)" for ix'
    using Cons.prems(2) by (intro Cons.IH) auto
  ultimately show ?case using Cons.prems(1) by (auto simp: Un_assoc)
qed simp

text \<open>Every item of every group is covered by the groups kept up to and including its own.\<close>

lemma greedy_covers:
  assumes "ok ix" "\<And>h i. h \<in> set (xs @ [g]) \<Longrightarrow> i \<in> set (items h) \<Longrightarrow> item_ok i" "i \<in> set (items g)"
  shows "pts i \<subseteq> all_pts ix \<union> (\<Union>h \<in> set (greedy items ix (xs @ [g])). \<Union>j \<in> set (items h). pts j)"
proof -
  have a: "ok (index_after items ix xs)" "all_pts (index_after items ix xs) =
      all_pts ix \<union> (\<Union>g \<in> set (greedy items ix xs). \<Union>i \<in> set (items g). pts i)"
    using index_after_correct [of ix xs items] assms by auto
  show ?thesis
  proof (cases "list_all (covers (index_after items ix xs)) (items g)")
    case True
    with assms(3) have "covers (index_after items ix xs) i" by (simp add: list_all_iff)
    moreover have "item_ok i" using assms(2) [of g i] assms(3) by simp
    ultimately have "pts i \<subseteq> all_pts (index_after items ix xs)" using covers_iff [OF a(1)] by blast
    with a show ?thesis by (auto simp: greedy_append)
  next
    case False
    with assms(3) show ?thesis by (auto simp: greedy_append)
  qed
qed

text \<open>Every kept group has an item that the groups kept before it do not cover.\<close>

lemma greedy_irredundant:
  assumes "ok ix" "\<And>g i. g \<in> set gs \<Longrightarrow> i \<in> set (items g) \<Longrightarrow> item_ok i"
    "greedy items ix gs = ks @ g # ls"
  shows "\<exists>i \<in> set (items g). \<not> pts i \<subseteq> all_pts ix \<union> (\<Union>h \<in> set ks. \<Union>j \<in> set (items h). pts j)"
  using assms
proof (induction gs arbitrary: ix ks)
  case (Cons f fs)
  show ?case
  proof (cases "list_all (covers ix) (items f)")
    case True
    with Cons.prems(3) have "greedy items ix fs = ks @ g # ls" by simp
    then show ?thesis using Cons.prems(2) by (intro Cons.IH [OF Cons.prems(1)]) auto
  next
    case False
    then obtain i where "i \<in> set (items f)" "\<not> covers ix i"
      by (auto simp: list_all_iff)
    moreover from this(1) have "item_ok i" using Cons.prems(2) by auto
    ultimately have i: "i \<in> set (items f)" "\<not> pts i \<subseteq> all_pts ix"
      using covers_iff [OF Cons.prems(1)] by auto
    have f: "ok (fold add (items f) ix) \<and>
        all_pts (fold add (items f) ix) = all_pts ix \<union> (\<Union>i \<in> set (items f). pts i)"
      using Cons.prems by (intro fold_add) auto
    show ?thesis
    proof (cases ks)
      case Nil
      with False Cons.prems(3) i show ?thesis by auto
    next
      case k: (Cons k ks')
      with False Cons.prems(3) have "k = f" "greedy items (fold add (items f) ix) fs = ks' @ g # ls"
        by auto
      then show ?thesis
        using Cons.IH [of "fold add (items f) ix" ks'] f Cons.prems(2) k by (auto simp: Un_assoc)
    qed
  qed
qed simp

end

section \<open>The index keeps the laws\<close>

definition index_ok :: "nat \<Rightarrow> IntervalIndex \<Rightarrow> bool" where
  "index_ok n ix \<longleftrightarrow> length (slots ix) = n \<and> (\<forall>xs \<in> set (slots ix). separated xs)"

text \<open>The points of all slots, with their slot.\<close>

definition index_extent :: "IntervalIndex \<Rightarrow> (nat \<times> nat) set" where
  "index_extent ix = (SIGMA slot:{..<length (slots ix)}. extent (slots ix ! slot))"

lemma index_ok_new [simp]: "index_ok n (index_new n)"
  by (auto simp: index_ok_def index_new_def)

lemma index_extent_new [simp]: "index_extent (index_new n) = {}"
  by (auto simp: index_extent_def index_new_def extent_def)

lemma index_insert_ok:
  assumes "index_ok n ix" "slot < n" "start \<le> stop"
  shows "index_ok n (index_insert slot start stop ix)"
  using assms slot_insert_correct(1) [of "slots ix ! slot" start stop]
  by (auto simp: index_ok_def index_insert_def dest!: subsetD [OF set_update_subset_insert])

lemma index_insert_extent:
  assumes "index_ok n ix" "slot < n" "start \<le> stop"
  shows "index_extent (index_insert slot start stop ix) =
    index_extent ix \<union> {slot} \<times> points (start, stop)"
  using assms slot_insert_correct(2) [of "slots ix ! slot" start stop]
  by (auto simp: index_ok_def index_extent_def index_insert_def nth_list_update split: if_splits)

lemma index_covers_iff:
  assumes "index_ok n ix" "slot < n" "start \<le> stop"
  shows "slot_covers (slots ix ! slot) start stop \<longleftrightarrow>
    {slot} \<times> points (start, stop) \<subseteq> index_extent ix"
  using assms slot_covers_iff [of "slots ix ! slot" start stop]
  by (auto simp: index_ok_def index_extent_def)

lemmas index_laws = index_insert_ok index_insert_extent index_covers_iff

end
