(* ===== verification/Clone_Filter.thy ===== *)
theory Clone_Filter
  imports Source_Positions Interval_Index
begin

text \<open>
  From raw clone groups (token windows) to reported clone groups (line ranges): the files and
  groups of \<^verbatim>\<open>crates/core/src/duplicates\<close> (\<^verbatim>\<open>types.rs\<close>, \<^verbatim>\<open>detect/mod.rs\<close>,
  \<^verbatim>\<open>detect/extraction.rs\<close>), the materialised instances (\<^verbatim>\<open>detect/utils.rs\<close>) and the filter
  pass (\<^verbatim>\<open>detect/filtering.rs\<close>).  Source text is a string of UTF-8 bytes.
\<close>

section \<open>Files and groups\<close>

record FileData =
  file_path :: path
  hashed_tokens :: "HashedToken list"
  file_tokens :: FileTokens
  file_invocation_spans :: "Span list"

record RawGroup =
  raw_instances :: "(nat \<times> nat) list"
  raw_length :: nat

record CloneInstance =
  clone_file :: path
  start_line :: nat
  end_line :: nat
  start_col :: nat
  end_col :: nat
  fragment :: string

record CloneGroup =
  instances :: "CloneInstance list"
  token_count :: nat
  group_line_count :: nat

section \<open>Instances\<close>

definition build_line_tables :: "FileData list \<Rightarrow> nat list list" where
  "build_line_tables files = map (\<lambda>f. newline_positions 0 (source (file_tokens f))) files"

definition build_clone_instance_fast ::
  "FileData \<Rightarrow> nat \<Rightarrow> nat \<Rightarrow> nat list \<Rightarrow> CloneInstance option" where
  "build_clone_instance_fast file token_offset token_length line_table =
     (let toks = hashed_tokens file; source_tokens = tokens (file_tokens file) in
      if token_offset + token_length > length toks then None
      else
        (let first_hashed = toks ! token_offset;
             last_hashed = toks ! (token_offset + token_length - 1);
             first_source = source_tokens ! original_index first_hashed;
             last_source = source_tokens ! original_index last_hashed;
             start_byte = span_begin (token_span first_source);
             end_byte = span_end (token_span last_source)
         in if start_byte > end_byte then None
            else
              (let src = source (file_tokens file);
                   (sl, sc) = byte_offset_to_line_col_fast src start_byte line_table;
                   (el, ec) = byte_offset_to_line_col_fast src end_byte line_table;
                   frag = (if end_byte \<le> length src
                     then slice (floor_boundary src start_byte) (ceil_boundary src end_byte) src
                     else [])
               in Some \<lparr>clone_file = file_path file, start_line = sl, end_line = el,
                        start_col = sc, end_col = ec, fragment = frag\<rparr>)))"

definition token_span_for_raw_instance :: "FileData \<Rightarrow> nat \<Rightarrow> nat \<Rightarrow> (nat \<times> nat) option" where
  "token_span_for_raw_instance file off len =
     (let toks = hashed_tokens file; src = tokens (file_tokens file);
          at = (\<lambda>i. if i < length src then Some (src ! i) else None) in
      if off + len > length toks then None
      else
        (case (at (original_index (toks ! off)), at (original_index (toks ! (off + len - 1)))) of
           (Some a, Some b) \<Rightarrow>
             if span_begin (token_span a) \<le> span_end (token_span b)
             then Some (span_begin (token_span a), span_end (token_span b)) else None
         | _ \<Rightarrow> None))"

definition span_is_atomic_invocation :: "FileData \<Rightarrow> nat \<Rightarrow> nat \<Rightarrow> bool" where
  "span_is_atomic_invocation file start stop \<longleftrightarrow>
     (\<exists>sp \<in> set (file_invocation_spans file). span_begin sp \<le> start \<and> stop \<le> span_end sp)"

text \<open>The loop over the instances: those seen, and how many were checked.\<close>

fun atomic_invocations ::
  "FileData list \<Rightarrow> nat \<Rightarrow> (nat \<times> nat) list \<Rightarrow> (nat \<times> nat) set \<Rightarrow> nat \<Rightarrow> bool" where
  "atomic_invocations files len [] seen checked = (checked \<ge> 2)"
| "atomic_invocations files len ((fid, off) # rest) seen checked =
     (if (fid, off) \<in> seen then atomic_invocations files len rest seen checked
      else if \<not> fid < length files then False
      else
        (case token_span_for_raw_instance (files ! fid) off len of
           None \<Rightarrow> False
         | Some (start, stop) \<Rightarrow>
             if \<not> span_is_atomic_invocation (files ! fid) start stop then False
             else atomic_invocations files len rest (insert (fid, off) seen) (checked + 1)))"

definition is_atomic_invocation_group :: "FileData list \<Rightarrow> RawGroup \<Rightarrow> bool" where
  "is_atomic_invocation_group files rg =
     atomic_invocations files (raw_length rg) (raw_instances rg) {} 0"

definition collect_clone_instances ::
  "RawGroup \<Rightarrow> FileData list \<Rightarrow> nat list list \<Rightarrow> CloneInstance list" where
  "collect_clone_instances rg files line_tables =
     List.map_filter (\<lambda>(fid, off).
       build_clone_instance_fast (files ! fid) off (raw_length rg) (line_tables ! fid))
     (first_occurrences (raw_instances rg))"

definition path_parent :: "path \<Rightarrow> path option" where
  "path_parent p = (if p = [] \<or> p = [''/''] then None else Some (butlast p))"

text \<open>The end of an instance moved out to that of the next one.\<close>

definition extend_instance :: "CloneInstance \<Rightarrow> CloneInstance \<Rightarrow> CloneInstance" where
  "extend_instance a b =
     (if end_line b > end_line a then a\<lparr>end_line := end_line b, end_col := end_col b\<rparr> else a)"

text \<open>\<^verbatim>\<open>dedup_by\<close> with the merge: an element is compared with the last one kept.\<close>

fun merge_overlapping_instances :: "CloneInstance list \<Rightarrow> CloneInstance list" where
  "merge_overlapping_instances [] = []"
| "merge_overlapping_instances [a] = [a]"
| "merge_overlapping_instances (a # b # rest) =
     (if clone_file a \<noteq> clone_file b then a # merge_overlapping_instances (b # rest)
      else if start_line b \<le> end_line a then
        merge_overlapping_instances (extend_instance a b # rest)
      else a # merge_overlapping_instances (b # rest))"

definition instance_key :: "CloneInstance \<Rightarrow> path \<times> nat" where
  "instance_key i = (clone_file i, start_line i)"

definition build_clone_group ::
  "RawGroup \<Rightarrow> FileData list \<Rightarrow> nat list list \<Rightarrow> nat \<Rightarrow> bool \<Rightarrow> CloneGroup option" where
  "build_clone_group rg files line_tables min_lines skip_local =
     (let insts = collect_clone_instances rg files line_tables in
      if skip_local \<and> length insts \<ge> 2 \<and>
         card (set (List.map_filter (\<lambda>i. path_parent (clone_file i)) insts)) < 2 then None
      else if length insts < 2 then None
      else
        (let lc = Max (set (map (\<lambda>i. end_line i - start_line i + 1) insts)) in
         if lc < min_lines then None
         else
           (let merged = merge_overlapping_instances (sort_key instance_key insts) in
            if length merged < 2 then None
            else Some \<lparr>instances = merged, token_count = raw_length rg, group_line_count = lc\<rparr>)))"

section \<open>Subset removal\<close>

definition token_items :: "RawGroup \<Rightarrow> (nat \<times> nat \<times> nat) list" where
  "token_items rg = map (\<lambda>(fid, off). (fid, off, raw_length rg)) (raw_instances rg)"

definition token_covers :: "IntervalIndex \<Rightarrow> nat \<times> nat \<times> nat \<Rightarrow> bool" where
  "token_covers ix i = (case i of (fid, off, len) \<Rightarrow> is_covered ix fid off len)"

definition token_add :: "nat \<times> nat \<times> nat \<Rightarrow> IntervalIndex \<Rightarrow> IntervalIndex" where
  "token_add i ix = (case i of (fid, off, len) \<Rightarrow> index_insert fid off (off + len) ix)"

definition remove_token_subsets :: "RawGroup list \<Rightarrow> nat \<Rightarrow> RawGroup list" where
  "remove_token_subsets raw_groups num_files =
     greedy_subsets token_covers token_add token_items (index_new num_files)
       (sort_key (\<lambda>rg. - int (raw_length rg)) raw_groups)"

text \<open>The map from paths to slots: the position of a path among the paths first seen.\<close>

definition path_to_idx :: "CloneGroup list \<Rightarrow> path list" where
  "path_to_idx groups = first_occurrences (concat (map (map clone_file \<circ> instances) groups))"

definition path_slot :: "path list \<Rightarrow> path \<Rightarrow> nat option" where
  "path_slot paths p = first_index (\<lambda>q. q = p) paths"

definition line_covers :: "path list \<Rightarrow> IntervalIndex \<Rightarrow> CloneInstance \<Rightarrow> bool" where
  "line_covers paths ix i =
     (case path_slot paths (clone_file i) of
        None \<Rightarrow> False
      | Some slot \<Rightarrow> slot_covers (slots ix ! slot) (start_line i) (end_line i))"

definition line_add :: "path list \<Rightarrow> CloneInstance \<Rightarrow> IntervalIndex \<Rightarrow> IntervalIndex" where
  "line_add paths i ix =
     (case path_slot paths (clone_file i) of
        None \<Rightarrow> ix
      | Some slot \<Rightarrow> index_insert slot (start_line i) (end_line i) ix)"

definition remove_line_subsets :: "CloneGroup list \<Rightarrow> CloneGroup list" where
  "remove_line_subsets groups =
     (let paths = path_to_idx groups
      in greedy_subsets (line_covers paths) (line_add paths) instances (index_new (length paths)) groups)"

section \<open>The pass\<close>

definition build_groups :: "RawGroup list \<Rightarrow> FileData list \<Rightarrow> nat \<Rightarrow> bool \<Rightarrow> CloneGroup list" where
  "build_groups raw_groups files min_lines skip_local =
     (if raw_groups = [] then []
      else
        (let surviving = remove_token_subsets raw_groups (length files);
             line_tables = build_line_tables files;
             clone_groups =
               List.map_filter
                 (\<lambda>rg. build_clone_group rg files line_tables min_lines skip_local)
                 (filter (\<lambda>rg. \<not> is_atomic_invocation_group files rg) surviving)
         in remove_line_subsets
              (sort_key (\<lambda>g. (- int (token_count g), - int (length (instances g)))) clone_groups)))"

section \<open>The index serves both removals\<close>

definition token_pts :: "nat \<times> nat \<times> nat \<Rightarrow> (nat \<times> nat) set" where
  "token_pts i = (case i of (fid, off, len) \<Rightarrow> {fid} \<times> points (off, off + len))"

definition token_ok :: "nat \<Rightarrow> nat \<times> nat \<times> nat \<Rightarrow> bool" where
  "token_ok n i = (case i of (fid, off, len) \<Rightarrow> fid < n)"

interpretation tok: coverage_index token_covers token_add token_pts index_extent "index_ok n" "token_ok n"
  for n
  by unfold_locales
    (auto simp: token_covers_def token_add_def token_pts_def token_ok_def is_covered_def index_laws)

definition line_pts :: "path list \<Rightarrow> CloneInstance \<Rightarrow> (nat \<times> nat) set" where
  "line_pts paths i =
     (case path_slot paths (clone_file i) of
        None \<Rightarrow> {}
      | Some slot \<Rightarrow> {slot} \<times> points (start_line i, end_line i))"

definition line_ok :: "path list \<Rightarrow> CloneInstance \<Rightarrow> bool" where
  "line_ok paths i \<longleftrightarrow> clone_file i \<in> set paths \<and> start_line i \<le> end_line i"

lemma path_slot_Some: "p \<in> set paths \<Longrightarrow> \<exists>slot<length paths. path_slot paths p = Some slot \<and> paths ! slot = p"
  unfolding path_slot_def using first_index_None [of "\<lambda>q. q = p" paths]
  by (cases "first_index (\<lambda>q. q = p) paths") (auto simp: first_index_Some)

interpretation lin: coverage_index "line_covers paths" "line_add paths" "line_pts paths"
    index_extent "index_ok (length paths)" "line_ok paths"
  for paths
proof
  fix ix and i
  assume ix: "index_ok (length paths) ix" and i: "line_ok paths i"
  obtain slot where s: "slot < length paths" "path_slot paths (clone_file i) = Some slot"
    using i path_slot_Some [of "clone_file i" paths] by (auto simp: line_ok_def)
  note laws = index_laws [OF ix s(1)]
  show "index_ok (length paths) (line_add paths i ix)"
    using i laws(1) by (simp add: line_add_def s(2) line_ok_def)
  show "index_extent (line_add paths i ix) = index_extent ix \<union> line_pts paths i"
    using i laws(2) by (simp add: line_add_def line_pts_def s(2) line_ok_def)
  show "line_covers paths ix i = (line_pts paths i \<subseteq> index_extent ix)"
    using i laws(3) by (simp add: line_covers_def line_pts_def s(2) line_ok_def)
qed

section \<open>Token-level subset removal\<close>

text \<open>Token \<open>k\<close> of file \<open>fid\<close> lies in an instance of the group.\<close>

definition token_in_group :: "RawGroup \<Rightarrow> nat \<Rightarrow> nat \<Rightarrow> bool" where
  "token_in_group rg fid k \<longleftrightarrow>
     (\<exists>off. (fid, off) \<in> set (raw_instances rg) \<and> off \<le> k \<and> k < off + raw_length rg)"

lemma token_in_group_pts:
  "token_in_group rg fid k \<longleftrightarrow> (\<exists>i \<in> set (token_items rg). (fid, 2 * k + 1) \<in> token_pts i)"
proof -
  have "2 * k + 1 \<in> points (off, off + len) \<longleftrightarrow> off \<le> k \<and> k < off + len" for off len
    by (simp add: points_def) presburger
  then have "(\<exists>i \<in> set (token_items rg). (fid, 2 * k + 1) \<in> token_pts i) \<longleftrightarrow>
      (\<exists>(f, off) \<in> set (raw_instances rg). f = fid \<and> off \<le> k \<and> k < off + raw_length rg)"
    by (simp add: token_items_def token_pts_def case_prod_beta) metis
  then show ?thesis by (simp add: token_in_group_def Bex_def)
qed

text \<open>An instance all of whose tokens lie in some groups is covered by them.\<close>

lemma tokens_cover_pts:
  assumes "(fid, off) \<in> set (raw_instances rg)" "0 < raw_length rg"
    "\<And>k. token_in_group rg fid k \<Longrightarrow> \<exists>h \<in> H. token_in_group h fid k"
    "x \<in> token_pts (fid, off, raw_length rg)"
  shows "\<exists>h \<in> H. \<exists>i \<in> set (token_items h). x \<in> token_pts i"
proof -
  obtain p where x: "x = (fid, p)" "2 * off \<le> p" "p \<le> 2 * (off + raw_length rg)"
    using assms(4) by (auto simp: token_pts_def points_def)
  define k where "k = (if p div 2 < off + raw_length rg then p div 2 else off + raw_length rg - 1)"
  have k: "off \<le> k" "k < off + raw_length rg" "p = 2 * k \<or> p = 2 * k + 1 \<or> p = 2 * k + 2"
    using x assms(2) by (auto simp: k_def)
  then have "token_in_group rg fid k" using assms(1) by (auto simp: token_in_group_def)
  from assms(3) [OF this] obtain h o' where h: "h \<in> H" "(fid, o') \<in> set (raw_instances h)" "o' \<le> k"
    "k < o' + raw_length h"
    unfolding token_in_group_def by blast
  then have "x \<in> token_pts (fid, o', raw_length h)"
    using k(3) by (auto simp: x(1) token_pts_def points_def)
  then show ?thesis using h(1,2) by (force simp: token_items_def)
qed

definition raw_groups_ok :: "nat \<Rightarrow> RawGroup list \<Rightarrow> bool" where
  "raw_groups_ok n gs \<longleftrightarrow> list_all (\<lambda>rg. list_all (\<lambda>(fid, off). fid < n) (raw_instances rg)) gs"

lemma raw_groups_ok_items:
  "raw_groups_ok n gs \<Longrightarrow> g \<in> set gs \<Longrightarrow> i \<in> set (token_items g) \<Longrightarrow> token_ok n i"
  by (fastforce simp: raw_groups_ok_def token_items_def token_ok_def list_all_iff)

abbreviation "by_length_desc \<equiv> sort_key (\<lambda>rg. - int (raw_length rg))"

lemma set_greedy_subset: "set (greedy_subsets covers add items ix gs) \<subseteq> set gs"
  by (induction gs arbitrary: ix) auto

text \<open>
  C34. Token-level subset removal only drops: it keeps groups in order of decreasing length, each
  token of any group, dropped or not, lies in a kept group at least as long, and a kept group
  has a token span that the groups kept before it do not cover.
\<close>

theorem remove_token_subsets_covers:
  assumes "raw_groups_ok n raw_groups" "rg \<in> set raw_groups" "token_in_group rg fid k"
  shows "\<exists>sg \<in> set (remove_token_subsets raw_groups n).
    raw_length sg \<ge> raw_length rg \<and> token_in_group sg fid k"
proof -
  let ?gs = "by_length_desc raw_groups"
  obtain xs ys where gs: "?gs = xs @ rg # ys"
    using assms(2) split_list [of rg ?gs] by auto
  have ok: "g \<in> set (xs @ [rg]) \<Longrightarrow> i \<in> set (token_items g) \<Longrightarrow> token_ok n i" for g i
  proof -
    assume "g \<in> set (xs @ [rg])" "i \<in> set (token_items g)"
    moreover have "set (xs @ rg # ys) = set raw_groups" by (simp flip: gs)
    ultimately show "token_ok n i" by (intro raw_groups_ok_items [OF assms(1), of g]) auto
  qed
  let ?kept = "greedy_subsets token_covers token_add token_items (index_new n)"
  have "(\<Union>i \<in> set (token_items rg). token_pts i) \<subseteq>
      (\<Union>h \<in> set (?kept (xs @ [rg])). \<Union>j \<in> set (token_items h). token_pts j)"
    using tok.greedy_covers [where n = n and ix = "index_new n" and items = token_items and xs = xs and g = rg,
        OF index_ok_new ok]
    by (simp add: UN_subset_iff)
  with assms(3) obtain h where h: "h \<in> set (?kept (xs @ [rg]))" "token_in_group h fid k"
    unfolding token_in_group_pts by blast
  have "h \<in> set (xs @ [rg])" using h(1) set_greedy_subset by fastforce
  moreover have "sorted (map (\<lambda>rg. - int (raw_length rg)) ?gs)" by simp
  ultimately have "raw_length h \<ge> raw_length rg"
    unfolding gs by (auto simp: sorted_append)
  moreover have "?kept ?gs = ?kept (xs @ [rg]) @ greedy_subsets token_covers token_add token_items
      (tok.index_after token_items (index_new n) (xs @ [rg])) ys"
    unfolding gs using tok.greedy_append [of token_items "index_new n" "xs @ [rg]" ys] by simp
  ultimately show ?thesis using h by (auto simp: remove_token_subsets_def)
qed

text \<open>
  Nothing kept by the token-level removal is redundant: it is a sub-list of the groups in
  order of decreasing length, and each kept group has a token that lies in no group kept before
  it.
\<close>

theorem remove_token_subsets_irredundant:
  assumes "raw_groups_ok n raw_groups" "remove_token_subsets raw_groups n = ks @ rg # ls"
    "0 < raw_length rg"
  shows "subseq (ks @ rg # ls) (by_length_desc raw_groups) \<and>
    (\<exists>fid k. token_in_group rg fid k \<and> (\<forall>h \<in> set ks. \<not> token_in_group h fid k))"
proof -
  have "raw_groups_ok n (by_length_desc raw_groups)"
    using assms(1) by (simp add: raw_groups_ok_def list_all_iff)
  then have "\<exists>i \<in> set (token_items rg). \<not> token_pts i \<subseteq>
      index_extent (index_new n) \<union> (\<Union>h \<in> set ks. \<Union>j \<in> set (token_items h). token_pts j)"
    using assms(2) raw_groups_ok_items [of n "by_length_desc raw_groups"]
    by (intro tok.greedy_irredundant [where n = n]) (auto simp: remove_token_subsets_def)
  from this [unfolded index_extent_new Un_empty_left] obtain i where it: "i \<in> set (token_items rg)"
    "\<not> token_pts i \<subseteq> (\<Union>h \<in> set ks. \<Union>j \<in> set (token_items h). token_pts j)" by (rule bexE)
  then obtain x where x: "x \<in> token_pts i"
    "\<not> (\<exists>h \<in> set ks. \<exists>j \<in> set (token_items h). x \<in> token_pts j)" by blast
  obtain fid off where i: "(fid, off) \<in> set (raw_instances rg)"
    "x \<in> token_pts (fid, off, raw_length rg)" using it(1) x(1) by (auto simp: token_items_def)
  have "\<exists>k. token_in_group rg fid k \<and> (\<forall>h \<in> set ks. \<not> token_in_group h fid k)"
    using tokens_cover_pts [OF i(1) assms(3) _ i(2), of "set ks"] x(2) by blast
  moreover have "subseq (ks @ rg # ls) (by_length_desc raw_groups)"
    using subseq_greedy_subsets assms(2) by (metis remove_token_subsets_def)
  ultimately show ?thesis by blast
qed

text \<open>Two windows of one file: the shorter group is inside the longer one, the last group is not.\<close>

definition sample_raw :: "RawGroup list" where
  "sample_raw =
     [\<lparr>raw_instances = [(0, 2), (1, 2)], raw_length = 3\<rparr>,
      \<lparr>raw_instances = [(0, 0), (1, 0)], raw_length = 6\<rparr>,
      \<lparr>raw_instances = [(0, 4), (1, 9)], raw_length = 2\<rparr>]"

lemma sample_raw_ok: "raw_groups_ok 2 sample_raw"
  by (simp add: raw_groups_ok_def sample_raw_def)

lemma sample_raw_kept:
  "remove_token_subsets sample_raw 2 =
     [\<lparr>raw_instances = [(0, 0), (1, 0)], raw_length = 6\<rparr>] @
     \<lparr>raw_instances = [(0, 4), (1, 9)], raw_length = 2\<rparr> # []"
  by code_simp

theorem remove_token_subsets_covers_witness:
  "\<exists>sg \<in> set (remove_token_subsets sample_raw 2). raw_length sg \<ge> 3 \<and> token_in_group sg 0 4"
proof -
  have "token_in_group \<lparr>raw_instances = [(0, 2), (1, 2)], raw_length = 3\<rparr> 0 4"
    by (force simp: token_in_group_def)
  then show ?thesis
    using remove_token_subsets_covers [OF sample_raw_ok, of "\<lparr>raw_instances = [(0, 2), (1, 2)], raw_length = 3\<rparr>" 0 4]
    by (simp add: sample_raw_def)
qed

theorem remove_token_subsets_irredundant_witness:
  "\<exists>fid k. token_in_group \<lparr>raw_instances = [(0, 4), (1, 9)], raw_length = 2\<rparr> fid k \<and>
     \<not> token_in_group \<lparr>raw_instances = [(0, 0), (1, 0)], raw_length = 6\<rparr> fid k"
  using remove_token_subsets_irredundant [OF sample_raw_ok sample_raw_kept] by simp

section \<open>Merged instances\<close>

text \<open>In order of file and start line, and disjoint within a file.\<close>

definition disjoint_instances :: "CloneInstance list \<Rightarrow> bool" where
  "disjoint_instances is \<longleftrightarrow> sorted_wrt (\<lambda>a b. clone_file a < clone_file b \<or>
     (clone_file a = clone_file b \<and> end_line a < start_line b)) is"

definition covered_lines :: "CloneInstance list \<Rightarrow> (path \<times> nat) set" where
  "covered_lines is = (\<Union>i \<in> set is. {clone_file i} \<times> {start_line i..end_line i})"

definition well_formed_instance :: "CloneInstance \<Rightarrow> bool" where
  "well_formed_instance i \<longleftrightarrow> start_line i \<le> end_line i"

lemma covered_lines_Cons:
  "covered_lines (a # is) = {clone_file a} \<times> {start_line a..end_line a} \<union> covered_lines is"
  by (simp add: covered_lines_def)

lemma extend_instance_simps [simp]:
  "clone_file (extend_instance a b) = clone_file a"
  "start_line (extend_instance a b) = start_line a"
  "end_line (extend_instance a b) = max (end_line a) (end_line b)"
  "instance_key (extend_instance a b) = instance_key a"
  by (simp_all add: extend_instance_def instance_key_def)

lemma merge_overlap:
  "clone_file a = clone_file b \<and> start_line b \<le> end_line a \<Longrightarrow>
     merge_overlapping_instances (a # b # rest) = merge_overlapping_instances (extend_instance a b # rest)"
  by simp

lemma merge_apart:
  "\<not> (clone_file a = clone_file b \<and> start_line b \<le> end_line a) \<Longrightarrow>
     merge_overlapping_instances (a # b # rest) = a # merge_overlapping_instances (b # rest)"
  by auto

lemma merge_keys:
  "i \<in> set (merge_overlapping_instances is) \<Longrightarrow> \<exists>j \<in> set is. instance_key i = instance_key j"
proof (induction "is" rule: merge_overlapping_instances.induct)
  case (3 a b rest)
  show ?case
  proof (cases "clone_file a = clone_file b \<and> start_line b \<le> end_line a")
    case True
    with 3 have "\<exists>j \<in> set (extend_instance a b # rest). instance_key i = instance_key j" by auto
    then show ?thesis by auto
  next
    case False
    have "i = a \<or> i \<in> set (merge_overlapping_instances (b # rest))"
      using "3.prems" merge_apart [OF False] by simp
    moreover have "i \<in> set (merge_overlapping_instances (b # rest)) \<Longrightarrow>
        \<exists>j \<in> set (b # rest). instance_key i = instance_key j"
      using "3.IH" False by blast
    ultimately show ?thesis by auto
  qed
qed auto

lemma merge_disjoint:
  "sorted (map instance_key is) \<Longrightarrow> disjoint_instances (merge_overlapping_instances is)"
proof (induction "is" rule: merge_overlapping_instances.induct)
  case (3 a b rest)
  show ?case
  proof (cases "clone_file a = clone_file b \<and> start_line b \<le> end_line a")
    case True
    with 3 show ?thesis by auto
  next
    case False
    have IH: "disjoint_instances (merge_overlapping_instances (b # rest))"
      using "3.IH" "3.prems" False by auto
    have "clone_file a < clone_file i \<or> (clone_file a = clone_file i \<and> end_line a < start_line i)"
      if i: "i \<in> set (merge_overlapping_instances (b # rest))" for i
    proof -
      obtain j where j: "j \<in> set (b # rest)" "instance_key i = instance_key j"
        using merge_keys [OF i] by blast
      with "3.prems"(1) have "instance_key a \<le> instance_key b" "instance_key b \<le> instance_key i"
        by auto
      with False show ?thesis by (auto simp: instance_key_def less_eq_prod_def)
    qed
    then show ?thesis
      using IH unfolding merge_apart [OF False] disjoint_instances_def by simp
  qed
qed (auto simp: disjoint_instances_def)

lemma merge_covers:
  "sorted (map instance_key is) \<Longrightarrow> list_all well_formed_instance is \<Longrightarrow>
     covered_lines (merge_overlapping_instances is) = covered_lines is"
proof (induction "is" rule: merge_overlapping_instances.induct)
  case (3 a b rest)
  show ?case
  proof (cases "clone_file a = clone_file b \<and> start_line b \<le> end_line a")
    case True
    have "start_line a \<le> start_line b" "well_formed_instance (extend_instance a b)"
      using "3.prems" True by (auto simp: instance_key_def less_eq_prod_def well_formed_instance_def)
    with 3 True have "covered_lines (merge_overlapping_instances (a # b # rest)) =
        covered_lines (extend_instance a b # rest)" by auto
    with True \<open>start_line a \<le> start_line b\<close> show ?thesis
      by (auto simp: covered_lines_Cons max_def)
  next
    case False
    with 3 show ?thesis by (auto simp: covered_lines_Cons)
  qed
qed auto

text \<open>
  C35. Merging the instances of a group, sorted by file and start line, yields instances that are
  in order and disjoint within each file, and cover exactly the lines they covered before.
\<close>

theorem merge_overlapping_disjoint_cover:
  assumes "list_all well_formed_instance is"
  shows "disjoint_instances (merge_overlapping_instances (sort_key instance_key is)) \<and>
    covered_lines (merge_overlapping_instances (sort_key instance_key is)) = covered_lines is"
proof -
  have s: "sorted (map instance_key (sort_key instance_key is))"
    "list_all well_formed_instance (sort_key instance_key is)"
    using assms by (simp_all add: list_all_iff)
  moreover have "covered_lines (sort_key instance_key is) = covered_lines is"
    by (simp add: covered_lines_def)
  ultimately show ?thesis using merge_disjoint [OF s(1)] merge_covers [OF s] by simp
qed

theorem merge_overlapping_disjoint_cover_witness:
  "disjoint_instances (merge_overlapping_instances (sort_key instance_key
     [\<lparr>clone_file = [''b.ts''], start_line = 3, end_line = 9, start_col = 0, end_col = 1, fragment = []\<rparr>,
      \<lparr>clone_file = [''a.ts''], start_line = 5, end_line = 8, start_col = 0, end_col = 1, fragment = []\<rparr>,
      \<lparr>clone_file = [''a.ts''], start_line = 1, end_line = 6, start_col = 0, end_col = 1, fragment = []\<rparr>]))"
  by (rule merge_overlapping_disjoint_cover [THEN conjunct1]) (simp add: well_formed_instance_def)

section \<open>Line-level subset removal\<close>

definition group_lines :: "CloneGroup list \<Rightarrow> (path \<times> nat) set" where
  "group_lines gs = (\<Union>g \<in> set gs. covered_lines (instances g))"

lemma line_pts_iff:
  "clone_file i \<in> set paths \<Longrightarrow>
     (slot, 2 * l) \<in> line_pts paths i \<longleftrightarrow>
     path_slot paths (clone_file i) = Some slot \<and> start_line i \<le> l \<and> l \<le> end_line i"
  by (auto simp: line_pts_def points_def split: option.split)

lemma path_slot_inj:
  "path_slot paths p = Some slot \<Longrightarrow> path_slot paths q = Some slot \<Longrightarrow> p = q"
  by (auto simp: path_slot_def first_index_Some)

lemma path_to_idx_mem: "g \<in> set gs \<Longrightarrow> i \<in> set (instances g) \<Longrightarrow> clone_file i \<in> set (path_to_idx gs)"
  by (auto simp: path_to_idx_def)

text \<open>
  C36. Line-level subset removal loses no line: the groups it keeps cover the same lines of the
  same files as all groups together.
\<close>

theorem remove_line_subsets_covers:
  assumes "list_all (\<lambda>g. list_all well_formed_instance (instances g)) gs"
  shows "group_lines (remove_line_subsets gs) = group_lines gs"
proof
  let ?P = "path_to_idx gs"
  let ?kept = "greedy_subsets (line_covers ?P) (line_add ?P) instances (index_new (length ?P))"
  have kept: "remove_line_subsets gs = ?kept gs" by (simp add: remove_line_subsets_def Let_def)
  show "group_lines (remove_line_subsets gs) \<subseteq> group_lines gs"
    using set_greedy_subset [of "line_covers ?P" "line_add ?P" instances "index_new (length ?P)" gs]
    by (fastforce simp: kept group_lines_def)
  show "group_lines gs \<subseteq> group_lines (remove_line_subsets gs)"
  proof
    fix x assume "x \<in> group_lines gs"
    then obtain g i l where g: "g \<in> set gs" and i: "i \<in> set (instances g)"
      and x: "x = (clone_file i, l)" "start_line i \<le> l" "l \<le> end_line i"
      by (auto simp: group_lines_def covered_lines_def)
    obtain xs ys where gs: "gs = xs @ g # ys" using g by (meson split_list)
    have ok: "line_ok ?P j" if "h \<in> set gs" "j \<in> set (instances h)" for h j
      using that assms path_to_idx_mem [OF that]
      by (auto simp: line_ok_def list_all_iff well_formed_instance_def)
    have cov: "line_pts ?P i \<subseteq> index_extent (index_new (length ?P)) \<union>
        (\<Union>h \<in> set (?kept (xs @ [g])). \<Union>j \<in> set (instances h). line_pts ?P j)"
      using i by (intro lin.greedy_covers index_ok_new ok) (auto simp: gs)
    obtain slot where slot: "path_slot ?P (clone_file i) = Some slot"
      using path_slot_Some [OF path_to_idx_mem [OF g i]] by blast
    have "(slot, 2 * l) \<in> line_pts ?P i"
      using x slot by (simp add: line_pts_iff path_to_idx_mem [OF g i])
    with cov obtain h j where h: "h \<in> set (?kept (xs @ [g]))" "j \<in> set (instances h)"
      "(slot, 2 * l) \<in> line_pts ?P j" by auto
    have "h \<in> set gs" using h(1) set_greedy_subset by (fastforce simp: gs)
    then have "path_slot ?P (clone_file j) = Some slot" "start_line j \<le> l" "l \<le> end_line j"
      using h(2,3) by (auto simp: line_pts_iff path_to_idx_mem)
    moreover from this(1) slot have "clone_file j = clone_file i" by (rule path_slot_inj)
    moreover have "?kept gs = ?kept (xs @ [g]) @ greedy_subsets (line_covers ?P) (line_add ?P) instances
        (lin.index_after ?P instances (index_new (length ?P)) (xs @ [g])) ys"
      using lin.greedy_append [of ?P instances "index_new (length ?P)" "xs @ [g]" ys] by (simp add: gs)
    ultimately show "x \<in> group_lines (remove_line_subsets gs)"
      using h(1,2) x by (force simp: kept group_lines_def covered_lines_def)
  qed
qed

theorem remove_line_subsets_covers_witness:
  "group_lines (remove_line_subsets
     [\<lparr>instances = [\<lparr>clone_file = [''a.ts''], start_line = 1, end_line = 9, start_col = 0, end_col = 1, fragment = []\<rparr>,
                     \<lparr>clone_file = [''b.ts''], start_line = 1, end_line = 9, start_col = 0, end_col = 1, fragment = []\<rparr>],
       token_count = 80, group_line_count = 9\<rparr>,
      \<lparr>instances = [\<lparr>clone_file = [''a.ts''], start_line = 2, end_line = 4, start_col = 0, end_col = 1, fragment = []\<rparr>,
                     \<lparr>clone_file = [''b.ts''], start_line = 5, end_line = 7, start_col = 0, end_col = 1, fragment = []\<rparr>],
       token_count = 60, group_line_count = 3\<rparr>]) =
   {[''a.ts'']} \<times> {1..9} \<union> {[''b.ts'']} \<times> {1..9}"
  by (subst remove_line_subsets_covers)
    (auto simp: well_formed_instance_def group_lines_def covered_lines_def)

section \<open>The reported groups\<close>

lemma instance_well_formed:
  assumes "build_clone_instance_fast file off len (newline_positions 0 (source (file_tokens file))) = Some i"
  shows "well_formed_instance i \<and> clone_file i = file_path file"
proof -
  let ?src = "source (file_tokens file)"
  let ?first = "tokens (file_tokens file) ! original_index (hashed_tokens file ! off)"
  let ?last = "tokens (file_tokens file) ! original_index (hashed_tokens file ! (off + len - 1))"
  from assms have "span_begin (token_span ?first) \<le> span_end (token_span ?last)"
    "start_line i = fst (byte_offset_to_line_col ?src (span_begin (token_span ?first)))"
    "end_line i = fst (byte_offset_to_line_col ?src (span_end (token_span ?last)))"
    "clone_file i = file_path file"
    by (auto simp: build_clone_instance_fast_def Let_def line_col_fast
        split: if_splits prod.splits)
  then show ?thesis by (simp add: well_formed_instance_def line_mono)
qed

lemma merge_files:
  "clone_file ` set (merge_overlapping_instances is) = clone_file ` set is"
proof (induction "is" rule: merge_overlapping_instances.induct)
  case (3 a b rest)
  show ?case
  proof (cases "clone_file a = clone_file b \<and> start_line b \<le> end_line a")
    case True
    with 3 show ?thesis by (auto simp: merge_overlap [OF True])
  next
    case False
    with 3 have "clone_file ` set (merge_overlapping_instances (b # rest)) = clone_file ` set (b # rest)"
      by blast
    then show ?thesis unfolding merge_apart [OF False] by simp
  qed
qed simp_all

lemma merge_well_formed:
  "list_all well_formed_instance is \<Longrightarrow> list_all well_formed_instance (merge_overlapping_instances is)"
proof (induction "is" rule: merge_overlapping_instances.induct)
  case (3 a b rest)
  show ?case
  proof (cases "clone_file a = clone_file b \<and> start_line b \<le> end_line a")
    case True
    with 3 show ?thesis by (auto simp: merge_overlap [OF True] well_formed_instance_def)
  next
    case False
    have "list_all well_formed_instance (merge_overlapping_instances (b # rest))"
      using "3.IH" "3.prems" False by auto
    then show ?thesis unfolding merge_apart [OF False] using "3.prems" by simp
  qed
qed simp_all

definition parent_dirs :: "CloneInstance list \<Rightarrow> path set" where
  "parent_dirs is = set (List.map_filter (\<lambda>i. path_parent (clone_file i)) is)"

lemma parent_dirs_files: "parent_dirs is = {d. Some d \<in> path_parent ` clone_file ` set is}"
proof -
  have "d \<in> parent_dirs is \<longleftrightarrow> (\<exists>i \<in> set is. path_parent (clone_file i) = Some d)" for d
    unfolding parent_dirs_def map_filter_def by (auto simp: image_iff)
  then show ?thesis by (auto simp: image_iff) (metis)
qed

text \<open>What every reported group promises.\<close>

definition reported_group_ok ::
  "RawGroup list \<Rightarrow> FileData list \<Rightarrow> nat \<Rightarrow> bool \<Rightarrow> CloneGroup \<Rightarrow> bool" where
  "reported_group_ok raw_groups files min_lines skip_local g \<longleftrightarrow>
     2 \<le> length (instances g) \<and> disjoint_instances (instances g) \<and>
     list_all well_formed_instance (instances g) \<and>
     set (map clone_file (instances g)) \<subseteq> set (map file_path files) \<and>
     min_lines \<le> group_line_count g \<and>
     token_count g \<in> set (map raw_length raw_groups) \<and>
     (skip_local \<longrightarrow> 2 \<le> card (parent_dirs (instances g)))"

lemma collected_instances:
  assumes "list_all (\<lambda>(fid, off). fid < length files) (raw_instances rg)"
    "i \<in> set (collect_clone_instances rg files (build_line_tables files))"
  shows "well_formed_instance i \<and> clone_file i \<in> set (map file_path files)"
proof -
  from assms(2) obtain fid off where f: "(fid, off) \<in> set (raw_instances rg)"
    "build_clone_instance_fast (files ! fid) off (raw_length rg) (build_line_tables files ! fid) = Some i"
    by (auto simp: collect_clone_instances_def map_filter_def)
  with assms(1) have "fid < length files" by (auto simp: list_all_iff)
  with f instance_well_formed [of "files ! fid" off "raw_length rg" i] show ?thesis
    by (auto simp: build_line_tables_def)
qed

lemma built_group_ok:
  assumes "list_all (\<lambda>(fid, off). fid < length files) (raw_instances rg)"
    "rg \<in> set raw_groups"
    "build_clone_group rg files (build_line_tables files) min_lines skip_local = Some g"
  shows "reported_group_ok raw_groups files min_lines skip_local g"
proof -
  let ?is = "collect_clone_instances rg files (build_line_tables files)"
  let ?m = "merge_overlapping_instances (sort_key instance_key ?is)"
  from assms(3) have g: "instances g = ?m" "token_count g = raw_length rg"
    "min_lines \<le> group_line_count g" "2 \<le> length ?m" "2 \<le> length ?is"
    "skip_local \<longrightarrow> \<not> card (parent_dirs ?is) < 2"
    by (auto simp: build_clone_group_def Let_def parent_dirs_def split: if_splits)
  have wf: "list_all well_formed_instance (sort_key instance_key ?is)"
    using collected_instances [OF assms(1)] by (auto simp: list_all_iff)
  have files: "clone_file ` set ?m = clone_file ` set ?is"
    by (simp add: merge_files)
  have "parent_dirs ?m = parent_dirs ?is" by (simp only: parent_dirs_files files)
  moreover have "set (map clone_file ?m) \<subseteq> set (map file_path files)"
    using collected_instances [OF assms(1)] files by auto
  ultimately show ?thesis
    using g wf assms(2) by (auto simp: reported_group_ok_def merge_disjoint merge_well_formed)
qed

lemma remove_token_subsets_subset: "set (remove_token_subsets raw_groups n) \<subseteq> set raw_groups"
  using set_greedy_subset [of token_covers token_add token_items "index_new n" "by_length_desc raw_groups"]
  by (simp add: remove_token_subsets_def)

text \<open>
  C37. Every reported group has at least two instances, in order, well-formed and disjoint within
  a file; it reaches the minimum number of lines, its length is that of a raw group, its files
  are analysed files, and with \<^verbatim>\<open>skip_local\<close> it spans at least two directories.
\<close>

theorem build_groups_reported:
  assumes "raw_groups_ok (length files) raw_groups"
  shows "list_all (reported_group_ok raw_groups files min_lines skip_local)
    (build_groups raw_groups files min_lines skip_local)"
  unfolding list_all_iff
proof
  fix g assume g: "g \<in> set (build_groups raw_groups files min_lines skip_local)"
  then have "raw_groups \<noteq> []" by (auto simp: build_groups_def)
  with g set_greedy_subset obtain rg where "rg \<in> set (remove_token_subsets raw_groups (length files))"
    "build_clone_group rg files (build_line_tables files) min_lines skip_local = Some g"
    by (fastforce simp: build_groups_def remove_line_subsets_def Let_def map_filter_def)
  moreover from this(1) have "rg \<in> set raw_groups" using remove_token_subsets_subset by blast
  moreover from this have "list_all (\<lambda>(fid, off). fid < length files) (raw_instances rg)"
    using assms by (auto simp: raw_groups_ok_def list_all_iff)
  ultimately show "reported_group_ok raw_groups files min_lines skip_local g"
    using built_group_ok by blast
qed

text \<open>Two files with the same two lines.\<close>

definition sample_file :: "path \<Rightarrow> FileData" where
  "sample_file p =
     \<lparr>file_path = p,
      hashed_tokens = [\<lparr>token_hash = 7, original_index = 0\<rparr>, \<lparr>token_hash = 9, original_index = 1\<rparr>],
      file_tokens =
        \<lparr>tokens = [\<lparr>token_kind = Identifier ''a'', token_span = \<lparr>span_begin = 0, span_end = 1\<rparr>\<rparr>,
                   \<lparr>token_kind = Identifier ''b'', token_span = \<lparr>span_begin = 2, span_end = 3\<rparr>\<rparr>],
         atomic_invocation_spans = [], source = [CHR ''a'', byte_char 10, CHR ''b''], line_count = 2\<rparr>,
      file_invocation_spans = []\<rparr>"

theorem build_groups_reported_witness:
  "\<exists>g. build_groups [\<lparr>raw_instances = [(0, 0), (1, 0)], raw_length = 2\<rparr>]
       [sample_file [''src'', ''a.ts''], sample_file [''lib'', ''b.ts'']] 2 True = [g] \<and>
     reported_group_ok [\<lparr>raw_instances = [(0, 0), (1, 0)], raw_length = 2\<rparr>]
       [sample_file [''src'', ''a.ts''], sample_file [''lib'', ''b.ts'']] 2 True g"
proof -
  let ?raw = "[\<lparr>raw_instances = [(0, 0), (1, 0)], raw_length = 2\<rparr>]"
  let ?files = "[sample_file [''src'', ''a.ts''], sample_file [''lib'', ''b.ts'']]"
  have "raw_groups_ok (length ?files) ?raw" by (simp add: raw_groups_ok_def)
  from build_groups_reported [OF this, of 2 True]
  have all: "list_all (reported_group_ok ?raw ?files 2 True) (build_groups ?raw ?files 2 True)" .
  have "length (build_groups ?raw ?files 2 True) = 1" by code_simp
  then obtain g where "build_groups ?raw ?files 2 True = [g]" by (auto simp: length_Suc_conv)
  with all show ?thesis by simp
qed

end
