(* ===== verification/Clone_Corpus.thy ===== *)
theory Clone_Corpus
  imports Clone_Filter
begin

text \<open>
  The first two steps of the clone detector (\<^verbatim>\<open>crates/core/src/duplicates/detect/\<close>): the
  reduction of token hashes to consecutive ranks (\<^verbatim>\<open>ranking.rs\<close>), the concatenation of the
  files with unique negative sentinels (\<^verbatim>\<open>concatenation.rs\<close>) and the prefix counts of the
  boundary tokens (\<^verbatim>\<open>boundary.rs\<close>).  A rank is a \<^verbatim>\<open>u32\<close> and its increment wraps; the text of
  \<^verbatim>\<open>i64\<close> values, each a rank or a small negative number, is an integer list.  The value
  \<^verbatim>\<open>usize::MAX\<close>, which marks the positions of sentinels, is \<open>None\<close>.
\<close>

section \<open>Ranks\<close>

fun thread :: "('a \<Rightarrow> 's \<Rightarrow> 'b \<times> 's) \<Rightarrow> 'a list \<Rightarrow> 's \<Rightarrow> 'b list \<times> 's" where
  "thread f [] s = ([], s)"
| "thread f (x # xs) s = (let (y, s) = f x s; (ys, s) = thread f xs s in (y # ys, s))"

type_synonym rank_state = "(u64 \<rightharpoonup> u32) \<times> u32"

definition rank_token :: "HashedToken \<Rightarrow> rank_state \<Rightarrow> u32 \<times> rank_state" where
  "rank_token ht st = (case st of (hash_to_rank, next_rank) \<Rightarrow>
     (case hash_to_rank (token_hash ht) of
        Some r \<Rightarrow> (r, (hash_to_rank, next_rank))
      | None \<Rightarrow> (next_rank, (hash_to_rank(token_hash ht \<mapsto> next_rank), next_rank + 1))))"

definition rank_reduce :: "FileData list \<Rightarrow> u32 list list" where
  "rank_reduce files = fst (thread (\<lambda>file. thread rank_token (hashed_tokens file)) files (Map.empty, 0))"

text \<open>
  The table holds an injective numbering of the hashes seen, and later tables extend it.
\<close>

definition rank_table_ok :: "rank_state \<Rightarrow> bool" where
  "rank_table_ok st \<longleftrightarrow> finite (dom (fst st)) \<and> unat (snd st) = card (dom (fst st)) \<and> inj_on (fst st) (dom (fst st)) \<and>
     (\<forall>h r. fst st h = Some r \<longrightarrow> r < snd st)"

lemma rank_token_step:
  assumes "rank_table_ok st" "card (insert (token_hash ht) (dom (fst st))) < 2 ^ 32" "rank_token ht st = (r, st')"
  shows "rank_table_ok st' \<and> fst st \<subseteq>\<^sub>m fst st' \<and> fst st' (token_hash ht) = Some r \<and>
    dom (fst st') = insert (token_hash ht) (dom (fst st))"
proof -
  obtain m n where st: "st = (m, n)" by (cases st)
  show ?thesis
  proof (cases "m (token_hash ht)")
    case None
    have ok: "finite (dom m)" "unat n = card (dom m)" "inj_on m (dom m)" "\<And>h r. m h = Some r \<Longrightarrow> r < n"
      using assms(1) by (auto simp: st rank_table_ok_def)
    have new: "token_hash ht \<notin> dom m" using None by auto
    have st': "st' = (m(token_hash ht \<mapsto> n), n + 1)" "r = n" using assms(3) None by (auto simp: rank_token_def st)
    have "unat n + 1 < 2 ^ 32" using assms(2) ok(1,2) new by (simp add: st)
    then have suc: "unat (n + 1) = unat n + 1" "n < n + 1"
      by (simp_all add: unat_word_ariths word_less_nat_alt)
    have inj: "inj_on (m(token_hash ht \<mapsto> n)) (insert (token_hash ht) (dom m))"
      using ok(3,4) new by (fastforce simp: inj_on_def dom_def)
    have below: "(m(token_hash ht \<mapsto> n)) h = Some r' \<Longrightarrow> r' < n + 1" for h r'
      using ok(4) [of h r'] suc(2) by (auto split: if_splits)
    have "card (insert (token_hash ht) (dom m)) = Suc (card (dom m))" using ok(1) new by simp
    then have "rank_table_ok st'" unfolding rank_table_ok_def st'
      using inj below ok(1,2) suc(1) by (simp only: fst_conv snd_conv dom_fun_upd option.distinct if_False) auto
    then show ?thesis using new by (auto simp: st st' map_le_def)
  next
    case (Some r')
    then show ?thesis using assms(1,3) by (auto simp: rank_token_def st)
  qed
qed

lemma thread_rank_token:
  assumes "rank_table_ok st" "card (dom (fst st) \<union> token_hash ` set ts) < 2 ^ 32" "thread rank_token ts st = (rs, st')"
  shows "rank_table_ok st' \<and> fst st \<subseteq>\<^sub>m fst st' \<and> dom (fst st') = dom (fst st) \<union> token_hash ` set ts \<and>
    map Some rs = map (\<lambda>t. fst st' (token_hash t)) ts"
  using assms
proof (induction ts arbitrary: st rs)
  case (Cons t ts)
  obtain r st1 rs1 where r: "rank_token t st = (r, st1)" "thread rank_token ts st1 = (rs1, st')" "rs = r # rs1"
    using Cons.prems(3) by (auto simp: Let_def split: prod.splits)
  have fin: "finite (dom (fst st) \<union> token_hash ` set (t # ts))" using Cons.prems(1) by (simp add: rank_table_ok_def)
  have "card (insert (token_hash t) (dom (fst st))) \<le> card (dom (fst st) \<union> token_hash ` set (t # ts))"
    using fin by (intro card_mono) auto
  then have s: "rank_table_ok st1" "fst st \<subseteq>\<^sub>m fst st1" "fst st1 (token_hash t) = Some r"
      "dom (fst st1) = insert (token_hash t) (dom (fst st))"
    using rank_token_step [OF Cons.prems(1) _ r(1)] Cons.prems(2) by simp_all
  have "dom (fst st1) \<union> token_hash ` set ts = dom (fst st) \<union> token_hash ` set (t # ts)" using s(4) by auto
  with Cons.IH [OF s(1) _ r(2)] Cons.prems(2) have ih: "rank_table_ok st'" "fst st1 \<subseteq>\<^sub>m fst st'"
      "dom (fst st') = dom (fst st) \<union> token_hash ` set (t # ts)" "map Some rs1 = map (\<lambda>t. fst st' (token_hash t)) ts"
    by simp_all
  have "token_hash t \<in> dom (fst st1)" using s(3) by auto
  then have "fst st' (token_hash t) = Some r" using ih(2) s(3) by (metis map_le_def)
  then show ?case using ih(1,3,4) map_le_trans [OF s(2) ih(2)] r(3) by simp
qed auto

definition file_hashes :: "FileData \<Rightarrow> u64 set" where
  "file_hashes file = token_hash ` set (hashed_tokens file)"

lemma finite_file_hashes [simp]: "finite (file_hashes f)"
  by (simp add: file_hashes_def)

lemma thread_rank_files:
  assumes "rank_table_ok st" "card (dom (fst st) \<union> \<Union>(file_hashes ` set files)) < 2 ^ 32"
    "thread (\<lambda>file. thread rank_token (hashed_tokens file)) files st = (rss, st')"
  shows "rank_table_ok st' \<and> dom (fst st') = dom (fst st) \<union> \<Union>(file_hashes ` set files) \<and> fst st \<subseteq>\<^sub>m fst st' \<and>
    map (map Some) rss = map (\<lambda>f. map (\<lambda>t. fst st' (token_hash t)) (hashed_tokens f)) files"
  using assms
proof (induction files arbitrary: st rss)
  case (Cons f files)
  obtain rs st1 rss1 where r: "thread rank_token (hashed_tokens f) st = (rs, st1)"
      "thread (\<lambda>file. thread rank_token (hashed_tokens file)) files st1 = (rss1, st')" "rss = rs # rss1"
    using Cons.prems(3) by (auto simp: Let_def split: prod.splits)
  have fin: "finite (dom (fst st) \<union> \<Union>(file_hashes ` set (f # files)))" using Cons.prems(1) by (simp add: rank_table_ok_def)
  have "card (dom (fst st) \<union> file_hashes f) \<le> card (dom (fst st) \<union> \<Union>(file_hashes ` set (f # files)))"
    using fin by (intro card_mono) auto
  then have s: "rank_table_ok st1" "fst st \<subseteq>\<^sub>m fst st1" "dom (fst st1) = dom (fst st) \<union> file_hashes f"
      "map Some rs = map (\<lambda>t. fst st1 (token_hash t)) (hashed_tokens f)"
    using thread_rank_token [OF Cons.prems(1) _ r(1)] Cons.prems(2) by (simp_all add: file_hashes_def)
  have d: "dom (fst st1) \<union> \<Union>(file_hashes ` set files) = dom (fst st) \<union> \<Union>(file_hashes ` set (f # files))" using s(3) by auto
  with Cons.IH [OF s(1) _ r(2)] Cons.prems(2) have ih: "rank_table_ok st'" "fst st1 \<subseteq>\<^sub>m fst st'"
      "dom (fst st') = dom (fst st) \<union> \<Union>(file_hashes ` set (f # files))"
      "map (map Some) rss1 = map (\<lambda>f. map (\<lambda>t. fst st' (token_hash t)) (hashed_tokens f)) files"
    by simp_all
  have "fst st' (token_hash t) = fst st1 (token_hash t)" if "t \<in> set (hashed_tokens f)" for t
    using ih(2) s(3) that by (auto simp: map_le_def file_hashes_def)
  then have "map Some rs = map (\<lambda>t. fst st' (token_hash t)) (hashed_tokens f)" using s(4) by simp
  then show ?case using ih(1,3,4) map_le_trans [OF s(2) ih(2)] r(3) by simp
qed auto

definition corpus_hashes :: "FileData list \<Rightarrow> u64 set" where
  "corpus_hashes files = \<Union>(file_hashes ` set files)"

lemma rank_reduce_numbers:
  assumes "card (corpus_hashes files) < 2 ^ 32"
  shows "\<exists>\<rho>. inj_on \<rho> (corpus_hashes files) \<and>
    rank_reduce files = map (\<lambda>f. map (\<lambda>t. \<rho> (token_hash t)) (hashed_tokens f)) files"
proof -
  obtain rss st where t: "thread (\<lambda>file. thread rank_token (hashed_tokens file)) files (Map.empty, 0) = (rss, st)"
    by (cases "thread (\<lambda>file. thread rank_token (hashed_tokens file)) files (Map.empty, 0)")
  have "rank_table_ok (Map.empty, 0)" by (simp add: rank_table_ok_def)
  from thread_rank_files [OF this _ t] assms have r: "rank_table_ok st" "dom (fst st) = corpus_hashes files"
      "map (map Some) rss = map (\<lambda>f. map (\<lambda>t. fst st (token_hash t)) (hashed_tokens f)) files"
    by (simp_all add: corpus_hashes_def)
  let ?\<rho> = "\<lambda>h. the (fst st h)"
  have inj: "inj_on ?\<rho> (corpus_hashes files)"
  proof (rule inj_onI)
    fix x y assume xy: "x \<in> corpus_hashes files" "y \<in> corpus_hashes files" "?\<rho> x = ?\<rho> y"
    then obtain a b where "fst st x = Some a" "fst st y = Some b" using r(2) by blast
    then have "fst st x = fst st y" using xy(3) by simp
    moreover have "inj_on (fst st) (dom (fst st))" using r(1) by (simp add: rank_table_ok_def)
    ultimately show "x = y" using inj_onD xy(1,2) unfolding r(2) by metis
  qed
  have "rss = map (map the) (map (map Some) rss)" by (simp add: comp_def)
  then have "rss = map (\<lambda>f. map (\<lambda>t. ?\<rho> (token_hash t)) (hashed_tokens f)) files"
    unfolding r(3) by (simp add: comp_def)
  then show ?thesis using inj t by (auto simp: rank_reduce_def)
qed

lemma length_rank_reduce:
  assumes "card (corpus_hashes files) < 2 ^ 32"
  shows "map length (rank_reduce files) = map (length \<circ> hashed_tokens) files"
  using rank_reduce_numbers [OF assms] by auto

section \<open>The text\<close>

type_synonym concat_state = "int list \<times> nat option list \<times> nat list \<times> int"

definition concat_file :: "nat \<Rightarrow> nat \<times> u32 list \<Rightarrow> concat_state \<Rightarrow> concat_state" where
  "concat_file file_count fr st = (case fr of (file_id, ranks) \<Rightarrow> case st of (txt, file_of, file_offsets, sentinel) \<Rightarrow>
     (let file_offsets = file_offsets @ [length txt];
          txt = txt @ map (\<lambda>r. int (unat r)) ranks;
          file_of = file_of @ replicate (length ranks) (Some file_id)
      in if file_id + 1 < file_count
         then (txt @ [sentinel], file_of @ [None], file_offsets, sentinel - 1)
         else (txt, file_of, file_offsets, sentinel)))"

definition concatenate_with_sentinels :: "u32 list list \<Rightarrow> int list \<times> nat option list \<times> nat list" where
  "concatenate_with_sentinels ranked_files =
     (case fold (concat_file (length ranked_files)) (enumerate 0 ranked_files) ([], [], [], -1) of
        (txt, file_of, file_offsets, _) \<Rightarrow> (txt, file_of, file_offsets))"

text \<open>
  What the text promises: the ranks of every file stand at its offset and belong to it, every
  other position holds a sentinel, sentinels are negative and pairwise different, and a file is
  followed by a sentinel or by the end of the text.
\<close>

definition file_stands_at :: "int list \<Rightarrow> nat option list \<Rightarrow> nat \<Rightarrow> u32 list \<Rightarrow> nat \<Rightarrow> bool" where
  "file_stands_at txt file_of off ranks f \<longleftrightarrow> off + length ranks \<le> length txt \<and>
     (\<forall>k < length ranks. txt ! (off + k) = int (unat (ranks ! k)) \<and> file_of ! (off + k) = Some f)"

definition sentinels_ok :: "int list \<Rightarrow> nat option list \<Rightarrow> bool" where
  "sentinels_ok txt file_of \<longleftrightarrow> length file_of = length txt \<and>
     (\<forall>p < length txt. (txt ! p < 0 \<longleftrightarrow> file_of ! p = None)) \<and>
     (\<forall>p < length txt. \<forall>q < length txt. txt ! p < 0 \<longrightarrow> txt ! q = txt ! p \<longrightarrow> q = p)"

definition corpus_ok :: "u32 list list \<Rightarrow> int list \<Rightarrow> nat option list \<Rightarrow> nat list \<Rightarrow> bool" where
  "corpus_ok rfs txt file_of offs \<longleftrightarrow> sentinels_ok txt file_of \<and> length offs = length rfs \<and>
     (\<forall>f < length rfs. file_stands_at txt file_of (offs ! f) (rfs ! f) f \<and>
        (offs ! f + length (rfs ! f) < length txt \<longrightarrow> txt ! (offs ! f + length (rfs ! f)) < 0)) \<and>
     (\<forall>p < length txt. \<forall>f. file_of ! p = Some f \<longrightarrow>
        f < length rfs \<and> offs ! f \<le> p \<and> p < offs ! f + length (rfs ! f))"

definition concat_inv :: "u32 list list \<Rightarrow> nat \<Rightarrow> concat_state \<Rightarrow> bool" where
  "concat_inv rfs n st = (case st of (txt, file_of, offs, sen) \<Rightarrow>
     corpus_ok rfs txt file_of offs \<and> sen < 0 \<and> (\<forall>x \<in> set txt. x < 0 \<longrightarrow> sen < x) \<and>
     (\<forall>f < length rfs. f + 1 < n \<longrightarrow> offs ! f + length (rfs ! f) < length txt))"

lemma file_stands_at_append:
  "file_stands_at txt file_of off ranks f \<Longrightarrow> length file_of = length txt \<Longrightarrow>
     file_stands_at (txt @ ys) (file_of @ zs) off ranks f"
  by (auto simp: file_stands_at_def nth_append)

lemma sentinels_ok_ranks:
  fixes ranks :: "u32 list"
  assumes "sentinels_ok txt file_of"
  shows "sentinels_ok (txt @ map (\<lambda>r. int (unat r)) ranks) (file_of @ replicate (length ranks) (Some f))"
proof -
  have "int (unat r) \<noteq> txt ! p" if "txt ! p < 0" for p and r :: u32
    using that by linarith
  then have "uint r \<noteq> txt ! p" if "p < length txt" "file_of ! p = None" for p and r :: u32
    using assms that by (auto simp: sentinels_ok_def)
  with assms show ?thesis by (auto simp: sentinels_ok_def nth_append not_less)
qed

lemma sentinels_ok_sentinel:
  assumes "sentinels_ok txt file_of" "sen < 0" "\<forall>x \<in> set txt. x < 0 \<longrightarrow> sen < x"
  shows "sentinels_ok (txt @ [sen]) (file_of @ [None])"
proof -
  have "txt ! p \<noteq> sen" if "p < length txt" for p
    using assms(2,3) nth_mem [OF that] by fastforce
  with assms(1,2) show ?thesis by (auto simp: sentinels_ok_def nth_append less_Suc_eq)
qed

lemma nth_append_below:
  "q < length xs \<and> xs ! q < (0 :: int) \<Longrightarrow> q < length (xs @ ys) \<and> (xs @ ys) ! q < 0"
  by (simp add: nth_append)

lemma concat_file_step:
  assumes "concat_inv rfs n (txt, file_of, offs, sen)" "length rfs < n"
  shows "concat_inv (rfs @ [rs]) n (concat_file n (length rfs, rs) (txt, file_of, offs, sen))"
proof -
  let ?txt = "txt @ map (\<lambda>r. int (unat r)) rs" and ?fo = "file_of @ replicate (length rs) (Some (length rfs))"
  let ?offs = "offs @ [length txt]" and ?rfs = "rfs @ [rs]"
  have ok: "sentinels_ok txt file_of" "length offs = length rfs" "length file_of = length txt" "sen < 0"
    "\<forall>x \<in> set txt. x < 0 \<longrightarrow> sen < x"
    "\<And>f. f < length rfs \<Longrightarrow> file_stands_at txt file_of (offs ! f) (rfs ! f) f"
    "\<And>f. f < length rfs \<Longrightarrow> txt ! (offs ! f + length (rfs ! f)) < 0"
    "\<And>p f. p < length txt \<Longrightarrow> file_of ! p = Some f \<Longrightarrow> f < length rfs \<and> offs ! f \<le> p \<and> p < offs ! f + length (rfs ! f)"
    "\<And>f. f < length rfs \<Longrightarrow> offs ! f + length (rfs ! f) < length txt"
    using assms by (auto simp: concat_inv_def corpus_ok_def sentinels_ok_def)
  have stands: "file_stands_at ?txt ?fo (?offs ! f) (?rfs ! f) f" if "f < length ?rfs" for f
  proof (cases "f < length rfs")
    case True
    with file_stands_at_append [OF ok(6) ok(3)] show ?thesis by (simp add: nth_append ok(2))
  next
    case False
    with that have "f = length rfs" by simp
    then show ?thesis using ok(2,3) by (simp add: file_stands_at_def nth_append)
  qed
  have owner: "f < length ?rfs \<and> ?offs ! f \<le> p \<and> p < ?offs ! f + length (?rfs ! f)"
    if "p < length ?txt" "?fo ! p = Some f" for p f
  proof (cases "p < length txt")
    case True
    with ok(8) [of p f] that show ?thesis by (auto simp: nth_append ok(2,3))
  next
    case False
    with that show ?thesis by (auto simp: nth_append ok(2,3))
  qed
  have fresh: "\<forall>x \<in> set ?txt. x < 0 \<longrightarrow> sen < x" using ok(5) by auto
  have before: "?offs ! f + length (?rfs ! f) < length ?txt \<and> ?txt ! (?offs ! f + length (?rfs ! f)) < 0" if "f < length rfs" for f
    using ok(7,9) [OF that] that by (auto simp: nth_append ok(2))
  show ?thesis
  proof (cases "length rfs + 1 < n")
    case True
    let ?txt1 = "?txt @ [sen]" and ?fo1 = "?fo @ [None]"
    have "length ?fo = length ?txt" by (simp add: ok(3))
    note ap = file_stands_at_append [OF _ this, of _ _ _ "[sen]" "[None]"]
    have "sentinels_ok ?txt1 ?fo1" by (rule sentinels_ok_sentinel [OF sentinels_ok_ranks [OF ok(1)] ok(4) fresh])
    moreover have inside: "?offs ! f + length (?rfs ! f) < length ?txt1 \<and> ?txt1 ! (?offs ! f + length (?rfs ! f)) < 0"
      if f: "f < length ?rfs" for f
    proof (cases "f < length rfs")
      case True
      from nth_append_below [OF before [OF True]] show ?thesis .
    next
      case False
      then have "f = length rfs" using f by simp
      then show ?thesis using ok(2,4) by (simp add: nth_append)
    qed
    moreover have "f < length ?rfs \<and> ?offs ! f \<le> p \<and> p < ?offs ! f + length (?rfs ! f)"
      if "p < length ?txt1" "?fo1 ! p = Some f" for p f
      using owner [of p f] that by (auto simp: nth_append ok(3) split: if_splits)
    ultimately have "corpus_ok ?rfs ?txt1 ?fo1 ?offs" using ap [OF stands] ok(2) by (simp add: corpus_ok_def)
    moreover have "\<forall>x \<in> set ?txt1. x < 0 \<longrightarrow> sen - 1 < x" using fresh by fastforce
    moreover have "\<forall>f < length ?rfs. ?offs ! f + length (?rfs ! f) < length ?txt1"
      using inside by blast
    ultimately show ?thesis using True ok(4) by (simp add: concat_file_def concat_inv_def)
  next
    case False
    have "corpus_ok ?rfs ?txt ?fo ?offs"
      using sentinels_ok_ranks [OF ok(1)] stands owner before ok(2)
      by (fastforce simp: corpus_ok_def nth_append less_Suc_eq)
    moreover have "\<forall>f < length ?rfs. f + 1 < n \<longrightarrow> ?offs ! f + length (?rfs ! f) < length ?txt"
      using before False by (auto simp: less_Suc_eq)
    ultimately show ?thesis using False ok(4) fresh by (simp add: concat_file_def concat_inv_def)
  qed
qed

lemma fold_concat_file:
  assumes "length ys + length xs = n" "concat_inv ys n st"
  shows "concat_inv (ys @ xs) n (fold (concat_file n) (enumerate (length ys) xs) st)"
  using assms
proof (induction xs arbitrary: ys st)
  case (Cons x xs)
  obtain tx file_of offs sen where st: "st = (tx, file_of, offs, sen)" by (metis prod_cases4)
  have "concat_inv (ys @ [x]) n (concat_file n (length ys, x) st)"
    using concat_file_step Cons.prems unfolding st by simp
  from Cons.IH [OF _ this] Cons.prems(1) show ?case by simp
qed simp

lemma concatenation_ok:
  assumes "concatenate_with_sentinels rfs = (txt, file_of, offs)"
  shows "corpus_ok rfs txt file_of offs"
proof -
  have "concat_inv [] (length rfs) ([], [], [], -1)" by (simp add: concat_inv_def corpus_ok_def sentinels_ok_def)
  from fold_concat_file [OF _ this, of rfs] assms show ?thesis
    by (auto simp: concatenate_with_sentinels_def concat_inv_def split: prod.splits)
qed

section \<open>Boundary tokens\<close>

definition hashed_token_is_boundary :: "FileData \<Rightarrow> nat \<Rightarrow> bool" where
  "hashed_token_is_boundary file i \<longleftrightarrow>
     i < length (tokens (file_tokens file)) \<and> is_boundary (token_kind (tokens (file_tokens file) ! i))"

fun prefix_counts :: "('a \<Rightarrow> bool) \<Rightarrow> 'a list \<Rightarrow> u32 \<Rightarrow> u32 list" where
  "prefix_counts p [] count = [count]"
| "prefix_counts p (x # xs) count = count # prefix_counts p xs (if p x then count + 1 else count)"

definition boundary_prefix :: "FileData \<Rightarrow> u32 list option" where
  "boundary_prefix file =
     (let at = (\<lambda>token. hashed_token_is_boundary file (original_index token))
      in if \<not> list_ex at (hashed_tokens file) then None else Some (prefix_counts at (hashed_tokens file) 0))"

definition build_boundary_prefixes :: "FileData list \<Rightarrow> u32 list option list" where
  "build_boundary_prefixes files = map boundary_prefix files"

definition range_contains_boundary :: "u32 list option \<Rightarrow> nat \<Rightarrow> nat \<Rightarrow> bool" where
  "range_contains_boundary prefix_opt off len =
     (case prefix_opt of None \<Rightarrow> False | Some pre \<Rightarrow> pre ! off \<noteq> pre ! (off + len))"

text \<open>A boundary within a range of the tokens of a file.\<close>

definition boundary_within :: "FileData \<Rightarrow> nat \<Rightarrow> nat \<Rightarrow> bool" where
  "boundary_within file off len \<longleftrightarrow>
     (\<exists>k < len. hashed_token_is_boundary file (original_index (hashed_tokens file ! (off + k))))"

lemma prefix_counts_nth:
  "i \<le> length xs \<Longrightarrow> prefix_counts p xs c ! i = c + of_nat (length (filter p (take i xs)))"
proof (induction xs arbitrary: c i)
  case (Cons x xs)
  then show ?case by (cases i) auto
qed simp

lemma of_nat_u32_differ:
  assumes "a + b < 2 ^ 32"
  shows "(of_nat a :: u32) \<noteq> of_nat (a + b) \<longleftrightarrow> b \<noteq> 0"
proof -
  have "unat (of_nat (a + b) :: u32) = a + b" "unat (of_nat a :: u32) = a"
    using assms by (simp_all only: unat_of_nat) simp_all
  then show ?thesis by (metis add_cancel_left_right add_0_right)
qed

lemma range_contains_boundary_iff:
  assumes "off + len \<le> length (hashed_tokens file)" "length (hashed_tokens file) < 2 ^ 32"
  shows "range_contains_boundary (boundary_prefix file) off len \<longleftrightarrow> boundary_within file off len"
proof -
  let ?p = "\<lambda>token. hashed_token_is_boundary file (original_index token)" and ?ts = "hashed_tokens file"
  have "length (slice off (off + len) ?ts) = len" "\<And>k. k < len \<Longrightarrow> slice off (off + len) ?ts ! k = ?ts ! (off + k)"
    using assms(1) by simp_all
  then have sl: "set (slice off (off + len) ?ts) = {?ts ! (off + k) |k. k < len}"
    unfolding set_conv_nth by (metis (lifting))
  have within: "boundary_within file off len \<longleftrightarrow> filter ?p (slice off (off + len) ?ts) \<noteq> []"
    unfolding filter_empty_conv sl boundary_within_def by auto
  show ?thesis
  proof (cases "list_ex ?p ?ts")
    case True
    let ?a = "length (filter ?p (take off ?ts))" and ?b = "length (filter ?p (slice off (off + len) ?ts))"
    have "take (off + len) ?ts = take off ?ts @ slice off (off + len) ?ts" by (simp add: slice_def take_add)
    then have "range_contains_boundary (boundary_prefix file) off len \<longleftrightarrow>
        (of_nat ?a :: u32) \<noteq> of_nat (?a + ?b)"
      using True assms(1) by (simp add: range_contains_boundary_def boundary_prefix_def prefix_counts_nth)
    also have "\<dots> \<longleftrightarrow> ?b \<noteq> 0"
    proof -
      have "?a + ?b = length (filter ?p (take (off + len) ?ts))"
        using \<open>take (off + len) ?ts = _\<close> by simp
      also have "\<dots> \<le> length (take (off + len) ?ts)" by (rule length_filter_le)
      also have "\<dots> \<le> length ?ts" by simp
      finally have "?a + ?b < 2 ^ 32" using assms(2) by simp
      then show ?thesis by (rule of_nat_u32_differ)
    qed
    finally show ?thesis unfolding within by simp
  next
    case False
    then have "\<not> boundary_within file off len"
      using assms(1) unfolding boundary_within_def list_ex_iff by auto
    with False show ?thesis by (simp add: range_contains_boundary_def boundary_prefix_def)
  qed
qed

end
