(* ===== verification/Suffix_Order.thy ===== *)
theory Suffix_Order
  imports Fallow_Prelude
begin

text \<open>
  The order of suffixes that the clone detector sorts by, and what a suffix array of a text is:
  the positions of the text in the order of their suffixes, a prefix before the longer suffix.
  There is exactly one.
\<close>

lemma drop_less_iff:
  assumes "i < length s" "j < length s"
  shows "drop i s < drop j s \<longleftrightarrow> s ! i < s ! j \<or> (s ! i = s ! j \<and> drop (Suc i) s < drop (Suc j) s)"
  using assms by (simp flip: Cons_nth_drop_Suc)

lemma drop_inj: "i \<le> length s \<Longrightarrow> j \<le> length s \<Longrightarrow> drop i s = drop j s \<longleftrightarrow> i = j"
  by (metis diff_diff_cancel length_drop)

lemma take_mono_lex: "(xs :: 'a :: linorder list) \<le> ys \<Longrightarrow> take k xs \<le> take k ys"
proof (induction k arbitrary: xs ys)
  case (Suc k)
  then show ?case by (cases xs; cases ys) auto
qed simp

definition suffix_less :: "'a :: linorder list \<Rightarrow> nat \<Rightarrow> nat \<Rightarrow> bool" where
  "suffix_less s i j \<longleftrightarrow> drop i s < drop j s"

lemma suffix_less_trans: "suffix_less s i j \<Longrightarrow> suffix_less s j k \<Longrightarrow> suffix_less s i k"
  unfolding suffix_less_def by order

lemma suffix_less_irrefl [simp]: "\<not> suffix_less s i i"
  by (simp add: suffix_less_def)

lemma suffix_less_total:
  "i < length s \<Longrightarrow> j < length s \<Longrightarrow> i \<noteq> j \<Longrightarrow> suffix_less s i j \<or> suffix_less s j i"
  unfolding suffix_less_def using drop_inj [of i s j] by (meson less_imp_le neq_iff)

lemma suffix_less_asym: "suffix_less s i j \<Longrightarrow> \<not> suffix_less s j i"
  unfolding suffix_less_def by order

definition is_suffix_array :: "'a :: linorder list \<Rightarrow> nat list \<Rightarrow> bool" where
  "is_suffix_array s sa \<longleftrightarrow> set sa = {..<length s} \<and> sorted_wrt (suffix_less s) sa"

lemma sorted_suffixes_distinct: "sorted_wrt (suffix_less s) sa \<Longrightarrow> distinct sa"
  by (induction sa) auto

lemma suffix_array_basics:
  assumes "is_suffix_array s sa"
  shows "distinct sa" "length sa = length s" "\<And>i. i < length s \<Longrightarrow> sa ! i < length s"
    "\<And>i j. i < j \<Longrightarrow> j < length s \<Longrightarrow> drop (sa ! i) s < drop (sa ! j) s"
proof -
  show d: "distinct sa" using assms sorted_suffixes_distinct by (auto simp: is_suffix_array_def)
  show l: "length sa = length s" using distinct_card [OF d] assms by (simp add: is_suffix_array_def)
  show "sa ! i < length s" if "i < length s" for i
    using assms that nth_mem [of i sa] by (auto simp: is_suffix_array_def l)
  show "drop (sa ! i) s < drop (sa ! j) s" if "i < j" "j < length s" for i j
    using assms that by (auto simp: is_suffix_array_def l sorted_wrt_iff_nth_less suffix_less_def)
qed

lemma suffix_array_position:
  assumes "is_suffix_array s sa" "p < length s"
  obtains r where "r < length s" "sa ! r = p"
  using assms suffix_array_basics(2) [OF assms(1)] unfolding is_suffix_array_def
  by (metis in_set_conv_nth lessThan_iff)

lemma suffix_array_unique:
  assumes "is_suffix_array s sa" "is_suffix_array s sa'"
  shows "sa = sa'"
proof (rule map_sorted_distinct_set_unique)
  have srt: "sorted (map (\<lambda>i. drop i s) xs)" if "is_suffix_array s xs" for xs
  proof -
    have "sorted_wrt (suffix_less s) xs" using that by (simp add: is_suffix_array_def)
    then show ?thesis unfolding sorted_map
      by (rule sorted_wrt_mono_rel [rotated]) (simp add: suffix_less_def)
  qed
  have inj: "inj_on (\<lambda>i. drop i s) {..<length s}" by (auto intro!: inj_onI simp: drop_inj)
  have dist: "distinct (map (\<lambda>i. drop i s) xs)" if "is_suffix_array s xs" for xs
    using suffix_array_basics(1) [OF that] inj that by (simp add: distinct_map is_suffix_array_def)
  show "inj_on (\<lambda>i. drop i s) (set sa \<union> set sa')" using assms inj by (simp add: is_suffix_array_def)
  show "sorted (map (\<lambda>i. drop i s) sa)" "sorted (map (\<lambda>i. drop i s) sa')" "distinct (map (\<lambda>i. drop i s) sa)"
    "distinct (map (\<lambda>i. drop i s) sa')" "set sa = set sa'"
    using assms srt dist by (simp_all add: is_suffix_array_def)
qed

end
