(* ===== verification/Lcp_Array.thy ===== *)
theory Lcp_Array
  imports Suffix_Order
begin

text \<open>
  The array of longest common prefixes (\<^verbatim>\<open>build_lcp\<close> of
  \<^verbatim>\<open>crates/core/src/duplicates/detect/lcp.rs\<close>), Kasai's algorithm with the cut at sentinels:
  a common prefix ends before the first negative value.  For a suffix array every entry is the
  common prefix of the suffix and its predecessor.
\<close>

section \<open>The algorithm\<close>

function lcp_extend :: "int list \<Rightarrow> nat \<Rightarrow> nat \<Rightarrow> nat \<Rightarrow> nat \<Rightarrow> nat" where
  "lcp_extend s n i j k =
     (if i + k < n \<and> j + k < n then
        if s ! (i + k) < 0 \<or> s ! (j + k) < 0 then k
        else if s ! (i + k) \<noteq> s ! (j + k) then k
        else lcp_extend s n i j (k + 1)
      else k)"
  by pat_completeness auto
termination by (relation "measure (\<lambda>(s, n, i, j, k). n - (i + k))") auto

declare lcp_extend.simps [simp del]

definition rank_of :: "nat list \<Rightarrow> nat list" where
  "rank_of sa = fold (\<lambda>i rank. rank[sa ! i := i]) [0..<length sa] (replicate (length sa) 0)"

definition lcp_step :: "int list \<Rightarrow> nat list \<Rightarrow> nat list \<Rightarrow> nat \<Rightarrow> nat list \<times> nat \<Rightarrow> nat list \<times> nat" where
  "lcp_step s sa rank i st = (case st of (lcp, k) \<Rightarrow>
     (if rank ! i = 0 then (lcp, 0)
      else (let j = sa ! (rank ! i - 1);
                k = lcp_extend s (length sa) i j k
            in (lcp[rank ! i := k], k - 1))))"

definition build_lcp :: "int list \<Rightarrow> nat list \<Rightarrow> nat list" where
  "build_lcp s sa =
     (if sa = [] then []
      else fst (fold (lcp_step s sa (rank_of sa)) [0..<length sa] (replicate (length sa) 0, 0)))"

section \<open>Common prefixes\<close>

fun common_prefix :: "int list \<Rightarrow> int list \<Rightarrow> nat" where
  "common_prefix (x # xs) (y # ys) = (if x < 0 \<or> y < 0 \<or> x \<noteq> y then 0 else Suc (common_prefix xs ys))"
| "common_prefix _ _ = 0"

lemma common_prefix_ge:
  "k \<le> common_prefix xs ys \<longleftrightarrow>
     k \<le> length xs \<and> k \<le> length ys \<and> take k xs = take k ys \<and> (\<forall>x \<in> set (take k xs). 0 \<le> x)"
proof (induction xs ys arbitrary: k rule: common_prefix.induct)
  case (1 x xs y ys)
  then show ?case by (cases k) auto
qed auto

lemma common_prefix_sym: "common_prefix xs ys = common_prefix ys xs"
  by (induction xs ys rule: common_prefix.induct) auto

lemma common_prefix_drop:
  "k \<le> common_prefix xs ys \<Longrightarrow> common_prefix xs ys = k + common_prefix (drop k xs) (drop k ys)"
proof (induction k arbitrary: xs ys)
  case (Suc k)
  then show ?case by (cases xs; cases ys) (auto split: if_splits)
qed simp

lemma common_prefix_between:
  assumes "xs \<le> ys" "ys \<le> zs"
  shows "common_prefix xs zs \<le> common_prefix ys zs"
proof -
  let ?k = "common_prefix xs zs"
  have k: "?k \<le> length xs" "?k \<le> length zs" "take ?k xs = take ?k zs" "\<forall>x \<in> set (take ?k xs). 0 \<le> x"
    using common_prefix_ge [of ?k xs zs] by auto
  have "take ?k ys = take ?k zs"
    using take_mono_lex [OF assms(1), of ?k] take_mono_lex [OF assms(2), of ?k] k(3) by simp
  moreover from this have "?k \<le> length ys" using k(2) by (metis length_take min.absorb_iff2 min_def nle_le)
  ultimately show ?thesis using k common_prefix_ge [of ?k ys zs] by simp
qed

lemma lcp_extend_common:
  "n = length s \<Longrightarrow> lcp_extend s n i j k = k + common_prefix (drop (i + k) s) (drop (j + k) s)"
proof (induction s n i j k rule: lcp_extend.induct)
  case (1 s n i j k)
  show ?case
  proof (cases "i + k < n \<and> j + k < n")
    case True
    then have d: "drop (i + k) s = s ! (i + k) # drop (i + (k + 1)) s" "drop (j + k) s = s ! (j + k) # drop (j + (k + 1)) s"
      using 1(2) by (simp_all add: Cons_nth_drop_Suc)
    show ?thesis
    proof (cases "s ! (i + k) < 0 \<or> s ! (j + k) < 0 \<or> s ! (i + k) \<noteq> s ! (j + k)")
      case True
      then show ?thesis unfolding d by (subst lcp_extend.simps) auto
    next
      case False
      with 1 True have "lcp_extend s n i j (k + 1) =
          k + 1 + common_prefix (drop (i + (k + 1)) s) (drop (j + (k + 1)) s)" by blast
      with False True show ?thesis unfolding d by (subst lcp_extend.simps) simp
    qed
  next
    case False
    then show ?thesis using 1(2) by (subst lcp_extend.simps) auto
  qed
qed

section \<open>Every entry is a longest common prefix\<close>

lemma rank_fold:
  assumes "distinct sa" "set sa = {..<length sa}" "m \<le> length sa"
  shows "let r = fold (\<lambda>i rank. rank[sa ! i := i]) [0..<m] (replicate (length sa) 0)
    in length r = length sa \<and> (\<forall>i < m. r ! (sa ! i) = i)"
  using assms(3)
proof (induction m)
  case (Suc m)
  then have "sa ! m < length sa" using assms(2) nth_mem [of m sa] by auto
  moreover have "sa ! m \<noteq> sa ! i" if "i < m" for i using assms(1) Suc.prems that by (simp add: nth_eq_iff_index_eq)
  ultimately show ?case using Suc by (auto simp: Let_def less_Suc_eq)
qed simp

lemma rank_of_inverse:
  assumes "is_suffix_array s sa"
  shows "length (rank_of sa) = length s" "\<And>r. r < length s \<Longrightarrow> rank_of sa ! (sa ! r) = r"
    "\<And>p. p < length s \<Longrightarrow> rank_of sa ! p < length s \<and> sa ! (rank_of sa ! p) = p"
proof -
  note b = suffix_array_basics [OF assms]
  have "set sa = {..<length sa}" using assms b(2) by (simp add: is_suffix_array_def)
  from rank_fold [OF b(1) this, of "length sa"] show l: "length (rank_of sa) = length s"
    and r: "\<And>r. r < length s \<Longrightarrow> rank_of sa ! (sa ! r) = r" by (simp_all add: rank_of_def Let_def b(2))
  show "rank_of sa ! p < length s \<and> sa ! (rank_of sa ! p) = p" if "p < length s" for p
    using suffix_array_position [OF assms that] r by metis
qed

definition before_rank :: "int list \<Rightarrow> nat list \<Rightarrow> nat \<Rightarrow> nat" where
  "before_rank s sa r = (if r = 0 then 0 else common_prefix (drop (sa ! (r - 1)) s) (drop (sa ! r) s))"

text \<open>The step from position \<open>i\<close> to \<open>i + 1\<close> loses at most one.\<close>

lemma before_rank_Suc:
  assumes sa: "is_suffix_array s sa" and i: "Suc i < length s"
  shows "before_rank s sa (rank_of sa ! i) - 1 \<le> before_rank s sa (rank_of sa ! Suc i)"
proof (cases "before_rank s sa (rank_of sa ! i) \<le> 1")
  case False
  let ?r = "rank_of sa ! i" and ?r' = "rank_of sa ! Suc i"
  let ?j = "sa ! (?r - 1)" and ?k = "before_rank s sa (rank_of sa ! i)"
  note b = suffix_array_basics [OF sa] and rk = rank_of_inverse [OF sa]
  have "before_rank s sa 0 = 0" by (simp add: before_rank_def)
  then have "?r \<noteq> 0" using False by (metis zero_le)
  then have r: "0 < ?r" "?r < length s" "sa ! ?r = i" using rk(3) [of i] i by auto
  then have k: "?k = common_prefix (drop ?j s) (drop i s)" by (simp add: before_rank_def)
  have j: "?j < length s" using b(3) r(2) by simp
  have less: "drop ?j s < drop i s" using b(4) [of "?r - 1" ?r] r by simp
  have d: "drop ?j s = s ! ?j # drop (Suc ?j) s" "drop i s = s ! i # drop (Suc i) s"
    using j i by (simp_all add: Cons_nth_drop_Suc)
  have k1: "?k = Suc (common_prefix (drop (Suc ?j) s) (drop (Suc i) s))" and eq: "s ! ?j = s ! i"
    using False unfolding k d by (auto split: if_splits)
  then have less': "drop (Suc ?j) s < drop (Suc i) s" using less unfolding d by simp
  have "drop (Suc ?j) s \<noteq> []" using False k1 by (cases "drop (Suc ?j) s") auto
  then have j': "Suc ?j < length s" by simp
  let ?q = "rank_of sa ! Suc ?j"
  have q: "?q < length s" "sa ! ?q = Suc ?j" and r': "?r' < length s" "sa ! ?r' = Suc i"
    using rk(3) j' i by auto
  have "?q < ?r'"
  proof (rule ccontr)
    assume "\<not> ?q < ?r'"
    then have "?q = ?r' \<or> ?r' < ?q" by auto
    then show False
      using b(4) [of ?r' ?q] q r' less' by auto
  qed
  then have "drop (Suc ?j) s \<le> drop (sa ! (?r' - 1)) s" "drop (sa ! (?r' - 1)) s \<le> drop (Suc i) s"
    using b(4) [of ?q "?r' - 1"] b(4) [of "?r' - 1" ?r'] q r' by (cases "?q = ?r' - 1"; force)+
  from common_prefix_between [OF this] \<open>?q < ?r'\<close> k1 r' show ?thesis
    by (simp add: before_rank_def)
qed simp

lemma lcp_fold:
  assumes sa: "is_suffix_array s sa" and "m \<le> length s"
  shows "\<exists>lcp k. fold (lcp_step s sa (rank_of sa)) [0..<m] (replicate (length sa) 0, 0) = (lcp, k) \<and>
    length lcp = length s \<and> (\<forall>i < m. lcp ! (rank_of sa ! i) = before_rank s sa (rank_of sa ! i)) \<and>
    (s \<noteq> [] \<longrightarrow> lcp ! 0 = 0) \<and>
    (m < length s \<longrightarrow> k \<le> before_rank s sa (rank_of sa ! m))"
  using assms(2)
proof (induction m)
  case 0
  then show ?case using suffix_array_basics(2) [OF sa] by auto
next
  case (Suc m)
  note rk = rank_of_inverse [OF sa] and b = suffix_array_basics [OF sa]
  let ?r = "rank_of sa ! m"
  obtain lcp k where IH: "fold (lcp_step s sa (rank_of sa)) [0..<m] (replicate (length sa) 0, 0) = (lcp, k)"
      "length lcp = length s" "\<forall>i < m. lcp ! (rank_of sa ! i) = before_rank s sa (rank_of sa ! i)"
      "lcp ! 0 = 0" "k \<le> before_rank s sa ?r"
    using Suc.IH Suc.prems by fastforce
  have other: "rank_of sa ! i \<noteq> ?r" if "i < m" for i using rk(3) [of i] rk(3) [of m] Suc.prems that by fastforce
  show ?case
  proof (cases "?r = 0")
    case True
    then have "fold (lcp_step s sa (rank_of sa)) [0..<Suc m] (replicate (length sa) 0, 0) = (lcp, 0)"
      using IH(1) by (simp add: lcp_step_def)
    moreover have "lcp ! (rank_of sa ! i) = before_rank s sa (rank_of sa ! i)" if "i < Suc m" for i
      using IH(3,4) True that by (cases "i = m") (auto simp: before_rank_def)
    ultimately show ?thesis using IH(2,4) by blast
  next
    case False
    let ?j = "sa ! (?r - 1)"
    have bk: "before_rank s sa ?r = common_prefix (drop ?j s) (drop m s)"
      using False rk(3) [of m] Suc.prems by (simp add: before_rank_def)
    have "lcp_extend s (length sa) m ?j k = before_rank s sa ?r"
      using lcp_extend_common [of "length sa" s m ?j k] common_prefix_drop [of k "drop m s" "drop ?j s"] IH(5) b(2)
      by (simp add: bk common_prefix_sym add.commute)
    then have "fold (lcp_step s sa (rank_of sa)) [0..<Suc m] (replicate (length sa) 0, 0) =
        (lcp[?r := before_rank s sa ?r], before_rank s sa ?r - 1)"
      using IH(1) False by (simp add: lcp_step_def Let_def)
    moreover have "Suc m < length s \<longrightarrow> before_rank s sa ?r - 1 \<le> before_rank s sa (rank_of sa ! Suc m)"
      using before_rank_Suc [OF sa] by blast
    moreover have "lcp[?r := before_rank s sa ?r] ! (rank_of sa ! i) = before_rank s sa (rank_of sa ! i)" if "i < Suc m" for i
      using IH(2,3) other [of i] rk(3) [of m] Suc.prems that by (cases "i = m") auto
    ultimately show ?thesis using IH(2,4) False by auto
  qed
qed

lemma build_lcp_entries:
  assumes sa: "is_suffix_array s sa"
  shows "build_lcp s sa = map (before_rank s sa) [0..<length s]"
proof -
  note b = suffix_array_basics [OF sa] and rk = rank_of_inverse [OF sa]
  obtain lcp k where f: "fold (lcp_step s sa (rank_of sa)) [0..<length s] (replicate (length sa) 0, 0) = (lcp, k)"
      "length lcp = length s" "\<forall>i < length s. lcp ! (rank_of sa ! i) = before_rank s sa (rank_of sa ! i)"
    using lcp_fold [OF sa order_refl] by blast
  have "lcp ! r = before_rank s sa r" if "r < length s" for r
    using f(3) rk(2) [OF that] b(3) [OF that] by metis
  then have "lcp = map (before_rank s sa) [0..<length s]" by (intro nth_equalityI) (simp_all only: f(2) length_map length_upt nth_map nth_upt diff_zero add_0)
  moreover have "build_lcp s sa = lcp" using f(1,2) b(2) by (cases "sa = []") (simp_all add: build_lcp_def)
  ultimately show ?thesis by simp
qed

end
