(* ===== verification/Clone_Extraction.thy ===== *)
theory Clone_Extraction
  imports Clone_Corpus Lcp_Array
begin

text \<open>
  The extraction of raw clone groups from the suffix array and the array of common prefixes
  (\<^verbatim>\<open>crates/core/src/duplicates/detect/extraction.rs\<close>): one pass with a stack of open
  intervals, each closed interval turned into a group of non-overlapping instances.  The stack
  has its top at the head of the list.
\<close>

section \<open>The code\<close>

record CloneGroupExtractionInput =
  ex_sa :: "nat list"
  ex_lcp :: "nat list"
  ex_file_of :: "nat option list"
  ex_file_offsets :: "nat list"
  ex_min_tokens :: nat
  ex_files :: "FileData list"
  ex_focus_file_ids :: "bool list option"
  ex_may_have_boundaries :: bool

definition is_focused :: "nat option list \<Rightarrow> bool list \<Rightarrow> nat \<Rightarrow> bool" where
  "is_focused file_of focus_file_ids pos =
     (if pos < length file_of then
        (case file_of ! pos of None \<Rightarrow> False
         | Some file_id \<Rightarrow> file_id < length focus_file_ids \<and> focus_file_ids ! file_id)
      else False)"

definition build_focus_prefix :: "nat list \<Rightarrow> nat option list \<Rightarrow> bool list \<Rightarrow> nat list" where
  "build_focus_prefix sa file_of focus_file_ids =
     fold (\<lambda>pos prefix_counts. prefix_counts @ [last prefix_counts + (if is_focused file_of focus_file_ids pos then 1 else 0)])
       sa [0]"

definition interval_has_focus :: "nat list \<Rightarrow> nat \<Rightarrow> nat \<Rightarrow> bool" where
  "interval_has_focus focus_prefix b e \<longleftrightarrow> focus_prefix ! e > focus_prefix ! b"

record RawGroupInput =
  rg_sa :: "nat list"
  rg_file_of :: "nat option list"
  rg_file_offsets :: "nat list"
  rg_files :: "FileData list"
  rg_boundary_prefixes :: "u32 list option list"
  rg_has_boundaries :: bool

definition instance_at :: "RawGroupInput \<Rightarrow> nat \<Rightarrow> nat \<Rightarrow> (nat \<times> nat) option" where
  "instance_at inp len pos =
     (case rg_file_of inp ! pos of
        None \<Rightarrow> None
      | Some fid \<Rightarrow>
          (let offset_in_file = pos - rg_file_offsets inp ! fid
           in if offset_in_file + len > length (hashed_tokens (rg_files inp ! fid)) then None
              else if rg_has_boundaries inp \<and>
                range_contains_boundary (rg_boundary_prefixes inp ! fid) offset_in_file len then None
              else Some (fid, offset_in_file)))"

definition push_instance :: "nat \<Rightarrow> nat \<times> nat \<Rightarrow> (nat \<times> nat) list \<Rightarrow> (nat \<times> nat) list" where
  "push_instance len i deduped =
     (if deduped \<noteq> [] \<and> fst i = fst (last deduped) \<and> snd i < snd (last deduped) + len then deduped
      else deduped @ [i])"

definition build_raw_group :: "RawGroupInput \<Rightarrow> nat \<Rightarrow> nat \<Rightarrow> nat \<Rightarrow> RawGroup option" where
  "build_raw_group inp interval_begin interval_end len =
     (let insts = List.map_filter (instance_at inp len) (slice interval_begin interval_end (rg_sa inp))
      in if length insts < 2 then None
         else if length insts = 2 then
           (let insts = (if insts ! 1 < insts ! 0 then [insts ! 1, insts ! 0] else insts);
                first = insts ! 0; second = insts ! 1
            in if fst first \<noteq> fst second \<or> snd second \<ge> snd first + len
               then Some \<lparr>raw_instances = insts, raw_length = len\<rparr> else None)
         else
           (let deduped = fold (push_instance len) (sort insts) []
            in if length deduped < 2 then None else Some \<lparr>raw_instances = deduped, raw_length = len\<rparr>))"

text \<open>The inner loop: it pops the intervals that end at \<open>i\<close> and pushes their groups.\<close>

fun pop_intervals ::
  "(nat \<Rightarrow> nat \<Rightarrow> nat \<Rightarrow> RawGroup option) \<Rightarrow> nat \<Rightarrow> nat \<Rightarrow> nat \<Rightarrow> (nat \<times> nat) list \<Rightarrow> nat \<Rightarrow> RawGroup list \<Rightarrow>
   (nat \<times> nat) list \<times> nat \<times> RawGroup list" where
  "pop_intervals emit min_tokens cur_lcp i [] start groups = ([], start, groups)"
| "pop_intervals emit min_tokens cur_lcp i ((top_lcp, top_start) # stk) start groups =
     (if top_lcp \<le> cur_lcp then ((top_lcp, top_start) # stk, start, groups)
      else pop_intervals emit min_tokens cur_lcp i stk top_start
        (if top_lcp \<ge> min_tokens then
           (case emit (top_start - 1) i top_lcp of None \<Rightarrow> groups | Some g \<Rightarrow> groups @ [g])
         else groups))"

definition extract_step ::
  "(nat \<Rightarrow> nat \<Rightarrow> nat \<Rightarrow> RawGroup option) \<Rightarrow> nat list \<Rightarrow> nat \<Rightarrow> nat \<Rightarrow> (nat \<times> nat) list \<times> RawGroup list \<Rightarrow>
   (nat \<times> nat) list \<times> RawGroup list" where
  "extract_step emit lcp min_tokens i st = (case st of (stk, groups) \<Rightarrow>
     (let n = length lcp; cur_lcp = (if i < n then lcp ! i else 0);
          (stk, start, groups) = pop_intervals emit min_tokens cur_lcp i stk i groups
      in if i < n \<and> cur_lcp \<ge> min_tokens \<and> (stk = [] \<or> fst (hd stk) < cur_lcp)
         then ((cur_lcp, start) # stk, groups) else (stk, groups)))"

definition emit_group :: "CloneGroupExtractionInput \<Rightarrow> nat \<Rightarrow> nat \<Rightarrow> nat \<Rightarrow> RawGroup option" where
  "emit_group inp =
     (let focus_prefix = map_option (build_focus_prefix (ex_sa inp) (ex_file_of inp)) (ex_focus_file_ids inp);
          boundary_prefixes = (if ex_may_have_boundaries inp then build_boundary_prefixes (ex_files inp) else []);
          has_boundaries = (ex_may_have_boundaries inp \<and> list_ex (\<lambda>p. p \<noteq> None) boundary_prefixes);
          input = \<lparr>rg_sa = ex_sa inp, rg_file_of = ex_file_of inp, rg_file_offsets = ex_file_offsets inp,
            rg_files = ex_files inp, rg_boundary_prefixes = boundary_prefixes, rg_has_boundaries = has_boundaries\<rparr>
      in (\<lambda>interval_begin interval_end len.
           if (case focus_prefix of None \<Rightarrow> False
               | Some p \<Rightarrow> \<not> interval_has_focus p interval_begin interval_end) then None
           else build_raw_group input interval_begin interval_end len))"

definition extract_clone_groups :: "CloneGroupExtractionInput \<Rightarrow> RawGroup list" where
  "extract_clone_groups inp =
     (let n = length (ex_sa inp)
      in if n < 2 then []
         else snd (fold (extract_step (emit_group inp) (ex_lcp inp) (ex_min_tokens inp)) [1..<n + 1] ([], [])))"

section \<open>The intervals\<close>

text \<open>
  An interval of the suffix array that is open before \<open>i\<close>: from \<open>start\<close> on every common prefix is
  at least \<open>l\<close>, one is \<open>l\<close>, and the interval cannot be extended to the left.
\<close>

definition open_interval :: "nat list \<Rightarrow> nat \<Rightarrow> nat \<Rightarrow> nat \<Rightarrow> nat \<Rightarrow> bool" where
  "open_interval lcp m i l start \<longleftrightarrow> m \<le> l \<and> 1 \<le> start \<and> start < i \<and>
     (\<forall>j \<in> {start..<i}. l \<le> lcp ! j) \<and> (\<exists>j \<in> {start..<i}. lcp ! j = l) \<and> (start = 1 \<or> lcp ! (start - 1) < l)"

definition lcp_interval :: "nat list \<Rightarrow> nat \<Rightarrow> nat \<Rightarrow> nat \<Rightarrow> nat \<Rightarrow> bool" where
  "lcp_interval lcp m b e l \<longleftrightarrow> open_interval lcp m e l (Suc b) \<and> e \<le> length lcp \<and> (e < length lcp \<longrightarrow> lcp ! e < l)"

lemma open_interval_exists:
  assumes "1 \<le> j" "j < i" "m \<le> lcp ! j" "\<forall>k \<in> {j..<i}. lcp ! j \<le> lcp ! k"
  shows "\<exists>start \<le> j. open_interval lcp m i (lcp ! j) start"
proof -
  let ?P = "\<lambda>st. 1 \<le> st \<and> (\<forall>k \<in> {st..<i}. lcp ! j \<le> lcp ! k)"
  define st where "st = (LEAST st. ?P st)"
  have st: "?P st" unfolding st_def by (rule LeastI [of ?P j]) (use assms in auto)
  have le: "st \<le> j" unfolding st_def by (rule Least_le) (use assms in auto)
  have "st = 1 \<or> lcp ! (st - 1) < lcp ! j"
  proof (rule ccontr)
    assume c: "\<not> (st = 1 \<or> lcp ! (st - 1) < lcp ! j)"
    have "lcp ! j \<le> lcp ! k" if "k \<in> {st - 1..<i}" for k
      using c st that by (cases "k = st - 1") auto
    then have "?P (st - 1)" using c st by auto
    then have "st \<le> st - 1" unfolding st_def by (rule Least_le)
    then show False using st [THEN conjunct1] by arith
  qed
  then show ?thesis using st le assms by (intro exI [of _ st]) (auto simp: open_interval_def)
qed

lemma open_interval_unique:
  "open_interval lcp m i l st \<Longrightarrow> open_interval lcp m i l st' \<Longrightarrow> st = st'"
proof (induction st st' rule: linorder_wlog)
  case (le st st')
  show ?case
  proof (rule ccontr)
    assume "st \<noteq> st'"
    with le have "st' - 1 \<in> {st..<i}" "st' \<noteq> 1" by (auto simp: open_interval_def)
    moreover from this le have "lcp ! (st' - 1) < l" by (simp add: open_interval_def)
    ultimately show False using le(2) unfolding open_interval_def by (meson not_less)
  qed
qed auto

definition stack_ok :: "nat list \<Rightarrow> nat \<Rightarrow> nat \<Rightarrow> (nat \<times> nat) list \<Rightarrow> bool" where
  "stack_ok lcp m i stk \<longleftrightarrow> sorted_wrt (\<lambda>a b. fst b < fst a) stk \<and> set stk = {(l, st). open_interval lcp m i l st}"

lemma pop_intervals_eq:
  assumes "sorted_wrt (\<lambda>a b. fst b < fst a) stk" "\<And>x. x \<in> set stk \<Longrightarrow> m \<le> fst x"
  shows "pop_intervals emit m c i stk st groups =
    (dropWhile (\<lambda>x. c < fst x) stk,
     (if takeWhile (\<lambda>x. c < fst x) stk = [] then st else snd (last (takeWhile (\<lambda>x. c < fst x) stk))),
     groups @ List.map_filter (\<lambda>(l, st). emit (st - 1) i l) (takeWhile (\<lambda>x. c < fst x) stk))"
  using assms
proof (induction stk arbitrary: st groups)
  case (Cons x stk)
  obtain l s where x: "x = (l, s)" by (cases x)
  have IH: "pop_intervals emit m c i stk st' groups' =
    (dropWhile (\<lambda>x. c < fst x) stk,
     (if takeWhile (\<lambda>x. c < fst x) stk = [] then st' else snd (last (takeWhile (\<lambda>x. c < fst x) stk))),
     groups' @ List.map_filter (\<lambda>(l, st). emit (st - 1) i l) (takeWhile (\<lambda>x. c < fst x) stk))" for st' groups'
    using Cons.IH Cons.prems by simp
  have "m \<le> l" using Cons.prems(2) [of x] x by simp
  then show ?case by (simp add: x IH not_less map_filter_simps split: option.splits)
qed (simp add: map_filter_simps)

lemma sorted_takeWhile_set:
  "sorted_wrt (\<lambda>a b. fst b < fst a) stk \<Longrightarrow> set (takeWhile (\<lambda>x. c < fst x) stk) = {x \<in> set stk. c < (fst x :: nat)}"
  by (induction stk) force+

lemma sorted_dropWhile_set:
  "sorted_wrt (\<lambda>a b. fst b < fst a) stk \<Longrightarrow> set (dropWhile (\<lambda>x. c < fst x) stk) = {x \<in> set stk. fst x \<le> (c :: nat)}"
  by (induction stk) force+

lemma open_interval_Suc_less:
  "i < length lcp \<Longrightarrow> l < lcp ! i \<Longrightarrow> open_interval lcp m (Suc i) l st \<longleftrightarrow> open_interval lcp m i l st"
  by (auto simp: open_interval_def less_Suc_eq)

lemma open_interval_Suc_greater:
  "lcp ! i < l \<Longrightarrow> \<not> open_interval lcp m (Suc i) l st"
  unfolding open_interval_def by (metis atLeastLessThan_iff lessI less_Suc_eq_le not_less)

lemma open_interval_Suc_eq:
  assumes "open_interval lcp m i (lcp ! i) st"
  shows "open_interval lcp m (Suc i) (lcp ! i) st' \<longleftrightarrow> st' = st"
proof -
  have "open_interval lcp m (Suc i) (lcp ! i) st" using assms by (auto simp: open_interval_def less_Suc_eq)
  then show ?thesis using open_interval_unique by blast
qed

lemma last_least:
  "sorted_wrt (\<lambda>a b. fst b < fst a) xs \<Longrightarrow> x \<in> set xs \<Longrightarrow> fst (last xs) \<le> (fst x :: nat)"
proof (induction xs)
  case (Cons y ys)
  then show ?case using last_in_set [of ys] by (cases "ys = []") (auto intro: less_imp_le)
qed simp

text \<open>The interval that \<open>i\<close> opens starts at \<open>i\<close> or at the last interval it closes.\<close>

lemma new_interval_open:
  assumes ok: "stack_ok lcp m i stk" and i: "1 \<le> i" "i < length lcp" "m \<le> lcp ! i"
    and none: "\<And>s. \<not> open_interval lcp m i (lcp ! i) s"
  defines "popped \<equiv> takeWhile (\<lambda>x. lcp ! i < fst x) stk"
  shows "open_interval lcp m (Suc i) (lcp ! i) (if popped = [] then i else snd (last popped))"
proof -
  have srt: "sorted_wrt (\<lambda>a b. fst b < fst a) stk" and stk: "set stk = {(l, st). open_interval lcp m i l st}"
    using ok by (simp_all add: stack_ok_def)
  have popped: "set popped = {(l, st). open_interval lcp m i l st \<and> lcp ! i < l}"
    unfolding popped_def sorted_takeWhile_set [OF srt] stk by auto
  have srt': "sorted_wrt (\<lambda>a b. fst b < fst a) popped"
    unfolding popped_def using srt sorted_wrt_append takeWhile_dropWhile_id by metis
  have below: "lcp ! j < lcp ! i \<or> (\<exists>s. (lcp ! j, s) \<in> set popped)" if "1 \<le> j" "j < i" "\<forall>k \<in> {j..<i}. lcp ! j \<le> lcp ! k" for j
  proof (rule disjCI)
    assume no: "\<not> (\<exists>s. (lcp ! j, s) \<in> set popped)"
    show "lcp ! j < lcp ! i"
    proof (rule ccontr)
      assume c: "\<not> lcp ! j < lcp ! i"
      with open_interval_exists [OF that(1,2) _ that(3), of m] i(3) obtain s where "open_interval lcp m i (lcp ! j) s" by auto
      then show False using no none c popped by (cases "lcp ! j = lcp ! i") auto
    qed
  qed
  show ?thesis
  proof (cases "popped = []")
    case True
    have "i = 1 \<or> lcp ! (i - 1) < lcp ! i" 
    proof (cases "i = 1")
      case False
      have "\<forall>k \<in> {i - 1..<i}. k = i - 1" by auto
      then have "\<forall>k \<in> {i - 1..<i}. lcp ! (i - 1) \<le> lcp ! k" by (metis order_refl)
      then show ?thesis using below [of "i - 1"] i(1) True False by auto
    qed simp
    then show ?thesis using True i by (auto simp: open_interval_def)
  next
    case False
    obtain l st where last: "last popped = (l, st)" by (cases "last popped")
    then have o: "open_interval lcp m i l st" "lcp ! i < l" using last_in_set [OF False] popped by auto
    have "st = 1 \<or> lcp ! (st - 1) < lcp ! i"
    proof (rule ccontr)
      assume c: "\<not> (st = 1 \<or> lcp ! (st - 1) < lcp ! i)"
      then have v: "lcp ! (st - 1) < l" using o by (auto simp: open_interval_def)
      have "\<forall>k \<in> {st - 1..<i}. lcp ! (st - 1) \<le> lcp ! k"
      proof
        fix k assume "k \<in> {st - 1..<i}"
        then have "k = st - 1 \<or> k \<in> {st..<i}" by auto
        then show "lcp ! (st - 1) \<le> lcp ! k"
          using o(1) v unfolding open_interval_def by (metis less_imp_le less_le_trans order_refl)
      qed
      moreover have "1 \<le> st" "st < i" "st \<noteq> 1" using o(1) c by (simp_all add: open_interval_def)
      then have "1 \<le> st - 1" "st - 1 < i" by arith+
      ultimately obtain s where s: "(lcp ! (st - 1), s) \<in> set popped" using below [of "st - 1"] c by blast
      show False using last_least [OF srt' s] v last by simp
    qed
    moreover have "lcp ! i \<le> lcp ! k" if "k \<in> {st..<i}" for k
      using o that unfolding open_interval_def by (meson less_imp_le order.trans)
    ultimately show ?thesis using o False last i by (auto simp: open_interval_def less_Suc_eq)
  qed
qed

lemma extract_step_ok:
  assumes ok: "stack_ok lcp m i stk" and i: "1 \<le> i" "i \<le> length lcp" "1 \<le> m"
    and r: "extract_step emit lcp m i (stk, groups) = (stk', groups')"
  shows "i < length lcp \<longrightarrow> stack_ok lcp m (Suc i) stk'"
    "set groups' = set groups \<union> {g. \<exists>b l. lcp_interval lcp m b i l \<and> emit b i l = Some g}"
proof -
  have srt: "sorted_wrt (\<lambda>a b. fst b < fst a) stk" and stk: "set stk = {(l, st). open_interval lcp m i l st}"
    using ok by (simp_all add: stack_ok_def)
  let ?c = "if i < length lcp then lcp ! i else 0"
  let ?popped = "takeWhile (\<lambda>x. ?c < fst x) stk" and ?rest = "dropWhile (\<lambda>x. ?c < fst x) stk"
  let ?start = "if ?popped = [] then i else snd (last ?popped)"
  have big: "m \<le> fst x" if "x \<in> set stk" for x using that stk by (auto simp: open_interval_def)
  have step: "stk' = (if i < length lcp \<and> m \<le> ?c \<and> (?rest = [] \<or> fst (hd ?rest) < ?c) then (?c, ?start) # ?rest else ?rest)"
    "groups' = groups @ List.map_filter (\<lambda>(l, st). emit (st - 1) i l) ?popped"
    using r by (auto simp: extract_step_def Let_def pop_intervals_eq [OF srt big]
        del: dropWhile_eq_Nil_conv takeWhile_eq_Nil_iff split: if_splits)
  have popped: "set ?popped = {(l, st). open_interval lcp m i l st \<and> ?c < l}"
    unfolding sorted_takeWhile_set [OF srt] stk by auto
  have rest: "set ?rest = {(l, st). open_interval lcp m i l st \<and> l \<le> ?c}"
    unfolding sorted_dropWhile_set [OF srt] stk by auto
  have srt': "sorted_wrt (\<lambda>a b. fst b < fst a) ?rest"
    using srt sorted_wrt_append takeWhile_dropWhile_id by metis
  have ends: "lcp_interval lcp m b i l \<longleftrightarrow> open_interval lcp m i l (Suc b) \<and> ?c < l" for b l
    using i(2,3) by (auto simp: lcp_interval_def open_interval_def)
  show "set groups' = set groups \<union> {g. \<exists>b l. lcp_interval lcp m b i l \<and> emit b i l = Some g}"
  proof -
    have pm: "(l, st) \<in> set ?popped \<longleftrightarrow> (\<exists>b. st = Suc b \<and> lcp_interval lcp m b i l)" for l st
      unfolding popped ends by (cases st) (simp_all add: open_interval_def)
    have "g \<in> set (List.map_filter (\<lambda>(l, st). emit (st - 1) i l) ?popped) \<longleftrightarrow>
        (\<exists>l st. (l, st) \<in> set ?popped \<and> emit (st - 1) i l = Some g)" for g
      by (force simp: map_filter_def)
    also have "\<dots> g \<longleftrightarrow> (\<exists>b l. lcp_interval lcp m b i l \<and> emit b i l = Some g)" for g
      unfolding pm by (metis diff_Suc_1)
    finally have "g \<in> set (List.map_filter (\<lambda>(l, st). emit (st - 1) i l) ?popped) \<longleftrightarrow>
        (\<exists>b l. lcp_interval lcp m b i l \<and> emit b i l = Some g)" for g .
    then show ?thesis unfolding step(2) set_append by blast
  qed
  show "i < length lcp \<longrightarrow> stack_ok lcp m (Suc i) stk'"
  proof
    assume lt: "i < length lcp"
    have sucs: "open_interval lcp m (Suc i) l st \<longleftrightarrow> open_interval lcp m i l st" if "l < lcp ! i" for l st
      using open_interval_Suc_less [OF lt that] .
    show "stack_ok lcp m (Suc i) stk'"
    proof (cases "m \<le> ?c \<and> (?rest = [] \<or> fst (hd ?rest) < ?c)")
      case True
      have below: "fst x < lcp ! i" if "x \<in> set ?rest" for x
        using True srt' that lt by (cases ?rest) (auto simp del: dropWhile_eq_Nil_conv)
      then have none: "\<not> open_interval lcp m i (lcp ! i) s" for s
        using rest lt by fastforce
      have new: "open_interval lcp m (Suc i) (lcp ! i) ?start"
      proof -
        have c: "?c = lcp ! i" using lt by simp
        show ?thesis unfolding c by (rule new_interval_open [OF ok i(1) lt _ none]) (use True c in simp)
      qed
      have st': "stk' = (?c, ?start) # ?rest"
        by (rule trans [OF step(1)], rule if_P) (use True lt in blast)
      have c: "?c = lcp ! i" using lt by simp
      have "set stk' = {(l, st). open_interval lcp m (Suc i) l st}"
      proof (rule set_eqI)
        fix x
        have "open_interval lcp m (Suc i) l st \<longleftrightarrow> (l, st) = (lcp ! i, ?start) \<or> (l, st) \<in> set ?rest" for l st
        proof (cases l "lcp ! i" rule: linorder_cases)
          case less
          then show ?thesis using sucs rest lt by auto
        next
          case equal
          have "open_interval lcp m (Suc i) (lcp ! i) st \<longleftrightarrow> st = ?start" using new open_interval_unique by blast
          moreover have "(l, st) \<notin> set ?rest" using below [of "(l, st)"] equal by fastforce
          ultimately show ?thesis by (simp only: equal prod.inject simp_thms)
        next
          case greater
          then show ?thesis using open_interval_Suc_greater [OF greater] rest lt by auto
        qed
        from this [of "fst x" "snd x"]
        show "x \<in> set stk' \<longleftrightarrow> x \<in> {(l, st). open_interval lcp m (Suc i) l st}"
          unfolding st' list.set c by (simp only: mem_Collect_eq case_prod_unfold insert_iff prod.collapse)
      qed
      moreover have "sorted_wrt (\<lambda>a b. fst b < fst a) stk'" unfolding st' using srt' below c by auto
      ultimately show ?thesis by (simp add: stack_ok_def)
    next
      case False
      have "open_interval lcp m (Suc i) l st \<longleftrightarrow> (l, st) \<in> set ?rest" for l st
      proof (cases l "lcp ! i" rule: linorder_cases)
        case less
        then show ?thesis using sucs rest lt by auto
      next
        case greater
        then show ?thesis using open_interval_Suc_greater [OF greater] rest lt by auto
      next
        case equal
        show ?thesis
        proof (cases "m \<le> lcp ! i")
          case True
          with False lt have "?rest \<noteq> []" "\<not> fst (hd ?rest) < lcp ! i" by (simp_all del: dropWhile_eq_Nil_conv)
          obtain l' s where h: "hd ?rest = (l', s)" by (cases "hd ?rest")
          have "(l', s) \<in> set ?rest" using hd_in_set [OF \<open>?rest \<noteq> []\<close>] h by metis
          then have "open_interval lcp m i l' s" "l' \<le> ?c" unfolding rest by simp_all
          moreover have "\<not> l' < lcp ! i" using \<open>\<not> fst (hd ?rest) < lcp ! i\<close> h by (metis fst_conv)
          ultimately have "open_interval lcp m i (lcp ! i) s" using lt by (metis antisym_conv2)
          then have "open_interval lcp m i (lcp ! i) st \<longleftrightarrow> st = s" "open_interval lcp m (Suc i) (lcp ! i) st \<longleftrightarrow> st = s"
            using open_interval_Suc_eq open_interval_unique by metis+
          moreover have "(lcp ! i, st) \<in> set ?rest \<longleftrightarrow> open_interval lcp m i (lcp ! i) st" unfolding rest using lt by simp
          ultimately show ?thesis using equal by metis
        next
          case False
          then show ?thesis using equal rest lt by (auto simp: open_interval_def)
        qed
      qed
      moreover have "stk' = ?rest"
        by (rule trans [OF step(1)], rule if_not_P) (use False in blast)
      ultimately show ?thesis using srt' unfolding stack_ok_def by force
    qed
  qed
qed

lemma extract_fold:
  assumes "2 \<le> length lcp" "1 \<le> m" "k \<le> length lcp" "1 \<le> k"
  shows "\<exists>stk groups. fold (extract_step emit lcp m) [1..<k] ([], []) = (stk, groups) \<and> stack_ok lcp m k stk \<and>
    set groups = {g. \<exists>b e l. e < k \<and> lcp_interval lcp m b e l \<and> emit b e l = Some g}"
  using assms(4,3)
proof (induction k rule: dec_induct)
  case base
  show ?case by (auto simp: stack_ok_def open_interval_def lcp_interval_def)
next
  case (step k)
  then obtain stk groups where IH: "fold (extract_step emit lcp m) [1..<k] ([], []) = (stk, groups)" "stack_ok lcp m k stk"
      "set groups = {g. \<exists>b e l. e < k \<and> lcp_interval lcp m b e l \<and> emit b e l = Some g}" by auto
  obtain stk' groups' where r: "extract_step emit lcp m k (stk, groups) = (stk', groups')" by fastforce
  from extract_step_ok [OF IH(2) _ _ assms(2) r] step have "stack_ok lcp m (Suc k) stk'"
    "set groups' = set groups \<union> {g. \<exists>b l. lcp_interval lcp m b k l \<and> emit b k l = Some g}" by auto
  then show ?case using IH(1,3) r step(1) by (auto simp: less_Suc_eq)
qed

text \<open>The raw groups are the groups of the maximal intervals.\<close>

lemma extracted_intervals:
  assumes "length (ex_lcp inp) = length (ex_sa inp)" "1 \<le> ex_min_tokens inp"
  shows "set (extract_clone_groups inp) =
    {g. \<exists>b e l. lcp_interval (ex_lcp inp) (ex_min_tokens inp) b e l \<and> emit_group inp b e l = Some g}"
proof (cases "length (ex_sa inp) < 2")
  case True
  then show ?thesis using assms(1) by (auto simp: extract_clone_groups_def lcp_interval_def open_interval_def)
next
  case False
  let ?lcp = "ex_lcp inp" and ?m = "ex_min_tokens inp" and ?n = "length (ex_sa inp)"
  obtain stk groups where f: "fold (extract_step (emit_group inp) ?lcp ?m) [1..<?n] ([], []) = (stk, groups)" "stack_ok ?lcp ?m ?n stk"
      "set groups = {g. \<exists>b e l. e < ?n \<and> lcp_interval ?lcp ?m b e l \<and> emit_group inp b e l = Some g}"
    using extract_fold [of ?lcp ?m ?n "emit_group inp"] assms False by auto
  obtain stk' groups' where r: "extract_step (emit_group inp) ?lcp ?m ?n (stk, groups) = (stk', groups')" by fastforce
  have "set groups' = set groups \<union> {g. \<exists>b l. lcp_interval ?lcp ?m b ?n l \<and> emit_group inp b ?n l = Some g}"
    using extract_step_ok(2) [OF f(2) _ _ assms(2) r] assms(1) False by simp
  moreover have "extract_clone_groups inp = groups'" using f(1) r False by (simp add: extract_clone_groups_def)
  moreover have "lcp_interval ?lcp ?m b e l \<Longrightarrow> e < ?n \<or> e = ?n" for b e l using assms(1) by (auto simp: lcp_interval_def)
  ultimately show ?thesis using f(3) by blast
qed

section \<open>The instances of an interval\<close>

definition apart :: "nat \<Rightarrow> nat \<times> nat \<Rightarrow> nat \<times> nat \<Rightarrow> bool" where
  "apart len i j \<longleftrightarrow> fst i \<noteq> fst j \<or> snd i + len \<le> snd j"

definition covers_instance :: "nat \<Rightarrow> nat \<times> nat \<Rightarrow> nat \<times> nat \<Rightarrow> bool" where
  "covers_instance len d x \<longleftrightarrow> fst d = fst x \<and> snd d \<le> snd x \<and> snd x < snd d + len"

definition thinned :: "nat \<Rightarrow> (nat \<times> nat) list \<Rightarrow> (nat \<times> nat) list \<Rightarrow> bool" where
  "thinned len xs ds \<longleftrightarrow> set ds \<subseteq> set xs \<and> sorted ds \<and> sorted_wrt (apart len) ds \<and>
     (\<forall>x \<in> set xs. \<exists>d \<in> set ds. covers_instance len d x)"

lemma thinned_dedup:
  assumes "sorted xs" "1 \<le> len"
  shows "thinned len xs (fold (push_instance len) xs [])"
  using assms(1)
proof (induction xs rule: rev_induct)
  case (snoc x xs)
  let ?ds = "fold (push_instance len) xs []"
  have IH: "set ?ds \<subseteq> set xs" "sorted ?ds" "sorted_wrt (apart len) ?ds" "\<forall>x \<in> set xs. \<exists>d \<in> set ?ds. covers_instance len d x"
    and le: "\<And>y. y \<in> set xs \<Longrightarrow> y \<le> x"
    using snoc by (auto simp: thinned_def sorted_append)
  show ?case
  proof (cases "?ds \<noteq> [] \<and> fst x = fst (last ?ds) \<and> snd x < snd (last ?ds) + len")
    case True
    then have l: "last ?ds \<in> set ?ds" by simp
    then have "last ?ds \<le> x" using IH(1) le by blast
    then have "snd (last ?ds) \<le> snd x" using True by (simp add: less_eq_prod_def)
    then have "covers_instance len (last ?ds) x" using True by (simp add: covers_instance_def)
    moreover have "fold (push_instance len) (xs @ [x]) [] = ?ds" using True by (simp add: push_instance_def [of len x])
    ultimately show ?thesis using IH l unfolding thinned_def by auto
  next
    case False
    have "apart len d x" if d: "d \<in> set ?ds" for d
    proof -
      have ne: "?ds \<noteq> []" using d by auto
      have la: "last ?ds \<le> x" using IH(1) le last_in_set [OF ne] by blast
      obtain zs z where z: "?ds = zs @ [z]" using ne by (metis append_butlast_last_id)
      have "d = last ?ds \<or> (d \<le> last ?ds \<and> apart len d (last ?ds))"
        using IH(2,3) d unfolding z by (auto simp: sorted_append sorted_wrt_append)
      then show ?thesis using False ne la by (auto simp: apart_def less_eq_prod_def not_less)
    qed
    moreover have "covers_instance len x x" using assms(2) by (simp add: covers_instance_def)
    moreover have "fold (push_instance len) (xs @ [x]) [] = ?ds @ [x]" using False by (auto simp: push_instance_def [of len x])
    ultimately show ?thesis using IH le by (auto simp: thinned_def sorted_append sorted_wrt_append)
  qed
qed (simp add: thinned_def)

definition candidates :: "RawGroupInput \<Rightarrow> nat \<Rightarrow> nat \<Rightarrow> nat \<Rightarrow> (nat \<times> nat) list" where
  "candidates inp b e len = List.map_filter (instance_at inp len) (slice b e (rg_sa inp))"

lemma thinned_pair:
  assumes "1 \<le> len" "x \<le> y" "apart len x y"
  shows "thinned len [x, y] [x, y]"
  using assms by (auto simp: thinned_def covers_instance_def)

lemma pair_list: "length xs = 2 \<Longrightarrow> xs = [xs ! 0, xs ! 1]"
  by (auto simp: numeral_2_eq_2 length_Suc_conv)

lemma build_raw_group_thinned:
  assumes "build_raw_group inp b e len = Some g" "1 \<le> len"
  shows "raw_length g = len \<and> 2 \<le> length (raw_instances g) \<and> thinned len (candidates inp b e len) (raw_instances g)"
proof -
  let ?c = "candidates inp b e len"
  have n2: "\<not> length ?c < 2" using assms(1) by (auto simp: build_raw_group_def candidates_def Let_def)
  show ?thesis
  proof (cases "length ?c = 2")
    case True
    then obtain x y where c: "?c = [x, y]" using pair_list by blast
    let ?p = "if y < x then [y, x] else [x, y]"
    have g: "g = \<lparr>raw_instances = ?p, raw_length = len\<rparr>" "apart len (?p ! 0) (?p ! 1)"
      using assms(1) by (auto simp: build_raw_group_def candidates_def [symmetric] c Let_def apart_def split: if_splits)
    have "thinned len ?p ?p" using thinned_pair [OF assms(2), of y x] thinned_pair [OF assms(2), of x y] g(2)
      by (cases "y < x") (simp_all add: leI less_imp_le)
    then have "thinned len ?c ?p" unfolding c by (auto simp: thinned_def)
    then show ?thesis using g(1) by simp
  next
    case False
    then have g: "g = \<lparr>raw_instances = fold (push_instance len) (sort ?c) [], raw_length = len\<rparr>"
      "2 \<le> length (raw_instances g)"
      using assms(1) n2 by (auto simp: build_raw_group_def candidates_def [symmetric] Let_def split: if_splits)
    have "thinned len (sort ?c) (raw_instances g)" using thinned_dedup [of "sort ?c" len] assms(2) g(1) by simp
    then show ?thesis using g by (simp add: thinned_def)
  qed
qed

lemma build_raw_group_some:
  assumes "x \<in> set (candidates inp b e len)" "y \<in> set (candidates inp b e len)" "fst x \<noteq> fst y" "1 \<le> len"
  shows "build_raw_group inp b e len \<noteq> None"
proof -
  let ?c = "candidates inp b e len"
  have xy: "x \<noteq> y" using assms(3) by auto
  have "card {x, y} \<le> length ?c" using assms(1,2) card_mono [of "set ?c" "{x, y}"] card_length [of ?c] by fastforce
  then have n2: "\<not> length ?c < 2" using xy by simp
  show ?thesis
  proof (cases "length ?c = 2")
    case True
    have "set ?c = {?c ! 0, ?c ! 1}" using pair_list [OF True] by (metis list.set(1,2))
    then have "fst (?c ! 0) \<noteq> fst (?c ! 1)" using assms(1-3) by auto
    then show ?thesis using True by (auto simp: build_raw_group_def candidates_def [symmetric] Let_def)
  next
    case False
    let ?ds = "fold (push_instance len) (sort ?c) []"
    have "thinned len (sort ?c) ?ds" using thinned_dedup [of "sort ?c" len] assms(4) by simp
    then obtain d d' where "d \<in> set ?ds" "d' \<in> set ?ds" "fst d = fst x" "fst d' = fst y"
      using assms(1,2) by (fastforce simp: thinned_def covers_instance_def)
    then have "card {d, d'} \<le> length ?ds" "d \<noteq> d'"
      using assms(3) card_mono [of "set ?ds" "{d, d'}"] card_length [of ?ds] by fastforce+
    then have "\<not> length ?ds < 2" by simp
    then show ?thesis using n2 False by (simp add: build_raw_group_def candidates_def [symmetric] Let_def)
  qed
qed

end
