(* ===== verification/Raw_Clones.thy ===== *)
theory Raw_Clones
  imports Clone_Extraction
begin

text \<open>
  What the raw groups of the suffix array detector mean for the files: every reported group is a
  set of equal, non-overlapping windows of tokens, and every pair of equal windows in different
  files lies in a reported group.
\<close>

section \<open>Windows of tokens\<close>

definition window :: "FileData list \<Rightarrow> nat \<times> nat \<Rightarrow> nat \<Rightarrow> u64 list" where
  "window files i len = map token_hash (slice (snd i) (snd i + len) (hashed_tokens (files ! fst i)))"

definition in_corpus :: "FileData list \<Rightarrow> nat \<times> nat \<Rightarrow> nat \<Rightarrow> bool" where
  "in_corpus files i len \<longleftrightarrow> fst i < length files \<and> snd i + len \<le> length (hashed_tokens (files ! fst i))"

definition rank_texts :: "(u64 \<Rightarrow> u32) \<Rightarrow> FileData list \<Rightarrow> u32 list list" where
  "rank_texts \<rho> files = map (\<lambda>f. map (\<lambda>t. \<rho> (token_hash t)) (hashed_tokens f)) files"

definition prepared :: "CloneGroupExtractionInput \<Rightarrow> int list \<Rightarrow> (u64 \<Rightarrow> u32) \<Rightarrow> bool" where
  "prepared inp s \<rho> \<longleftrightarrow> is_suffix_array s (ex_sa inp) \<and> ex_lcp inp = build_lcp s (ex_sa inp) \<and>
     1 \<le> ex_min_tokens inp \<and> inj_on \<rho> (corpus_hashes (ex_files inp)) \<and>
     corpus_ok (rank_texts \<rho> (ex_files inp)) s (ex_file_of inp) (ex_file_offsets inp)"

definition text_position :: "CloneGroupExtractionInput \<Rightarrow> nat \<times> nat \<Rightarrow> nat" where
  "text_position inp i = ex_file_offsets inp ! fst i + snd i"

lemma rank_texts_simps [simp]:
  "length (rank_texts \<rho> files) = length files"
  "f < length files \<Longrightarrow> rank_texts \<rho> files ! f = map (\<lambda>t. \<rho> (token_hash t)) (hashed_tokens (files ! f))"
  by (simp_all add: rank_texts_def)

lemma window_hashes: "in_corpus files i len \<Longrightarrow> set (window files i len) \<subseteq> corpus_hashes files"
  using set_slice_subset by (fastforce simp: window_def in_corpus_def corpus_hashes_def file_hashes_def)

lemma file_in_text:
  assumes prep: "prepared inp s \<rho>"
    and f: "f < length (ex_files inp)" "k < length (hashed_tokens (ex_files inp ! f))"
  shows "ex_file_offsets inp ! f + k < length s"
    "s ! (ex_file_offsets inp ! f + k) = int (unat (\<rho> (token_hash (hashed_tokens (ex_files inp ! f) ! k))))"
    "ex_file_of inp ! (ex_file_offsets inp ! f + k) = Some f"
proof -
  have "file_stands_at s (ex_file_of inp) (ex_file_offsets inp ! f) (rank_texts \<rho> (ex_files inp) ! f) f"
    using prep f(1) by (simp add: prepared_def corpus_ok_def)
  then show "ex_file_offsets inp ! f + k < length s"
    "s ! (ex_file_offsets inp ! f + k) = int (unat (\<rho> (token_hash (hashed_tokens (ex_files inp ! f) ! k))))"
    "ex_file_of inp ! (ex_file_offsets inp ! f + k) = Some f"
    using f by (simp_all add: file_stands_at_def)
qed

lemma text_window:
  assumes prep: "prepared inp s \<rho>"
    and i: "in_corpus (ex_files inp) i len"
  shows "take len (drop (text_position inp i) s) = map (\<lambda>h. int (unat (\<rho> h))) (window (ex_files inp) i len)"
proof (cases "len = 0")
  case False
  let ?f = "ex_files inp ! fst i"
  have i: "fst i < length (ex_files inp)" "snd i + len \<le> length (hashed_tokens ?f)" using i by (simp_all add: in_corpus_def)
  have at: "text_position inp i + k < length s"
    "s ! (text_position inp i + k) = int (unat (\<rho> (token_hash (hashed_tokens ?f ! (snd i + k)))))" if "k < len" for k
    using file_in_text [OF prep i(1), of "snd i + k"] i(2) that by (simp_all add: text_position_def add.assoc)
  have "text_position inp i + len \<le> length s" using at(1) [of "len - 1"] False by simp
  then show ?thesis using at(2) i(2) by (intro nth_equalityI) (simp_all add: window_def)
qed (simp add: window_def slice_def)

lemma same_windows:
  assumes prep: "prepared inp s \<rho>"
    and ij: "in_corpus (ex_files inp) i len" "in_corpus (ex_files inp) j len"
  shows "len \<le> common_prefix (drop (text_position inp i) s) (drop (text_position inp j) s) \<longleftrightarrow>
    window (ex_files inp) i len = window (ex_files inp) j len"
proof -
  have len: "len \<le> length (drop (text_position inp x) s)" if "in_corpus (ex_files inp) x len" for x
    using arg_cong [OF text_window [OF prep that], of length] that by (simp add: window_def in_corpus_def)
  have inj: "inj_on (\<lambda>h. int (unat (\<rho> h))) (corpus_hashes (ex_files inp))"
  proof (rule inj_onI)
    fix x y assume xy: "x \<in> corpus_hashes (ex_files inp)" "y \<in> corpus_hashes (ex_files inp)"
      and e: "int (unat (\<rho> x)) = int (unat (\<rho> y))"
    have "inj_on \<rho> (corpus_hashes (ex_files inp))" using prep unfolding prepared_def by (elim conjE)
    moreover have "\<rho> x = \<rho> y" using e by (simp only: of_nat_eq_iff word_unat_eq_iff)
    ultimately show "x = y" using xy by (rule inj_onD)
  qed
  have "map (\<lambda>h. int (unat (\<rho> h))) (window (ex_files inp) i len) = map (\<lambda>h. int (unat (\<rho> h))) (window (ex_files inp) j len) \<longleftrightarrow>
      window (ex_files inp) i len = window (ex_files inp) j len"
    by (rule inj_on_map_eq_map, rule inj_on_subset [OF inj]) (use window_hashes [OF ij(1)] window_hashes [OF ij(2)] in blast)
  then show ?thesis
    using len ij unfolding common_prefix_ge by (auto simp: text_window [OF prep])
qed

lemma inside_file:
  assumes prep: "prepared inp s \<rho>"
    and i: "fst i < length (ex_files inp)" "snd i \<le> length (hashed_tokens (ex_files inp ! fst i))"
    "len \<le> common_prefix (drop (text_position inp i) s) ys"
  shows "in_corpus (ex_files inp) i len"
proof (rule ccontr)
  let ?n = "length (hashed_tokens (ex_files inp ! fst i))"
  assume "\<not> in_corpus (ex_files inp) i len"
  then have out: "?n < snd i + len" using i(1) by (simp add: in_corpus_def)
  let ?k = "?n - snd i" and ?q = "ex_file_offsets inp ! fst i + ?n"
  have q: "text_position inp i + ?k = ?q" using i(2) by (simp add: text_position_def)
  have c: "len \<le> length (drop (text_position inp i) s)" "\<forall>x \<in> set (take len (drop (text_position inp i) s)). 0 \<le> x"
    using i(3) unfolding common_prefix_ge by simp_all
  have k: "?k < len" using out i(2) by simp
  then have "?q < length s" using c(1) q by simp
  moreover from this have "s ! ?q < 0" using prep i(1) by (simp add: prepared_def corpus_ok_def)
  moreover have "take len (drop (text_position inp i) s) ! ?k = s ! ?q" using k \<open>?q < length s\<close> q by simp
  moreover have "take len (drop (text_position inp i) s) ! ?k \<in> set (take len (drop (text_position inp i) s))"
    using k c(1) by (intro nth_mem) simp
  ultimately show False using c(2) by fastforce
qed

lemma owner:
  assumes prep: "prepared inp s \<rho>"
    and "p < length s" "ex_file_of inp ! p = Some f"
  shows "f < length (ex_files inp)" "ex_file_offsets inp ! f \<le> p"
    "p - ex_file_offsets inp ! f < length (hashed_tokens (ex_files inp ! f))" "text_position inp (f, p - ex_file_offsets inp ! f) = p"
proof -
  have "f < length (ex_files inp) \<and> ex_file_offsets inp ! f \<le> p \<and> p < ex_file_offsets inp ! f + length (rank_texts \<rho> (ex_files inp) ! f)"
  proof -
    have "\<forall>p < length s. \<forall>f. ex_file_of inp ! p = Some f \<longrightarrow> f < length (rank_texts \<rho> (ex_files inp)) \<and>
        ex_file_offsets inp ! f \<le> p \<and> p < ex_file_offsets inp ! f + length (rank_texts \<rho> (ex_files inp) ! f)"
      using prep unfolding prepared_def corpus_ok_def by (elim conjE)
    then have "f < length (rank_texts \<rho> (ex_files inp)) \<and> ex_file_offsets inp ! f \<le> p \<and>
        p < ex_file_offsets inp ! f + length (rank_texts \<rho> (ex_files inp) ! f)" using assms(2,3) by blast
    then show ?thesis unfolding rank_texts_simps(1) .
  qed
  moreover from this have "length (rank_texts \<rho> (ex_files inp) ! f) = length (hashed_tokens (ex_files inp ! f))" by simp
  ultimately show "f < length (ex_files inp)" "ex_file_offsets inp ! f \<le> p"
    "p - ex_file_offsets inp ! f < length (hashed_tokens (ex_files inp ! f))" "text_position inp (f, p - ex_file_offsets inp ! f) = p"
    by (simp_all add: text_position_def less_diff_conv2 add.commute)
qed

section \<open>Intervals of common prefixes\<close>

lemma common_prefix_trans: "l \<le> common_prefix xs ys \<Longrightarrow> l \<le> common_prefix ys zs \<Longrightarrow> l \<le> common_prefix xs zs"
  unfolding common_prefix_ge by simp

lemma common_prefix_refl: "l \<le> common_prefix xs ys \<Longrightarrow> l \<le> common_prefix xs xs"
  unfolding common_prefix_ge by simp

lemma interval_common:
  assumes "is_suffix_array s sa" "lcp_interval (build_lcp s sa) m b e l" "b \<le> x" "x \<le> y" "y < e" "b < y"
  shows "l \<le> common_prefix (drop (sa ! x) s) (drop (sa ! y) s)"
proof -
  have e: "e \<le> length s" using assms(1,2) by (simp add: lcp_interval_def build_lcp_entries)
  have adj: "l \<le> common_prefix (drop (sa ! j) s) (drop (sa ! Suc j) s)" if "b \<le> j" "Suc j < e" for j
  proof -
    have "Suc j \<in> {Suc b..<e}" using that by simp
    then have "l \<le> build_lcp s sa ! Suc j" using assms(2) unfolding lcp_interval_def open_interval_def by blast
    then show ?thesis using that e by (simp add: build_lcp_entries [OF assms(1)] before_rank_def)
  qed
  have chain: "l \<le> common_prefix (drop (sa ! x) s) (drop (sa ! y) s)" if "b \<le> x" "x < y" "y < e" for x y
    using that(2,3)
  proof (induction y)
    case (Suc y)
    then show ?case using adj [of y] that(1) common_prefix_trans by (cases "x = y") fastforce+
  qed simp
  show ?thesis
  proof (cases "x = y")
    case True
    then have "l \<le> common_prefix (drop (sa ! (x - 1)) s) (drop (sa ! x) s)" using chain [of "x - 1" x] assms(5,6) by simp
    then show ?thesis using common_prefix_refl common_prefix_sym True by metis
  qed (use chain assms(3-5) in simp)
qed

lemma interval_exists:
  assumes sa: "is_suffix_array s sa" and xy: "x < y" "y < length s"
    "m \<le> common_prefix (drop (sa ! x) s) (drop (sa ! y) s)"
  shows "\<exists>b e l. lcp_interval (build_lcp s sa) m b e l \<and> b \<le> x \<and> y < e \<and>
    common_prefix (drop (sa ! x) s) (drop (sa ! y) s) \<le> l"
proof -
  let ?lcp = "build_lcp s sa" and ?L = "common_prefix (drop (sa ! x) s) (drop (sa ! y) s)"
  note b = suffix_array_basics [OF sa]
  have n: "length ?lcp = length s" by (simp add: build_lcp_entries [OF sa])
  have big: "?L \<le> ?lcp ! j" if "j \<in> {Suc x..y}" for j
  proof -
    have j: "x \<le> j - 1" "j - 1 < j" "j \<le> y" "0 < j" "j < length s" using that xy by auto
    have le: "drop (sa ! p) s \<le> drop (sa ! q) s" if "p \<le> q" "q < length s" for p q
      using b(4) [of p q] that by (cases "p = q") (auto simp: less_imp_le)
    have "?L \<le> common_prefix (drop (sa ! p) s) (drop (sa ! y) s)" if "p = j - 1 \<or> p = j" for p
      using common_prefix_between [OF le [of x p] le [of p y]] that j xy by auto
    then have "?L \<le> common_prefix (drop (sa ! (j - 1)) s) (drop (sa ! j) s)"
      using common_prefix_trans common_prefix_sym by metis
    then show ?thesis using j by (simp add: build_lcp_entries [OF sa] before_rank_def)
  qed
  define l where "l = Min ((!) ?lcp ` {Suc x..y})"
  have l: "l \<in> (!) ?lcp ` {Suc x..y}" "\<And>j. j \<in> {Suc x..y} \<Longrightarrow> l \<le> ?lcp ! j"
    unfolding l_def using xy by (auto intro!: Min_in)
  then obtain j where j: "j \<in> {Suc x..y}" "?lcp ! j = l" by auto
  let ?P = "\<lambda>e. y < e \<and> (e = length s \<or> ?lcp ! e < l)"
  define e where "e = (LEAST e. ?P e)"
  have e: "?P e" unfolding e_def by (rule LeastI [of ?P "length s"]) (use xy in simp)
  have e': "e \<le> length s" unfolding e_def by (rule Least_le) (use xy in simp)
  have inner: "l \<le> ?lcp ! k" if "y < k" "k < e" for k
  proof (rule ccontr)
    assume "\<not> l \<le> ?lcp ! k"
    then have "?P k" using that by simp
    then have "e \<le> k" unfolding e_def by (rule Least_le)
    with that show False by simp
  qed
  have "\<forall>k \<in> {j..<e}. ?lcp ! j \<le> ?lcp ! k" using l(2) inner j by (metis Suc_leI atLeastAtMost_iff atLeastLessThan_iff le_trans not_less)
  from open_interval_exists [of j e m ?lcp, OF _ _ _ this] big [OF j(1)] j e xy
  obtain st where st: "st \<le> j" "open_interval ?lcp m e l st" by auto
  have "st \<le> Suc x"
  proof (rule ccontr)
    assume "\<not> st \<le> Suc x"
    then have "st - 1 \<in> {Suc x..y}" "st \<noteq> 1" using st(1) j(1) by auto
    with l(2) [of "st - 1"] st(2) show False by (simp add: open_interval_def)
  qed
  then have "lcp_interval ?lcp m (st - 1) e l \<and> st - 1 \<le> x \<and> y < e \<and> ?L \<le> l"
    using st(2) e e' n big [OF j(1)] j(2) by (auto simp: lcp_interval_def open_interval_def)
  then show ?thesis by blast
qed

section \<open>Every raw group is a set of clones\<close>

definition clone_group :: "FileData list \<Rightarrow> nat \<Rightarrow> RawGroup \<Rightarrow> bool" where
  "clone_group files m g \<longleftrightarrow> m \<le> raw_length g \<and> 2 \<le> length (raw_instances g) \<and>
     sorted_wrt (apart (raw_length g)) (raw_instances g) \<and>
     list_all (\<lambda>i. in_corpus files i (raw_length g) \<and>
       window files i (raw_length g) = window files (hd (raw_instances g)) (raw_length g)) (raw_instances g)"

definition group_input :: "CloneGroupExtractionInput \<Rightarrow> RawGroupInput" where
  "group_input inp =
     (let boundary_prefixes = (if ex_may_have_boundaries inp then build_boundary_prefixes (ex_files inp) else [])
      in \<lparr>rg_sa = ex_sa inp, rg_file_of = ex_file_of inp, rg_file_offsets = ex_file_offsets inp,
          rg_files = ex_files inp, rg_boundary_prefixes = boundary_prefixes,
          rg_has_boundaries = (ex_may_have_boundaries inp \<and> list_ex (\<lambda>p. p \<noteq> None) boundary_prefixes)\<rparr>)"

definition interval_focused :: "CloneGroupExtractionInput \<Rightarrow> nat \<Rightarrow> nat \<Rightarrow> bool" where
  "interval_focused inp b e \<longleftrightarrow> (case ex_focus_file_ids inp of None \<Rightarrow> True
     | Some ids \<Rightarrow> interval_has_focus (build_focus_prefix (ex_sa inp) (ex_file_of inp) ids) b e)"

lemma emit_group_eq:
  "emit_group inp b e l = (if interval_focused inp b e then build_raw_group (group_input inp) b e l else None)"
  by (auto simp: emit_group_def group_input_def interval_focused_def Let_def split: option.splits)

lemma group_input_simps [simp]:
  "rg_sa (group_input inp) = ex_sa inp" "rg_file_of (group_input inp) = ex_file_of inp"
  "rg_file_offsets (group_input inp) = ex_file_offsets inp" "rg_files (group_input inp) = ex_files inp"
  by (simp_all add: group_input_def Let_def)

lemma candidate_instance:
  assumes prep: "prepared inp s \<rho>" and e: "e \<le> length s" and i: "i \<in> set (candidates (group_input inp) b e len)"
  shows "in_corpus (ex_files inp) i len" "\<exists>x. b \<le> x \<and> x < e \<and> ex_sa inp ! x = text_position inp i"
    "rg_has_boundaries (group_input inp) \<Longrightarrow>
       \<not> range_contains_boundary (rg_boundary_prefixes (group_input inp) ! fst i) (snd i) len"
proof -
  have sa: "is_suffix_array s (ex_sa inp)" using prep by (simp add: prepared_def)
  note b = suffix_array_basics [OF sa]
  obtain p where p: "p \<in> set (slice b e (ex_sa inp))" "instance_at (group_input inp) len p = Some i"
    using i by (auto simp: candidates_def map_filter_def)
  then obtain k where "k < length (slice b e (ex_sa inp))" "slice b e (ex_sa inp) ! k = p"
    by (auto simp: in_set_conv_nth)
  then have "k < e - b" "ex_sa inp ! (b + k) = p" using e b(2) by simp_all
  then obtain x where x: "b \<le> x" "x < e" "ex_sa inp ! x = p" using that [of "b + k"] by simp
  have pl: "p < length s" using b(3) [of x] x e by simp
  have f: "ex_file_of inp ! p = Some (fst i)" "snd i = p - ex_file_offsets inp ! fst i"
      "snd i + len \<le> length (hashed_tokens (ex_files inp ! fst i))"
    "rg_has_boundaries (group_input inp) \<Longrightarrow>
       \<not> range_contains_boundary (rg_boundary_prefixes (group_input inp) ! fst i) (snd i) len"
    using p(2) by (auto simp: instance_at_def Let_def split: option.splits if_splits)
  note o = owner [OF prep pl f(1)]
  show "in_corpus (ex_files inp) i len" using o(1) f(3) by (simp add: in_corpus_def)
  show "\<exists>x. b \<le> x \<and> x < e \<and> ex_sa inp ! x = text_position inp i"
    using o(4) x f(2) by (intro exI [of _ x]) (simp add: text_position_def)
  show "rg_has_boundaries (group_input inp) \<Longrightarrow>
       \<not> range_contains_boundary (rg_boundary_prefixes (group_input inp) ! fst i) (snd i) len" by (rule f(4))
qed

lemma raw_groups_are_clones:
  assumes prep: "prepared inp s \<rho>" and g: "g \<in> set (extract_clone_groups inp)"
  shows "clone_group (ex_files inp) (ex_min_tokens inp) g"
proof -
  have sa: "is_suffix_array s (ex_sa inp)" "ex_lcp inp = build_lcp s (ex_sa inp)" "1 \<le> ex_min_tokens inp"
    using prep by (simp_all add: prepared_def)
  note bas = suffix_array_basics [OF sa(1)]
  have n: "length (ex_lcp inp) = length (ex_sa inp)" using bas(2) by (simp add: sa(2) build_lcp_entries [OF sa(1)])
  obtain b e l where i: "lcp_interval (ex_lcp inp) (ex_min_tokens inp) b e l" "build_raw_group (group_input inp) b e l = Some g"
    using g extracted_intervals [OF n sa(3)] by (auto simp: emit_group_eq split: if_splits)
  have l: "1 \<le> l" "ex_min_tokens inp \<le> l" "e \<le> length s" "Suc b < e" using i(1) sa(3) bas(2) n
    by (auto simp: lcp_interval_def open_interval_def)
  have th: "raw_length g = l" "2 \<le> length (raw_instances g)" "thinned l (candidates (group_input inp) b e l) (raw_instances g)"
    using build_raw_group_thinned [OF i(2) l(1)] by simp_all
  have cand: "x \<in> set (candidates (group_input inp) b e l)" if "x \<in> set (raw_instances g)" for x
    using th(3) that by (auto simp: thinned_def)
  have same: "window (ex_files inp) i l = window (ex_files inp) j l" if "i \<in> set (raw_instances g)" "j \<in> set (raw_instances g)" for i j
  proof -
    note ci = candidate_instance [OF prep l(3) cand [OF that(1)]] and cj = candidate_instance [OF prep l(3) cand [OF that(2)]]
    obtain x y where xy: "b \<le> x" "x < e" "ex_sa inp ! x = text_position inp i" "b \<le> y" "y < e" "ex_sa inp ! y = text_position inp j"
      using ci(2) cj(2) by blast
    have iv: "lcp_interval (build_lcp s (ex_sa inp)) (ex_min_tokens inp) b e l" using i(1) by (simp add: sa(2))
    show ?thesis
    proof (cases "ex_sa inp ! x = ex_sa inp ! y")
      case True
      then have "i = j"
      proof -
        have "ex_file_of inp ! text_position inp i = Some (fst i)" "ex_file_of inp ! text_position inp j = Some (fst j)"
          using file_in_text(3) [OF prep, of "fst i" "snd i"] file_in_text(3) [OF prep, of "fst j" "snd j"] ci(1) cj(1) l(1)
          by (simp_all add: in_corpus_def text_position_def)
        with True xy show ?thesis by (auto simp: text_position_def prod_eq_iff)
      qed
      then show ?thesis by simp
    next
      case False
      then consider "x < y" | "y < x" by fastforce
      then have "l \<le> common_prefix (drop (ex_sa inp ! x) s) (drop (ex_sa inp ! y) s)"
        using interval_common [OF sa(1) iv xy(1) _ xy(5)] interval_common [OF sa(1) iv xy(4) _ xy(2)] xy
        by cases (auto simp: common_prefix_sym)
      then show ?thesis using same_windows [OF prep ci(1) cj(1)] xy by simp
    qed
  qed
  have "hd (raw_instances g) \<in> set (raw_instances g)" using th(2) by (intro hd_in_set) auto
  then have "\<forall>i \<in> set (raw_instances g). in_corpus (ex_files inp) i l \<and>
      window (ex_files inp) i l = window (ex_files inp) (hd (raw_instances g)) l"
    using same cand candidate_instance(1) [OF prep l(3)] by blast
  then show ?thesis using th l(2) unfolding clone_group_def list_all_iff thinned_def by blast
qed

section \<open>Every pair of clones is in a raw group\<close>

lemma focus_prefix_counts:
  "length (build_focus_prefix sa fo ids) = Suc (length sa) \<and>
   (\<forall>k \<le> length sa. build_focus_prefix sa fo ids ! k = length (filter (is_focused fo ids) (take k sa)))"
proof (induction sa rule: rev_induct)
  case (snoc x sa)
  let ?p = "build_focus_prefix sa fo ids"
  have step: "build_focus_prefix (sa @ [x]) fo ids = ?p @ [last ?p + (if is_focused fo ids x then 1 else 0)]"
    by (simp add: build_focus_prefix_def)
  have "last ?p = ?p ! length sa" using snoc by (subst last_conv_nth) auto
  then have "last ?p = length (filter (is_focused fo ids) sa)" using snoc by simp
  then show ?case using snoc by (auto simp: step nth_append le_Suc_eq)
qed (simp add: build_focus_prefix_def)

lemma interval_focusedI:
  assumes "b \<le> x" "x < e" "e \<le> length (ex_sa inp)" "\<And>ids. ex_focus_file_ids inp = Some ids \<Longrightarrow> is_focused (ex_file_of inp) ids (ex_sa inp ! x)"
  shows "interval_focused inp b e"
proof (cases "ex_focus_file_ids inp")
  case (Some ids)
  let ?P = "is_focused (ex_file_of inp) ids"
  have "take e (ex_sa inp) = take b (ex_sa inp) @ slice b e (ex_sa inp)"
    using assms(1,2) by (simp add: slice_def) (metis le_add_diff_inverse less_imp_le le_less_trans take_add)
  moreover have "ex_sa inp ! x \<in> set (slice b e (ex_sa inp))"
    using assms(1-3) nth_mem [of "x - b" "slice b e (ex_sa inp)"] by simp
  then have "filter ?P (slice b e (ex_sa inp)) \<noteq> []" using assms(4) [OF Some] by (auto simp: filter_empty_conv)
  ultimately show ?thesis using Some assms(1-3)
    by (simp add: interval_focused_def interval_has_focus_def focus_prefix_counts)
qed (simp add: interval_focused_def)

definition lies_in :: "nat \<times> nat \<Rightarrow> RawGroup \<Rightarrow> bool" where
  "lies_in i g \<longleftrightarrow> list_ex (\<lambda>d. covers_instance (raw_length g) d i) (raw_instances g)"

definition has_boundary :: "FileData \<Rightarrow> bool" where
  "has_boundary f \<longleftrightarrow> list_ex (\<lambda>t. hashed_token_is_boundary f (original_index t)) (hashed_tokens f)"

lemma clones_are_in_raw_groups:
  assumes prep: "prepared inp s \<rho>"
    and ij: "in_corpus (ex_files inp) i len" "in_corpus (ex_files inp) j len" "fst i \<noteq> fst j"
    and same: "window (ex_files inp) i len = window (ex_files inp) j len" "ex_min_tokens inp \<le> len"
    and plain: "\<forall>f \<in> set (ex_files inp). \<not> has_boundary f"
    and focus: "case ex_focus_file_ids inp of None \<Rightarrow> True | Some ids \<Rightarrow> fst i < length ids \<and> ids ! fst i"
  shows "\<exists>g \<in> set (extract_clone_groups inp). len \<le> raw_length g \<and> lies_in i g \<and> lies_in j g"
proof -
  have sa: "is_suffix_array s (ex_sa inp)" "ex_lcp inp = build_lcp s (ex_sa inp)" "1 \<le> ex_min_tokens inp"
    using prep by (simp_all add: prepared_def)
  note bas = suffix_array_basics [OF sa(1)]
  have n: "length (ex_lcp inp) = length (ex_sa inp)" using bas(2) by (simp add: sa(2) build_lcp_entries [OF sa(1)])
  have at: "text_position inp k < length s" "ex_file_of inp ! text_position inp k = Some (fst k)"
    if "in_corpus (ex_files inp) k len" for k
    using file_in_text [OF prep, of "fst k" "snd k"] that same(2) sa(3) by (simp_all add: in_corpus_def text_position_def)
  obtain x y where xy: "x < length s" "ex_sa inp ! x = text_position inp i" "y < length s" "ex_sa inp ! y = text_position inp j"
    using suffix_array_position [OF sa(1) at(1) [OF ij(1)]] suffix_array_position [OF sa(1) at(1) [OF ij(2)]] by metis
  have ne: "x \<noteq> y" using xy at(2) [OF ij(1)] at(2) [OF ij(2)] ij(3) by auto
  have cp: "len \<le> common_prefix (drop (ex_sa inp ! x) s) (drop (ex_sa inp ! y) s)"
    using same_windows [OF prep ij(1,2)] same(1) xy by simp
  have "\<exists>b e l. lcp_interval (build_lcp s (ex_sa inp)) (ex_min_tokens inp) b e l \<and> b \<le> min x y \<and> max x y < e \<and> len \<le> l"
  proof (cases x y rule: linorder_cases)
    case less
    then show ?thesis using interval_exists [OF sa(1) less xy(3) order.trans [OF same(2) cp]] cp
      by (simp add: min_def max_def) (meson order.trans)
  next
    case greater
    have cp': "len \<le> common_prefix (drop (ex_sa inp ! y) s) (drop (ex_sa inp ! x) s)" using cp by (simp add: common_prefix_sym)
    then show ?thesis using interval_exists [OF sa(1) greater xy(1) order.trans [OF same(2) cp']] greater
      by (simp add: min_def max_def) (meson order.trans)
  qed (use ne in simp)
  then obtain b e l where iv: "lcp_interval (ex_lcp inp) (ex_min_tokens inp) b e l" "b \<le> x" "b \<le> y" "x < e" "y < e" "len \<le> l"
    by (auto simp: sa(2))
  have e: "e \<le> length s" using iv(1) bas(2) n by (simp add: lcp_interval_def)
  have nb: "\<not> rg_has_boundaries (group_input inp)"
    using plain by (auto simp: group_input_def Let_def list_ex_iff build_boundary_prefixes_def boundary_prefix_def has_boundary_def)
  have cand: "k \<in> set (candidates (group_input inp) b e l)"
    if k: "in_corpus (ex_files inp) k len" "b \<le> z" "z < e" "ex_sa inp ! z = text_position inp k" for k z
  proof -
    have self: "l \<le> common_prefix (drop (text_position inp k) s) (drop (text_position inp k) s)"
    proof (cases "b < z")
      case True
      then show ?thesis using interval_common [OF sa(1) iv(1) [unfolded sa(2)], of z z] k by simp
    next
      case False
      then have "l \<le> common_prefix (drop (ex_sa inp ! z) s) (drop (ex_sa inp ! Suc b) s)"
        using interval_common [OF sa(1) iv(1) [unfolded sa(2)], of z "Suc b"] k iv(1)
        by (simp add: lcp_interval_def open_interval_def)
      then show ?thesis using common_prefix_refl k(4) by metis
    qed
    have "in_corpus (ex_files inp) k l" using inside_file [OF prep _ _ self] k(1) by (simp add: in_corpus_def)
    then have "instance_at (group_input inp) l (ex_sa inp ! z) = Some k"
      using at(2) [OF k(1)] nb k(4) by (simp add: instance_at_def in_corpus_def text_position_def Let_def)
    moreover have "ex_sa inp ! z \<in> set (slice b e (ex_sa inp))"
      using nth_mem [of "z - b" "slice b e (ex_sa inp)"] k(2,3) e bas(2) by simp
    ultimately show ?thesis by (force simp: candidates_def map_filter_def)
  qed
  have c: "i \<in> set (candidates (group_input inp) b e l)" "j \<in> set (candidates (group_input inp) b e l)"
    using cand [OF ij(1) iv(2,4) xy(2)] cand [OF ij(2) iv(3,5) xy(4)] by blast+
  have l: "1 \<le> l" using iv(6) same(2) sa(3) by simp
  obtain g where g: "build_raw_group (group_input inp) b e l = Some g" using build_raw_group_some [OF c ij(3) l] by blast
  have "interval_focused inp b e"
    using interval_focusedI [OF iv(2,4), of inp] e bas(2) focus at [OF ij(1)] xy(2) prep
    by (auto simp: is_focused_def prepared_def corpus_ok_def sentinels_ok_def split: option.splits)
  then have "g \<in> set (extract_clone_groups inp)"
    using extracted_intervals [OF n sa(3)] iv(1) g by (auto simp: emit_group_eq)
  moreover have "raw_length g = l" "thinned l (candidates (group_input inp) b e l) (raw_instances g)"
    using build_raw_group_thinned [OF g l] by simp_all
  ultimately show ?thesis using c iv(6) by (auto simp: lies_in_def list_ex_iff thinned_def)
qed

end
