(* ===== verification/Shingle_Filter.thy ===== *)
theory Shingle_Filter
  imports Clone_Tokens Suppressions
begin

text \<open>
  The prefilter of the duplicate analysis
  (\<^verbatim>\<open>crates/core/src/duplicates/shingle_filter.rs\<close>): files without a window of tokens that
  occurs a second time, or that occurs in a focused file, are dropped before the detector runs.
  The polynomial hash of windows, which the rolling detector uses with another base, is here
  too.  \<open>fx\<close> stands for the hasher of the focused shingles and \<open>simplified\<close> for the path
  simplification, both from other crates.
\<close>

section \<open>The polynomial hash of a window\<close>

definition base_power :: "u64 \<Rightarrow> nat \<Rightarrow> u64" where
  "base_power base len = fold (\<lambda>_ power. power * base) [1..<len] 1"

definition window_hash :: "u64 \<Rightarrow> u64 list \<Rightarrow> u64" where
  "window_hash base ws = fold (\<lambda>w hash. hash * base + w) ws 0"

definition roll_hash :: "u64 \<Rightarrow> u64 \<Rightarrow> u64 \<Rightarrow> u64 \<Rightarrow> u64 \<Rightarrow> u64" where
  "roll_hash base pw hash outgoing incoming = (hash - outgoing * pw) * base + incoming"

lemma base_power_eq: "base_power base (Suc n) = base ^ n"
  by (induction n) (simp_all add: base_power_def mult.commute)

lemma window_hash_start: "fold (\<lambda>w hash. hash * base + w) ws h = h * base ^ length ws + window_hash base ws"
proof (induction ws arbitrary: h)
  case (Cons w ws)
  have "fold (\<lambda>w hash. hash * base + w) (w # ws) h = (h * base + w) * base ^ length ws + window_hash base ws"
    using Cons.IH [of "h * base + w"] by simp
  moreover have "window_hash base (w # ws) = w * base ^ length ws + window_hash base ws"
    using Cons.IH [of w] by (simp add: window_hash_def)
  ultimately show ?case by (simp add: algebra_simps)
qed (simp add: window_hash_def)

lemma window_hash_simps [simp]:
  "window_hash base [] = 0" "window_hash base (w # ws) = w * base ^ length ws + window_hash base ws"
  "window_hash base (ws @ [w]) = window_hash base ws * base + w"
  using window_hash_start [of base ws w] by (simp_all add: window_hash_def)

text \<open>Rolling gives the hash of the next window.\<close>

lemma roll_hash_window:
  "roll_hash base (base_power base (Suc (length ws))) (window_hash base (w # ws)) w x = window_hash base (ws @ [x])"
  by (simp add: roll_hash_def base_power_eq)

section \<open>Rolling shingles\<close>

definition GLOBAL_SHINGLE_BASE :: u64 where
  "GLOBAL_SHINGLE_BASE = 1000003"

definition DEFAULT_SHINGLE_TOKENS :: nat where
  "DEFAULT_SHINGLE_TOKENS = 7"

text \<open>The hashes the loop visits, in order.\<close>

definition rolling_shingle_hashes :: "HashedToken list \<Rightarrow> nat \<Rightarrow> u64 list" where
  "rolling_shingle_hashes toks width =
     (if length toks < width then []
      else (let pw = base_power GLOBAL_SHINGLE_BASE width;
                hash = window_hash GLOBAL_SHINGLE_BASE (map token_hash (take width toks))
            in snd (fold (\<lambda>i (hash, visited).
                 (let hash = roll_hash GLOBAL_SHINGLE_BASE pw hash
                        (token_hash (toks ! (i - width))) (token_hash (toks ! i))
                  in (hash, visited @ [hash])))
               [width..<length toks] (hash, [hash]))))"

definition shingle_at :: "HashedToken list \<Rightarrow> nat \<Rightarrow> nat \<Rightarrow> u64 list" where
  "shingle_at toks i width = map token_hash (slice i (i + width) toks)"

lemma length_shingle_at: "i + width \<le> length toks \<Longrightarrow> length (shingle_at toks i width) = width"
  by (simp add: shingle_at_def)

lemma shingle_at_nth: "i + width \<le> length toks \<Longrightarrow> k < width \<Longrightarrow> shingle_at toks i width ! k = token_hash (toks ! (i + k))"
  by (simp add: shingle_at_def)

lemma shingle_at_roll:
  assumes "i + Suc width < length toks"
  obtains ws where "shingle_at toks i (Suc width) = token_hash (toks ! i) # ws" "length ws = width"
    "shingle_at toks (Suc i) (Suc width) = ws @ [token_hash (toks ! (i + Suc width))]"
proof
  let ?ws = "shingle_at toks (Suc i) width"
  show "shingle_at toks i (Suc width) = token_hash (toks ! i) # ?ws"
  proof (rule nth_equalityI)
    fix k assume "k < length (shingle_at toks i (Suc width))"
    then show "shingle_at toks i (Suc width) ! k = (token_hash (toks ! i) # ?ws) ! k"
      using assms by (cases k) (simp_all add: shingle_at_nth length_shingle_at)
  qed (use assms in \<open>simp add: length_shingle_at\<close>)
  show "length ?ws = width" using assms by (simp add: length_shingle_at)
  show "shingle_at toks (Suc i) (Suc width) = ?ws @ [token_hash (toks ! (i + Suc width))]"
  proof (rule nth_equalityI)
    fix k assume "k < length (shingle_at toks (Suc i) (Suc width))"
    then have "k < width \<or> k = width" using assms by (auto simp: length_shingle_at)
    then show "shingle_at toks (Suc i) (Suc width) ! k = (?ws @ [token_hash (toks ! (i + Suc width))]) ! k"
      using assms by (auto simp: shingle_at_nth length_shingle_at nth_append)
  qed (use assms in \<open>simp add: length_shingle_at\<close>)
qed

lemma rolling_shingle_hashes_eq:
  assumes "1 \<le> width" "width \<le> length toks"
  shows "rolling_shingle_hashes toks width =
    map (\<lambda>i. window_hash GLOBAL_SHINGLE_BASE (shingle_at toks i width)) [0..<Suc (length toks - width)]"
proof -
  obtain w where w: "width = Suc w" using assms(1) by (cases width) auto
  let ?b = "GLOBAL_SHINGLE_BASE"
  let ?h = "\<lambda>i. window_hash ?b (shingle_at toks i width)"
  let ?f = "\<lambda>i (hash, visited). (let hash = roll_hash ?b (base_power ?b width) hash
                        (token_hash (toks ! (i - width))) (token_hash (toks ! i))
                  in (hash, visited @ [hash]))"
  have first: "map token_hash (take width toks) = shingle_at toks 0 width" by (simp add: shingle_at_def slice_def)
  have "width + d \<le> length toks \<Longrightarrow> fold ?f [width..<width + d] (?h 0, [?h 0]) = (?h d, map ?h [0..<Suc d])" for d
  proof (induction d)
    case (Suc d)
    obtain ws where ws: "shingle_at toks d (Suc w) = token_hash (toks ! d) # ws" "length ws = w"
        "shingle_at toks (Suc d) (Suc w) = ws @ [token_hash (toks ! (d + Suc w))]"
      by (rule shingle_at_roll [of d w toks]) (use Suc.prems w in simp_all)
    have "roll_hash ?b (base_power ?b width) (?h d) (token_hash (toks ! d)) (token_hash (toks ! (width + d))) = ?h (Suc d)"
      using roll_hash_window [of ?b ws "token_hash (toks ! d)"] ws unfolding w by (simp only: add.commute)
    moreover have "fold ?f [width..<width + d] (?h 0, [?h 0]) = (?h d, map ?h [0..<Suc d])" using Suc by simp
    ultimately show ?case by (simp del: upt_Suc add: Let_def upt_Suc_append [of width "width + d"] upt_Suc_append [of 0 "Suc d"])
  qed simp
  from this [of "length toks - width"] show ?thesis
    using assms(2) by (simp add: rolling_shingle_hashes_def Let_def first del: upt_Suc)
qed

section \<open>The filters\<close>

record TokenizedFile =
  tf_path :: path
  tf_hashed_tokens :: "HashedToken list"
  tf_file_tokens :: FileTokens
  tf_cache_hit :: bool
  tf_suppressions :: "Suppression list"

definition note_shingle :: "u64 \<Rightarrow> u64 set \<times> u64 set \<Rightarrow> u64 set \<times> u64 set" where
  "note_shingle hash st = (case st of (seen, duplicates) \<Rightarrow>
     (if hash \<in> seen then (seen, insert hash duplicates) else (insert hash seen, duplicates)))"

definition find_duplicate_shingles :: "TokenizedFile list \<Rightarrow> nat \<Rightarrow> u64 set" where
  "find_duplicate_shingles files width =
     snd (fold (\<lambda>file st.
       if length (tf_hashed_tokens file) < width then st
       else fold note_shingle (rolling_shingle_hashes (tf_hashed_tokens file) width) st) files ({}, {}))"

definition has_matching_rolling_shingle :: "HashedToken list \<Rightarrow> nat \<Rightarrow> u64 set \<Rightarrow> bool" where
  "has_matching_rolling_shingle toks width duplicate_shingles =
     fold (\<lambda>hash matches. matches \<or> hash \<in> duplicate_shingles) (rolling_shingle_hashes toks width) False"

definition filter_to_duplicate_candidates :: "TokenizedFile list \<Rightarrow> nat \<Rightarrow> TokenizedFile list" where
  "filter_to_duplicate_candidates files min_tokens =
     (let width = max min_tokens 1; duplicate_shingles = find_duplicate_shingles files width
      in if duplicate_shingles = {} then []
         else filter (\<lambda>file. has_matching_rolling_shingle (tf_hashed_tokens file) width duplicate_shingles) files)"

definition path_is_focus :: "(path \<Rightarrow> path) \<Rightarrow> path set \<Rightarrow> path \<Rightarrow> bool" where
  "path_is_focus simplified focus_files p \<longleftrightarrow> simplified p \<in> simplified ` focus_files"

definition shingle_windows :: "HashedToken list \<Rightarrow> nat \<Rightarrow> u64 list list" where
  "shingle_windows toks width =
     (if length toks < width then [] else map (\<lambda>i. shingle_at toks i width) [0..<Suc (length toks - width)])"

definition insert_shingles :: "(u64 list \<Rightarrow> u64) \<Rightarrow> HashedToken list \<Rightarrow> nat \<Rightarrow> u64 set \<Rightarrow> u64 set" where
  "insert_shingles fx toks width out = fold (\<lambda>shingle out. insert (fx shingle) out) (shingle_windows toks width) out"

definition has_matching_shingle :: "(u64 list \<Rightarrow> u64) \<Rightarrow> HashedToken list \<Rightarrow> nat \<Rightarrow> u64 set \<Rightarrow> bool" where
  "has_matching_shingle fx toks width focus_shingles \<longleftrightarrow>
     length toks \<ge> width \<and> list_ex (\<lambda>shingle. fx shingle \<in> focus_shingles) (shingle_windows toks width)"

definition filter_to_focus_candidates ::
  "(u64 list \<Rightarrow> u64) \<Rightarrow> (path \<Rightarrow> path) \<Rightarrow> TokenizedFile list \<Rightarrow> path set \<Rightarrow> nat \<Rightarrow> TokenizedFile list" where
  "filter_to_focus_candidates fx simplified files focus_files min_tokens =
     (let width = max 1 (min min_tokens DEFAULT_SHINGLE_TOKENS);
          is_focus = path_is_focus simplified focus_files;
          focus_shingles = fold (\<lambda>file out. insert_shingles fx (tf_hashed_tokens file) width out)
            (filter (\<lambda>file. is_focus (tf_path file)) files) {}
      in if focus_shingles = {} then files
         else filter (\<lambda>file. if is_focus (tf_path file) then True
           else has_matching_shingle fx (tf_hashed_tokens file) width focus_shingles) files)"

section \<open>No duplicate is dropped\<close>

definition occurs_in :: "u64 list \<Rightarrow> nat \<times> nat \<Rightarrow> TokenizedFile list \<Rightarrow> bool" where
  "occurs_in ws i files \<longleftrightarrow> fst i < length files \<and> snd i + length ws \<le> length (tf_hashed_tokens (files ! fst i)) \<and>
     shingle_at (tf_hashed_tokens (files ! fst i)) (snd i) (length ws) = ws"

lemma note_shingle_fold:
  "snd (fold note_shingle hs (S, D)) = D \<union> {h \<in> set hs. h \<in> S \<or> 2 \<le> count_list hs h} \<and>
   fst (fold note_shingle hs (S, D)) = S \<union> set hs"
proof (induction hs arbitrary: S D)
  case (Cons h hs)
  have pos: "x \<in> set hs \<longleftrightarrow> 1 \<le> count_list hs x" for x using count_list_0_iff [of hs x] by linarith
  show ?case
  proof (cases "h \<in> S")
    case True
    then show ?thesis using Cons [of S "insert h D"] by (auto simp: note_shingle_def pos)
  next
    case False
    then show ?thesis using Cons [of "insert h S" D] by (auto simp: note_shingle_def pos)
  qed
qed simp

definition file_hashes_of :: "nat \<Rightarrow> TokenizedFile \<Rightarrow> u64 list" where
  "file_hashes_of width file = (if length (tf_hashed_tokens file) < width then []
     else rolling_shingle_hashes (tf_hashed_tokens file) width)"

lemma find_duplicate_shingles_eq:
  "find_duplicate_shingles files width = {h. 2 \<le> count_list (concat (map (file_hashes_of width) files)) h}"
proof -
  have "fold (\<lambda>file st. if length (tf_hashed_tokens file) < width then st
       else fold note_shingle (rolling_shingle_hashes (tf_hashed_tokens file) width) st) files st =
      fold note_shingle (concat (map (file_hashes_of width) files)) st" for st
    by (induction files arbitrary: st) (simp_all add: file_hashes_of_def)
  then have "find_duplicate_shingles files width =
      {h \<in> set (concat (map (file_hashes_of width) files)). 2 \<le> count_list (concat (map (file_hashes_of width) files)) h}"
    using note_shingle_fold [of "concat (map (file_hashes_of width) files)" "{}" "{}"]
    by (simp add: find_duplicate_shingles_def)
  then show ?thesis using count_list_0_iff by fastforce
qed

lemma count_list_two:
  assumes "k < length xs" "l < length xs" "k \<noteq> l" "xs ! k = x" "xs ! l = x"
  shows "2 \<le> count_list xs x"
proof -
  have "card {k, l} \<le> card {i. i < length xs \<and> xs ! i = x}" using assms by (intro card_mono) auto
  moreover have "count_list xs x = card {i. i < length xs \<and> xs ! i = x}"
    by (simp add: count_list_eq_length_filter length_filter_conv_card eq_commute)
  ultimately show ?thesis using assms(3) by simp
qed

lemma count_list_concat:
  "count_list (concat xss) x = sum_list (map (\<lambda>xs. count_list xs x) xss)"
  by (induction xss) (simp_all add: count_list_append)

lemma count_list_concat_two:
  assumes "i < length xss" "j < length xss" "k < length (xss ! i)" "l < length (xss ! j)" "(i, k) \<noteq> (j, l)"
    "xss ! i ! k = x" "xss ! j ! l = x"
  shows "2 \<le> count_list (concat xss) x"
proof (cases "i = j")
  case True
  then have "2 \<le> count_list (xss ! i) x" using count_list_two [of k "xss ! i" l x] assms by simp
  also have "\<dots> \<le> sum_list (map (\<lambda>xs. count_list xs x) xss)"
    using assms(1) by (intro member_le_sum_list) auto
  finally show ?thesis by (simp add: count_list_concat)
next
  case False
  have one: "1 \<le> count_list (xss ! m) x" if "n < length (xss ! m)" "xss ! m ! n = x" for m n
    using count_list_0_iff [of "xss ! m" x] nth_mem [OF that(1)] that(2) by (metis One_nat_def Suc_leI neq0_conv)
  have "(\<Sum>m \<in> {i, j}. count_list (xss ! m) x) \<le> (\<Sum>m < length xss. count_list (xss ! m) x)"
    using assms by (intro sum_mono2) auto
  moreover have "(\<Sum>m < length xss. count_list (xss ! m) x) = count_list (concat xss) x"
    by (simp add: count_list_concat sum_list_sum_nth atLeast0LessThan)
  ultimately show ?thesis using one [of k i] one [of l j] assms False by simp
qed

lemma duplicate_shingle:
  assumes "occurs_in ws i files" "occurs_in ws j files" "i \<noteq> j" "1 \<le> length ws"
  shows "window_hash GLOBAL_SHINGLE_BASE ws \<in> find_duplicate_shingles files (length ws)"
    "window_hash GLOBAL_SHINGLE_BASE ws \<in> set (rolling_shingle_hashes (tf_hashed_tokens (files ! fst i)) (length ws))"
proof -
  let ?h = "window_hash GLOBAL_SHINGLE_BASE ws"
  have at: "snd x < length (file_hashes_of (length ws) (files ! fst x))" "file_hashes_of (length ws) (files ! fst x) ! snd x = ?h"
    "file_hashes_of (length ws) (files ! fst x) = rolling_shingle_hashes (tf_hashed_tokens (files ! fst x)) (length ws)"
    if "occurs_in ws x files" for x
    using that assms(4) by (auto simp: occurs_in_def file_hashes_of_def rolling_shingle_hashes_eq simp del: upt_Suc)
  have "2 \<le> count_list (concat (map (file_hashes_of (length ws)) files)) ?h"
    by (rule count_list_concat_two [of "fst i" _ "fst j" "snd i" "snd j"])
      (use assms at in \<open>auto simp: occurs_in_def prod_eq_iff\<close>)
  then show "?h \<in> find_duplicate_shingles files (length ws)" by (simp add: find_duplicate_shingles_eq)
  show "?h \<in> set (rolling_shingle_hashes (tf_hashed_tokens (files ! fst i)) (length ws))"
    using at [OF assms(1)] nth_mem by metis
qed

lemma occurs_in_take:
  assumes "occurs_in ws i files" "n \<le> length ws"
  shows "occurs_in (take n ws) i files"
proof -
  let ?t = "tf_hashed_tokens (files ! fst i)"
  have "shingle_at ?t (snd i) n = take n (shingle_at ?t (snd i) (length ws))"
    using assms(2) by (simp add: shingle_at_def slice_def take_map min_def)
  then show ?thesis using assms by (simp add: occurs_in_def)
qed

lemma fold_or: "fold (\<lambda>h m. m \<or> P h) hs b \<longleftrightarrow> b \<or> list_ex P hs"
  by (induction hs arbitrary: b) auto

lemma duplicate_candidates_kept:
  assumes "occurs_in ws i files" "occurs_in ws j files" "i \<noteq> j" "max min_tokens 1 \<le> length ws"
  obtains p where "filter_to_duplicate_candidates files min_tokens = filter p files" "p (files ! fst i)" "p (files ! fst j)"
proof -
  let ?w = "max min_tokens 1"
  let ?p = "\<lambda>file. has_matching_rolling_shingle (tf_hashed_tokens file) ?w (find_duplicate_shingles files ?w)"
  have o: "occurs_in (take ?w ws) i files" "occurs_in (take ?w ws) j files" "length (take ?w ws) = ?w"
    using occurs_in_take assms by simp_all
  have d: "window_hash GLOBAL_SHINGLE_BASE (take ?w ws) \<in> find_duplicate_shingles files ?w"
    "window_hash GLOBAL_SHINGLE_BASE (take ?w ws) \<in> set (rolling_shingle_hashes (tf_hashed_tokens (files ! fst i)) ?w)"
    "window_hash GLOBAL_SHINGLE_BASE (take ?w ws) \<in> set (rolling_shingle_hashes (tf_hashed_tokens (files ! fst j)) ?w)"
    using duplicate_shingle [OF o(1,2) assms(3)] duplicate_shingle(2) [OF o(2,1)] assms(3) o(3) by (simp_all only: o(3))
  show thesis
  proof (rule that)
    show "filter_to_duplicate_candidates files min_tokens = filter ?p files"
      using d(1) by (auto simp: filter_to_duplicate_candidates_def Let_def)
    show "?p (files ! fst i)" "?p (files ! fst j)"
      using d by (auto simp: has_matching_rolling_shingle_def fold_or list_ex_iff)
  qed
qed

lemma insert_shingles_eq: "insert_shingles fx toks width out = out \<union> fx ` set (shingle_windows toks width)"
proof -
  have "fold (\<lambda>s out. insert (fx s) out) ss out = out \<union> fx ` set ss" for ss
    by (induction ss arbitrary: out) auto
  then show ?thesis by (simp add: insert_shingles_def)
qed

lemma occurs_in_windows: "occurs_in ws i files \<Longrightarrow> ws \<in> set (shingle_windows (tf_hashed_tokens (files ! fst i)) (length ws))"
  by (auto simp: occurs_in_def shingle_windows_def simp del: upt_Suc intro!: image_eqI [where x = "snd i"])

lemma focus_candidates_kept:
  assumes "occurs_in ws i files" "occurs_in ws j files" "min_tokens \<le> length ws" "1 \<le> length ws"
    and focus: "path_is_focus simplified focus_files (tf_path (files ! fst i))"
  obtains p where "filter_to_focus_candidates fx simplified files focus_files min_tokens = filter p files"
    "p (files ! fst i)" "p (files ! fst j)"
proof -
  let ?w = "max 1 (min min_tokens DEFAULT_SHINGLE_TOKENS)"
  let ?is = "path_is_focus simplified focus_files"
  define F where "F = fold (\<lambda>file out. insert_shingles fx (tf_hashed_tokens file) ?w out) (filter (\<lambda>file. ?is (tf_path file)) files) {}"
  let ?p = "\<lambda>file. F = {} \<or> ?is (tf_path file) \<or> has_matching_shingle fx (tf_hashed_tokens file) ?w F"
  have w: "?w \<le> length ws" using assms(3,4) by simp
  have o: "occurs_in (take ?w ws) i files" "occurs_in (take ?w ws) j files" "length (take ?w ws) = ?w"
    using occurs_in_take assms(1,2) w by simp_all
  have F: "F = \<Union>((\<lambda>file. fx ` set (shingle_windows (tf_hashed_tokens file) ?w)) ` {file \<in> set files. ?is (tf_path file)})"
  proof -
    have "fold (\<lambda>file out. insert_shingles fx (tf_hashed_tokens file) ?w out) fs out =
        out \<union> \<Union>((\<lambda>file. fx ` set (shingle_windows (tf_hashed_tokens file) ?w)) ` set fs)" for fs out
      by (induction fs arbitrary: out) (auto simp: insert_shingles_eq)
    from this [of "filter (\<lambda>file. ?is (tf_path file)) files" "{}"] show ?thesis unfolding F_def by simp
  qed
  have "files ! fst i \<in> set files" using assms(1) by (simp add: occurs_in_def)
  then have "fx (take ?w ws) \<in> F" using F occurs_in_windows [OF o(1)] o(3) focus by auto
  then have "has_matching_shingle fx (tf_hashed_tokens (files ! fst j)) ?w F"
    using occurs_in_windows [OF o(2)] o(2,3) by (auto simp: has_matching_shingle_def list_ex_iff occurs_in_def)
  then have "?p (files ! fst j)" "?p (files ! fst i)" using focus by simp_all
  moreover have "filter_to_focus_candidates fx simplified files focus_files min_tokens = filter ?p files"
  proof -
    have "filter_to_focus_candidates fx simplified files focus_files min_tokens = (if F = {} then files
        else filter (\<lambda>file. if ?is (tf_path file) then True else has_matching_shingle fx (tf_hashed_tokens file) ?w F) files)"
      unfolding filter_to_focus_candidates_def Let_def F_def by (rule refl)
    then show ?thesis by (cases "F = {}") (simp_all add: disj_imp)
  qed
  ultimately show thesis using that by blast
qed

end
