(* ===== verification/Rolling_Detector.thy ===== *)
theory Rolling_Detector
  imports Raw_Clones Shingle_Filter "HOL-Library.AList"
begin

text \<open>
  The rolling-hash detector (\<^verbatim>\<open>crates/core/src/duplicates/detect/rolling.rs\<close>): windows of the
  minimal length are grouped into seed classes by a rolling hash and a comparison, and classes
  that no token to the left extends are extended to the right.  An occurrence is the pair of
  its file and its offset.  A hash map is an association list; \<open>bucket_order\<close> and
  \<open>child_order\<close> stand for the orders in which the maps are iterated.
\<close>

section \<open>Seed classes\<close>

type_synonym Occurrence = "nat \<times> nat"

datatype SeedOccurrences = One_Occurrence Occurrence | Many_Occurrences "Occurrence list"

record SeedClass =
  key_file_id :: nat
  key_offset :: nat
  seed_occurrences :: SeedOccurrences

datatype SeedBucket = One_Class SeedClass | Many_Classes "SeedClass list"

definition HASH_BASE :: u64 where
  "HASH_BASE = 0x100000001b3"

definition MAX_ADJACENCY_LOOKAHEAD_PAIRS :: nat where
  "MAX_ADJACENCY_LOOKAHEAD_PAIRS = 512"

fun push_occurrence :: "Occurrence \<Rightarrow> SeedOccurrences \<Rightarrow> SeedOccurrences" where
  "push_occurrence occ (One_Occurrence fst_occ) = Many_Occurrences [fst_occ, occ]"
| "push_occurrence occ (Many_Occurrences occs) = Many_Occurrences (occs @ [occ])"

fun into_many :: "SeedOccurrences \<Rightarrow> Occurrence list option" where
  "into_many (One_Occurrence _) = None"
| "into_many (Many_Occurrences occs) = Some occs"

definition same_window :: "u32 list list \<Rightarrow> nat \<Rightarrow> nat \<Rightarrow> nat \<Rightarrow> nat \<Rightarrow> nat \<Rightarrow> bool" where
  "same_window ranked_files left_file left_offset right_file right_offset len \<longleftrightarrow>
     slice left_offset (left_offset + len) (ranked_files ! left_file) =
     slice right_offset (right_offset + len) (ranked_files ! right_file)"

definition new_class :: "Occurrence \<Rightarrow> SeedClass" where
  "new_class occ = \<lparr>key_file_id = fst occ, key_offset = snd occ, seed_occurrences = One_Occurrence occ\<rparr>"

definition class_matches :: "u32 list list \<Rightarrow> nat \<Rightarrow> Occurrence \<Rightarrow> SeedClass \<Rightarrow> bool" where
  "class_matches ranked_files min_tokens occ c \<longleftrightarrow>
     same_window ranked_files (key_file_id c) (key_offset c) (fst occ) (snd occ) min_tokens"

definition push_to_class :: "Occurrence \<Rightarrow> SeedClass \<Rightarrow> SeedClass" where
  "push_to_class occ c = c\<lparr>seed_occurrences := push_occurrence occ (seed_occurrences c)\<rparr>"

fun push_to_matching :: "(SeedClass \<Rightarrow> bool) \<Rightarrow> Occurrence \<Rightarrow> SeedClass list \<Rightarrow> SeedClass list" where
  "push_to_matching m occ [] = [new_class occ]"
| "push_to_matching m occ (c # cs) = (if m c then push_to_class occ c # cs else c # push_to_matching m occ cs)"

fun insert_or_append :: "u32 list list \<Rightarrow> nat \<Rightarrow> Occurrence \<Rightarrow> SeedBucket \<Rightarrow> SeedBucket" where
  "insert_or_append ranked_files min_tokens occ (One_Class c) =
     (if class_matches ranked_files min_tokens occ c then One_Class (push_to_class occ c)
      else Many_Classes [c, new_class occ])"
| "insert_or_append ranked_files min_tokens occ (Many_Classes cs) =
     Many_Classes (push_to_matching (class_matches ranked_files min_tokens occ) occ cs)"

definition hash_base_power :: "nat \<Rightarrow> u64" where
  "hash_base_power len = base_power HASH_BASE len"

definition initial_window_hash :: "u32 list \<Rightarrow> nat \<Rightarrow> u64" where
  "initial_window_hash toks len = window_hash HASH_BASE (map ucast (take len toks))"

definition roll_window_hash :: "u64 \<Rightarrow> u32 \<Rightarrow> u32 \<Rightarrow> u64 \<Rightarrow> u64" where
  "roll_window_hash hash outgoing incoming pw = roll_hash HASH_BASE pw hash (ucast outgoing) (ucast incoming)"

definition seed_step ::
  "u32 list list \<Rightarrow> u32 list option list \<Rightarrow> bool \<Rightarrow> nat \<Rightarrow> nat \<Rightarrow> nat \<Rightarrow> u64 \<times> (u64 \<times> SeedBucket) list \<Rightarrow>
   u64 \<times> (u64 \<times> SeedBucket) list" where
  "seed_step ranked_files boundary_prefixes has_boundaries min_tokens file_id off st = (case st of (hash, buckets) \<Rightarrow>
     (let toks = ranked_files ! file_id;
          buckets =
            (if has_boundaries \<and> range_contains_boundary (boundary_prefixes ! file_id) off min_tokens then buckets
             else (case map_of buckets hash of
                 Some bucket \<Rightarrow> AList.update hash (insert_or_append ranked_files min_tokens (file_id, off) bucket) buckets
               | None \<Rightarrow> AList.update hash (One_Class (new_class (file_id, off))) buckets));
          hash =
            (if off < length toks - min_tokens
             then roll_window_hash hash (toks ! off) (toks ! (off + min_tokens)) (hash_base_power min_tokens) else hash)
      in (hash, buckets)))"

definition seed_file ::
  "u32 list list \<Rightarrow> u32 list option list \<Rightarrow> bool \<Rightarrow> nat \<Rightarrow> nat \<Rightarrow> (u64 \<times> SeedBucket) list \<Rightarrow> (u64 \<times> SeedBucket) list" where
  "seed_file ranked_files boundary_prefixes has_boundaries min_tokens file_id buckets =
     (let toks = ranked_files ! file_id
      in if length toks < min_tokens then buckets
         else snd (fold (seed_step ranked_files boundary_prefixes has_boundaries min_tokens file_id)
                [0..<length toks - min_tokens + 1] (initial_window_hash toks min_tokens, buckets)))"

definition build_seed_buckets ::
  "u32 list list \<Rightarrow> u32 list option list \<Rightarrow> bool \<Rightarrow> nat \<Rightarrow> (u64 \<times> SeedBucket) list" where
  "build_seed_buckets ranked_files boundary_prefixes has_boundaries min_tokens =
     fold (seed_file ranked_files boundary_prefixes has_boundaries min_tokens) [0..<length ranked_files] []"

section \<open>Extension\<close>

definition next_extension_token ::
  "u32 list list \<Rightarrow> u32 list option list \<Rightarrow> bool \<Rightarrow> Occurrence \<Rightarrow> nat \<Rightarrow> u32 option" where
  "next_extension_token ranked_files boundary_prefixes has_boundaries occ len =
     (let toks = ranked_files ! fst occ
      in if snd occ + len \<ge> length toks \<or>
           (has_boundaries \<and> range_contains_boundary (boundary_prefixes ! fst occ) (snd occ) (len + 1)) then None
         else Some (toks ! (snd occ + len)))"

definition child_token_after_range ::
  "u32 list list \<Rightarrow> u32 list option list \<Rightarrow> bool \<Rightarrow> Occurrence \<Rightarrow> nat \<Rightarrow> u32 option" where
  "child_token_after_range ranked_files boundary_prefixes has_boundaries occ len =
     (let toks = ranked_files ! fst occ
      in if snd occ + len \<ge> length toks \<or>
           (has_boundaries \<and> range_contains_boundary (boundary_prefixes ! fst occ) (snd occ) (len + 1)) then None
         else Some (toks ! (snd occ + len)))"

lemma next_extension_token_Some:
  "next_extension_token rs bps hb occ len = Some t \<Longrightarrow> snd occ + len < length (rs ! fst occ) \<and> t = rs ! fst occ ! (snd occ + len)"
  by (auto simp: next_extension_token_def Let_def split: if_splits)

function extend_uniform_length ::
  "u32 list list \<Rightarrow> u32 list option list \<Rightarrow> bool \<Rightarrow> Occurrence list \<Rightarrow> nat \<Rightarrow> nat" where
  "extend_uniform_length ranked_files boundary_prefixes has_boundaries occs len =
     (case occs of [] \<Rightarrow> len
      | fst_occ # rest \<Rightarrow>
          (case next_extension_token ranked_files boundary_prefixes has_boundaries fst_occ len of
             None \<Rightarrow> len
           | Some nxt \<Rightarrow>
               if list_all (\<lambda>occ. next_extension_token ranked_files boundary_prefixes has_boundaries occ len = Some nxt) rest
               then extend_uniform_length ranked_files boundary_prefixes has_boundaries occs (len + 1)
               else len))"
  by pat_completeness auto
termination
  by (relation "measure (\<lambda>(rs, bps, hb, occs, len). length (rs ! fst (hd occs)) - (snd (hd occs) + len))")
    (auto dest!: next_extension_token_Some)

declare extend_uniform_length.simps [simp del]

function pair_extent :: "u32 list \<Rightarrow> u32 list \<Rightarrow> u32 list option \<Rightarrow> u32 list option \<Rightarrow> nat \<Rightarrow> nat \<Rightarrow> nat \<Rightarrow> nat" where
  "pair_extent left_tokens right_tokens left_boundary right_boundary left_off right_off extended =
     (if left_off + extended < length left_tokens \<and> right_off + extended < length right_tokens \<and>
         left_tokens ! (left_off + extended) = right_tokens ! (right_off + extended) \<and>
         \<not> range_contains_boundary left_boundary left_off (extended + 1) \<and>
         \<not> range_contains_boundary right_boundary right_off (extended + 1)
      then pair_extent left_tokens right_tokens left_boundary right_boundary left_off right_off (extended + 1)
      else extended)"
  by pat_completeness auto
termination by (relation "measure (\<lambda>(lt, rt, lb, rb, lo, ro, ext). length lt - (lo + ext))") auto

declare pair_extent.simps [simp del]

definition extend_pair_length ::
  "u32 list list \<Rightarrow> u32 list option list \<Rightarrow> bool \<Rightarrow> Occurrence \<Rightarrow> Occurrence \<Rightarrow> nat \<Rightarrow> nat" where
  "extend_pair_length ranked_files boundary_prefixes has_boundaries l r len =
     pair_extent (ranked_files ! fst l) (ranked_files ! fst r)
       (if has_boundaries then boundary_prefixes ! fst l else None)
       (if has_boundaries then boundary_prefixes ! fst r else None) (snd l) (snd r) len"

section \<open>Left maximality\<close>

definition count_non_overlapping_instances :: "Occurrence list \<Rightarrow> nat \<Rightarrow> bool \<Rightarrow> nat" where
  "count_non_overlapping_instances occs len shift_left =
     fst (fold (\<lambda>occ (count, lst).
       (let off = (if shift_left then snd occ - 1 else snd occ)
        in if (case lst of None \<Rightarrow> False | Some (last_file, last_off) \<Rightarrow> fst occ = last_file \<and> off < last_off + len)
           then (count, lst) else (count + 1, Some (fst occ, off)))) occs (0, None))"

function adjacency_extent :: "u32 list \<Rightarrow> u32 list option \<Rightarrow> nat \<Rightarrow> nat \<Rightarrow> nat \<Rightarrow> nat \<Rightarrow> nat" where
  "adjacency_extent toks boundary l r distance extended =
     (if extended < distance \<and> r + extended < length toks \<and> toks ! (l + extended) = toks ! (r + extended) \<and>
         \<not> range_contains_boundary boundary l (extended + 1) \<and> \<not> range_contains_boundary boundary r (extended + 1)
      then adjacency_extent toks boundary l r distance (extended + 1) else extended)"
  by pat_completeness auto
termination by (relation "measure (\<lambda>(toks, b, l, r, distance, ext). distance - ext)") auto

declare adjacency_extent.simps [simp del]

definition pair_extends_to_adjacency ::
  "u32 list list \<Rightarrow> u32 list option list \<Rightarrow> bool \<Rightarrow> nat \<Rightarrow> nat \<Rightarrow> nat \<Rightarrow> nat \<Rightarrow> bool" where
  "pair_extends_to_adjacency ranked_files boundary_prefixes has_boundaries file_id l r len =
     (let distance = r - l; boundary = (if has_boundaries then boundary_prefixes ! file_id else None)
      in adjacency_extent (ranked_files ! file_id) boundary l r distance len = distance)"

text \<open>
  The inner loop returns the value it leaves the function with, if it does, and the number of
  pairs checked.
\<close>

fun check_candidates ::
  "(nat \<Rightarrow> bool) \<Rightarrow> nat \<Rightarrow> nat \<Rightarrow> nat \<Rightarrow> Occurrence list \<Rightarrow> nat \<Rightarrow> bool option \<times> nat" where
  "check_candidates extends file_id l len [] checked = (None, checked)"
| "check_candidates extends file_id l len (candidate # rest) checked =
     (if file_id \<noteq> fst candidate then (None, checked)
      else if snd candidate = l + len then (Some True, checked)
      else if snd candidate < l + len then check_candidates extends file_id l len rest checked
      else (let checked = checked + 1
            in if checked > MAX_ADJACENCY_LOOKAHEAD_PAIRS then (Some False, checked)
               else if extends (snd candidate) then (Some True, checked)
               else check_candidates extends file_id l len rest checked))"

fun check_pairs ::
  "u32 list list \<Rightarrow> u32 list option list \<Rightarrow> bool \<Rightarrow> nat \<Rightarrow> Occurrence list \<Rightarrow> nat \<Rightarrow> bool" where
  "check_pairs ranked_files boundary_prefixes has_boundaries len [] checked = False"
| "check_pairs ranked_files boundary_prefixes has_boundaries len (occ # rest) checked =
     (case check_candidates
         (\<lambda>r. pair_extends_to_adjacency ranked_files boundary_prefixes has_boundaries (fst occ) (snd occ) r len)
         (fst occ) (snd occ) len rest checked of
        (Some res, _) \<Rightarrow> res
      | (None, checked) \<Rightarrow> check_pairs ranked_files boundary_prefixes has_boundaries len rest checked)"

definition has_same_file_pair_at_or_extending_to_adjacency ::
  "u32 list list \<Rightarrow> u32 list option list \<Rightarrow> bool \<Rightarrow> Occurrence list \<Rightarrow> nat \<Rightarrow> bool" where
  "has_same_file_pair_at_or_extending_to_adjacency ranked_files boundary_prefixes has_boundaries occs len =
     check_pairs ranked_files boundary_prefixes has_boundaries len occs 0"

definition is_left_maximal ::
  "u32 list list \<Rightarrow> u32 list option list \<Rightarrow> bool \<Rightarrow> Occurrence list \<Rightarrow> nat \<Rightarrow> bool" where
  "is_left_maximal ranked_files boundary_prefixes has_boundaries occs len =
     (case occs of [] \<Rightarrow> False
      | fst_occ # _ \<Rightarrow>
          if snd fst_occ = 0 then True
          else (let previous = ranked_files ! fst fst_occ ! (snd fst_occ - 1)
                in if list_ex (\<lambda>occ. snd occ = 0 \<or> ranked_files ! fst occ ! (snd occ - 1) \<noteq> previous \<or>
                       (has_boundaries \<and> range_contains_boundary (boundary_prefixes ! fst occ) (snd occ - 1) (len + 1))) occs
                   then True
                   else if has_same_file_pair_at_or_extending_to_adjacency ranked_files boundary_prefixes has_boundaries occs len
                   then True
                   else (let current_count = count_non_overlapping_instances occs len False;
                             extended_count = count_non_overlapping_instances occs (len + 1) True
                         in current_count \<ge> 2 \<and> extended_count < current_count)))"

section \<open>Groups\<close>

definition push_raw_group :: "Occurrence list \<Rightarrow> nat \<Rightarrow> RawGroup list" where
  "push_raw_group occs len =
     (let deduped = fold (push_instance len) occs []
      in if length deduped \<ge> 2 then [\<lparr>raw_instances = deduped, raw_length = len\<rparr>] else [])"

definition insert_child_occurrence ::
  "u32 \<Rightarrow> Occurrence \<Rightarrow> (u32 \<times> SeedOccurrences) list \<Rightarrow> (u32 \<times> SeedOccurrences) list" where
  "insert_child_occurrence token occ children =
     AList.update token (case map_of children token of
       Some occs \<Rightarrow> push_occurrence occ occs | None \<Rightarrow> One_Occurrence occ) children"

type_synonym child_state = "(u32 \<times> Occurrence) option \<times> (u32 \<times> SeedOccurrences) list option"

definition child_step ::
  "u32 list list \<Rightarrow> u32 list option list \<Rightarrow> bool \<Rightarrow> nat \<Rightarrow> Occurrence \<Rightarrow> child_state \<Rightarrow> child_state" where
  "child_step ranked_files boundary_prefixes has_boundaries len occ st = (case st of (first_child, children) \<Rightarrow>
     (case child_token_after_range ranked_files boundary_prefixes has_boundaries occ len of
        None \<Rightarrow> st
      | Some token \<Rightarrow>
          (case children of
             Some cs \<Rightarrow> (first_child, Some (insert_child_occurrence token occ cs))
           | None \<Rightarrow>
               (case first_child of
                  Some (first_token, fst_occ) \<Rightarrow>
                    (None, Some (insert_child_occurrence token occ (insert_child_occurrence first_token fst_occ [])))
                | None \<Rightarrow> (Some (token, occ), None)))))"

definition collect_child_occurrences ::
  "u32 list list \<Rightarrow> u32 list option list \<Rightarrow> bool \<Rightarrow> Occurrence list \<Rightarrow> nat \<Rightarrow> (u32 \<times> SeedOccurrences) list option" where
  "collect_child_occurrences ranked_files boundary_prefixes has_boundaries occs len =
     snd (fold (child_step ranked_files boundary_prefixes has_boundaries len) occs (None, None))"

definition longest_file :: "u32 list list \<Rightarrow> Occurrence list \<Rightarrow> nat" where
  "longest_file ranked_files occs = Max (insert 0 ((\<lambda>occ. length (ranked_files ! fst occ)) ` set occs))"

text \<open>The children hold, for every next token, the occurrences that it follows.\<close>

fun occ_list :: "SeedOccurrences \<Rightarrow> Occurrence list" where
  "occ_list (One_Occurrence occ) = [occ]"
| "occ_list (Many_Occurrences occs) = occs"

lemma occ_list_push [simp]: "occ_list (push_occurrence occ so) = occ_list so @ [occ]"
  by (cases so) simp_all

lemma into_many_Some: "into_many so = Some occs \<longleftrightarrow> so = Many_Occurrences occs"
  by (cases so) auto

fun child_map :: "child_state \<Rightarrow> u32 \<Rightarrow> Occurrence list" where
  "child_map (first_child, Some cs) t = (case map_of cs t of None \<Rightarrow> [] | Some so \<Rightarrow> occ_list so)"
| "child_map (Some (t', occ), None) t = (if t = t' then [occ] else [])"
| "child_map (None, None) t = []"

lemma child_map_insert:
  "child_map (x, Some (insert_child_occurrence t' occ cs)) t = child_map (y, Some cs) t @ (if t' = t then [occ] else [])"
  by (auto simp: insert_child_occurrence_def update_conv split: option.splits)

lemma child_step_map:
  "child_map (child_step rs bps hb len occ st) t =
    child_map st t @ (if child_token_after_range rs bps hb occ len = Some t then [occ] else [])"
proof -
  obtain fc ch where st: "st = (fc, ch)" by (cases st)
  show ?thesis
  proof (cases "child_token_after_range rs bps hb occ len")
    case None
    then show ?thesis by (simp add: child_step_def st)
  next
    case (Some t')
    consider (many) cs where "ch = Some cs" | (one) t0 o0 where "ch = None" "fc = Some (t0, o0)" | (none) "ch = None" "fc = None"
      by (cases ch; cases fc) auto
    then show ?thesis
    proof cases
      case (many cs)
      then show ?thesis using Some child_map_insert [of fc t' occ cs t fc] by (simp add: child_step_def st)
    next
      case one
      then show ?thesis using Some child_map_insert [of None t' occ "insert_child_occurrence t0 o0 []" t None]
          child_map_insert [of None t0 o0 "[]" t None] by (simp add: child_step_def st)
    next
      case none
      then show ?thesis using Some by (auto simp: child_step_def st)
    qed
  qed
qed

lemma collected_children:
  assumes "collect_child_occurrences rs bps hb occs len = Some cs" "map_of cs t = Some so"
  shows "occ_list so = filter (\<lambda>occ. child_token_after_range rs bps hb occ len = Some t) occs"
proof -
  let ?st = "fold (child_step rs bps hb len) occs (None, None)"
  have "child_map (fold (child_step rs bps hb len) xs st) t =
      child_map st t @ filter (\<lambda>occ. child_token_after_range rs bps hb occ len = Some t) xs" for xs st
    by (induction xs arbitrary: st) (simp_all add: child_step_map)
  from this [of occs "(None, None)"] have "child_map ?st t = filter (\<lambda>occ. child_token_after_range rs bps hb occ len = Some t) occs"
    by simp
  moreover have "?st = (fst ?st, Some cs)" using assms(1) by (simp add: collect_child_occurrences_def prod_eq_iff)
  ultimately show ?thesis using assms(2) by (metis child_map.simps(1) option.simps(5))
qed

lemma many_not_Nil_filter: "occ_list so = filter P occs \<Longrightarrow> into_many so = Some child \<Longrightarrow> child = filter P occs"
  by (simp add: into_many_Some)

lemma child_after_range: "child_token_after_range rs bps hb occ len = Some t \<Longrightarrow> snd occ + len < length (rs ! fst occ)"
  by (auto simp: child_token_after_range_def Let_def split: if_splits)

text \<open>
  The recursion on the children; the map of children is iterated in an order of its keys.  A
  class of two occurrences is extended at once.
\<close>

lemma longest_file_mono: "set child \<subseteq> set occs \<Longrightarrow> longest_file rs child \<le> longest_file rs occs"
  unfolding longest_file_def by (rule Max_mono) auto

lemma longest_file_ge: "occ \<in> set occs \<Longrightarrow> length (rs ! fst occ) \<le> longest_file rs occs"
  unfolding longest_file_def by (rule Max_ge) auto

lemma extend_uniform_length_ge: "len \<le> extend_uniform_length rs bps hb occs len"
proof (induction rs bps hb occs len rule: extend_uniform_length.induct)
  case (1 rs bps hb occs len)
  then show ?case
    by (subst extend_uniform_length.simps) (fastforce split: list.splits option.splits)
qed

definition child_lists :: "(u32 list \<Rightarrow> u32 list) \<Rightarrow> (u32 \<times> SeedOccurrences) list option \<Rightarrow> Occurrence list list" where
  "child_lists child_order children =
     (case children of None \<Rightarrow> []
      | Some cs \<Rightarrow> List.map_filter (\<lambda>t. Option.bind (map_of cs t) into_many) (child_order (map fst cs)))"

lemma child_lists_filter:
  assumes "child \<in> set (child_lists child_order (collect_child_occurrences rs bps hb occs len))"
  obtains t where "child = filter (\<lambda>occ. child_token_after_range rs bps hb occ len = Some t) occs"
proof -
  obtain cs t so where "collect_child_occurrences rs bps hb occs len = Some cs" "map_of cs t = Some so" "into_many so = Some child"
    using assms by (cases "collect_child_occurrences rs bps hb occs len")
      (auto simp: child_lists_def map_filter_def split: bind_splits)
  then show thesis using that collected_children many_not_Nil_filter by blast
qed

function collect_extended_groups ::
  "(u32 list \<Rightarrow> u32 list) \<Rightarrow> u32 list list \<Rightarrow> u32 list option list \<Rightarrow> bool \<Rightarrow> Occurrence list \<Rightarrow> nat \<Rightarrow> RawGroup list" where
  "collect_extended_groups child_order ranked_files boundary_prefixes has_boundaries occs len =
     (if length occs = 2 then
        push_raw_group occs
          (extend_pair_length ranked_files boundary_prefixes has_boundaries (occs ! 0) (occs ! 1) len)
      else
        (let len = extend_uniform_length ranked_files boundary_prefixes has_boundaries occs len;
             children = collect_child_occurrences ranked_files boundary_prefixes has_boundaries occs len
         in push_raw_group occs len @
            concat (map (\<lambda>child.
              if is_left_maximal ranked_files boundary_prefixes has_boundaries child (len + 1)
              then collect_extended_groups child_order ranked_files boundary_prefixes has_boundaries child (len + 1)
              else []) (child_lists child_order children))))"
  by pat_completeness auto
termination
proof (relation "measure (\<lambda>(ord, rs, bps, hb, occs, len). longest_file rs occs - len)", goal_cases)
  case (2 ord rs bps hb occs len len' children child)
  then have child: "child \<in> set (child_lists ord (collect_child_occurrences rs bps hb occs len'))" "child \<noteq> []"
    by (auto simp: is_left_maximal_def)
  obtain t where t: "child = filter (\<lambda>occ. child_token_after_range rs bps hb occ len' = Some t) occs"
    by (rule child_lists_filter [OF child(1)])
  obtain occ where occ: "occ \<in> set child" using child(2) by (cases child) auto
  have "len' < longest_file rs occs"
    using occ child_after_range [of rs bps hb occ len' t] longest_file_ge [of occ occs rs] by (simp add: t)
  moreover have "longest_file rs child \<le> longest_file rs occs" by (rule longest_file_mono) (auto simp: t)
  moreover have "len \<le> len'" using 2 extend_uniform_length_ge by simp
  ultimately show ?case by simp
qed simp

declare collect_extended_groups.simps [simp del]

definition process_seed_class ::
  "(u32 list \<Rightarrow> u32 list) \<Rightarrow> u32 list list \<Rightarrow> u32 list option list \<Rightarrow> bool \<Rightarrow> nat \<Rightarrow> SeedClass \<Rightarrow> RawGroup list" where
  "process_seed_class child_order ranked_files boundary_prefixes has_boundaries min_tokens c =
     (case into_many (seed_occurrences c) of None \<Rightarrow> []
      | Some occs \<Rightarrow>
          if is_left_maximal ranked_files boundary_prefixes has_boundaries occs min_tokens
          then collect_extended_groups child_order ranked_files boundary_prefixes has_boundaries occs min_tokens else [])"

fun bucket_classes :: "SeedBucket \<Rightarrow> SeedClass list" where
  "bucket_classes (One_Class c) = [c]"
| "bucket_classes (Many_Classes cs) = cs"

definition build_raw_groups ::
  "(u64 list \<Rightarrow> u64 list) \<Rightarrow> (u32 list \<Rightarrow> u32 list) \<Rightarrow> u32 list list \<Rightarrow> u32 list option list \<Rightarrow> bool \<Rightarrow>
   (u64 \<times> SeedBucket) list \<Rightarrow> nat \<Rightarrow> RawGroup list" where
  "build_raw_groups bucket_order child_order ranked_files boundary_prefixes has_boundaries seed_buckets min_tokens =
     concat (map (\<lambda>bucket.
       concat (map (process_seed_class child_order ranked_files boundary_prefixes has_boundaries min_tokens) (bucket_classes bucket)))
       (List.map_filter (map_of seed_buckets) (bucket_order (map fst seed_buckets))))"

definition rolling_raw_groups ::
  "(u64 list \<Rightarrow> u64 list) \<Rightarrow> (u32 list \<Rightarrow> u32 list) \<Rightarrow> FileData list \<Rightarrow> nat \<Rightarrow> bool \<Rightarrow> RawGroup list" where
  "rolling_raw_groups bucket_order child_order files min_tokens may_have_boundaries =
     (let ranked_files = rank_reduce files;
          boundary_prefixes = (if may_have_boundaries then build_boundary_prefixes files else replicate (length files) None);
          has_boundaries = (may_have_boundaries \<and> list_ex (\<lambda>p. p \<noteq> None) boundary_prefixes);
          seed_buckets = build_seed_buckets ranked_files boundary_prefixes has_boundaries min_tokens
      in build_raw_groups bucket_order child_order ranked_files boundary_prefixes has_boundaries seed_buckets min_tokens)"

end
