(* ===== verification/Rolling_Clones.thy ===== *)
theory Rolling_Clones
  imports Rolling_Detector
begin

text \<open>
  What the rolling-hash detector finds: its seed classes are exactly the sets of equal windows of
  the minimal length, whatever windows collide in the hash, and every raw group is a set of
  equal, non-overlapping windows.
\<close>

section \<open>Occurrences of a window\<close>

definition token_window :: "u32 list list \<Rightarrow> nat \<Rightarrow> Occurrence \<Rightarrow> u32 list" where
  "token_window rs len occ = slice (snd occ) (snd occ + len) (rs ! fst occ)"

definition occurrences_ok :: "u32 list list \<Rightarrow> nat \<Rightarrow> Occurrence list \<Rightarrow> bool" where
  "occurrences_ok rs len occs \<longleftrightarrow> sorted occs \<and>
     (\<forall>occ \<in> set occs. fst occ < length rs \<and> snd occ + len \<le> length (rs ! fst occ)) \<and>
     (\<forall>occ \<in> set occs. \<forall>occ' \<in> set occs. token_window rs len occ = token_window rs len occ')"

lemma occurrences_ok_subset:
  "occurrences_ok rs len occs \<Longrightarrow> sorted occs' \<Longrightarrow> set occs' \<subseteq> set occs \<Longrightarrow> occurrences_ok rs len occs'"
  unfolding occurrences_ok_def by blast

lemma occurrences_ok_extend:
  assumes ok: "occurrences_ok rs len occs"
    and nxt: "\<And>occ. occ \<in> set occs \<Longrightarrow> snd occ + len < length (rs ! fst occ) \<and> rs ! fst occ ! (snd occ + len) = t"
  shows "occurrences_ok rs (Suc len) occs"
proof -
  have win: "token_window rs (Suc len) occ = token_window rs len occ @ [t]" if "occ \<in> set occs" for occ
    using nxt [OF that] by (simp add: token_window_def slice_Suc)
  have same: "token_window rs len occ = token_window rs len occ'" if "occ \<in> set occs" "occ' \<in> set occs" for occ occ'
    using ok that unfolding occurrences_ok_def by blast
  have "token_window rs (Suc len) occ = token_window rs (Suc len) occ'" if "occ \<in> set occs" "occ' \<in> set occs" for occ occ'
    unfolding win [OF that(1)] win [OF that(2)] same [OF that] by (rule refl)
  moreover have "fst occ < length rs \<and> snd occ + Suc len \<le> length (rs ! fst occ)" if "occ \<in> set occs" for occ
    using ok nxt [OF that] that by (simp add: occurrences_ok_def)
  moreover have "sorted occs" using ok by (simp add: occurrences_ok_def)
  ultimately show ?thesis unfolding occurrences_ok_def by (intro conjI ballI; blast)
qed

lemma extend_uniform_Cons:
  "extend_uniform_length rs bps hb (occ # rest) len =
    (case next_extension_token rs bps hb occ len of None \<Rightarrow> len
     | Some t \<Rightarrow> if list_all (\<lambda>occ. next_extension_token rs bps hb occ len = Some t) rest
         then extend_uniform_length rs bps hb (occ # rest) (len + 1) else len)"
  by (subst extend_uniform_length.simps) simp

lemma extend_uniform_ok:
  "occurrences_ok rs len occs \<Longrightarrow> occurrences_ok rs (extend_uniform_length rs bps hb occs len) occs"
proof (induction rs bps hb occs len rule: extend_uniform_length.induct)
  case (1 rs bps hb occs len)
  show ?case
  proof (cases occs)
    case Nil
    then show ?thesis by (simp add: occurrences_ok_def)
  next
    case (Cons occ rest)
    note unf = extend_uniform_Cons [of rs bps hb occ rest len, folded Cons]
    show ?thesis
    proof (cases "next_extension_token rs bps hb occ len")
      case None
      then show ?thesis using 1(2) unfolding unf by simp
    next
      case (Some t)
      let ?all = "list_all (\<lambda>occ. next_extension_token rs bps hb occ len = Some t) rest"
      show ?thesis
      proof (cases ?all)
        case True
        have "occurrences_ok rs (Suc len) occs"
          by (rule occurrences_ok_extend [OF 1(2)])
            (use True Some Cons next_extension_token_Some in \<open>fastforce simp: list_all_iff\<close>)
        then have "occurrences_ok rs (extend_uniform_length rs bps hb occs (len + 1)) occs" using 1(1) Cons Some True by simp
        then show ?thesis unfolding unf using Some True by simp
      next
        case False
        then show ?thesis unfolding unf using 1(2) Some by simp
      qed
    qed
  qed
qed

lemma pair_extent_ok:
  "occurrences_ok rs len [l, r] \<Longrightarrow>
    len \<le> pair_extent (rs ! fst l) (rs ! fst r) lb rb (snd l) (snd r) len \<and>
    occurrences_ok rs (pair_extent (rs ! fst l) (rs ! fst r) lb rb (snd l) (snd r) len) [l, r]"
proof (induction "length (rs ! fst l) - (snd l + len)" arbitrary: len rule: less_induct)
  case less
  let ?c = "snd l + len < length (rs ! fst l) \<and> snd r + len < length (rs ! fst r) \<and>
         rs ! fst l ! (snd l + len) = rs ! fst r ! (snd r + len) \<and>
         \<not> range_contains_boundary lb (snd l) (len + 1) \<and> \<not> range_contains_boundary rb (snd r) (len + 1)"
  show ?case
  proof (cases ?c)
    case True
    have "occurrences_ok rs (Suc len) [l, r]"
      by (rule occurrences_ok_extend [OF less.prems]) (use True in auto)
    moreover have "length (rs ! fst l) - (snd l + Suc len) < length (rs ! fst l) - (snd l + len)" using True by linarith
    moreover have "pair_extent (rs ! fst l) (rs ! fst r) lb rb (snd l) (snd r) len =
        pair_extent (rs ! fst l) (rs ! fst r) lb rb (snd l) (snd r) (Suc len)"
      by (subst pair_extent.simps) (use True in simp)
    ultimately show ?thesis using less.hyps [of "Suc len"] by simp
  next
    case False
    then have "pair_extent (rs ! fst l) (rs ! fst r) lb rb (snd l) (snd r) len = len" by (subst pair_extent.simps) auto
    then show ?thesis using less.prems by simp
  qed
qed

section \<open>Raw groups\<close>

definition raw_group_ok :: "u32 list list \<Rightarrow> nat \<Rightarrow> RawGroup \<Rightarrow> bool" where
  "raw_group_ok rs m g \<longleftrightarrow> m \<le> raw_length g \<and> 2 \<le> length (raw_instances g) \<and>
     sorted_wrt (apart (raw_length g)) (raw_instances g) \<and> occurrences_ok rs (raw_length g) (raw_instances g)"

lemma push_raw_group_ok:
  assumes "occurrences_ok rs len occs" "m \<le> len" "1 \<le> len" "g \<in> set (push_raw_group occs len)"
  shows "raw_group_ok rs m g"
proof -
  have g: "g = \<lparr>raw_instances = fold (push_instance len) occs [], raw_length = len\<rparr>" "2 \<le> length (raw_instances g)"
    using assms(4) by (auto simp: push_raw_group_def Let_def split: if_splits)
  have "thinned len occs (raw_instances g)" using thinned_dedup [of occs len] assms(1,3) g(1) by (simp add: occurrences_ok_def)
  then show ?thesis using g assms(2) occurrences_ok_subset [OF assms(1)] by (simp add: raw_group_ok_def thinned_def)
qed

lemma collect_extended_groups_ok:
  "occurrences_ok rs len occs \<Longrightarrow> m \<le> len \<Longrightarrow> 1 \<le> len \<Longrightarrow>
    g \<in> set (collect_extended_groups ord rs bps hb occs len) \<Longrightarrow> raw_group_ok rs m g"
proof (induction ord rs bps hb occs len rule: collect_extended_groups.induct)
  case (1 ord rs bps hb occs len)
  show ?case
  proof (cases "length occs = 2")
    case True
    then have occs: "occs = [occs ! 0, occs ! 1]" by (rule pair_list)
    let ?e = "extend_pair_length rs bps hb (occs ! 0) (occs ! 1) len"
    have "len \<le> ?e" "occurrences_ok rs ?e occs"
      using pair_extent_ok [of rs len "occs ! 0" "occs ! 1"] 1(2) occs by (simp_all add: extend_pair_length_def)
    moreover have "g \<in> set (push_raw_group occs ?e)"
      using 1(5) True by (simp add: collect_extended_groups.simps [of ord rs bps hb occs len])
    ultimately show ?thesis using push_raw_group_ok 1(3,4) by (meson le_trans)
  next
    case False
    let ?e = "extend_uniform_length rs bps hb occs len"
    let ?ch = "child_lists ord (collect_child_occurrences rs bps hb occs ?e)"
    have e: "len \<le> ?e" "occurrences_ok rs ?e occs"
      using extend_uniform_length_ge extend_uniform_ok 1(2) by blast+
    consider "g \<in> set (push_raw_group occs ?e)"
      | child where "child \<in> set ?ch" "is_left_maximal rs bps hb child (?e + 1)"
        "g \<in> set (collect_extended_groups ord rs bps hb child (?e + 1))"
      using 1(5) False by (auto simp: collect_extended_groups.simps [of ord rs bps hb occs len] Let_def split: if_splits)
    then show ?thesis
    proof cases
      case 1
      then show ?thesis using push_raw_group_ok e \<open>m \<le> len\<close> \<open>1 \<le> len\<close> by (meson le_trans)
    next
      case (2 child)
      obtain t where t: "child = filter (\<lambda>occ. child_token_after_range rs bps hb occ ?e = Some t) occs"
        by (rule child_lists_filter [OF 2(1)])
      have "occurrences_ok rs ?e child"
        by (rule occurrences_ok_subset [OF e(2)]) (use e(2) in \<open>auto simp: t occurrences_ok_def sorted_wrt_filter\<close>)
      then have "occurrences_ok rs (Suc ?e) child"
        by (rule occurrences_ok_extend [where t = t])
          (auto simp: t child_token_after_range_def Let_def split: if_splits)
      then show ?thesis using "1.IH" [OF False refl refl 2(1,2)] 2(3) e(1) \<open>m \<le> len\<close> \<open>1 \<le> len\<close> by simp
    qed
  qed
qed

section \<open>Seed classes\<close>

abbreviation class_key :: "SeedClass \<Rightarrow> Occurrence" where
  "class_key c \<equiv> (key_file_id c, key_offset c)"

abbreviation rank_hash :: "u32 list \<Rightarrow> u64" where
  "rank_hash ws \<equiv> window_hash HASH_BASE (map ucast ws)"

definition seeds_ok :: "u32 list list \<Rightarrow> nat \<Rightarrow> Occurrence list \<Rightarrow> (u64 \<times> SeedBucket) list \<Rightarrow> bool" where
  "seeds_ok rs m found bs \<longleftrightarrow>
     (\<forall>h b. map_of bs h = Some b \<longrightarrow> distinct (map (\<lambda>c. token_window rs m (class_key c)) (bucket_classes b)) \<and>
        (\<forall>c \<in> set (bucket_classes b). rank_hash (token_window rs m (class_key c)) = h \<and> class_key c \<in> set found \<and>
           occ_list (seed_occurrences c) = filter (\<lambda>occ. token_window rs m occ = token_window rs m (class_key c)) found)) \<and>
     (\<forall>occ \<in> set found. \<exists>b. map_of bs (rank_hash (token_window rs m occ)) = Some b \<and>
        (\<exists>c \<in> set (bucket_classes b). token_window rs m (class_key c) = token_window rs m occ))"

lemma class_matches_window:
  "class_matches rs m occ c \<longleftrightarrow> token_window rs m (class_key c) = token_window rs m occ"
  by (simp add: class_matches_def same_window_def token_window_def)

lemma bucket_classes_insert:
  "bucket_classes (insert_or_append rs m occ b) = push_to_matching (class_matches rs m occ) occ (bucket_classes b)"
  by (cases b) simp_all

lemma push_to_matching_windows:
  "map (\<lambda>c. token_window rs m (class_key c)) (push_to_matching (class_matches rs m occ) occ cs) =
     (if \<exists>c \<in> set cs. class_matches rs m occ c then map (\<lambda>c. token_window rs m (class_key c)) cs
      else map (\<lambda>c. token_window rs m (class_key c)) cs @ [token_window rs m occ])"
  by (induction cs) (auto simp: push_to_class_def new_class_def)

lemma push_to_matching_cases:
  assumes "c \<in> set (push_to_matching P occ cs)" "distinct (map f cs)" "\<And>c. P c \<longleftrightarrow> f c = w"
  obtains "c \<in> set cs" "\<not> P c" | c' where "c' \<in> set cs" "P c'" "c = push_to_class occ c'" | "c = new_class occ" "\<forall>c \<in> set cs. \<not> P c"
proof -
  have "(c \<in> set cs \<and> \<not> P c) \<or> (\<exists>c' \<in> set cs. P c' \<and> c = push_to_class occ c') \<or> (c = new_class occ \<and> (\<forall>c \<in> set cs. \<not> P c))"
    using assms(1,2)
  proof (induction cs)
    case (Cons x cs)
    show ?case
    proof (cases "P x")
      case True
      have "\<not> P y" if "y \<in> set cs" for y using Cons.prems(2) that True assms(3) by (auto simp: image_iff)
      then show ?thesis using Cons.prems(1) True by auto
    next
      case False
      then show ?thesis using Cons by auto
    qed
  qed simp
  then show thesis using that by blast
qed

lemma seeds_ok_insert:
  assumes ok: "seeds_ok rs m found bs"
    and b': "bucket_classes b' = push_to_matching (class_matches rs m occ) occ
      (case map_of bs (rank_hash (token_window rs m occ)) of None \<Rightarrow> [] | Some b \<Rightarrow> bucket_classes b)"
  shows "seeds_ok rs m (found @ [occ]) (AList.update (rank_hash (token_window rs m occ)) b' bs)"
proof -
  let ?w = "token_window rs m" and ?h = "rank_hash (token_window rs m occ)"
  define cs where "cs = (case map_of bs ?h of None \<Rightarrow> [] | Some b \<Rightarrow> bucket_classes b)"
  note b' = b' [folded cs_def]
  let ?bs = "AList.update ?h b' bs"
  have at: "map_of ?bs h = (if h = ?h then Some b' else map_of bs h)" for h by (simp add: update_conv)
  have old: "distinct (map (\<lambda>c. ?w (class_key c)) (bucket_classes b))"
    "\<And>c. c \<in> set (bucket_classes b) \<Longrightarrow> rank_hash (?w (class_key c)) = h \<and> class_key c \<in> set found \<and>
       occ_list (seed_occurrences c) = filter (\<lambda>occ. ?w occ = ?w (class_key c)) found"
    if "map_of bs h = Some b" for h b
    using ok that unfolding seeds_ok_def by blast+
  have csd: "distinct (map (\<lambda>c. ?w (class_key c)) cs)"
    unfolding cs_def by (cases "map_of bs ?h") (simp, use old(1) [of ?h] in simp)
  have cs': "rank_hash (?w (class_key c)) = ?h" "class_key c \<in> set found"
    "occ_list (seed_occurrences c) = filter (\<lambda>occ. ?w occ = ?w (class_key c)) found" if c: "c \<in> set cs" for c
  proof -
    obtain b where "map_of bs ?h = Some b" "c \<in> set (bucket_classes b)" using c unfolding cs_def by (cases "map_of bs ?h") simp_all
    then show "rank_hash (?w (class_key c)) = ?h" "class_key c \<in> set found"
      "occ_list (seed_occurrences c) = filter (\<lambda>occ. ?w occ = ?w (class_key c)) found" using old(2) by blast+
  qed
  have found: "\<exists>b. map_of bs (rank_hash (?w x)) = Some b \<and> (\<exists>c \<in> set (bucket_classes b). ?w (class_key c) = ?w x)"
    if "x \<in> set found" for x
  proof -
    have "\<forall>x \<in> set found. \<exists>b. map_of bs (rank_hash (?w x)) = Some b \<and> (\<exists>c \<in> set (bucket_classes b). ?w (class_key c) = ?w x)"
      using ok unfolding seeds_ok_def by (elim conjE)
    then show ?thesis using that by (rule bspec)
  qed
  have all: "\<exists>c \<in> set cs. ?w (class_key c) = ?w x" if x: "x \<in> set found" "rank_hash (?w x) = ?h" for x
  proof -
    obtain b where "map_of bs (rank_hash (?w x)) = Some b" "\<exists>c \<in> set (bucket_classes b). ?w (class_key c) = ?w x"
      using found [OF x(1)] by blast
    then show ?thesis unfolding x(2) cs_def by (simp only: option.case)
  qed
  have wins: "map (\<lambda>c. ?w (class_key c)) (bucket_classes b') =
     (if \<exists>c \<in> set cs. class_matches rs m occ c then map (\<lambda>c. ?w (class_key c)) cs
      else map (\<lambda>c. ?w (class_key c)) cs @ [?w occ])"
    unfolding b' by (rule push_to_matching_windows)
  have d': "distinct (map (\<lambda>c. ?w (class_key c)) (bucket_classes b'))"
    unfolding wins using csd class_matches_window by (auto simp: image_iff)
  have some: "?w occ \<in> (\<lambda>c. ?w (class_key c)) ` set (bucket_classes b') \<and>
    (\<lambda>c. ?w (class_key c)) ` set cs \<subseteq> (\<lambda>c. ?w (class_key c)) ` set (bucket_classes b')"
  proof (cases "\<exists>c \<in> set cs. class_matches rs m occ c")
    case True
    then have "set (map (\<lambda>c. ?w (class_key c)) (bucket_classes b')) = set (map (\<lambda>c. ?w (class_key c)) cs)" unfolding wins by simp
    moreover obtain c where c: "c \<in> set cs" "class_matches rs m occ c" using True by blast
    have "?w occ \<in> (\<lambda>c. ?w (class_key c)) ` set cs"
      by (rule image_eqI [OF _ c(1)]) (rule c(2) [unfolded class_matches_window, symmetric])
    ultimately show ?thesis by (simp only: set_map) simp
  next
    case False
    then have "set (map (\<lambda>c. ?w (class_key c)) (bucket_classes b')) = insert (?w occ) (set (map (\<lambda>c. ?w (class_key c)) cs))"
      unfolding wins by simp
    then show ?thesis by (simp only: set_map) blast
  qed
  have new: "rank_hash (?w (class_key c)) = ?h \<and> class_key c \<in> set (found @ [occ]) \<and>
       occ_list (seed_occurrences c) = filter (\<lambda>occ. ?w occ = ?w (class_key c)) (found @ [occ])"
    if c: "c \<in> set (bucket_classes b')" for c
    using c unfolding b'
  proof (rule push_to_matching_cases [OF _ csd class_matches_window])
    assume "c \<in> set cs" "\<not> class_matches rs m occ c"
    then have "?w occ \<noteq> ?w (class_key c)" using class_matches_window by metis
    then show ?thesis using cs' [OF \<open>c \<in> set cs\<close>] by (intro conjI) simp_all
  next
    fix c' assume c': "c' \<in> set cs" "class_matches rs m occ c'" "c = push_to_class occ c'"
    then have "?w occ = ?w (class_key c')" "class_key c = class_key c'"
      "occ_list (seed_occurrences c) = occ_list (seed_occurrences c') @ [occ]"
      using class_matches_window [of rs m occ c'] by (simp_all add: push_to_class_def)
    then show ?thesis using cs' [OF c'(1)] by (intro conjI) simp_all
  next
    assume n: "c = new_class occ" "\<forall>c \<in> set cs. \<not> class_matches rs m occ c"
    have "filter (\<lambda>x. ?w x = ?w occ) found = []"
      unfolding filter_empty_conv using all n(2) class_matches_window by metis
    then show ?thesis using n(1) by (simp add: new_class_def)
  qed
  have rest: "?w occ \<noteq> ?w (class_key c)" if "map_of bs h = Some b" "h \<noteq> ?h" "c \<in> set (bucket_classes b)" for h b c
    using old(2) [OF that(1,3)] that(2) by auto
  show ?thesis
    unfolding seeds_ok_def
  proof (intro conjI allI impI ballI)
    fix h b assume b: "map_of ?bs h = Some b"
    show "distinct (map (\<lambda>c. ?w (class_key c)) (bucket_classes b))"
      using b old(1) d' by (auto simp: at split: if_splits)
    fix c assume c: "c \<in> set (bucket_classes b)"
    have "rank_hash (?w (class_key c)) = h \<and> class_key c \<in> set (found @ [occ]) \<and>
       occ_list (seed_occurrences c) = filter (\<lambda>occ. ?w occ = ?w (class_key c)) (found @ [occ])"
    proof (cases "h = ?h")
      case True
      then show ?thesis using b c new by (simp add: at)
    next
      case False
      then have "map_of bs h = Some b" using b by (simp add: at)
      then show ?thesis using old(2) c rest False by auto
    qed
    then show "rank_hash (?w (class_key c)) = h" "class_key c \<in> set (found @ [occ])"
      "occ_list (seed_occurrences c) = filter (\<lambda>occ. ?w occ = ?w (class_key c)) (found @ [occ])" by blast+
  next
    fix x assume x: "x \<in> set (found @ [occ])"
    show "\<exists>b. map_of ?bs (rank_hash (?w x)) = Some b \<and> (\<exists>c \<in> set (bucket_classes b). ?w (class_key c) = ?w x)"
    proof (cases "rank_hash (?w x) = ?h")
      case True
      have "?w x \<in> (\<lambda>c. ?w (class_key c)) ` set (bucket_classes b')"
      proof (cases "x \<in> set found")
        case f: True
        obtain c where c: "c \<in> set cs" "?w (class_key c) = ?w x" using all [OF f True] by blast
        from subsetD [OF conjunct2 [OF some] imageI [OF c(1)]] show ?thesis by (simp only: c(2))
      qed (use x some in auto)
      then show ?thesis using True by (auto simp: at)
    next
      case False
      then have "x \<in> set found" using x by auto
      then show ?thesis using found [of x] False by (simp only: at if_False)
    qed
  qed
qed

text \<open>The hash that rolls along a file is the hash of the window at the offset.\<close>

lemma initial_hash_window: "initial_window_hash (rs ! f) m = rank_hash (token_window rs m (f, 0))"
  by (simp add: initial_window_hash_def token_window_def slice_def)

lemma rolled_hash_window:
  assumes "1 \<le> m" "off + m < length (rs ! f)"
  shows "roll_window_hash (rank_hash (token_window rs m (f, off))) (rs ! f ! off) (rs ! f ! (off + m)) (hash_base_power m) =
    rank_hash (token_window rs m (f, Suc off))"
proof -
  obtain w where w: "m = Suc w" using assms(1) by (cases m) auto
  let ?t = "rs ! f"
  let ?ws = "slice (Suc off) (off + m) ?t"
  have "slice off (off + m) ?t = ?t ! off # ?ws"
    using assms(2) by (simp add: slice_def w flip: Cons_nth_drop_Suc)
  moreover have "slice (Suc off) (Suc off + m) ?t = ?ws @ [?t ! (off + m)]"
    using slice_Suc [of "Suc off" "off + m" ?t] assms by simp
  moreover have "length ?ws = w" using assms(2) w by simp
  ultimately show ?thesis
    using roll_hash_window [of HASH_BASE "map ucast ?ws" "ucast (?t ! off)" "ucast (?t ! (off + m))"]
    by (simp add: roll_window_hash_def hash_base_power_def token_window_def w del: window_hash_simps)
qed

definition file_seeds :: "u32 list list \<Rightarrow> u32 list option list \<Rightarrow> bool \<Rightarrow> nat \<Rightarrow> nat \<Rightarrow> Occurrence list" where
  "file_seeds rs bps hb m f = (if length (rs ! f) < m then []
     else map (Pair f) (filter (\<lambda>off. \<not> (hb \<and> range_contains_boundary (bps ! f) off m)) [0..<length (rs ! f) - m + 1]))"

definition all_seeds :: "u32 list list \<Rightarrow> u32 list option list \<Rightarrow> bool \<Rightarrow> nat \<Rightarrow> Occurrence list" where
  "all_seeds rs bps hb m = concat (map (file_seeds rs bps hb m) [0..<length rs])"

lemma seed_file_ok:
  assumes m: "1 \<le> m" and ok: "seeds_ok rs m found bs"
  shows "seeds_ok rs m (found @ file_seeds rs bps hb m f) (seed_file rs bps hb m f bs)"
proof (cases "length (rs ! f) < m")
  case False
  let ?n = "length (rs ! f)" and ?keep = "\<lambda>off. \<not> (hb \<and> range_contains_boundary (bps ! f) off m)"
  have "d \<le> Suc (?n - m) \<Longrightarrow>
      (\<exists>h bs'. fold (seed_step rs bps hb m f) [0..<d] (initial_window_hash (rs ! f) m, bs) = (h, bs') \<and>
        (d \<le> ?n - m \<longrightarrow> h = rank_hash (token_window rs m (f, d))) \<and>
        seeds_ok rs m (found @ map (Pair f) (filter ?keep [0..<d])) bs')" for d
  proof (induction d)
    case 0
    then show ?case using ok by (simp add: initial_hash_window)
  next
    case (Suc d)
    then obtain h bs' where IH: "fold (seed_step rs bps hb m f) [0..<d] (initial_window_hash (rs ! f) m, bs) = (h, bs')"
      "h = rank_hash (token_window rs m (f, d))" "seeds_ok rs m (found @ map (Pair f) (filter ?keep [0..<d])) bs'" by auto
    obtain h' bs'' where st: "seed_step rs bps hb m f d (h, bs') = (h', bs'')" by fastforce
    have "h' = rank_hash (token_window rs m (f, Suc d))" if "Suc d \<le> ?n - m"
      using st that IH(2) rolled_hash_window [OF m, of d rs f] by (auto simp: seed_step_def Let_def)
    moreover have "seeds_ok rs m (found @ map (Pair f) (filter ?keep [0..<Suc d])) bs''"
    proof (cases "?keep d")
      case True
      have "bs'' = AList.update h (case map_of bs' h of None \<Rightarrow> One_Class (new_class (f, d))
          | Some b \<Rightarrow> insert_or_append rs m (f, d) b) bs'"
        using st True by (auto simp: seed_step_def Let_def split: option.splits)
      then have "seeds_ok rs m ((found @ map (Pair f) (filter ?keep [0..<d])) @ [(f, d)]) bs''"
        using seeds_ok_insert [OF IH(3), of _ "(f, d)"] unfolding IH(2)
        by (cases "map_of bs' (rank_hash (token_window rs m (f, d)))") (simp_all add: bucket_classes_insert)
      then show ?thesis using True by simp
    next
      case False
      then have "bs'' = bs'" using st by (auto simp: seed_step_def Let_def)
      then show ?thesis using IH(3) False by simp
    qed
    ultimately show ?case using IH(1) st by simp
  qed
  from this [of "Suc (?n - m)"] False show ?thesis
    by (auto simp: seed_file_def file_seeds_def Let_def simp del: upt_Suc)
qed (use ok in \<open>simp add: seed_file_def file_seeds_def Let_def\<close>)

lemma build_seed_buckets_ok:
  assumes "1 \<le> m"
  shows "seeds_ok rs m (all_seeds rs bps hb m) (build_seed_buckets rs bps hb m)"
proof -
  have "seeds_ok rs m (concat (map (file_seeds rs bps hb m) [0..<n])) (fold (seed_file rs bps hb m) [0..<n] [])" for n
  proof (induction n)
    case 0
    then show ?case by (simp add: seeds_ok_def)
  next
    case (Suc n)
    then show ?case using seed_file_ok [OF assms Suc.IH] by simp
  qed
  then show ?thesis by (simp add: build_seed_buckets_def all_seeds_def)
qed

lemma all_seeds_sorted: "sorted (all_seeds rs bps hb m)"
proof -
  have f: "sorted (file_seeds rs bps hb m f)" for f
    by (auto simp: file_seeds_def sorted_map sorted_wrt_filter less_eq_prod_def simp del: upt_Suc)
  have "sorted (concat (map (file_seeds rs bps hb m) [0..<n]))" for n
  proof (induction n)
    case (Suc n)
    have own: "fst x = i" if "x \<in> set (file_seeds rs bps hb m i)" for x i using that by (auto simp: file_seeds_def split: if_splits)
    have "x \<le> y" if x: "x \<in> set (concat (map (file_seeds rs bps hb m) [0..<n]))" "y \<in> set (file_seeds rs bps hb m n)" for x y
    proof -
      obtain i where "i < n" "x \<in> set (file_seeds rs bps hb m i)" using x by auto
      then have "fst x < fst y" using own x(2) by simp
      then show ?thesis by (simp add: less_eq_prod_def)
    qed
    then show ?case using Suc f [of n] by (simp add: sorted_append)
  qed simp
  then show ?thesis by (simp add: all_seeds_def)
qed

lemma all_seeds_in_range: "occ \<in> set (all_seeds rs bps hb m) \<Longrightarrow> fst occ < length rs \<and> snd occ + m \<le> length (rs ! fst occ)"
  by (auto simp: all_seeds_def file_seeds_def split: if_splits)

text \<open>The seed classes.\<close>

definition seed_classes :: "(u64 \<times> SeedBucket) list \<Rightarrow> Occurrence list set" where
  "seed_classes bs = {occ_list (seed_occurrences c) | c. \<exists>h b. map_of bs h = Some b \<and> c \<in> set (bucket_classes b)}"

lemma seeds_ok_classes:
  assumes "seeds_ok rs m found bs"
  shows "seed_classes bs = (\<lambda>occ. filter (\<lambda>occ'. token_window rs m occ' = token_window rs m occ) found) ` set found"
proof
  show "seed_classes bs \<subseteq> (\<lambda>occ. filter (\<lambda>occ'. token_window rs m occ' = token_window rs m occ) found) ` set found"
    using assms unfolding seed_classes_def seeds_ok_def by blast
  show "(\<lambda>occ. filter (\<lambda>occ'. token_window rs m occ' = token_window rs m occ) found) ` set found \<subseteq> seed_classes bs"
  proof (rule image_subsetI)
    fix occ assume "occ \<in> set found"
    then obtain b c where "map_of bs (rank_hash (token_window rs m occ)) = Some b" "c \<in> set (bucket_classes b)"
      "token_window rs m (class_key c) = token_window rs m occ"
      using assms unfolding seeds_ok_def by blast
    moreover from this have "occ_list (seed_occurrences c) = filter (\<lambda>occ'. token_window rs m occ' = token_window rs m (class_key c)) found"
      using assms unfolding seeds_ok_def by blast
    ultimately have "filter (\<lambda>occ'. token_window rs m occ' = token_window rs m occ) found = occ_list (seed_occurrences c)"
      "\<exists>h b. map_of bs h = Some b \<and> c \<in> set (bucket_classes b)" by (simp_all only:) blast
    then show "filter (\<lambda>occ'. token_window rs m occ' = token_window rs m occ) found \<in> seed_classes bs"
      unfolding seed_classes_def by blast
  qed
qed

text \<open>
  C13. The seed classes of the rolling detector are exactly the classes of equal windows: every
  occurrence of a window of the minimal length without a boundary is in the class of all
  occurrences of the same window, in the order of the files, whether or not hashes collide.
\<close>

theorem seed_classes_are_equal_windows:
  assumes "1 \<le> min_tokens"
  shows "seed_classes (build_seed_buckets ranked_files boundary_prefixes has_boundaries min_tokens) =
    (\<lambda>occ. filter (\<lambda>occ'. token_window ranked_files min_tokens occ' = token_window ranked_files min_tokens occ)
      (all_seeds ranked_files boundary_prefixes has_boundaries min_tokens)) `
    set (all_seeds ranked_files boundary_prefixes has_boundaries min_tokens)"
  by (rule seeds_ok_classes [OF build_seed_buckets_ok [OF assms]])

theorem seed_classes_are_equal_windows_witness:
  "seed_classes (build_seed_buckets [[1, 2, 1, 2]] [None] False 2) = {[(0, 0), (0, 2)], [(0, 1)]}"
proof -
  have "all_seeds [[1, 2, 1, 2]] [None] False 2 = [(0, 0), (0, 1), (0, 2)]"
    by (simp add: all_seeds_def file_seeds_def numeral_2_eq_2 upt_rec)
  then show ?thesis
    using seed_classes_are_equal_windows [of 2 "[[1, 2, 1, 2]]" "[None]" False]
    by (simp add: token_window_def slice_def insert_commute)
qed

section \<open>Clones\<close>

lemma build_raw_groups_ok:
  assumes m: "1 \<le> m" and g: "g \<in> set (build_raw_groups bo co rs bps hb (build_seed_buckets rs bps hb m) m)"
  shows "raw_group_ok rs m g"
proof -
  let ?bs = "build_seed_buckets rs bps hb m"
  obtain h b c where b: "map_of ?bs h = Some b" "c \<in> set (bucket_classes b)" "g \<in> set (process_seed_class co rs bps hb m c)"
    using g by (auto simp: build_raw_groups_def map_filter_def)
  then obtain occs where c: "seed_occurrences c = Many_Occurrences occs" "g \<in> set (collect_extended_groups co rs bps hb occs m)"
    by (cases "into_many (seed_occurrences c)") (auto simp: process_seed_class_def into_many_Some split: if_splits)
  have "occ_list (seed_occurrences c) \<in> seed_classes ?bs" using b unfolding seed_classes_def by blast
  then obtain occ where occs: "occs = filter (\<lambda>occ'. token_window rs m occ' = token_window rs m occ) (all_seeds rs bps hb m)"
    unfolding seeds_ok_classes [OF build_seed_buckets_ok [OF m]] c by auto
  have "occurrences_ok rs m occs"
    unfolding occurrences_ok_def occs using all_seeds_sorted all_seeds_in_range by (auto simp: sorted_wrt_filter)
  then show ?thesis using collect_extended_groups_ok [OF _ order_refl m c(2)] by blast
qed

lemma raw_group_clones:
  assumes "raw_group_ok (map (\<lambda>f. map (\<lambda>t. \<rho> (token_hash t)) (hashed_tokens f)) files) m g" and inj: "inj_on \<rho> (corpus_hashes files)"
  shows "clone_group files m g"
proof -
  let ?rs = "map (\<lambda>f. map (\<lambda>t. \<rho> (token_hash t)) (hashed_tokens f)) files" and ?l = "raw_length g"
  have ok: "occurrences_ok ?rs ?l (raw_instances g)" using assms(1) by (simp add: raw_group_ok_def)
  have inn: "in_corpus files i ?l" if "i \<in> set (raw_instances g)" for i
  proof -
    have "fst i < length ?rs \<and> snd i + ?l \<le> length (?rs ! fst i)" using ok that unfolding occurrences_ok_def by blast
    then show ?thesis by (cases "fst i < length files") (simp_all add: in_corpus_def)
  qed
  have win: "token_window ?rs ?l i = map \<rho> (window files i ?l)" if "i \<in> set (raw_instances g)" for i
    using inn [OF that] by (simp add: token_window_def window_def in_corpus_def slice_def take_map drop_map)
  have same: "window files i ?l = window files j ?l" if ij: "i \<in> set (raw_instances g)" "j \<in> set (raw_instances g)" for i j
  proof -
    have "token_window ?rs ?l i = token_window ?rs ?l j" using ok ij unfolding occurrences_ok_def by blast
    then have "map \<rho> (window files i ?l) = map \<rho> (window files j ?l)" unfolding win [OF ij(1)] win [OF ij(2)] .
    moreover have "inj_on \<rho> (set (window files i ?l) \<union> set (window files j ?l))"
      by (rule inj_on_subset [OF inj]) (use window_hashes [OF inn [OF ij(1)]] window_hashes [OF inn [OF ij(2)]] in blast)
    ultimately show ?thesis by (simp only: inj_on_map_eq_map)
  qed
  have "hd (raw_instances g) \<in> set (raw_instances g)" using assms(1) by (intro hd_in_set) (auto simp: raw_group_ok_def)
  then have "list_all (\<lambda>i. in_corpus files i ?l \<and> window files i ?l = window files (hd (raw_instances g)) ?l) (raw_instances g)"
    unfolding list_all_iff using inn same by blast
  then show ?thesis using assms(1) unfolding clone_group_def raw_group_ok_def by blast
qed

lemma rolling_groups_are_clones:
  assumes "card (corpus_hashes files) < 2 ^ 32" "1 \<le> m" "g \<in> set (rolling_raw_groups bo co files m mb)"
  shows "clone_group files m g"
proof -
  obtain \<rho> where r: "inj_on \<rho> (corpus_hashes files)" "rank_reduce files = map (\<lambda>f. map (\<lambda>t. \<rho> (token_hash t)) (hashed_tokens f)) files"
    using rank_reduce_numbers [OF assms(1)] by blast
  have "raw_group_ok (rank_reduce files) m g"
    using assms(3) build_raw_groups_ok [OF assms(2)] unfolding rolling_raw_groups_def Let_def by blast
  then show ?thesis using raw_group_clones r by metis
qed

end
