(* ===== verification/Suffix_Sorting.thy ===== *)
theory Suffix_Sorting
  imports Suffix_Order
begin

text \<open>
  The suffix array construction of the clone detector
  (\<^verbatim>\<open>crates/core/src/duplicates/detect/suffix_array.rs\<close>): induced sorting.  The arrays that
  hold \<^verbatim>\<open>SA_EMPTY\<close> until they are written are lists of options; loops over indices are folds
  over the indices with the arrays as state.
\<close>

section \<open>Types and buckets\<close>

definition classify_types :: "nat list \<Rightarrow> bool list" where
  "classify_types s =
     (let n = length s
      in fold (\<lambda>i is_s. is_s[i := s ! i < s ! (i + 1) \<or> (s ! i = s ! (i + 1) \<and> is_s ! (i + 1))])
           (rev [0..<n - 1]) ((replicate n False)[n - 1 := True]))"

definition is_lms :: "bool list \<Rightarrow> nat \<Rightarrow> bool" where
  "is_lms is_s i \<longleftrightarrow> i > 0 \<and> is_s ! i \<and> \<not> is_s ! (i - 1)"

definition symbol_counts :: "nat list \<Rightarrow> nat \<Rightarrow> nat list" where
  "symbol_counts s alphabet = fold (\<lambda>c counts. counts[c := counts ! c + 1]) s (replicate alphabet 0)"

definition bucket_bounds :: "nat list \<Rightarrow> bool \<Rightarrow> nat list" where
  "bucket_bounds counts upper =
     fst (fold (\<lambda>(c, count) (bounds, sum).
            (let sum = sum + count in (bounds[c := if upper then sum else sum - count], sum)))
          (enumerate 0 counts) (replicate (length counts) 0, 0))"

section \<open>Induced sorting\<close>

type_synonym induce_state = "nat option list \<times> nat list"

definition place_lms :: "nat list \<Rightarrow> nat \<Rightarrow> induce_state \<Rightarrow> induce_state" where
  "place_lms s pos st = (case st of (sa, tails) \<Rightarrow>
     (let c = s ! pos; tails = tails[c := tails ! c - 1] in (sa[tails ! c := Some pos], tails)))"

definition induce_l_step :: "nat list \<Rightarrow> bool list \<Rightarrow> nat \<Rightarrow> induce_state \<Rightarrow> induce_state" where
  "induce_l_step s is_s i st = (case st of (sa, heads) \<Rightarrow>
     (case sa ! i of
        None \<Rightarrow> (sa, heads)
      | Some p \<Rightarrow>
          if p > 0 then
            (let j = p - 1
             in if \<not> is_s ! j then (let c = s ! j in (sa[heads ! c := Some j], heads[c := heads ! c + 1]))
                else (sa, heads))
          else (sa, heads)))"

definition induce_l_type :: "nat list \<Rightarrow> nat option list \<Rightarrow> bool list \<Rightarrow> nat list \<Rightarrow> nat option list" where
  "induce_l_type s sa is_s bucket_starts =
     fst (fold (induce_l_step s is_s) [0..<length sa] (sa, bucket_starts))"

definition induce_s_step :: "nat list \<Rightarrow> bool list \<Rightarrow> nat \<Rightarrow> induce_state \<Rightarrow> induce_state" where
  "induce_s_step s is_s i st = (case st of (sa, tails) \<Rightarrow>
     (case sa ! i of
        None \<Rightarrow> (sa, tails)
      | Some p \<Rightarrow>
          if p > 0 then
            (let j = p - 1
             in if is_s ! j then
                  (let c = s ! j; tails = tails[c := tails ! c - 1] in (sa[tails ! c := Some j], tails))
                else (sa, tails))
          else (sa, tails)))"

definition induce_s_type :: "nat list \<Rightarrow> nat option list \<Rightarrow> bool list \<Rightarrow> nat list \<Rightarrow> nat option list" where
  "induce_s_type s sa is_s bucket_ends =
     fst (fold (induce_s_step s is_s) (rev [0..<length sa]) (sa, bucket_ends))"

text \<open>Both uses: the positions placed in the given order, then the two passes.\<close>

definition induce_from :: "nat list \<Rightarrow> nat \<Rightarrow> nat list \<Rightarrow> nat option list" where
  "induce_from s alphabet order =
     (let is_s = classify_types s; counts = symbol_counts s alphabet;
          bucket_starts = bucket_bounds counts False; bucket_ends = bucket_bounds counts True;
          sa = fst (fold (place_lms s) order (replicate (length s) None, bucket_ends));
          sa = induce_l_type s sa is_s bucket_starts
      in induce_s_type s sa is_s bucket_ends)"

section \<open>Names of the substrings\<close>

function lms_equal_from :: "nat list \<Rightarrow> bool list \<Rightarrow> nat \<Rightarrow> nat \<Rightarrow> nat \<Rightarrow> bool" where
  "lms_equal_from s is_s lhs rhs offset =
     (let len = length s; li = lhs + offset; ri = rhs + offset
      in if li \<ge> len \<or> ri \<ge> len then li \<ge> len \<and> ri \<ge> len
         else if s ! li \<noteq> s ! ri \<or> is_s ! li \<noteq> is_s ! ri then False
         else (let lhs_lms = (offset > 0 \<and> is_lms is_s li); rhs_lms = (offset > 0 \<and> is_lms is_s ri)
               in if lhs_lms \<or> rhs_lms then lhs_lms \<and> rhs_lms
                  else lms_equal_from s is_s lhs rhs (offset + 1)))"
  by pat_completeness auto
termination by (relation "measure (\<lambda>(s, is_s, lhs, rhs, offset). length s - (lhs + offset))") auto

declare lms_equal_from.simps [simp del]

definition lms_substrings_equal :: "nat list \<Rightarrow> bool list \<Rightarrow> nat \<Rightarrow> nat \<Rightarrow> bool" where
  "lms_substrings_equal s is_s lhs rhs = lms_equal_from s is_s lhs rhs 0"

type_synonym name_state = "nat option list \<times> nat \<times> nat option"

definition name_step :: "nat list \<Rightarrow> bool list \<Rightarrow> nat option \<Rightarrow> name_state \<Rightarrow> name_state" where
  "name_step s is_s entry st = (case st of (names, next_name, prev) \<Rightarrow>
     (case entry of
        None \<Rightarrow> st
      | Some pos \<Rightarrow>
          if \<not> is_lms is_s pos then st
          else (let next_name = (case prev of
                    None \<Rightarrow> next_name
                  | Some p \<Rightarrow> if \<not> lms_substrings_equal s is_s p pos then next_name + 1 else next_name)
                in (names[pos := Some next_name], next_name, Some pos))))"

section \<open>The construction\<close>

definition lms_positions :: "nat list \<Rightarrow> nat list" where
  "lms_positions s = filter (is_lms (classify_types s)) [1..<length s]"

definition reduced_problem :: "nat list \<Rightarrow> nat \<Rightarrow> nat list \<times> nat" where
  "reduced_problem s alphabet =
     (let is_s = classify_types s; sa = induce_from s alphabet (lms_positions s);
          (names, next_name, _) = fold (name_step s is_s) sa (replicate (length s) None, 0, None)
      in (map (\<lambda>p. the (names ! p)) (lms_positions s), next_name + 1))"

definition inverse_permutation :: "nat list \<Rightarrow> nat list" where
  "inverse_permutation s1 = fold (\<lambda>(i, name) inv. inv[name := i]) (enumerate 0 s1) (replicate (length s1) 0)"

lemma length_reduced_problem: "length (fst (reduced_problem s alphabet)) = length (lms_positions s)"
  by (simp add: reduced_problem_def Let_def split: prod.splits)

lemma fewer_lms_positions: "1 < length s \<Longrightarrow> length (lms_positions s) < length s"
proof -
  assume "1 < length s"
  moreover have "length (lms_positions s) \<le> length s - 1"
    unfolding lms_positions_def using length_filter_le [of _ "[1..<length s]"] by simp
  ultimately show ?thesis by simp
qed

function sais :: "nat list \<Rightarrow> nat \<Rightarrow> nat list" where
  "sais s alphabet =
     (let n = length s
      in if n = 0 then []
         else if n = 1 then [0]
         else (let (s1, name_count) = reduced_problem s alphabet;
                   sa1 = (if name_count = length s1 then inverse_permutation s1 else sais s1 name_count);
                   lms = lms_positions s
               in map the (induce_from s alphabet (map (\<lambda>idx. lms ! idx) (rev sa1)))))"
  by pat_completeness auto
termination
proof (relation "measure (length \<circ> fst)", goal_cases)
  case (2 s alphabet n r s1 name_count)
  then have "s1 = fst (reduced_problem s alphabet)" by (metis fst_conv)
  moreover have "1 < length s" using 2(1-3) by (cases s) auto
  ultimately show ?case using length_reduced_problem fewer_lms_positions [of s] by simp
qed simp

declare sais.simps [simp del]

definition build_suffix_array :: "int list \<Rightarrow> nat list" where
  "build_suffix_array text =
     (if text = [] then []
      else (let min_val = Min (set text); max_val = Max (set text);
                alphabet = nat (max_val - min_val) + 2;
                s = map (\<lambda>v. nat (v - min_val) + 1) text @ [0]
            in tl (sais s alphabet)))"

end
