(* ===== verification/Suffix_Types.thy ===== *)
theory Suffix_Types
  imports Suffix_Sorting
begin

text \<open>
  Types of suffixes and buckets: a position of a text that ends in its unique least symbol has
  type S when its suffix is below the next one.  The arrays the code computes hold these types
  and the limits of the buckets.
\<close>

section \<open>Types\<close>

definition terminated :: "nat list \<Rightarrow> nat \<Rightarrow> bool" where
  "terminated s k \<longleftrightarrow> s \<noteq> [] \<and> (\<forall>i < length s. s ! i < k) \<and> (\<forall>i < length s. s ! i = 0 \<longleftrightarrow> Suc i = length s)"

definition stype :: "nat list \<Rightarrow> nat \<Rightarrow> bool" where
  "stype s i \<longleftrightarrow> Suc i = length s \<or> drop i s < drop (Suc i) s"

definition lms :: "nat list \<Rightarrow> nat \<Rightarrow> bool" where
  "lms s i \<longleftrightarrow> 0 < i \<and> i < length s \<and> stype s i \<and> \<not> stype s (i - 1)"

lemma stype_last: "Suc i = length s \<Longrightarrow> stype s i"
  by (simp add: stype_def)

lemma stype_Suc:
  assumes "terminated s k" "Suc i < length s"
  shows "stype s i \<longleftrightarrow> s ! i < s ! Suc i \<or> (s ! i = s ! Suc i \<and> stype s (Suc i))"
proof (cases "Suc (Suc i) = length s")
  case True
  then have "s ! Suc i = 0" "s ! i \<noteq> 0" using assms by (simp_all add: terminated_def)
  moreover have "stype s i \<longleftrightarrow> drop i s < drop (Suc i) s" using assms(2) by (simp add: stype_def)
  ultimately show ?thesis using drop_less_iff [of i s "Suc i"] assms(2) by simp
next
  case False
  then show ?thesis using drop_less_iff [of i s "Suc i"] assms(2) by (simp add: stype_def)
qed

lemma stype_less: "terminated s k \<Longrightarrow> Suc i < length s \<Longrightarrow> stype s i \<Longrightarrow> s ! i \<le> s ! Suc i"
  using stype_Suc by fastforce

lemma ltype_greater: "terminated s k \<Longrightarrow> Suc i < length s \<Longrightarrow> \<not> stype s i \<Longrightarrow> s ! Suc i \<le> s ! i"
  using stype_Suc by fastforce

lemma same_symbol_type:
  "terminated s k \<Longrightarrow> Suc i < length s \<Longrightarrow> s ! i = s ! Suc i \<Longrightarrow> stype s i \<longleftrightarrow> stype s (Suc i)"
  using stype_Suc by fastforce

lemma ltype_not_last: "\<not> stype s i \<Longrightarrow> i < length s \<Longrightarrow> Suc i < length s"
  using stype_last [of i s] by (metis Suc_lessI)

text \<open>With the same first symbol, a suffix of type L is below one of type S.\<close>

lemma ltype_below_stype:
  assumes "terminated s k" "p < length s" "q < length s" "s ! p = s ! q" "\<not> stype s p" "stype s q"
  shows "drop p s < drop q s"
  using assms(2-)
proof (induction "length s - p" arbitrary: p q rule: less_induct)
  case less
  have p: "Suc p < length s" using ltype_not_last less.prems by blast
  have "s ! p \<noteq> 0" using assms(1) p less.prems(1) unfolding terminated_def by (metis less_irrefl)
  then have q: "Suc q < length s" using assms(1) less.prems(2,3) unfolding terminated_def by (metis Suc_lessI)
  have le: "s ! Suc p \<le> s ! p" "s ! q \<le> s ! Suc q"
    using ltype_greater [OF assms(1) p] stype_less [OF assms(1) q] less.prems by simp_all
  have "s ! Suc p < s ! Suc q \<or> (s ! Suc p = s ! Suc q \<and> drop (Suc p) s < drop (Suc q) s)"
  proof (cases "s ! Suc p = s ! Suc q")
    case True
    then have "s ! p = s ! Suc p" "s ! q = s ! Suc q" using le less.prems(3) by simp_all
    then have "\<not> stype s (Suc p)" "stype s (Suc q)"
      using same_symbol_type [OF assms(1) p] same_symbol_type [OF assms(1) q] less.prems by simp_all
    then have "drop (Suc p) s < drop (Suc q) s" using less.hyps [of "Suc p" "Suc q"] p q True by simp
    then show ?thesis using True by simp
  qed (use le less.prems(3) in simp)
  then have "drop (Suc p) s < drop (Suc q) s"
    using p q by (simp add: drop_less_iff)
      (metis Cons_less_Cons Cons_nth_drop_Suc)
  then show ?case using less.prems by (simp add: drop_less_iff)
qed

lemma classify_types_stype:
  assumes "terminated s k"
  shows "length (classify_types s) = length s" "\<And>i. i < length s \<Longrightarrow> classify_types s ! i = stype s i"
proof -
  let ?n = "length s" and ?f = "\<lambda>i is_s. is_s[i := s ! i < s ! (i + 1) \<or> (s ! i = s ! (i + 1) \<and> is_s ! (i + 1))]"
  have n: "0 < ?n" using assms by (simp add: terminated_def)
  have main: "let t = fold ?f (rev [m..<?n - 1]) ((replicate ?n False)[?n - 1 := True])
      in length t = ?n \<and> (\<forall>i. m \<le> i \<longrightarrow> i < ?n \<longrightarrow> t ! i = stype s i)" if "m \<le> ?n - 1" for m
    using that
  proof (induction m rule: inc_induct)
    case base
    have "(replicate ?n False)[?n - 1 := True] ! i = stype s i" if "?n - 1 \<le> i" "i < ?n" for i
    proof -
      have "i = ?n - 1" using that by simp
      then show ?thesis using n stype_last [of "?n - 1" s] by simp
    qed
    then show ?case by (simp add: Let_def)
  next
    case (step m)
    let ?t = "fold ?f (rev [Suc m..<?n - 1]) ((replicate ?n False)[?n - 1 := True])"
    have t: "length ?t = ?n" "\<And>i. Suc m \<le> i \<Longrightarrow> i < ?n \<Longrightarrow> ?t ! i = stype s i" using step by (simp_all add: Let_def)
    have "rev [m..<?n - 1] = rev [Suc m..<?n - 1] @ [m]" using step(2) by (simp add: upt_rec)
    then have eq: "fold ?f (rev [m..<?n - 1]) ((replicate ?n False)[?n - 1 := True]) = ?f m ?t" by simp
    have "?f m ?t ! i = stype s i" if "m \<le> i" "i < ?n" for i
    proof (cases "i = m")
      case True
      then show ?thesis using t step(2) stype_Suc [OF assms, of m] by simp
    next
      case False
      then show ?thesis using t that by simp
    qed
    then show ?case unfolding eq using t(1) by (simp add: Let_def)
  qed
  show "length (classify_types s) = length s" using main [of 0] by (simp add: classify_types_def Let_def)
  show "classify_types s ! i = stype s i" if "i < length s" for i
    using main [of 0] that by (simp add: classify_types_def Let_def)
qed

lemma is_lms_lms:
  assumes "terminated s k" "i < length s"
  shows "is_lms (classify_types s) i \<longleftrightarrow> lms s i"
  using assms(2) classify_types_stype [OF assms(1)] by (auto simp: is_lms_def lms_def)

lemma lms_last:
  assumes "terminated s k" "1 < length s"
  shows "lms s (length s - 1)"
proof -
  obtain m where m: "length s = Suc (Suc m)" using assms(2) by (metis One_nat_def Suc_less_eq2 less_imp_Suc_add)
  then have "s ! Suc m = 0" "s ! m \<noteq> 0" using assms(1) by (simp_all add: terminated_def)
  then have "\<not> stype s m" using stype_Suc [OF assms(1), of m] m by simp
  then show ?thesis using stype_last [of "Suc m" s] by (simp add: lms_def m)
qed

lemma ltype_before_stype_lms: "i < length s \<Longrightarrow> \<not> stype s i \<Longrightarrow> stype s (Suc i) \<Longrightarrow> lms s (Suc i)"
  using ltype_not_last by (auto simp: lms_def)

section \<open>Buckets\<close>

definition bstart :: "nat list \<Rightarrow> nat \<Rightarrow> nat" where
  "bstart s c = card {i. i < length s \<and> s ! i < c}"

definition bend :: "nat list \<Rightarrow> nat \<Rightarrow> nat" where
  "bend s c = card {i. i < length s \<and> s ! i \<le> c}"

definition bmid :: "nat list \<Rightarrow> nat \<Rightarrow> nat" where
  "bmid s c = bstart s c + card {i. i < length s \<and> s ! i = c \<and> \<not> stype s i}"

lemma card_positions_split:
  fixes n :: nat
  assumes "\<And>i. P i \<longleftrightarrow> Q i \<or> R i" "\<And>i. \<not> (Q i \<and> R i)"
  shows "card {i. i < n \<and> P i} = card {i. i < n \<and> Q i} + card {i. i < n \<and> R i}"
proof -
  have "{i. i < n \<and> P i} = {i. i < n \<and> Q i} \<union> {i. i < n \<and> R i}" using assms(1) by auto
  moreover have "{i. i < n \<and> Q i} \<inter> {i. i < n \<and> R i} = {}" using assms(2) by auto
  ultimately show ?thesis by (simp add: card_Un_disjoint)
qed

lemma bend_bstart: "bend s c = bstart s c + card {i. i < length s \<and> s ! i = c}"
  unfolding bend_def bstart_def by (rule card_positions_split) auto

lemma bend_bmid: "bend s c = bmid s c + card {i. i < length s \<and> s ! i = c \<and> stype s i}"
proof -
  have "card {i. i < length s \<and> s ! i = c} = card {i. i < length s \<and> s ! i = c \<and> \<not> stype s i} +
      card {i. i < length s \<and> s ! i = c \<and> stype s i}"
    by (rule card_positions_split) auto
  then show ?thesis by (simp add: bend_bstart bmid_def)
qed

lemma bstart_Suc: "bstart s (Suc c) = bend s c"
  by (simp add: bstart_def bend_def less_Suc_eq_le)

lemma bstart_0 [simp]: "bstart s 0 = 0"
  by (simp add: bstart_def)

lemma bucket_order: "c < d \<Longrightarrow> bend s c \<le> bstart s d"
  unfolding bend_def bstart_def by (rule card_mono) auto

lemma bucket_chain [simp]: "bstart s c \<le> bmid s c" "bmid s c \<le> bend s c" "bstart s c \<le> bend s c"
  by (simp_all add: bmid_def bend_bmid bend_bstart)

lemma bend_le [simp]: "bend s c \<le> length s"
proof -
  have "card {i. i < length s \<and> s ! i \<le> c} \<le> card {..<length s}" by (rule card_mono) auto
  then show ?thesis by (simp add: bend_def)
qed

lemma bucket_unique:
  "bstart s c \<le> x \<Longrightarrow> x < bend s c \<Longrightarrow> bstart s d \<le> x \<Longrightarrow> x < bend s d \<Longrightarrow> c = d"
  using bucket_order [of c d s] bucket_order [of d c s] by (cases c d rule: linorder_cases) auto

lemma bucket_below: "x < bend s c \<Longrightarrow> bstart s d \<le> y \<Longrightarrow> c < d \<Longrightarrow> x < y"
  using bucket_order [of c d s] by simp

lemma bucket_exists:
  assumes "terminated s k" "x < length s"
  obtains c where "c < k" "bstart s c \<le> x" "x < bend s c"
proof -
  have "bend s (k - 1) = card {i. i < length s}"
    unfolding bend_def using assms(1) by (intro arg_cong [where f = card]) (fastforce simp: terminated_def)
  then have e: "x < bend s (k - 1)" using assms(2) by simp
  define c where "c = (LEAST c. x < bend s c)"
  have c: "x < bend s c" unfolding c_def by (rule LeastI [of _ "k - 1"]) (rule e)
  have le: "c \<le> k - 1" unfolding c_def by (rule Least_le) (rule e)
  have "0 < k" using assms by (auto simp: terminated_def)
  moreover have "bstart s c \<le> x"
  proof (cases c)
    case (Suc d)
    then have "\<not> x < bend s d" using not_less_Least [of d "\<lambda>c. x < bend s c"] by (simp add: c_def)
    then show ?thesis by (simp add: Suc bstart_Suc)
  qed simp
  ultimately show ?thesis using that [of c] c le by linarith
qed

lemma symbol_counts_nth:
  assumes "terminated s k"
  shows "length (symbol_counts s k) = k" "\<And>c. c < k \<Longrightarrow> symbol_counts s k ! c = card {i. i < length s \<and> s ! i = c}"
proof -
  have main: "length (fold (\<lambda>c counts. counts[c := counts ! c + 1]) xs cs) = length cs \<and>
    (\<forall>c < length cs. fold (\<lambda>c counts. counts[c := counts ! c + 1]) xs cs ! c = cs ! c + length (filter (\<lambda>x. x = c) xs))"
    for xs :: "nat list" and cs :: "nat list"
    by (induction xs arbitrary: cs) (auto simp: nth_list_update)
  show "length (symbol_counts s k) = k" using main [of s "replicate k 0"] by (simp add: symbol_counts_def)
  show "symbol_counts s k ! c = card {i. i < length s \<and> s ! i = c}" if "c < k" for c
    using main [of s "replicate k 0"] that by (simp add: symbol_counts_def length_filter_conv_card)
qed

lemma bucket_bounds_nth:
  assumes "terminated s k"
  shows "length (bucket_bounds (symbol_counts s k) upper) = k"
    "\<And>c. c < k \<Longrightarrow> bucket_bounds (symbol_counts s k) upper ! c = (if upper then bend s c else bstart s c)"
proof -
  let ?cs = "symbol_counts s k"
  let ?f = "\<lambda>(c, count) (bounds, sum). (let sum = sum + count in (bounds[c := if upper then sum else sum - count], sum))"
  note cs = symbol_counts_nth [OF assms]
  have main: "\<exists>b. fold ?f (take m (enumerate 0 ?cs)) (replicate k 0, 0) = (b, bstart s m) \<and> length b = k \<and>
      (\<forall>c < m. b ! c = (if upper then bend s c else bstart s c))" if "m \<le> k" for m
    using that
  proof (induction m)
    case (Suc m)
    have "take (Suc m) (enumerate 0 ?cs) = take m (enumerate 0 ?cs) @ [(m, ?cs ! m)]"
      using Suc.prems cs(1) by (simp add: take_Suc_conv_app_nth nth_enumerate_eq)
    moreover have sum: "bstart s m + ?cs ! m = bend s m" using cs(2) [of m] Suc.prems by (simp add: bend_bstart)
    moreover obtain b where b: "fold ?f (take m (enumerate 0 ?cs)) (replicate k 0, 0) = (b, bstart s m)" "length b = k"
        "\<forall>c < m. b ! c = (if upper then bend s c else bstart s c)" using Suc by auto
    ultimately have "fold ?f (take (Suc m) (enumerate 0 ?cs)) (replicate k 0, 0) =
        (b[m := if upper then bend s m else bstart s m], bstart s (Suc m))"
      by (simp add: Let_def bstart_Suc sum [symmetric])
    then show ?case using b(2,3) Suc.prems by (auto simp: less_Suc_eq)
  qed simp
  have "take k (enumerate 0 ?cs) = enumerate 0 ?cs" by (simp add: cs(1))
  then show "length (bucket_bounds ?cs upper) = k"
    "\<And>c. c < k \<Longrightarrow> bucket_bounds ?cs upper ! c = (if upper then bend s c else bstart s c)"
    using main [of k] cs(1) by (auto simp: bucket_bounds_def)
qed

lemma terminator_bucket:
  assumes "terminated s k"
  shows "bend s 0 = 1" "bmid s 0 = 0"
proof -
  have "{i. i < length s \<and> s ! i \<le> 0} = {length s - 1}" using assms by (auto simp: terminated_def)
  then show b: "bend s 0 = 1" by (simp add: bend_def)
  have "{i. i < length s \<and> s ! i = 0 \<and> \<not> stype s i} = {}"
    using assms stype_last by (auto simp: terminated_def)
  then show "bmid s 0 = 0" by (simp add: bmid_def)
qed

end
