(* ===== verification/Induced_Sorting.thy ===== *)
theory Induced_Sorting
  imports Suffix_Types
begin

text \<open>
  The two passes of induced sorting, for any relation that is determined by the first symbol, the
  type and the relation of the next positions: if the positions placed at first are sorted by
  the relation, so is the whole array.  The relation is the order of suffixes in the second use
  of the passes and a coarser one, up to the next placed position, in the first.
\<close>

section \<open>Entries of the array\<close>

definition entry :: "nat option list \<Rightarrow> nat \<Rightarrow> nat \<Rightarrow> bool" where
  "entry sa x p \<longleftrightarrow> x < length sa \<and> sa ! x = Some p"

lemma entry_fun: "entry sa x p \<Longrightarrow> entry sa x q \<Longrightarrow> p = q"
  by (simp add: entry_def)

lemma entry_update:
  "h < length sa \<Longrightarrow> entry (sa[h := Some j]) x p \<longleftrightarrow> (if x = h then p = j else entry sa x p)"
  by (auto simp: entry_def nth_list_update)

lemma slots_card:
  assumes "\<And>x. a \<le> x \<Longrightarrow> x < b \<Longrightarrow> \<exists>p \<in> P. entry sa x p" "\<And>x y p. entry sa x p \<Longrightarrow> entry sa y p \<Longrightarrow> a \<le> x \<Longrightarrow> a \<le> y \<Longrightarrow> x < b \<Longrightarrow> y < b \<Longrightarrow> x = y"
    "finite P"
  shows "b - a \<le> card P"
proof -
  let ?f = "\<lambda>x. SOME p. p \<in> P \<and> entry sa x p"
  have f: "?f x \<in> P \<and> entry sa x (?f x)" if "x \<in> {a..<b}" for x
    using assms(1) [of x] that someI_ex [of "\<lambda>p. p \<in> P \<and> entry sa x p"] by auto
  have "inj_on ?f {a..<b}"
  proof (rule inj_onI)
    fix x y assume xy: "x \<in> {a..<b}" "y \<in> {a..<b}" "?f x = ?f y"
    then have "entry sa x (?f x)" "entry sa y (?f x)" using f [of x] f [of y] by auto
    then show "x = y" using assms(2) xy(1,2) by auto
  qed
  moreover have "?f ` {a..<b} \<subseteq> P" using f by auto
  ultimately show ?thesis using card_inj_on_le [OF _ _ assms(3)] by fastforce
qed

section \<open>The pass over the type L positions\<close>

definition l_order :: "nat list \<Rightarrow> (nat \<Rightarrow> nat \<Rightarrow> bool) \<Rightarrow> bool" where
  "l_order s le \<longleftrightarrow> (\<forall>p q. p < length s \<longrightarrow> q < length s \<longrightarrow> (s ! p < s ! q \<longrightarrow> le p q) \<and>
     (s ! p = s ! q \<longrightarrow> \<not> stype s p \<longrightarrow> stype s q \<longrightarrow> le p q) \<and>
     (s ! p = s ! q \<longrightarrow> \<not> stype s p \<longrightarrow> \<not> stype s q \<longrightarrow> le (Suc p) (Suc q) \<longrightarrow> le p q))"

definition l_shape :: "nat list \<Rightarrow> nat \<Rightarrow> nat option list \<Rightarrow> nat list \<Rightarrow> bool" where
  "l_shape s k sa heads \<longleftrightarrow> length sa = length s \<and> length heads = k \<and>
     (\<forall>c < k. bstart s c \<le> heads ! c \<and> heads ! c \<le> bmid s c) \<and>
     (\<forall>x p. entry sa x p \<longrightarrow> p < length s \<and>
        (if stype s p then lms s p \<and> bmid s (s ! p) \<le> x \<and> x < bend s (s ! p)
         else bstart s (s ! p) \<le> x \<and> x < heads ! (s ! p))) \<and>
     (\<forall>c < k. \<forall>x. bstart s c \<le> x \<longrightarrow> x < heads ! c \<longrightarrow> (\<exists>p. entry sa x p)) \<and>
     (\<forall>x y p. entry sa x p \<longrightarrow> entry sa y p \<longrightarrow> x = y) \<and>
     (\<forall>p. lms s p \<longrightarrow> (\<exists>x. entry sa x p))"

definition sorted_entries :: "(nat \<Rightarrow> nat \<Rightarrow> bool) \<Rightarrow> nat option list \<Rightarrow> bool" where
  "sorted_entries le sa \<longleftrightarrow> (\<forall>x y p q. x < y \<longrightarrow> entry sa x p \<longrightarrow> entry sa y q \<longrightarrow> le p q)"

definition l_placed :: "nat list \<Rightarrow> nat \<Rightarrow> nat option list \<Rightarrow> bool" where
  "l_placed s i sa \<longleftrightarrow> (\<forall>p < length s. \<not> stype s p \<longrightarrow> ((\<exists>x. entry sa x p) \<longleftrightarrow> (\<exists>y < i. entry sa y (Suc p))))"

lemma l_shapeD:
  assumes "l_shape s k sa heads"
  shows "length sa = length s" "length heads = k"
    "\<And>c. c < k \<Longrightarrow> bstart s c \<le> heads ! c" "\<And>c. c < k \<Longrightarrow> heads ! c \<le> bmid s c"
    "\<And>x p. entry sa x p \<Longrightarrow> p < length s"
    "\<And>x p. entry sa x p \<Longrightarrow> stype s p \<Longrightarrow> lms s p \<and> bmid s (s ! p) \<le> x \<and> x < bend s (s ! p)"
    "\<And>x p. entry sa x p \<Longrightarrow> \<not> stype s p \<Longrightarrow> bstart s (s ! p) \<le> x \<and> x < heads ! (s ! p)"
    "\<And>c x. c < k \<Longrightarrow> bstart s c \<le> x \<Longrightarrow> x < heads ! c \<Longrightarrow> \<exists>p. entry sa x p"
    "\<And>x y p. entry sa x p \<Longrightarrow> entry sa y p \<Longrightarrow> x = y"
    "\<And>p. lms s p \<Longrightarrow> \<exists>x. entry sa x p"
  using assms unfolding l_shape_def by (blast | metis)+

lemma l_entry_bucket:
  assumes t: "terminated s k" and sh: "l_shape s k sa heads" and e: "entry sa x p"
  shows "s ! p < k" "bstart s (s ! p) \<le> x" "x < bend s (s ! p)"
proof -
  show k: "s ! p < k" using t l_shapeD(5) [OF sh e] by (simp add: terminated_def)
  show "bstart s (s ! p) \<le> x"
    using l_shapeD(6,7) [OF sh e] bucket_chain(1) [of s "s ! p"] by (metis le_trans)
  show "x < bend s (s ! p)"
    using l_shapeD(6,7) [OF sh e] l_shapeD(4) [OF sh k] bucket_chain(2) [of s "s ! p"]
    by (metis le_trans less_le_trans)
qed

lemma l_slot_symbol:
  assumes t: "terminated s k" and sh: "l_shape s k sa heads" and e: "entry sa x p" and c: "c < k" "bstart s c \<le> x" "x < heads ! c"
  shows "s ! p = c" "\<not> stype s p"
proof -
  have x: "x < bend s c" using c l_shapeD(4) [OF sh c(1)] bucket_chain(2) [of s c] by linarith
  show eq: "s ! p = c" using bucket_unique [OF _ _ c(2) x] l_entry_bucket [OF t sh e] by blast
  show "\<not> stype s p" using l_shapeD(6) [OF sh e] l_shapeD(4) [OF sh c(1)] c(3) eq by fastforce
qed

lemma l_free_slot:
  assumes t: "terminated s k" and sh: "l_shape s k sa heads" and j: "j < length s" "\<not> stype s j" "\<And>x. \<not> entry sa x j"
  shows "heads ! (s ! j) < bmid s (s ! j)"
proof -
  let ?c = "s ! j" and ?P = "{p. p < length s \<and> s ! p = s ! j \<and> \<not> stype s p}"
  have c: "?c < k" using t j(1) by (simp add: terminated_def)
  have "heads ! ?c - bstart s ?c \<le> card (?P - {j})"
  proof (rule slots_card [where sa = sa])
    fix x assume x: "bstart s ?c \<le> x" "x < heads ! ?c"
    obtain p where p: "entry sa x p" using l_shapeD(8) [OF sh c x] by blast
    then have "p \<in> ?P - {j}" using l_slot_symbol [OF t sh p c x] l_shapeD(5) [OF sh p] j(3) by auto
    with p show "\<exists>p \<in> ?P - {j}. entry sa x p" by blast
  qed (use l_shapeD(9) [OF sh] in auto)
  also have "\<dots> < card ?P" using j by (intro psubset_card_mono) auto
  finally show ?thesis using l_shapeD(3) [OF sh c] by (simp add: bmid_def)
qed

text \<open>Writing a new position at the head of its bucket, ahead of the scan.\<close>

lemma l_write:
  assumes t: "terminated s k" and sh: "l_shape s k sa heads" and srt: "sorted_entries le sa" and pl: "l_placed s i sa"
    and ord: "l_order s le" and e: "entry sa i (Suc j)" and j: "\<not> stype s j"
  defines "h \<equiv> heads ! (s ! j)"
  shows "l_shape s k (sa[h := Some j]) (heads[s ! j := h + 1])" "sorted_entries le (sa[h := Some j])"
    "l_placed s (Suc i) (sa[h := Some j])"
proof -
  note D = l_shapeD [OF sh]
  let ?c = "s ! j"
  have jn: "Suc j < length s" using D(5) [OF e] .
  then have c: "?c < k" using t by (simp add: terminated_def)
  have new: "\<not> entry sa x j" for x
  proof
    assume "entry sa x j"
    then obtain y where "y < i" "entry sa y (Suc j)" using pl j jn unfolding l_placed_def by (meson Suc_lessD)
    then show False using D(9) e by blast
  qed
  have h: "bstart s ?c \<le> h" "h < bmid s ?c" using l_free_slot [OF t sh _ j new] D(3) [OF c] jn by (simp_all add: h_def)
  have hn: "h < length sa" using h(2) bucket_chain(2) [of s ?c] bend_le [of s ?c] D(1) by linarith
  have ih: "i < h"
  proof (cases "s ! Suc j = ?c")
    case True
    then have "\<not> stype s (Suc j)" using same_symbol_type [OF t jn] j by simp
    then show ?thesis using D(7) [OF e] True by (simp add: h_def)
  next
    case False
    then have "s ! Suc j < ?c" using ltype_greater [OF t jn j] by simp
    then show ?thesis using bucket_below [OF l_entry_bucket(3) [OF t sh e] h(1)] by blast
  qed
  have free: "\<not> entry sa h p" for p
  proof
    assume p: "entry sa h p"
    have "h < bend s ?c" using h(2) bucket_chain(2) [of s ?c] by linarith
    then have "s ! p = ?c" using bucket_unique [OF _ _ h(1)] l_entry_bucket [OF t sh p] by blast
    then show False using D(6,7) [OF p] h(2) by (cases "stype s p") (auto simp: h_def)
  qed
  have upd: "entry (sa[h := Some j]) x p \<longleftrightarrow> (x = h \<and> p = j) \<or> (entry sa x p)" for x p
    using free by (auto simp: entry_update [OF hn])
  show "l_shape s k (sa[h := Some j]) (heads[?c := h + 1])"
    unfolding l_shape_def
  proof (intro conjI allI impI)
    fix d x assume d: "d < k" "bstart s d \<le> x" "x < heads[?c := h + 1] ! d"
    show "\<exists>p. entry (sa[h := Some j]) x p"
    proof (cases "d = ?c")
      case True
      then have "x = h \<or> x < heads ! d" using d D(2) by (auto simp: h_def)
      then show ?thesis using D(8) [OF d(1,2)] upd by blast
    next
      case False
      then show ?thesis using D(8) [OF d(1,2)] d(3) upd by auto
    qed
  next
    fix x p assume "entry (sa[h := Some j]) x p"
    then have "(x = h \<and> p = j) \<or> entry sa x p" by (simp add: upd)
    then show "p < length s" using D(5) jn by auto
  next
    fix x p assume "entry (sa[h := Some j]) x p"
    then consider "x = h" "p = j" | "entry sa x p" by (auto simp: upd)
    then show "if stype s p then lms s p \<and> bmid s (s ! p) \<le> x \<and> x < bend s (s ! p)
         else bstart s (s ! p) \<le> x \<and> x < heads[?c := h + 1] ! (s ! p)"
    proof cases
      case 1
      then show ?thesis using j h(1) c D(2) by simp
    next
      case 2
      then show ?thesis using D(6,7) [OF 2] c D(2) by (cases "s ! p = ?c") (auto simp: h_def)
    qed
  next
    fix x y p assume "entry (sa[h := Some j]) x p" "entry (sa[h := Some j]) y p"
    then show "x = y" using D(9) new by (auto simp: upd)
  next
    fix p assume "lms s p"
    then show "\<exists>x. entry (sa[h := Some j]) x p" using D(10) upd by blast
  qed (use D(1-4) h c in \<open>auto simp: nth_list_update h_def intro: le_SucI\<close>)
  show "sorted_entries le (sa[h := Some j])"
    unfolding sorted_entries_def
  proof (intro allI impI)
    fix x y p q assume xy: "x < y" "entry (sa[h := Some j]) x p" "entry (sa[h := Some j]) y q"
    consider "entry sa x p" "entry sa y q" | "x = h" "p = j" "entry sa y q" | "y = h" "q = j" "entry sa x p"
      using xy by (auto simp: upd)
    then show "le p q"
    proof cases
      case 1
      then show ?thesis using srt xy(1) unfolding sorted_entries_def by blast
    next
      case 2
      have "\<not> s ! q < ?c" using bucket_below [OF l_entry_bucket(3) [OF t sh 2(3)] h(1)] xy(1) 2(1) by fastforce
      moreover have "stype s q" if "s ! q = ?c" using D(7) [OF 2(3)] that xy(1) 2(1) by (cases "stype s q") (auto simp: h_def)
      ultimately show ?thesis using ord D(5) [OF 2(3)] jn j 2(2) unfolding l_order_def
        by (metis Suc_lessD linorder_neqE_nat)
    next
      case 3
      have hc: "h < bend s ?c" using h(2) bucket_chain(2) [of s ?c] by linarith
      have "\<not> ?c < s ! p" using bucket_below [OF hc l_entry_bucket(2) [OF t sh 3(3)]] xy(1) 3(1) by fastforce
      moreover have "le p j" if "s ! p = ?c"
      proof -
        have p: "\<not> stype s p" using D(6) [OF 3(3)] that h(2) xy(1) 3(1) by fastforce
        then obtain y' where y': "y' < i" "entry sa y' (Suc p)" using pl D(5) [OF 3(3)] 3(3) unfolding l_placed_def by blast
        then have "le (Suc p) (Suc j)" using srt e unfolding sorted_entries_def by blast
        then show ?thesis using ord D(5) [OF 3(3)] jn j p that unfolding l_order_def by (meson Suc_lessD)
      qed
      ultimately show ?thesis using ord D(5) [OF 3(3)] jn 3(2) unfolding l_order_def
        by (metis Suc_lessD linorder_neqE_nat)
    qed
  qed
  show "l_placed s (Suc i) (sa[h := Some j])"
    unfolding l_placed_def
  proof (intro allI impI)
    fix p assume p: "p < length s" "\<not> stype s p"
    have "(\<exists>x. entry (sa[h := Some j]) x p) \<longleftrightarrow> p = j \<or> (\<exists>y < i. entry sa y (Suc p))"
      using pl p upd unfolding l_placed_def by blast
    also have "\<dots> \<longleftrightarrow> (\<exists>y < Suc i. entry sa y (Suc p))"
      using e entry_fun [OF e] unfolding less_Suc_eq by blast
    also have "\<dots> \<longleftrightarrow> (\<exists>y < Suc i. entry (sa[h := Some j]) y (Suc p))"
      using ih upd by (metis less_Suc_eq less_irrefl not_less_eq)
    finally show "(\<exists>x. entry (sa[h := Some j]) x p) \<longleftrightarrow> (\<exists>y < Suc i. entry (sa[h := Some j]) y (Suc p))" .
  qed
qed

lemma l_skip:
  assumes "l_placed s i sa" "\<And>j. entry sa i (Suc j) \<Longrightarrow> stype s j"
  shows "l_placed s (Suc i) sa"
  using assms unfolding l_placed_def less_Suc_eq by blast

definition l_inv :: "nat list \<Rightarrow> nat \<Rightarrow> (nat \<Rightarrow> nat \<Rightarrow> bool) \<Rightarrow> nat \<Rightarrow> induce_state \<Rightarrow> bool" where
  "l_inv s k le i st \<longleftrightarrow> l_shape s k (fst st) (snd st) \<and> sorted_entries le (fst st) \<and> l_placed s i (fst st)"

lemma induce_l_step_inv:
  assumes t: "terminated s k" and ord: "l_order s le" and inv: "l_inv s k le i st" and i: "i < length s"
  shows "l_inv s k le (Suc i) (induce_l_step s (classify_types s) i st)"
proof -
  obtain sa heads where st: "st = (sa, heads)" by (cases st)
  have I: "l_shape s k sa heads" "sorted_entries le sa" "l_placed s i sa" using inv by (simp_all add: l_inv_def st)
  have ent: "entry sa i p \<longleftrightarrow> sa ! i = Some p" for p using l_shapeD(1) [OF I(1)] i by (simp add: entry_def)
  show ?thesis
  proof (cases "\<exists>j. sa ! i = Some (Suc j) \<and> \<not> stype s j")
    case True
    then obtain j where j: "sa ! i = Some (Suc j)" "\<not> stype s j" by blast
    then have "j < length s" using l_shapeD(5) [OF I(1), of i "Suc j"] ent by auto
    then have "induce_l_step s (classify_types s) i st = (sa[heads ! (s ! j) := Some j], heads[s ! j := heads ! (s ! j) + 1])"
      using j classify_types_stype(2) [OF t, of j] by (simp add: induce_l_step_def st Let_def)
    then show ?thesis using l_write [OF t I ord _ j(2)] j(1) ent by (simp add: l_inv_def)
  next
    case False
    have "induce_l_step s (classify_types s) i st = st"
    proof (cases "sa ! i")
      case (Some p)
      then have "p < length s" using l_shapeD(5) [OF I(1), of i p] ent by simp
      then show ?thesis using Some False classify_types_stype(2) [OF t, of "p - 1"]
        by (cases p) (auto simp: induce_l_step_def st)
    qed (simp add: induce_l_step_def st)
    moreover have "l_placed s (Suc i) sa" using l_skip [OF I(3)] False ent by blast
    ultimately show ?thesis using I by (simp add: l_inv_def st)
  qed
qed

lemma induce_l_fold:
  assumes t: "terminated s k" and ord: "l_order s le" and inv: "l_inv s k le 0 st" and m: "m \<le> length s"
  shows "l_inv s k le m (fold (induce_l_step s (classify_types s)) [0..<m] st)"
  using m
proof (induction m)
  case (Suc m)
  then show ?case using induce_l_step_inv [OF t ord, of m] by simp
qed (use inv in simp)

text \<open>After the pass the array holds every position of type L.\<close>

lemma l_complete:
  assumes t: "terminated s k" and sh: "l_shape s k sa heads" and pl: "l_placed s (length s) sa"
    and p: "p < length s" "\<not> stype s p"
  shows "\<exists>x. entry sa x p"
  using p
proof (induction "length s - p" arbitrary: p rule: less_induct)
  case less
  have n: "Suc p < length s" using ltype_not_last less.prems by blast
  have "\<exists>y. entry sa y (Suc p)"
  proof (cases "stype s (Suc p)")
    case True
    then show ?thesis using l_shapeD(10) [OF sh] ltype_before_stype_lms less.prems by blast
  next
    case False
    then show ?thesis using less.hyps [of "Suc p"] n by simp
  qed
  then obtain y where y: "entry sa y (Suc p)" by blast
  then have "y < length s" using l_shapeD(1) [OF sh] by (simp add: entry_def)
  then show ?case using pl less.prems y unfolding l_placed_def by blast
qed

section \<open>The pass over the type S positions\<close>

text \<open>
  The pass reads and writes only live slots: the slots of type L, those of type S it has written,
  and the first, which holds the terminator.
\<close>

definition live :: "nat list \<Rightarrow> nat list \<Rightarrow> nat \<Rightarrow> nat \<Rightarrow> bool" where
  "live s tails c x \<longleftrightarrow> bstart s c \<le> x \<and> x < bend s c \<and> (x < bmid s c \<or> tails ! c \<le> x \<or> x = 0)"

definition live_entry :: "nat list \<Rightarrow> nat option list \<Rightarrow> nat list \<Rightarrow> nat \<Rightarrow> nat \<Rightarrow> bool" where
  "live_entry s sa tails x p \<longleftrightarrow> entry sa x p \<and> p < length s \<and> live s tails (s ! p) x \<and> (stype s p \<longleftrightarrow> bmid s (s ! p) \<le> x)"

definition s_order :: "nat list \<Rightarrow> (nat \<Rightarrow> nat \<Rightarrow> bool) \<Rightarrow> bool" where
  "s_order s le \<longleftrightarrow> (\<forall>p q. p < length s \<longrightarrow> q < length s \<longrightarrow> (s ! p < s ! q \<longrightarrow> le p q) \<and>
     (s ! p = s ! q \<longrightarrow> \<not> stype s p \<longrightarrow> stype s q \<longrightarrow> le p q) \<and>
     (s ! p = s ! q \<longrightarrow> stype s p \<longrightarrow> stype s q \<longrightarrow> Suc p < length s \<longrightarrow> Suc q < length s \<longrightarrow>
        le (Suc p) (Suc q) \<longrightarrow> le p q))"

definition s_shape :: "nat list \<Rightarrow> nat \<Rightarrow> nat option list \<Rightarrow> nat list \<Rightarrow> bool" where
  "s_shape s k sa tails \<longleftrightarrow> length sa = length s \<and> length tails = k \<and> tails ! 0 = 1 \<and>
     (\<forall>c < k. bmid s c \<le> tails ! c \<and> tails ! c \<le> bend s c) \<and>
     (\<forall>c < k. \<forall>x. live s tails c x \<longrightarrow> (\<exists>p. live_entry s sa tails x p)) \<and>
     (\<forall>x y p. live_entry s sa tails x p \<longrightarrow> live_entry s sa tails y p \<longrightarrow> x = y) \<and>
     live_entry s sa tails 0 (length s - 1)"

definition s_sorted :: "nat list \<Rightarrow> (nat \<Rightarrow> nat \<Rightarrow> bool) \<Rightarrow> nat option list \<Rightarrow> nat list \<Rightarrow> bool" where
  "s_sorted s le sa tails \<longleftrightarrow>
     (\<forall>x y p q. x < y \<longrightarrow> live_entry s sa tails x p \<longrightarrow> live_entry s sa tails y q \<longrightarrow> le p q)"

definition s_placed :: "nat list \<Rightarrow> nat \<Rightarrow> nat option list \<Rightarrow> nat list \<Rightarrow> bool" where
  "s_placed s i sa tails \<longleftrightarrow> (\<forall>p. Suc p < length s \<longrightarrow> stype s p \<longrightarrow>
     ((\<exists>x. live_entry s sa tails x p) \<longleftrightarrow> (\<exists>y \<ge> i. live_entry s sa tails y (Suc p))))"

definition s_scanned :: "nat list \<Rightarrow> nat \<Rightarrow> nat option list \<Rightarrow> nat list \<Rightarrow> bool" where
  "s_scanned s i sa tails \<longleftrightarrow> (\<forall>y. i \<le> y \<longrightarrow> y < length s \<longrightarrow> (\<exists>p. live_entry s sa tails y p))"

lemma s_shapeD:
  assumes "s_shape s k sa tails"
  shows "length sa = length s" "length tails = k" "tails ! 0 = 1"
    "\<And>c. c < k \<Longrightarrow> bmid s c \<le> tails ! c" "\<And>c. c < k \<Longrightarrow> tails ! c \<le> bend s c"
    "\<And>c x. c < k \<Longrightarrow> live s tails c x \<Longrightarrow> \<exists>p. live_entry s sa tails x p"
    "\<And>x y p. live_entry s sa tails x p \<Longrightarrow> live_entry s sa tails y p \<Longrightarrow> x = y"
    "live_entry s sa tails 0 (length s - 1)"
  using assms unfolding s_shape_def by (blast | metis)+

lemma live_entryD:
  assumes "live_entry s sa tails x p"
  shows "entry sa x p" "p < length s" "bstart s (s ! p) \<le> x" "x < bend s (s ! p)" "live s tails (s ! p) x"
    "stype s p \<longleftrightarrow> bmid s (s ! p) \<le> x"
  using assms by (auto simp: live_entry_def live_def)

lemma live_symbol:
  assumes "live_entry s sa tails x p" "bstart s c \<le> x" "x < bend s c"
  shows "s ! p = c"
  using bucket_unique [OF live_entryD(3,4) [OF assms(1)] assms(2,3)] .

text \<open>A scanned bucket holds all positions of its symbol.\<close>

lemma bucket_full:
  assumes t: "terminated s k" and sh: "s_shape s k sa tails" and c: "c < k"
    and full: "\<And>x. bstart s c \<le> x \<Longrightarrow> x < bend s c \<Longrightarrow> \<exists>p. live_entry s sa tails x p"
    and p: "p < length s" "s ! p = c"
  shows "\<exists>x. live_entry s sa tails x p"
proof (rule ccontr)
  assume no: "\<not> (\<exists>x. live_entry s sa tails x p)"
  let ?P = "{i. i < length s \<and> s ! i = c}"
  have "bend s c - bstart s c \<le> card (?P - {p})"
  proof (rule slots_card [where sa = sa])
    fix x assume x: "bstart s c \<le> x" "x < bend s c"
    obtain q where q: "live_entry s sa tails x q" using full [OF x] by blast
    then have "q \<in> ?P - {p}" using live_symbol [OF q x] no live_entryD(2) [OF q] by auto
    with live_entryD(1) [OF q] show "\<exists>q \<in> ?P - {p}. entry sa x q" by blast
  next
    fix x y q assume q: "entry sa x q" "entry sa y q" "bstart s c \<le> x" "bstart s c \<le> y" "x < bend s c" "y < bend s c"
    obtain a b where "live_entry s sa tails x a" "live_entry s sa tails y b" using full q by blast
    then show "x = y" using s_shapeD(7) [OF sh] live_entryD(1) entry_fun q(1,2) by metis
  qed simp
  also have "\<dots> < card ?P" using p by (intro psubset_card_mono) auto
  finally show False using bend_bstart [of s c] by simp
qed

lemma s_free_slot:
  assumes t: "terminated s k" and sh: "s_shape s k sa tails" and j: "Suc j < length s" "stype s j" "\<And>x. \<not> live_entry s sa tails x j"
  shows "bmid s (s ! j) < tails ! (s ! j)"
proof -
  let ?c = "s ! j" and ?P = "{p. p < length s \<and> s ! p = s ! j \<and> stype s p}"
  have c: "?c < k" using t j(1) by (simp add: terminated_def)
  have lv: "live s tails ?c x" if "tails ! ?c \<le> x" "x < bend s ?c" for x
    using that s_shapeD(4) [OF sh c] bucket_chain(1) [of s ?c] unfolding live_def by linarith
  have "bend s ?c - tails ! ?c \<le> card (?P - {j})"
  proof (rule slots_card [where sa = sa])
    fix x assume x: "tails ! ?c \<le> x" "x < bend s ?c"
    obtain p where p: "live_entry s sa tails x p" using s_shapeD(6) [OF sh c lv [OF x]] by blast
    have b: "bmid s ?c \<le> x" using x s_shapeD(4) [OF sh c] by simp
    then have "s ! p = ?c" using live_symbol [OF p _ x(2)] bucket_chain(1) [of s ?c] by simp
    then have "p \<in> ?P - {j}" using live_entryD(2,6) [OF p] b j(3) p by auto
    with live_entryD(1) [OF p] show "\<exists>p \<in> ?P - {j}. entry sa x p" by blast
  next
    fix x y q assume q: "entry sa x q" "entry sa y q" "tails ! ?c \<le> x" "tails ! ?c \<le> y" "x < bend s ?c" "y < bend s ?c"
    obtain a b where "live_entry s sa tails x a" "live_entry s sa tails y b"
      using s_shapeD(6) [OF sh c lv] q by metis
    then show "x = y" using s_shapeD(7) [OF sh] live_entryD(1) entry_fun q(1,2) by metis
  qed simp
  also have "\<dots> < card ?P" using j by (intro psubset_card_mono) auto
  finally show ?thesis using s_shapeD(5) [OF sh c] bend_bmid [of s ?c] by linarith
qed

text \<open>The next slot to scan is live.\<close>

lemma s_next_live:
  assumes t: "terminated s k" and sh: "s_shape s k sa tails" and pl: "s_placed s (Suc i) sa tails"
    and sc: "s_scanned s (Suc i) sa tails" and i: "i < length s"
  shows "\<exists>p. live_entry s sa tails i p"
proof -
  obtain c where c: "c < k" "bstart s c \<le> i" "i < bend s c" using bucket_exists [OF t i] .
  show ?thesis
  proof (cases "live s tails c i")
    case True
    then show ?thesis using s_shapeD(6) [OF sh c(1)] by blast
  next
    case False
    then have f: "bmid s c \<le> i" "i < tails ! c" "i \<noteq> 0" using c by (auto simp: live_def)
    have c0: "c \<noteq> 0" using terminator_bucket [OF t] f(3) c(3) by (cases "c = 0") auto
    have upper: "\<exists>p. live_entry s sa tails x p" if "i < x" "x < bend s d" for x d
      using sc that bend_le [of s d] unfolding s_scanned_def by (meson Suc_leI le_trans less_le_trans)
    have all: "\<exists>x. live_entry s sa tails x p" if "p < length s" "s ! p = c" "stype s p" for p
      using that
    proof (induction "length s - p" arbitrary: p rule: less_induct)
      case less
      have n: "Suc p < length s" using t less.prems c0 unfolding terminated_def by (metis Suc_lessI)
      let ?d = "s ! Suc p"
      have d: "?d < k" using t n by (simp add: terminated_def)
      have "\<exists>y. live_entry s sa tails y (Suc p)"
      proof (cases "?d = c")
        case True
        then have "stype s (Suc p)" using same_symbol_type [OF t n] less.prems by simp
        then show ?thesis using less.hyps [of "Suc p"] n True by simp
      next
        case False
        then have "c < ?d" using stype_less [OF t n less.prems(3)] less.prems(2) by simp
        then have "i < x" if "bstart s ?d \<le> x" for x using bucket_below [OF c(3) that] by simp
        then show ?thesis using bucket_full [OF t sh d _ n refl] upper by blast
      qed
      then obtain y where y: "live_entry s sa tails y (Suc p)" by blast
      have "Suc i \<le> y"
      proof (cases "?d = c")
        case True
        then have "stype s (Suc p)" using same_symbol_type [OF t n] less.prems by simp
        then have "bmid s c \<le> y" using live_entryD(6) [OF y] True by simp
        moreover have "y \<noteq> 0" using f(3) c0 live_entryD(3) [OF y] True bucket_order [of 0 c s] terminator_bucket(1) [OF t]
          by (metis neq0_conv le_zero_eq not_one_le_zero)
        ultimately have "tails ! c \<le> y" using live_entryD(5) [OF y] True by (simp add: live_def)
        then show ?thesis using f(2) by simp
      next
        case False
        then have "c < ?d" using stype_less [OF t n less.prems(3)] less.prems(2) by simp
        then show ?thesis using bucket_below [OF c(3) live_entryD(3) [OF y]] by simp
      qed
      then show ?case using pl n less.prems(3) y unfolding s_placed_def by blast
    qed
    let ?P = "{p. p < length s \<and> s ! p = c \<and> stype s p}"
    have slot: "bmid s c \<le> x \<and> tails ! c \<le> x \<and> x < bend s c" if "live_entry s sa tails x p" "p \<in> ?P" for x p
    proof -
      have "live s tails c x" "bmid s c \<le> x" using live_entryD(5,6) [OF that(1)] that(2) by auto
      moreover have "x \<noteq> 0" using c0 live_entryD(3) [OF that(1)] that(2) bucket_order [of 0 c s] terminator_bucket(1) [OF t]
        by (cases "x = 0") auto
      ultimately show ?thesis by (auto simp: live_def)
    qed
    have "card ?P \<le> card {tails ! c..<bend s c}"
    proof (rule card_inj_on_le)
      let ?g = "\<lambda>p. SOME x. live_entry s sa tails x p"
      have g: "live_entry s sa tails (?g p) p" if "p \<in> ?P" for p using all [of p] that someI_ex [of "\<lambda>x. live_entry s sa tails x p"] by auto
      show "inj_on ?g ?P"
      proof (rule inj_onI)
        fix p q assume pq: "p \<in> ?P" "q \<in> ?P" "?g p = ?g q"
        have "entry sa (?g p) p" "entry sa (?g p) q" using live_entryD(1) [OF g [OF pq(1)]] live_entryD(1) [OF g [OF pq(2)]] pq(3) by simp_all
        then show "p = q" by (rule entry_fun)
      qed
      show "?g ` ?P \<subseteq> {tails ! c..<bend s c}" using slot g by fastforce
    qed simp
    then have "bend s c - bmid s c \<le> bend s c - tails ! c" using bend_bmid [of s c] by simp
    then show ?thesis using f s_shapeD(5) [OF sh c(1)] by linarith
  qed
qed

lemma inner_symbol: "terminated s k \<Longrightarrow> Suc p < length s \<Longrightarrow> 0 < s ! p \<and> s ! p < k"
  unfolding terminated_def by (metis Suc_lessD less_irrefl neq0_conv)

lemma later_bucket: "terminated s k \<Longrightarrow> 0 < c \<Longrightarrow> bstart s c \<le> x \<Longrightarrow> x \<noteq> 0"
  using bucket_order [of 0 c s] terminator_bucket(1) by fastforce

lemma s_write:
  assumes t: "terminated s k" and sh: "s_shape s k sa tails" and srt: "s_sorted s le sa tails"
    and pl: "s_placed s (Suc i) sa tails" and sc: "s_scanned s (Suc i) sa tails"
    and ord: "s_order s le" and e: "live_entry s sa tails i (Suc j)" and j: "stype s j"
  defines "h \<equiv> tails ! (s ! j) - 1"
  shows "s_shape s k (sa[h := Some j]) (tails[s ! j := h])" "s_sorted s le (sa[h := Some j]) (tails[s ! j := h])"
    "s_placed s i (sa[h := Some j]) (tails[s ! j := h])" "s_scanned s i (sa[h := Some j]) (tails[s ! j := h])"
proof -
  note D = s_shapeD [OF sh]
  let ?c = "s ! j" and ?sa = "sa[h := Some j]" and ?tails = "tails[s ! j := h]"
  have jn: "Suc j < length s" using live_entryD(2) [OF e] .
  have c: "?c < k" "0 < ?c" using inner_symbol [OF t jn] by simp_all
  have new: "\<not> live_entry s sa tails x j" for x
  proof
    assume "live_entry s sa tails x j"
    then obtain y where "Suc i \<le> y" "live_entry s sa tails y (Suc j)" using pl j jn unfolding s_placed_def by blast
    then show False using D(7) [OF _ e] by fastforce
  qed
  have h123: "bmid s ?c \<le> h" "h < tails ! ?c" "h < bend s ?c"
    using s_free_slot [OF t sh jn j new] D(5) [OF c(1)] by (simp_all add: h_def)
  moreover have "bstart s ?c \<le> h" using bucket_chain(1) [of s ?c] h123(1) by (rule le_trans)
  ultimately have h: "bmid s ?c \<le> h" "h < tails ! ?c" "h < bend s ?c" "bstart s ?c \<le> h" by blast+
  have h0: "h \<noteq> 0" using later_bucket [OF t c(2) h(4)] .
  have hn: "h < length sa" using h(3) bend_le [of s ?c] D(1) by linarith
  have hi: "h < i"
  proof (cases "s ! Suc j = ?c")
    case True
    then have S: "stype s (Suc j)" using same_symbol_type [OF t jn] j by simp
    have "i \<noteq> 0" using later_bucket [OF t c(2)] live_entryD(3) [OF e] True by simp
    then have "tails ! ?c \<le> i" using live_entryD(5,6) [OF e] S True by (auto simp: live_def)
    then show ?thesis using h(2) by simp
  next
    case False
    then have "?c < s ! Suc j" using stype_less [OF t jn j] by simp
    then show ?thesis using bucket_below [OF h(3) live_entryD(3) [OF e]] by blast
  qed
  have live': "live s ?tails d x \<longleftrightarrow> live s tails d x \<or> (d = ?c \<and> x = h)" for d x
    using h h0 D(2) c(1) by (cases "d = ?c") (auto simp: live_def h_def)
  have free: "\<not> live_entry s sa tails h p" for p
  proof
    assume p: "live_entry s sa tails h p"
    then have "s ! p = ?c" using live_symbol [OF p h(4,3)] by simp
    then show False using live_entryD(5) [OF p] h h0 by (auto simp: live_def)
  qed
  have upd: "live_entry s ?sa ?tails x p \<longleftrightarrow> (x = h \<and> p = j) \<or> live_entry s sa tails x p" for x p
  proof (cases "x = h")
    case True
    then show ?thesis using free [of p] j jn h live' by (auto simp: live_entry_def entry_update [OF hn])
  next
    case False
    then show ?thesis using live' [of "s ! p" x] by (auto simp: live_entry_def entry_update [OF hn])
  qed
  show "s_shape s k ?sa ?tails"
    unfolding s_shape_def
  proof (intro conjI allI impI)
    fix d x assume d: "d < k" "live s ?tails d x"
    then show "\<exists>p. live_entry s ?sa ?tails x p" using D(6) live' upd by blast
  next
    fix x y p assume "live_entry s ?sa ?tails x p" "live_entry s ?sa ?tails y p"
    then show "x = y" using D(7) new by (auto simp: upd)
  next
    show "live_entry s ?sa ?tails 0 (length s - 1)" using D(8) upd by blast
  qed (use D(1-5) h c in \<open>auto simp: nth_list_update\<close>)
  show "s_sorted s le ?sa ?tails"
    unfolding s_sorted_def
  proof (intro allI impI)
    fix x y p q assume xy: "x < y" "live_entry s ?sa ?tails x p" "live_entry s ?sa ?tails y q"
    consider "live_entry s sa tails x p" "live_entry s sa tails y q" | "x = h" "p = j" "live_entry s sa tails y q"
      | "y = h" "q = j" "live_entry s sa tails x p"
      using xy by (auto simp: upd)
    then show "le p q"
    proof cases
      case 1
      then show ?thesis using srt xy(1) unfolding s_sorted_def by blast
    next
      case 2
      have "\<not> s ! q < ?c" using bucket_below [OF live_entryD(4) [OF 2(3)] h(4)] xy(1) 2(1) by fastforce
      moreover have "le j q" if eq: "s ! q = ?c"
      proof -
        have "bmid s ?c \<le> y" using h(1) xy(1) 2(1) by simp
        then have q: "stype s q" using live_entryD(6) [OF 2(3)] eq by simp
        have qn: "Suc q < length s" using t live_entryD(2) [OF 2(3)] eq c(2) unfolding terminated_def by (metis Suc_lessI less_irrefl)
        obtain y' where y': "Suc i \<le> y'" "live_entry s sa tails y' (Suc q)" using pl q qn 2(3) unfolding s_placed_def by blast
        then have "le (Suc j) (Suc q)" using srt e unfolding s_sorted_def by (meson Suc_le_lessD)
        then show ?thesis using ord q qn j jn eq unfolding s_order_def by (metis Suc_lessD)
      qed
      ultimately show ?thesis using ord live_entryD(2) [OF 2(3)] jn 2(2) unfolding s_order_def
        by (metis Suc_lessD linorder_neqE_nat)
    next
      case 3
      have "\<not> ?c < s ! p" using bucket_below [OF h(3) live_entryD(3) [OF 3(3)]] xy(1) 3(1) by fastforce
      moreover have "le p j" if eq: "s ! p = ?c"
      proof -
        have "x \<noteq> 0" using later_bucket [OF t c(2)] live_entryD(3) [OF 3(3)] eq by simp
        then have "x < bmid s ?c" using live_entryD(5) [OF 3(3)] eq h(2) xy(1) 3(1) by (auto simp: live_def)
        then have "\<not> stype s p" using live_entryD(6) [OF 3(3)] eq by simp
        then show ?thesis using ord live_entryD(2) [OF 3(3)] jn j eq unfolding s_order_def by (metis Suc_lessD)
      qed
      ultimately show ?thesis using ord live_entryD(2) [OF 3(3)] jn 3(2) unfolding s_order_def
        by (metis Suc_lessD linorder_neqE_nat)
    qed
  qed
  show "s_placed s i ?sa ?tails"
    unfolding s_placed_def
  proof (intro allI impI)
    fix p assume p: "Suc p < length s" "stype s p"
    have "(\<exists>x. live_entry s ?sa ?tails x p) \<longleftrightarrow> p = j \<or> (\<exists>y \<ge> Suc i. live_entry s sa tails y (Suc p))"
      using pl p upd unfolding s_placed_def by blast
    also have "\<dots> \<longleftrightarrow> (\<exists>y \<ge> i. live_entry s sa tails y (Suc p))"
    proof -
      have "live_entry s sa tails i (Suc p) \<longleftrightarrow> p = j"
        using entry_fun [OF _ live_entryD(1) [OF e]] live_entryD(1) e by blast
      moreover have "(\<exists>y \<ge> i. P y) \<longleftrightarrow> P i \<or> (\<exists>y \<ge> Suc i. P y)" for P
        by (metis Suc_leD Suc_leI le_neq_implies_less order_refl)
      ultimately show ?thesis by simp
    qed
    also have "\<dots> \<longleftrightarrow> (\<exists>y \<ge> i. live_entry s ?sa ?tails y (Suc p))"
    proof -
      have "live_entry s ?sa ?tails y q \<longleftrightarrow> live_entry s sa tails y q" if "i \<le> y" for y q
        using hi that by (simp add: upd)
      then show ?thesis by blast
    qed
    finally show "(\<exists>x. live_entry s ?sa ?tails x p) \<longleftrightarrow> (\<exists>y \<ge> i. live_entry s ?sa ?tails y (Suc p))" .
  qed
  show "s_scanned s i ?sa ?tails"
    unfolding s_scanned_def
  proof (intro allI impI)
    fix y assume y: "i \<le> y" "y < length s"
    then consider "y = i" | "Suc i \<le> y" by linarith
    then show "\<exists>p. live_entry s ?sa ?tails y p"
      by cases (use e sc y(2) upd in \<open>auto simp: s_scanned_def\<close>)
  qed
qed

lemma s_skip:
  assumes "s_placed s (Suc i) sa tails" "s_scanned s (Suc i) sa tails" "live_entry s sa tails i p"
    "\<And>j. p = Suc j \<Longrightarrow> \<not> stype s j"
  shows "s_placed s i sa tails" "s_scanned s i sa tails"
proof -
  have i: "(\<exists>y \<ge> i. P y) \<longleftrightarrow> P i \<or> (\<exists>y \<ge> Suc i. P y)" for P
    by (metis Suc_leD Suc_leI le_neq_implies_less order_refl)
  have "\<not> live_entry s sa tails i (Suc q)" if "stype s q" for q
    using assms(3,4) that entry_fun live_entryD(1) by metis
  then show "s_placed s i sa tails" using assms(1) unfolding s_placed_def i by blast
  show "s_scanned s i sa tails"
    unfolding s_scanned_def
  proof (intro allI impI)
    fix y assume y: "i \<le> y" "y < length s"
    then consider "y = i" | "Suc i \<le> y" by linarith
    then show "\<exists>p. live_entry s sa tails y p"
      by cases (use assms(2,3) y(2) in \<open>auto simp: s_scanned_def\<close>)
  qed
qed

definition s_inv :: "nat list \<Rightarrow> nat \<Rightarrow> (nat \<Rightarrow> nat \<Rightarrow> bool) \<Rightarrow> nat \<Rightarrow> induce_state \<Rightarrow> bool" where
  "s_inv s k le i st \<longleftrightarrow> s_shape s k (fst st) (snd st) \<and> s_sorted s le (fst st) (snd st) \<and>
     s_placed s i (fst st) (snd st) \<and> s_scanned s i (fst st) (snd st)"

lemma induce_s_step_inv:
  assumes t: "terminated s k" and ord: "s_order s le" and inv: "s_inv s k le (Suc i) st" and i: "i < length s"
  shows "s_inv s k le i (induce_s_step s (classify_types s) i st)"
proof -
  obtain sa tails where st: "st = (sa, tails)" by (cases st)
  have I: "s_shape s k sa tails" "s_sorted s le sa tails" "s_placed s (Suc i) sa tails" "s_scanned s (Suc i) sa tails"
    using inv by (simp_all add: s_inv_def st)
  obtain p where p: "live_entry s sa tails i p" using s_next_live [OF t I(1,3,4) i] by blast
  have at: "sa ! i = Some p" "p < length s" using live_entryD(1,2) [OF p] by (simp_all add: entry_def)
  show ?thesis
  proof (cases "\<exists>j. p = Suc j \<and> stype s j")
    case True
    then obtain j where j: "p = Suc j" "stype s j" by blast
    then have "induce_s_step s (classify_types s) i st =
        (sa[tails ! (s ! j) - 1 := Some j], tails[s ! j := tails ! (s ! j) - 1])"
      using at classify_types_stype(2) [OF t, of j] s_shapeD(2) [OF I(1)] inner_symbol [OF t, of j]
      by (simp add: induce_s_step_def st Let_def)
    then show ?thesis using s_write [OF t I ord p [unfolded j(1)] j(2)] by (simp add: s_inv_def)
  next
    case False
    have "induce_s_step s (classify_types s) i st = st"
      using False at classify_types_stype(2) [OF t, of "p - 1"] by (cases p) (auto simp: induce_s_step_def st)
    moreover have "s_placed s i sa tails" "s_scanned s i sa tails" using s_skip [OF I(3,4) p] False by blast+
    ultimately show ?thesis using I by (simp add: s_inv_def st)
  qed
qed

lemma induce_s_fold:
  assumes t: "terminated s k" and ord: "s_order s le" and inv: "s_inv s k le (length s) st" and m: "m \<le> length s"
  shows "s_inv s k le m (fold (induce_s_step s (classify_types s)) (rev [m..<length s]) st)"
  using m
proof (induction m rule: inc_induct)
  case (step m)
  have "rev [m..<length s] = rev [Suc m..<length s] @ [m]" using step(2) by (simp add: upt_rec)
  then show ?case using induce_s_step_inv [OF t ord step.IH] step(2) by simp
qed (use inv in simp)

section \<open>Both passes\<close>

text \<open>What the initial placement has to provide.\<close>

definition lms_placed :: "nat list \<Rightarrow> (nat \<Rightarrow> nat \<Rightarrow> bool) \<Rightarrow> nat option list \<Rightarrow> bool" where
  "lms_placed s le sa \<longleftrightarrow> length sa = length s \<and>
     (\<forall>x p. entry sa x p \<longrightarrow> lms s p \<and> bmid s (s ! p) \<le> x \<and> x < bend s (s ! p)) \<and>
     (\<forall>p. lms s p \<longrightarrow> (\<exists>x. entry sa x p)) \<and> (\<forall>x y p. entry sa x p \<longrightarrow> entry sa y p \<longrightarrow> x = y) \<and> sorted_entries le sa"

lemma induce_l_result:
  assumes t: "terminated s k" and ord: "l_order s le" and pl: "lms_placed s le sa"
  defines "sa' \<equiv> induce_l_type s sa (classify_types s) (bucket_bounds (symbol_counts s k) False)"
  shows "\<exists>heads. l_shape s k sa' heads \<and> sorted_entries le sa' \<and> l_placed s (length s) sa'"
proof -
  let ?h = "bucket_bounds (symbol_counts s k) False"
  note h = bucket_bounds_nth [OF t, where upper = False]
  have len: "length sa = length s" using pl by (simp add: lms_placed_def)
  have "l_shape s k sa ?h"
    using pl h unfolding lms_placed_def l_shape_def lms_def by auto
  moreover have "l_placed s 0 sa" using pl unfolding lms_placed_def l_placed_def lms_def by auto
  ultimately have "l_inv s k le 0 (sa, ?h)" using pl by (simp add: l_inv_def lms_placed_def)
  from induce_l_fold [OF t ord this order_refl] show ?thesis
    by (auto simp: sa'_def induce_l_type_def l_inv_def len)
qed

text \<open>The second pass starts with the slots of type L and the terminator live.\<close>

lemma s_start:
  assumes t: "terminated s k" and n: "1 < length s" and sh: "l_shape s k sa heads" and pl: "l_placed s (length s) sa"
    and srt: "\<And>p q x y. x < y \<Longrightarrow> entry sa x p \<Longrightarrow> entry sa y q \<Longrightarrow> \<not> stype s p \<Longrightarrow> \<not> stype s q \<Longrightarrow> le p q" and ord: "s_order s le"
  shows "s_inv s k le (length s) (sa, bucket_bounds (symbol_counts s k) True)"
proof -
  let ?t = "bucket_bounds (symbol_counts s k) True"
  note h = bucket_bounds_nth [OF t, where upper = True] and L = l_shapeD [OF sh]
  have k: "0 < k" using t by (auto simp: terminated_def)
  have t0: "?t ! 0 = 1" using h(2) [OF k] terminator_bucket(1) [OF t] by simp
  have live: "live s ?t c x \<longleftrightarrow> bstart s c \<le> x \<and> x < bend s c \<and> (x < bmid s c \<or> x = 0)" if "c < k" for c x
    using h(2) [OF that] by (auto simp: live_def)
  have full: "heads ! c = bmid s c" if "c < k" for c
  proof -
    have "card {p. p < length s \<and> s ! p = c \<and> \<not> stype s p} \<le> card {bstart s c..<heads ! c}"
    proof (rule card_inj_on_le)
      let ?P = "{p. p < length s \<and> s ! p = c \<and> \<not> stype s p}" and ?g = "\<lambda>p. SOME x. entry sa x p"
      have g: "entry sa (?g p) p" if "p \<in> ?P" for p
        using l_complete [OF t sh pl, of p] that someI_ex [of "\<lambda>x. entry sa x p"] by auto
      show "inj_on ?g ?P"
      proof (rule inj_onI)
        fix p q assume pq: "p \<in> ?P" "q \<in> ?P" "?g p = ?g q"
        have "entry sa (?g p) p" "entry sa (?g p) q" using g [OF pq(1)] g [OF pq(2)] pq(3) by simp_all
        then show "p = q" by (rule entry_fun)
      qed
      show "?g ` ?P \<subseteq> {bstart s c..<heads ! c}" using L(7) g by fastforce
    qed simp
    then show ?thesis using L(3,4) [OF that] unfolding bmid_def by simp
  qed
  have sentinel: "live_entry s sa ?t 0 (length s - 1)"
  proof -
    have l: "lms s (length s - 1)" by (rule lms_last [OF t n])
    then obtain x where x: "entry sa x (length s - 1)" using L(10) by blast
    have z: "s ! (length s - 1) = 0" using t n by (simp add: terminated_def)
    have "x = 0" using L(6) [OF x] l z terminator_bucket(1) [OF t] by (simp add: lms_def)
    then show ?thesis using x z l terminator_bucket [OF t] n k live [of 0 0] by (simp add: live_entry_def lms_def)
  qed
  have slot: "\<exists>p. live_entry s sa ?t x p \<and> \<not> stype s p" if c: "c < k" "bstart s c \<le> x" "x < bmid s c" for c x
  proof -
    obtain p where p: "entry sa x p" using L(8) [OF c(1,2)] c(3) full [OF c(1)] by auto
    have "s ! p = c" "\<not> stype s p" using l_slot_symbol [OF t sh p c(1,2)] c(3) full [OF c(1)] by simp_all
    moreover have "x < bend s c" using c(3) bucket_chain(2) [of s c] by (rule less_le_trans)
    ultimately have "live_entry s sa ?t x p" using p c live [OF c(1)] L(5) [OF p] by (simp add: live_entry_def)
    then show ?thesis using \<open>\<not> stype s p\<close> by blast
  qed
  have kinds: "(x = 0 \<and> p = length s - 1) \<or> (\<not> stype s p \<and> entry sa x p \<and> x \<noteq> 0)" if "live_entry s sa ?t x p" for x p
  proof (cases "x = 0")
    case True
    then show ?thesis using entry_fun live_entryD(1) [OF that] live_entryD(1) [OF sentinel] by blast
  next
    case False
    have "s ! p < k" using t live_entryD(2) [OF that] by (simp add: terminated_def)
    then show ?thesis using False live live_entryD(1,5,6) [OF that] by auto
  qed
  have shape: "s_shape s k sa ?t"
    unfolding s_shape_def
  proof (intro conjI allI impI)
    fix c x assume "c < k" "live s ?t c x"
    then show "\<exists>p. live_entry s sa ?t x p" using slot live sentinel by blast
  next
    fix x y p assume "live_entry s sa ?t x p" "live_entry s sa ?t y p"
    then show "x = y" using L(9) live_entryD(1) by blast
  qed (use L(1) h t0 sentinel in auto)
  have "s_sorted s le sa ?t"
    unfolding s_sorted_def
  proof (intro allI impI)
    fix x y p q assume xy: "x < y" "live_entry s sa ?t x p" "live_entry s sa ?t y q"
    then have q: "\<not> stype s q" "entry sa y q" using kinds [OF xy(3)] by auto
    show "le p q"
    proof (cases "x = 0")
      case True
      then have p: "p = length s - 1" using kinds [OF xy(2)] by auto
      have "q \<noteq> length s - 1" using q(1) stype_last [of "length s - 1" s] n by auto
      then have "s ! p = 0" "0 < s ! q" using t n p live_entryD(2) [OF xy(3)] by (auto simp: terminated_def)
      then show ?thesis using ord live_entryD(2) [OF xy(2)] live_entryD(2) [OF xy(3)] unfolding s_order_def by simp
    next
      case False
      then show ?thesis using srt [OF xy(1)] q kinds [OF xy(2)] by blast
    qed
  qed
  moreover have "s_placed s (length s) sa ?t"
    unfolding s_placed_def
  proof (intro allI impI)
    fix p assume p: "Suc p < length s" "stype s p"
    have "\<not> live_entry s sa ?t x p" for x using kinds [of x p] p by auto
    moreover have "\<not> live_entry s sa ?t y q" if "length s \<le> y" for y q
      using live_entryD(1) [of s sa ?t y q] L(1) that by (auto simp: entry_def)
    ultimately show "(\<exists>x. live_entry s sa ?t x p) \<longleftrightarrow> (\<exists>y \<ge> length s. live_entry s sa ?t y (Suc p))" by blast
  qed
  moreover have "s_scanned s (length s) sa ?t" by (simp add: s_scanned_def)
  ultimately show ?thesis using shape by (simp add: s_inv_def)
qed

text \<open>The final array holds every position once, in order.\<close>

lemma s_final:
  assumes t: "terminated s k" and inv: "s_inv s k le 0 (sa, tails)"
  shows "length sa = length s" "\<And>x. x < length s \<Longrightarrow> \<exists>p < length s. entry sa x p"
    "\<And>x y p. entry sa x p \<Longrightarrow> entry sa y p \<Longrightarrow> x = y" "sorted_entries le sa"
proof -
  have I: "s_shape s k sa tails" "s_sorted s le sa tails" "s_scanned s 0 sa tails" using inv by (simp_all add: s_inv_def)
  show len: "length sa = length s" by (rule s_shapeD(1) [OF I(1)])
  have all: "live_entry s sa tails x p" if "entry sa x p" for x p
  proof -
    have "x < length s" using that len by (simp add: entry_def)
    then obtain q where "live_entry s sa tails x q" using I(3) unfolding s_scanned_def by blast
    then show ?thesis using entry_fun that live_entryD(1) by metis
  qed
  show "\<exists>p < length s. entry sa x p" if "x < length s" for x
    using I(3) that live_entryD(1,2) unfolding s_scanned_def by blast
  show "x = y" if "entry sa x p" "entry sa y p" for x y p using s_shapeD(7) [OF I(1)] all that by blast
  show "sorted_entries le sa" using I(2) all unfolding s_sorted_def sorted_entries_def by blast
qed

end
