(* ===== verification/Lms_Placement.thy ===== *)
theory Lms_Placement
  imports Induced_Sorting
begin

text \<open>
  The use of the two passes by the suffix array construction: positions of a given order are placed
  at the ends of their buckets, and the passes turn any order of these positions that a relation
  agrees with into an array of all positions sorted by it.
\<close>

section \<open>The initial placement\<close>

definition place_inv :: "nat list \<Rightarrow> nat \<Rightarrow> (nat \<Rightarrow> nat \<Rightarrow> bool) \<Rightarrow> nat set \<Rightarrow> induce_state \<Rightarrow> bool" where
  "place_inv s k le Q st \<longleftrightarrow> length (fst st) = length s \<and> length (snd st) = k \<and>
     (\<forall>c < k. snd st ! c + card {p \<in> Q. s ! p = c} = bend s c) \<and>
     (\<forall>x p. entry (fst st) x p \<longrightarrow> p \<in> Q \<and> snd st ! (s ! p) \<le> x \<and> x < bend s (s ! p)) \<and>
     (\<forall>p \<in> Q. \<exists>x. entry (fst st) x p) \<and> (\<forall>x y p. entry (fst st) x p \<longrightarrow> entry (fst st) y p \<longrightarrow> x = y) \<and>
     sorted_entries le (fst st)"

lemma lms_symbol_count:
  assumes "Q \<subseteq> {p. lms s p}"
  shows "bmid s c + card {p \<in> Q. s ! p = c} \<le> bend s c"
proof -
  have "{p \<in> Q. s ! p = c} \<subseteq> {p. p < length s \<and> s ! p = c \<and> stype s p}" using assms by (auto simp: lms_def)
  then have "card {p \<in> Q. s ! p = c} \<le> card {p. p < length s \<and> s ! p = c \<and> stype s p}" by (intro card_mono) auto
  then show ?thesis by (simp add: bend_bmid)
qed

lemma place_step:
  assumes t: "terminated s k" and inv: "place_inv s k le Q st" and Q: "insert p Q \<subseteq> {p. lms s p}" "p \<notin> Q"
    and le: "\<And>q. q \<in> Q \<Longrightarrow> s ! q = s ! p \<Longrightarrow> le p q"
    and chars: "\<And>p q. p < length s \<Longrightarrow> q < length s \<Longrightarrow> s ! p < s ! q \<Longrightarrow> le p q"
  shows "place_inv s k le (insert p Q) (place_lms s p st)"
proof -
  obtain sa tails where st: "st = (sa, tails)" by (cases st)
  have I: "length sa = length s" "length tails = k" "\<And>c. c < k \<Longrightarrow> tails ! c + card {p \<in> Q. s ! p = c} = bend s c"
    "\<And>x p. entry sa x p \<Longrightarrow> p \<in> Q" "\<And>x p. entry sa x p \<Longrightarrow> tails ! (s ! p) \<le> x" "\<And>x p. entry sa x p \<Longrightarrow> x < bend s (s ! p)"
    "\<And>p. p \<in> Q \<Longrightarrow> \<exists>x. entry sa x p" "\<And>x y p. entry sa x p \<Longrightarrow> entry sa y p \<Longrightarrow> x = y" "sorted_entries le sa"
    using inv by (auto simp: place_inv_def st)
  let ?c = "s ! p"
  define h where "h = tails ! ?c - 1"
  have lt: "q < length s" "s ! q < k" if "q \<in> insert p Q" for q using Q(1) that t by (auto simp: lms_def terminated_def)
  have fin: "finite Q" by (rule finite_subset [of _ "{..<length s}"]) (use Q(1) in \<open>auto simp: lms_def\<close>)
  have cnt: "card {q \<in> insert p Q. s ! q = c} = card {q \<in> Q. s ! q = c} + (if c = ?c then 1 else 0)" for c
  proof -
    have "{q \<in> insert p Q. s ! q = c} = (if c = ?c then insert p {q \<in> Q. s ! q = c} else {q \<in> Q. s ! q = c})" by auto
    then show ?thesis using Q(2) fin by simp
  qed
  have c: "?c < k" using lt by blast
  have room: "bmid s ?c < tails ! ?c" using lms_symbol_count [OF Q(1), of ?c] I(3) [OF c] cnt [of ?c] by simp
  have hb: "bmid s ?c \<le> h" "h < tails ! ?c" "bstart s ?c \<le> h" "h < bend s ?c"
    using room bucket_chain(1) [of s ?c] I(3) [OF c] by (unfold h_def; linarith)+
  have hn: "h < length sa" using hb(4) bend_le [of s ?c] I(1) by linarith
  have low: "bstart s (s ! q) \<le> x" if "entry sa x q" for x q
  proof -
    have q: "q \<in> insert p Q" using I(4) that by blast
    have "Q \<subseteq> {p. lms s p}" using Q(1) by blast
    from lms_symbol_count [OF this, of "s ! q"] I(3) [OF lt(2) [OF q]] have "bmid s (s ! q) \<le> tails ! (s ! q)" by linarith
    then show ?thesis using I(5) [OF that] bucket_chain(1) [of s "s ! q"] by linarith
  qed
  have free: "\<not> entry sa h q" for q
  proof
    assume q: "entry sa h q"
    have "s ! q = ?c" by (rule bucket_unique [OF low [OF q] I(6) [OF q] hb(3,4)])
    then show False using I(5) [OF q] hb(2) by simp
  qed
  have upd: "entry (sa[h := Some p]) x q \<longleftrightarrow> (x = h \<and> q = p) \<or> entry sa x q" for x q
    using free by (auto simp: entry_update [OF hn])
  have res: "place_lms s p st = (sa[h := Some p], tails[?c := h])" using c I(2) by (simp add: place_lms_def st Let_def h_def)
  have new: "\<not> entry sa x p" for x using I(4) Q(2) by blast
  have srt: "sorted_entries le (sa[h := Some p])"
    unfolding sorted_entries_def
  proof (intro allI impI)
    fix x y a b assume xy: "x < y" "entry (sa[h := Some p]) x a" "entry (sa[h := Some p]) y b"
    consider "entry sa x a" "entry sa y b" | "x = h" "a = p" "entry sa y b" | "y = h" "b = p" "entry sa x a"
      using xy by (auto simp: upd)
    then show "le a b"
    proof cases
      case 1
      then show ?thesis using I(9) xy(1) unfolding sorted_entries_def by blast
    next
      case 2
      have "\<not> s ! b < ?c" using bucket_below [OF I(6) [OF 2(3)] hb(3)] xy(1) 2(1) by fastforce
      then show ?thesis using chars lt I(4) [OF 2(3)] le 2(2) by (metis insertCI linorder_neqE_nat)
    next
      case 3
      have "\<not> ?c < s ! a" using bucket_below [OF hb(4) low [OF 3(3)]] xy(1) 3(1) by fastforce
      moreover have "s ! a \<noteq> ?c" using I(5) [OF 3(3)] hb(2) xy(1) 3(1) by auto
      ultimately show ?thesis using chars lt I(4) [OF 3(3)] 3(2) by (metis insertCI linorder_neqE_nat)
    qed
  qed
  show ?thesis
    unfolding res place_inv_def fst_conv snd_conv
  proof (intro conjI allI impI ballI)
    fix d assume d: "d < k"
    show "tails[?c := h] ! d + card {q \<in> insert p Q. s ! q = d} = bend s d"
      using I(3) [OF d] cnt [of d] room I(2) c by (cases "d = ?c") (auto simp: h_def)
  next
    fix x q assume "entry (sa[h := Some p]) x q"
    then consider "x = h" "q = p" | "entry sa x q" by (auto simp: upd)
    then show "tails[?c := h] ! (s ! q) \<le> x"
    proof cases
      case 1
      then show ?thesis using I(2) c by simp
    next
      case 2
      then show ?thesis using I(2) c I(5) [OF 2] by (cases "s ! q = ?c") (auto simp: h_def)
    qed
  next
    fix x q assume "entry (sa[h := Some p]) x q"
    then show "q \<in> insert p Q" "x < bend s (s ! q)" using I(4,6) hb(4) by (auto simp: upd)
  next
    fix q assume "q \<in> insert p Q"
    then show "\<exists>x. entry (sa[h := Some p]) x q" using I(7) upd by blast
  next
    fix x y q assume "entry (sa[h := Some p]) x q" "entry (sa[h := Some p]) y q"
    then show "x = y" using I(8) new by (auto simp: upd)
  qed (use I(1,2) srt in auto)
qed

lemma place_fold:
  assumes t: "terminated s k" and "place_inv s k le Q st" "Q \<union> set ps \<subseteq> {p. lms s p}" "distinct ps" "Q \<inter> set ps = {}"
    "sorted_wrt (\<lambda>a b. s ! a = s ! b \<longrightarrow> le b a) ps" "\<And>p q. p \<in> Q \<Longrightarrow> q \<in> set ps \<Longrightarrow> s ! p = s ! q \<Longrightarrow> le q p"
    and chars: "\<And>p q. p < length s \<Longrightarrow> q < length s \<Longrightarrow> s ! p < s ! q \<Longrightarrow> le p q"
  shows "place_inv s k le (Q \<union> set ps) (fold (place_lms s) ps st)"
  using assms(2-7)
proof (induction ps arbitrary: Q st)
  case (Cons p ps)
  have "place_inv s k le (insert p Q) (place_lms s p st)"
    using Cons.prems by (intro place_step [OF t Cons.prems(1) _ _ _ chars]) auto
  then have "place_inv s k le (insert p Q \<union> set ps) (fold (place_lms s) ps (place_lms s p st))"
    by (rule Cons.IH) (use Cons.prems in auto)
  then show ?case by simp
qed simp

lemma placed_lms:
  assumes t: "terminated s k" and ps: "set ps = {p. lms s p}" "distinct ps" "sorted_wrt (\<lambda>a b. s ! a = s ! b \<longrightarrow> le b a) ps"
    and chars: "\<And>p q. p < length s \<Longrightarrow> q < length s \<Longrightarrow> s ! p < s ! q \<Longrightarrow> le p q"
  shows "lms_placed s le (fst (fold (place_lms s) ps (replicate (length s) None, bucket_bounds (symbol_counts s k) True)))"
proof -
  let ?st = "(replicate (length s) None, bucket_bounds (symbol_counts s k) True)"
  let ?r = "fold (place_lms s) ps ?st"
  have "place_inv s k le {} ?st"
    using bucket_bounds_nth [OF t, where upper = True] by (auto simp: place_inv_def entry_def sorted_entries_def)
  then have inv: "place_inv s k le {p. lms s p} ?r"
    using place_fold [OF t, of le "{}" ?st ps] ps chars by simp
  have "bmid s (s ! p) \<le> snd ?r ! (s ! p)" if "lms s p" for p
  proof -
    have "s ! p < k" using that t by (simp add: lms_def terminated_def)
    then show ?thesis using inv lms_symbol_count [of "{p. lms s p}" s "s ! p"] by (fastforce simp: place_inv_def)
  qed
  then show ?thesis using inv unfolding place_inv_def lms_placed_def by (simp; meson le_trans)
qed

text \<open>The result of a placement and both passes.\<close>

lemma induce_from_sorted:
  assumes t: "terminated s k" and n: "1 < length s"
    and ps: "set ps = {p. lms s p}" "distinct ps" "sorted_wrt (\<lambda>a b. s ! a = s ! b \<longrightarrow> le b a) ps"
    and ord: "l_order s le" "s_order s le'"
    and agree: "\<And>p q. \<not> stype s p \<Longrightarrow> \<not> stype s q \<Longrightarrow> le p q \<Longrightarrow> le' p q"
  shows "\<exists>xs. induce_from s k ps = map Some xs \<and> distinct xs \<and> set xs = {..<length s} \<and> sorted_wrt le' xs"
proof -
  let ?sa0 = "fst (fold (place_lms s) ps (replicate (length s) None, bucket_bounds (symbol_counts s k) True))"
  let ?sa1 = "induce_l_type s ?sa0 (classify_types s) (bucket_bounds (symbol_counts s k) False)"
  let ?b = "bucket_bounds (symbol_counts s k) True"
  have "lms_placed s le ?sa0" using placed_lms [OF t ps] ord(1) unfolding l_order_def by blast
  from induce_l_result [OF t ord(1) this] obtain heads where
    L: "l_shape s k ?sa1 heads" "sorted_entries le ?sa1" "l_placed s (length s) ?sa1" by blast
  have "s_inv s k le' (length s) (?sa1, ?b)"
    by (rule s_start [OF t n L(1,3) _ ord(2)]) (use L(2) agree in \<open>auto simp: sorted_entries_def\<close>)
  from induce_s_fold [OF t ord(2) this, of 0] have
    "s_inv s k le' 0 (fold (induce_s_step s (classify_types s)) (rev [0..<length s]) (?sa1, ?b))" by simp
  then obtain sa tails where sa: "fold (induce_s_step s (classify_types s)) (rev [0..<length s]) (?sa1, ?b) = (sa, tails)"
      "s_inv s k le' 0 (sa, tails)" by (metis surj_pair)
  note F = s_final [OF t sa(2)]
  have res: "induce_from s k ps = sa" using sa(1) l_shapeD(1) [OF L(1)] by (simp add: induce_from_def induce_s_type_def Let_def)
  let ?xs = "map the sa"
  have at: "sa ! x = Some (?xs ! x)" "?xs ! x < length s" "entry sa x (?xs ! x)" if "x < length s" for x
    using F(1) F(2) [OF that] that by (auto simp: entry_def)
  have "sa = map Some ?xs" using F(1) at by (intro nth_equalityI) auto
  moreover have d: "distinct ?xs"
    using F(1,3) at(3) by (auto simp: distinct_conv_nth) metis
  moreover have "set ?xs = {..<length s}"
  proof (rule card_subset_eq)
    show "set ?xs \<subseteq> {..<length s}" using at(2) F(1) by (auto simp: in_set_conv_nth)
    show "card (set ?xs) = card {..<length s}" using distinct_card [OF d] F(1) by simp
  qed simp
  moreover have "sorted_wrt le' ?xs"
    using F(1,4) at(3) unfolding sorted_wrt_iff_nth_less sorted_entries_def by fastforce
  ultimately show ?thesis using res by metis
qed

end
