(* ===== verification/Lms_Names.thy ===== *)
theory Lms_Names
  imports Lms_Placement
begin

text \<open>
  The names of the substrings between placed positions: a substring is read as the word of its
  symbols and types, the first use of the passes sorts the positions by these words, and the
  name of a position is the number of smaller words.  The text of the names, in the order of the
  positions, orders its suffixes as the original text does.
\<close>

section \<open>Words up to the next placed position\<close>

definition symbol_key :: "nat list \<Rightarrow> nat \<Rightarrow> nat" where
  "symbol_key s p = 2 * s ! p + of_bool (stype s p)"

lemma symbol_key_eq [simp]: "symbol_key s p = symbol_key s q \<longleftrightarrow> s ! p = s ! q \<and> stype s p = stype s q"
  by (cases "stype s p"; cases "stype s q") (simp_all add: symbol_key_def, presburger+)

lemma symbol_key_less: "symbol_key s p < symbol_key s q \<longleftrightarrow> s ! p < s ! q \<or> (s ! p = s ! q \<and> \<not> stype s p \<and> stype s q)"
  by (cases "stype s p"; cases "stype s q") (simp_all add: symbol_key_def, presburger+)

function lms_tail :: "nat list \<Rightarrow> nat \<Rightarrow> nat list" where
  "lms_tail s i = (if length s \<le> i then [] else if lms s i then [symbol_key s i] else symbol_key s i # lms_tail s (Suc i))"
  by pat_completeness auto
termination by (relation "measure (\<lambda>(s, i). length s - i)") auto

declare lms_tail.simps [simp del]

definition lms_word :: "nat list \<Rightarrow> nat \<Rightarrow> nat list" where
  "lms_word s p = (if p < length s then symbol_key s p # lms_tail s (Suc p) else [])"

lemma lms_tail_eqs:
  "length s \<le> i \<Longrightarrow> lms_tail s i = []" "lms s i \<Longrightarrow> lms_tail s i = [symbol_key s i]"
  "i < length s \<Longrightarrow> \<not> lms s i \<Longrightarrow> lms_tail s i = symbol_key s i # lms_tail s (Suc i)"
  by (subst lms_tail.simps; simp add: lms_def)+

lemma lms_tail_Nil: "lms_tail s i = [] \<longleftrightarrow> length s \<le> i"
  by (subst lms_tail.simps) simp

lemma lms_tail_word: "\<not> lms s i \<Longrightarrow> lms_tail s i = lms_word s i"
  using lms_tail_eqs(1,3) [where s = s and i = i] by (cases "i < length s") (simp_all add: lms_word_def)

lemma lms_stype: "lms s i \<Longrightarrow> stype s i"
  by (simp add: lms_def)

lemma tail_l_order: "l_order s (\<lambda>p q. lms_tail s p \<le> lms_tail s q)"
proof -
  have hd: "\<exists>w. lms_tail s p = symbol_key s p # w" if "p < length s" for p
    using lms_tail_eqs(2,3) [where s = s and i = p] that by (cases "lms s p") auto
  have lt: "lms_tail s p \<le> lms_tail s q" if "p < length s" "q < length s" "symbol_key s p < symbol_key s q" for p q
    using hd [OF that(1)] hd [OF that(2)] that(3) by auto
  show ?thesis
    unfolding l_order_def
  proof (intro allI impI conjI)
    fix p q assume pq: "p < length s" "q < length s" "s ! p = s ! q" "\<not> stype s p" "\<not> stype s q"
      "lms_tail s (Suc p) \<le> lms_tail s (Suc q)"
    have "\<not> lms s p" "\<not> lms s q" using pq(4,5) lms_stype by blast+
    then show "lms_tail s p \<le> lms_tail s q" using pq by (simp add: lms_tail_eqs(3))
  qed (auto intro!: lt simp: symbol_key_less)
qed

lemma word_s_order: "s_order s (\<lambda>p q. lms_word s p \<le> lms_word s q)"
  unfolding s_order_def
proof (intro allI impI conjI)
  fix p q assume pq: "p < length s" "q < length s" "s ! p = s ! q" "stype s p" "stype s q" "Suc p < length s" "Suc q < length s"
      "lms_word s (Suc p) \<le> lms_word s (Suc q)"
  have "lms_tail s (Suc p) = lms_word s (Suc p)" "lms_tail s (Suc q) = lms_word s (Suc q)"
    using pq(4,5) by (simp_all add: lms_tail_word lms_def)
  then show "lms_word s p \<le> lms_word s q" using pq by (simp add: lms_word_def)
qed (auto simp: lms_word_def symbol_key_less)

text \<open>The first use of the passes.\<close>

lemma set_lms_positions: "terminated s k \<Longrightarrow> set (lms_positions s) = {p. lms s p}"
  using is_lms_lms [of s k] by (auto simp: lms_positions_def lms_def)

lemma lms_positions_sorted: "sorted_wrt (<) (lms_positions s)"
  unfolding lms_positions_def by (rule sorted_wrt_filter) simp

lemma positions_sorted_by_word:
  assumes t: "terminated s k" and n: "1 < length s"
  obtains xs where "induce_from s k (lms_positions s) = map Some xs" "distinct xs" "set xs = {..<length s}"
    "sorted_wrt (\<lambda>p q. lms_word s p \<le> lms_word s q) xs"
proof -
  have same: "lms_tail s b \<le> lms_tail s a" if "lms s a" "lms s b" "s ! a = s ! b" for a b
    using that by (simp add: lms_tail_eqs(2) lms_stype)
  have "sorted_wrt (\<lambda>a b. s ! a = s ! b \<longrightarrow> lms_tail s b \<le> lms_tail s a) (lms_positions s)"
    by (rule sorted_wrt_mono_rel [OF _ lms_positions_sorted]) (auto simp: set_lms_positions [OF t] same)
  moreover have "distinct (lms_positions s)" by (simp add: lms_positions_def)
  moreover have "lms_word s p \<le> lms_word s q" if "\<not> stype s p" "\<not> stype s q" "lms_tail s p \<le> lms_tail s q" for p q
    using that lms_tail_word lms_stype by metis
  ultimately show thesis
    using induce_from_sorted [OF t n set_lms_positions [OF t] _ _ tail_l_order word_s_order] that by blast
qed

section \<open>The comparison of substrings\<close>

lemma lms_equal_from_tails:
  assumes t: "terminated s k"
  shows "0 < offset \<Longrightarrow> lms_equal_from s (classify_types s) p q offset \<longleftrightarrow> lms_tail s (p + offset) = lms_tail s (q + offset)"
proof (induction "length s - (p + offset)" arbitrary: offset rule: less_induct)
  case less
  let ?x = "p + offset" and ?y = "q + offset" and ?ct = "classify_types s"
  consider "length s \<le> ?x \<or> length s \<le> ?y" | "?x < length s" "?y < length s" by linarith
  then show ?case
  proof cases
    case 1
    then show ?thesis using lms_tail_Nil [of s ?x] lms_tail_Nil [of s ?y] lms_tail_eqs(1) [where s = s]
      by (subst lms_equal_from.simps) (auto simp: Let_def)
  next
    case 2
    have ct: "?ct ! ?x = stype s ?x" "?ct ! ?y = stype s ?y" "is_lms ?ct ?x = lms s ?x" "is_lms ?ct ?y = lms s ?y"
      using classify_types_stype(2) [OF t] is_lms_lms [OF t] 2 by simp_all
    have inner: "lms_tail s (Suc z) \<noteq> []" if "\<not> lms s z" "z < length s" "0 < z" for z
    proof -
      have "z \<noteq> length s - 1" using lms_last [OF t] that by auto
      then show ?thesis using that by (simp add: lms_tail_Nil)
    qed
    have rec: "lms_equal_from s ?ct p q (offset + 1) \<longleftrightarrow> lms_tail s (Suc ?x) = lms_tail s (Suc ?y)"
      using less.hyps [of "offset + 1"] 2 by simp
    have "lms_equal_from s ?ct p q offset \<longleftrightarrow> s ! ?x = s ! ?y \<and> stype s ?x = stype s ?y \<and>
        (if lms s ?x \<or> lms s ?y then lms s ?x \<and> lms s ?y else lms_tail s (Suc ?x) = lms_tail s (Suc ?y))"
      using 2 less.prems by (subst lms_equal_from.simps) (simp add: Let_def ct rec [simplified] del: symbol_key_eq)
    also have "\<dots> \<longleftrightarrow> lms_tail s ?x = lms_tail s ?y"
      using lms_tail_eqs(2,3) [where s = s and i = "?x"] lms_tail_eqs(2,3) [where s = s and i = "?y"] 2 inner [of ?x] inner [of ?y] less.prems
      by (cases "lms s ?x"; cases "lms s ?y") auto
    finally show ?thesis .
  qed
qed

lemma lms_substrings_equal_words:
  assumes t: "terminated s k" and "p < length s" "q < length s"
  shows "lms_substrings_equal s (classify_types s) p q \<longleftrightarrow> lms_word s p = lms_word s q"
  unfolding lms_substrings_equal_def
  by (subst lms_equal_from.simps)
    (use assms(2,3) lms_equal_from_tails [OF t, of "Suc 0" p q] classify_types_stype(2) [OF t] in
      \<open>simp add: Let_def lms_word_def\<close>)

section \<open>The names\<close>

definition name_of :: "nat list \<Rightarrow> nat \<Rightarrow> nat" where
  "name_of s p = card {w \<in> lms_word s ` {q. lms s q}. w < lms_word s p}"

lemma finite_lms [simp]: "finite {q. lms s q}"
  by (rule finite_subset [of _ "{..<length s}"]) (auto simp: lms_def)

lemma name_of_mono: "lms s p \<Longrightarrow> lms_word s p < lms_word s q \<Longrightarrow> name_of s p < name_of s q"
  unfolding name_of_def by (rule psubset_card_mono) auto

lemma name_of_less: "lms s p \<Longrightarrow> lms s q \<Longrightarrow> name_of s p < name_of s q \<longleftrightarrow> lms_word s p < lms_word s q"
  using name_of_mono by (metis linorder_neqE name_of_def order_less_asym)

lemma name_of_eq: "lms s p \<Longrightarrow> lms s q \<Longrightarrow> name_of s p = name_of s q \<longleftrightarrow> lms_word s p = lms_word s q"
  using name_of_less by (metis linorder_neqE name_of_def order_less_irrefl)

definition names_inv :: "nat list \<Rightarrow> nat list \<Rightarrow> name_state \<Rightarrow> bool" where
  "names_inv s ys st \<longleftrightarrow> (case st of (names, next_name, prev) \<Rightarrow>
     length names = length s \<and> prev = (if ys = [] then None else Some (last ys)) \<and>
     next_name = card (lms_word s ` set ys) - 1 \<and>
     (\<forall>p \<in> set ys. names ! p = Some (card {w \<in> lms_word s ` set ys. w < lms_word s p})))"

lemma name_step_inv:
  assumes t: "terminated s k" and inv: "names_inv s ys st" and p: "lms s p" and ys: "set ys \<subseteq> {p. lms s p}" "p \<notin> set ys"
    and srt: "sorted_wrt (\<lambda>p q. lms_word s p \<le> lms_word s q) (ys @ [p])"
  shows "names_inv s (ys @ [p]) (name_step s (classify_types s) (Some p) st)"
proof -
  obtain names next_name prev where st: "st = (names, next_name, prev)" by (metis prod_cases3)
  let ?W = "lms_word s ` set ys" and ?w = "lms_word s p"
  let ?m = "case prev of None \<Rightarrow> next_name
    | Some q \<Rightarrow> if \<not> lms_substrings_equal s (classify_types s) q p then next_name + 1 else next_name"
  have I: "length names = length s" "prev = (if ys = [] then None else Some (last ys))" "next_name = card ?W - 1"
    "\<And>p. p \<in> set ys \<Longrightarrow> names ! p = Some (card {w \<in> ?W. w < lms_word s p})"
    using inv by (simp_all add: names_inv_def st)
  have pn: "p < length s" using p by (simp add: lms_def)
  have le: "w \<le> ?w" if "w \<in> ?W" for w using srt that by (auto simp: sorted_wrt_append)
  have step: "name_step s (classify_types s) (Some p) st = (names[p := Some ?m], ?m, Some p)"
    using is_lms_lms [OF t pn] p by (simp add: name_step_def st Let_def)
  have below: "card {w \<in> insert ?w ?W. w < ?w} = ?m \<and> ?m = card (insert ?w ?W) - 1"
  proof (cases "ys = []")
    case True
    have "{w. w = ?w \<and> w < ?w} = {}" by auto
    then show ?thesis using I(2,3) True by simp
  next
    case False
    then have l: "last ys \<in> set ys" by simp
    then have ln: "last ys < length s" using ys(1) by (auto simp: lms_def)
    have eq: "lms_substrings_equal s (classify_types s) (last ys) p \<longleftrightarrow> lms_word s (last ys) = ?w"
      by (rule lms_substrings_equal_words [OF t ln pn])
    have fin: "finite ?W" "?W \<noteq> {}" using False by auto
    have max: "w \<le> lms_word s (last ys)" if "w \<in> ?W" for w
    proof -
      obtain q where q: "q \<in> set ys" "w = lms_word s q" using \<open>w \<in> ?W\<close> by blast
      have "q \<in> set (butlast ys @ [last ys])" using q(1) False by simp
      moreover have "sorted_wrt (\<lambda>p q. lms_word s p \<le> lms_word s q) (butlast ys @ [last ys])"
        using srt False by (simp add: sorted_wrt_append)
      ultimately show ?thesis using q(2) by (auto simp: sorted_wrt_append)
    qed
    show ?thesis
    proof (cases "lms_word s (last ys) = ?w")
      case True
      have W: "insert ?w ?W = ?W" using l True by (metis image_eqI insert_absorb)
      have "{w \<in> ?W. w < ?w} = ?W - {?w}" using le by force
      moreover have "?w \<in> ?W" using l True by (metis image_eqI)
      ultimately have "card {w \<in> ?W. w < ?w} = card ?W - 1" by simp
      then show ?thesis using W I(2,3) False eq True by simp
    next
      case ne: False
      have lt: "w < ?w" if "w \<in> ?W" for w using max [OF that] le [of "lms_word s (last ys)"] l ne by fastforce
      then have "{w \<in> insert ?w ?W. w < ?w} = ?W" by auto
      moreover have "?w \<notin> ?W" using lt by blast
      moreover have "0 < card ?W" using fin by (simp add: card_gt_0_iff)
      ultimately show ?thesis using I(2,3) False eq ne fin(1) by simp
    qed
  qed
  have other: "{w \<in> insert ?w ?W. w < lms_word s q} = {w \<in> ?W. w < lms_word s q}" if "q \<in> set ys" for q
    using le that by fastforce
  have "names[p := Some ?m] ! q = Some (card {w \<in> insert ?w ?W. w < lms_word s q})" if "q \<in> set (ys @ [p])" for q
  proof (cases "q = p")
    case True
    then show ?thesis using below pn I(1) by simp
  next
    case False
    then have "q \<in> set ys" using that by simp
    then show ?thesis using I(4) other False by simp
  qed
  then show ?thesis using I(1) below by (simp add: step names_inv_def)
qed

lemma names_fold:
  assumes t: "terminated s k" and "set xs \<subseteq> {..<length s}" "distinct xs"
    and srt: "sorted_wrt (\<lambda>p q. lms_word s p \<le> lms_word s q) xs"
  shows "names_inv s (filter (lms s) xs) (fold (name_step s (classify_types s)) (map Some xs) (replicate (length s) None, 0, None))"
  using assms(2-)
proof (induction xs rule: rev_induct)
  case Nil
  show ?case by (simp add: names_inv_def)
next
  case (snoc p xs)
  have IH: "names_inv s (filter (lms s) xs) (fold (name_step s (classify_types s)) (map Some xs) (replicate (length s) None, 0, None))"
    using snoc by (simp add: sorted_wrt_append)
  show ?case
  proof (cases "lms s p")
    case True
    have "sorted_wrt (\<lambda>p q. lms_word s p \<le> lms_word s q) (filter (lms s) xs @ [p])"
      using snoc.prems(3) by (auto simp: sorted_wrt_append sorted_wrt_filter)
    from name_step_inv [OF t IH True _ _ this] show ?thesis using snoc.prems True by auto
  next
    case False
    have "name_step s (classify_types s) (Some p) st = st" for st
      using False is_lms_lms [OF t, of p] snoc.prems(1) by (auto simp: name_step_def split: prod.splits)
    then show ?thesis using IH False by simp
  qed
qed

lemma reduced_problem_names:
  assumes t: "terminated s k" and n: "1 < length s"
  shows "reduced_problem s k = (map (name_of s) (lms_positions s), card (lms_word s ` {p. lms s p}))"
proof -
  obtain xs where xs: "induce_from s k (lms_positions s) = map Some xs" "distinct xs" "set xs = {..<length s}"
    "sorted_wrt (\<lambda>p q. lms_word s p \<le> lms_word s q) xs" by (rule positions_sorted_by_word [OF t n])
  let ?st = "fold (name_step s (classify_types s)) (map Some xs) (replicate (length s) None, 0, None)"
  obtain names next_name prev where st: "?st = (names, next_name, prev)" by (metis prod_cases3)
  have l: "set (filter (lms s) xs) = {p. lms s p}" using xs(3) by (auto simp: lms_def)
  have inv: "names_inv s (filter (lms s) xs) ?st" by (rule names_fold [OF t _ xs(2,4)]) (simp add: xs(3))
  have "0 < card (lms_word s ` {p. lms s p})" using lms_last [OF t n] by (auto simp: card_gt_0_iff)
  moreover have "next_name = card (lms_word s ` {p. lms s p}) - 1"
    using inv l unfolding st names_inv_def by (simp del: set_filter)
  moreover have "map (\<lambda>p. the (names ! p)) (lms_positions s) = map (name_of s) (lms_positions s)"
    using inv l set_lms_positions [OF t] unfolding st names_inv_def name_of_def by (auto simp del: set_filter)
  ultimately show ?thesis by (simp add: reduced_problem_def Let_def xs(1) st)
qed

section \<open>The reduced text\<close>

lemma lms_word_last:
  assumes "terminated s k" "lms s p" "p \<noteq> length s - 1"
  shows "lms_word s (length s - 1) < lms_word s p"
proof -
  have "p < length s" "s ! p \<noteq> 0" "s ! (length s - 1) = 0" "length s - 1 < length s"
    using assms by (auto simp: terminated_def lms_def)
  then show ?thesis by (simp add: lms_word_def symbol_key_less)
qed

lemma lms_positions_nonempty: "terminated s k \<Longrightarrow> 1 < length s \<Longrightarrow> lms_positions s \<noteq> []"
  using set_lms_positions [of s k] lms_last [of s k] by (metis empty_iff empty_set mem_Collect_eq)

lemma last_lms_position:
  assumes "terminated s k" "1 < length s" "i < length (lms_positions s)"
  shows "lms_positions s ! i = length s - 1 \<longleftrightarrow> Suc i = length (lms_positions s)"
proof -
  let ?l = "lms_positions s"
  note srt = lms_positions_sorted [of s, unfolded sorted_wrt_iff_nth_less]
  have lms: "lms s (?l ! j)" if "j < length ?l" for j using set_lms_positions [OF assms(1)] nth_mem [OF that] by blast
  obtain m where m: "m < length ?l" "?l ! m = length s - 1"
    using lms_last [OF assms(1,2)] set_lms_positions [OF assms(1)] by (metis in_set_conv_nth mem_Collect_eq)
  have "\<not> m < j" if "j < length ?l" for j
    using srt m that lms [OF that] by (fastforce simp: lms_def)
  then have "Suc m = length ?l" using m(1) by (metis Suc_lessI lessI)
  moreover have "i = m" if "?l ! i = length s - 1"
    using that m srt assms(3) by (metis linorder_neqE_nat order_less_irrefl)
  ultimately show ?thesis using m(2) by (metis nat.inject)
qed

lemma reduced_terminated:
  assumes t: "terminated s k" and n: "1 < length s"
  shows "terminated (fst (reduced_problem s k)) (snd (reduced_problem s k))"
proof -
  let ?l = "lms_positions s" and ?e = "length s - 1"
  have lms: "lms s (?l ! j)" if "j < length ?l" for j using set_lms_positions [OF t] nth_mem [OF that] by blast
  have bound: "name_of s p < card (lms_word s ` {q. lms s q})" if "lms s p" for p
    unfolding name_of_def by (rule psubset_card_mono) (use that in auto)
  have e: "lms s ?e" by (rule lms_last [OF t n])
  have zero: "name_of s p = 0 \<longleftrightarrow> p = ?e" if "lms s p" for p
  proof (cases "p = ?e")
    case True
    have "\<not> lms_word s q < lms_word s ?e" if "lms s q" for q
      using lms_word_last [OF t that] by (cases "q = ?e") auto
    then show ?thesis using True by (auto simp: name_of_def)
  next
    case False
    then show ?thesis using name_of_mono [OF e lms_word_last [OF t that False]] by auto
  qed
  have "i < length ?l \<Longrightarrow> name_of s (?l ! i) = 0 \<longleftrightarrow> Suc i = length ?l" for i
    using zero lms last_lms_position [OF t n] by simp
  then show ?thesis
    using lms bound lms_positions_nonempty [OF t n] by (simp add: reduced_problem_names [OF t n] terminated_def)
qed

section \<open>The order of the suffixes of the reduced text\<close>

lemma lms_tail_less:
  assumes t: "terminated s k"
  shows "0 < i \<Longrightarrow> 0 < j \<Longrightarrow> i \<le> length s \<Longrightarrow> stype s (i - 1) = stype s (j - 1) \<Longrightarrow> lms_tail s i < lms_tail s j \<Longrightarrow> drop i s < drop j s"
proof (induction "length s - i" arbitrary: i j rule: less_induct)
  case less
  have j: "j < length s" using less.prems(5) lms_tail_Nil [of s j] by fastforce
  show ?case
  proof (cases "i < length s")
    case False
    then show ?thesis using j less.prems(3) by (cases "drop j s") auto
  next
    case i: True
    have hd: "\<exists>w. lms_tail s p = symbol_key s p # w" if "p < length s" for p
      using lms_tail_eqs(2,3) [where s = s and i = p] that by (cases "lms s p") auto
    have "symbol_key s i < symbol_key s j \<or> symbol_key s i = symbol_key s j"
      using hd [OF i] hd [OF j] less.prems(5) by auto
    then show ?thesis
    proof
      assume "symbol_key s i < symbol_key s j"
      then show ?thesis
        using ltype_below_stype [OF t i j] drop_less_iff [OF i j] unfolding symbol_key_less by blast
    next
      assume key: "symbol_key s i = symbol_key s j"
      then have eq: "s ! i = s ! j" "stype s i = stype s j" by simp_all
      then have "lms s i = lms s j" using i j less.prems(1,2,4) by (simp add: lms_def)
      moreover have "\<not> (lms s i \<and> lms s j)"
      proof
        assume "lms s i \<and> lms s j"
        then have "lms_tail s i = lms_tail s j" using key by (simp only: lms_tail_eqs(2))
        then show False using less.prems(5) by simp
      qed
      ultimately have nl: "\<not> lms s i" "\<not> lms s j" by simp_all
      then have "lms_tail s (Suc i) < lms_tail s (Suc j)" using less.prems(5) key i j by (simp add: lms_tail_eqs(3))
      then have "drop (Suc i) s < drop (Suc j) s" using less.hyps [of "Suc i" "Suc j"] i eq(2) by simp
      then show ?thesis using eq drop_less_iff [OF i j] by blast
    qed
  qed
qed

lemma lms_word_less:
  assumes t: "terminated s k" and pq: "p < length s" "q < length s" and less: "lms_word s p < lms_word s q"
  shows "drop p s < drop q s"
proof (cases "symbol_key s p < symbol_key s q")
  case True
  then show ?thesis using ltype_below_stype [OF t pq] drop_less_iff [OF pq] unfolding symbol_key_less by blast
next
  case False
  then have "symbol_key s p = symbol_key s q" "lms_tail s (Suc p) < lms_tail s (Suc q)"
    using less pq by (auto simp: lms_word_def)
  moreover from this have "drop (Suc p) s < drop (Suc q) s" using lms_tail_less [OF t, of "Suc p" "Suc q"] pq by simp
  ultimately show ?thesis using drop_less_iff [OF pq] by simp
qed

text \<open>Equal words: the order is decided at the next placed positions.\<close>

lemma lms_tail_equal:
  assumes "lms s i'" "lms s j'" "drop i' s < drop j' s"
  shows "i \<le> i' \<Longrightarrow> j \<le> j' \<Longrightarrow> \<forall>p. i \<le> p \<and> p < i' \<longrightarrow> \<not> lms s p \<Longrightarrow> \<forall>p. j \<le> p \<and> p < j' \<longrightarrow> \<not> lms s p \<Longrightarrow>
    lms_tail s i = lms_tail s j \<Longrightarrow> drop i s < drop j s"
proof (induction "i' - i" arbitrary: i j)
  case 0
  then have i: "i = i'" by simp
  have "j = j'"
  proof (rule ccontr)
    assume "j \<noteq> j'"
    then have "\<not> lms s j" "Suc j < length s" using 0 assms(2) by (auto simp: lms_def)
    then show False using 0 i assms(1) lms_tail_Nil [of s "Suc j"] by (simp add: lms_tail_eqs(2,3))
  qed
  then show ?case using i assms(3) by simp
next
  case (Suc d)
  have i: "i < i'" "\<not> lms s i" "Suc i < length s" using Suc assms(1) by (auto simp: lms_def)
  then have ti: "lms_tail s i = symbol_key s i # lms_tail s (Suc i)" "lms_tail s (Suc i) \<noteq> []"
    by (simp_all add: lms_tail_eqs(3) lms_tail_Nil)
  have jn: "j < length s" using Suc.prems(2) assms(2) by (simp add: lms_def)
  have "j \<noteq> j'" using ti Suc.prems(5) assms(2) by (auto simp: lms_tail_eqs(2))
  then have j: "j < j'" "\<not> lms s j" using Suc.prems by auto
  then have tj: "lms_tail s j = symbol_key s j # lms_tail s (Suc j)" using jn by (simp add: lms_tail_eqs(3))
  have "drop (Suc i) s < drop (Suc j) s"
    using Suc.hyps(1) [of "Suc i" "Suc j"] Suc.hyps(2) Suc.prems i j ti tj by simp
  then show ?case using ti tj Suc.prems(5) i jn by (simp add: drop_less_iff)
qed

lemma between_lms_positions:
  assumes t: "terminated s k" and a: "Suc a < length (lms_positions s)" and p: "lms_positions s ! a < p" "p < lms_positions s ! Suc a"
  shows "\<not> lms s p"
proof
  note srt = lms_positions_sorted [of s, unfolded sorted_wrt_iff_nth_less]
  assume "lms s p"
  then obtain b where b: "b < length (lms_positions s)" "lms_positions s ! b = p"
    using set_lms_positions [OF t] by (metis in_set_conv_nth mem_Collect_eq)
  have "a < b" using srt b a p(1) by (metis linorder_neqE_nat order_less_asym order_less_irrefl Suc_lessD)
  moreover have "b < Suc a" using srt b a p(2) by (metis linorder_neqE_nat order_less_asym order_less_irrefl)
  ultimately show False by simp
qed

lemma reduced_order:
  assumes t: "terminated s k" and n: "1 < length s"
  defines "s1 \<equiv> fst (reduced_problem s k)"
  shows "a < length s1 \<Longrightarrow> b < length s1 \<Longrightarrow> drop a s1 < drop b s1 \<Longrightarrow>
    drop (lms_positions s ! a) s < drop (lms_positions s ! b) s"
proof (induction "length s1 - a" arbitrary: a b rule: less_induct)
  case less
  let ?l = "lms_positions s"
  have s1: "s1 = map (name_of s) ?l" by (simp add: s1_def reduced_problem_names [OF t n])
  have ab: "a < length ?l" "b < length ?l" using less.prems(1,2) s1 by simp_all
  have lms: "lms s (?l ! j)" if "j < length ?l" for j using set_lms_positions [OF t] nth_mem [OF that] by blast
  have pos: "?l ! a < length s" "?l ! b < length s" using lms ab by (auto simp: lms_def)
  consider "s1 ! a < s1 ! b" | "s1 ! a = s1 ! b" "drop (Suc a) s1 < drop (Suc b) s1"
    using less.prems drop_less_iff [of a s1 b] by blast
  then show ?case
  proof cases
    case 1
    then have "lms_word s (?l ! a) < lms_word s (?l ! b)" using name_of_less lms ab by (simp add: s1)
    then show ?thesis by (rule lms_word_less [OF t pos])
  next
    case 2
    have "lms_word s (?l ! a) = lms_word s (?l ! b)" using 2(1) name_of_eq lms ab by (simp add: s1)
    then have w: "symbol_key s (?l ! a) = symbol_key s (?l ! b)" "lms_tail s (Suc (?l ! a)) = lms_tail s (Suc (?l ! b))"
      using pos by (simp_all add: lms_word_def)
    have b: "Suc b < length s1"
    proof (rule ccontr)
      assume "\<not> Suc b < length s1"
      then have "drop (Suc b) s1 = []" by simp
      then show False using 2(2) by simp
    qed
    have "Suc a \<noteq> length s1"
    proof
      assume a: "Suc a = length s1"
      have "terminated s1 (snd (reduced_problem s k))" unfolding s1_def by (rule reduced_terminated [OF t n])
      then have "s1 ! a = 0" "s1 ! b \<noteq> 0" using a b by (simp_all add: terminated_def)
      then show False using 2(1) by simp
    qed
    then have a: "Suc a < length s1" using less.prems(1) by simp
    have nexts: "drop (?l ! Suc a) s < drop (?l ! Suc b) s" using less.hyps [of "Suc a" "Suc b"] a b 2(2) by simp
    have al: "Suc a < length ?l" "Suc b < length ?l" using a b s1 by simp_all
    have mono: "?l ! a < ?l ! Suc a" "?l ! b < ?l ! Suc b"
      using lms_positions_sorted [of s] al by (simp_all add: sorted_wrt_iff_nth_less)
    have "drop (Suc (?l ! a)) s < drop (Suc (?l ! b)) s"
      by (rule lms_tail_equal [OF lms [OF al(1)] lms [OF al(2)] nexts _ _ _ _ w(2)])
        (use mono between_lms_positions [OF t al(1)] between_lms_positions [OF t al(2)] in \<open>simp_all add: Suc_le_eq\<close>)
    then show ?thesis using w(1) pos by (simp add: drop_less_iff)
  qed
qed

end
