(* ===== verification/Suffix_Array.thy ===== *)
theory Suffix_Array
  imports Lms_Names
begin

text \<open>
  The correctness of the suffix array construction: the order of the reduced text, from its own
  array or from its permutation, places the positions so that the second use of the passes
  sorts all suffixes, and without the terminator the result is the list of positions sorted by
  suffix.
\<close>

section \<open>The order of suffixes in the passes\<close>

lemma suffix_l_order:
  assumes t: "terminated s k"
  shows "l_order s (suffix_less s)"
  unfolding l_order_def suffix_less_def
proof (intro allI impI conjI)
  fix p q assume pq: "p < length s" "q < length s"
  show "drop p s < drop q s" if "s ! p = s ! q" "\<not> stype s p" "stype s q" by (rule ltype_below_stype [OF t pq that])
  show "drop p s < drop q s" if "s ! p < s ! q" using that pq by (simp add: drop_less_iff)
  show "drop p s < drop q s" if "s ! p = s ! q" "drop (Suc p) s < drop (Suc q) s" using that pq by (simp add: drop_less_iff)
qed

lemma suffix_s_order:
  assumes t: "terminated s k"
  shows "s_order s (suffix_less s)"
  unfolding s_order_def suffix_less_def
proof (intro allI impI conjI)
  fix p q assume pq: "p < length s" "q < length s"
  show "drop p s < drop q s" if "s ! p = s ! q" "\<not> stype s p" "stype s q" by (rule ltype_below_stype [OF t pq that])
  show "drop p s < drop q s" if "s ! p < s ! q" using that pq by (simp add: drop_less_iff)
  show "drop p s < drop q s" if "s ! p = s ! q" "drop (Suc p) s < drop (Suc q) s" using that pq by (simp add: drop_less_iff)
qed

section \<open>A permutation\<close>

lemma inverse_permutation_nth:
  assumes "distinct s1" "i < length s1" "\<And>v. v \<in> set s1 \<Longrightarrow> v < length s1"
  shows "length (inverse_permutation s1) = length s1" "inverse_permutation s1 ! (s1 ! i) = i"
proof -
  let ?f = "\<lambda>(i, name) inv. inv[name := i]"
  have main: "length (fold ?f (enumerate k xs) inv) = length inv \<and>
      (\<forall>i < length xs. xs ! i < length inv \<longrightarrow> fold ?f (enumerate k xs) inv ! (xs ! i) = k + i) \<and>
      (\<forall>v. v \<notin> set xs \<longrightarrow> fold ?f (enumerate k xs) inv ! v = inv ! v)" if "distinct xs" for k inv and xs :: "nat list"
    using that
  proof (induction xs arbitrary: k inv)
    case (Cons x xs)
    then have IH: "length (fold ?f (enumerate (Suc k) xs) (inv[x := k])) = length inv"
      "\<And>i. i < length xs \<Longrightarrow> xs ! i < length inv \<Longrightarrow> fold ?f (enumerate (Suc k) xs) (inv[x := k]) ! (xs ! i) = Suc k + i"
      "\<And>v. v \<notin> set xs \<Longrightarrow> fold ?f (enumerate (Suc k) xs) (inv[x := k]) ! v = inv[x := k] ! v"
      using Cons.IH [of "Suc k" "inv[x := k]"] by simp_all
    show ?case
    proof (intro conjI allI impI)
      fix i assume i: "i < length (x # xs)" "(x # xs) ! i < length inv"
      show "fold ?f (enumerate k (x # xs)) inv ! ((x # xs) ! i) = k + i"
        using i IH(2) [of "i - 1"] IH(3) [of x] Cons.prems by (cases i) simp_all
    next
      fix v assume "v \<notin> set (x # xs)"
      then show "fold ?f (enumerate k (x # xs)) inv ! v = inv ! v" using IH(3) [of v] by simp
    qed (simp add: IH(1))
  qed simp
  from main [OF assms(1), of 0 "replicate (length s1) 0"] show "length (inverse_permutation s1) = length s1"
    "inverse_permutation s1 ! (s1 ! i) = i"
    using assms(2,3) nth_mem [OF assms(2)] by (simp_all add: inverse_permutation_def)
qed

lemma inverse_permutation_suffix_array:
  assumes "distinct s1" "\<And>v. v \<in> set s1 \<Longrightarrow> v < length s1"
  shows "is_suffix_array s1 (inverse_permutation s1)"
proof -
  let ?inv = "inverse_permutation s1"
  have range: "set s1 = {..<length s1}"
    by (rule card_subset_eq) (use assms distinct_card [OF assms(1)] in auto)
  have ex: "\<exists>i < length s1. s1 ! i = v \<and> ?inv ! v = i" if v: "v < length s1" for v
  proof -
    have "v \<in> set s1" using v range by simp
    then obtain i where "i < length s1" "s1 ! i = v" by (metis in_set_conv_nth)
    then show ?thesis using inverse_permutation_nth(2) [OF assms(1)] assms(2) by blast
  qed
  have len: "length ?inv = length s1"
    using inverse_permutation_nth(1) [OF assms(1)] assms(2) by (cases s1) (auto simp: inverse_permutation_def)
  have img: "s1 ! (?inv ! v) = v" "?inv ! v < length s1" if "v < length s1" for v
    using ex [OF that] by auto
  have "set ?inv = {..<length s1}"
  proof
    show "set ?inv \<subseteq> {..<length s1}" using img(2) len by (auto simp: in_set_conv_nth)
    show "{..<length s1} \<subseteq> set ?inv"
    proof
      fix i assume "i \<in> {..<length s1}"
      then have i: "i < length s1" "s1 ! i < length s1" using assms(2) nth_mem by auto
      then have "?inv ! (s1 ! i) = i" using inverse_permutation_nth(2) [OF assms(1)] assms(2) by blast
      then show "i \<in> set ?inv" using i(2) len by (metis nth_mem)
    qed
  qed
  moreover have "sorted_wrt (suffix_less s1) ?inv"
    unfolding sorted_wrt_iff_nth_less suffix_less_def
  proof (intro allI impI)
    fix x y assume "x < y" "y < length ?inv"
    then show "drop (?inv ! x) s1 < drop (?inv ! y) s1"
      using img [of x] img [of y] len by (simp add: drop_less_iff)
  qed
  ultimately show ?thesis by (simp add: is_suffix_array_def)
qed

section \<open>The recursive construction\<close>

lemma sais_suffix_array: "terminated s k \<Longrightarrow> is_suffix_array s (sais s k)"
proof (induction "length s" arbitrary: s k rule: less_induct)
  case less
  note t = less.prems
  have pos: "0 < length s" using t by (simp add: terminated_def)
  show ?case
  proof (cases "length s = 1")
    case True
    then have "sais s k = [0]" by (subst sais.simps) (simp add: Let_def)
    then show ?thesis using True by (simp add: is_suffix_array_def lessThan_Suc)
  next
    case False
    then have n: "1 < length s" using pos by linarith
    let ?l = "lms_positions s"
    obtain s1 names where red: "reduced_problem s k = (s1, names)" by (cases "reduced_problem s k")
    define sa1 where "sa1 = (if names = length s1 then inverse_permutation s1 else sais s1 names)"
    have len: "length s1 = length ?l" using length_reduced_problem [of s k] red by simp
    have t1: "terminated s1 names" using reduced_terminated [OF t n] red by simp
    have sa1: "is_suffix_array s1 sa1"
    proof (cases "names = length s1")
      case True
      have s1: "s1 = map (name_of s) ?l" "names = card (lms_word s ` {p. lms s p})"
        using reduced_problem_names [OF t n] red by simp_all
      have "card (name_of s ` {p. lms s p}) = card (lms_word s ` {p. lms s p})"
      proof -
        have "name_of s ` {p. lms s p} = (\<lambda>w. card {v \<in> lms_word s ` {q. lms s q}. v < w}) ` lms_word s ` {p. lms s p}"
          by (simp add: image_image name_of_def)
        moreover have "inj_on (\<lambda>w. card {v \<in> lms_word s ` {q. lms s q}. v < w}) (lms_word s ` {p. lms s p})"
        proof (rule inj_onI)
          fix v w assume "v \<in> lms_word s ` {p. lms s p}" "w \<in> lms_word s ` {p. lms s p}"
            "card {u \<in> lms_word s ` {q. lms s q}. u < v} = card {u \<in> lms_word s ` {q. lms s q}. u < w}"
          then show "v = w" using name_of_eq [of s] unfolding name_of_def by auto
        qed
        ultimately show ?thesis by (simp only: card_image)
      qed
      moreover have "set s1 = name_of s ` {p. lms s p}" using s1(1) set_lms_positions [OF t] by simp
      ultimately have "card (set s1) = length s1" using s1(2) True by simp
      then have "distinct s1" by (rule card_distinct)
      moreover have "v < length s1" if "v \<in> set s1" for v
        using t1 that True by (auto simp: terminated_def in_set_conv_nth)
      ultimately show ?thesis using inverse_permutation_suffix_array True by (simp add: sa1_def)
    next
      case False
      have "length s1 < length s" using len fewer_lms_positions [OF n] by simp
      from less.hyps [OF this t1] show ?thesis using False by (simp add: sa1_def)
    qed
    let ?ps = "map (\<lambda>idx. ?l ! idx) (rev sa1)"
    have set1: "set sa1 = {..<length ?l}" using sa1 len by (simp add: is_suffix_array_def)
    moreover have "set ?l = (\<lambda>idx. ?l ! idx) ` {..<length ?l}" by (metis atLeast0LessThan map_nth set_map set_upt)
    ultimately have "set ?ps = set ?l" by simp
    then have ps: "set ?ps = {p. lms s p}" using set_lms_positions [OF t] by simp
    have "inj_on (\<lambda>idx. ?l ! idx) {..<length ?l}"
      by (rule inj_on_nth) (auto simp: lms_positions_def)
    then have dist: "distinct ?ps" using set1 suffix_array_basics(1) [OF sa1] by (simp add: distinct_map)
    have "sorted_wrt (\<lambda>a b. suffix_less s b a) ?ps"
    proof -
      have "sorted_wrt (\<lambda>a b. suffix_less s (?l ! a) (?l ! b)) sa1"
      proof (rule sorted_wrt_mono_rel)
        show "sorted_wrt (suffix_less s1) sa1" using sa1 by (simp add: is_suffix_array_def)
        show "suffix_less s (?l ! a) (?l ! b)" if "a \<in> set sa1" "b \<in> set sa1" "suffix_less s1 a b" for a b
          using reduced_order [OF t n, of a b] that set1 len red by (simp add: suffix_less_def)
      qed
      then show ?thesis by (simp add: sorted_wrt_map sorted_wrt_rev)
    qed
    then have srt: "sorted_wrt (\<lambda>a b. s ! a = s ! b \<longrightarrow> suffix_less s b a) ?ps"
      by (rule sorted_wrt_mono_rel [rotated]) simp
    from induce_from_sorted [OF t n ps dist srt suffix_l_order [OF t] suffix_s_order [OF t]] obtain xs where
      xs: "induce_from s k ?ps = map Some xs" "set xs = {..<length s}" "sorted_wrt (suffix_less s) xs" by blast
    have "sais s k = map the (induce_from s k ?ps)"
      using n pos by (subst sais.simps) (simp add: Let_def red sa1_def)
    also have "\<dots> = xs" using xs(1) by (simp add: comp_def)
    finally show ?thesis using xs(2,3) by (simp add: is_suffix_array_def)
  qed
qed

section \<open>The terminator\<close>

lemma terminated_less:
  fixes f :: "'a :: linorder \<Rightarrow> nat"
  assumes "\<And>x y. x \<in> set xs \<union> set ys \<Longrightarrow> y \<in> set xs \<union> set ys \<Longrightarrow> f x < f y \<longleftrightarrow> x < y" "\<And>x. 0 < f x"
  shows "map f xs @ [0] < map f ys @ [0] \<longleftrightarrow> xs < ys"
  using assms(1)
proof (induction xs arbitrary: ys)
  case Nil
  then show ?case using assms(2) by (cases ys) auto
next
  case (Cons x xs)
  show ?case
  proof (cases ys)
    case Nil
    then show ?thesis by simp
  next
    case (Cons y zs)
    have "map f xs @ [0] < map f zs @ [0] \<longleftrightarrow> xs < zs"
      by (rule Cons.IH) (use Cons.prems local.Cons in auto)
    moreover have "f x < f y \<longleftrightarrow> x < y" "f y < f x \<longleftrightarrow> y < x" using Cons.prems local.Cons by auto
    ultimately show ?thesis using local.Cons by (auto simp: neq_iff)
  qed
qed

lemma build_suffix_array_is: "is_suffix_array text (build_suffix_array text)"
proof (cases "text = []")
  case True
  then show ?thesis by (simp add: build_suffix_array_def is_suffix_array_def)
next
  case False
  let ?min = "Min (set text)" and ?max = "Max (set text)" and ?n = "length text"
  let ?f = "\<lambda>v. nat (v - ?min) + 1"
  let ?s = "map ?f text @ [0]" and ?k = "nat (?max - ?min) + 2"
  have rng: "?min \<le> v" "v \<le> ?max" if "v \<in> set text" for v using that by simp_all
  have t: "terminated ?s ?k"
    unfolding terminated_def
  proof (intro conjI allI impI)
    fix i assume i: "i < length ?s"
    show "?s ! i < ?k"
    proof (cases "i < ?n")
      case True
      then have "nat (text ! i - ?min) \<le> nat (?max - ?min)" using rng(2) [OF nth_mem] by (intro nat_mono) simp
      then show ?thesis using True by (simp add: nth_append)
    qed (use i in \<open>simp add: nth_append\<close>)
    show "?s ! i = 0 \<longleftrightarrow> Suc i = length ?s" using i by (cases "i < ?n") (simp_all add: nth_append)
  qed simp
  have sa: "is_suffix_array ?s (sais ?s ?k)" by (rule sais_suffix_array [OF t])
  have "length (sais ?s ?k) = Suc ?n" using suffix_array_basics(2) [OF sa] by simp
  then obtain h r where hr: "sais ?s ?k = h # r" by (cases "sais ?s ?k") auto
  have S: "set (h # r) = {..?n}" "sorted_wrt (suffix_less ?s) r" "\<And>x. x \<in> set r \<Longrightarrow> suffix_less ?s h x" "distinct (h # r)"
    using sa suffix_array_basics(1) [OF sa] unfolding hr is_suffix_array_def by (simp_all add: lessThan_Suc_atMost)
  have h: "h = ?n"
  proof (rule ccontr)
    assume ne: "h \<noteq> ?n"
    then have "?n \<in> set r" "h < ?n" using S(1) by (auto simp: set_eq_iff order_less_le)
    then have "drop h ?s < drop ?n ?s" using S(3) [of ?n] unfolding suffix_less_def by blast
    then show False using \<open>h < ?n\<close> by (auto simp flip: Cons_nth_drop_Suc)
  qed
  have "set r = {..<?n}"
  proof -
    have "set r = set (h # r) - {h}" using S(4) by auto
    also have "\<dots> = {..?n} - {?n}" unfolding S(1) by (simp only: h)
    also have "\<dots> = {..<?n}" by auto
    finally show ?thesis .
  qed
  moreover have "sorted_wrt (suffix_less text) r"
  proof (rule sorted_wrt_mono_rel [OF _ S(2)])
    fix i j assume ij: "i \<in> set r" "j \<in> set r" "suffix_less ?s i j"
    have sub: "set (drop i text) \<union> set (drop j text) \<subseteq> set text" by (auto dest: in_set_dropD)
    have "map ?f (drop i text) @ [0] < map ?f (drop j text) @ [0] \<longleftrightarrow> drop i text < drop j text"
    proof (rule terminated_less)
      fix x y assume "x \<in> set (drop i text) \<union> set (drop j text)" "y \<in> set (drop i text) \<union> set (drop j text)"
      then have "?min \<le> x" "?min \<le> y" using sub rng(1) by blast+
      then show "?f x < ?f y \<longleftrightarrow> x < y" by linarith
    qed simp
    then show "suffix_less text i j" using ij \<open>set r = {..<?n}\<close> by (simp add: suffix_less_def drop_map)
  qed
  ultimately show ?thesis using False hr by (simp add: build_suffix_array_def Let_def is_suffix_array_def)
qed

lemma sort_key_suffix_array: "is_suffix_array text (sort_key (\<lambda>i. drop i text) [0..<length text])"
proof -
  let ?l = "sort_key (\<lambda>i. drop i text) [0..<length text]"
  have s: "set ?l = {..<length text}" "distinct ?l" by auto
  have "sorted_wrt (\<lambda>i j. i \<noteq> j \<and> drop i text \<le> drop j text) ?l"
    using s(2) sorted_sort_key [of "\<lambda>i. drop i text" "[0..<length text]"]
    by (auto simp: sorted_map sorted_wrt_iff_nth_less nth_eq_iff_index_eq)
  then have "sorted_wrt (suffix_less text) ?l"
  proof (rule sorted_wrt_mono_rel [rotated])
    fix i j assume "i \<in> set ?l" "j \<in> set ?l" "i \<noteq> j \<and> drop i text \<le> drop j text"
    then show "suffix_less text i j" using drop_inj [of i "text" j] by (auto simp: suffix_less_def less_le)
  qed
  then show ?thesis using s(1) by (simp add: is_suffix_array_def)
qed

text \<open>
  C4. The construction by induced sorting returns the positions of the text sorted by their suffixes,
  for every text: the linear-time routine equals the comparison sort it replaces.
\<close>

theorem build_suffix_array_sorts: "build_suffix_array text = sort_key (\<lambda>i. drop i text) [0..<length text]"
  by (rule suffix_array_unique [OF build_suffix_array_is sort_key_suffix_array])

end
