(* ===== verification/Clone_Report.thy ===== *)
theory Clone_Report
  imports Complex_Main Clone_Filter Suppression_Context "HOL-Library.Multiset"
begin

text \<open>
  The duplication report: its statistics (\<^verbatim>\<open>detect/statistics.rs\<close>), the filters applied to it
  (\<^verbatim>\<open>mod.rs\<close>), its sorting (\<^verbatim>\<open>types.rs\<close>), and the clone families with their refactoring
  suggestions and mirrored directories (\<^verbatim>\<open>families.rs\<close>), all of
  \<^verbatim>\<open>crates/core/src/duplicates\<close>.  A percentage is the exact rational whose nearest
  double-precision value the code computes.  A hash map is an association list in the order of
  its insertions, standing for the unspecified order of its iterator.
\<close>

section \<open>The report\<close>

datatype RefactoringKind = ExtractFunction | ExtractModule

record RefactoringSuggestion =
  refactoring_kind :: RefactoringKind
  suggestion_text :: string
  estimated_savings :: nat

record CloneFamily =
  family_files :: "path list"
  family_groups :: "CloneGroup list"
  total_duplicated_lines :: nat
  total_duplicated_tokens :: nat
  suggestions :: "RefactoringSuggestion list"

record MirroredDirectory =
  dir_a :: string
  dir_b :: string
  shared_files :: "string list"
  mirror_lines :: nat

record DuplicationStats =
  total_files :: nat
  files_with_clones :: nat
  total_lines :: nat
  duplicated_lines :: nat
  total_tokens :: nat
  duplicated_tokens :: nat
  stat_clone_groups :: nat
  clone_instances :: nat
  duplication_percentage :: rat
  clone_groups_below_min_occurrences :: nat

record DuplicationReport =
  clone_groups :: "CloneGroup list"
  clone_families :: "CloneFamily list"
  mirrored_directories :: "MirroredDirectory list"
  stats :: DuplicationStats

section \<open>Statistics\<close>

record StatsAcc =
  acc_files :: "path set"
  acc_lines :: "(path \<times> nat set) list"
  acc_tokens :: nat
  acc_instances :: nat

definition count_instance :: "CloneInstance \<Rightarrow> StatsAcc \<Rightarrow> StatsAcc" where
  "count_instance i acc =
     (let lines = (case map_of (acc_lines acc) (clone_file i) of Some ls \<Rightarrow> ls | None \<Rightarrow> {})
      in acc\<lparr>acc_files := insert (clone_file i) (acc_files acc),
             acc_instances := acc_instances acc + 1,
             acc_lines := AList.update (clone_file i)
               (lines \<union> {start_line i..end_line i}) (acc_lines acc)\<rparr>)"

definition count_group :: "CloneGroup \<Rightarrow> StatsAcc \<Rightarrow> StatsAcc" where
  "count_group g acc =
     (let acc1 = fold count_instance (instances g) acc
      in if length (instances g) > 1
         then acc1\<lparr>acc_tokens := acc_tokens acc1 + token_count g * (length (instances g) - 1)\<rparr>
         else acc1)"

definition count_groups :: "CloneGroup list \<Rightarrow> StatsAcc" where
  "count_groups gs =
     fold count_group gs \<lparr>acc_files = {}, acc_lines = [], acc_tokens = 0, acc_instances = 0\<rparr>"

definition compute_stats :: "CloneGroup list \<Rightarrow> nat \<Rightarrow> nat \<Rightarrow> nat \<Rightarrow> DuplicationStats" where
  "compute_stats gs n_files n_lines n_tokens =
     (let acc = count_groups gs;
          dup_line_count = sum_list (map (card \<circ> snd) (acc_lines acc));
          percentage = (if n_lines > 0 then of_nat dup_line_count / of_nat n_lines * 100 else 0)
      in \<lparr>total_files = n_files, files_with_clones = card (acc_files acc),
          total_lines = n_lines, duplicated_lines = dup_line_count,
          total_tokens = n_tokens, duplicated_tokens = min (acc_tokens acc) n_tokens,
          stat_clone_groups = length gs, clone_instances = acc_instances acc,
          duplication_percentage = percentage, clone_groups_below_min_occurrences = 0\<rparr>)"

definition empty_report :: "nat \<Rightarrow> nat \<Rightarrow> nat \<Rightarrow> DuplicationReport" where
  "empty_report n_files n_lines n_tokens =
     \<lparr>clone_groups = [], clone_families = [], mirrored_directories = [],
      stats = \<lparr>total_files = n_files, files_with_clones = 0, total_lines = n_lines,
        duplicated_lines = 0, total_tokens = n_tokens, duplicated_tokens = 0,
        stat_clone_groups = 0, clone_instances = 0, duplication_percentage = 0,
        clone_groups_below_min_occurrences = 0\<rparr>\<rparr>"

section \<open>Filters of the report\<close>

definition apply_min_occurrences_filter :: "nat \<Rightarrow> DuplicationReport \<Rightarrow> DuplicationReport" where
  "apply_min_occurrences_filter n report =
     (if n \<le> 2 then report
      else
        (let before = length (clone_groups report);
             report1 = report\<lparr>clone_groups :=
               filter (\<lambda>g. length (instances g) \<ge> n) (clone_groups report)\<rparr>;
             hidden = before - length (clone_groups report1)
         in if hidden = 0 then report1
            else report1\<lparr>stats := (stats report1)\<lparr>
              clone_groups_below_min_occurrences := hidden,
              stat_clone_groups := length (clone_groups report1),
              clone_instances :=
                sum_list (map (\<lambda>g. length (instances g)) (clone_groups report1))\<rparr>\<rparr>))"

text \<open>The line number is cast to 32 bits.\<close>

definition instance_kept :: "(path \<times> Suppression list) list \<Rightarrow> CloneInstance \<Rightarrow> bool" where
  "instance_kept suppressions_by_file i =
     (case map_of suppressions_by_file (clone_file i) of
        None \<Rightarrow> True
      | Some supps \<Rightarrow>
          list_all (\<lambda>l. \<not> is_suppressed supps (l mod 2 ^ 32) CodeDuplication)
            [start_line i..<end_line i + 1])"

definition apply_line_suppressions ::
  "(path \<times> Suppression list) list \<Rightarrow> DuplicationReport \<Rightarrow> DuplicationReport" where
  "apply_line_suppressions suppressions_by_file report =
     report\<lparr>clone_groups :=
       filter (\<lambda>g. length (instances g) \<ge> 2)
         (map (\<lambda>g. g\<lparr>instances := filter (instance_kept suppressions_by_file) (instances g)\<rparr>)
           (clone_groups report))\<rparr>"

section \<open>Sorting\<close>

definition sort_instances :: "CloneGroup \<Rightarrow> CloneGroup" where
  "sort_instances g = g\<lparr>instances := sort_key instance_key (instances g)\<rparr>"

text \<open>
  The order of groups: by the file and start line of the first instance, a group without
  instances last.
\<close>

definition group_key :: "CloneGroup \<Rightarrow> nat \<times> path \<times> nat" where
  "group_key g = (case instances g of
     [] \<Rightarrow> (1, [], 0)
   | i # _ \<Rightarrow> (0, clone_file i, start_line i))"

definition sort_groups :: "CloneGroup list \<Rightarrow> CloneGroup list" where
  "sort_groups gs = sort_key group_key (map sort_instances gs)"

definition report_sort :: "DuplicationReport \<Rightarrow> DuplicationReport" where
  "report_sort report =
     report\<lparr>clone_groups := sort_groups (clone_groups report),
            clone_families := sort_key family_files
              (map (\<lambda>f. f\<lparr>family_groups := sort_groups (family_groups f)\<rparr>)
                (clone_families report))\<rparr>"

section \<open>Families\<close>

fun join_strings :: "string \<Rightarrow> string list \<Rightarrow> string" where
  "join_strings sep [] = []"
| "join_strings sep [s] = s"
| "join_strings sep (s # t # ts) = s @ sep @ join_strings sep (t # ts)"

text \<open>A sorted set of paths as its list.\<close>

definition btree_set :: "path list \<Rightarrow> path list" where
  "btree_set ps = sort (remdups ps)"

definition MODULE_EXTRACTION_THRESHOLD :: nat where
  "MODULE_EXTRACTION_THRESHOLD = 50"

definition group_savings :: "CloneGroup \<Rightarrow> nat" where
  "group_savings g = group_line_count g * (length (instances g) - 1)"

definition extract_module_suggestion ::
  "path list \<Rightarrow> CloneGroup list \<Rightarrow> nat \<Rightarrow> path list \<Rightarrow> path \<Rightarrow> RefactoringSuggestion" where
  "extract_module_suggestion file_set groups dup_lines directories root_dir =
     (let file_names = List.map_filter file_name file_set;
          location_hint =
            (if length directories > 1 then ''a shared directory''
             else (case directories of
                     [] \<Rightarrow> ''the same directory''
                   | d # _ \<Rightarrow>
                       (let rel = (case strip_prefix root_dir d of Some r \<Rightarrow> r | None \<Rightarrow> d)
                        in if rel = [] then ''the project root'' else path_string rel)))
      in \<lparr>refactoring_kind = ExtractModule,
          suggestion_text = ''Extract '' @ decimal (length groups) @ '' shared clone group'' @
            (if length groups = 1 then [] else ''s'') @ '' ('' @ decimal dup_lines @ '' lines) from '' @
            join_strings '', '' file_names @ '' into '' @ location_hint,
          estimated_savings = sum_list (map group_savings groups)\<rparr>)"

definition extract_function_suggestion :: "CloneGroup \<Rightarrow> RefactoringSuggestion" where
  "extract_function_suggestion g =
     \<lparr>refactoring_kind = ExtractFunction,
      suggestion_text = ''Extract shared function ('' @ decimal (group_line_count g) @
        '' lines) from '' @
        join_strings '', '' (List.map_filter (\<lambda>i. file_name (clone_file i)) (instances g)),
      estimated_savings = group_savings g\<rparr>"

definition generate_suggestions ::
  "path list \<Rightarrow> CloneGroup list \<Rightarrow> nat \<Rightarrow> path \<Rightarrow> RefactoringSuggestion list" where
  "generate_suggestions file_set groups dup_lines root_dir =
     (let directories = btree_set (List.map_filter path_parent file_set)
      in if dup_lines \<ge> MODULE_EXTRACTION_THRESHOLD
         then [extract_module_suggestion file_set groups dup_lines directories root_dir]
         else map extract_function_suggestion groups)"

definition group_file_set :: "CloneGroup \<Rightarrow> path list" where
  "group_file_set g = btree_set (map clone_file (instances g))"

text \<open>The map from file sets to groups, in the order of first insertion.\<close>

fun add_to_family ::
  "CloneGroup \<Rightarrow> (path list \<times> CloneGroup list) list \<Rightarrow> (path list \<times> CloneGroup list) list" where
  "add_to_family g [] = [(group_file_set g, [g])]"
| "add_to_family g ((fs, gs) # rest) =
     (if fs = group_file_set g then (fs, gs @ [g]) # rest else (fs, gs) # add_to_family g rest)"

definition make_family :: "path \<Rightarrow> path list \<times> CloneGroup list \<Rightarrow> CloneFamily" where
  "make_family root_dir entry = (case entry of (file_set, groups) \<Rightarrow>
     (let dup_lines = sum_list (map group_line_count groups);
          dup_tokens = sum_list (map token_count groups)
      in \<lparr>family_files = file_set, family_groups = groups, total_duplicated_lines = dup_lines,
          total_duplicated_tokens = dup_tokens,
          suggestions = generate_suggestions file_set groups dup_lines root_dir\<rparr>))"

definition group_into_families :: "CloneGroup list \<Rightarrow> path \<Rightarrow> CloneFamily list" where
  "group_into_families gs root_dir =
     (if gs = [] then []
      else sort_key (\<lambda>f. (- int (total_duplicated_lines f), - int (length (family_groups f))))
        (map (make_family root_dir) (fold add_to_family gs [])))"

section \<open>Mirrored directories\<close>

definition split_dir_file :: "string \<Rightarrow> string \<times> string" where
  "split_dir_file p =
     (case rfind (\<lambda>c. c = CHR ''/'') p of
        Some pos \<Rightarrow> (take (pos + 1) p, drop (pos + 1) p)
      | None \<Rightarrow> ([], p))"

definition forward_slashes :: "string \<Rightarrow> string" where
  "forward_slashes s = map (\<lambda>c. if c = byte_char 92 then CHR ''/'' else c) s"

definition mirror_entry ::
  "path \<Rightarrow> CloneFamily \<Rightarrow> ((string \<times> string) \<times> string \<times> nat) option" where
  "mirror_entry root_dir family =
     (if length (family_files family) \<noteq> 2 then None
      else
        (let relative = (\<lambda>p. forward_slashes (path_string
               (case strip_prefix root_dir p of Some r \<Rightarrow> r | None \<Rightarrow> p)));
             (d_a, file_a) = split_dir_file (relative (family_files family ! 0));
             (d_b, file_b) = split_dir_file (relative (family_files family ! 1))
         in if file_a \<noteq> file_b then None
            else Some (if d_a \<le> d_b then (d_a, d_b) else (d_b, d_a),
                       file_a, total_duplicated_lines family)))"

definition MIN_MIRROR_FAMILIES :: nat where
  "MIN_MIRROR_FAMILIES = 3"

definition add_mirror_entry ::
  "(string \<times> string) \<times> string \<times> nat \<Rightarrow> ((string \<times> string) \<times> (string \<times> nat) list) list \<Rightarrow>
     ((string \<times> string) \<times> (string \<times> nat) list) list" where
  "add_mirror_entry e pair_map = (case e of (k, v) \<Rightarrow>
     AList.update k ((case map_of pair_map k of Some vs \<Rightarrow> vs | None \<Rightarrow> []) @ [v]) pair_map)"

definition detect_mirrored_directories :: "CloneFamily list \<Rightarrow> path \<Rightarrow> MirroredDirectory list" where
  "detect_mirrored_directories families root_dir =
     (let pair_map = fold add_mirror_entry (List.map_filter (mirror_entry root_dir) families) [];
          mirrors = List.map_filter (\<lambda>((d_a, d_b), entries).
            if length entries < MIN_MIRROR_FAMILIES then None
            else Some \<lparr>dir_a = d_a, dir_b = d_b, shared_files = sort (map fst entries),
                       mirror_lines = sum_list (map snd entries)\<rparr>) pair_map
      in sort_key (\<lambda>m. - int (mirror_lines m)) mirrors)"

section \<open>The statistics count sets of lines\<close>

definition lines_of :: "(path \<times> nat set) list \<Rightarrow> (path \<times> nat) set" where
  "lines_of al = {(p, l). \<exists>ls. map_of al p = Some ls \<and> l \<in> ls}"

definition line_map_ok :: "(path \<times> nat set) list \<Rightarrow> bool" where
  "line_map_ok al \<longleftrightarrow> distinct (map fst al) \<and> (\<forall>ls \<in> snd ` set al. finite ls)"

lemma lines_of_Cons:
  "p \<notin> fst ` set al \<Longrightarrow> lines_of ((p, ls) # al) = {p} \<times> ls \<union> lines_of al"
  by (force simp: lines_of_def split: if_splits dest: map_of_SomeD)

lemma finite_lines_of: "line_map_ok al \<Longrightarrow> finite (lines_of al)"
proof (induction al)
  case Nil
  then show ?case by (simp add: lines_of_def)
next
  case (Cons a al)
  then show ?case by (cases a) (auto simp: line_map_ok_def lines_of_Cons)
qed

lemma card_lines_of: "line_map_ok al \<Longrightarrow> sum_list (map (card \<circ> snd) al) = card (lines_of al)"
proof (induction al)
  case Nil
  then show ?case by (simp add: lines_of_def)
next
  case (Cons a al)
  obtain p ls where a: "a = (p, ls)" by fastforce
  with Cons.prems have ok: "p \<notin> fst ` set al" "line_map_ok al" "finite ls"
    by (auto simp: line_map_ok_def)
  have "({p} \<times> ls) \<inter> lines_of al = {}"
    using ok(1) by (force simp: lines_of_def dest: map_of_SomeD)
  then have "card (lines_of (a # al)) = card ({p} \<times> ls) + card (lines_of al)"
    using ok finite_lines_of [OF ok(2)] by (simp add: a lines_of_Cons card_Un_disjoint)
  with Cons.IH [OF ok(2)] show ?case by (simp add: a card_cartesian_product_singleton)
qed

lemma update_line_map:
  fixes p :: path
  assumes "line_map_ok al" "finite new"
  defines "old \<equiv> (case map_of al p of Some ls \<Rightarrow> ls | None \<Rightarrow> {})"
  shows "line_map_ok (AList.update p (old \<union> new) al)"
    and "lines_of (AList.update p (old \<union> new) al) = lines_of al \<union> {p} \<times> new"
proof -
  have old: "finite old"
    using assms(1) by (force simp: old_def line_map_ok_def dest: map_of_SomeD split: option.split)
  have sub: "snd ` set (AList.update p (old \<union> new) al) \<subseteq> insert (old \<union> new) (snd ` set al)"
    by (induction al) auto
  have "finite ls" if "ls \<in> snd ` set (AList.update p (old \<union> new) al)" for ls
  proof -
    from sub that have "ls \<in> insert (old \<union> new) (snd ` set al)" by (rule subsetD)
    then show ?thesis using old assms(1,2) by (auto simp: line_map_ok_def)
  qed
  then have "\<forall>ls \<in> snd ` set (AList.update p (old \<union> new) al). finite ls" by blast
  moreover have "distinct (map fst (AList.update p (old \<union> new) al))"
    using assms(1) by (intro distinct_update) (simp add: line_map_ok_def)
  ultimately show "line_map_ok (AList.update p (old \<union> new) al)"
    unfolding line_map_ok_def by (rule conjI [rotated])
  show "lines_of (AList.update p (old \<union> new) al) = lines_of al \<union> {p} \<times> new"
    by (auto simp: lines_of_def update_conv' old_def split: if_splits option.splits)
qed

text \<open>The accumulator after the instances \<open>is\<close>.\<close>

definition counted :: "CloneInstance list \<Rightarrow> StatsAcc \<Rightarrow> bool" where
  "counted is acc \<longleftrightarrow> acc_files acc = set (map clone_file is) \<and> line_map_ok (acc_lines acc) \<and>
     lines_of (acc_lines acc) = covered_lines is \<and> acc_instances acc = length is"

lemma counted_instances:
  "counted is acc \<Longrightarrow> counted (is @ js) (fold count_instance js acc) \<and>
     acc_tokens (fold count_instance js acc) = acc_tokens acc"
proof (induction js arbitrary: "is" acc)
  case (Cons j js)
  have "counted (is @ [j]) (count_instance j acc)"
    using Cons.prems update_line_map [of "acc_lines acc" "{start_line j..end_line j}" "clone_file j"]
    by (auto simp: counted_def count_instance_def Let_def covered_lines_def)
  moreover have "acc_tokens (count_instance j acc) = acc_tokens acc"
    by (simp add: count_instance_def Let_def)
  ultimately show ?case using Cons.IH [of "is @ [j]" "count_instance j acc"] by simp
qed simp

definition redundant_tokens :: "CloneGroup list \<Rightarrow> nat" where
  "redundant_tokens gs = (\<Sum>g\<leftarrow>gs. token_count g * (length (instances g) - 1))"

lemma counted_groups:
  "counted is acc \<Longrightarrow> counted (is @ concat (map instances gs)) (fold count_group gs acc) \<and>
     acc_tokens (fold count_group gs acc) = acc_tokens acc + redundant_tokens gs"
proof (induction gs arbitrary: "is" acc)
  case (Cons g gs)
  have "counted (is @ instances g) (count_group g acc)"
    "acc_tokens (count_group g acc) = acc_tokens acc + token_count g * (length (instances g) - 1)"
    using counted_instances [OF Cons.prems, of "instances g"]
    by (auto simp: count_group_def Let_def counted_def)
  with Cons.IH [of "is @ instances g" "count_group g acc"] show ?case
    by (simp add: redundant_tokens_def)
qed (simp add: redundant_tokens_def)

lemma covered_lines_concat: "covered_lines (concat (map instances gs)) = group_lines gs"
  by (auto simp: covered_lines_def group_lines_def)

lemma count_groups_counted:
  "counted (concat (map instances gs)) (count_groups gs) \<and>
     acc_tokens (count_groups gs) = redundant_tokens gs"
proof -
  have "counted [] \<lparr>acc_files = {}, acc_lines = [], acc_tokens = 0, acc_instances = 0\<rparr>"
    by (simp add: counted_def line_map_ok_def lines_of_def covered_lines_def)
  from counted_groups [OF this, of gs] show ?thesis by (simp add: count_groups_def)
qed

lemma duplicated_lines_eq: "duplicated_lines (compute_stats gs f l t) = card (group_lines gs)"
  using count_groups_counted [of gs]
  by (simp add: compute_stats_def Let_def counted_def card_lines_of covered_lines_concat)

text \<open>
  The statistics are what their names say: the duplicated lines are the number of distinct
  lines (of distinct files) that lie in some instance, however much instances overlap, and the
  duplicated tokens are those of the repeated instances, at most all tokens.
\<close>

theorem compute_stats_counts:
  "compute_stats gs n_files n_lines n_tokens =
     \<lparr>total_files = n_files,
      files_with_clones = card (set (map clone_file (concat (map instances gs)))),
      total_lines = n_lines, duplicated_lines = card (group_lines gs),
      total_tokens = n_tokens, duplicated_tokens = min (redundant_tokens gs) n_tokens,
      stat_clone_groups = length gs,
      clone_instances = (\<Sum>g\<leftarrow>gs. length (instances g)),
      duplication_percentage =
        (if n_lines > 0 then of_nat (card (group_lines gs)) / of_nat n_lines * 100 else 0),
      clone_groups_below_min_occurrences = 0\<rparr>"
  using count_groups_counted [of gs] card_lines_of [of "acc_lines (count_groups gs)"]
  by (simp add: compute_stats_def Let_def counted_def covered_lines_concat length_concat comp_def)

text \<open>
  C40. The duplication percentage lies between 0 and 100 when the reported instances lie within
  the lines of the analysed files.
\<close>

theorem duplication_percentage_bounds:
  assumes "finite corpus" "group_lines gs \<subseteq> (SIGMA f:corpus. {1..lines_in f})"
    "n_lines = (\<Sum>f\<in>corpus. lines_in f)"
  shows "0 \<le> duplication_percentage (compute_stats gs n_files n_lines n_tokens) \<and>
    duplication_percentage (compute_stats gs n_files n_lines n_tokens) \<le> 100"
proof -
  have "card (group_lines gs) \<le> card (SIGMA f:corpus. {1..lines_in f})"
    using assms(1,2) by (intro card_mono) auto
  also have "\<dots> = n_lines" using assms(1,3) by simp
  finally have le: "card (group_lines gs) \<le> n_lines" .
  have "duplication_percentage (compute_stats gs n_files n_lines n_tokens) =
      (if n_lines > 0 then of_nat (duplicated_lines (compute_stats gs n_files n_lines n_tokens)) /
         of_nat n_lines * 100 else 0)"
    by (simp add: compute_stats_def Let_def)
  also have "\<dots> = (if n_lines > 0 then of_nat (card (group_lines gs)) / of_nat n_lines * 100 else 0)"
    by (simp only: duplicated_lines_eq)
  finally show ?thesis using le by (auto simp: divide_le_eq)
qed

theorem duplication_percentage_bounds_witness:
  "duplication_percentage (compute_stats
     [\<lparr>instances = [\<lparr>clone_file = [''a.ts''], start_line = 1, end_line = 3, start_col = 0, end_col = 1, fragment = []\<rparr>,
                     \<lparr>clone_file = [''b.ts''], start_line = 2, end_line = 4, start_col = 0, end_col = 1, fragment = []\<rparr>],
       token_count = 60, group_line_count = 3\<rparr>] 2 (4 + 4) 200) \<le> 100"
  by (rule duplication_percentage_bounds [THEN conjunct2, of "{[''a.ts''], [''b.ts'']}" _ "\<lambda>_. 4"])
    (auto simp: group_lines_def covered_lines_def)

section \<open>Families partition the groups\<close>

text \<open>The family map: distinct file sets, each with the groups that have it.\<close>

definition family_map_ok :: "(path list \<times> CloneGroup list) list \<Rightarrow> bool" where
  "family_map_ok m \<longleftrightarrow> distinct (map fst m) \<and>
     list_all (\<lambda>(fs, gs). gs \<noteq> [] \<and> list_all (\<lambda>g. group_file_set g = fs) gs) m"

lemma add_to_family_keys:
  "set (map fst (add_to_family g m)) = insert (group_file_set g) (set (map fst m))"
  by (induction g m rule: add_to_family.induct) auto

lemma add_to_family_ok: "family_map_ok m \<Longrightarrow> family_map_ok (add_to_family g m)"
proof (induction g m rule: add_to_family.induct)
  case (2 g fs gs rest)
  show ?case
  proof (cases "fs = group_file_set g")
    case True
    with 2 show ?thesis by (auto simp: family_map_ok_def list_all_iff)
  next
    case False
    with 2 have "family_map_ok (add_to_family g rest)" by (auto simp: family_map_ok_def)
    with False 2 add_to_family_keys [of g rest] show ?thesis
      by (auto simp: family_map_ok_def)
  qed
qed (simp add: family_map_ok_def)

lemma add_to_family_mset:
  "mset (concat (map snd (add_to_family g m))) = add_mset g (mset (concat (map snd m)))"
  by (induction g m rule: add_to_family.induct) auto

lemma fold_add_to_family:
  "family_map_ok m \<Longrightarrow> family_map_ok (fold add_to_family gs m) \<and>
     mset (concat (map snd (fold add_to_family gs m))) = mset (concat (map snd m)) + mset gs"
proof (induction gs arbitrary: m)
  case (Cons g gs)
  show ?case
    using Cons.IH [OF add_to_family_ok [OF Cons.prems, of g]] by (simp add: add_to_family_mset)
qed simp

definition family_order :: "CloneFamily \<Rightarrow> int \<times> int" where
  "family_order f = (- int (total_duplicated_lines f), - int (length (family_groups f)))"

definition family_ok :: "CloneFamily \<Rightarrow> bool" where
  "family_ok f \<longleftrightarrow> family_groups f \<noteq> [] \<and>
     list_all (\<lambda>g. group_file_set g = family_files f) (family_groups f) \<and>
     total_duplicated_lines f = sum_list (map group_line_count (family_groups f)) \<and>
     total_duplicated_tokens f = sum_list (map token_count (family_groups f))"

lemma make_family_simps [simp]:
  "family_files (make_family root_dir (fs, gs)) = fs"
  "family_groups (make_family root_dir (fs, gs)) = gs"
  by (simp_all add: make_family_def Let_def)

lemma concat_mset: "mset xs = mset ys \<Longrightarrow> mset (concat (map f xs)) = mset (concat (map f ys))"
  by (metis mset_concat mset_map sum_mset_sum_list)

text \<open>
  The families partition the clone groups: every group is in exactly one family, with its
  multiplicity; the groups of a family are those with the family's set of files, families have
  different sets of files, their totals are the sums over their groups, and they come in order
  of decreasing duplicated lines, then of decreasing number of groups.
\<close>

theorem families_partition:
  "mset (concat (map family_groups (group_into_families gs root_dir))) = mset gs \<and>
   distinct (map family_files (group_into_families gs root_dir)) \<and>
   list_all family_ok (group_into_families gs root_dir) \<and>
   sorted (map family_order (group_into_families gs root_dir))"
proof (cases "gs = []")
  case True
  then show ?thesis by (simp add: group_into_families_def)
next
  case False
  let ?m = "fold add_to_family gs []"
  let ?fs = "group_into_families gs root_dir"
  have m: "family_map_ok ?m" "mset (concat (map snd ?m)) = mset gs"
    using fold_add_to_family [of "[]" gs] by (auto simp: family_map_ok_def)
  have fs: "?fs = sort_key family_order (map (make_family root_dir) ?m)"
    using False by (simp add: group_into_families_def family_order_def [abs_def])
  have "mset (concat (map family_groups ?fs)) =
      mset (concat (map family_groups (map (make_family root_dir) ?m)))"
    unfolding fs by (rule concat_mset) simp
  also have "map family_groups (map (make_family root_dir) ?m) = map snd ?m" by auto
  finally have 1: "mset (concat (map family_groups ?fs)) = mset gs" using m(2) by simp
  have "map family_files (map (make_family root_dir) ?m) = map fst ?m" by auto
  then have "mset (map family_files ?fs) = mset (map fst ?m)"
    unfolding fs by (metis mset_map mset_sort)
  moreover have "distinct (map fst ?m)" using m(1) by (simp add: family_map_ok_def)
  ultimately have "distinct (map family_files ?fs)" by (metis mset_eq_imp_distinct_iff)
  moreover have "family_ok f" if "f \<in> set ?fs" for f
  proof -
    from that fs obtain k groups where "(k, groups) \<in> set ?m" "f = make_family root_dir (k, groups)"
      by auto
    with m(1) show ?thesis
      by (auto simp: family_ok_def family_map_ok_def list_all_iff make_family_def Let_def)
  qed
  ultimately show ?thesis using 1 by (simp add: fs list_all_iff)
qed

section \<open>Filters of the report\<close>

text \<open>
  Line suppressions remove exactly the instances that contain a line on which code
  duplication is suppressed, keep the others in their order, and then exactly the groups left
  with at least two instances; nothing else of the report changes.
\<close>

theorem line_suppressions_remove_the_suppressed:
  "g \<in> set (clone_groups (apply_line_suppressions supps report)) \<longleftrightarrow>
     (\<exists>h \<in> set (clone_groups report). g = h\<lparr>instances := filter (instance_kept supps) (instances h)\<rparr>) \<and>
     2 \<le> length (instances g)"
  by (auto simp: apply_line_suppressions_def)

definition counts_agree :: "DuplicationReport \<Rightarrow> bool" where
  "counts_agree r \<longleftrightarrow> stat_clone_groups (stats r) = length (clone_groups r) \<and>
     clone_instances (stats r) = (\<Sum>g\<leftarrow>clone_groups r. length (instances g))"

text \<open>
  The minimum-occurrence filter keeps the counts of the report true: the numbers of groups
  and instances match the groups left, those hidden are disclosed, and the line and token
  figures stay those of the full corpus.
\<close>

theorem min_occurrences_keeps_counts:
  assumes "counts_agree report" "clone_groups_below_min_occurrences (stats report) = 0"
  shows "counts_agree (apply_min_occurrences_filter n report) \<and>
    length (clone_groups (apply_min_occurrences_filter n report)) +
      clone_groups_below_min_occurrences (stats (apply_min_occurrences_filter n report)) =
      length (clone_groups report) \<and>
    (n \<le> 2 \<or> list_all (\<lambda>g. n \<le> length (instances g)) (clone_groups (apply_min_occurrences_filter n report))) \<and>
    duplicated_lines (stats (apply_min_occurrences_filter n report)) = duplicated_lines (stats report) \<and>
    duplication_percentage (stats (apply_min_occurrences_filter n report)) =
      duplication_percentage (stats report)"
proof (cases "n \<le> 2")
  case True
  with assms show ?thesis by (simp add: apply_min_occurrences_filter_def)
next
  case n: False
  define kept where "kept = filter (\<lambda>g. length (instances g) \<ge> n) (clone_groups report)"
  have kept: "list_all (\<lambda>g. n \<le> length (instances g)) kept" "length kept \<le> length (clone_groups report)"
    by (simp_all add: kept_def list_all_iff)
  have r: "apply_min_occurrences_filter n report =
      (if length kept = length (clone_groups report) then report\<lparr>clone_groups := kept\<rparr>
       else report\<lparr>clone_groups := kept, stats := (stats report)\<lparr>
         clone_groups_below_min_occurrences := length (clone_groups report) - length kept,
         stat_clone_groups := length kept,
         clone_instances := (\<Sum>g\<leftarrow>kept. length (instances g))\<rparr>\<rparr>)"
    using n kept(2) unfolding apply_min_occurrences_filter_def kept_def [symmetric] by (auto simp: Let_def)
  show ?thesis
  proof (cases "length kept = length (clone_groups report)")
    case True
    then have "kept = clone_groups report"
      unfolding kept_def by (metis (no_types, lifting) filter_True length_filter_less less_irrefl)
    with assms kept(1) show ?thesis
      unfolding r by (simp only: counts_agree_def if_True refl) simp
  next
    case False
    with kept show ?thesis unfolding r by (simp add: counts_agree_def)
  qed
qed

theorem min_occurrences_keeps_counts_witness:
  "counts_agree (apply_min_occurrences_filter 3 ((empty_report 2 10 50)\<lparr>clone_groups :=
     [\<lparr>instances = [], token_count = 9, group_line_count = 4\<rparr>],
     stats := (stats (empty_report 2 10 50))\<lparr>stat_clone_groups := 1\<rparr>\<rparr>))"
  by (rule min_occurrences_keeps_counts [THEN conjunct1])
    (simp_all add: counts_agree_def empty_report_def)

end
