(* ===== verification/Clone_Detector.thy ===== *)
theory Clone_Detector
  imports Rolling_Clones Suffix_Array Clone_Report
begin

text \<open>
  The clone detector as a whole (\<^verbatim>\<open>crates/core/src/duplicates/detect/mod.rs\<close>) and the run of
  the analysis over tokenised files (\<^verbatim>\<open>detect_and_postprocess\<close> of
  \<^verbatim>\<open>crates/core/src/duplicates/mod.rs\<close>).  What is outside the sources is a record of
  parameters: whether \<^verbatim>\<open>FALLOW_DUPES_ROLLING\<close> is set, the orders in which hash maps are
  iterated, the hasher of shingles and the simplification of paths.  Ratios are rational: the
  quotient of two counts rounds to the literal \<^verbatim>\<open>0.20\<close> only when it is one fifth.
\<close>

section \<open>The detector\<close>

record Surroundings =
  rolling_env :: bool
  bucket_order :: "u64 list \<Rightarrow> u64 list"
  child_order :: "u32 list \<Rightarrow> u32 list"
  shingle_hasher :: "u64 list \<Rightarrow> u64"
  simplified :: "path \<Rightarrow> path"

record CorpusTotals =
  corpus_files :: nat
  corpus_lines :: nat
  corpus_tokens :: nat

record CloneDetector =
  det_min_tokens :: nat
  det_min_lines :: nat
  det_skip_local :: bool

type_synonym FileEntry = "path \<times> HashedToken list \<times> FileTokens"

definition file_of_entry :: "FileEntry \<Rightarrow> FileData" where
  "file_of_entry e = (case e of (p, hts, fts) \<Rightarrow>
     \<lparr>file_path = p, hashed_tokens = hts, file_tokens = fts, file_invocation_spans = atomic_invocation_spans fts\<rparr>)"

definition build_focus_file_ids :: "(path \<Rightarrow> path) \<Rightarrow> FileData list \<Rightarrow> path set \<Rightarrow> bool list" where
  "build_focus_file_ids simple fls focus_files =
     (let normalized = simple ` focus_files in map (\<lambda>file. simple (file_path file) \<in> normalized) fls)"

definition build_detection_inputs ::
  "(path \<Rightarrow> path) \<Rightarrow> FileEntry list \<Rightarrow> path set option \<Rightarrow> CorpusTotals option \<Rightarrow>
   FileData list \<times> CorpusTotals \<times> bool list option" where
  "build_detection_inputs simple file_data focus_files corpus_totals =
     (let fls = map file_of_entry file_data;
          totals = (case corpus_totals of Some t \<Rightarrow> t
            | None \<Rightarrow> \<lparr>corpus_files = length fls,
                corpus_lines = sum_list (map (\<lambda>f. line_count (file_tokens f)) fls),
                corpus_tokens = sum_list (map (\<lambda>f. length (hashed_tokens f)) fls)\<rparr>)
      in (fls, totals, map_option (build_focus_file_ids simple fls) focus_files))"

definition file_has_boundary :: "FileData \<Rightarrow> bool" where
  "file_has_boundary file \<longleftrightarrow>
     list_ex (\<lambda>token. hashed_token_is_boundary file (original_index token)) (hashed_tokens file)"

record BoundarySummary =
  is_component_heavy :: bool
  has_any_boundary :: bool

definition ROLLING_BOUNDARY_FALLBACK_FILE_RATIO :: rat where
  "ROLLING_BOUNDARY_FALLBACK_FILE_RATIO = 1 / 5"

definition summarize_boundaries :: "FileData list \<Rightarrow> BoundarySummary" where
  "summarize_boundaries fls =
     (let (files_with_tokens, files_with_boundaries) =
        fold (\<lambda>file (n_tokens, n_boundaries).
          if hashed_tokens file = [] then (n_tokens, n_boundaries)
          else (n_tokens + 1, if file_has_boundary file then n_boundaries + 1 else n_boundaries)) fls (0 :: nat, 0 :: nat)
      in \<lparr>is_component_heavy = (files_with_tokens > 0 \<and>
            of_nat files_with_boundaries / of_nat files_with_tokens \<ge> ROLLING_BOUNDARY_FALLBACK_FILE_RATIO),
          has_any_boundary = files_with_boundaries > 0\<rparr>)"

text \<open>\<^verbatim>\<open>Path::extension\<close>: what follows the last dot of the name, unless the name starts there.\<close>

definition path_extension :: "path \<Rightarrow> string option" where
  "path_extension p =
     (case file_name p of None \<Rightarrow> None
      | Some name \<Rightarrow>
          (case rfind (\<lambda>c. c = CHR ''.'') name of
             None \<Rightarrow> None
           | Some pos \<Rightarrow> if pos = 0 then None else Some (drop (pos + 1) name)))"

definition file_may_have_boundaries :: "FileData \<Rightarrow> bool" where
  "file_may_have_boundaries file \<longleftrightarrow>
     (case path_extension (file_path file) of None \<Rightarrow> False
      | Some e \<Rightarrow> e \<in> {''astro'', ''css'', ''less'', ''sass'', ''scss'', ''svelte'', ''vue''})"

definition files_may_have_boundaries :: "FileData list \<Rightarrow> bool" where
  "files_may_have_boundaries fls = list_ex file_may_have_boundaries fls"

definition rank_and_concatenate :: "FileData list \<Rightarrow> int list \<times> nat option list \<times> nat list" where
  "rank_and_concatenate fls = concatenate_with_sentinels (rank_reduce fls)"

definition extract_raw_groups ::
  "nat \<Rightarrow> int list \<Rightarrow> nat option list \<Rightarrow> nat list \<Rightarrow> FileData list \<Rightarrow> bool list option \<Rightarrow> RawGroup list" where
  "extract_raw_groups min_tokens txt file_of file_offsets fls focus_file_ids =
     (let sa = build_suffix_array txt; lcp_arr = build_lcp txt sa
      in extract_clone_groups
           \<lparr>ex_sa = sa, ex_lcp = lcp_arr, ex_file_of = file_of, ex_file_offsets = file_offsets,
            ex_min_tokens = min_tokens, ex_files = fls, ex_focus_file_ids = focus_file_ids,
            ex_may_have_boundaries = files_may_have_boundaries fls\<rparr>)"

text \<open>The report of a list of raw groups, shared by both detectors.\<close>

definition report_of_groups :: "CloneDetector \<Rightarrow> FileData list \<Rightarrow> CorpusTotals \<Rightarrow> RawGroup list \<Rightarrow> DuplicationReport" where
  "report_of_groups d fls totals raw_groups =
     (let groups = build_groups raw_groups fls (det_min_lines d) (det_skip_local d)
      in \<lparr>clone_groups = groups, clone_families = [], mirrored_directories = [],
          stats = compute_stats groups (corpus_files totals) (corpus_lines totals) (corpus_tokens totals)\<rparr>)"

definition rolling_detect :: "Surroundings \<Rightarrow> CloneDetector \<Rightarrow> FileData list \<Rightarrow> CorpusTotals \<Rightarrow> bool \<Rightarrow> DuplicationReport" where
  "rolling_detect env d fls totals may_have_boundaries =
     report_of_groups d fls totals
       (rolling_raw_groups (bucket_order env) (child_order env) fls (det_min_tokens d) may_have_boundaries)"

definition empty_totals_report :: "CorpusTotals \<Rightarrow> DuplicationReport" where
  "empty_totals_report totals = empty_report (corpus_files totals) (corpus_lines totals) (corpus_tokens totals)"

definition suffix_raw_groups :: "nat \<Rightarrow> FileData list \<Rightarrow> bool list option \<Rightarrow> RawGroup list" where
  "suffix_raw_groups min_tokens fls focus_file_ids =
     (case rank_and_concatenate fls of (txt, file_of, file_offsets) \<Rightarrow>
        extract_raw_groups min_tokens txt file_of file_offsets fls focus_file_ids)"

definition run_clone_pipeline ::
  "Surroundings \<Rightarrow> CloneDetector \<Rightarrow> FileData list \<Rightarrow> CorpusTotals \<Rightarrow> bool list option \<Rightarrow> DuplicationReport" where
  "run_clone_pipeline env d fls totals focus_file_ids =
     (if rolling_env env \<and> \<not> is_component_heavy (summarize_boundaries fls)
      then rolling_detect env d fls totals (has_any_boundary (summarize_boundaries fls))
      else if fst (rank_and_concatenate fls) = [] then empty_totals_report totals
      else report_of_groups d fls totals (suffix_raw_groups (det_min_tokens d) fls focus_file_ids))"

definition detect_inner ::
  "Surroundings \<Rightarrow> CloneDetector \<Rightarrow> FileEntry list \<Rightarrow> path set option \<Rightarrow> CorpusTotals option \<Rightarrow> DuplicationReport" where
  "detect_inner env d file_data focus_files corpus_totals =
     (if file_data = [] \<or> det_min_tokens d = 0 then
        empty_totals_report (case corpus_totals of Some t \<Rightarrow> t
          | None \<Rightarrow> \<lparr>corpus_files = 0, corpus_lines = 0, corpus_tokens = 0\<rparr>)
      else
        (let (fls, totals, focus_file_ids) = build_detection_inputs (simplified env) file_data focus_files corpus_totals
         in run_clone_pipeline env d fls totals focus_file_ids))"

definition detect :: "Surroundings \<Rightarrow> CloneDetector \<Rightarrow> FileEntry list \<Rightarrow> DuplicationReport" where
  "detect env d file_data = detect_inner env d file_data None None"

definition detect_with_totals ::
  "Surroundings \<Rightarrow> CloneDetector \<Rightarrow> FileEntry list \<Rightarrow> CorpusTotals \<Rightarrow> DuplicationReport" where
  "detect_with_totals env d file_data totals = detect_inner env d file_data None (Some totals)"

definition detect_touching_files ::
  "Surroundings \<Rightarrow> CloneDetector \<Rightarrow> FileEntry list \<Rightarrow> path set \<Rightarrow> DuplicationReport" where
  "detect_touching_files env d file_data focus_files = detect_inner env d file_data (Some focus_files) None"

section \<open>The run over tokenised fls\<close>

record DuplicatesConfig =
  dup_min_tokens :: nat
  dup_min_lines :: nat
  dup_min_occurrences :: nat
  dup_skip_local :: bool
  min_corpus_size_for_shingle_filter :: nat

definition shingle_filter ::
  "Surroundings \<Rightarrow> DuplicatesConfig \<Rightarrow> TokenizedFile list \<Rightarrow> path set option \<Rightarrow> TokenizedFile list" where
  "shingle_filter env cfg file_data focus_files =
     (if length file_data \<ge> min_corpus_size_for_shingle_filter cfg then
        (case focus_files of
           Some focus \<Rightarrow> filter_to_focus_candidates (shingle_hasher env) (simplified env) file_data focus (dup_min_tokens cfg)
         | None \<Rightarrow> filter_to_duplicate_candidates file_data (dup_min_tokens cfg))
      else file_data)"

definition entry_of_file :: "TokenizedFile \<Rightarrow> FileEntry" where
  "entry_of_file file = (tf_path file, tf_hashed_tokens file, tf_file_tokens file)"

definition detect_and_postprocess ::
  "Surroundings \<Rightarrow> path \<Rightarrow> DuplicatesConfig \<Rightarrow> TokenizedFile list \<Rightarrow> CorpusTotals \<Rightarrow> path set option \<Rightarrow> DuplicationReport" where
  "detect_and_postprocess env rt cfg file_data corpus_totals focus_files =
     (let file_data = shingle_filter env cfg file_data focus_files;
          suppressions_by_file = rev (map (\<lambda>file. (tf_path file, tf_suppressions file))
            (filter (\<lambda>file. tf_suppressions file \<noteq> []) file_data));
          detector = \<lparr>det_min_tokens = dup_min_tokens cfg, det_min_lines = dup_min_lines cfg,
            det_skip_local = dup_skip_local cfg\<rparr>;
          report = (case focus_files of
              Some focus \<Rightarrow> detect_touching_files env detector (map entry_of_file file_data) focus
            | None \<Rightarrow> detect_with_totals env detector (map entry_of_file file_data) corpus_totals);
          report = (if suppressions_by_file \<noteq> [] then apply_line_suppressions suppressions_by_file report else report);
          report = apply_min_occurrences_filter (dup_min_occurrences cfg) report;
          report = report\<lparr>clone_families := group_into_families (clone_groups report) rt\<rparr>;
          report = report\<lparr>mirrored_directories := detect_mirrored_directories (clone_families report) rt\<rparr>
      in report_sort report)"

section \<open>The arrays of the detector\<close>

definition suffix_input ::
  "nat \<Rightarrow> int list \<Rightarrow> nat option list \<Rightarrow> nat list \<Rightarrow> FileData list \<Rightarrow> bool list option \<Rightarrow> CloneGroupExtractionInput" where
  "suffix_input min_tokens txt file_of file_offsets fls focus_file_ids =
     \<lparr>ex_sa = build_suffix_array txt, ex_lcp = build_lcp txt (build_suffix_array txt), ex_file_of = file_of,
      ex_file_offsets = file_offsets, ex_min_tokens = min_tokens, ex_files = fls, ex_focus_file_ids = focus_file_ids,
      ex_may_have_boundaries = files_may_have_boundaries fls\<rparr>"

lemma suffix_raw_groups_prepared:
  assumes "card (corpus_hashes fls) < 2 ^ 32" "1 \<le> min_tokens"
  obtains inp s \<rho> where "suffix_raw_groups min_tokens fls focus = extract_clone_groups inp" "prepared inp s \<rho>"
    "ex_files inp = fls" "ex_min_tokens inp = min_tokens" "ex_focus_file_ids inp = focus"
proof -
  obtain \<rho> where r: "inj_on \<rho> (corpus_hashes fls)" "rank_reduce fls = rank_texts \<rho> fls"
    using rank_reduce_numbers [OF assms(1)] unfolding rank_texts_def by blast
  obtain s file_of offs where c: "rank_and_concatenate fls = (s, file_of, offs)" by (metis prod_cases3)
  have "corpus_ok (rank_texts \<rho> fls) s file_of offs"
    using concatenation_ok c unfolding rank_and_concatenate_def r(2) by blast
  then have "prepared (suffix_input min_tokens s file_of offs fls focus) s \<rho>"
    using r(1) assms(2) build_suffix_array_is by (simp add: prepared_def suffix_input_def)
  then show thesis
    by (rule that [rotated]) (simp_all add: suffix_raw_groups_def c extract_raw_groups_def suffix_input_def Let_def)
qed

text \<open>
  C27. The array of common prefixes that the detector computes holds, for every rank, the length
  of the longest common prefix of the suffix of that rank and the one before it, for every text.
\<close>

theorem lcp_of_suffix_array:
  "build_lcp txt (build_suffix_array txt) =
    map (\<lambda>r. if r = 0 then 0 else common_prefix (drop (build_suffix_array txt ! (r - 1)) txt)
      (drop (build_suffix_array txt ! r) txt)) [0..<length txt]"
  unfolding build_lcp_entries [OF build_suffix_array_is] by (simp add: before_rank_def)

section \<open>The groups of both detectors\<close>

text \<open>
  C12. Every raw group of either detector is a set of clones: at least two instances inside their
  files, pairwise disjoint within a file, of at least the minimal length, whose windows of token
  hashes are equal.  Neither the numbering of hashes in 32 bits nor a collision of rolling
  hashes produces a false clone while there are fewer than \<open>2 ^ 32\<close> different hashes.
\<close>

theorem raw_groups_of_detectors_are_clones:
  assumes "card (corpus_hashes fls) < 2 ^ 32" "1 \<le> min_tokens"
    and "g \<in> set (suffix_raw_groups min_tokens fls focus) \<union>
      set (rolling_raw_groups order_of_buckets order_of_children fls min_tokens may_have_boundaries)"
  shows "clone_group fls min_tokens g"
  using assms(3)
proof
  assume g: "g \<in> set (suffix_raw_groups min_tokens fls focus)"
  obtain inp s \<rho> where "suffix_raw_groups min_tokens fls focus = extract_clone_groups inp" "prepared inp s \<rho>"
    "ex_files inp = fls" "ex_min_tokens inp = min_tokens"
    by (rule suffix_raw_groups_prepared [OF assms(1,2)])
  then show ?thesis using raw_groups_are_clones g by metis
qed (rule rolling_groups_are_clones [OF assms(1,2)])

lemma raw_groups_cover:
  assumes "card (corpus_hashes fls) < 2 ^ 32" "1 \<le> min_tokens" "min_tokens \<le> len"
    and "in_corpus fls i len" "in_corpus fls j len" "fst i \<noteq> fst j" "window fls i len = window fls j len"
    and "\<forall>f \<in> set fls. \<not> file_has_boundary f"
    and "case focus of None \<Rightarrow> True | Some ids \<Rightarrow> fst i < length ids \<and> ids ! fst i"
  shows "\<exists>g \<in> set (suffix_raw_groups min_tokens fls focus). len \<le> raw_length g \<and> lies_in i g \<and> lies_in j g"
proof -
  obtain inp s \<rho> where inp: "suffix_raw_groups min_tokens fls focus = extract_clone_groups inp" "prepared inp s \<rho>"
    "ex_files inp = fls" "ex_min_tokens inp = min_tokens" "ex_focus_file_ids inp = focus"
    by (rule suffix_raw_groups_prepared [OF assms(1,2)])
  have "\<forall>f \<in> set fls. \<not> has_boundary f" using assms(8) by (simp add: has_boundary_def file_has_boundary_def)
  then show ?thesis
    using clones_are_in_raw_groups [OF inp(2), of i len j] assms(3-7,9) unfolding inp(1,3-5) by blast
qed

section \<open>A sample corpus\<close>

definition sample_file :: "string \<Rightarrow> u64 list \<Rightarrow> TokenKind list \<Rightarrow> FileData" where
  "sample_file name hashes kinds =
     file_of_entry ([name], map (\<lambda>(i, h). \<lparr>token_hash = h, original_index = i\<rparr>) (enumerate 0 hashes),
       \<lparr>tokens = map (\<lambda>(i, k). \<lparr>token_kind = k, token_span = \<lparr>span_begin = 2 * i, span_end = 2 * i + 1\<rparr>\<rparr>) (enumerate 0 kinds),
        atomic_invocation_spans = [], source = replicate (2 * length kinds) CHR ''x'', line_count = 1\<rparr>)"

definition plain_files :: "FileData list" where
  "plain_files = [sample_file ''a.ts'' [1, 2, 3, 4] (replicate 4 NullLiteral),
     sample_file ''b.ts'' [5, 1, 2, 3] (replicate 4 NullLiteral)]"

definition section_files :: "FileData list" where
  "section_files = map (\<lambda>name. sample_file name [8, 1, 2, 3, 9, 4]
     [Boundary ''script'', NullLiteral, NullLiteral, NullLiteral, Boundary ''style'', NullLiteral]) [''a.vue'', ''b.vue'']"

lemma plain_files_hashes: "corpus_hashes plain_files = {1, 2, 3, 4, 5}"
  by (auto simp: corpus_hashes_def file_hashes_def plain_files_def sample_file_def file_of_entry_def)

lemma plain_files_small: "card (corpus_hashes plain_files) < 2 ^ 32"
  by (simp add: plain_files_hashes)

lemma plain_files_groups: "suffix_raw_groups 3 plain_files None = [\<lparr>raw_instances = [(0, 0), (1, 1)], raw_length = 3\<rparr>]"
  by code_simp

theorem raw_groups_of_detectors_are_clones_witness:
  "clone_group plain_files 3 \<lparr>raw_instances = [(0, 0), (1, 1)], raw_length = 3\<rparr>"
  by (rule raw_groups_of_detectors_are_clones [OF plain_files_small, where focus = None])
    (simp_all add: plain_files_groups)

text \<open>
  An example of the limit of the suffix array detector in files with section boundaries: two
  component files with the same script of three tokens, each followed by a section with the same
  name, give no raw group, although the scripts are equal windows without a boundary and the
  rolling detector reports them.  The interval of the longest common prefix crosses the
  boundary, so every instance of it is dropped, and no shorter interval exists.
\<close>

lemma section_example:
  "window section_files (0, 1) 3 = window section_files (1, 1) 3 \<and>
   \<not> boundary_within (section_files ! 0) 1 3 \<and> \<not> boundary_within (section_files ! 1) 1 3 \<and>
   suffix_raw_groups 3 section_files None = [] \<and>
   rolling_raw_groups id id section_files 3 True = [\<lparr>raw_instances = [(0, 1), (1, 1)], raw_length = 3\<rparr>]"
proof -
  have "window section_files (0, 1) 3 = window section_files (1, 1) 3" by code_simp
  moreover have "boundary_within f 1 3 \<longleftrightarrow> list_ex (\<lambda>k. hashed_token_is_boundary f (original_index (hashed_tokens f ! (1 + k)))) [0..<3]" for f
    by (auto simp: boundary_within_def list_ex_iff)
  moreover have "\<not> list_ex (\<lambda>k. hashed_token_is_boundary f (original_index (hashed_tokens f ! (1 + k)))) [0..<3]"
    if "f = section_files ! 0 \<or> f = section_files ! 1" for f
    using that by (elim disjE) (simp only:, code_simp)+
  moreover have "suffix_raw_groups 3 section_files None = []" by code_simp
  moreover have "rolling_raw_groups id id section_files 3 True = [\<lparr>raw_instances = [(0, 1), (1, 1)], raw_length = 3\<rparr>]"
    by code_simp
  ultimately show ?thesis by blast
qed

section \<open>The prefilter and the detector\<close>

definition file_of_tokenized :: "TokenizedFile \<Rightarrow> FileData" where
  "file_of_tokenized file = file_of_entry (entry_of_file file)"

lemma filter_position:
  assumes "i < length xs" "P (xs ! i)"
  shows "length (filter P (take i xs)) < length (filter P xs)" "filter P xs ! length (filter P (take i xs)) = xs ! i"
proof -
  have "xs = take i xs @ xs ! i # drop (Suc i) xs" using assms(1) by (rule id_take_nth_drop)
  then have "filter P xs = filter P (take i xs) @ xs ! i # filter P (drop (Suc i) xs)"
    using assms(2) by (metis filter.simps(2) filter_append)
  then show "length (filter P (take i xs)) < length (filter P xs)" "filter P xs ! length (filter P (take i xs)) = xs ! i"
    by (simp_all add: nth_append)
qed

lemma filter_position_mono:
  assumes "i < j" "i < length xs" "P (xs ! i)"
  shows "length (filter P (take i xs)) < length (filter P (take j xs))"
proof -
  have "take (Suc i) xs = take i xs @ [xs ! i]" using assms(2) by (rule take_Suc_conv_app_nth)
  then have "length (filter P (take (Suc i) xs)) = Suc (length (filter P (take i xs)))" using assms(3) by simp
  moreover have "take j xs = take (Suc i) xs @ drop (Suc i) (take j xs)"
    using assms(1) by (metis Suc_leI append_take_drop_id min.absorb1 take_take)
  then have "length (filter P (take (Suc i) xs)) \<le> length (filter P (take j xs))" by (metis filter_append le_add1 length_append)
  ultimately show ?thesis by simp
qed

lemma shingle_filter_keeps:
  assumes "occurs_in ws i fd" "occurs_in ws j fd" "fst i \<noteq> fst j" "1 \<le> dup_min_tokens cfg" "dup_min_tokens cfg \<le> length ws"
    and "case focus of None \<Rightarrow> True | Some fs \<Rightarrow> path_is_focus (simplified env) fs (tf_path (fd ! fst i))"
  obtains p where "shingle_filter env cfg fd focus = filter p fd" "p (fd ! fst i)" "p (fd ! fst j)"
proof (cases "length fd \<ge> min_corpus_size_for_shingle_filter cfg")
  case True
  show thesis
  proof (cases focus)
    case None
    obtain p where "filter_to_duplicate_candidates fd (dup_min_tokens cfg) = filter p fd" "p (fd ! fst i)" "p (fd ! fst j)"
      by (rule duplicate_candidates_kept [OF assms(1,2), of "dup_min_tokens cfg"]) (use assms(3-5) in auto)
    then show thesis using that True None by (simp add: shingle_filter_def)
  next
    case (Some fs)
    obtain p where "filter_to_focus_candidates (shingle_hasher env) (simplified env) fd fs (dup_min_tokens cfg) = filter p fd"
      "p (fd ! fst i)" "p (fd ! fst j)"
      by (rule focus_candidates_kept [OF assms(1,2,5), of "simplified env" fs "shingle_hasher env"]) (use assms(4-6) Some in auto)
    then show thesis using that True Some by (simp add: shingle_filter_def)
  qed
next
  case False
  then show thesis using that [of "\<lambda>_. True"] by (simp add: shingle_filter_def)
qed

lemma file_of_tokenized_simps [simp]:
  "hashed_tokens (file_of_tokenized f) = tf_hashed_tokens f" "file_path (file_of_tokenized f) = tf_path f"
  by (simp_all add: file_of_tokenized_def file_of_entry_def entry_of_file_def)

lemma corpus_hashes_mono: "set fs \<subseteq> set gs \<Longrightarrow> corpus_hashes fs \<subseteq> corpus_hashes gs"
  by (auto simp: corpus_hashes_def)

lemma finite_corpus_hashes [simp]: "finite (corpus_hashes fs)"
  by (simp add: corpus_hashes_def)

text \<open>
  C5. In a corpus without section boundaries no duplicate across files is lost between the
  tokenised files and the raw groups.  Let no file of the corpus have a boundary token, and let
  the corpus have fewer than \<^verbatim>\<open>2^32\<close> distinct token hashes.  When two files share a window of at
  least the minimal length, the prefilter keeps both, whatever its hasher, and a raw group of
  the suffix array detector on the kept files covers both places; with a set of focused files,
  when one of the two is in it.  In a corpus with boundary tokens (component and style files)
  the statement is false: \<^verbatim>\<open>section_example\<close> above is an example.
\<close>

theorem duplicates_survive_prefilter_and_detector:
  assumes "occurs_in ws i fd" "occurs_in ws j fd" "fst i \<noteq> fst j" "1 \<le> dup_min_tokens cfg" "dup_min_tokens cfg \<le> length ws"
    and "card (corpus_hashes (map file_of_tokenized fd)) < 2 ^ 32" "\<forall>f \<in> set fd. \<not> file_has_boundary (file_of_tokenized f)"
    and "case focus of None \<Rightarrow> True | Some fs \<Rightarrow> path_is_focus (simplified env) fs (tf_path (fd ! fst i))"
  defines "kept \<equiv> shingle_filter env cfg fd focus"
  defines "ids \<equiv> map_option (build_focus_file_ids (simplified env) (map file_of_tokenized kept)) focus"
  shows "\<exists>g \<in> set (suffix_raw_groups (dup_min_tokens cfg) (map file_of_tokenized kept) ids). \<exists>x y.
    x < length kept \<and> y < length kept \<and> x \<noteq> y \<and> kept ! x = fd ! fst i \<and> kept ! y = fd ! fst j \<and>
    length ws \<le> raw_length g \<and> lies_in (x, snd i) g \<and> lies_in (y, snd j) g"
proof -
  obtain p where p: "kept = filter p fd" "p (fd ! fst i)" "p (fd ! fst j)"
    unfolding kept_def by (rule shingle_filter_keeps [OF assms(1-5,8)])
  let ?fls = "map file_of_tokenized kept"
  let ?x = "length (filter p (take (fst i) fd))" and ?y = "length (filter p (take (fst j) fd))"
  have len: "fst i < length fd" "fst j < length fd" using assms(1,2) by (simp_all add: occurs_in_def)
  have x: "?x < length kept" "kept ! ?x = fd ! fst i" and y: "?y < length kept" "kept ! ?y = fd ! fst j"
    using filter_position [of "fst i" fd p] filter_position [of "fst j" fd p] len p by simp_all
  have ne: "?x \<noteq> ?y" using assms(3)
  proof (cases "fst i" "fst j" rule: linorder_cases)
    case less
    then show ?thesis using filter_position_mono [OF less len(1), of p] p(2) by simp
  next
    case greater
    then show ?thesis using filter_position_mono [OF greater len(2), of p] p(3) by simp
  qed simp
  have sub: "set ?fls \<subseteq> set (map file_of_tokenized fd)" by (auto simp: p(1))
  have "card (corpus_hashes ?fls) \<le> card (corpus_hashes (map file_of_tokenized fd))"
    by (rule card_mono [OF finite_corpus_hashes corpus_hashes_mono [OF sub]])
  then have small: "card (corpus_hashes ?fls) < 2 ^ 32" using assms(6) by (rule le_less_trans)
  have win: "in_corpus ?fls (z, snd k) (length ws)" "window ?fls (z, snd k) (length ws) = ws"
    if "occurs_in ws k fd" "z < length kept" "kept ! z = fd ! fst k" for z k
    using that by (simp_all add: in_corpus_def window_def occurs_in_def shingle_at_def)
  have plain: "\<forall>f \<in> set ?fls. \<not> file_has_boundary f" using assms(7) by (auto simp: p(1))
  have foc: "case ids of None \<Rightarrow> True | Some ids \<Rightarrow> ?x < length ids \<and> ids ! ?x"
    using assms(8) x by (cases focus) (simp_all add: ids_def build_focus_file_ids_def Let_def path_is_focus_def)
  have "\<exists>g \<in> set (suffix_raw_groups (dup_min_tokens cfg) ?fls ids). length ws \<le> raw_length g \<and>
      lies_in (?x, snd i) g \<and> lies_in (?y, snd j) g"
    by (rule raw_groups_cover [OF small assms(4,5) win(1) [OF assms(1) x] win(1) [OF assms(2) y] _ _ plain])
      (use ne foc win(2) [OF assms(1) x] win(2) [OF assms(2) y] in \<open>simp_all split: option.splits\<close>)
  then show ?thesis using x y ne by blast
qed

definition plain_tokenized :: "TokenizedFile list" where
  "plain_tokenized = map (\<lambda>file. \<lparr>tf_path = file_path file, tf_hashed_tokens = hashed_tokens file,
     tf_file_tokens = file_tokens file, tf_cache_hit = False, tf_suppressions = []\<rparr>)
     (plain_files @ [sample_file ''c.ts'' [7, 7] (replicate 2 NullLiteral)])"

definition plain_config :: DuplicatesConfig where
  "plain_config = \<lparr>dup_min_tokens = 3, dup_min_lines = 1, dup_min_occurrences = 2, dup_skip_local = False,
     min_corpus_size_for_shingle_filter = 0\<rparr>"

definition plain_surroundings :: "bool \<Rightarrow> Surroundings" where
  "plain_surroundings rolling = \<lparr>rolling_env = rolling, bucket_order = id, child_order = id, shingle_hasher = hd, simplified = id\<rparr>"

lemma plain_tokenized_small: "card (corpus_hashes (map file_of_tokenized plain_tokenized)) < 2 ^ 32"
proof -
  have "corpus_hashes (map file_of_tokenized plain_tokenized) = {1, 2, 3, 4, 5, 7}"
    by (auto simp: corpus_hashes_def file_hashes_def plain_tokenized_def plain_files_def sample_file_def file_of_entry_def)
  then show ?thesis by simp
qed

theorem duplicates_survive_prefilter_and_detector_witness:
  "\<exists>g \<in> set (suffix_raw_groups 3 (map file_of_tokenized (shingle_filter (plain_surroundings False) plain_config plain_tokenized None)) None).
    3 \<le> raw_length g"
proof -
  have "occurs_in [1, 2, 3] (0, 0) plain_tokenized" "occurs_in [1, 2, 3] (1, 1) plain_tokenized"
    "\<forall>f \<in> set plain_tokenized. \<not> file_has_boundary (file_of_tokenized f)"
    by code_simp+
  from duplicates_survive_prefilter_and_detector [OF this(1,2), where cfg = plain_config and focus = None and env = "plain_surroundings False"]
    this(3) plain_tokenized_small
  show ?thesis by (force simp: plain_config_def)
qed

text \<open>
  C28. With the rolling detector chosen by the environment, a run restricted to changed files is
  not restricted: unless one file in five has section boundaries, the report of
  \<^verbatim>\<open>detect_touching_files\<close> is that of an unrestricted run, for every set of focused files.
\<close>

theorem rolling_detector_ignores_focus:
  assumes "rolling_env env" "\<not> is_component_heavy (summarize_boundaries (map file_of_entry file_data))"
  shows "detect_touching_files env d file_data focus_files = detect env d file_data"
  using assms by (simp add: detect_touching_files_def detect_def detect_inner_def build_detection_inputs_def
    run_clone_pipeline_def Let_def)

theorem rolling_detector_ignores_focus_witness:
  "clone_groups (detect_touching_files (plain_surroundings True) \<lparr>det_min_tokens = 3, det_min_lines = 1, det_skip_local = False\<rparr>
     (map entry_of_file plain_tokenized) {}) \<noteq> [] \<and>
   clone_groups (detect_touching_files (plain_surroundings False) \<lparr>det_min_tokens = 3, det_min_lines = 1, det_skip_local = False\<rparr>
     (map entry_of_file plain_tokenized) {}) = []"
proof -
  let ?d = "\<lparr>det_min_tokens = 3, det_min_lines = 1, det_skip_local = False\<rparr>"
  have "rolling_env (plain_surroundings True)" "\<not> is_component_heavy (summarize_boundaries (map file_of_entry (map entry_of_file plain_tokenized)))"
    by code_simp+
  then have "detect_touching_files (plain_surroundings True) ?d (map entry_of_file plain_tokenized) {} =
      detect (plain_surroundings True) ?d (map entry_of_file plain_tokenized)"
    by (rule rolling_detector_ignores_focus)
  moreover have "clone_groups (detect (plain_surroundings True) ?d (map entry_of_file plain_tokenized)) \<noteq> []" by code_simp
  moreover have "clone_groups (detect_touching_files (plain_surroundings False) ?d (map entry_of_file plain_tokenized) {}) = []"
    by code_simp
  ultimately show ?thesis by simp
qed

end
