(* ===== verification/License.thy ===== *)
theory License
  imports Fallow_Prelude
begin

text \<open>
  The verification of licenses (\<^verbatim>\<open>crates/license/src/lib.rs\<close>).  Base64, JSON and Ed25519 come
  from other crates and are parameters, as are the environment and the file system.  An \<open>i64\<close>
  is an \<open>int\<close>: \<open>wrap_i64\<close> is the result of the release build's subtraction and
  \<open>saturating_add\<close> that of the method.  A path is the list of the parts it is joined from.
\<close>

section \<open>Claims and status\<close>

record LicenseClaims =
  iss :: string
  sub :: string
  tid :: string
  seats :: u32
  tier :: string
  claimed_features :: "string list"
  iat :: int
  exp_at :: int
  jti :: string
  refresh_after :: "int option"

datatype Feature = RuntimeCoverage | PortfolioDashboard | McpCloudTools | CrossRepoAggregation | OtherFeature string

definition parse_feature :: "string \<Rightarrow> Feature" where
  "parse_feature s =
     (if s = ''runtime_coverage'' then RuntimeCoverage
      else if s = ''portfolio_dashboard'' then PortfolioDashboard
      else if s = ''mcp_cloud_tools'' then McpCloudTools
      else if s = ''cross_repo_aggregation'' then CrossRepoAggregation
      else OtherFeature s)"

definition has_feature :: "LicenseClaims \<Rightarrow> Feature \<Rightarrow> bool" where
  "has_feature claims feature \<longleftrightarrow> list_ex (\<lambda>s. parse_feature s = feature) (claimed_features claims)"

datatype LicenseStatus =
    Valid LicenseClaims int
  | ExpiredWarning LicenseClaims nat
  | ExpiredWatermark LicenseClaims nat
  | HardFail LicenseClaims nat
  | Missing

fun permits :: "LicenseStatus \<Rightarrow> Feature \<Rightarrow> bool" where
  "permits (Valid claims _) feature = has_feature claims feature"
| "permits (ExpiredWarning claims _) feature = has_feature claims feature"
| "permits (ExpiredWatermark claims _) feature = has_feature claims feature"
| "permits (HardFail _ _) feature = False"
| "permits Missing feature = False"

fun show_watermark :: "LicenseStatus \<Rightarrow> bool" where
  "show_watermark (ExpiredWatermark _ _) = True"
| "show_watermark _ = False"

section \<open>Errors\<close>

datatype LicenseError =
    Io string
  | MalformedJwt string
  | BadHeader string
  | BadPayload string
  | BadSignature
  | Truncated nat
  | ClockSkew int int int

definition DEFAULT_HARD_FAIL_DAYS :: nat where "DEFAULT_HARD_FAIL_DAYS = 30"
definition WATERMARK_DAYS :: nat where "WATERMARK_DAYS = 7"
definition DEFAULT_SKEW_TOLERANCE_SECONDS :: int where "DEFAULT_SKEW_TOLERANCE_SECONDS = 86400"
definition SECONDS_PER_DAY :: int where "SECONDS_PER_DAY = 86400"
definition SKEW_TOLERANCE_ENV :: string where "SKEW_TOLERANCE_ENV = ''FALLOW_LICENSE_SKEW_TOLERANCE_SECONDS''"

definition duration_unit :: "nat \<Rightarrow> string \<Rightarrow> string" where
  "duration_unit v singular = (if v = 1 then ''1 '' @ singular else decimal v @ '' '' @ singular @ ''s'')"

definition format_duration_seconds :: "nat \<Rightarrow> string" where
  "format_duration_seconds seconds =
     (if seconds < 60 then duration_unit seconds ''second''
      else if seconds < 3600 then duration_unit (seconds div 60) ''minute''
      else if seconds < 86400 then
        (let hours = seconds div 3600; minutes = seconds mod 3600 div 60
         in if minutes = 0 then duration_unit hours ''hour''
            else duration_unit hours ''hour'' @ '' '' @ duration_unit minutes ''minute'')
      else
        (let days = seconds div 86400; hours = seconds mod 86400 div 3600
         in if hours = 0 then duration_unit days ''day''
            else duration_unit days ''day'' @ '' '' @ duration_unit hours ''hour''))"

section \<open>Machine integers\<close>

definition I64_MAX :: int where "I64_MAX = 2 ^ 63 - 1"
definition I64_MIN :: int where "I64_MIN = - (2 ^ 63)"

definition is_i64 :: "int \<Rightarrow> bool" where
  "is_i64 x \<longleftrightarrow> I64_MIN \<le> x \<and> x \<le> I64_MAX"

definition wrap_i64 :: "int \<Rightarrow> int" where
  "wrap_i64 x = (x + 2 ^ 63) mod 2 ^ 64 - 2 ^ 63"

definition saturating_add :: "int \<Rightarrow> int \<Rightarrow> int" where
  "saturating_add a b = max I64_MIN (min I64_MAX (a + b))"

definition saturating_sub :: "int \<Rightarrow> int \<Rightarrow> int" where
  "saturating_sub a b = max I64_MIN (min I64_MAX (a - b))"

lemma wrap_i64_id [simp]: "is_i64 x \<Longrightarrow> wrap_i64 x = x"
  by (simp add: is_i64_def wrap_i64_def I64_MAX_def I64_MIN_def)

definition display_error :: "LicenseError \<Rightarrow> string" where
  "display_error err = (case err of
     Io e \<Rightarrow> ''license I/O error: '' @ e
   | MalformedJwt msg \<Rightarrow> ''malformed JWT: '' @ msg
   | BadHeader msg \<Rightarrow> ''bad JWT header: '' @ msg
   | BadPayload msg \<Rightarrow> ''bad JWT payload: '' @ msg
   | BadSignature \<Rightarrow> ''JWT signature verification failed''
   | Truncated actual \<Rightarrow> ''the token looks truncated (got '' @ decimal actual @
       '' chars; expected 700+). Did you copy the whole thing? Try: fallow license activate --from-file license.jwt''
   | ClockSkew iat_seconds now_seconds tolerance_seconds \<Rightarrow>
       (let delta = nat \<bar>saturating_sub iat_seconds now_seconds\<bar>; tolerance = nat tolerance_seconds
        in ''license appears to be issued '' @ format_duration_seconds delta @ '' in the future (allowed skew '' @
           format_duration_seconds tolerance @
           ''). The system clock and the license issue time differ significantly; this commonly happens in CI containers without NTP, on machines with a dead BIOS battery, or when a clock has drifted. After confirming your clock is correct, set '' @
           SKEW_TOLERANCE_ENV @ ''=<seconds> to override the default 24h window.''))"

section \<open>Verification\<close>

text \<open>
  \<open>decode_base64\<close> is the decoder without padding, \<open>header_alg\<close> parses the header and gives its
  string claim \<^verbatim>\<open>alg\<close> if there is one, \<open>parse_claims\<close> parses the payload, and
  \<open>verify_strict\<close> checks a signature of the signing input against the public key.
\<close>

record Codecs =
  decode_base64 :: "string \<Rightarrow> string + u8 list"
  header_alg :: "u8 list \<Rightarrow> string + string option"
  parse_claims :: "u8 list \<Rightarrow> string + LicenseClaims"
  verify_strict :: "string \<Rightarrow> u8 list \<Rightarrow> bool"

definition normalize_jwt :: "string \<Rightarrow> string" where
  "normalize_jwt raw = filter (\<lambda>c. \<not> is_whitespace c) raw"

definition grace_state :: "LicenseClaims \<Rightarrow> int \<Rightarrow> nat \<Rightarrow> LicenseStatus" where
  "grace_state claims now hard_fail_days =
     (let delta_seconds = (if exp_at claims \<noteq> 0 then wrap_i64 (exp_at claims - now) else 0)
      in if delta_seconds \<ge> 0 then Valid claims (delta_seconds div SECONDS_PER_DAY)
         else
           (let days_since_expiry = (nat \<bar>delta_seconds\<bar> + nat SECONDS_PER_DAY - 1) div nat SECONDS_PER_DAY
            in if days_since_expiry > hard_fail_days then HardFail claims days_since_expiry
               else if days_since_expiry > WATERMARK_DAYS then ExpiredWatermark claims days_since_expiry
               else ExpiredWarning claims days_since_expiry))"

definition check_header :: "Codecs \<Rightarrow> string \<Rightarrow> LicenseError + unit" where
  "check_header cd header_b64 = (case decode_base64 cd header_b64 of
     Inl err \<Rightarrow> Inl (BadHeader (''base64 decode: '' @ err))
   | Inr header_bytes \<Rightarrow> (case header_alg cd header_bytes of
       Inl err \<Rightarrow> Inl (BadHeader (''json parse: '' @ err))
     | Inr None \<Rightarrow> Inl (BadHeader ''missing alg claim'')
     | Inr (Some alg) \<Rightarrow>
         if alg \<noteq> ''EdDSA'' then Inl (BadHeader (''expected alg=EdDSA, got alg='' @ alg)) else Inr ()))"

definition check_signature :: "Codecs \<Rightarrow> string \<Rightarrow> string \<Rightarrow> string \<Rightarrow> LicenseError + unit" where
  "check_signature cd header_b64 payload_b64 signature_b64 = (case decode_base64 cd signature_b64 of
     Inl _ \<Rightarrow> Inl BadSignature
   | Inr signature_bytes \<Rightarrow>
       if length signature_bytes \<noteq> 64 then Inl BadSignature
       else if \<not> verify_strict cd (header_b64 @ ''.'' @ payload_b64) signature_bytes then Inl BadSignature
       else Inr ())"

definition read_payload :: "Codecs \<Rightarrow> string \<Rightarrow> LicenseError + LicenseClaims" where
  "read_payload cd payload_b64 = (case decode_base64 cd payload_b64 of
     Inl err \<Rightarrow> Inl (BadPayload (''base64 decode: '' @ err))
   | Inr payload_bytes \<Rightarrow> (case parse_claims cd payload_bytes of
       Inl err \<Rightarrow> Inl (BadPayload (''json parse: '' @ err))
     | Inr claims \<Rightarrow> Inr claims))"

definition verify_jwt_with_skew :: "Codecs \<Rightarrow> string \<Rightarrow> int \<Rightarrow> nat \<Rightarrow> int \<Rightarrow> LicenseError + LicenseStatus" where
  "verify_jwt_with_skew cd raw_jwt now hard_fail_days skew_tolerance_seconds =
     (let trimmed = normalize_jwt raw_jwt
      in if str_len trimmed < 200 then Inl (Truncated (str_len trimmed))
         else (case split_on (\<lambda>c. c = CHR ''.'') trimmed of
             [header_b64, payload_b64, signature_b64] \<Rightarrow>
               (case check_header cd header_b64 of
                  Inl err \<Rightarrow> Inl err
                | Inr _ \<Rightarrow> (case check_signature cd header_b64 payload_b64 signature_b64 of
                    Inl err \<Rightarrow> Inl err
                  | Inr _ \<Rightarrow> (case read_payload cd payload_b64 of
                      Inl err \<Rightarrow> Inl err
                    | Inr claims \<Rightarrow>
                        (let earliest_iat = saturating_add now skew_tolerance_seconds
                         in if iat claims > earliest_iat then Inl (ClockSkew (iat claims) now skew_tolerance_seconds)
                            else Inr (grace_state claims now hard_fail_days)))))
           | parts \<Rightarrow> Inl (MalformedJwt (''expected 3 segments, got '' @ decimal (length parts)))))"

definition verify_jwt :: "Codecs \<Rightarrow> string \<Rightarrow> int \<Rightarrow> nat \<Rightarrow> LicenseError + LicenseStatus" where
  "verify_jwt cd raw_jwt now hard_fail_days = verify_jwt_with_skew cd raw_jwt now hard_fail_days DEFAULT_SKEW_TOLERANCE_SECONDS"

section \<open>Loading\<close>

text \<open>The surroundings: environment variables, files and the clock.\<close>

record Machine =
  getenv :: "string \<Rightarrow> string option"
  path_exists :: "string list \<Rightarrow> bool"
  read_to_string :: "string list \<Rightarrow> string + string"
  clock_seconds :: "nat option"

definition current_unix_seconds :: "Machine \<Rightarrow> int" where
  "current_unix_seconds m = (case clock_seconds m of None \<Rightarrow> 0
     | Some d \<Rightarrow> if int d \<le> I64_MAX then int d else I64_MAX)"

definition parse_u64 :: "string \<Rightarrow> nat option" where
  "parse_u64 s =
     (let digits = (case s of [] \<Rightarrow> [] | c # cs \<Rightarrow> if c = CHR ''+'' then cs else s);
          v = fold (\<lambda>c n. n * 10 + (of_char c - 48)) digits (0 :: nat)
      in if digits = [] \<or> \<not> list_all (\<lambda>c. 48 \<le> (of_char c :: nat) \<and> (of_char c :: nat) \<le> 57) digits \<or> v \<ge> 2 ^ 64
         then None else Some v)"

definition skew_tolerance_seconds_from :: "(string \<Rightarrow> string option) \<Rightarrow> int" where
  "skew_tolerance_seconds_from env = (case env SKEW_TOLERANCE_ENV of
     None \<Rightarrow> DEFAULT_SKEW_TOLERANCE_SECONDS
   | Some raw \<Rightarrow>
       (let trimmed = trim raw
        in if trimmed = [] then DEFAULT_SKEW_TOLERANCE_SECONDS
           else (case parse_u64 trimmed of
               Some v \<Rightarrow> if int v \<le> I64_MAX then int v else I64_MAX
             | None \<Rightarrow> DEFAULT_SKEW_TOLERANCE_SECONDS)))"

definition resolve_license_path_env :: "string option \<Rightarrow> string list option" where
  "resolve_license_path_env raw = (case raw of None \<Rightarrow> None
     | Some r \<Rightarrow> if trim r = [] then None else Some [trim r])"

definition read_jwt_file :: "Machine \<Rightarrow> string list \<Rightarrow> LicenseError + string" where
  "read_jwt_file m p = (case read_to_string m p of Inl e \<Rightarrow> Inl (Io e) | Inr raw \<Rightarrow> Inr (normalize_jwt raw))"

fun user_home_from_env :: "(string \<Rightarrow> string option) \<Rightarrow> string list \<Rightarrow> string list option" where
  "user_home_from_env env [] = None"
| "user_home_from_env env (key # keys) = (case env key of
     Some v \<Rightarrow> if v \<noteq> [] then Some [v] else user_home_from_env env keys
   | None \<Rightarrow> user_home_from_env env keys)"

definition user_home_dir :: "Machine \<Rightarrow> string list option" where
  "user_home_dir m = user_home_from_env (getenv m) [''HOME'', ''USERPROFILE'']"

definition default_license_path :: "Machine \<Rightarrow> string list" where
  "default_license_path m =
     (case user_home_dir m of Some h \<Rightarrow> h | None \<Rightarrow> [''.'']) @ [''.fallow'', ''license.jwt'']"

definition load_from_files :: "Machine \<Rightarrow> LicenseError + string option" where
  "load_from_files m = (case resolve_license_path_env (getenv m ''FALLOW_LICENSE_PATH'') of
     Some p \<Rightarrow> map_sum id Some (read_jwt_file m p)
   | None \<Rightarrow>
       if path_exists m (default_license_path m) then map_sum id Some (read_jwt_file m (default_license_path m))
       else Inr None)"

definition load_raw_jwt :: "Machine \<Rightarrow> LicenseError + string option" where
  "load_raw_jwt m = (case getenv m ''FALLOW_LICENSE'' of
     Some jwt \<Rightarrow> if normalize_jwt jwt \<noteq> [] then Inr (Some (normalize_jwt jwt)) else load_from_files m
   | None \<Rightarrow> load_from_files m)"

definition load_and_verify :: "Codecs \<Rightarrow> Machine \<Rightarrow> nat \<Rightarrow> LicenseError + LicenseStatus" where
  "load_and_verify cd m hard_fail_days =
     (let now = current_unix_seconds m; skew = skew_tolerance_seconds_from (getenv m)
      in case load_raw_jwt m of
           Inl err \<Rightarrow> Inl err
         | Inr (Some jwt) \<Rightarrow> verify_jwt_with_skew cd jwt now hard_fail_days skew
         | Inr None \<Rightarrow> Inr Missing)"

section \<open>The grace ladder\<close>

lemma grace_state_elapsed:
  assumes "exp_at claims \<noteq> 0" "is_i64 (exp_at claims - now)" "exp_at claims < now"
  obtains days where "nat (now - exp_at claims) \<le> days * 86400" "days * 86400 < nat (now - exp_at claims) + 86400"
    "grace_state claims now hard_fail_days =
       (if days > hard_fail_days then HardFail claims days
        else if days > WATERMARK_DAYS then ExpiredWatermark claims days else ExpiredWarning claims days)"
proof -
  define n where "n = nat (now - exp_at claims)"
  let ?days = "(n + 86400 - 1) div 86400"
  have "grace_state claims now hard_fail_days =
      (if ?days > hard_fail_days then HardFail claims ?days
       else if ?days > WATERMARK_DAYS then ExpiredWatermark claims ?days else ExpiredWarning claims ?days)"
    using assms by (simp add: grace_state_def Let_def SECONDS_PER_DAY_def n_def)
  moreover have "n \<le> ?days * 86400" "?days * 86400 < n + 86400"
    using div_mult_mod_eq [of "n + 86400 - 1" 86400] mod_less_divisor [of 86400 "n + 86400 - 1"] by linarith+
  ultimately show thesis using that by (simp add: n_def)
qed

lemma permitted_within_grace:
  assumes "permits (grace_state claims now hard_fail_days) feature"
  shows "has_feature claims feature" "exp_at claims = 0 \<or> now \<le> exp_at claims + int hard_fail_days * 86400 \<or> \<not> is_i64 (exp_at claims - now)"
proof -
  show "has_feature claims feature" using assms by (auto simp: grace_state_def Let_def split: if_splits)
  show "exp_at claims = 0 \<or> now \<le> exp_at claims + int hard_fail_days * 86400 \<or> \<not> is_i64 (exp_at claims - now)"
  proof (rule ccontr)
    assume "\<not> ?thesis"
    then have c: "exp_at claims \<noteq> 0" "exp_at claims + int hard_fail_days * 86400 < now" "is_i64 (exp_at claims - now)" by auto
    then have lt: "exp_at claims < now" by (smt (verit) mult_nonneg_nonneg of_nat_0_le_iff)
    obtain days where d: "nat (now - exp_at claims) \<le> days * 86400"
      "grace_state claims now hard_fail_days =
       (if days > hard_fail_days then HardFail claims days
        else if days > WATERMARK_DAYS then ExpiredWatermark claims days else ExpiredWarning claims days)"
      by (rule grace_state_elapsed [OF c(1,3) lt])
    have "now - exp_at claims \<le> int days * 86400" using d(1) lt by linarith
    then have "days > hard_fail_days" using c(2) by linarith
    then show False using assms d(2) by simp
  qed
qed

section \<open>What a license proves\<close>

definition header_ok :: "Codecs \<Rightarrow> string \<Rightarrow> bool" where
  "header_ok cd header_b64 \<longleftrightarrow> (\<exists>bytes. decode_base64 cd header_b64 = Inr bytes \<and> header_alg cd bytes = Inr (Some ''EdDSA''))"

definition signed_by_key :: "Codecs \<Rightarrow> string \<Rightarrow> string \<Rightarrow> string \<Rightarrow> bool" where
  "signed_by_key cd header_b64 payload_b64 signature_b64 \<longleftrightarrow>
     (\<exists>bytes. decode_base64 cd signature_b64 = Inr bytes \<and> length bytes = 64 \<and>
        verify_strict cd (header_b64 @ ''.'' @ payload_b64) bytes)"

definition token_parts :: "string \<Rightarrow> string list" where
  "token_parts raw = split_on (\<lambda>c. c = CHR ''.'') (normalize_jwt raw)"

definition signed_token :: "Codecs \<Rightarrow> string \<Rightarrow> string \<Rightarrow> bool" where
  "signed_token cd raw payload_b64 \<longleftrightarrow> 200 \<le> str_len (normalize_jwt raw) \<and>
     (\<exists>h s. token_parts raw = [h, payload_b64, s] \<and> header_ok cd h \<and> signed_by_key cd h payload_b64 s)"

definition genuine :: "Codecs \<Rightarrow> string \<Rightarrow> LicenseClaims \<Rightarrow> bool" where
  "genuine cd raw claims \<longleftrightarrow> (\<exists>payload_b64 bytes. signed_token cd raw payload_b64 \<and>
     decode_base64 cd payload_b64 = Inr bytes \<and> parse_claims cd bytes = Inr claims)"

lemma check_header_Inr: "check_header cd h = Inr u \<longleftrightarrow> header_ok cd h"
  by (auto simp: check_header_def header_ok_def split: sum.splits option.splits)

lemma check_header_Inl: "check_header cd h = Inl err \<Longrightarrow> (\<exists>msg. err = BadHeader msg) \<and> \<not> header_ok cd h"
  by (auto simp: check_header_def header_ok_def split: sum.splits option.splits if_splits)

lemma check_signature_Inr: "check_signature cd h p s = Inr u \<longleftrightarrow> signed_by_key cd h p s"
  by (auto simp: check_signature_def signed_by_key_def split: sum.splits)

lemma check_signature_Inl: "check_signature cd h p s = Inl err \<Longrightarrow> err = BadSignature \<and> \<not> signed_by_key cd h p s"
  by (auto simp: check_signature_def signed_by_key_def split: sum.splits if_splits)

lemma read_payload_Inr:
  "read_payload cd p = Inr claims \<longleftrightarrow> (\<exists>bytes. decode_base64 cd p = Inr bytes \<and> parse_claims cd bytes = Inr claims)"
  by (auto simp: read_payload_def split: sum.splits)

lemma read_payload_Inl: "read_payload cd p = Inl err \<Longrightarrow> \<exists>msg. err = BadPayload msg"
  by (auto simp: read_payload_def split: sum.splits)

text \<open>The outcomes of the verification, in the order of its checks.\<close>

definition other_parts :: "string \<Rightarrow> bool" where
  "other_parts raw \<longleftrightarrow> length (token_parts raw) \<noteq> 3"

lemma verify_cases:
  obtains (short) "str_len (normalize_jwt raw) < 200"
      "verify_jwt_with_skew cd raw now hf skew = Inl (Truncated (str_len (normalize_jwt raw)))"
    | (parts) msg where "200 \<le> str_len (normalize_jwt raw)" "length (token_parts raw) \<noteq> 3"
      "verify_jwt_with_skew cd raw now hf skew = Inl (MalformedJwt msg)"
    | (header) h p s msg where "200 \<le> str_len (normalize_jwt raw)" "token_parts raw = [h, p, s]" "\<not> header_ok cd h"
      "verify_jwt_with_skew cd raw now hf skew = Inl (BadHeader msg)"
    | (signature) h p s where "200 \<le> str_len (normalize_jwt raw)" "token_parts raw = [h, p, s]" "header_ok cd h"
      "\<not> signed_by_key cd h p s" "verify_jwt_with_skew cd raw now hf skew = Inl BadSignature"
    | (payload) p msg where "signed_token cd raw p" "read_payload cd p = Inl (BadPayload msg)"
      "verify_jwt_with_skew cd raw now hf skew = Inl (BadPayload msg)"
    | (skewed) claims where "genuine cd raw claims" "saturating_add now skew < iat claims"
      "verify_jwt_with_skew cd raw now hf skew = Inl (ClockSkew (iat claims) now skew)"
    | (accepted) claims where "genuine cd raw claims" "iat claims \<le> saturating_add now skew"
      "verify_jwt_with_skew cd raw now hf skew = Inr (grace_state claims now hf)"
proof (cases "str_len (normalize_jwt raw) < 200")
  case True
  then show thesis by (intro short) (simp_all add: verify_jwt_with_skew_def Let_def)
next
  case long: False
  show thesis
  proof (cases "\<exists>h p s. token_parts raw = [h, p, s]")
    case False
    then have "verify_jwt_with_skew cd raw now hf skew =
        Inl (MalformedJwt (''expected 3 segments, got '' @ decimal (length (token_parts raw))))"
      using long by (simp add: verify_jwt_with_skew_def Let_def token_parts_def split: list.splits)
    moreover have "length (token_parts raw) \<noteq> 3" using False by (auto simp: numeral_3_eq_3 length_Suc_conv)
    ultimately show thesis using parts long by simp
  next
    case True
    then obtain h p s where hps: "token_parts raw = [h, p, s]" by blast
    have run: "verify_jwt_with_skew cd raw now hf skew = (case check_header cd h of
          Inl err \<Rightarrow> Inl err
        | Inr _ \<Rightarrow> (case check_signature cd h p s of
            Inl err \<Rightarrow> Inl err
          | Inr _ \<Rightarrow> (case read_payload cd p of
              Inl err \<Rightarrow> Inl err
            | Inr claims \<Rightarrow> (let earliest_iat = saturating_add now skew
                in if iat claims > earliest_iat then Inl (ClockSkew (iat claims) now skew)
                   else Inr (grace_state claims now hf)))))"
      using long hps unfolding verify_jwt_with_skew_def Let_def token_parts_def by simp
    show thesis
    proof (cases "check_header cd h")
      case (Inl err)
      then show thesis using check_header_Inl [OF Inl] header long hps run by auto
    next
      case (Inr u)
      then have h: "header_ok cd h" by (simp add: check_header_Inr)
      show thesis
      proof (cases "check_signature cd h p s")
        case e: (Inl err)
        then show thesis using check_signature_Inl [OF e] signature long hps run Inr h by auto
      next
        case s: (Inr v)
        then have "signed_by_key cd h p s" by (simp add: check_signature_Inr)
        then have tok: "signed_token cd raw p" using long hps h by (auto simp: signed_token_def)
        show thesis
        proof (cases "read_payload cd p")
          case e: (Inl err)
          then show thesis using read_payload_Inl [OF e] payload tok run Inr s by auto
        next
          case c: (Inr claims)
          then have g: "genuine cd raw claims" using tok by (auto simp: genuine_def read_payload_Inr)
          have "verify_jwt_with_skew cd raw now hf skew = (if iat claims > saturating_add now skew
              then Inl (ClockSkew (iat claims) now skew) else Inr (grace_state claims now hf))"
            using run Inr s c by (simp add: Let_def)
          then show thesis using skewed [OF g] accepted [OF g] by (cases "iat claims > saturating_add now skew") auto
        qed
      qed
    qed
  qed
qed

lemma genuine_unique: "genuine cd raw c \<Longrightarrow> genuine cd raw c' \<Longrightarrow> c = c'"
  by (auto simp: genuine_def signed_token_def)

lemma genuine_parts:
  "genuine cd raw c \<Longrightarrow> 200 \<le> str_len (normalize_jwt raw) \<and> (\<exists>h p s. token_parts raw = [h, p, s] \<and> header_ok cd h \<and>
     signed_by_key cd h p s \<and> (\<exists>cl. read_payload cd p = Inr cl))"
  by (auto simp: genuine_def signed_token_def read_payload_Inr)

text \<open>
  C14. A license is accepted exactly when it is genuine and not issued in the future: three parts of
  at least two hundred bytes, a header that names EdDSA, a signature of 64 bytes that verifies
  over the first two parts, a payload that parses, and an issue time within the tolerance.
\<close>

theorem license_accepted_iff_genuine:
  "verify_jwt_with_skew cd raw now hard_fail_days skew = Inr status \<longleftrightarrow>
    (\<exists>claims. genuine cd raw claims \<and> iat claims \<le> saturating_add now skew \<and> status = grace_state claims now hard_fail_days)"
proof (cases rule: verify_cases [of raw cd now hard_fail_days skew])
  case (skewed claims)
  have "genuine cd raw c \<longleftrightarrow> c = claims" for c using genuine_unique [OF skewed(1)] skewed(1) by blast
  then show ?thesis using skewed(2,3) by simp
next
  case (accepted claims)
  have "genuine cd raw c \<longleftrightarrow> c = claims" for c using genuine_unique [OF accepted(1)] accepted(1) by blast
  then show ?thesis using accepted(2,3) by auto
next
  case short
  then have "\<not> genuine cd raw c" for c using genuine_parts [of cd raw c] by auto
  then show ?thesis using short by simp
next
  case (parts msg)
  then have "\<not> genuine cd raw c" for c using genuine_parts [of cd raw c] by auto
  then show ?thesis using parts by simp
next
  case (header h p s msg)
  then have "\<not> genuine cd raw c" for c using genuine_parts [of cd raw c] by auto
  then show ?thesis using header by simp
next
  case (signature h p s)
  then have "\<not> genuine cd raw c" for c using genuine_parts [of cd raw c] by auto
  then show ?thesis using signature by simp
next
  case (payload p msg)
  then have "\<not> genuine cd raw c" for c using genuine_parts [of cd raw c] by (auto simp: signed_token_def)
  then show ?thesis using payload by simp
qed

definition error_explained :: "Codecs \<Rightarrow> string \<Rightarrow> int \<Rightarrow> int \<Rightarrow> LicenseError \<Rightarrow> bool" where
  "error_explained cd raw now skew err = (case err of
     Io _ \<Rightarrow> False
   | Truncated n \<Rightarrow> n = str_len (normalize_jwt raw) \<and> n < 200
   | MalformedJwt _ \<Rightarrow> length (token_parts raw) \<noteq> 3
   | BadHeader _ \<Rightarrow> length (token_parts raw) = 3 \<and> \<not> header_ok cd (token_parts raw ! 0)
   | BadSignature \<Rightarrow> length (token_parts raw) = 3 \<and> header_ok cd (token_parts raw ! 0) \<and>
       \<not> signed_by_key cd (token_parts raw ! 0) (token_parts raw ! 1) (token_parts raw ! 2)
   | BadPayload _ \<Rightarrow> signed_token cd raw (token_parts raw ! 1) \<and> (\<forall>claims. \<not> genuine cd raw claims)
   | ClockSkew i n t \<Rightarrow> (\<exists>claims. genuine cd raw claims \<and> i = iat claims) \<and> n = now \<and> t = skew \<and> saturating_add n t < i)"

text \<open>
  C15. Every error says what failed, and nothing of the payload is read before the signature is
  verified: a payload error or a clock error is only reported for a token that the key signed,
  a signature error only when the header is in order, and no error of reading occurs.
\<close>

theorem license_errors_are_explained:
  assumes "verify_jwt_with_skew cd raw now hard_fail_days skew = Inl err"
  shows "error_explained cd raw now skew err"
proof (cases rule: verify_cases [of raw cd now hard_fail_days skew])
  case (payload p msg)
  then have "token_parts raw ! 1 = p" by (auto simp: signed_token_def)
  moreover have "\<not> genuine cd raw c" for c using genuine_parts [of cd raw c] payload by (auto simp: signed_token_def)
  ultimately show ?thesis using payload assms by (simp add: error_explained_def)
next
  case (skewed claims)
  then show ?thesis using assms by (auto simp: error_explained_def)
qed (use assms in \<open>simp_all add: error_explained_def\<close>)

theorem license_errors_are_explained_witness:
  "error_explained \<lparr>decode_base64 = (\<lambda>_. Inl ''bad''), header_alg = (\<lambda>_. Inr None), parse_claims = (\<lambda>_. Inl ''bad''),
     verify_strict = (\<lambda>_ _. False)\<rparr> ''e30.e30'' 0 0 (Truncated 7)"
  by (rule license_errors_are_explained [where hard_fail_days = 0]) code_simp

text \<open>
  C8. No paid feature without a genuine license: when \<^verbatim>\<open>load_and_verify\<close> returns a status that permits a
  feature, the loaded token is signed by the key, its claims list the feature, it was not issued
  in the future beyond the tolerance, and the clock is at most \<open>hard_fail_days\<close> days past its expiry,
  unless it never expires or its expiry lies below every \<open>i64\<close> difference to the clock.
\<close>

theorem paid_features_need_a_license:
  assumes "load_and_verify cd m hard_fail_days = Inr status" "permits status feature"
  shows "\<exists>raw claims. load_raw_jwt m = Inr (Some raw) \<and> genuine cd raw claims \<and> has_feature claims feature \<and>
    iat claims \<le> saturating_add (current_unix_seconds m) (skew_tolerance_seconds_from (getenv m)) \<and>
    (exp_at claims = 0 \<or> current_unix_seconds m \<le> exp_at claims + int hard_fail_days * 86400 \<or>
     \<not> is_i64 (exp_at claims - current_unix_seconds m))"
proof -
  let ?now = "current_unix_seconds m" and ?skew = "skew_tolerance_seconds_from (getenv m)"
  obtain raw where raw: "load_raw_jwt m = Inr (Some raw)" "verify_jwt_with_skew cd raw ?now hard_fail_days ?skew = Inr status"
    using assms by (auto simp: load_and_verify_def Let_def split: sum.splits option.splits)
  then obtain claims where c: "genuine cd raw claims" "iat claims \<le> saturating_add ?now ?skew"
      "status = grace_state claims ?now hard_fail_days"
    using verify_cases [of raw cd ?now hard_fail_days ?skew] by (smt (verit) Inl_Inr_False Inr_inject)
  then show ?thesis using raw(1) permitted_within_grace assms(2) by blast
qed

definition sample_claims :: LicenseClaims where
  "sample_claims = \<lparr>iss = [], sub = [], tid = [], seats = 1, tier = ''pro'', claimed_features = [''runtime_coverage''],
     iat = 0, exp_at = 100, jti = [], refresh_after = None\<rparr>"

definition sample_codecs :: Codecs where
  "sample_codecs = \<lparr>decode_base64 = (\<lambda>s. Inr (replicate 64 (of_nat (length s)))), header_alg = (\<lambda>_. Inr (Some ''EdDSA'')),
     parse_claims = (\<lambda>_. Inr sample_claims), verify_strict = (\<lambda>_ _. True)\<rparr>"

definition sample_machine :: Machine where
  "sample_machine = \<lparr>getenv = (\<lambda>key. if key = ''FALLOW_LICENSE'' then Some (replicate 200 CHR ''a'' @ ''.b.c'') else None),
     path_exists = (\<lambda>_. False), read_to_string = (\<lambda>_. Inl []), clock_seconds = Some 50\<rparr>"

lemma split_on_replicate: "\<not> p c \<Longrightarrow> p d \<Longrightarrow> split_on p (replicate n c @ d # rest) = replicate n c # split_on p rest"
  by (induction n) simp_all

lemma sample_accepted: "load_and_verify sample_codecs sample_machine 30 = Inr (Valid sample_claims 0)"
proof -
  let ?jwt = "replicate 200 CHR ''a'' @ ''.b.c''"
  have ws: "\<not> is_whitespace CHR ''a''" "filter (\<lambda>c. \<not> is_whitespace c) ''.b.c'' = ''.b.c''" "str_len (CHR ''a'' # []) = 1" by code_simp+
  have n: "normalize_jwt ?jwt = ?jwt" using ws(1,2) by (simp add: normalize_jwt_def)
  have "str_len ?jwt \<ge> 200" by (simp add: str_len_def sum_list_replicate)
  moreover have "split_on (\<lambda>c. c = CHR ''.'') ?jwt = [replicate 200 CHR ''a'', ''b'', ''c'']"
    by (simp add: split_on_replicate)
  moreover have "load_raw_jwt sample_machine = Inr (Some ?jwt)" using n by (simp add: load_raw_jwt_def sample_machine_def)
  moreover have "current_unix_seconds sample_machine = 50" "skew_tolerance_seconds_from (getenv sample_machine) = 86400"
    by code_simp+
  moreover have "saturating_add 50 86400 = 86450" "grace_state sample_claims 50 30 = Valid sample_claims 0" by code_simp+
  ultimately show ?thesis
    by (simp add: load_and_verify_def verify_jwt_with_skew_def n check_header_def check_signature_def read_payload_def
      sample_codecs_def sample_claims_def Let_def)
qed

theorem paid_features_need_a_license_witness:
  "\<exists>raw claims. load_raw_jwt sample_machine = Inr (Some raw) \<and> genuine sample_codecs raw claims \<and>
     has_feature claims RuntimeCoverage"
proof -
  note sample_accepted
  moreover have "permits (Valid sample_claims 0) RuntimeCoverage" by code_simp
  ultimately show ?thesis by (blast dest: paid_features_need_a_license)
qed

end
