(* ===== verification/Spec2Isabelle.thy ===== *)
theory Spec2Isabelle
  imports Import_Cycles Dead_Code Clone_Detector License
begin

text \<open>
  A verification library for fallow, a static analyser for TypeScript and JavaScript written in
  Rust (crates under \<^verbatim>\<open>src/crates/\<close>; all paths below are relative to it).

  \<^bold>\<open>The program.\<close>  A run extracts every file into a record of its imports, exports, re-exports and
  member accesses, resolves the specifiers, and builds a module graph: edges with their symbols,
  references on exports, credits through namespaces, reachability, re-export chains, and cycles
  (crate \<^verbatim>\<open>graph\<close>).  Detectors (\<^verbatim>\<open>core/src/analyze\<close>) read the finished graph; their findings pass through rule
  severities (\<^verbatim>\<open>config\<close>) and inline suppressions (\<^verbatim>\<open>types\<close>, \<^verbatim>\<open>core/src/suppress.rs\<close>), which are
  themselves reported when stale.  Beside the graph stands the duplicate-code analysis
  (\<^verbatim>\<open>core/src/duplicates\<close>): tokens are normalised and hashed, a prefilter drops files without a
  repeated window, a detector (suffix array or rolling hash) returns raw groups, and these are
  filtered and reported.  Paid features are guarded by a signed license (crate \<^verbatim>\<open>license\<close>).

  \<^bold>\<open>Reading the model.\<close>  A struct is a record, an enum a datatype, each with the source's names as
  far as Isabelle allows; a suffix or prefix marks a name that clashes.  Functions are executable
  definitions with explicit state passing; a \<^verbatim>\<open>&mut\<close> argument is returned updated.  Fallible code
  returns an option or a sum with the error on the left.  A \<^verbatim>\<open>u32\<close> or \<^verbatim>\<open>u64\<close> whose width matters is
  a word (hashes, ranks, packed bit sets); an \<^verbatim>\<open>i64\<close> of the license is an integer with the
  wrap-around of the release build written out; an index that stays below a length is a natural.
  A \<^verbatim>\<open>str\<close> is a list of characters below 256, its bytes those of its UTF-8 encoding; where a
  source is only indexed by byte offsets (\<open>Source_Positions\<close>, \<open>Line_Offsets\<close>) it is the list of its
  bytes.  A path is the list of its components.

  \<^bold>\<open>Parameters.\<close>  Code that is not under \<^verbatim>\<open>src/\<close> is an argument of the definitions that use it: the
  orders in which hash maps are iterated (any order that lists the keys), path canonicalisation
  and \<^verbatim>\<open>dunce::simplified\<close>, xxh3 on the bytes of a token, the environment switch of the
  detectors, the existence of paths, globs and regular expressions of rules, the text of a source
  file with the binding analysis of oxc, Base64, the JSON reader and Ed25519 of the license with
  its clock, files and environment.  What a theorem needs of a parameter is a premise of it, and its witness
  instantiates the parameter with a concrete function.
\<close>

text \<open>
  \<^bold>\<open>Shared theories.\<close>
    \<^item> \<open>Fallow_Prelude\<close>: machine integers, the part of Rust's string and slice library in use, generic
      lemmas on lists, options and maps, and the collections of hints.
    \<^item> \<open>Worklist\<close>: the locale of a search with visited items and pending ones; it ends and visits
      exactly the reachable items.  Interpreted by \<open>Reachability\<close> for the queue of the reachability
      search and for the stack of the barrel walk, and by \<open>Re_Exports\<close> for the star targets of
      entry points.
    \<^item> \<open>Tarjan_Search\<close>: the locale of the iterative search for strongly connected components;
      interpreted twice, by \<open>Import_Components\<close> and \<open>Re_Export_Cycles\<close>.
    \<^item> \<open>Fixpoint_Passes\<close>: the locale of a capped loop over monotone steps; interpreted by \<open>Re_Exports\<close>.
    \<^item> \<open>Module_Growth\<close>: the order in which modules only gain references and exports.

  \<^bold>\<open>Rules and suppressions.\<close>
    \<^item> \<open>Issue_Kinds\<close> (\<^verbatim>\<open>types/src/suppress.rs\<close>, \<^verbatim>\<open>types/src/issue_meta.rs\<close>): kinds, discriminants, wire
      tokens, the metadata table and the token parser.
    \<^item> \<open>Rules_Config\<close> (\<^verbatim>\<open>config/src/config/rules.rs\<close>): severities, defaults, partial overrides per path.
    \<^item> \<open>Suppressions\<close> (\<^verbatim>\<open>types/src/suppress.rs\<close>, \<^verbatim>\<open>extract/src/suppress.rs\<close>): directives, both parsers; a
      printed directive parses to itself.
    \<^item> \<open>Typo_Suggestions\<close>: Levenshtein distance, equal to the least number of edits, and the search
      for the closest known name.
    \<^item> \<open>Stale_Suppressions\<close> (\<^verbatim>\<open>types/src/results.rs\<close>, \<^verbatim>\<open>types/src/output.rs\<close>), \<open>Suppression_Context\<close>
      (\<^verbatim>\<open>core/src/suppress.rs\<close>): the used flags, the queries
      that set them, and the findings about unused, unknown and unexplained directives.  The
      invariant of the flags is that a directive is used exactly when it was the first match of
      some query; the stale findings are the unused ones.
\<close>

text \<open>
  \<^bold>\<open>Module graph.\<close>
    \<^item> \<open>Graph_Types\<close> (\<^verbatim>\<open>graph/src/graph/types.rs\<close> and the read-only queries of \<^verbatim>\<open>mod.rs\<close>): modules with
      packed flags (refining three booleans), edges, exports, references, resolved modules.
    \<^item> \<open>Graph_Build\<close>, \<open>Reference_Narrowing\<close> (\<^verbatim>\<open>build.rs\<close>, \<^verbatim>\<open>narrowing.rs\<close>): the flat edge storage with its
      indexes and the references each imported symbol leaves on its target.
    \<^item> \<open>Namespace_Credits\<close> (\<^verbatim>\<open>namespace_aliases.rs\<close>, \<^verbatim>\<open>namespace_re_exports.rs\<close>): member accesses through
      namespace objects.  Chains of re-exports are walked with fuel one above the number of
      modules, which is proved to be enough because every step visits a new module.
    \<^item> \<open>Reachability\<close> (\<^verbatim>\<open>reachability.rs\<close>, \<^verbatim>\<open>re_export_reachability.rs\<close>): the three breadth-first searches and the walk over barrels.
    \<^item> \<open>Re_Export_Cycles\<close>, \<open>Re_Exports\<close>, \<open>Re_Export_Settling\<close> (\<^verbatim>\<open>re_exports/mod.rs\<close>, \<^verbatim>\<open>propagate.rs\<close>): cycles
      of re-exports, the propagation of references along re-exports in passes up to the cap of
      the code, and why the cap suffices without cycles (a pass settles one more level of the
      chains) while it can be exceeded with them.
    \<^item> \<open>Import_Components\<close>, \<open>Import_Cycles\<close> (\<^verbatim>\<open>cycles.rs\<close>): components of the runtime import graph and
      the depth-bounded enumeration of elementary cycles; loops that follow the code's own
      stack are while-loops proved to end by a measure on the unvisited part.
    \<^item> \<open>Module_Graph\<close> (\<^verbatim>\<open>graph/mod.rs\<close>): entry points and the composition of all phases.
    \<^item> \<open>Graph_Usage\<close>: what the phases promise together to the detectors of unused exports.  When the
      propagation stops below its cap, what a file imports, directly or through re-exports and
      stars, and what an entry point re-exports, carries a reference in the final graph at every
      module that has an export of the name itself; so do members read through namespaces.  A
      name that a source has only through its own star re-export, reached by a named re-export,
      loses its references; an example shows it.

  \<^bold>\<open>Dead code\<close> (\<^verbatim>\<open>core/src/analyze\<close>).
    \<^item> \<open>Line_Offsets\<close>: the line tables of findings; a position is that of the line start before it.
    \<^item> \<open>Detector_Pass\<close>: the locale of a pass over the modules whose steps ask the suppressions and so
      set used flags; the findings do not depend on the flags.  Interpreted by the three
      detectors.  The path predicates (\<^verbatim>\<open>predicates/file.rs\<close>).
    \<^item> \<open>Unused_Files\<close>, \<open>Unused_Exports\<close>, \<open>Union_Find\<close>, \<open>Duplicate_Exports\<close> (\<^verbatim>\<open>unused_files.rs\<close>,
      \<^verbatim>\<open>unused_exports.rs\<close>, rules in \<^verbatim>\<open>plugins/mod.rs\<close> and \<^verbatim>\<open>config/src/config\<close>): the detectors with all
      their exemptions.  The groups of duplicate exports are the connected components of the
      exports under common importers, whatever the orders of the hash maps.
    \<^item> \<open>Dead_Code\<close>: the detectors on a built graph: a file is reported as unused exactly when it is
      unreached and not exempt, no import of a reachable file is reported as unused, and the
      search for duplicates ends with exactly the related groups.
\<close>

text \<open>
  \<^bold>\<open>Duplicate code\<close> (\<^verbatim>\<open>core/src/duplicates\<close>).
    \<^item> \<open>Clone_Tokens\<close> (\<^verbatim>\<open>token_types.rs\<close>, \<^verbatim>\<open>normalize.rs\<close>): tokens, modes, and the bytes hashed for a token,
      which keep distinct kinds and payloads apart.
    \<^item> \<open>Shingle_Filter\<close> (\<^verbatim>\<open>shingle_filter.rs\<close>): the polynomial window hash in \<^verbatim>\<open>u64\<close> arithmetic, rolled
      in one step per position, and the prefilter; equal windows have equal hashes, so a file
      that shares a window is kept.
    \<^item> \<open>Clone_Corpus\<close> (\<^verbatim>\<open>detect/ranking.rs\<close>, \<^verbatim>\<open>concatenation.rs\<close>, \<^verbatim>\<open>boundary.rs\<close>): dense ranks of hashes, the
      concatenated text with a distinct negative sentinel after each file, boundary prefixes.
    \<^item> \<open>Suffix_Order\<close>, \<open>Suffix_Sorting\<close> (\<^verbatim>\<open>detect/suffix_array.rs\<close>): the specification (the permutation that
      sorts the suffixes, shown unique) and the induced-sorting routine of the code, recursive on
      the reduced text.  \<open>Suffix_Types\<close>: the types and bucket limits it computes.
      \<open>Induced_Sorting\<close>: both passes sort for any relation determined by the first symbol, the type and
      the relation of the next positions.  \<open>Lms_Placement\<close>, \<open>Lms_Names\<close>: the two uses of the passes
      and the names of substrings.  \<open>Suffix_Array\<close>: the routine returns the suffix array.
    \<^item> \<open>Lcp_Array\<close> (\<^verbatim>\<open>detect/lcp.rs\<close>), \<open>Clone_Extraction\<close> (\<^verbatim>\<open>detect/extraction.rs\<close>): common prefixes and the
      stack of open intervals.  \<open>Raw_Clones\<close>: every raw group consists of equal disjoint windows,
      and in a corpus without section boundaries equal windows of different files lie in a
      group.  With boundaries a duplicate can be lost; \<open>Clone_Detector\<close> has an example.
    \<^item> \<open>Rolling_Detector\<close>, \<open>Rolling_Clones\<close> (\<^verbatim>\<open>detect/rolling.rs\<close>): seed classes by hash and comparison,
      extension, left maximality, recursion on children.  The same safety statement as for
      the suffix array; collisions of the hash do not matter.
    \<^item> \<open>Source_Positions\<close>, \<open>Interval_Index\<close>, \<open>Clone_Filter\<close> (\<^verbatim>\<open>detect/utils.rs\<close>, \<^verbatim>\<open>detect/filtering.rs\<close>): lines
      and columns, the index of covered spans, subset removal and merging of instances.
    \<^item> \<open>Clone_Report\<close> (\<^verbatim>\<open>detect/statistics.rs\<close>, \<^verbatim>\<open>families.rs\<close>, parts of \<^verbatim>\<open>duplicates/mod.rs\<close>), \<open>Clone_Detector\<close>
      (\<^verbatim>\<open>detect/mod.rs\<close>, \<^verbatim>\<open>detect_and_postprocess\<close>): statistics, filters, families, mirrored
      directories, and the pipeline in all its entry points.

  \<^bold>\<open>License\<close> (\<open>License\<close>, \<^verbatim>\<open>license/src/lib.rs\<close>): loading a token, checking its parts, signature, claims and
  dates, the ladder of grace states and the features each permits.  A token is accepted exactly
  when it is genuine; every error is explained by the token; no paid feature is permitted
  without a genuine license inside its grace period.
\<close>

text \<open>
  \<^bold>\<open>Bounds and termination.\<close>  Recursion that is not structural carries a measure in its termination
  proof (remaining tokens for extensions, length of the text for the recursion of the suffix
  array, unvisited nodes for searches).  The cap of the re-export passes is the code's own and so is
  modelled as such, with its error flag.  Fuel appears in the chained namespace credits only.
  A union-find search, like every loop over a hash map, ends for any order of the map.
  Ranks and text positions are assumed to fit their types where the code casts them: the premise
  is that the corpus has fewer than \<open>2 ^ 32\<close> distinct hashes.

  \<^bold>\<open>Simplifications.\<close>  The percentage of duplicated lines is an exact rational in place of an \<^verbatim>\<open>f64\<close>
  with two roundings.  The suffix array computes on unbounded integers in place of \<^verbatim>\<open>i64\<close>, which
  ranks and sentinels do not leave.  The suppression context keeps its files in the order of
  insertion where the code iterates a hash map, so the order of stale findings is that of the
  model.  Parallel iterators run in order; the findings of a pass do not depend on it.

  \<^bold>\<open>Not modelled.\<close>
    \<^item> Extraction (\<^verbatim>\<open>extract\<close>) and the tokeniser walk the syntax trees of the oxc parser, which is not
      under \<^verbatim>\<open>src/\<close>; their results are the inputs of the graph and of the clone detector.
    \<^item> Module resolution calls the oxc resolver and the file system; its result type is modelled.
    \<^item> The other detectors of \<^verbatim>\<open>core/src/analyze\<close> (members, dependencies, components, routes,
      boundaries, security), which rest on package manifests, framework data and extracted
      syntax facts, and the plugins with their data tables.
    \<^item> Reading and merging configuration files (serde, TOML, JSON), the token cache, file discovery.
    \<^item> The command line with its reports and health scores in floating point, the language server,
      the agent and Node interfaces, and the ingestion of V8 coverage (JSON, source maps).
    \<^item> Timings, traces and log lines, except where a log line is the observable outcome: the warned
      set of the suppression context and the flag of the exceeded cap are part of the state.
\<close>

end
